(* ===== verification/Wissbi_Prelude.thy ===== *)
theory Wissbi_Prelude
  imports Main "HOL-Library.Word"
begin

text \<open>
  The prelude of the development: the rule collections, the fault type of the whole model, the
  \<^verbatim>\<open>std::string\<close> and \<^verbatim>\<open>size_t\<close> operations the sources call, decimal printing and reading, and
  the list facts that several components share.

  Bytes are \<^typ>\<open>char\<close>, byte strings are \<^typ>\<open>string\<close>. A \<^verbatim>\<open>size_t\<close> is a \<^typ>\<open>nat\<close> below \<open>2 ^ 64\<close>,
  with the wrap-around of its sums and differences written out in \<open>size_add\<close> and \<open>size_sub\<close>.
\<close>

named_theorems wissbi_string "facts on the std::string operations"
named_theorems wissbi_stream "facts on the iostream operations"
named_theorems wissbi_policy "what the operations of the I/O policies return"

subsection \<open>Faults\<close>

text \<open>
  Everything a C++ call can do besides returning: write or read past a fixed array, use an iterator
  outside a container, fail an assertion, let an exception escape, never return.
\<close>

datatype fault =
    WriteOverflow
  | ReadOverflow
  | BadIterator
  | AssertFailure
  | Exception string
  | NoReturn

subsection \<open>Sizes\<close>

text \<open>Unsigned integers of the widths the sources use.\<close>

type_synonym u8 = "8 word"
type_synonym u16 = "16 word"
type_synonym u32 = "32 word"
type_synonym u64 = "64 word"

definition npos :: nat where
  "npos = 2 ^ 64 - 1"

definition size_add :: "nat \<Rightarrow> nat \<Rightarrow> nat" where
  "size_add a b = (a + b) mod 2 ^ 64"

definition size_sub :: "nat \<Rightarrow> nat \<Rightarrow> nat" where
  "size_sub a b = (a + (2 ^ 64 - b)) mod 2 ^ 64"

definition size_of_int :: "int \<Rightarrow> nat" where
  "size_of_int i = nat (i mod 2 ^ 64)"

lemma size_add_no_wrap [simp]: "a + b < 2 ^ 64 \<Longrightarrow> size_add a b = a + b"
  by (simp add: size_add_def)

lemma size_sub_no_wrap [simp]: "b \<le> a \<Longrightarrow> a < 2 ^ 64 \<Longrightarrow> size_sub a b = a - b"
proof -
  assume "b \<le> a" and "a < 2 ^ 64"
  then have "a + (2 ^ 64 - b) = (a - b) + 2 ^ 64" and "a - b < 2 ^ 64" by simp_all
  then show "size_sub a b = a - b" by (simp only: size_sub_def mod_add_self2 mod_less)
qed

lemma size_add_npos_1 [simp]: "size_add npos 1 = 0"
  by (simp add: size_add_def npos_def)

lemma size_of_int_nonneg [simp]: "0 \<le> i \<Longrightarrow> i < 2 ^ 64 \<Longrightarrow> size_of_int i = nat i"
  by (simp add: size_of_int_def)

lemma size_of_int_nat [simp]: "n < 2 ^ 64 \<Longrightarrow> size_of_int (int n) = n"
  by (simp add: size_of_int_def)

subsection \<open>std::string\<close>

text \<open>\<^verbatim>\<open>s.find(c)\<close> for a one-character pattern, and \<^verbatim>\<open>s.substr(pos, n)\<close> for a valid position.\<close>

fun find_index :: "char \<Rightarrow> string \<Rightarrow> nat option" where
  "find_index c [] = None"
| "find_index c (x # xs) = (if x = c then Some 0 else map_option Suc (find_index c xs))"

definition str_find :: "string \<Rightarrow> char \<Rightarrow> nat" where
  "str_find s c = (case find_index c s of None \<Rightarrow> npos | Some i \<Rightarrow> i)"

definition str_substr :: "string \<Rightarrow> nat \<Rightarrow> nat \<Rightarrow> string" where
  "str_substr s pos n = take n (drop pos s)"

definition str_replace :: "char \<Rightarrow> char \<Rightarrow> string \<Rightarrow> string" where
  "str_replace a b s = map (\<lambda>x. if x = a then b else x) s"

lemma find_index_None [simp]: "find_index c s = None \<longleftrightarrow> c \<notin> set s"
  by (induction s) auto

lemma find_index_append [wissbi_string]:
  "c \<notin> set xs \<Longrightarrow> find_index c (xs @ c # ys) = Some (length xs)"
  by (induction xs) auto

lemma str_find_absent [wissbi_string]: "c \<notin> set s \<Longrightarrow> str_find s c = npos"
  unfolding str_find_def by (simp flip: find_index_None)

lemma str_find_first [wissbi_string]:
  "c \<notin> set xs \<Longrightarrow> str_find (xs @ c # ys) c = length xs"
  by (simp add: str_find_def find_index_append)

lemma str_replace_simps [simp]:
  "str_replace a b [] = []"
  "str_replace a b (x # xs) = (if x = a then b else x) # str_replace a b xs"
  "str_replace a b (xs @ ys) = str_replace a b xs @ str_replace a b ys"
  "length (str_replace a b xs) = length xs"
  by (simp_all add: str_replace_def)

lemma str_replace_absent [wissbi_string]: "a \<noteq> b \<Longrightarrow> a \<notin> set (str_replace a b s)"
  by (auto simp: str_replace_def)

lemma str_replace_id [wissbi_string]: "a \<notin> set s \<Longrightarrow> str_replace a b s = s"
  by (induction s) auto

lemma str_replace_inverse [wissbi_string]:
  "b \<notin> set s \<Longrightarrow> str_replace b a (str_replace a b s) = s"
  by (induction s) auto

lemma set_str_replace [wissbi_string]: "set (str_replace a b s) \<subseteq> insert b (set s)"
  by (auto simp: str_replace_def)

subsection \<open>Decimal numbers\<close>

definition is_digit :: "char \<Rightarrow> bool" where
  "is_digit c \<longleftrightarrow> (48::nat) \<le> of_char c \<and> of_char c \<le> (57::nat)"

definition digit_val :: "char \<Rightarrow> nat" where
  "digit_val c = of_char c - 48"

definition digit_char :: "nat \<Rightarrow> char" where
  "digit_char d = char_of (48 + d)"

fun show_nat :: "nat \<Rightarrow> string" where
  "show_nat n = (if n < 10 then [digit_char n] else show_nat (n div 10) @ [digit_char (n mod 10)])"

declare show_nat.simps [simp del]

definition digits_val :: "string \<Rightarrow> nat" where
  "digits_val ds = foldl (\<lambda>a c. 10 * a + digit_val c) 0 ds"

definition show_int :: "int \<Rightarrow> string" where
  "show_int i = (if i < 0 then CHR ''-'' # show_nat (nat (- i)) else show_nat (nat i))"

lemma digit_char_props [simp]:
  "d < 10 \<Longrightarrow> is_digit (digit_char d)"
  "d < 10 \<Longrightarrow> digit_val (digit_char d) = d"
  by (simp_all add: is_digit_def digit_val_def digit_char_def)

lemma show_nat_digits [simp]: "\<forall>c \<in> set (show_nat n). is_digit c"
proof (induction n rule: show_nat.induct)
  case (1 n)
  then show ?case by (cases "n < 10") (auto simp: show_nat.simps [of n])
qed

lemma show_nat_not_Nil [simp]: "show_nat n \<noteq> []"
  by (simp add: show_nat.simps [of n])

lemma digits_val_snoc: "digits_val (ds @ [c]) = 10 * digits_val ds + digit_val c"
  by (simp add: digits_val_def)

lemma digits_val_show_nat [simp]: "digits_val (show_nat n) = n"
proof (induction n rule: show_nat.induct)
  case (1 n)
  show ?case
  proof (cases "n < 10")
    case True
    then show ?thesis by (simp add: show_nat.simps [of n] digits_val_def)
  next
    case False
    with "1.IH" have "digits_val (show_nat (n div 10)) = n div 10" by simp
    with False show ?thesis by (simp add: show_nat.simps [of n] digits_val_snoc)
  qed
qed

lemma show_nat_inj: "show_nat m = show_nat n \<longleftrightarrow> m = n"
  by (metis digits_val_show_nat)

lemma show_nat_no_char [simp]: "\<not> is_digit c \<Longrightarrow> c \<notin> set (show_nat n)"
  using show_nat_digits by blast

lemma not_is_digit_simps [simp]:
  "\<not> is_digit CHR '' ''" "\<not> is_digit CHR '':''" "\<not> is_digit CHR '',''" "\<not> is_digit CHR ''/''"
  "\<not> is_digit CHR ''#''" "\<not> is_digit CHR ''-''" "\<not> is_digit CHR ''+''" "\<not> is_digit CHR ''.''"
  "\<not> is_digit CHR 0x0A" "\<not> is_digit CHR 0x00"
  by (simp_all add: is_digit_def)

subsection \<open>Fixed arrays\<close>

text \<open>
  Copying bytes into a fixed array at an offset. Going past the end of the array is a fault, not a
  longer array.
\<close>

definition buf_store :: "string \<Rightarrow> nat \<Rightarrow> string \<Rightarrow> fault + string" where
  "buf_store b off xs =
     (if xs = [] then Inr b
      else if off + length xs \<le> length b then Inr (take off b @ xs @ drop (off + length xs) b)
      else Inl WriteOverflow)"

lemma buf_store_fits [simp]:
  "off + length xs \<le> length b \<Longrightarrow>
     buf_store b off xs = Inr (take off b @ xs @ drop (off + length xs) b)"
  by (auto simp: buf_store_def)

lemma buf_store_length: "buf_store b off xs = Inr b' \<Longrightarrow> length b' = length b"
  by (auto simp: buf_store_def split: if_splits)

lemma buf_store_overflow [simp]:
  "length b < off + length xs \<Longrightarrow> xs \<noteq> [] \<Longrightarrow> buf_store b off xs = Inl WriteOverflow"
  by (simp add: buf_store_def)

lemma buf_store_Nil [simp]: "buf_store b off [] = Inr b"
  by (simp add: buf_store_def)

text \<open>Reading the first \<open>n\<close> bytes of an array.\<close>

definition buf_load :: "string \<Rightarrow> nat \<Rightarrow> fault + string" where
  "buf_load b n = (if n \<le> length b then Inr (take n b) else Inl ReadOverflow)"

lemma buf_load_fits [simp]: "n \<le> length b \<Longrightarrow> buf_load b n = Inr (take n b)"
  by (simp add: buf_load_def)

lemma buf_load_overflow [simp]: "length b < n \<Longrightarrow> buf_load b n = Inl ReadOverflow"
  by (simp add: buf_load_def)

text \<open>\<^verbatim>\<open>std::string::c_str\<close> as its C reader sees it: the bytes before the first NUL.\<close>

definition c_str :: "string \<Rightarrow> string" where
  "c_str s = takeWhile (\<lambda>c. c \<noteq> CHR 0x00) s"

lemma c_str_id [simp]: "CHR 0x00 \<notin> set s \<Longrightarrow> c_str s = s"
  unfolding c_str_def by (rule takeWhile_eq_all_conv [THEN iffD2]) auto

subsection \<open>Lists\<close>

lemma takeWhile_all_append [simp]:
  "\<forall>c \<in> set xs. P c \<Longrightarrow> \<not> P y \<Longrightarrow> takeWhile P (xs @ y # ys) = xs"
  "\<forall>c \<in> set xs. P c \<Longrightarrow> \<not> P y \<Longrightarrow> dropWhile P (xs @ y # ys) = y # ys"
  by (induction xs) auto

lemma takeWhile_all [simp]:
  "\<forall>c \<in> set xs. P c \<Longrightarrow> takeWhile P xs = xs"
  "\<forall>c \<in> set xs. P c \<Longrightarrow> dropWhile P xs = []"
  by (induction xs) auto

subsection \<open>Counting in a list of threads\<close>

definition how_many :: "('a \<Rightarrow> bool) \<Rightarrow> 'a list \<Rightarrow> nat" where
  "how_many P xs = length (filter P xs)"

lemma how_many_simps [simp]:
  "how_many P [] = 0" "how_many P (xs @ ys) = how_many P xs + how_many P ys"
  "how_many P [x] = of_bool (P x)"
  "how_many P (replicate n x) = (if P x then n else 0)"
  by (simp_all add: how_many_def filter_replicate)

lemma how_many_update:
  assumes "i < length xs"
  shows "how_many P (xs[i := y]) + of_bool (P (xs ! i)) = how_many P xs + of_bool (P y)"
proof -
  have "xs = take i xs @ xs ! i # drop (Suc i) xs" using assms by (rule id_take_nth_drop)
  then have "how_many P xs = length (filter P (take i xs)) + of_bool (P (xs ! i)) + length (filter P (drop (Suc i) xs))"
    by (metis (no_types) how_many_def append_assoc append_Cons append_Nil filter_append length_append how_many_simps(3) add.assoc)
  then show ?thesis using assms by (simp add: how_many_def upd_conv_take_nth_drop)
qed

lemma how_many_pos: "i < length xs \<Longrightarrow> P (xs ! i) \<Longrightarrow> 0 < how_many P xs"
  by (metis (no_types, lifting) how_many_def filter_empty_conv length_greater_0_conv nth_mem)

lemma how_many_zero: "how_many P xs = 0 \<longleftrightarrow> list_all (\<lambda>x. \<not> P x) xs"
  by (simp add: how_many_def filter_empty_conv list_all_iff)

end
