(* ===== verification/Msg_Buf.thy ===== *)
theory Msg_Buf
  imports Wissbi_Prelude
begin

text \<open>
  The message buffer of \<^verbatim>\<open>src/msg_buf.hpp\<close> and the shape of the two operations every I/O policy has.
  A policy operation takes the buffer and the state it works on, and either faults or returns its
  Boolean result with the new buffer and state.

  The locales state what the clients of a policy (\<^verbatim>\<open>MsgFilter\<close>, the programs) rely on:
  \<open>input_policy\<close> and \<open>output_policy\<close> for any policy, \<open>stream_codec\<close> for a policy that reads frames off
  a byte stream.
\<close>

definition MAX_MSG_SIZE :: nat where
  "MAX_MSG_SIZE = 4096"

record msg_buf =
  mtype :: int
  buf :: string
  len :: nat

type_synonym 's op = "msg_buf \<Rightarrow> 's \<Rightarrow> fault + (bool \<times> msg_buf \<times> 's)"

text \<open>The array has its declared size; a message also has its length within the array.\<close>

definition wf_buf :: "msg_buf \<Rightarrow> bool" where
  "wf_buf m \<longleftrightarrow> length (buf m) = MAX_MSG_SIZE"

definition wf_msg :: "msg_buf \<Rightarrow> bool" where
  "wf_msg m \<longleftrightarrow> wf_buf m \<and> len m \<le> MAX_MSG_SIZE"

definition payload :: "msg_buf \<Rightarrow> string" where
  "payload m = take (len m) (buf m)"

text \<open>A buffer with the given payload, used to state examples.\<close>

definition msg_of :: "string \<Rightarrow> msg_buf" where
  "msg_of s = \<lparr>mtype = 1, buf = s @ replicate (MAX_MSG_SIZE - length s) CHR 0x00, len = length s\<rparr>"

lemma MAX_MSG_SIZE_bounds [simp]: "0 < MAX_MSG_SIZE" "MAX_MSG_SIZE < 2 ^ 32"
  by (simp_all add: MAX_MSG_SIZE_def)

lemma wf_buf_update [simp]:
  "wf_buf (m\<lparr>len := n\<rparr>) = wf_buf m"
  "wf_buf (m\<lparr>mtype := t\<rparr>) = wf_buf m"
  "wf_buf (m\<lparr>buf := b\<rparr>) = (length b = MAX_MSG_SIZE)"
  by (simp_all add: wf_buf_def)

lemma wf_bufD: "wf_buf m \<Longrightarrow> length (buf m) = MAX_MSG_SIZE"
  by (simp add: wf_buf_def)

lemma wf_msgD [dest]: "wf_msg m \<Longrightarrow> wf_buf m \<and> len m \<le> MAX_MSG_SIZE"
  by (simp add: wf_msg_def)

lemma msg_of_props [simp]:
  "length s \<le> MAX_MSG_SIZE \<Longrightarrow> wf_msg (msg_of s)"
  "payload (msg_of s) = s"
  "len (msg_of s) = length s"
  by (simp_all add: msg_of_def wf_msg_def wf_buf_def payload_def)

lemma length_payload: "wf_msg m \<Longrightarrow> length (payload m) = len m"
  by (simp add: payload_def wf_msg_def wf_buf_def)

lemma payload_cong: "buf m' = buf m \<Longrightarrow> len m' = len m \<Longrightarrow> payload m' = payload m"
  by (simp add: payload_def)

subsection \<open>Interfaces of the I/O policies\<close>

text \<open>
  Every \<^verbatim>\<open>Get\<close> keeps the array's size, and sets the length to 0 when it returns false.
\<close>

locale input_policy =
  fixes get :: "'s op"
  assumes get_wf: "wf_buf m \<Longrightarrow> get m s = Inr (b, m', s') \<Longrightarrow> wf_buf m'"
    and get_false: "get m s = Inr (False, m', s') \<Longrightarrow> len m' = 0"
begin

lemma get_false_payload: "get m s = Inr (False, m', s') \<Longrightarrow> payload m' = []"
  by (simp add: payload_def get_false)

end

text \<open>Every \<^verbatim>\<open>Put\<close> leaves the message's bytes and length alone.\<close>

locale output_policy =
  fixes put :: "'s op"
  assumes put_buf: "put m s = Inr (b, m', s') \<Longrightarrow> buf m' = buf m"
    and put_len: "put m s = Inr (b, m', s') \<Longrightarrow> len m' = len m"
begin

lemma put_payload: "put m s = Inr (b, m', s') \<Longrightarrow> payload m' = payload m"
  by (rule payload_cong) (auto dest: put_buf put_len)

lemma put_wf: "put m s = Inr (b, m', s') \<Longrightarrow> wf_msg m \<Longrightarrow> wf_msg m'"
  by (auto simp: wf_msg_def wf_buf_def dest: put_buf put_len)

end

text \<open>
  A codec: \<open>frame x\<close> are the bytes (or whatever a channel moves) that carry the payload \<open>x\<close>, \<open>fits x\<close> says
  when they can, and \<open>get\<close> takes one frame off what is pending.
\<close>

locale stream_codec = input_policy get for get :: "'s op" +
  fixes ready :: "'s \<Rightarrow> bool"
    and pending :: "'s \<Rightarrow> 'c list"
    and frame :: "string \<Rightarrow> 'c list"
    and fits :: "string \<Rightarrow> bool"
  assumes get_frame:
      "ready s \<Longrightarrow> fits x \<Longrightarrow> pending s = frame x @ r \<Longrightarrow> wf_buf m \<Longrightarrow>
         \<exists>m' s'. get m s = Inr (True, m', s') \<and> len m' = length x \<and> payload m' = x \<and>
                 ready s' \<and> pending s' = r"
    and get_at_end:
      "ready s \<Longrightarrow> pending s = [] \<Longrightarrow> wf_buf m \<Longrightarrow> \<exists>m' s'. get m s = Inr (False, m', s')"

text \<open>Reading frames until the end of the stream.\<close>

fun get_all :: "'s op \<Rightarrow> nat \<Rightarrow> msg_buf \<Rightarrow> 's \<Rightarrow> fault + string list" where
  "get_all get 0 m s = Inr []"
| "get_all get (Suc n) m s =
     (case get m s of
        Inl e \<Rightarrow> Inl e
      | Inr (False, m', s') \<Rightarrow> Inr []
      | Inr (True, m', s') \<Rightarrow>
          (case get_all get n m' s' of Inl e \<Rightarrow> Inl e | Inr xs \<Rightarrow> Inr (payload m' # xs)))"

context stream_codec
begin

lemma get_all_frames:
  assumes "ready s" and "\<forall>x \<in> set xs. fits x" and "pending s = concat (map frame xs)"
    and "wf_buf m" and "length xs < n"
  shows "get_all get n m s = Inr xs"
  using assms
proof (induction xs arbitrary: n m s)
  case Nil
  then obtain k where n: "n = Suc k" by (cases n) auto
  from Nil have "pending s = []" by simp
  with Nil.prems get_at_end obtain m' s' where "get m s = Inr (False, m', s')" by blast
  with n show ?case by simp
next
  case (Cons x xs)
  then obtain k where n: "n = Suc k" by (cases n) auto
  from Cons.prems have "pending s = frame x @ concat (map frame xs)" and "fits x" by auto
  with Cons.prems(1,4) get_frame obtain m' s' where g: "get m s = Inr (True, m', s')"
    and p: "payload m' = x" and r: "ready s'" and q: "pending s' = concat (map frame xs)"
    by blast
  from g Cons.prems(4) get_wf have "wf_buf m'" by blast
  then have "get_all get k m' s' = Inr xs"
    using Cons.IH [of s' m' k] Cons.prems r q n by simp
  with n g p show ?case by simp
qed

end

end
