(* ===== verification/Iostreams.thy ===== *)
theory Iostreams
  imports Wissbi_Prelude
begin

text \<open>
  The part of \<^verbatim>\<open>std::istream\<close> and \<^verbatim>\<open>std::ostream\<close> the program uses, as the C++ library in the
  repository defines it (\<^verbatim>\<open>3rd_party/libcxx/include/istream\<close>): the sentry, formatted extraction of an
  integer, \<^verbatim>\<open>get\<close>, \<^verbatim>\<open>read\<close> and \<^verbatim>\<open>getline\<close>, with the state bits and \<^verbatim>\<open>gcount\<close>.

  An input stream holds the bytes it has not delivered yet. An output stream holds the bytes
  written to it; a stream whose state is bad drops what is written.
\<close>

record istream =
  rdbuf :: string
  eofbit :: bool
  failbit :: bool
  gcount :: int

record ostream =
  written :: string
  badbit :: bool

definition istream_of :: "string \<Rightarrow> istream" where
  "istream_of s = \<lparr>rdbuf = s, eofbit = False, failbit = False, gcount = 0\<rparr>"

definition good :: "istream \<Rightarrow> bool" where
  "good is \<longleftrightarrow> \<not> eofbit is \<and> \<not> failbit is"

definition is_space :: "char \<Rightarrow> bool" where
  "is_space c \<longleftrightarrow> c \<in> {CHR '' '', CHR 0x09, CHR 0x0A, CHR 0x0B, CHR 0x0C, CHR 0x0D}"

definition sentry :: "bool \<Rightarrow> istream \<Rightarrow> bool \<times> istream" where
  "sentry noskipws is =
     (if good is then
        if noskipws then (True, is)
        else let r = dropWhile is_space (rdbuf is)
             in if r = [] then (False, is\<lparr>rdbuf := [], eofbit := True, failbit := True\<rparr>)
                else (True, is\<lparr>rdbuf := r\<rparr>)
      else (False, is\<lparr>failbit := True\<rparr>))"

text \<open>
  \<^verbatim>\<open>is >> n\<close> for a signed integer with the given bounds. The third argument is the value the
  variable has before: it is left alone when the sentry fails. With no digits the result is 0 and
  \<^verbatim>\<open>failbit\<close>, out of range it is the nearest bound and \<^verbatim>\<open>failbit\<close>.
\<close>

fun parse_sign :: "string \<Rightarrow> bool \<times> string" where
  "parse_sign [] = (False, [])"
| "parse_sign (c # cs) =
     (if c = CHR ''-'' then (True, cs) else if c = CHR ''+'' then (False, cs)
      else (False, c # cs))"

definition extract_signed :: "int \<Rightarrow> int \<Rightarrow> int \<Rightarrow> istream \<Rightarrow> int \<times> istream" where
  "extract_signed lo hi old is =
     (case sentry False is of
        (False, is1) \<Rightarrow> (old, is1)
      | (True, is1) \<Rightarrow>
          let (neg, r1) = parse_sign (rdbuf is1);
              ds = takeWhile is_digit r1;
              r2 = dropWhile is_digit r1;
              v = (if neg then - int (digits_val ds) else int (digits_val ds));
              is2 = is1\<lparr>rdbuf := r2, eofbit := (r2 = [])\<rparr>
          in if ds = [] then (0, is2\<lparr>failbit := True\<rparr>)
             else if v < lo then (lo, is2\<lparr>failbit := True\<rparr>)
             else if hi < v then (hi, is2\<lparr>failbit := True\<rparr>)
             else (v, is2))"

abbreviation int_min :: int where "int_min \<equiv> - (2 ^ 31)"
abbreviation int_max :: int where "int_max \<equiv> 2 ^ 31 - 1"

definition extract_int :: "int \<Rightarrow> istream \<Rightarrow> int \<times> istream" where
  "extract_int old is = extract_signed int_min int_max old is"

definition extract_long :: "int \<Rightarrow> istream \<Rightarrow> int \<times> istream" where
  "extract_long old is = extract_signed (- (2 ^ 63)) (2 ^ 63 - 1) old is"

definition istream_get :: "istream \<Rightarrow> char option \<times> istream" where
  "istream_get is =
     (case sentry True (is\<lparr>gcount := 0\<rparr>) of
        (False, is1) \<Rightarrow> (None, is1)
      | (True, is1) \<Rightarrow>
          (case rdbuf is1 of
             [] \<Rightarrow> (None, is1\<lparr>eofbit := True, failbit := True\<rparr>)
           | c # cs \<Rightarrow> (Some c, is1\<lparr>rdbuf := cs, gcount := 1\<rparr>)))"

text \<open>
  \<^verbatim>\<open>is.read(s, n)\<close>: the bytes copied to \<^verbatim>\<open>s\<close>. A count below 1 copies nothing; a negative one is
  still a short read.
\<close>

definition istream_read :: "int \<Rightarrow> istream \<Rightarrow> string \<times> istream" where
  "istream_read n is =
     (case sentry True (is\<lparr>gcount := 0\<rparr>) of
        (False, is1) \<Rightarrow> ([], is1\<lparr>failbit := True\<rparr>)
      | (True, is1) \<Rightarrow>
          let xs = take (nat n) (rdbuf is1);
              is2 = is1\<lparr>rdbuf := drop (nat n) (rdbuf is1), gcount := int (length xs)\<rparr>
          in if int (length xs) \<noteq> n then (xs, is2\<lparr>eofbit := True, failbit := True\<rparr>)
             else (xs, is2))"

text \<open>
  The loop of \<^verbatim>\<open>is.getline(s, n)\<close>: what it stores, the number of bytes it took from the stream, what
  is left, and the two state bits it raises.
\<close>

fun getline_loop :: "nat \<Rightarrow> nat \<Rightarrow> string \<Rightarrow> string \<times> nat \<times> string \<times> bool \<times> bool" where
  "getline_loop n gc [] = ([], gc, [], True, False)"
| "getline_loop n gc (c # cs) =
     (if c = CHR 0x0A then ([], Suc gc, cs, False, False)
      else if n - 1 \<le> gc then ([], gc, c # cs, False, True)
      else case getline_loop n (Suc gc) cs of (st, r) \<Rightarrow> (c # st, r))"

definition istream_getline :: "nat \<Rightarrow> istream \<Rightarrow> string \<times> istream" where
  "istream_getline n is =
     (case sentry True (is\<lparr>gcount := 0\<rparr>) of
        (False, is1) \<Rightarrow> ([], is1)
      | (True, is1) \<Rightarrow>
          (case getline_loop n 0 (rdbuf is1) of (st, gc, r, e, f) \<Rightarrow>
             (if 0 < n then st @ [CHR 0x00] else st,
              is1\<lparr>rdbuf := r, eofbit := e, failbit := f \<or> gc = 0, gcount := int gc\<rparr>)))"

definition ostream_write :: "string \<Rightarrow> ostream \<Rightarrow> ostream" where
  "ostream_write s os = (if badbit os then os else os\<lparr>written := written os @ s\<rparr>)"

subsection \<open>Facts\<close>

lemma good_istream_of [simp]: "good (istream_of s)"
  by (simp add: good_def istream_of_def)

lemma istream_of_sel [simp]: "rdbuf (istream_of s) = s"
  by (simp add: istream_of_def)

lemma good_update_simps [simp]:
  "good (is\<lparr>rdbuf := r\<rparr>) = good is"
  "good (is\<lparr>gcount := g\<rparr>) = good is"
  by (simp_all add: good_def)

lemma good_bits: "good is \<Longrightarrow> \<not> eofbit is \<and> \<not> failbit is"
  by (simp add: good_def)

lemma ostream_write_simps [simp]:
  "\<not> badbit os \<Longrightarrow> written (ostream_write s os) = written os @ s"
  "badbit (ostream_write s os) = badbit os"
  "badbit os \<Longrightarrow> ostream_write s os = os"
  by (simp_all add: ostream_write_def)

lemma ostream_write_append: "ostream_write t (ostream_write s os) = ostream_write (s @ t) os"
  by (simp add: ostream_write_def)

lemma is_digit_not_space [simp]: "is_digit c \<Longrightarrow> \<not> is_space c"
  by (auto simp: is_digit_def is_space_def)

lemma is_digit_not_sign [simp]: "is_digit c \<Longrightarrow> c \<noteq> CHR ''-'' \<and> c \<noteq> CHR ''+''"
  by (auto simp: is_digit_def)

lemma parse_sign_digit [simp]: "ds \<noteq> [] \<Longrightarrow> \<forall>c \<in> set ds. is_digit c \<Longrightarrow>
    parse_sign (ds @ r) = (False, ds @ r)"
  by (cases ds) auto

lemma dropWhile_space_digits [simp]: "ds \<noteq> [] \<Longrightarrow> \<forall>c \<in> set ds. is_digit c \<Longrightarrow>
    dropWhile is_space (ds @ r) = ds @ r"
  by (cases ds) auto

text \<open>Reading a number that is followed by a byte that is no digit leaves the stream good.\<close>

lemma extract_signed_show_nat [wissbi_stream]:
  assumes "good is" and "rdbuf is = show_nat n @ c # r" and "\<not> is_digit c"
    and "lo \<le> int n" and "int n \<le> hi"
  shows "extract_signed lo hi old is = (int n, is\<lparr>rdbuf := c # r\<rparr>)"
  using assms good_bits [OF assms(1)]
  by (simp add: extract_signed_def sentry_def Let_def)

text \<open>A number that ends the stream is read, and raises \<^verbatim>\<open>eofbit\<close>.\<close>

lemma extract_signed_show_nat_end [wissbi_stream]:
  assumes "good is" and "rdbuf is = show_nat n" and "lo \<le> int n" and "int n \<le> hi"
  shows "extract_signed lo hi old is = (int n, is\<lparr>rdbuf := [], eofbit := True\<rparr>)"
  using assms dropWhile_space_digits [of "show_nat n" "[]"] parse_sign_digit [of "show_nat n" "[]"]
  by (simp add: extract_signed_def sentry_def Let_def)

lemma extract_int_of_show_nat:
  "int n \<le> int_max \<Longrightarrow> fst (extract_int old (istream_of (show_nat n))) = int n"
  by (simp add: extract_int_def wissbi_stream)

lemma extract_signed_at_end [wissbi_stream]:
  "good is \<Longrightarrow> rdbuf is = [] \<Longrightarrow>
     extract_signed lo hi old is = (old, is\<lparr>eofbit := True, failbit := True\<rparr>)"
  by (simp add: extract_signed_def sentry_def)

lemma extract_signed_bounds:
  assumes "extract_signed lo hi old is = (v, is')" and "lo \<le> 0" and "0 \<le> hi"
    and "lo \<le> old" and "old \<le> hi"
  shows "lo \<le> v \<and> v \<le> hi"
  using assms
  by (auto simp: extract_signed_def Let_def split: prod.splits bool.splits if_splits)

lemma istream_get_Cons [wissbi_stream]:
  "good is \<Longrightarrow> rdbuf is = c # r \<Longrightarrow> istream_get is = (Some c, is\<lparr>rdbuf := r, gcount := 1\<rparr>)"
  by (simp add: istream_get_def sentry_def)

lemma istream_read_full [wissbi_stream]:
  "good is \<Longrightarrow> rdbuf is = xs @ r \<Longrightarrow> n = int (length xs) \<Longrightarrow>
     istream_read n is = (xs, is\<lparr>rdbuf := r, gcount := n\<rparr>)"
  by (simp add: istream_read_def sentry_def Let_def)

lemma istream_read_short [wissbi_stream]:
  "good is \<Longrightarrow> int (length (rdbuf is)) < n \<Longrightarrow>
     istream_read n is =
       (rdbuf is, is\<lparr>rdbuf := [], gcount := int (length (rdbuf is)), eofbit := True, failbit := True\<rparr>)"
  by (simp add: istream_read_def sentry_def Let_def)

lemma getline_loop_line:
  assumes "CHR 0x0A \<notin> set l" and "gc + length l \<le> n - 1"
  shows "getline_loop n gc (l @ CHR 0x0A # r) = (l, Suc (gc + length l), r, False, False)"
  using assms by (induction l arbitrary: gc) auto

lemma getline_loop_last:
  assumes "CHR 0x0A \<notin> set l" and "gc + length l \<le> n - 1"
  shows "getline_loop n gc l = (l, gc + length l, [], True, False)"
  using assms by (induction l arbitrary: gc) auto

lemma getline_loop_long:
  assumes "CHR 0x0A \<notin> set l" and "gc + length l = n - 1" and "c \<noteq> CHR 0x0A"
  shows "getline_loop n gc (l @ c # r) = (l, n - 1, c # r, False, True)"
  using assms by (induction l arbitrary: gc) auto

lemma getline_loop_bounds:
  "getline_loop n gc s = (st, g, r, e, f) \<Longrightarrow> gc \<le> n - 1 \<Longrightarrow>
     gc + length st \<le> n - 1 \<and> g = gc + length st + (if e \<or> f then 0 else 1) \<and> \<not> (e \<and> f)"
proof (induction n gc s arbitrary: st rule: getline_loop.induct)
  case (2 n gc c cs)
  then show ?case by (fastforce split: if_splits prod.splits)
qed auto

lemma istream_getline_line [wissbi_stream]:
  assumes "good is" and "rdbuf is = l @ CHR 0x0A # r" and "CHR 0x0A \<notin> set l" and "length l < n"
  shows "istream_getline n is =
    (l @ [CHR 0x00], is\<lparr>rdbuf := r, gcount := int (Suc (length l))\<rparr>)"
  using assms good_bits [OF assms(1)]
  by (simp add: istream_getline_def sentry_def getline_loop_line)

lemma istream_getline_last [wissbi_stream]:
  assumes "good is" and "rdbuf is = l" and "CHR 0x0A \<notin> set l" and "length l < n" and "l \<noteq> []"
  shows "istream_getline n is =
    (l @ [CHR 0x00], is\<lparr>rdbuf := [], eofbit := True, gcount := int (length l)\<rparr>)"
  using assms good_bits [OF assms(1)]
  by (simp add: istream_getline_def sentry_def getline_loop_last)

lemma istream_getline_end [wissbi_stream]:
  assumes "good is" and "rdbuf is = []" and "0 < n"
  shows "istream_getline n is =
    ([CHR 0x00], is\<lparr>rdbuf := [], eofbit := True, failbit := True, gcount := 0\<rparr>)"
  using assms by (simp add: istream_getline_def sentry_def)

lemma istream_getline_not_good [wissbi_stream]:
  "\<not> good is \<Longrightarrow> istream_getline n is = ([], is\<lparr>gcount := 0, failbit := True\<rparr>)"
  by (simp add: istream_getline_def sentry_def)

lemma istream_getline_long [wissbi_stream]:
  assumes "good is" and "rdbuf is = l @ c # r" and "CHR 0x0A \<notin> set l" and "c \<noteq> CHR 0x0A"
    and "Suc (length l) = n" and "l \<noteq> []"
  shows "istream_getline n is =
    (l @ [CHR 0x00], is\<lparr>rdbuf := c # r, failbit := True, gcount := int (length l)\<rparr>)"
  using assms good_bits [OF assms(1)]
  by (auto simp: istream_getline_def sentry_def getline_loop_long)

end
