(* ===== verification/Line_Policy.thy ===== *)
theory Line_Policy
  imports Msg_Buf Iostreams
begin

text \<open>
  \<^verbatim>\<open>src/io_policy/iostream_base.hpp\<close> and \<^verbatim>\<open>src/io_policy/line.hpp\<close>: one message per line.
  The streams the pointers of the base class point to are held in its record. Its background flush
  moves bytes from a buffer to the device and changes nothing this model speaks of.
\<close>

record iostream_base =
  is_ptr :: istream
  os_ptr :: ostream

definition IOStreamBase :: "istream \<Rightarrow> ostream \<Rightarrow> iostream_base" where
  "IOStreamBase cin cout = \<lparr>is_ptr = cin, os_ptr = cout\<rparr>"

definition set_istream :: "istream \<Rightarrow> iostream_base \<Rightarrow> iostream_base" where
  "set_istream p io = io\<lparr>is_ptr := p\<rparr>"

definition set_ostream :: "ostream \<Rightarrow> iostream_base \<Rightarrow> iostream_base" where
  "set_ostream p io = io\<lparr>os_ptr := p\<rparr>"

definition Line_Get :: "iostream_base op" where
  "Line_Get m io =
     (case istream_getline MAX_MSG_SIZE (is_ptr io) of (st, is1) \<Rightarrow>
        (case buf_store (buf m) 0 st of
           Inl e \<Rightarrow> Inl e
         | Inr b \<Rightarrow>
             if \<not> failbit is1 then
               Inr (True,
                    m\<lparr>buf := b, len := size_of_int (gcount is1 - (if eofbit is1 then 0 else 1))\<rparr>,
                    io\<lparr>is_ptr := is1\<rparr>)
             else Inr (False, m\<lparr>buf := b, len := 0\<rparr>, io\<lparr>is_ptr := is1\<rparr>)))"

definition Line_Put :: "iostream_base op" where
  "Line_Put m io =
     (if len m \<le> 0 then Inr (False, m, io)
      else case buf_load (buf m) (len m) of
             Inl e \<Rightarrow> Inl e
           | Inr xs \<Rightarrow>
               Inr (True, m, io\<lparr>os_ptr := ostream_write [CHR 0x0A] (ostream_write xs (os_ptr io))\<rparr>))"

subsection \<open>The line codec\<close>

definition line_frame :: "string \<Rightarrow> string" where
  "line_frame x = x @ [CHR 0x0A]"

definition line_fits :: "string \<Rightarrow> bool" where
  "line_fits x \<longleftrightarrow> CHR 0x0A \<notin> set x \<and> length x < MAX_MSG_SIZE"

lemma take_stored [simp]: "take (length x) (x @ y) = x"
  by simp

lemma Line_Get_line [wissbi_policy]:
  assumes "wf_buf m" and "good (is_ptr io)" and "rdbuf (is_ptr io) = line_frame x @ r"
    and "line_fits x"
  shows "\<exists>m'. Line_Get m io =
      Inr (True, m', io\<lparr>is_ptr := (is_ptr io)\<lparr>rdbuf := r, gcount := int (Suc (length x))\<rparr>\<rparr>) \<and>
    wf_buf m' \<and> len m' = length x \<and> payload m' = x"
proof -
  have g: "istream_getline MAX_MSG_SIZE (is_ptr io) =
      (x @ [CHR 0x00], (is_ptr io)\<lparr>rdbuf := r, gcount := int (Suc (length x))\<rparr>)"
    using assms by (intro istream_getline_line) (auto simp: line_frame_def line_fits_def)
  have fits: "0 + length (x @ [CHR 0x00]) \<le> length (buf m)"
    using assms by (simp add: wf_buf_def line_fits_def)
  from good_bits [OF assms(2)] assms(1,4) show ?thesis
    unfolding Line_Get_def g
    by (simp add: buf_store_fits [OF fits] payload_def wf_buf_def line_fits_def MAX_MSG_SIZE_def
        del: buf_store_fits)
qed

lemma Line_Get_last [wissbi_policy]:
  assumes "wf_buf m" and "good (is_ptr io)" and "rdbuf (is_ptr io) = x" and "line_fits x"
    and "x \<noteq> []"
  shows "\<exists>m'. Line_Get m io =
      Inr (True, m', io\<lparr>is_ptr := (is_ptr io)\<lparr>rdbuf := [], eofbit := True, gcount := int (length x)\<rparr>\<rparr>) \<and>
    wf_buf m' \<and> len m' = length x \<and> payload m' = x"
proof -
  have g: "istream_getline MAX_MSG_SIZE (is_ptr io) =
      (x @ [CHR 0x00], (is_ptr io)\<lparr>rdbuf := [], eofbit := True, gcount := int (length x)\<rparr>)"
    using assms by (intro istream_getline_last) (auto simp: line_fits_def)
  have fits: "0 + length (x @ [CHR 0x00]) \<le> length (buf m)"
    using assms by (simp add: wf_buf_def line_fits_def)
  from good_bits [OF assms(2)] assms(1,4) show ?thesis
    unfolding Line_Get_def g
    by (simp add: buf_store_fits [OF fits] payload_def wf_buf_def line_fits_def MAX_MSG_SIZE_def
        del: buf_store_fits)
qed

lemma Line_Get_end [wissbi_policy]:
  assumes "wf_buf m" and "good (is_ptr io)" and "rdbuf (is_ptr io) = []"
  shows "\<exists>m' io'. Line_Get m io = Inr (False, m', io') \<and> len m' = 0"
  using assms by (simp add: Line_Get_def wissbi_stream MAX_MSG_SIZE_def wf_buf_def)

text \<open>\<^verbatim>\<open>getline\<close> never stores more than the array holds, the terminating NUL included.\<close>

lemma istream_getline_stored: "0 < n \<Longrightarrow> length (fst (istream_getline n is)) \<le> n"
  using getline_loop_bounds [of n 0 "rdbuf is"]
  by (fastforce simp: istream_getline_def sentry_def split: prod.splits)

lemma Line_Get_no_fault:
  assumes "wf_buf m"
  shows "\<exists>b m' io'. Line_Get m io = Inr (b, m', io')"
proof -
  obtain st is1 where g: "istream_getline MAX_MSG_SIZE (is_ptr io) = (st, is1)" by force
  with istream_getline_stored [of MAX_MSG_SIZE "is_ptr io"] assms
  have "0 + length st \<le> length (buf m)" by (simp add: wf_buf_def MAX_MSG_SIZE_def)
  then show ?thesis by (auto simp: Line_Get_def g)
qed

lemma Line_Get_len:
  assumes "Line_Get m io = Inr (b, m', io')" and "wf_buf m"
  shows "len m' < MAX_MSG_SIZE"
proof -
  obtain st is1 where g: "istream_getline MAX_MSG_SIZE (is_ptr io) = (st, is1)" by force
  have bnd: "0 \<le> gcount is1 - (if eofbit is1 then 0 else 1) \<and>
      gcount is1 - (if eofbit is1 then 0 else 1) < int MAX_MSG_SIZE" if "\<not> failbit is1"
    using that g getline_loop_bounds [of MAX_MSG_SIZE 0 "rdbuf (is_ptr io)"]
    by (fastforce simp: istream_getline_def sentry_def MAX_MSG_SIZE_def split: prod.splits if_splits)
  then have "size_of_int (gcount is1 - (if eofbit is1 then 0 else 1)) < MAX_MSG_SIZE"
    if "\<not> failbit is1"
    using that by (simp add: MAX_MSG_SIZE_def nat_less_iff)
  with assms(1) show ?thesis
    by (auto simp: Line_Get_def g split: sum.splits if_splits)
qed

lemma Line_Put_written [wissbi_policy]:
  assumes "wf_msg m" and "0 < len m"
  shows "Line_Put m io =
    Inr (True, m, io\<lparr>os_ptr := ostream_write (line_frame (payload m)) (os_ptr io)\<rparr>)"
  using assms
  by (simp add: Line_Put_def payload_def wf_msg_def wf_buf_def line_frame_def ostream_write_append)

lemma Line_Put_empty [wissbi_policy]: "len m = 0 \<Longrightarrow> Line_Put m io = Inr (False, m, io)"
  by (simp add: Line_Put_def)

interpretation line_out: output_policy Line_Put
  by unfold_locales (auto simp: Line_Put_def split: if_splits sum.splits)

interpretation line: stream_codec Line_Get "\<lambda>io. good (is_ptr io)" "\<lambda>io. rdbuf (is_ptr io)"
    line_frame line_fits
proof
  show "wf_buf m'" if "wf_buf m" and "Line_Get m s = Inr (b, m', s')" for m s b m' s'
    using that
    by (auto simp: Line_Get_def wf_buf_def dest!: buf_store_length split: sum.splits prod.splits if_splits)
  show "len m' = 0" if "Line_Get m s = Inr (False, m', s')" for m s m' s'
    using that by (auto simp: Line_Get_def split: sum.splits prod.splits if_splits)
  show "\<exists>m' s'. Line_Get m s = Inr (True, m', s') \<and> len m' = length x \<and> payload m' = x \<and>
      good (is_ptr s') \<and> rdbuf (is_ptr s') = r"
    if "good (is_ptr s)" and "line_fits x" and "rdbuf (is_ptr s) = line_frame x @ r" and "wf_buf m"
    for s x r m
    using Line_Get_line [OF that(4,1,3,2)] that(1) by auto
  show "\<exists>m' s'. Line_Get m s = Inr (False, m', s')"
    if "good (is_ptr s)" and "rdbuf (is_ptr s) = []" and "wf_buf m" for s m
    using Line_Get_end [OF that(3,1,2)] by blast
qed

subsection \<open>Writing a sequence of messages\<close>

fun put_all :: "iostream_base op \<Rightarrow> string list \<Rightarrow> iostream_base \<Rightarrow> iostream_base option" where
  "put_all put [] io = Some io"
| "put_all put (x # xs) io =
     (case put (msg_of x) io of
        Inr (True, m, io') \<Rightarrow> put_all put xs io'
      | _ \<Rightarrow> None)"

locale stream_writer =
  fixes put :: "iostream_base op" and emit :: "string \<Rightarrow> string"
  assumes put_writes: "wf_msg m \<Longrightarrow> 0 < len m \<Longrightarrow>
      put m io = Inr (True, m, io\<lparr>os_ptr := ostream_write (emit (payload m)) (os_ptr io)\<rparr>)"
    and put_refuses: "len m = 0 \<Longrightarrow> put m io = Inr (False, m, io)"
begin

lemma put_all_written:
  assumes "\<forall>x \<in> set xs. x \<noteq> [] \<and> length x \<le> MAX_MSG_SIZE" and "\<not> badbit (os_ptr io)"
  shows "\<exists>io'. put_all put xs io = Some io' \<and>
    written (os_ptr io') = written (os_ptr io) @ concat (map emit xs)"
  using assms
proof (induction xs arbitrary: io)
  case (Cons x xs)
  then have "put (msg_of x) io =
      Inr (True, msg_of x, io\<lparr>os_ptr := ostream_write (emit x) (os_ptr io)\<rparr>)"
    using put_writes [of "msg_of x" io] by simp
  with Cons.IH [of "io\<lparr>os_ptr := ostream_write (emit x) (os_ptr io)\<rparr>"] Cons.prems show ?case
    by (auto simp: ostream_write_def)
qed simp

end

interpretation line_writer: stream_writer Line_Put line_frame
  by unfold_locales (simp_all add: wissbi_policy)

end
