(* ===== verification/Length_Policy.thy ===== *)
theory Length_Policy
  imports Line_Policy
begin

text \<open>
  \<^verbatim>\<open>src/io_policy/length.hpp\<close> and \<^verbatim>\<open>src/io_policy/string.hpp\<close>: messages framed by their decimal length
  and a blank, on a stream or on a string buffer in memory.
\<close>

subsection \<open>Length\<close>

text \<open>
  \<^verbatim>\<open>size\<close> has no initial value, but whenever extraction leaves it alone the stream is not good and the
  function returns. \<^verbatim>\<open>read\<close> copies up to \<^verbatim>\<open>size\<close> bytes into an array of \<^verbatim>\<open>MAX_MSG_SIZE\<close>; its result is
  not looked at.
\<close>

definition Length_Get :: "iostream_base op" where
  "Length_Get m io =
     (case extract_int 0 (is_ptr io) of (sz, is1) \<Rightarrow>
        if \<not> good is1 then Inr (False, m\<lparr>len := 0\<rparr>, io\<lparr>is_ptr := is1\<rparr>)
        else case istream_read sz (snd (istream_get is1)) of (xs, is2) \<Rightarrow>
          (case buf_store (buf m) 0 xs of
             Inl e \<Rightarrow> Inl e
           | Inr b \<Rightarrow> Inr (True, m\<lparr>buf := b, len := size_of_int sz\<rparr>, io\<lparr>is_ptr := is2\<rparr>)))"

definition Length_Put :: "iostream_base op" where
  "Length_Put m io =
     (if len m \<le> 0 then Inr (False, m, io)
      else case buf_load (buf m) (len m) of
             Inl e \<Rightarrow> Inl e
           | Inr xs \<Rightarrow>
               Inr (True, m,
                    io\<lparr>os_ptr := ostream_write xs
                         (ostream_write (show_nat (len m) @ '' '') (os_ptr io))\<rparr>))"

definition length_frame :: "string \<Rightarrow> string" where
  "length_frame x = show_nat (length x) @ '' '' @ x"

definition length_fits :: "string \<Rightarrow> bool" where
  "length_fits x \<longleftrightarrow> length x \<le> MAX_MSG_SIZE"

lemma extract_int_header [wissbi_stream]:
  assumes "good is" and "rdbuf is = show_nat n @ '' '' @ r" and "int n \<le> int_max"
  shows "extract_int old is = (int n, is\<lparr>rdbuf := CHR '' '' # r\<rparr>)"
  using assms unfolding extract_int_def by (intro extract_signed_show_nat) auto

text \<open>After a good header the rest of \<^verbatim>\<open>Get\<close> is one bounded copy.\<close>

lemma Length_Get_header:
  assumes "good (is_ptr io)" and "rdbuf (is_ptr io) = show_nat n @ '' '' @ r" and "int n \<le> int_max"
  shows "Length_Get m io =
    (case istream_read (int n) ((is_ptr io)\<lparr>rdbuf := r, gcount := 1\<rparr>) of (xs, is2) \<Rightarrow>
       (case buf_store (buf m) 0 xs of
          Inl e \<Rightarrow> Inl e
        | Inr b \<Rightarrow> Inr (True, m\<lparr>buf := b, len := n\<rparr>, io\<lparr>is_ptr := is2\<rparr>)))"
proof -
  have sz: "size_of_int (int n) = n" using assms(3) by simp
  from assms show ?thesis
    by (simp add: Length_Get_def extract_int_header [OF assms] wissbi_stream sz
        del: size_of_int_nat split: prod.split sum.split)
qed

lemma Length_Get_frame [wissbi_policy]:
  assumes "wf_buf m" and "good (is_ptr io)" and "rdbuf (is_ptr io) = length_frame x @ r"
    and "length_fits x"
  shows "\<exists>m'. Length_Get m io =
      Inr (True, m', io\<lparr>is_ptr := (is_ptr io)\<lparr>rdbuf := r, gcount := int (length x)\<rparr>\<rparr>) \<and>
    wf_buf m' \<and> len m' = length x \<and> payload m' = x"
proof -
  have fits: "0 + length x \<le> length (buf m)"
    using assms(1,4) by (simp add: wf_buf_def length_fits_def)
  have "int (length x) \<le> int_max" using assms(4) by (simp add: length_fits_def MAX_MSG_SIZE_def)
  moreover have "rdbuf (is_ptr io) = show_nat (length x) @ '' '' @ x @ r"
    using assms(3) by (simp add: length_frame_def)
  ultimately show ?thesis
    using fits assms(1,2)
    by (simp add: Length_Get_header [OF assms(2)] wissbi_stream payload_def wf_buf_def)
qed

lemma Length_Get_end [wissbi_policy]:
  "good (is_ptr io) \<Longrightarrow> rdbuf (is_ptr io) = [] \<Longrightarrow>
     \<exists>io'. Length_Get m io = Inr (False, m\<lparr>len := 0\<rparr>, io')"
  by (simp add: Length_Get_def extract_int_def wissbi_stream good_def)

text \<open>
  The number in the header is not compared with the size of the array, nor with the number of bytes
  that were read.
\<close>

lemma Length_Get_overflow:
  assumes "wf_buf m" and "good (is_ptr io)" and "rdbuf (is_ptr io) = show_nat n @ '' '' @ r"
    and "int n \<le> int_max" and "MAX_MSG_SIZE < n" and "MAX_MSG_SIZE < length r"
  shows "Length_Get m io = Inl WriteOverflow"
  unfolding Length_Get_header [OF assms(2-4)]
  using assms good_bits [OF assms(2)]
  by (auto simp: istream_read_def sentry_def good_def Let_def buf_store_def wf_buf_def)

lemma Length_Get_truncated:
  assumes "wf_buf m" and "good (is_ptr io)" and "rdbuf (is_ptr io) = show_nat n @ '' '' @ r"
    and "n \<le> MAX_MSG_SIZE" and "length r < n"
  shows "\<exists>m' io'. Length_Get m io = Inr (True, m', io') \<and>
    payload m' = r @ take (n - length r) (drop (length r) (buf m))"
proof -
  have n: "int n \<le> int_max" using assms(4) by (simp add: MAX_MSG_SIZE_def)
  show ?thesis
    unfolding Length_Get_header [OF assms(2,3) n]
    using assms good_bits [OF assms(2)]
    by (simp add: istream_read_def sentry_def good_def Let_def buf_store_def wf_buf_def payload_def)
qed

lemma Length_Put_written [wissbi_policy]:
  assumes "wf_msg m" and "0 < len m"
  shows "Length_Put m io =
    Inr (True, m, io\<lparr>os_ptr := ostream_write (length_frame (payload m)) (os_ptr io)\<rparr>)"
proof -
  note length_payload [OF assms(1)]
  moreover have "payload m = take (len m) (buf m)" by (simp add: payload_def)
  ultimately show ?thesis using assms
    by (simp add: Length_Put_def wf_msg_def wf_buf_def length_frame_def ostream_write_append)
qed

lemma Length_Put_empty [wissbi_policy]: "len m = 0 \<Longrightarrow> Length_Put m io = Inr (False, m, io)"
  by (simp add: Length_Put_def)

interpretation length_writer: stream_writer Length_Put length_frame
  by unfold_locales (simp_all add: wissbi_policy)

interpretation lengthp_out: output_policy Length_Put
  by unfold_locales (auto simp: Length_Put_def split: if_splits sum.splits)

interpretation lengthp: stream_codec Length_Get "\<lambda>io. good (is_ptr io)" "\<lambda>io. rdbuf (is_ptr io)"
    length_frame length_fits
proof
  show "wf_buf m'" if "wf_buf m" and "Length_Get m s = Inr (b, m', s')" for m s b m' s'
    using that
    by (auto simp: Length_Get_def wf_buf_def dest!: buf_store_length split: sum.splits prod.splits if_splits)
  show "len m' = 0" if "Length_Get m s = Inr (False, m', s')" for m s m' s'
    using that by (auto simp: Length_Get_def split: sum.splits prod.splits if_splits)
  show "\<exists>m' s'. Length_Get m s = Inr (True, m', s') \<and> len m' = length x \<and> payload m' = x \<and>
      good (is_ptr s') \<and> rdbuf (is_ptr s') = r"
    if "good (is_ptr s)" and "length_fits x" and "rdbuf (is_ptr s) = length_frame x @ r" and "wf_buf m"
    for s x r m
    using Length_Get_frame [OF that(4,1,3,2)] that(1) by auto
  show "\<exists>m' s'. Length_Get m s = Inr (False, m', s')"
    if "good (is_ptr s)" and "rdbuf (is_ptr s) = []" and "wf_buf m" for s m
    using Length_Get_end [OF that(1,2)] by blast
qed

subsection \<open>String\<close>

text \<open>
  A string buffer with its two positions, and the two streams that share it. The state bits belong
  to the streams and outlive \<^verbatim>\<open>Send\<close>, which only replaces the buffer.
\<close>

record stringbuf =
  sb_str :: string
  sb_gpos :: nat
  sb_ppos :: nat

record string_policy =
  str_buf :: stringbuf
  str_is :: istream
  str_os :: ostream

definition stringbuf_of :: "string \<Rightarrow> stringbuf" where
  "stringbuf_of s = \<lparr>sb_str = s, sb_gpos = 0, sb_ppos = 0\<rparr>"

definition stringbuf_sputn :: "string \<Rightarrow> stringbuf \<Rightarrow> stringbuf" where
  "stringbuf_sputn xs b =
     b\<lparr>sb_str := take (sb_ppos b) (sb_str b) @ xs @ drop (sb_ppos b + length xs) (sb_str b),
       sb_ppos := sb_ppos b + length xs\<rparr>"

definition String_new :: string_policy where
  "String_new = \<lparr>str_buf = stringbuf_of [], str_is = istream_of [],
                 str_os = \<lparr>written = [], badbit = False\<rparr>\<rparr>"

text \<open>The base class's streams, with what the buffer has for the input stream to read.\<close>

definition String_view :: "string_policy \<Rightarrow> iostream_base" where
  "String_view p =
     \<lparr>is_ptr = (str_is p)\<lparr>rdbuf := drop (sb_gpos (str_buf p)) (sb_str (str_buf p))\<rparr>,
      os_ptr = (str_os p)\<lparr>written := []\<rparr>\<rparr>"

definition String_commit :: "string_policy \<Rightarrow> iostream_base \<Rightarrow> string_policy" where
  "String_commit p io =
     (let b = str_buf p; left = length (rdbuf (is_ptr io))
      in p\<lparr>str_buf := stringbuf_sputn (written (os_ptr io)) (b\<lparr>sb_gpos := length (sb_str b) - left\<rparr>),
           str_is := is_ptr io\<rparr>)"

definition String_Get :: "string_policy op" where
  "String_Get m p =
     (case Length_Get m (String_view p) of
        Inl e \<Rightarrow> Inl e | Inr (b, m', io) \<Rightarrow> Inr (b, m', String_commit p io))"

definition String_Put :: "string_policy op" where
  "String_Put m p =
     (case Length_Put m (String_view p) of
        Inl e \<Rightarrow> Inl e | Inr (b, m', io) \<Rightarrow> Inr (b, m', String_commit p io))"

definition String_Send :: "string \<Rightarrow> string_policy \<Rightarrow> string_policy" where
  "String_Send msg p = p\<lparr>str_buf := stringbuf_of (show_nat (length msg) @ '' '' @ msg)\<rparr>"

text \<open>\<^verbatim>\<open>int(log10(size))\<close> for a positive \<^verbatim>\<open>size\<close>.\<close>

fun ilog10 :: "nat \<Rightarrow> nat" where
  "ilog10 n = (if n < 10 then 0 else Suc (ilog10 (n div 10)))"

declare ilog10.simps [simp del]

text \<open>
  \<^verbatim>\<open>Receive\<close> copies the bytes behind the header; \<open>size0\<close> is what the variable holds before. The
  result is the value of the local string (the source returns a reference to it).
\<close>

definition String_Receive :: "int \<Rightarrow> string_policy \<Rightarrow> fault + (string \<times> string_policy)" where
  "String_Receive size0 p =
     (case extract_int size0 (is_ptr (String_view p)) of (sz, is1) \<Rightarrow>
        if sz \<le> 0 then Inl ReadOverflow
        else let header_len = ilog10 (nat sz) + 2;
                 str = sb_str (str_buf p)
             in if header_len + nat sz \<le> Suc (length str) then
                  Inr (take (nat sz) (drop header_len (str @ [CHR 0x00])),
                       String_commit p ((String_view p)\<lparr>is_ptr := is1\<rparr>))
                else Inl ReadOverflow)"

lemma stringbuf_sputn_Nil [simp]: "stringbuf_sputn [] b = b"
  by (simp add: stringbuf_sputn_def)

lemma length_show_nat: "length (show_nat n) = Suc (ilog10 n)"
proof (induction n rule: ilog10.induct)
  case (1 n)
  then show ?case by (simp add: show_nat.simps [of n] ilog10.simps [of n])
qed

lemma String_view_Send [simp]:
  "is_ptr (String_view (String_Send msg p)) = (str_is p)\<lparr>rdbuf := length_frame msg\<rparr>"
  "os_ptr (String_view p) = (str_os p)\<lparr>written := []\<rparr>"
  by (simp_all add: String_view_def String_Send_def stringbuf_of_def length_frame_def)

text \<open>
  What was sent is what the next \<^verbatim>\<open>Get\<close> returns, and the stream stays good, so this repeats.
\<close>

lemma String_Get_Send [wissbi_policy]:
  assumes "wf_buf m" and "good (str_is p)" and "length_fits msg"
  shows "\<exists>m' p'. String_Get m (String_Send msg p) = Inr (True, m', p') \<and>
    wf_buf m' \<and> len m' = length msg \<and> payload m' = msg \<and> good (str_is p')"
proof -
  let ?io = "String_view (String_Send msg p)"
  have g: "good (is_ptr ?io)" using assms(2) by simp
  have "rdbuf (is_ptr ?io) = length_frame msg @ []" by simp
  from Length_Get_frame [OF assms(1) g this assms(3)] obtain m' where
    "Length_Get m ?io =
       Inr (True, m', ?io\<lparr>is_ptr := (is_ptr ?io)\<lparr>rdbuf := [], gcount := int (length msg)\<rparr>\<rparr>)"
    and "wf_buf m' \<and> len m' = length msg \<and> payload m' = msg" by blast
  moreover have "good (is_ptr (?io\<lparr>is_ptr := (is_ptr ?io)\<lparr>rdbuf := [], gcount := int (length msg)\<rparr>\<rparr>))"
    using g by simp
  ultimately show ?thesis
    unfolding String_Get_def by (auto simp: String_commit_def Let_def)
qed

text \<open>A message longer than the array, sent through the string buffer, is written past its end.\<close>

lemma String_Get_Send_overflow:
  assumes "wf_buf m" and "good (str_is p)" and "MAX_MSG_SIZE < length msg"
    and "int (length msg) \<le> int_max"
  shows "String_Get m (String_Send msg p) = Inl WriteOverflow"
proof -
  let ?io = "String_view (String_Send msg p)"
  have "good (is_ptr ?io)" and "rdbuf (is_ptr ?io) = show_nat (length msg) @ '' '' @ msg"
    using assms(2) by (simp_all add: length_frame_def)
  note get = Length_Get_header [OF this assms(4)]
  let ?is = "(is_ptr ?io)\<lparr>rdbuf := msg, gcount := 1\<rparr>"
  have rd: "fst (istream_read (int (length msg)) ?is) = msg"
    using assms(2) istream_read_full [of ?is msg "[]"] by simp
  have "buf_store (buf m) 0 msg = Inl WriteOverflow"
    using assms(1,3) by (intro buf_store_overflow) (auto simp: wf_buf_def)
  with rd show ?thesis
    unfolding String_Get_def get by (simp add: case_prod_beta)
qed

lemma String_Receive_Put:
  assumes "wf_msg m" and "0 < len m"
  shows "\<exists>p p'. String_Put m String_new = Inr (True, m, p) \<and>
    String_Receive size0 p = Inr (payload m, p')"
proof -
  let ?x = "payload m" and ?p = "String_new\<lparr>str_buf := \<lparr>sb_str = length_frame (payload m),
      sb_gpos = 0, sb_ppos = length (length_frame (payload m))\<rparr>,
      str_is := istream_of []\<rparr>"
  have lx: "length ?x = len m" using assms by (simp add: length_payload)
  have put: "String_Put m String_new = Inr (True, m, ?p)"
    by (simp add: String_Put_def Length_Put_written [OF assms] String_view_def String_commit_def
        String_new_def stringbuf_of_def stringbuf_sputn_def istream_of_def)
  have ext: "extract_int size0 (is_ptr (String_view ?p)) =
      (int (length ?x), (is_ptr (String_view ?p))\<lparr>rdbuf := CHR '' '' # ?x\<rparr>)"
    using assms by (intro extract_int_header)
      (auto simp: String_view_def length_frame_def lx good_def istream_of_def wf_msg_def MAX_MSG_SIZE_def)
  have h: "ilog10 (length ?x) + 2 = length (show_nat (length ?x) @ '' '')"
    by (simp add: length_show_nat)
  have "drop (ilog10 (length ?x) + 2) (length_frame ?x @ [CHR 0x00]) = ?x @ [CHR 0x00]"
    unfolding h length_frame_def by simp
  moreover have "ilog10 (length ?x) + 2 + length ?x = length (length_frame ?x)"
    unfolding h length_frame_def by simp
  ultimately have "\<exists>p'. String_Receive size0 ?p = Inr (?x, p')"
    using assms(2) lx unfolding String_Receive_def ext by (simp add: Let_def)
  with put show ?thesis by blast
qed

end
