(* ===== verification/Msg_Filter.thy ===== *)
theory Msg_Filter
  imports Line_Policy Length_Policy
begin

text \<open>
  \<^verbatim>\<open>src/msg_filter.hpp\<close>: the loop that moves messages from an input policy to an output policy, with three
  hooks around it. The filter is a record of the operations it calls over a state \<open>'s\<close> that holds its
  two base-class objects and whatever the hooks capture; its buffer \<^verbatim>\<open>msg_buf_\<close> is passed along.

  The locale \<open>msg_pipeline\<close> is what the programs rely on of the two policies together; in it the loop is
  shown to end and to move every message, in order.
\<close>

record 's msg_filter =
  f_get :: "'s op"
  f_put :: "'s op"
  pre_filter_func :: "'s \<Rightarrow> fault + (bool \<times> 's)"
  filter_func :: "'s op"
  post_filter_func :: "bool \<Rightarrow> 's op"

definition MsgFilter :: "'s op \<Rightarrow> 's op \<Rightarrow> 's msg_filter" where
  "MsgFilter get put =
     \<lparr>f_get = get, f_put = put, pre_filter_func = (\<lambda>s. Inr (True, s)),
      filter_func = (\<lambda>m s. Inr (True, m, s)), post_filter_func = (\<lambda>r m s. Inr (r, m, s))\<rparr>"

definition set_pre_filter_func :: "('s \<Rightarrow> fault + (bool \<times> 's)) \<Rightarrow> 's msg_filter \<Rightarrow> 's msg_filter" where
  "set_pre_filter_func f F = F\<lparr>pre_filter_func := f\<rparr>"

definition set_filter_func :: "'s op \<Rightarrow> 's msg_filter \<Rightarrow> 's msg_filter" where
  "set_filter_func f F = F\<lparr>filter_func := f\<rparr>"

definition set_post_filter_func :: "(bool \<Rightarrow> 's op) \<Rightarrow> 's msg_filter \<Rightarrow> 's msg_filter" where
  "set_post_filter_func f F = F\<lparr>post_filter_func := f\<rparr>"

text \<open>The conjunction is evaluated left to right and stops at the first false operand.\<close>

definition Filter :: "'s msg_filter \<Rightarrow> 's op" where
  "Filter F m s =
     (case pre_filter_func F s of
        Inl e \<Rightarrow> Inl e
      | Inr (False, s1) \<Rightarrow> post_filter_func F False m s1
      | Inr (True, s1) \<Rightarrow>
          (case f_get F m s1 of
             Inl e \<Rightarrow> Inl e
           | Inr (False, m2, s2) \<Rightarrow> post_filter_func F False m2 s2
           | Inr (True, m2, s2) \<Rightarrow>
               (case filter_func F m2 s2 of
                  Inl e \<Rightarrow> Inl e
                | Inr (False, m3, s3) \<Rightarrow> post_filter_func F False m3 s3
                | Inr (True, m3, s3) \<Rightarrow>
                    (case f_put F m3 s3 of
                       Inl e \<Rightarrow> Inl e
                     | Inr (res, m4, s4) \<Rightarrow> post_filter_func F res m4 s4))))"

text \<open>\<^verbatim>\<open>while (Filter()) {}\<close>: \<open>None\<close> is the loop that does not end.\<close>

partial_function (option) FilterLoop ::
  "'s msg_filter \<Rightarrow> msg_buf \<Rightarrow> 's \<Rightarrow> (fault + (msg_buf \<times> 's)) option" where
  "FilterLoop F m s =
     (case Filter F m s of
        Inl e \<Rightarrow> Some (Inl e)
      | Inr (res, m', s') \<Rightarrow> if res then FilterLoop F m' s' else Some (Inr (m', s')))"

text \<open>
  The two base classes: an operation of one of them works on its part of the object. The third
  component is what the hooks capture.
\<close>

definition lift_in :: "'i op \<Rightarrow> ('i \<times> 'o \<times> 'x) op" where
  "lift_in g m s =
     (case s of (i, r) \<Rightarrow>
        (case g m i of Inl e \<Rightarrow> Inl e | Inr (b, m', i') \<Rightarrow> Inr (b, m', i', r)))"

definition lift_out :: "'o op \<Rightarrow> ('i \<times> 'o \<times> 'x) op" where
  "lift_out p m s =
     (case s of (i, ob, x) \<Rightarrow>
        (case p m ob of Inl e \<Rightarrow> Inl e | Inr (b, m', ob') \<Rightarrow> Inr (b, m', i, ob', x)))"

definition lift_hook :: "'x op \<Rightarrow> ('i \<times> 'o \<times> 'x) op" where
  "lift_hook f m s =
     (case s of (i, ob, x) \<Rightarrow>
        (case f m x of Inl e \<Rightarrow> Inl e | Inr (b, m', x') \<Rightarrow> Inr (b, m', i, ob, x')))"

lemma filter_setters [simp]:
  "pre_filter_func (set_pre_filter_func f F) = f"
  "filter_func (set_pre_filter_func f F) = filter_func F"
  "post_filter_func (set_pre_filter_func f F) = post_filter_func F"
  "f_get (set_pre_filter_func f F) = f_get F" "f_put (set_pre_filter_func f F) = f_put F"
  "pre_filter_func (set_filter_func g F) = pre_filter_func F" "filter_func (set_filter_func g F) = g"
  "post_filter_func (set_filter_func g F) = post_filter_func F"
  "f_get (set_filter_func g F) = f_get F" "f_put (set_filter_func g F) = f_put F"
  "pre_filter_func (set_post_filter_func h F) = pre_filter_func F"
  "filter_func (set_post_filter_func h F) = filter_func F"
  "post_filter_func (set_post_filter_func h F) = h"
  "f_get (set_post_filter_func h F) = f_get F" "f_put (set_post_filter_func h F) = f_put F"
  by (simp_all add: set_pre_filter_func_def set_filter_func_def set_post_filter_func_def)

lemma MsgFilter_sel [simp]:
  "f_get (MsgFilter g p) = g" "f_put (MsgFilter g p) = p"
  "pre_filter_func (MsgFilter g p) s = Inr (True, s)"
  "filter_func (MsgFilter g p) m s = Inr (True, m, s)"
  "post_filter_func (MsgFilter g p) r m s = Inr (r, m, s)"
  by (simp_all add: MsgFilter_def)

subsection \<open>One round\<close>

text \<open>
  The hook after the round sees true exactly when every stage before it succeeded, and its own answer
  is the answer of the round.
\<close>

lemma Filter_all_pass:
  assumes "pre_filter_func F s = Inr (True, s1)" and "f_get F m s1 = Inr (True, m2, s2)"
    and "filter_func F m2 s2 = Inr (True, m3, s3)" and "f_put F m3 s3 = Inr (res, m4, s4)"
  shows "Filter F m s = post_filter_func F res m4 s4"
  using assms by (simp add: Filter_def)

lemma Filter_get_fails:
  assumes "pre_filter_func F s = Inr (True, s1)" and "f_get F m s1 = Inr (False, m2, s2)"
  shows "Filter F m s = post_filter_func F False m2 s2"
  using assms by (simp add: Filter_def)

lemma FilterLoop_stop: "Filter F m s = Inr (False, m', s') \<Longrightarrow> FilterLoop F m s = Some (Inr (m', s'))"
  by (subst FilterLoop.simps) simp

lemma FilterLoop_next:
  "Filter F m s = Inr (True, m', s') \<Longrightarrow> FilterLoop F m s = FilterLoop F m' s'"
  by (subst FilterLoop.simps) simp

subsection \<open>The loop between two policies\<close>

text \<open>
  \<open>get\<close> reads frames off the pending bytes. \<open>put\<close> adds \<open>emit x\<close> to what has come out for a payload \<open>x\<close> it
  accepts, and answers false without effect for one it rejects. The hook \<open>ff\<close> lets every message pass
  unchanged and updates the variables it captures. The three keep to their own parts of the state.
\<close>

locale msg_pipeline = stream_codec get ready pending frame fits
  for get :: "'s op" and ready pending frame fits +
  fixes put :: "'s op"
    and ff :: "'s op"
    and sunk :: "'s \<Rightarrow> 'b list"
    and emit :: "string \<Rightarrow> 'b list"
    and accepts :: "string \<Rightarrow> bool"
    and rejects :: "string \<Rightarrow> bool"
    and vars :: "'s \<Rightarrow> 'x"
    and upd :: "string \<Rightarrow> 'x \<Rightarrow> 'x"
  assumes get_sunk: "get m s = Inr (b, m', s') \<Longrightarrow> sunk s' = sunk s"
    and get_vars: "get m s = Inr (b, m', s') \<Longrightarrow> vars s' = vars s"
    and put_vars: "put m s = Inr (b, m', s') \<Longrightarrow> vars s' = vars s"
    and put_accept: "ready s \<Longrightarrow> wf_msg m \<Longrightarrow> accepts (payload m) \<Longrightarrow>
      \<exists>m' s'. put m s = Inr (True, m', s') \<and> wf_buf m' \<and> sunk s' = sunk s @ emit (payload m) \<and>
              ready s' = ready s \<and> pending s' = pending s"
    and put_reject: "wf_msg m \<Longrightarrow> rejects (payload m) \<Longrightarrow>
      \<exists>m' s'. put m s = Inr (False, m', s') \<and> sunk s' = sunk s \<and> pending s' = pending s"
    and ff_pass: "wf_msg m \<Longrightarrow> \<exists>s'. ff m s = Inr (True, m, s') \<and> sunk s' = sunk s \<and>
      ready s' = ready s \<and> pending s' = pending s \<and> vars s' = upd (payload m) (vars s)"
    and fits_size: "fits x \<Longrightarrow> length x \<le> MAX_MSG_SIZE"
begin

text \<open>The filter under consideration, as an abbreviation.\<close>

abbreviation flt :: "'s msg_filter" where
  "flt \<equiv> set_filter_func ff (MsgFilter get put)"

lemma get_one:
  assumes "ready s" and "fits x" and "pending s = frame x @ r" and "wf_buf m"
  obtains m1 s1 s2 where "get m s = Inr (True, m1, s1)" and "ff m1 s1 = Inr (True, m1, s2)"
    and "wf_msg m1" and "payload m1 = x" and "ready s2" and "pending s2 = r" and "sunk s2 = sunk s"
    and "vars s2 = upd x (vars s)"
proof -
  from get_frame [OF assms] obtain m1 s1 where g: "get m s = Inr (True, m1, s1)"
    "len m1 = length x" "payload m1 = x" "ready s1" "pending s1 = r" by blast
  from get_wf [OF assms(4) g(1)] g(2) fits_size [OF assms(2)] have m1: "wf_msg m1"
    by (simp add: wf_msg_def)
  from ff_pass [OF m1, of s1] g(3) obtain s2 where "ff m1 s1 = Inr (True, m1, s2)"
    "sunk s2 = sunk s1" "ready s2 = ready s1" "pending s2 = pending s1"
    "vars s2 = upd x (vars s1)" by blast
  with g m1 show thesis using get_sunk [OF g(1)] get_vars [OF g(1)] that by simp
qed

lemma Filter_accepted:
  assumes "ready s" and "fits x" and "accepts x" and "pending s = frame x @ r" and "wf_buf m"
  shows "\<exists>m' s'. Filter flt m s = Inr (True, m', s') \<and> wf_buf m' \<and> ready s' \<and> pending s' = r \<and>
    sunk s' = sunk s @ emit x \<and> vars s' = upd x (vars s)"
proof -
  from get_one [OF assms(1,2,4,5)] obtain m1 s1 s2 where g: "get m s = Inr (True, m1, s1)"
    and f: "ff m1 s1 = Inr (True, m1, s2)" and m1: "wf_msg m1" "payload m1 = x"
    and s2: "ready s2" "pending s2 = r" "sunk s2 = sunk s" "vars s2 = upd x (vars s)" by metis
  from put_accept [OF s2(1) m1(1)] m1(2) assms(3) obtain m' s' where
    p: "put m1 s2 = Inr (True, m', s')" "wf_buf m'" "sunk s' = sunk s2 @ emit x"
      "ready s' = ready s2" "pending s' = pending s2" by blast
  have "Filter flt m s = Inr (True, m', s')"
    using Filter_all_pass [of flt s s m m1 s1 m1 s2 True m' s'] g f p(1) by simp
  with p s2 put_vars [OF p(1)] show ?thesis by simp
qed

lemma Filter_rejected:
  assumes "ready s" and "fits x" and "rejects x" and "pending s = frame x @ r" and "wf_buf m"
  shows "\<exists>m' s'. Filter flt m s = Inr (False, m', s') \<and> pending s' = r \<and> sunk s' = sunk s \<and>
    vars s' = upd x (vars s)"
proof -
  from get_one [OF assms(1,2,4,5)] obtain m1 s1 s2 where g: "get m s = Inr (True, m1, s1)"
    and f: "ff m1 s1 = Inr (True, m1, s2)" and m1: "wf_msg m1" "payload m1 = x"
    and s2: "ready s2" "pending s2 = r" "sunk s2 = sunk s" "vars s2 = upd x (vars s)" by metis
  from put_reject [OF m1(1), of s2] m1(2) assms(3) obtain m' s' where
    p: "put m1 s2 = Inr (False, m', s')" "sunk s' = sunk s2" "pending s' = pending s2" by blast
  have "Filter flt m s = Inr (False, m', s')"
    using Filter_all_pass [of flt s s m m1 s1 m1 s2 False m' s'] g f p(1) by simp
  with p s2 put_vars [OF p(1)] show ?thesis by simp
qed

lemma Filter_at_end:
  assumes "ready s" and "pending s = []" and "wf_buf m"
  shows "\<exists>m' s'. Filter flt m s = Inr (False, m', s') \<and> sunk s' = sunk s \<and> vars s' = vars s"
proof -
  from get_at_end [OF assms] obtain m' s' where g: "get m s = Inr (False, m', s')" by blast
  with Filter_get_fails [of flt s s m m' s'] get_sunk [OF g] get_vars [OF g] show ?thesis by simp
qed

text \<open>What the loop has moved when it comes to a given suffix of the input.\<close>

lemma FilterLoop_prefix:
  assumes "ready s" and "\<forall>x \<in> set xs. fits x \<and> accepts x"
    and "pending s = concat (map frame xs) @ r" and "wf_buf m"
  shows "\<exists>m' s'. FilterLoop flt m s = FilterLoop flt m' s' \<and> wf_buf m' \<and> ready s' \<and> pending s' = r \<and>
    sunk s' = sunk s @ concat (map emit xs) \<and> vars s' = fold upd xs (vars s)"
  using assms
proof (induction xs arbitrary: m s)
  case Nil
  then show ?case by auto
next
  case (Cons x xs)
  from Cons.prems have "pending s = frame x @ concat (map frame xs) @ r" and "fits x" and "accepts x"
    by auto
  with Filter_accepted Cons.prems(1,4) obtain m1 s1 where
    F: "Filter flt m s = Inr (True, m1, s1)" and r: "wf_buf m1" "ready s1"
      "pending s1 = concat (map frame xs) @ r" "sunk s1 = sunk s @ emit x"
      "vars s1 = upd x (vars s)" by blast
  from Cons.IH [OF r(2) _ r(3,1)] Cons.prems(2) obtain m' s' where
    "FilterLoop flt m1 s1 = FilterLoop flt m' s'" "wf_buf m'" "ready s'" "pending s' = r"
    "sunk s' = sunk s1 @ concat (map emit xs)" "vars s' = fold upd xs (vars s1)" by auto
  with FilterLoop_next [OF F] r(4,5) show ?case by auto
qed

lemma FilterLoop_all:
  assumes "ready s" and "\<forall>x \<in> set xs. fits x \<and> accepts x"
    and "pending s = concat (map frame xs)" and "wf_buf m"
  shows "\<exists>m' s'. FilterLoop flt m s = Some (Inr (m', s')) \<and> sunk s' = sunk s @ concat (map emit xs) \<and>
    vars s' = fold upd xs (vars s)"
proof -
  from FilterLoop_prefix [OF assms(1,2) _ assms(4), of "[]"] assms(3) obtain m1 s1 where
    l: "FilterLoop flt m s = FilterLoop flt m1 s1" and "wf_buf m1" "ready s1" "pending s1 = []"
      "sunk s1 = sunk s @ concat (map emit xs)" "vars s1 = fold upd xs (vars s)" by auto
  moreover from this Filter_at_end obtain m' s' where
    "Filter flt m1 s1 = Inr (False, m', s')" "sunk s' = sunk s1" "vars s' = vars s1" by blast
  ultimately show ?thesis using FilterLoop_stop by metis
qed

lemma FilterLoop_rejected:
  assumes "ready s" and "\<forall>x \<in> set xs. fits x \<and> accepts x" and "fits y" and "rejects y"
    and "pending s = concat (map frame xs) @ frame y @ r" and "wf_buf m"
  shows "\<exists>m' s'. FilterLoop flt m s = Some (Inr (m', s')) \<and> pending s' = r \<and>
    sunk s' = sunk s @ concat (map emit xs) \<and> vars s' = fold upd (xs @ [y]) (vars s)"
proof -
  from FilterLoop_prefix [OF assms(1,2,5,6)] obtain m1 s1 where
    l: "FilterLoop flt m s = FilterLoop flt m1 s1" and "wf_buf m1" "ready s1"
      "pending s1 = frame y @ r" "sunk s1 = sunk s @ concat (map emit xs)"
      "vars s1 = fold upd xs (vars s)" by auto
  moreover from this Filter_rejected [OF _ assms(3,4)] obtain m' s' where
    "Filter flt m1 s1 = Inr (False, m', s')" "pending s' = r" "sunk s' = sunk s1"
    "vars s' = upd y (vars s1)" by blast
  ultimately show ?thesis using FilterLoop_stop [of flt m1 s1 m' s'] by auto
qed

end

end
