(* ===== verification/Line_Tool.thy ===== *)
theory Line_Tool
  imports Msg_Filter
begin

text \<open>
  The shape of \<^verbatim>\<open>wissbi-count\<close> and \<^verbatim>\<open>wissbi-record\<close>: a filter from lines to lines whose hook looks at every
  message and lets it pass. The loop copies its input line by line until the input ends, or until a
  line the output policy refuses.
\<close>

type_synonym 'x line_state = "iostream_base \<times> iostream_base \<times> 'x"

definition tool_start :: "string \<Rightarrow> 'x \<Rightarrow> 'x line_state" where
  "tool_start input x =
     (let io = IOStreamBase (istream_of input) \<lparr>written = [], badbit = False\<rparr> in (io, io, x))"

definition tool_ready :: "'x line_state \<Rightarrow> bool" where
  "tool_ready s \<longleftrightarrow> good (is_ptr (fst s)) \<and> \<not> badbit (os_ptr (fst (snd s)))"

definition tool_pending :: "'x line_state \<Rightarrow> string" where
  "tool_pending s = rdbuf (is_ptr (fst s))"

definition tool_output :: "'x line_state \<Rightarrow> string" where
  "tool_output s = written (os_ptr (fst (snd s)))"

definition tool_vars :: "'x line_state \<Rightarrow> 'x" where
  "tool_vars s = snd (snd s)"

definition line_tool_filter :: "'x op \<Rightarrow> 'x line_state msg_filter" where
  "line_tool_filter hook =
     set_filter_func (lift_hook hook) (MsgFilter (lift_in Line_Get) (lift_out Line_Put))"

lemma tool_start_simps [simp]:
  "tool_ready (tool_start s x)" "tool_pending (tool_start s x) = s" "tool_output (tool_start s x) = []"
  "tool_vars (tool_start s x) = x"
  by (simp_all add: tool_start_def tool_ready_def tool_pending_def tool_output_def tool_vars_def
      IOStreamBase_def Let_def)

lemma lift_in_Line_Get_codec:
  assumes "tool_ready s" and "line_fits x" and "tool_pending s = line_frame x @ r" and "wf_buf m"
  shows "\<exists>m' s'. lift_in Line_Get m s = Inr (True, m', s') \<and> len m' = length x \<and> payload m' = x \<and>
    tool_ready s' \<and> tool_pending s' = r"
  using assms Line_Get_line [of m "fst s" x r]
  by (cases s) (auto simp: tool_ready_def tool_pending_def lift_in_def)

locale line_tool =
  fixes hook :: "'x op" and upd :: "string \<Rightarrow> 'x \<Rightarrow> 'x"
  assumes hook_upd: "wf_msg m \<Longrightarrow> hook m x = Inr (True, m, upd (payload m) x)"

sublocale line_tool \<subseteq> tool: msg_pipeline "lift_in Line_Get" tool_ready tool_pending line_frame line_fits
    "lift_out Line_Put" "lift_hook hook" tool_output line_frame "\<lambda>x. x \<noteq> []" "\<lambda>x. x = []"
    tool_vars upd
proof
  show "wf_buf m'" if "wf_buf m" and "lift_in Line_Get m s = Inr (b, m', s')"
    for m b m' and s s' :: "'x line_state"
    using that line.get_wf by (auto simp: lift_in_def split: prod.splits sum.splits)
  show "len m' = 0" if "lift_in Line_Get m s = Inr (False, m', s')"
    for m m' and s s' :: "'x line_state"
    using that line.get_false by (auto simp: lift_in_def split: prod.splits sum.splits)
  show "\<exists>m' s'. lift_in Line_Get m s = Inr (False, m', s')"
    if "tool_ready s" and "tool_pending s = []" and "wf_buf m" for m and s :: "'x line_state"
    using that Line_Get_end [of m "fst s"]
    by (cases s) (auto simp: tool_ready_def tool_pending_def lift_in_def)
  show "tool_output s' = tool_output s" if "lift_in Line_Get m s = Inr (b, m', s')"
    for m b m' and s s' :: "'x line_state"
    using that by (auto simp: lift_in_def tool_output_def split: prod.splits sum.splits)
  show "\<exists>m' s'. lift_out Line_Put m s = Inr (True, m', s') \<and> wf_buf m' \<and>
      tool_output s' = tool_output s @ line_frame (payload m) \<and> tool_ready s' = tool_ready s \<and>
      tool_pending s' = tool_pending s"
    if "tool_ready s" and "wf_msg m" and "payload m \<noteq> []" for m and s :: "'x line_state"
  proof -
    have "0 < len m" using that(3) by (cases "len m") (auto simp: payload_def)
    with that Line_Put_written [of m "fst (snd s)"] show ?thesis
      by (cases s) (auto simp: lift_out_def tool_output_def tool_ready_def tool_pending_def)
  qed
  show "\<exists>m' s'. lift_out Line_Put m s = Inr (False, m', s') \<and> tool_output s' = tool_output s \<and>
      tool_pending s' = tool_pending s"
    if "wf_msg m" and "payload m = []" for m and s :: "'x line_state"
  proof -
    have "len m = 0" using that length_payload [of m] by simp
    then show ?thesis
      by (cases s) (auto simp: lift_out_def wissbi_policy tool_output_def tool_pending_def)
  qed
  show "\<exists>s'. lift_hook hook m s = Inr (True, m, s') \<and> tool_output s' = tool_output s \<and>
      tool_ready s' = tool_ready s \<and> tool_pending s' = tool_pending s \<and>
      tool_vars s' = upd (payload m) (tool_vars s)"
    if "wf_msg m" for m and s :: "'x line_state"
    using hook_upd [OF that]
    by (cases s)
      (auto simp: lift_hook_def tool_output_def tool_ready_def tool_pending_def tool_vars_def)
  show "tool_vars s' = tool_vars s" if "lift_in Line_Get m s = Inr (b, m', s')"
    for m b m' and s s' :: "'x line_state"
    using that by (auto simp: lift_in_def tool_vars_def split: prod.splits sum.splits)
  show "tool_vars s' = tool_vars s" if "lift_out Line_Put m s = Inr (b, m', s')"
    for m b m' and s s' :: "'x line_state"
    using that by (auto simp: lift_out_def tool_vars_def split: prod.splits sum.splits)
  show "\<exists>m' s'. lift_in Line_Get m s = Inr (True, m', s') \<and> len m' = length x \<and> payload m' = x \<and>
      tool_ready s' \<and> tool_pending s' = r"
    if "tool_ready s" and "line_fits x" and "tool_pending s = line_frame x @ r" and "wf_buf m"
    for m x r and s :: "'x line_state"
    using that by (rule lift_in_Line_Get_codec)
qed (simp add: line_fits_def)

context line_tool
begin

lemma tool_copies:
  assumes "\<forall>x \<in> set xs. line_fits x \<and> x \<noteq> []" and "wf_buf m"
  shows "\<exists>m' s'. FilterLoop (line_tool_filter hook) m (tool_start (concat (map line_frame xs)) v) =
      Some (Inr (m', s')) \<and> tool_output s' = concat (map line_frame xs) \<and>
    tool_vars s' = fold upd xs v"
  using tool.FilterLoop_all [of "tool_start (concat (map line_frame xs)) v" xs m] assms
  by (simp add: line_tool_filter_def)

lemma tool_stops_at_empty_line:
  assumes "\<forall>x \<in> set xs. line_fits x \<and> x \<noteq> []" and "wf_buf m"
  shows "\<exists>m' s'. FilterLoop (line_tool_filter hook) m
      (tool_start (concat (map line_frame xs) @ line_frame [] @ r) v) = Some (Inr (m', s')) \<and>
    tool_output s' = concat (map line_frame xs) \<and> tool_pending s' = r \<and>
    tool_vars s' = fold upd (xs @ [[]]) v"
  using tool.FilterLoop_rejected
      [of "tool_start (concat (map line_frame xs) @ line_frame [] @ r) v" xs "[]" r m] assms
  by (auto simp: line_tool_filter_def line_fits_def)

end

end
