(* ===== verification/Count_Main.thy ===== *)
theory Count_Main
  imports Line_Tool
begin

text \<open>
  \<^verbatim>\<open>src/count.cpp\<close>: \<^verbatim>\<open>wissbi-count\<close> copies lines and reports, at most once a second, how many it saw per
  second. The clock \<^verbatim>\<open>time(NULL)\<close> is a parameter: a function that reads it from the state \<open>'w\<close> outside. A
  report is kept as the pair of numbers whose quotient the program prints.
\<close>

record 'w count_vars =
  last_update_ts :: int
  count :: int
  reports :: "(int \<times> int) list"
  count_world :: 'w

definition count_hook :: "('w \<Rightarrow> int \<times> 'w) \<Rightarrow> 'w count_vars op" where
  "count_hook time m v =
     (let v1 = v\<lparr>count := count v + 1\<rparr>;
          (current_ts, w) = time (count_world v1);
          v2 = v1\<lparr>count_world := w\<rparr>
      in if last_update_ts v2 < current_ts
         then Inr (True, m, v2\<lparr>reports := reports v2 @ [(count v2, current_ts - last_update_ts v2)],
                                last_update_ts := current_ts, count := 0\<rparr>)
         else Inr (True, m, v2))"

definition count_start :: "('w \<Rightarrow> int \<times> 'w) \<Rightarrow> 'w \<Rightarrow> 'w count_vars" where
  "count_start time w =
     (case time w of (t, w') \<Rightarrow>
        \<lparr>last_update_ts = t, count = 0, reports = [], count_world = w'\<rparr>)"

definition count_main ::
  "('w \<Rightarrow> int \<times> 'w) \<Rightarrow> msg_buf \<Rightarrow> string \<Rightarrow> 'w \<Rightarrow>
     (fault + (msg_buf \<times> 'w count_vars line_state)) option" where
  "count_main time m input w =
     FilterLoop (line_tool_filter (count_hook time)) m (tool_start input (count_start time w))"

subsection \<open>What the hook does to its variables\<close>

definition count_upd :: "('w \<Rightarrow> int \<times> 'w) \<Rightarrow> string \<Rightarrow> 'w count_vars \<Rightarrow> 'w count_vars" where
  "count_upd time x v = (case count_hook time (msg_of x) v of Inr (_, _, v') \<Rightarrow> v' | Inl _ \<Rightarrow> v)"

lemma count_hook_upd: "count_hook time m v = Inr (True, m, count_upd time x v)"
  by (simp add: count_upd_def count_hook_def Let_def split: prod.split)

interpretation counter: line_tool "count_hook time" "count_upd time" for time :: "'w \<Rightarrow> int \<times> 'w"
  by unfold_locales (rule count_hook_upd)

text \<open>Every message is in a report or in the running count; every reported span is positive.\<close>

definition counted :: "'w count_vars \<Rightarrow> int" where
  "counted v = count v + sum_list (map fst (reports v))"

definition spans_positive :: "'w count_vars \<Rightarrow> bool" where
  "spans_positive v \<longleftrightarrow> (\<forall>(n, dt) \<in> set (reports v). 0 < n \<and> 0 < dt) \<and> 0 \<le> count v"

lemma count_upd_counted: "counted (count_upd time x v) = counted v + 1"
  by (simp add: counted_def count_upd_def count_hook_def Let_def split: prod.split)

lemma count_upd_spans: "spans_positive v \<Longrightarrow> spans_positive (count_upd time x v)"
  by (auto simp: spans_positive_def count_upd_def count_hook_def Let_def split: prod.splits if_splits)

lemma fold_count_upd:
  "counted (fold (count_upd time) xs v) = counted v + int (length xs)"
  "spans_positive v \<Longrightarrow> spans_positive (fold (count_upd time) xs v)"
  by (induction xs arbitrary: v) (simp_all add: count_upd_counted count_upd_spans)

lemma count_start_inv [simp]: "counted (count_start time w) = 0" "spans_positive (count_start time w)"
  by (simp_all add: counted_def spans_positive_def count_start_def split: prod.split)

end
