(* ===== verification/Record_Main.thy ===== *)
theory Record_Main
  imports Line_Tool "HOL-Library.Sublist"
begin

text \<open>
  \<^verbatim>\<open>src/record.cpp\<close>: \<^verbatim>\<open>wissbi-record\<close> copies lines and keeps the latest in memory, bounded in number
  (\<^verbatim>\<open>WISSBI_RECORD_MAX_MSGNUM\<close>) and, with a collector thread, in age (\<^verbatim>\<open>WISSBI_RECORD_TTL\<close>). On exit it dumps
  them. The clock is a parameter over the state \<open>'w\<close> outside.

  The filter and the collector hold the mutex while they touch the queue, so their critical sections
  are the atomic steps of the relation \<open>rec_step\<close>.
\<close>

type_synonym entry = "string \<times> int"

record 'w record_vars =
  mq :: "entry list"
  mq_locked :: bool
  history :: "entry list"
  rec_world :: 'w

text \<open>\<open>history\<close> is a ghost field: every entry ever pushed.\<close>

text \<open>
  The hook. \<^verbatim>\<open>mq_ptr->size() == max_num\<close> compares a \<^verbatim>\<open>size_t\<close> with an \<^verbatim>\<open>int\<close>, which converts the latter.
\<close>

definition record_hook :: "('w \<Rightarrow> int \<times> 'w) \<Rightarrow> int \<Rightarrow> 'w record_vars op" where
  "record_hook currentTimeMillis max_num m v =
     (case buf_load (buf m) (len m) of
        Inl e \<Rightarrow> Inl e
      | Inr text \<Rightarrow>
          let v1 = v\<lparr>mq_locked := True\<rparr>;
              q1 = (if max_num \<noteq> 0 \<and> length (mq v1) = size_of_int max_num then tl (mq v1) else mq v1);
              (now, w) = currentTimeMillis (rec_world v1)
          in Inr (True, m, v1\<lparr>mq := q1 @ [(text, now)], history := history v @ [(text, now)],
                               rec_world := w, mq_locked := False\<rparr>))"

text \<open>One pass of the collector: the clock is read again for every entry it looks at.\<close>

fun gc_loop :: "('w \<Rightarrow> int \<times> 'w) \<Rightarrow> int \<Rightarrow> entry list \<Rightarrow> 'w \<Rightarrow> entry list \<times> 'w" where
  "gc_loop currentTimeMillis ttl [] w = ([], w)"
| "gc_loop currentTimeMillis ttl (e # es) w =
     (case currentTimeMillis w of (now, w') \<Rightarrow>
        if ttl < now - snd e then gc_loop currentTimeMillis ttl es w' else (e # es, w'))"

definition gc_pass :: "('w \<Rightarrow> int \<times> 'w) \<Rightarrow> int \<Rightarrow> 'w record_vars \<Rightarrow> 'w record_vars" where
  "gc_pass currentTimeMillis ttl v =
     (case gc_loop currentTimeMillis ttl (mq v) (rec_world v) of (q, w) \<Rightarrow>
        v\<lparr>mq := q, rec_world := w, mq_locked := False\<rparr>)"

text \<open>
  The dump at exit: the file, named by the argument of the program or by \<^verbatim>\<open>mktemp\<close> (a parameter), and
  one line per entry in it. It takes the mutex; when the signal that ends the program came while the
  filter held it, the call does not return.
\<close>

definition dump_mq_and_exit ::
  "(string \<Rightarrow> string) \<Rightarrow> string option \<Rightarrow> 'w record_vars \<Rightarrow> fault + (string \<times> string)" where
  "dump_mq_and_exit mktemp filename_ptr v =
     (let filename = (case filename_ptr of None \<Rightarrow> mktemp ''/tmp/wsbrec.XXXXXX'' | Some f \<Rightarrow> f)
      in if mq_locked v then Inl NoReturn
         else Inr (filename, concat (map (\<lambda>t. fst t @ [CHR 0x0A]) (mq v))))"

text \<open>The settings: \<open>None\<close> for a variable that is not set.\<close>

definition record_max_num :: "string option \<Rightarrow> int" where
  "record_max_num env =
     (case env of None \<Rightarrow> 50 | Some s \<Rightarrow> fst (extract_int 50 (istream_of s)))"

definition record_ttl :: "string option \<Rightarrow> int option" where
  "record_ttl env =
     (case env of None \<Rightarrow> None | Some s \<Rightarrow> Some (fst (extract_long 0 (istream_of s)) * 1000))"

definition record_start :: "'w \<Rightarrow> 'w record_vars" where
  "record_start w = \<lparr>mq = [], mq_locked = False, history = [], rec_world = w\<rparr>"

definition record_main ::
  "('w \<Rightarrow> int \<times> 'w) \<Rightarrow> string option \<Rightarrow> msg_buf \<Rightarrow> string \<Rightarrow> 'w \<Rightarrow>
     (fault + (msg_buf \<times> 'w record_vars line_state)) option" where
  "record_main currentTimeMillis max_env m input w =
     FilterLoop (line_tool_filter (record_hook currentTimeMillis (record_max_num max_env))) m
       (tool_start input (record_start w))"

subsection \<open>The queue keeps the latest entries\<close>

definition record_upd ::
  "('w \<Rightarrow> int \<times> 'w) \<Rightarrow> int \<Rightarrow> string \<Rightarrow> 'w record_vars \<Rightarrow> 'w record_vars" where
  "record_upd currentTimeMillis max_num x v =
     (let (now, w) = currentTimeMillis (rec_world v);
          q1 = (if max_num \<noteq> 0 \<and> length (mq v) = size_of_int max_num then tl (mq v) else mq v)
      in v\<lparr>mq := q1 @ [(x, now)], history := history v @ [(x, now)], rec_world := w,
           mq_locked := False\<rparr>)"

lemma record_hook_upd:
  assumes "wf_msg m"
  shows "record_hook time n m v = Inr (True, m, record_upd time n (payload m) v)"
proof -
  have "buf_load (buf m) (len m) = Inr (payload m)"
    using assms by (simp add: wf_msg_def wf_buf_def payload_def)
  then show ?thesis by (simp add: record_hook_def record_upd_def Let_def split: prod.split)
qed

interpretation recorder: line_tool "record_hook time n" "record_upd time n"
  for time :: "'w \<Rightarrow> int \<times> 'w" and n :: int
  by unfold_locales (rule record_hook_upd)

text \<open>Filter and collector, in any order.\<close>

inductive rec_step :: "('w \<Rightarrow> int \<times> 'w) \<Rightarrow> int \<Rightarrow> int \<Rightarrow> 'w record_vars \<Rightarrow> 'w record_vars \<Rightarrow> bool"
  for time :: "'w \<Rightarrow> int \<times> 'w" and max_num ttl :: int where
  push: "rec_step time max_num ttl v (record_upd time max_num x v)"
| collect: "rec_step time max_num ttl v (gc_pass time ttl v)"

inductive rec_reachable :: "('w \<Rightarrow> int \<times> 'w) \<Rightarrow> int \<Rightarrow> int \<Rightarrow> 'w record_vars \<Rightarrow> bool"
  for time :: "'w \<Rightarrow> int \<times> 'w" and max_num ttl :: int where
  start: "rec_reachable time max_num ttl (record_start w)"
| step: "rec_reachable time max_num ttl v \<Longrightarrow> rec_step time max_num ttl v v' \<Longrightarrow>
    rec_reachable time max_num ttl v'"

definition record_inv :: "int \<Rightarrow> 'w record_vars \<Rightarrow> bool" where
  "record_inv max_num v \<longleftrightarrow>
     suffix (mq v) (history v) \<and> (0 < max_num \<longrightarrow> length (mq v) \<le> nat max_num)"

lemma suffix_tl_snoc: "suffix q h \<Longrightarrow> suffix (tl q @ [e]) (h @ [e])"
  by (cases q) (auto simp: suffix_def)

lemma gc_loop_suffix: "suffix (fst (gc_loop time ttl q w)) q"
  by (induction time ttl q w rule: gc_loop.induct) (auto simp: suffix_ConsI split: prod.split)

lemma record_inv_start [simp]: "record_inv n (record_start w)"
  by (simp add: record_inv_def record_start_def)

lemma record_upd_inv:
  assumes "record_inv n v" and "n < 2 ^ 31"
  shows "record_inv n (record_upd time n x v)"
proof -
  obtain now w where t: "time (rec_world v) = (now, w)" by force
  from assms(1) have s: "suffix (mq v) (history v)" by (simp add: record_inv_def)
  have "suffix (mq v @ [e]) (history v @ [e])" for e using s by (auto simp: suffix_def)
  with suffix_tl_snoc [OF s] assms show ?thesis
    by (auto simp: record_inv_def record_upd_def t Let_def)
qed

lemma gc_pass_inv:
  assumes "record_inv n v"
  shows "record_inv n (gc_pass time ttl v)"
proof -
  have "suffix (fst (gc_loop time ttl (mq v) (rec_world v))) (mq v)" by (rule gc_loop_suffix)
  with assms show ?thesis
    by (auto simp: record_inv_def gc_pass_def split: prod.split
        dest: suffix_length_le intro: suffix_order.trans)
qed

lemma rec_step_inv:
  "rec_step time n ttl v v' \<Longrightarrow> n < 2 ^ 31 \<Longrightarrow> record_inv n v \<Longrightarrow> record_inv n v'"
  by (induction rule: rec_step.induct) (simp_all add: record_upd_inv gc_pass_inv)

lemma rec_reachable_inv: "rec_reachable time n ttl v \<Longrightarrow> n < 2 ^ 31 \<Longrightarrow> record_inv n v"
  by (induction rule: rec_reachable.induct) (auto intro: rec_step_inv)

text \<open>Without the collector the queue is the last entries, as many as it may hold.\<close>

definition keeps_last :: "int \<Rightarrow> 'w record_vars \<Rightarrow> bool" where
  "keeps_last n v \<longleftrightarrow> mq v = drop (length (history v) - nat n) (history v)"

lemma record_upd_last:
  assumes "0 < n" and "n < 2 ^ 31" and "keeps_last n v"
  shows "keeps_last n (record_upd time n x v)"
proof -
  obtain now w where t: "time (rec_world v) = (now, w)" by force
  have l: "length (mq v) = min (length (history v)) (nat n)"
    using assms(3) by (simp add: keeps_last_def)
  show ?thesis
  proof (cases "length (mq v) = nat n")
    case True
    with l have "nat n \<le> length (history v)" by simp
    then have "Suc (length (history v)) - nat n = Suc (length (history v) - nat n)" by simp
    with True assms show ?thesis
      by (simp add: keeps_last_def record_upd_def t Let_def drop_Suc tl_drop)
  next
    case False
    with l have "length (history v) < nat n" by simp
    with False assms show ?thesis
      by (simp add: keeps_last_def record_upd_def t Let_def)
  qed
qed

lemma fold_record_upd:
  "map fst (history (fold (record_upd time n) xs v)) = map fst (history v) @ xs"
  "0 < n \<Longrightarrow> n < 2 ^ 31 \<Longrightarrow> keeps_last n v \<Longrightarrow> keeps_last n (fold (record_upd time n) xs v)"
proof (induction xs arbitrary: v)
  case (Cons x xs)
  case 1
  then show ?case using Cons.IH(1) by (simp add: record_upd_def Let_def split: prod.split)
next
  case (Cons x xs)
  case 2
  then show ?case using Cons.IH(2) [OF 2(1,2) record_upd_last [OF 2]] by simp
qed simp_all

lemma record_last_messages:
  assumes "0 < n" and "n < 2 ^ 31"
  shows "map fst (mq (fold (record_upd time n) xs (record_start w))) = drop (length xs - nat n) xs"
proof -
  let ?v = "fold (record_upd time n) xs (record_start w)"
  have h: "map fst (history ?v) = xs" by (simp add: fold_record_upd(1) record_start_def)
  then have "length (history ?v) = length xs" by (metis length_map)
  moreover have "keeps_last n ?v"
    using assms by (intro fold_record_upd(2)) (simp_all add: keeps_last_def record_start_def)
  ultimately show ?thesis using h by (simp add: keeps_last_def drop_map [symmetric])
qed

end
