(* ===== verification/Tee_Policy.thy ===== *)
theory Tee_Policy
  imports Msg_Buf "HOL-Library.AList"
begin

text \<open>
  \<^verbatim>\<open>src/io_policy/tee.hpp\<close>: an output policy that hands each message to every branch. The branches are
  an \<^verbatim>\<open>unordered_map\<close> from names to shared objects of the branch policy; here an association list in the
  order the map is iterated in, about which nothing is assumed. \<open>'p\<close> is the branch policy's object,
  \<open>'w\<close> the state outside.
\<close>

record 'p tee =
  branch_map :: "(string \<times> 'p) list"
  last_tee_count :: int
  last_failed_count :: int

text \<open>The counters have no initial value in the source.\<close>

definition Tee_new :: "int \<Rightarrow> int \<Rightarrow> 'p tee" where
  "Tee_new c0 f0 = \<lparr>branch_map = [], last_tee_count = c0, last_failed_count = f0\<rparr>"

text \<open>The loop of \<^verbatim>\<open>Put\<close>, with the two counters.\<close>

fun tee_loop :: "('p \<times> 'w) op \<Rightarrow> (string \<times> 'p) list \<Rightarrow> int \<Rightarrow> int \<Rightarrow> msg_buf \<Rightarrow> 'w \<Rightarrow>
    fault + ((string \<times> 'p) list \<times> int \<times> int \<times> msg_buf \<times> 'w)" where
  "tee_loop put [] c f m w = Inr ([], c, f, m, w)"
| "tee_loop put ((name, p) # kvs) c f m w =
     (case put m (p, w) of
        Inl e \<Rightarrow> Inl e
      | Inr (ok, m1, p1, w1) \<Rightarrow>
          (case tee_loop put kvs (c + 1) (if ok then f else f + 1) m1 w1 of
             Inl e \<Rightarrow> Inl e
           | Inr (kvs', r) \<Rightarrow> Inr ((name, p1) # kvs', r)))"

definition Tee_Put :: "('p \<times> 'w) op \<Rightarrow> ('p tee \<times> 'w) op" where
  "Tee_Put put m s =
     (case s of (t, w) \<Rightarrow>
        (case tee_loop put (branch_map t) 0 0 m w of
           Inl e \<Rightarrow> Inl e
         | Inr (kvs, c, f, m', w') \<Rightarrow>
             Inr (True, m', t\<lparr>branch_map := kvs, last_tee_count := c, last_failed_count := f\<rparr>, w')))"

definition AddBranch :: "string \<Rightarrow> 'p \<Rightarrow> 'p tee \<Rightarrow> 'p tee" where
  "AddBranch name p t = t\<lparr>branch_map := AList.update name p (branch_map t)\<rparr>"

definition RemoveBranch :: "string \<Rightarrow> 'p tee \<Rightarrow> 'p tee" where
  "RemoveBranch name t = t\<lparr>branch_map := AList.delete name (branch_map t)\<rparr>"

definition ExistsBranch :: "string \<Rightarrow> 'p tee \<Rightarrow> bool" where
  "ExistsBranch name t = (map_of (branch_map t) name \<noteq> None)"

definition GetBranchCount :: "'p tee \<Rightarrow> nat" where
  "GetBranchCount t = length (branch_map t)"

definition GetLastTeeCount :: "'p tee \<Rightarrow> int" where
  "GetLastTeeCount t = last_tee_count t"

definition GetLastFailedCount :: "'p tee \<Rightarrow> int" where
  "GetLastFailedCount t = last_failed_count t"

subsection \<open>The branch map\<close>

definition wf_tee :: "'p tee \<Rightarrow> bool" where
  "wf_tee t \<longleftrightarrow> distinct (map fst (branch_map t))"

lemma wf_Tee_new [simp]: "wf_tee (Tee_new c f)"
  by (simp add: wf_tee_def Tee_new_def)

lemma wf_AddBranch [simp]: "wf_tee t \<Longrightarrow> wf_tee (AddBranch n p t)"
  by (simp add: wf_tee_def AddBranch_def distinct_update)

lemma wf_RemoveBranch [simp]: "wf_tee t \<Longrightarrow> wf_tee (RemoveBranch n t)"
  by (simp add: wf_tee_def RemoveBranch_def distinct_delete)

lemma ExistsBranch_iff: "ExistsBranch n t \<longleftrightarrow> n \<in> fst ` set (branch_map t)"
  by (auto simp: ExistsBranch_def map_of_eq_None_iff)

lemma ExistsBranch_simps [simp]:
  "ExistsBranch k (AddBranch n p t) \<longleftrightarrow> k = n \<or> ExistsBranch k t"
  "ExistsBranch k (RemoveBranch n t) \<longleftrightarrow> k \<noteq> n \<and> ExistsBranch k t"
  "\<not> ExistsBranch k (Tee_new c f)"
  by (auto simp: ExistsBranch_def AddBranch_def RemoveBranch_def Tee_new_def update_conv' delete_conv')

lemma map_of_AddBranch [simp]:
  "map_of (branch_map (AddBranch n p t)) = (map_of (branch_map t))(n \<mapsto> p)"
  by (simp add: AddBranch_def update_conv')

lemma GetBranchCount_card: "wf_tee t \<Longrightarrow> GetBranchCount t = card (fst ` set (branch_map t))"
  by (simp add: wf_tee_def GetBranchCount_def) (metis distinct_card length_map list.set_map)

lemma GetBranchCount_AddBranch:
  assumes "wf_tee t"
  shows "GetBranchCount (AddBranch n p t) = GetBranchCount t + (if ExistsBranch n t then 0 else 1)"
proof -
  have "fst ` set (branch_map (AddBranch n p t)) = insert n (fst ` set (branch_map t))"
    by (simp add: AddBranch_def dom_update)
  then show ?thesis
    using assms by (simp add: GetBranchCount_card ExistsBranch_iff card_insert_if)
qed

subsection \<open>Fan-out\<close>

text \<open>
  The branches of a policy whose \<^verbatim>\<open>Put\<close> leaves the message alone: a fold of the branches' own \<^verbatim>\<open>Put\<close>s,
  in the order of the map, each on the same payload.
\<close>

locale tee_branch = output_policy put for put :: "('p \<times> 'w) op"
begin

lemma tee_loop_counts:
  "tee_loop put kvs c f m w = Inr (kvs', c', f', m', w') \<Longrightarrow>
     map fst kvs' = map fst kvs \<and> c' = c + int (length kvs) \<and> f \<le> f' \<and> f' - f \<le> int (length kvs) \<and>
     buf m' = buf m \<and> len m' = len m"
proof (induction kvs arbitrary: c f m w kvs')
  case (Cons kv kvs)
  obtain name p where kv: "kv = (name, p)" by force
  with Cons.prems obtain ok m1 p1 w1 kvs1 where
    put: "put m (p, w) = Inr (ok, m1, p1, w1)" and kvs': "kvs' = (name, p1) # kvs1" and
    rest: "tee_loop put kvs (c + 1) (if ok then f else f + 1) m1 w1 = Inr (kvs1, c', f', m', w')"
    by (auto split: sum.splits prod.splits)
  from Cons.IH [OF rest] put_buf [OF put] put_len [OF put] show ?case
    by (auto simp: kv kvs' split: if_splits)
qed auto

end

end
