(* ===== verification/Util.thy ===== *)
theory Util
  imports Iostreams
begin

unbundle bit_operations_syntax

text \<open>
  The helpers of \<^verbatim>\<open>src/util.hpp\<close>: connection strings and socket addresses, the host's own address,
  and the escaping of queue names to file names.

  The resolver functions of the C library (\<^verbatim>\<open>inet_addr\<close>, \<^verbatim>\<open>inet_ntoa\<close>, \<^verbatim>\<open>gethostname\<close>,
  \<^verbatim>\<open>getaddrinfo\<close>) are parameters. What the program relies on of the first two is the locale
  \<open>inet_conv\<close>; the dotted-quad notation the C library documents interprets it.
\<close>

subsection \<open>Byte order\<close>

text \<open>The target is a little-endian machine (\<^verbatim>\<open>amd64\<close> in the Makefile): \<^verbatim>\<open>htons\<close> swaps the bytes.\<close>

definition htons :: "16 word \<Rightarrow> 16 word" where
  "htons w = push_bit 8 w OR drop_bit 8 w"

definition ntohs :: "16 word \<Rightarrow> 16 word" where
  "ntohs w = htons w"

lemma htons_htons [simp]: "htons (htons w) = w"
  by (rule bit_word_eqI) (auto simp: htons_def bit_simps)

lemma ntohs_htons [simp]: "ntohs (htons w) = w"
  by (simp add: ntohs_def)

lemma htons_ntohs [simp]: "htons (ntohs w) = w"
  by (simp add: ntohs_def)

subsection \<open>Socket addresses\<close>

record sockaddr_in =
  sin_family :: nat
  sin_port :: "16 word"
  s_addr :: "32 word"

definition AF_INET :: nat where
  "AF_INET = 2"

text \<open>
  The port variable has no initial value in the source: \<open>port0\<close> stands for what is in it. It
  survives when nothing follows the colon.
\<close>

definition ConnectStringToSockaddr ::
  "(string \<Rightarrow> 32 word) \<Rightarrow> int \<Rightarrow> string \<Rightarrow> sockaddr_in" where
  "ConnectStringToSockaddr inet_addr port0 conn_str =
     (let idx = str_find conn_str CHR '':'';
          addr = inet_addr (c_str (str_substr conn_str 0 idx));
          iss = istream_of (str_substr conn_str (size_add idx 1) (length conn_str));
          (port, _) = extract_int port0 iss
      in \<lparr>sin_family = AF_INET, sin_port = htons (word_of_int port), s_addr = addr\<rparr>)"

definition SockaddrToConnectString :: "(32 word \<Rightarrow> string) \<Rightarrow> sockaddr_in \<Rightarrow> string" where
  "SockaddrToConnectString inet_ntoa addr =
     inet_ntoa (s_addr addr) @ '':'' @ show_nat (unat (ntohs (sin_port addr)))"

text \<open>
  \<^verbatim>\<open>getaddrinfo\<close> gives the addresses of a host name in its order of preference, or fails. The source
  looks at neither the result nor the empty list: with no address the dereference is a fault.
\<close>

definition GetHostIP ::
  "string \<Rightarrow> (string \<Rightarrow> 32 word list option) \<Rightarrow> (32 word \<Rightarrow> string) \<Rightarrow> fault + string" where
  "GetHostIP hostname getaddrinfo inet_ntoa =
     (case getaddrinfo hostname of
        Some (a # _) \<Rightarrow> Inr (inet_ntoa a)
      | _ \<Rightarrow> Inl BadIterator)"

subsection \<open>Queue names and file names\<close>

text \<open>
  \<^verbatim>\<open>res.end() - 1\<close> on an empty string points before its first byte; \<open>before\<close> is the byte that happens
  to lie there. If it is a \<^verbatim>\<open>#\<close>, \<^verbatim>\<open>erase\<close> is called with an iterator outside the string.
\<close>

definition EscapeSubFolderPath :: "char \<Rightarrow> string \<Rightarrow> fault + string" where
  "EscapeSubFolderPath before unescaped =
     (let res = str_replace CHR ''/'' CHR ''#'' unescaped
      in if res = [] then (if before = CHR ''#'' then Inl BadIterator else Inr [])
         else if last res = CHR ''#'' then Inr (butlast res) else Inr res)"

definition UnescapeSubFolderPath :: "string \<Rightarrow> string" where
  "UnescapeSubFolderPath escaped = str_replace CHR ''#'' CHR ''/'' escaped"

subsection \<open>Escaping\<close>

text \<open>A queue name the escaping loses nothing of: no \<^verbatim>\<open>#\<close> of its own, no trailing slash.\<close>

definition plain_name :: "string \<Rightarrow> bool" where
  "plain_name s \<longleftrightarrow> s \<noteq> [] \<and> CHR ''#'' \<notin> set s \<and> last s \<noteq> CHR ''/''"

lemma last_str_replace: "s \<noteq> [] \<Longrightarrow>
    last (str_replace a b s) = (if last s = a then b else last s)"
  by (simp add: str_replace_def last_map)

lemma str_replace_eq_Nil [simp]: "str_replace a b s = [] \<longleftrightarrow> s = []"
  by (simp add: str_replace_def)

lemma EscapeSubFolderPath_plain [wissbi_string]:
  "plain_name s \<Longrightarrow> EscapeSubFolderPath before s = Inr (str_replace CHR ''/'' CHR ''#'' s)"
  by (auto simp: EscapeSubFolderPath_def plain_name_def Let_def last_str_replace dest: last_in_set)

text \<open>
  What the escaping does to any name: one trailing slash, or one trailing \<^verbatim>\<open>#\<close>, is dropped, and unescaping
  turns every \<^verbatim>\<open>#\<close> into a slash. \<open>drop_slash\<close> is a name without its trailing slash, and \<open>queue_dest\<close> the
  name that comes back, which is that very name where there is no \<^verbatim>\<open>#\<close>.
\<close>

definition drop_slash :: "string \<Rightarrow> string" where
  "drop_slash s = (if s \<noteq> [] \<and> last s = CHR ''/'' then butlast s else s)"

definition queue_dest :: "string \<Rightarrow> string" where
  "queue_dest s =
     str_replace CHR ''#'' CHR ''/''
       (if s \<noteq> [] \<and> last s = CHR ''#'' then butlast s else drop_slash s)"

lemma drop_slash_plain: "plain_name s \<Longrightarrow> drop_slash s = s"
  by (simp add: drop_slash_def plain_name_def)

lemma queue_dest_no_hash: "CHR ''#'' \<notin> set s \<Longrightarrow> queue_dest s = drop_slash s"
proof -
  assume h: "CHR ''#'' \<notin> set s"
  then have "CHR ''#'' \<notin> set (drop_slash s)" by (auto simp: drop_slash_def dest: in_set_butlastD)
  moreover have "\<not> (s \<noteq> [] \<and> last s = CHR ''#'')" using h last_in_set [of s] by metis
  ultimately show ?thesis
    unfolding queue_dest_def by (simp only: if_False str_replace_id not_False_eq_True)
qed

lemma butlast_str_replace: "butlast (str_replace a b s) = str_replace a b (butlast s)"
  by (simp add: str_replace_def map_butlast)

lemma str_replace_again: "str_replace b a (str_replace a b s) = str_replace b a s"
  by (simp add: str_replace_def)

lemma Escape_any:
  assumes "s \<noteq> []"
  obtains e where "EscapeSubFolderPath before s = Inr e" and "CHR ''/'' \<notin> set e"
    and "UnescapeSubFolderPath e = queue_dest s"
proof
  let ?e = "str_replace CHR ''/'' CHR ''#'' (if last s = CHR ''#'' then butlast s else drop_slash s)"
  show "EscapeSubFolderPath before s = Inr ?e"
    using assms
    by (simp add: EscapeSubFolderPath_def Let_def last_str_replace butlast_str_replace drop_slash_def)
  show "CHR ''/'' \<notin> set ?e" by (rule str_replace_absent) simp
  show "UnescapeSubFolderPath ?e = queue_dest s"
    using assms by (simp add: UnescapeSubFolderPath_def str_replace_again queue_dest_def)
qed

lemma EscapeSubFolderPath_no_slash:
  "EscapeSubFolderPath before s = Inr e \<Longrightarrow> CHR ''/'' \<notin> set e"
  using str_replace_absent [of "CHR ''/''" "CHR ''#''" s]
  by (auto simp: EscapeSubFolderPath_def Let_def split: if_splits dest: in_set_butlastD)

lemma EscapeSubFolderPath_total: "s \<noteq> [] \<Longrightarrow> \<exists>e. EscapeSubFolderPath before s = Inr e"
  by (simp add: EscapeSubFolderPath_def Let_def)

lemma Unescape_append [wissbi_string]:
  "UnescapeSubFolderPath (a @ b) = UnescapeSubFolderPath a @ UnescapeSubFolderPath b"
  by (simp add: UnescapeSubFolderPath_def)

lemma Unescape_no_hash [wissbi_string]: "CHR ''#'' \<notin> set s \<Longrightarrow> UnescapeSubFolderPath s = s"
  by (simp add: UnescapeSubFolderPath_def str_replace_id)

lemma Unescape_Escape [wissbi_string]:
  "CHR ''#'' \<notin> set s \<Longrightarrow> UnescapeSubFolderPath (str_replace CHR ''/'' CHR ''#'' s) = s"
  by (simp add: UnescapeSubFolderPath_def str_replace_inverse)

subsection \<open>What the program relies on of the C library's address functions\<close>

locale inet_conv =
  fixes inet_addr :: "string \<Rightarrow> 32 word"
    and inet_ntoa :: "32 word \<Rightarrow> string"
  assumes inet_addr_ntoa: "inet_addr (inet_ntoa a) = a"
    and inet_ntoa_chars: "c \<in> set (inet_ntoa a) \<Longrightarrow> is_digit c \<or> c = CHR ''.''"
begin

lemma inet_ntoa_free:
  "CHR '':'' \<notin> set (inet_ntoa a)" "CHR '','' \<notin> set (inet_ntoa a)"
  "CHR ''/'' \<notin> set (inet_ntoa a)" "CHR ''#'' \<notin> set (inet_ntoa a)"
  "CHR 0x00 \<notin> set (inet_ntoa a)"
  by (auto dest!: inet_ntoa_chars)

lemma connect_string_free:
  "CHR '','' \<notin> set (SockaddrToConnectString inet_ntoa a)"
  "CHR ''/'' \<notin> set (SockaddrToConnectString inet_ntoa a)"
  "CHR ''#'' \<notin> set (SockaddrToConnectString inet_ntoa a)"
  by (auto simp: SockaddrToConnectString_def inet_ntoa_free)

lemma connect_string_roundtrip:
  assumes "sin_family a = AF_INET"
    and short: "length (SockaddrToConnectString inet_ntoa a) < npos"
  shows "ConnectStringToSockaddr inet_addr port0 (SockaddrToConnectString inet_ntoa a) = a"
proof -
  let ?h = "inet_ntoa (s_addr a)" and ?p = "unat (ntohs (sin_port a))"
  let ?s = "SockaddrToConnectString inet_ntoa a"
  have s: "?s = ?h @ CHR '':'' # show_nat ?p"
    by (simp add: SockaddrToConnectString_def)
  have idx: "str_find ?s CHR '':'' = length ?h"
    unfolding s by (rule str_find_first) (rule inet_ntoa_free)
  have nxt: "size_add (length ?h) 1 = Suc (length ?h)"
    using short unfolding s by (simp add: size_add_def npos_def)
  have host: "c_str (str_substr ?s 0 (length ?h)) = ?h"
    unfolding s str_substr_def by (simp add: inet_ntoa_free)
  have port: "str_substr ?s (Suc (length ?h)) (length ?s) = show_nat ?p"
    unfolding s str_substr_def by simp
  have "int ?p \<le> int_max"
    using unsigned_less [of "ntohs (sin_port a)", where 'a = int] by simp
  then have ext: "fst (extract_int port0 (istream_of (show_nat ?p))) = int ?p"
    by (rule extract_int_of_show_nat)
  have "word_of_int (int ?p) = ntohs (sin_port a)" by simp
  with ext show ?thesis
    using assms(1)
    unfolding ConnectStringToSockaddr_def Let_def idx nxt host port
    by (simp add: inet_addr_ntoa case_prod_beta)
qed

end

subsection \<open>Dotted-quad notation\<close>

text \<open>
  The notation the C library documents, on addresses in network byte order as a little-endian
  machine holds them: the low byte is printed first. It shows that the laws can hold.
\<close>

definition quad_ntoa :: "32 word \<Rightarrow> string" where
  "quad_ntoa a =
     (let n = unat a
      in show_nat (n mod 256) @ ''.'' @ show_nat (n div 256 mod 256) @ ''.'' @
         show_nat (n div 65536 mod 256) @ ''.'' @ show_nat (n div 16777216))"

definition quad_addr :: "string \<Rightarrow> 32 word" where
  "quad_addr s =
     (let a = takeWhile is_digit s; r1 = tl (dropWhile is_digit s);
          b = takeWhile is_digit r1; r2 = tl (dropWhile is_digit r1);
          c = takeWhile is_digit r2; r3 = tl (dropWhile is_digit r2);
          d = takeWhile is_digit r3
      in word_of_nat (digits_val a + 256 * digits_val b + 65536 * digits_val c +
                      16777216 * digits_val d))"

lemma quad_split: "(n::nat) mod 256 + 256 * (n div 256 mod 256) + 65536 * (n div 65536 mod 256) +
    16777216 * (n div 16777216) = n"
proof -
  define m k where "m = n div 256" and "k = m div 256"
  then have d: "n div 65536 = k" "n div 16777216 = k div 256"
    by (simp_all add: div_mult2_eq [symmetric])
  have "n mod 256 + 256 * m = n" and "m mod 256 + 256 * k = m"
    and "k mod 256 + 256 * (k div 256) = k"
    unfolding m_def k_def by (rule mod_mult_div_eq)+
  then show ?thesis unfolding d m_def [symmetric] by linarith
qed

lemma quad_addr_ntoa: "quad_addr (quad_ntoa a) = a"
proof -
  have "quad_addr (quad_ntoa a) = word_of_nat (unat a mod 256 + 256 * (unat a div 256 mod 256) +
      65536 * (unat a div 65536 mod 256) + 16777216 * (unat a div 16777216))"
    by (simp add: quad_addr_def quad_ntoa_def Let_def del: of_nat_add of_nat_mult)
  then show ?thesis by (simp add: quad_split del: of_nat_add of_nat_mult)
qed

interpretation quad: inet_conv quad_addr quad_ntoa
  proof
  show "quad_addr (quad_ntoa a) = a" for a by (rule quad_addr_ntoa)
  show "is_digit c \<or> c = CHR ''.''" if "c \<in> set (quad_ntoa a)" for c a
    using that by (auto simp: quad_ntoa_def Let_def dest!: show_nat_digits [rule_format])
qed

end
