(* ===== verification/Sysv_Mq.thy ===== *)
theory Sysv_Mq
  imports Msg_Buf Util
begin

text \<open>
  \<^verbatim>\<open>src/io_policy/sysv_mq.hpp\<close>: messages on a System V message queue whose key comes from a file named
  after the process and the queue. The calls into the kernel are parameters, collected in the record
  \<open>ipc\<close> over the state \<open>'w\<close> outside the process; what the program relies on of a queue is the locale
  \<open>mq_kernel\<close>.
\<close>

record 'w ipc =
  ipc_creat :: "string \<Rightarrow> 'w \<Rightarrow> bool \<times> 'w"
  ipc_ftok :: "string \<Rightarrow> 'w \<Rightarrow> int"
  ipc_msgget :: "int \<Rightarrow> 'w \<Rightarrow> int \<times> 'w"
  ipc_msgsnd :: "int \<Rightarrow> int \<Rightarrow> string \<Rightarrow> nat \<Rightarrow> int \<Rightarrow> 'w \<Rightarrow> bool \<times> 'w"
  ipc_msgrcv :: "int \<Rightarrow> nat \<Rightarrow> 'w \<Rightarrow> (int \<times> string) option \<times> 'w"
  ipc_qnum :: "int \<Rightarrow> 'w \<Rightarrow> nat"
  ipc_rmid :: "int \<Rightarrow> 'w \<Rightarrow> 'w"
  ipc_unlink :: "string \<Rightarrow> 'w \<Rightarrow> 'w"
  ipc_strerror :: "'w \<Rightarrow> string"

text \<open>
  \<open>ipc_creat\<close> is \<^verbatim>\<open>creat\<close> and the \<^verbatim>\<open>close\<close> of what it opened (false for -1); \<open>ipc_msgsnd\<close> takes the
  queue, the type, the array, the size and the flags (true for 0); \<open>ipc_msgrcv\<close> takes the queue and
  the size of the array and gives the type and text of the message (\<open>None\<close> for -1).
\<close>

record sysv_mq =
  mqid :: int
  key :: int
  key_file :: string
  cleanup :: bool
  put_flag :: int

definition IPC_NOWAIT :: int where
  "IPC_NOWAIT = 2048"

text \<open>Flags with which \<^verbatim>\<open>msgsnd\<close> waits until the queue has room; \<^verbatim>\<open>IPC_NOWAIT\<close> is bit 11.\<close>

definition waits_for_room :: "int \<Rightarrow> bool" where
  "waits_for_room f \<longleftrightarrow> \<not> bit f 11"

lemma set_drop_waits: "waits_for_room 0" "\<not> waits_for_room IPC_NOWAIT"
  by (simp_all add: waits_for_room_def IPC_NOWAIT_def bit_iff_odd)

text \<open>The constructor sets \<^verbatim>\<open>cleanup_\<close> alone: the other members hold what was in memory.\<close>

definition SysvMq_new :: "int \<Rightarrow> int \<Rightarrow> int \<Rightarrow> sysv_mq" where
  "SysvMq_new mqid0 key0 flag0 =
     \<lparr>mqid = mqid0, key = key0, key_file = [], cleanup = True, put_flag = flag0\<rparr>"

definition SysvMq_delete :: "'w ipc \<Rightarrow> sysv_mq \<Rightarrow> 'w \<Rightarrow> 'w" where
  "SysvMq_delete I q w =
     (if \<not> cleanup q \<or> length (key_file q) = 0 then w
      else ipc_unlink I (key_file q) (ipc_rmid I (mqid q) w))"

definition mq_key_file :: "nat \<Rightarrow> char \<Rightarrow> string \<Rightarrow> fault + string" where
  "mq_key_file pid before name =
     (case EscapeSubFolderPath before name of
        Inl e \<Rightarrow> Inl e
      | Inr e \<Rightarrow> Inr (''/tmp/wissbi.sysvmq.'' @ show_nat pid @ ''.'' @ e))"

text \<open>\<open>ndebug\<close>: whether assertions are compiled out, as the release build does.\<close>

definition mq_init ::
  "'w ipc \<Rightarrow> bool \<Rightarrow> nat \<Rightarrow> char \<Rightarrow> string \<Rightarrow> sysv_mq \<times> 'w \<Rightarrow> fault option \<times> sysv_mq \<times> 'w" where
  "mq_init I ndebug pid before name s =
     (case s of (q, w) \<Rightarrow>
        (case mq_key_file pid before name of
           Inl e \<Rightarrow> (Some e, q, w)
         | Inr kf \<Rightarrow>
             let q1 = q\<lparr>key_file := kf\<rparr>;
                 (res, w1) = ipc_creat I kf w
             in if \<not> res \<and> \<not> ndebug then (Some AssertFailure, q1, w1)
                else let k = ipc_ftok I kf w1;
                         (ident, w2) = ipc_msgget I k w1;
                         q2 = q1\<lparr>key := k, mqid := ident\<rparr>
                     in if ident < 0
                        then (Some (Exception (''cannot acquire mq: '' @ ipc_strerror I w2)), q2, w2)
                        else (None, q2, w2)))"

definition SysvMq_Put :: "'w ipc \<Rightarrow> (sysv_mq \<times> 'w) op" where
  "SysvMq_Put I m s =
     (case s of (q, w) \<Rightarrow>
        let m1 = m\<lparr>mtype := 1\<rparr>;
            (ok, w1) = ipc_msgsnd I (mqid q) (mtype m1) (buf m1) (len m1) (put_flag q) w
        in Inr (ok, m1, q, w1))"

definition SysvMq_Get :: "'w ipc \<Rightarrow> (sysv_mq \<times> 'w) op" where
  "SysvMq_Get I m s =
     (case s of (q, w) \<Rightarrow>
        (case ipc_msgrcv I (mqid q) MAX_MSG_SIZE w of
           (None, w1) \<Rightarrow> Inr (False, m\<lparr>len := 0\<rparr>, q, w1)
         | (Some (t, text), w1) \<Rightarrow>
             (case buf_store (buf m) 0 text of
                Inl e \<Rightarrow> Inl e
              | Inr b \<Rightarrow> Inr (True, m\<lparr>mtype := t, buf := b, len := length text\<rparr>, q, w1))))"

definition SysvMq_GetCount :: "'w ipc \<Rightarrow> sysv_mq \<times> 'w \<Rightarrow> nat" where
  "SysvMq_GetCount I s = (case s of (q, w) \<Rightarrow> ipc_qnum I (mqid q) w)"

definition set_cleanup :: "bool \<Rightarrow> sysv_mq \<Rightarrow> sysv_mq" where
  "set_cleanup c q = q\<lparr>cleanup := c\<rparr>"

definition set_drop :: "bool \<Rightarrow> sysv_mq \<Rightarrow> sysv_mq" where
  "set_drop drp q = q\<lparr>put_flag := (if drp then IPC_NOWAIT else 0)\<rparr>"

subsection \<open>Keys\<close>

lemma mq_key_file_plain [wissbi_string]:
  "plain_name s \<Longrightarrow> mq_key_file pid before s =
     Inr (''/tmp/wissbi.sysvmq.'' @ show_nat pid @ ''.'' @ str_replace CHR ''/'' CHR ''#'' s)"
  by (simp add: mq_key_file_def wissbi_string)

lemma show_nat_dot_inj:
  assumes "show_nat a @ CHR ''.'' # x = show_nat b @ CHR ''.'' # y"
  shows "a = b \<and> x = y"
proof -
  have "takeWhile is_digit (show_nat a @ CHR ''.'' # x) = show_nat a"
    and "takeWhile is_digit (show_nat b @ CHR ''.'' # y) = show_nat b" by simp_all
  with assms have "show_nat a = show_nat b" by simp
  with assms show ?thesis by (auto simp: show_nat_inj)
qed

subsection \<open>The kernel's queues\<close>

text \<open>
  \<open>queue q w\<close> are the texts of the messages of the queue with identifier \<open>q\<close>, oldest first. Sending
  appends the first \<open>n\<close> bytes of the array or fails without effect; receiving with message type 0
  takes the oldest, if it is no longer than the array; the other queues do not change.
\<close>

locale mq_kernel =
  fixes I :: "'w ipc" and queue :: "int \<Rightarrow> 'w \<Rightarrow> string list"
  assumes snd_ok: "n \<le> length b \<Longrightarrow> ipc_msgsnd I q t b n f w = (True, w') \<Longrightarrow>
      queue r w' = (if r = q then queue q w @ [take n b] else queue r w)"
    and snd_fail: "ipc_msgsnd I q t b n f w = (False, w') \<Longrightarrow> queue r w' = queue r w"
    and rcv_ok: "ipc_msgrcv I q n w = (Some (t, x), w') \<Longrightarrow>
      length x \<le> n \<and> queue q w = x # queue q w' \<and> (r \<noteq> q \<longrightarrow> queue r w' = queue r w)"
    and rcv_fail: "ipc_msgrcv I q n w = (None, w') \<Longrightarrow> queue r w' = queue r w"
    and qnum: "ipc_qnum I q w = length (queue q w)"
begin

lemma SysvMq_Put_refines:
  assumes "wf_msg m" and "SysvMq_Put I m (q, w) = Inr (ok, m', q', w')"
  shows "q' = q \<and> payload m' = payload m \<and> wf_msg m' \<and>
    queue r w' = (if ok \<and> r = mqid q then queue r w @ [payload m] else queue r w)"
proof -
  from assms(2) have s: "ipc_msgsnd I (mqid q) 1 (buf m) (len m) (put_flag q) w = (ok, w')"
    and q: "q' = q" and m: "m' = m\<lparr>mtype := 1\<rparr>"
    by (auto simp: SysvMq_Put_def Let_def case_prod_beta prod_eq_iff)
  have l: "len m \<le> length (buf m)" using assms(1) by (simp add: wf_msg_def wf_buf_def)
  have "queue r w' = (if ok \<and> r = mqid q then queue r w @ [payload m] else queue r w)"
  proof (cases ok)
    case True
    with s snd_ok [OF l, of "mqid q" 1 "put_flag q" w w' r] show ?thesis by (simp add: payload_def)
  next
    case False
    with s snd_fail [of "mqid q" 1 "buf m" "len m" "put_flag q" w w' r] show ?thesis by simp
  qed
  with q m assms(1) show ?thesis by (simp add: payload_def wf_msg_def)
qed

lemma SysvMq_Get_refines:
  assumes "wf_buf m" and "SysvMq_Get I m (q, w) = Inr (ok, m', q', w')"
  shows "q' = q \<and> wf_msg m' \<and>
    (if ok then queue (mqid q) w = payload m' # queue (mqid q) w'
     else len m' = 0 \<and> queue (mqid q) w' = queue (mqid q) w) \<and>
    (r \<noteq> mqid q \<longrightarrow> queue r w' = queue r w)"
proof (cases "ipc_msgrcv I (mqid q) MAX_MSG_SIZE w")
  case (Pair res w1)
  show ?thesis
  proof (cases res)
    case None
    with Pair assms have r: "ok = False" "m' = m\<lparr>len := 0\<rparr>" "q' = q" "w' = w1"
      by (auto simp: SysvMq_Get_def)
    from rcv_fail Pair None have "queue x w1 = queue x w" for x by blast
    with r assms(1) show ?thesis by (simp add: wf_msg_def)
  next
    case (Some tx)
    obtain t x where tx: "tx = (t, x)" by force
    with rcv_ok Pair Some have k: "length x \<le> MAX_MSG_SIZE" "queue (mqid q) w = x # queue (mqid q) w1"
      and o: "y \<noteq> mqid q \<Longrightarrow> queue y w1 = queue y w" for y by blast+
    have "buf_store (buf m) 0 x = Inr (x @ drop (length x) (buf m))"
      using k(1) assms(1) by (simp add: wf_buf_def)
    with Pair Some tx assms(2) have r: "ok" "q' = q" "w' = w1"
      "m' = m\<lparr>mtype := t, buf := x @ drop (length x) (buf m), len := length x\<rparr>"
      by (simp_all add: SysvMq_Get_def)
    then show ?thesis
      using k o assms(1) by (simp add: payload_def wf_msg_def wf_buf_def)
  qed
qed

text \<open>No message the kernel delivers goes past the array.\<close>

lemma SysvMq_Get_no_fault:
  assumes "wf_buf m"
  shows "\<exists>ok m' w'. SysvMq_Get I m (q, w) = Inr (ok, m', q, w')"
proof (cases "ipc_msgrcv I (mqid q) MAX_MSG_SIZE w")
  case (Pair res w1)
  show ?thesis
  proof (cases res)
    case None
    with Pair show ?thesis by (auto simp: SysvMq_Get_def)
  next
    case (Some tx)
    then have "length (snd tx) \<le> MAX_MSG_SIZE"
      using rcv_ok [of "mqid q" MAX_MSG_SIZE w "fst tx" "snd tx" w1] Pair by simp
    with Pair Some assms show ?thesis by (auto simp: SysvMq_Get_def wf_buf_def split: prod.splits)
  qed
qed

lemma SysvMq_GetCount_refines: "SysvMq_GetCount I (q, w) = length (queue (mqid q) w)"
  by (simp add: SysvMq_GetCount_def qnum)

end

interpretation mq_out: output_policy "SysvMq_Put I" for I :: "'w ipc"
  by unfold_locales (auto simp: SysvMq_Put_def Let_def split: prod.splits)

interpretation mq_in: input_policy "SysvMq_Get I" for I :: "'w ipc"
proof
  show "wf_buf m'" if "wf_buf m" and "SysvMq_Get I m s = Inr (b, m', s')" for m s b m' s'
    using that
    by (auto simp: SysvMq_Get_def wf_buf_def dest!: buf_store_length
        split: sum.splits prod.splits option.splits)
  show "len m' = 0" if "SysvMq_Get I m s = Inr (False, m', s')" for m s m' s'
    using that by (auto simp: SysvMq_Get_def split: sum.splits prod.splits option.splits)
qed

end
