(* ===== verification/Filter_Metric.thy ===== *)
theory Filter_Metric
  imports Msg_Filter Tee_Policy Sysv_Mq
begin

text \<open>
  \<^verbatim>\<open>src/filter_metric.hpp\<close> and \<^verbatim>\<open>src/metric_reporter.hpp\<close>: counters per destination, and the reporter that
  sends what accumulated since its last run as a message of its own, through a filter from the string
  policy to a tee of message queues.

  The counters keep their widths: \<^verbatim>\<open>atomic_uint\<close> is a \<^typ>\<open>32 word\<close>, \<^verbatim>\<open>atomic_ullong\<close> a \<^typ>\<open>64 word\<close>.
\<close>

record filter_metric =
  metric_name :: string
  last_processed :: "32 word"
  total_processed :: "64 word"

definition FilterMetric :: "string \<Rightarrow> filter_metric" where
  "FilterMetric name = \<lparr>metric_name = name, last_processed = 0, total_processed = 0\<rparr>"

text \<open>\<^verbatim>\<open>++metric.last_processed; ++metric.total_processed;\<close> of a delivered message.\<close>

definition metric_bump :: "filter_metric \<Rightarrow> filter_metric" where
  "metric_bump fm = fm\<lparr>last_processed := last_processed fm + 1,
                       total_processed := total_processed fm + 1\<rparr>"

subsection \<open>Fan-out to message queues\<close>

text \<open>
  A tee of message queues gives every branch the message once, in the order of the map. The branches
  that took it have it at the end of their queue, the others are counted as failed.
\<close>

interpretation mq_tee: tee_branch "SysvMq_Put I" for I :: "'w ipc"
  by unfold_locales

context mq_kernel
begin

lemma tee_loop_queues:
  assumes "wf_msg m" and "tee_loop (SysvMq_Put I) kvs c f m w = Inr (kvs', c', f', m', w')"
  shows "\<exists>oks. length oks = length kvs \<and> kvs' = kvs \<and> c' = c + int (length kvs) \<and>
    f' = f + int (length (filter Not oks)) \<and> wf_msg m' \<and> payload m' = payload m \<and>
    (\<forall>r. queue r w' = queue r w @
       map (\<lambda>_. payload m) (filter (\<lambda>(kv, ok). ok \<and> mqid (snd kv) = r) (zip kvs oks)))"
  using assms
proof (induction kvs arbitrary: c f m w kvs')
  case Nil
  then show ?case by simp
next
  case (Cons kv kvs)
  obtain name p where kv: "kv = (name, p)" by force
  with Cons.prems obtain ok m1 p1 w1 kvs1 where
    put: "SysvMq_Put I m (p, w) = Inr (ok, m1, p1, w1)" and kvs': "kvs' = (name, p1) # kvs1" and
    rest: "tee_loop (SysvMq_Put I) kvs (c + 1) (if ok then f else f + 1) m1 w1 =
      Inr (kvs1, c', f', m', w')"
    by (auto split: sum.splits prod.splits)
  note one = SysvMq_Put_refines [OF Cons.prems(1) put]
  then have "wf_msg m1" by blast
  from Cons.IH [OF this rest] obtain oks where oks: "length oks = length kvs" "kvs1 = kvs"
    "c' = c + 1 + int (length kvs)" "f' = (if ok then f else f + 1) + int (length (filter Not oks))"
    "wf_msg m'" "payload m' = payload m1"
    and q: "\<And>r. queue r w' = queue r w1 @
       map (\<lambda>_. payload m1) (filter (\<lambda>(kv, ok). ok \<and> mqid (snd kv) = r) (zip kvs oks))" by auto
  have "queue r w' = queue r w @
      map (\<lambda>_. payload m) (filter (\<lambda>(kv, ok). ok \<and> mqid (snd kv) = r) (zip (kv # kvs) (ok # oks)))"
    for r using one [of r] q [of r] by (auto simp: kv)
  then show ?case
    using oks one kvs' by (intro exI [of _ "ok # oks"]) (simp add: kv)
qed

lemma tee_loop_mq_no_fault: "\<exists>r. tee_loop (SysvMq_Put I) kvs c f m w = Inr r"
proof (induction kvs arbitrary: c f m w)
  case (Cons kv kvs)
  obtain name p where kv: "kv = (name, p)" by force
  obtain ok w1 where "ipc_msgsnd I (mqid p) 1 (buf m) (len m) (put_flag p) w = (ok, w1)" by force
  then have "SysvMq_Put I m (p, w) = Inr (ok, m\<lparr>mtype := 1\<rparr>, p, w1)"
    by (simp add: SysvMq_Put_def Let_def)
  moreover from Cons.IH [of "c + 1" "if ok then f else f + 1" "m\<lparr>mtype := 1\<rparr>" w1] obtain r where
    "tee_loop (SysvMq_Put I) kvs (c + 1) (if ok then f else f + 1) (m\<lparr>mtype := 1\<rparr>) w1 = Inr r" by blast
  ultimately show ?case by (simp add: kv split: prod.splits)
qed simp

text \<open>A kernel that takes every message.\<close>

lemma tee_loop_accepted:
  assumes "\<And>q t b n fl w. fst (ipc_msgsnd I q t b n fl w)"
    and "tee_loop (SysvMq_Put I) kvs c f m w = Inr (kvs', c', f', m', w')"
  shows "f' = f"
  using assms(2)
proof (induction kvs arbitrary: c m w kvs')
  case (Cons kv kvs)
  obtain name p where kv: "kv = (name, p)" by force
  obtain w1 where "SysvMq_Put I m (p, w) = Inr (True, m\<lparr>mtype := 1\<rparr>, p, w1)"
    using assms(1) [of "mqid p" 1 "buf m" "len m" "put_flag p" w]
    by (simp add: SysvMq_Put_def Let_def case_prod_beta)
  with Cons.prems kv show ?case
    by (auto split: sum.splits dest!: Cons.IH)
qed simp

lemma Tee_Put_queues:
  assumes "wf_msg m"
  shows "\<exists>oks m' w'. length oks = GetBranchCount t \<and>
    Tee_Put (SysvMq_Put I) m (t, w) =
      Inr (True, m', t\<lparr>last_tee_count := int (GetBranchCount t),
                       last_failed_count := int (length (filter Not oks))\<rparr>, w') \<and>
    wf_msg m' \<and> payload m' = payload m \<and>
    (\<forall>r. queue r w' = queue r w @
       map (\<lambda>_. payload m)
         (filter (\<lambda>(kv, ok). ok \<and> mqid (snd kv) = r) (zip (branch_map t) oks)))"
proof -
  obtain kvs' c' f' m' w' where
    l: "tee_loop (SysvMq_Put I) (branch_map t) 0 0 m w = Inr (kvs', c', f', m', w')"
    using tee_loop_mq_no_fault [of "branch_map t" 0 0 m w] by fastforce
  from tee_loop_queues [OF assms this] obtain oks where
    "length oks = length (branch_map t)" "kvs' = branch_map t" "c' = int (length (branch_map t))"
    "f' = int (length (filter Not oks))" "wf_msg m'" "payload m' = payload m"
    "\<forall>r. queue r w' = queue r w @ map (\<lambda>_. payload m)
       (filter (\<lambda>(kv, ok). ok \<and> mqid (snd kv) = r) (zip (branch_map t) oks))" by auto
  with l show ?thesis
    by (intro exI [of _ oks] exI [of _ m'] exI [of _ w']) (simp add: Tee_Put_def GetBranchCount_def)
qed

lemma filter_zip_all:
  "length oks = length kvs \<Longrightarrow> filter Not oks = [] \<Longrightarrow>
     map (\<lambda>_. x) (filter (\<lambda>(kv, ok). ok \<and> P kv) (zip kvs oks)) = map (\<lambda>_. x) (filter P kvs)"
  by (induction oks kvs rule: list_induct2) auto

lemma Tee_Put_accepted:
  assumes "\<And>q t b n fl w. fst (ipc_msgsnd I q t b n fl w)" and "wf_msg m"
  shows "\<exists>m' t' w'. Tee_Put (SysvMq_Put I) m (t, w) = Inr (True, m', t', w') \<and>
    wf_msg m' \<and> branch_map t' = branch_map t \<and> last_failed_count t' = 0 \<and>
    (\<forall>r. queue r w' = queue r w @
       map (\<lambda>_. payload m) (filter (\<lambda>kv. mqid (snd kv) = r) (branch_map t)))"
proof -
  obtain kvs' c' f' m' w' where
    l: "tee_loop (SysvMq_Put I) (branch_map t) 0 0 m w = Inr (kvs', c', f', m', w')"
    using tee_loop_mq_no_fault [of "branch_map t" 0 0 m w] by fastforce
  note f = tee_loop_accepted [OF assms(1) l]
  from tee_loop_queues [OF assms(2) l] f obtain oks where
    o: "length oks = length (branch_map t)" "filter Not oks = []" and r: "kvs' = branch_map t" "wf_msg m'"
    and q: "\<And>r. queue r w' = queue r w @ map (\<lambda>_. payload m)
       (filter (\<lambda>(kv, ok). ok \<and> mqid (snd kv) = r) (zip (branch_map t) oks))" by auto
  have "queue r w' = queue r w @ map (\<lambda>_. payload m) (filter (\<lambda>kv. mqid (snd kv) = r) (branch_map t))"
    for r using q [of r] filter_zip_all [OF o] by simp
  with l f r show ?thesis by (simp add: Tee_Put_def)
qed

end

subsection \<open>The reporter\<close>

type_synonym ('w, 'x) metric_state = "string_policy \<times> (sysv_mq tee \<times> 'w) \<times> 'x"

definition report_text :: "string \<Rightarrow> filter_metric \<Rightarrow> string" where
  "report_text direction fm =
     metric_name fm @ '','' @ direction @ '','' @ show_nat (unat (last_processed fm))"

text \<open>The filter the reporter feeds, before its owner sets a hook.\<close>

definition metric_input_filter :: "'w ipc \<Rightarrow> ('w, 'x) metric_state msg_filter" where
  "metric_input_filter I = MsgFilter (lift_in String_Get) (lift_out (Tee_Put (SysvMq_Put I)))"

definition filter_Send :: "string \<Rightarrow> ('w, 'x) metric_state \<Rightarrow> ('w, 'x) metric_state" where
  "filter_Send msg s = (String_Send msg (fst s), snd s)"

text \<open>
  \<^verbatim>\<open>Report\<close>: each counter is exchanged for 0; one that was 0 is skipped; the others are sent. The answer
  of the filter is not looked at.
\<close>

fun Report :: "('w, 'x) metric_state msg_filter \<Rightarrow> string \<Rightarrow> filter_metric list \<Rightarrow> msg_buf \<Rightarrow>
    ('w, 'x) metric_state \<Rightarrow> fault + (filter_metric list \<times> msg_buf \<times> ('w, 'x) metric_state)" where
  "Report F direction [] m s = Inr ([], m, s)"
| "Report F direction (fm # fms) m s =
     (if last_processed fm = 0 then
        case Report F direction fms m s of
          Inl e \<Rightarrow> Inl e | Inr (fms', r) \<Rightarrow> Inr (fm\<lparr>last_processed := 0\<rparr> # fms', r)
      else case Filter F m (filter_Send (report_text direction fm) s) of
             Inl e \<Rightarrow> Inl e
           | Inr (_, m1, s1) \<Rightarrow>
               (case Report F direction fms m1 s1 of
                  Inl e \<Rightarrow> Inl e
                | Inr (fms', r) \<Rightarrow> Inr (fm\<lparr>last_processed := 0\<rparr> # fms', r)))"

definition report_texts :: "string \<Rightarrow> filter_metric list \<Rightarrow> string list" where
  "report_texts direction fms =
     map (report_text direction) (filter (\<lambda>fm. last_processed fm \<noteq> 0) fms)"

lemma Report_resets:
  "Report F direction fms m s = Inr (fms', m', s') \<Longrightarrow>
     fms' = map (\<lambda>fm. fm\<lparr>last_processed := 0\<rparr>) fms"
proof (induction fms arbitrary: m s fms' m' s')
  case (Cons fm fms)
  from Cons.prems show ?case
    by (auto split: if_splits sum.splits prod.splits dest: Cons.IH)
qed simp

text \<open>
  When the kernel takes every message, a report puts the text of every non-zero counter, in order, at
  the end of the queue of every branch of the tee.
\<close>

context mq_kernel
begin

lemma Filter_metric_one:
  assumes "wf_buf m" and "good (str_is p)" and "length_fits text"
    and acc: "\<And>q t b n fl w. fst (ipc_msgsnd I q t b n fl w)"
    and hook: "\<And>m s. \<exists>x'. post True m s = Inr (True, m, fst s, fst (snd s), x')"
  shows "\<exists>m' p' t' w' x'.
    Filter (set_post_filter_func post (metric_input_filter I)) m (filter_Send text (p, (t, w), x)) =
      Inr (True, m', p', (t', w'), x') \<and> wf_buf m' \<and> good (str_is p') \<and>
    branch_map t' = branch_map t \<and>
    (\<forall>r. queue r w' = queue r w @
       map (\<lambda>_. text) (filter (\<lambda>kv. mqid (snd kv) = r) (branch_map t)))"
proof -
  from String_Get_Send [OF assms(1-3)] obtain m1 p1 where
    g: "String_Get m (String_Send text p) = Inr (True, m1, p1)" and m1: "wf_buf m1"
      "len m1 = length text" "payload m1 = text" and p1: "good (str_is p1)" by blast
  from m1 assms(3) have "wf_msg m1" by (simp add: wf_msg_def length_fits_def)
  from Tee_Put_accepted [OF acc this, of t w] m1(3) obtain m' t' w' where
    t: "Tee_Put (SysvMq_Put I) m1 (t, w) = Inr (True, m', t', w')" "wf_msg m'"
      "branch_map t' = branch_map t"
    and q: "\<And>r. queue r w' = queue r w @
       map (\<lambda>_. text) (filter (\<lambda>kv. mqid (snd kv) = r) (branch_map t))" by auto
  from hook [of m' "(p1, (t', w'), x)"] obtain x' where
    h: "post True m' (p1, (t', w'), x) = Inr (True, m', p1, (t', w'), x')" by auto
  let ?F = "set_post_filter_func post (metric_input_filter I)"
  have "Filter ?F m (filter_Send text (p, (t, w), x)) =
      post_filter_func ?F True m' (p1, (t', w'), x)"
    using g t(1)
    by (intro Filter_all_pass [of _ _ "filter_Send text (p, (t, w), x)" _ m1 "(p1, (t, w), x)" m1
          "(p1, (t, w), x)"])
      (simp_all add: metric_input_filter_def filter_Send_def lift_in_def lift_out_def)
  with h t p1 q show ?thesis by (auto simp: wf_msg_def)
qed

lemma Report_queues:
  assumes "wf_buf m" and "good (str_is p)"
    and "\<forall>fm \<in> set fms. length_fits (report_text direction fm)"
    and acc: "\<And>q t b n fl w. fst (ipc_msgsnd I q t b n fl w)"
    and hook: "\<And>m s. \<exists>x'. post True m s = Inr (True, m, fst s, fst (snd s), x')"
  shows "\<exists>fms' m' p' t' w' x'.
    Report (set_post_filter_func post (metric_input_filter I)) direction fms m (p, (t, w), x) =
      Inr (fms', m', p', (t', w'), x') \<and>
    (\<forall>r. queue r w' = queue r w @
       concat (map (\<lambda>text. map (\<lambda>_. text) (filter (\<lambda>kv. mqid (snd kv) = r) (branch_map t)))
         (report_texts direction fms)))"
  using assms(1-3)
proof (induction fms arbitrary: m p t w x)
  case Nil
  then show ?case by (simp add: report_texts_def)
next
  case (Cons fm fms)
  let ?F = "set_post_filter_func post (metric_input_filter I)"
  show ?case
  proof (cases "last_processed fm = 0")
    case True
    with Cons.IH [of m p t w x] Cons.prems show ?thesis by (fastforce simp: report_texts_def)
  next
    case False
    from Cons.prems have "length_fits (report_text direction fm)" by simp
    from Filter_metric_one [where post = post, OF Cons.prems(1,2) this acc hook] obtain m1 p1 t1 w1 x1 where
      F: "Filter ?F m (filter_Send (report_text direction fm) (p, (t, w), x)) =
        Inr (True, m1, p1, (t1, w1), x1)" and r: "wf_buf m1" "good (str_is p1)"
        "branch_map t1 = branch_map t"
      and q: "\<And>r. queue r w1 = queue r w @
        map (\<lambda>_. report_text direction fm) (filter (\<lambda>kv. mqid (snd kv) = r) (branch_map t))"
      by blast
    from Cons.IH [OF r(1,2), of t1 w1 x1] Cons.prems(3) obtain fms' m' p' t' w' x' where
      R: "Report ?F direction fms m1 (p1, (t1, w1), x1) = Inr (fms', m', p', (t', w'), x')"
      and q': "\<And>r. queue r w' = queue r w1 @
       concat (map (\<lambda>text. map (\<lambda>_. text) (filter (\<lambda>kv. mqid (snd kv) = r) (branch_map t1)))
         (report_texts direction fms))" by auto
    have "queue r w' = queue r w @
       concat (map (\<lambda>text. map (\<lambda>_. text) (filter (\<lambda>kv. mqid (snd kv) = r) (branch_map t)))
         (report_texts direction (fm # fms)))" for r
      using q [of r] q' [of r] r(3) False by (simp add: report_texts_def)
    with F R False show ?thesis by auto
  qed
qed

end

end
