(* ===== verification/Logger.thy ===== *)
theory Logger
  imports Wissbi_Prelude
begin

text \<open>
  \<^verbatim>\<open>src/logger.hpp\<close>: a line on the standard error stream under a mutex, with the \<^verbatim>\<open>{}\<close> of a format
  filled in. The arguments are given as the text that \<^verbatim>\<open>operator<<\<close> prints for them, the time as the
  text \<^verbatim>\<open>ctime\<close> returns (with its newline).
\<close>

record logger =
  log_mutex :: bool
  cerr :: string

subsection \<open>Splitting the format\<close>

text \<open>\<^verbatim>\<open>format.find("{}", pos)\<close>, on what is left of the format.\<close>

fun find_braces :: "string \<Rightarrow> nat option" where
  "find_braces (a # b # s) =
     (if a = CHR ''{'' \<and> b = CHR ''}'' then Some 0 else map_option Suc (find_braces (b # s)))"
| "find_braces _ = None"

lemma find_braces_bound: "find_braces s = Some i \<Longrightarrow> i + 2 \<le> length s"
  by (induction s arbitrary: i rule: find_braces.induct) (auto split: if_splits)

function split_format :: "string \<Rightarrow> string list" where
  "split_format s =
     (case find_braces s of
        None \<Rightarrow> [s]
      | Some i \<Rightarrow> take i s # split_format (drop (i + 2) s))"
  by pat_completeness auto
termination
  by (relation "measure length") (auto dest: find_braces_bound)

declare split_format.simps [simp del]

subsection \<open>Filling it in\<close>

text \<open>
  One call per argument, as the variadic template unfolds. With fewer segments than arguments the
  iterator runs past the end of the list; with more, the last call throws.
\<close>

fun dispatch_r :: "string list \<Rightarrow> string list \<Rightarrow> fault + string" where
  "dispatch_r (s # ss) [lst] =
     (case ss of
        [] \<Rightarrow> Inl BadIterator
      | s1 # rest \<Rightarrow>
          if rest \<noteq> [] then Inl (Exception ''not enough argument given'')
          else Inr (s @ lst @ s1))"
| "dispatch_r (s # ss) (head # tail) =
     (case dispatch_r ss tail of Inl e \<Rightarrow> Inl e | Inr t \<Rightarrow> Inr (s @ head @ t))"
| "dispatch_r _ _ = Inl BadIterator"

text \<open>
  \<^verbatim>\<open>log(format, head, tail...)\<close>: the mutex is locked before the arguments are filled in and unlocked
  after, so an exception in between leaves it locked; locking a locked mutex never returns.
\<close>

definition log_args :: "string \<Rightarrow> string \<Rightarrow> string list \<Rightarrow> logger \<Rightarrow> fault option \<times> logger" where
  "log_args time_str format args lg =
     (if log_mutex lg then (Some NoReturn, lg)
      else let segments = split_format format;
               lg1 = lg\<lparr>log_mutex := True, cerr := cerr lg @ ''['' @ butlast time_str @ ''] ''\<rparr>
           in case dispatch_r segments args of
                Inl e \<Rightarrow> (Some e, lg1)
              | Inr t \<Rightarrow> (None, lg1\<lparr>log_mutex := False, cerr := cerr lg1 @ t @ [CHR 0x0A]\<rparr>))"

text \<open>\<^verbatim>\<open>log(msg)\<close>.\<close>

definition log_msg :: "string \<Rightarrow> string \<Rightarrow> logger \<Rightarrow> fault option \<times> logger" where
  "log_msg time_str msg lg =
     (if log_mutex lg then (Some NoReturn, lg)
      else (None, lg\<lparr>cerr := cerr lg @ ''['' @ butlast time_str @ ''] '' @ msg @ [CHR 0x0A]\<rparr>))"

subsection \<open>Formats and arguments that match\<close>

definition placeholders :: "string \<Rightarrow> nat" where
  "placeholders s = length (split_format s) - 1"

text \<open>What a matching call prints: segments and arguments in turn.\<close>

fun interleave :: "string list \<Rightarrow> string list \<Rightarrow> string" where
  "interleave (s # ss) (a # as) = s @ a @ interleave ss as"
| "interleave ss as = concat ss"

lemma split_format_not_Nil [simp]: "split_format s \<noteq> []"
  by (simp add: split_format.simps [of s] split: option.split)

lemma dispatch_r_match:
  "length segs = Suc (length args) \<Longrightarrow> args \<noteq> [] \<Longrightarrow> dispatch_r segs args = Inr (interleave segs args)"
proof (induction segs args rule: dispatch_r.induct)
  case (2 s ss head a as)
  then show ?case by simp
qed (auto split: list.splits)

lemma dispatch_r_too_many_segments:
  "Suc (length args) < length segs \<Longrightarrow> args \<noteq> [] \<Longrightarrow>
     dispatch_r segs args = Inl (Exception ''not enough argument given'')"
proof (induction segs args rule: dispatch_r.induct)
  case (2 s ss head a as)
  then show ?case by simp
qed (auto split: list.splits)

lemma dispatch_r_too_few_segments:
  "length segs \<le> length args \<Longrightarrow> dispatch_r segs args = Inl BadIterator"
proof (induction segs args rule: dispatch_r.induct)
  case (2 s ss head a as)
  then show ?case by simp
qed (auto split: list.splits)

text \<open>The formats of the calls in the sources, with the number of arguments each passes.\<close>

definition log_call_sites :: "(string \<times> nat) list" where
  "log_call_sites =
     [(''error connecting: {}'', 1), (''write error to {}: {}'', 2),
      (''unknown message format: {}'', 1), (''wissbi-sub is listening on port {}'', 1),
      (''wissbi-pub connected from {}'', 1), (''Messages dumped to {}'', 1)]"

lemma log_call_sites_match: "\<forall>(f, n) \<in> set log_call_sites. placeholders f = n"
  by (simp add: log_call_sites_def placeholders_def split_format.simps)

end
