(* ===== verification/Tcp_Policy.thy ===== *)
theory Tcp_Policy
  imports Msg_Buf Util Logger
begin

text \<open>
  \<^verbatim>\<open>src/io_policy/tcp.hpp\<close>: messages on a connected socket, each a 4-byte length in network byte order
  and the payload. The socket calls are parameters, collected in the record \<open>net\<close> over the
  state \<open>'w\<close> of the system outside the process.

  What the program relies on of a connection is stated in two locales: \<open>recv_stream\<close> for a connection
  whose remaining bytes arrive in order, in pieces the kernel chooses, and then end; \<open>send_stream\<close> for
  one on which \<^verbatim>\<open>write\<close> takes a non-empty part of what it is given or fails.
\<close>

record 'w net =
  net_socket :: "'w \<Rightarrow> int \<times> 'w"
  net_close :: "int \<Rightarrow> 'w \<Rightarrow> 'w"
  net_connect :: "int \<Rightarrow> sockaddr_in \<Rightarrow> 'w \<Rightarrow> bool \<times> 'w"
  net_read :: "int \<Rightarrow> nat \<Rightarrow> 'w \<Rightarrow> string option \<times> 'w"
  net_write :: "int \<Rightarrow> string \<Rightarrow> 'w \<Rightarrow> nat option \<times> 'w"
  net_getsockname :: "int \<Rightarrow> 'w \<Rightarrow> sockaddr_in"
  net_strerror :: "'w \<Rightarrow> string"
  net_ntoa :: "32 word \<Rightarrow> string"
  net_cerr :: "string \<Rightarrow> 'w \<Rightarrow> 'w"

text \<open>
  \<^verbatim>\<open>read\<close> gives \<open>None\<close> for -1 and the bytes read otherwise (none at the end of the stream); \<^verbatim>\<open>write\<close> gives
  \<open>None\<close> for -1 and the number of bytes taken otherwise; \<^verbatim>\<open>connect\<close> gives false for -1.
\<close>

subsection \<open>The length header\<close>

text \<open>The bytes of a 32-bit integer in the memory of a little-endian machine, lowest first.\<close>

definition mem32 :: "32 word \<Rightarrow> string" where
  "mem32 w =
     (let n = unat w
      in [char_of (n mod 256), char_of (n div 256 mod 256), char_of (n div 65536 mod 256),
          char_of (n div 16777216 mod 256)])"

definition load32 :: "string \<Rightarrow> 32 word" where
  "load32 bs = word_of_nat (of_char (bs ! 0) + 256 * of_char (bs ! 1) + 65536 * of_char (bs ! 2) +
                            16777216 * of_char (bs ! 3))"

definition htonl :: "32 word \<Rightarrow> 32 word" where
  "htonl w = load32 (rev (mem32 w))"

definition ntohl :: "32 word \<Rightarrow> 32 word" where
  "ntohl w = load32 (rev (mem32 w))"

lemma length_mem32 [simp]: "length (mem32 w) = 4"
  by (simp add: mem32_def Let_def)

lemma load32_mem32 [simp]: "load32 (mem32 w) = w"
proof -
  have "unat w div 16777216 < 256"
    using unsigned_less [of w, where 'a = nat] by simp
  then have "load32 (mem32 w) = word_of_nat (unat w mod 256 + 256 * (unat w div 256 mod 256) +
      65536 * (unat w div 65536 mod 256) + 16777216 * (unat w div 16777216))"
    by (simp add: load32_def mem32_def Let_def del: of_nat_add of_nat_mult)
  then show ?thesis by (simp add: quad_split del: of_nat_add of_nat_mult)
qed

lemma quad_bytes:
  fixes a b c d :: nat
  assumes "a < 256" and "b < 256" and "c < 256" and "d < 256"
  defines "n \<equiv> a + 256 * b + 65536 * c + 16777216 * d"
  shows "n mod 256 = a" "n div 256 mod 256 = b" "n div 65536 mod 256 = c"
    "n div 16777216 mod 256 = d" "n < 2 ^ 32"
proof -
  have n: "n = a + 256 * (b + 256 * (c + 256 * d))" by (simp add: n_def)
  have d1: "n div 256 = b + 256 * (c + 256 * d)" using assms(1) unfolding n by simp
  have d2: "n div 65536 = c + 256 * d"
    using assms(2) div_mult2_eq [of n 256 256] unfolding d1 by simp
  have d3: "n div 16777216 = d"
    using assms(3) div_mult2_eq [of n 65536 256] unfolding d2 by simp
  show "n mod 256 = a" unfolding n using assms(1) by (simp only: mod_mult_self2 mod_less)
  show "n div 256 mod 256 = b" unfolding d1 using assms(2) by (simp only: mod_mult_self2 mod_less)
  show "n div 65536 mod 256 = c" unfolding d2 using assms(3) by (simp only: mod_mult_self2 mod_less)
  show "n div 16777216 mod 256 = d" using assms(4) unfolding d3 by simp
  show "n < 2 ^ 32" using assms by simp
qed

lemma mem32_load32 [simp]:
  assumes "length bs = 4"
  shows "mem32 (load32 bs) = bs"
proof -
  from assms obtain a b c d where bs: "bs = [a, b, c, d]"
    by (auto simp: numeral_eq_Suc length_Suc_conv)
  define n :: nat where
    "n = of_char a + 256 * of_char b + 65536 * of_char c + 16777216 * of_char d"
  note q = quad_bytes [of "of_char a" "of_char b" "of_char c" "of_char d", folded n_def, simplified]
  have "load32 bs = word_of_nat n" by (simp add: load32_def bs n_def)
  moreover have "unat (word_of_nat n :: 32 word) = n" using q(5) by (simp add: unat_of_nat)
  ultimately show ?thesis by (simp add: mem32_def Let_def q bs del: char_of_mod_256)
qed

lemma mem32_htonl: "mem32 (htonl w) = rev (mem32 w)"
  by (simp add: htonl_def)

lemma ntohl_htonl [simp]: "ntohl (htonl w) = w"
  by (simp add: ntohl_def htonl_def)

subsection \<open>Reading and writing all bytes\<close>

text \<open>
  \<^verbatim>\<open>ReadAll\<close>: reads until \<^verbatim>\<open>size\<close> bytes are there, into the array at \<^verbatim>\<open>buf\<close>. It returns the count, or
  the result of the call that read nothing. Each round reads at least one byte, so it ends.
\<close>

function ReadAll ::
  "'w net \<Rightarrow> int \<Rightarrow> string \<Rightarrow> nat \<Rightarrow> nat \<Rightarrow> 'w \<Rightarrow> fault + (int \<times> string \<times> 'w)" where
  "ReadAll N fd b sz size_read w =
     (if size_read < sz then
        case net_read N fd (sz - size_read) w of
          (None, w') \<Rightarrow> Inr (-1, b, w')
        | (Some [], w') \<Rightarrow> Inr (0, b, w')
        | (Some (x # xs), w') \<Rightarrow>
            (case buf_store b size_read (x # xs) of
               Inl e \<Rightarrow> Inl e
             | Inr b' \<Rightarrow> ReadAll N fd b' sz (size_read + length (x # xs)) w')
      else Inr (int size_read, b, w))"
  by pat_completeness auto
termination
  by (relation "measure (\<lambda>(N, fd, b, sz, size_read, w). sz - size_read)") auto

declare ReadAll.simps [simp del]

text \<open>
  \<^verbatim>\<open>WriteAll\<close>: a failing \<^verbatim>\<open>write\<close> is logged and reported. A \<^verbatim>\<open>write\<close> that takes nothing is repeated, so the
  loop need not end; \<open>None\<close> is the loop that does not return.
\<close>

definition write_error_text :: "'w net \<Rightarrow> int \<Rightarrow> 'w \<Rightarrow> string" where
  "write_error_text N fd w =
     (case dispatch_r (split_format ''write error to {}: {}'')
             [SockaddrToConnectString (net_ntoa N) (net_getsockname N fd w), net_strerror N w] of
        Inl _ \<Rightarrow> [] | Inr t \<Rightarrow> t)"

partial_function (option) WriteAll ::
  "'w net \<Rightarrow> int \<Rightarrow> string \<Rightarrow> nat \<Rightarrow> 'w \<Rightarrow> (bool \<times> 'w) option" where
  "WriteAll N fd data size_write w =
     (if size_write < length data then
        case net_write N fd (drop size_write data) w of
          (None, w') \<Rightarrow> Some (False, net_cerr N (write_error_text N fd w') w')
        | (Some n, w') \<Rightarrow> WriteAll N fd data (size_write + n) w'
      else Some (True, w))"

subsection \<open>The policy\<close>

record tcp =
  sock :: int

definition TCP_new :: "'w net \<Rightarrow> 'w \<Rightarrow> tcp \<times> 'w" where
  "TCP_new N w = (case net_socket N w of (s, w') \<Rightarrow> (\<lparr>sock = s\<rparr>, w'))"

definition TCP_delete :: "'w net \<Rightarrow> tcp \<Rightarrow> 'w \<Rightarrow> 'w" where
  "TCP_delete N t w = net_close N (sock t) w"

definition TCP_Put :: "'w net \<Rightarrow> (tcp \<times> 'w) op" where
  "TCP_Put N m s =
     (case s of (t, w) \<Rightarrow>
        if len m \<le> 0 then Inr (False, m, t, w)
        else case WriteAll N (sock t) (mem32 (htonl (word_of_nat (len m)))) 0 w of
               None \<Rightarrow> Inl NoReturn
             | Some (False, w1) \<Rightarrow> Inr (False, m, t, w1)
             | Some (True, w1) \<Rightarrow>
                 (case buf_load (buf m) (len m) of
                    Inl e \<Rightarrow> Inl e
                  | Inr xs \<Rightarrow>
                      (case WriteAll N (sock t) xs 0 w1 of
                         None \<Rightarrow> Inl NoReturn
                       | Some (ok, w2) \<Rightarrow> Inr (ok, m, t, w2))))"

text \<open>
  \<^verbatim>\<open>Get\<close>: the header goes to a 4-byte local, then \<^verbatim>\<open>len\<close> bytes to the message's array. The comparison of
  the unsigned length with the signed result converts the latter.
\<close>

definition TCP_Get :: "'w net \<Rightarrow> (tcp \<times> 'w) op" where
  "TCP_Get N m s =
     (case s of (t, w) \<Rightarrow>
        (case ReadAll N (sock t) (replicate 4 CHR 0x00) 4 0 w of
           Inl e \<Rightarrow> Inl e
         | Inr (n, hdr, w1) \<Rightarrow>
             if 4 \<noteq> n then Inr (False, m\<lparr>len := 0\<rparr>, t, w1)
             else let l = unat (ntohl (load32 hdr)) in
               case ReadAll N (sock t) (buf m) l 0 w1 of
                 Inl e \<Rightarrow> Inl e
               | Inr (k, b, w2) \<Rightarrow>
                   if l \<noteq> size_of_int k then Inr (False, m\<lparr>buf := b, len := 0\<rparr>, t, w2)
                   else Inr (True, m\<lparr>buf := b, len := l\<rparr>, t, w2)))"

definition TCP_Connect :: "'w net \<Rightarrow> sockaddr_in \<Rightarrow> tcp \<times> 'w \<Rightarrow> fault option \<times> 'w" where
  "TCP_Connect N addr s =
     (case s of (t, w) \<Rightarrow>
        (case net_connect N (sock t) addr w of
           (False, w') \<Rightarrow>
             (Some (Exception (''cannot connect to '' @ SockaddrToConnectString (net_ntoa N) addr)), w')
         | (True, w') \<Rightarrow> (None, w')))"

definition TCP_AttachConnectedSock :: "'w net \<Rightarrow> int \<Rightarrow> tcp \<times> 'w \<Rightarrow> tcp \<times> 'w" where
  "TCP_AttachConnectedSock N s tw = (case tw of (t, w) \<Rightarrow> (t\<lparr>sock := s\<rparr>, net_close N (sock t) w))"

subsection \<open>The wire format\<close>

definition tcp_frame :: "string \<Rightarrow> string" where
  "tcp_frame x = mem32 (htonl (word_of_nat (length x))) @ x"

definition tcp_fits :: "string \<Rightarrow> bool" where
  "tcp_fits x \<longleftrightarrow> length x \<le> MAX_MSG_SIZE"

lemma htonl_header: "n < 2 ^ 32 \<Longrightarrow> unat (ntohl (load32 (mem32 (htonl (word_of_nat n))))) = n"
  by (simp add: unat_of_nat)

lemma htonl_big_endian:
  "mem32 (htonl w) = [char_of (unat w div 16777216), char_of (unat w div 65536 mod 256),
                      char_of (unat w div 256 mod 256), char_of (unat w mod 256)]"
  unfolding mem32_htonl by (simp add: mem32_def Let_def)

subsection \<open>Sending\<close>

locale send_stream =
  fixes N :: "'w net" and outgoing :: "int \<Rightarrow> 'w \<Rightarrow> string"
  assumes write_takes: "bs \<noteq> [] \<Longrightarrow> net_write N fd bs w = (Some n, w') \<Longrightarrow>
      0 < n \<and> n \<le> length bs \<and> outgoing fd w' = outgoing fd w @ take n bs"
    and write_fails: "net_write N fd bs w = (None, w') \<Longrightarrow> outgoing fd w' = outgoing fd w"
    and cerr_apart: "outgoing fd (net_cerr N t w) = outgoing fd w"
begin

text \<open>
  \<^verbatim>\<open>WriteAll\<close> returns. It reports success exactly when every byte went out, and otherwise a strict
  prefix did.
\<close>

lemma WriteAll_returns:
  assumes "k \<le> length data"
  shows "\<exists>ok w' sent. WriteAll N fd data k w = Some (ok, w') \<and>
    outgoing fd w' = outgoing fd w @ take sent (drop k data) \<and>
    (if ok then sent = length data - k else sent < length data - k)"
  using assms
proof (induction "length data - k" arbitrary: k w rule: less_induct)
  case less
  show ?case
  proof (cases "k < length data")
    case False
    with less.prems show ?thesis by (subst WriteAll.simps) auto
  next
    case True
    then have ne: "drop k data \<noteq> []" by simp
    obtain r w1 where wr: "net_write N fd (drop k data) w = (r, w1)" by force
    show ?thesis
    proof (cases r)
      case None
      with wr True write_fails show ?thesis
        by (subst WriteAll.simps) (auto simp: cerr_apart intro!: exI [of _ 0])
    next
      case (Some n)
      with wr write_takes [OF ne] have n: "0 < n" "n \<le> length data - k"
        and out: "outgoing fd w1 = outgoing fd w @ take n (drop k data)" by auto
      with less.hyps [of "k + n" w1] True obtain ok w' sent where
        rec: "WriteAll N fd data (k + n) w1 = Some (ok, w')"
        and o: "outgoing fd w' = outgoing fd w1 @ take sent (drop (k + n) data)"
        and s: "if ok then sent = length data - (k + n) else sent < length data - (k + n)"
        by fastforce
      have "outgoing fd w' = outgoing fd w @ take (n + sent) (drop k data)"
        unfolding o out by (simp add: take_add add.commute)
      moreover have "WriteAll N fd data k w = Some (ok, w')"
        using True wr Some rec by (subst WriteAll.simps) simp
      moreover have "if ok then n + sent = length data - k else n + sent < length data - k"
        using s n by (auto split: if_splits)
      ultimately show ?thesis by blast
    qed
  qed
qed

lemma WriteAll_whole:
  "\<exists>ok w' sent. WriteAll N fd data 0 w = Some (ok, w') \<and>
     outgoing fd w' = outgoing fd w @ take sent data \<and>
     (if ok then sent = length data else sent < length data)"
  using WriteAll_returns [of 0 data fd w, OF le0] by (simp only: drop_0 diff_zero)

lemma TCP_Put_returns:
  assumes "wf_msg m" and "0 < len m"
  shows "\<exists>ok w' sent. TCP_Put N m (t, w) = Inr (ok, m, t, w') \<and>
    outgoing (sock t) w' = outgoing (sock t) w @ take sent (tcp_frame (payload m)) \<and>
    (if ok then sent = length (tcp_frame (payload m)) else sent < length (tcp_frame (payload m)))"
proof -
  let ?h = "mem32 (htonl (word_of_nat (len m)))"
  have fr: "tcp_frame (payload m) = ?h @ payload m"
    using assms by (simp add: tcp_frame_def length_payload)
  have ld: "buf_load (buf m) (len m) = Inr (payload m)"
    using assms by (simp add: wf_msg_def wf_buf_def payload_def)
  from WriteAll_whole [of "sock t" ?h w] obtain ok1 w1 s1 where
    w1: "WriteAll N (sock t) ?h 0 w = Some (ok1, w1)"
    and o1: "outgoing (sock t) w1 = outgoing (sock t) w @ take s1 ?h"
    and s1: "if ok1 then s1 = length ?h else s1 < length ?h" by blast
  from WriteAll_whole [of "sock t" "payload m" w1] obtain ok2 w2 s2 where
    w2: "WriteAll N (sock t) (payload m) 0 w1 = Some (ok2, w2)"
    and o2: "outgoing (sock t) w2 = outgoing (sock t) w1 @ take s2 (payload m)"
    and s2: "if ok2 then s2 = length (payload m) else s2 < length (payload m)" by blast
  show ?thesis
  proof (cases ok1)
    case False
    with assms(2) w1 have "TCP_Put N m (t, w) = Inr (ok1, m, t, w1)"
      by (simp add: TCP_Put_def)
    moreover have "outgoing (sock t) w1 = outgoing (sock t) w @ take s1 (tcp_frame (payload m))"
      and "s1 < length (tcp_frame (payload m))"
      using False o1 s1 by (simp_all add: fr)
    ultimately show ?thesis using False by (metis (full_types))
  next
    case True
    with assms(2) w1 w2 ld have "TCP_Put N m (t, w) = Inr (ok2, m, t, w2)"
      by (simp add: TCP_Put_def)
    moreover have "outgoing (sock t) w2 =
        outgoing (sock t) w @ take (4 + s2) (tcp_frame (payload m))"
      using True o1 o2 s1 by (simp add: fr)
    moreover have "if ok2 then 4 + s2 = length (tcp_frame (payload m))
        else 4 + s2 < length (tcp_frame (payload m))"
      using s2 by (simp add: fr split: if_splits)
    ultimately show ?thesis by blast
  qed
qed

end

lemma TCP_Put_empty [wissbi_policy]: "len m = 0 \<Longrightarrow> TCP_Put N m s = Inr (False, m, s)"
  by (simp add: TCP_Put_def split: prod.split)

interpretation tcp_out: output_policy "TCP_Put N" for N :: "'w net"
  by unfold_locales
    (auto simp: TCP_Put_def split: if_splits sum.splits prod.splits option.splits bool.splits)

subsection \<open>Receiving\<close>

locale recv_stream =
  fixes N :: "'w net" and incoming :: "int \<Rightarrow> 'w \<Rightarrow> string"
  assumes read_some: "incoming fd w \<noteq> [] \<Longrightarrow> 0 < n \<Longrightarrow>
      \<exists>bs w'. net_read N fd n w = (Some bs, w') \<and> bs \<noteq> [] \<and> length bs \<le> n \<and>
              incoming fd w = bs @ incoming fd w'"
    and read_end: "incoming fd w = [] \<Longrightarrow> 0 < n \<Longrightarrow>
      \<exists>w'. net_read N fd n w = (Some [], w') \<and> incoming fd w' = []"
begin

text \<open>Enough bytes: they land in the array, whatever the pieces were.\<close>

lemma ReadAll_full:
  assumes "incoming fd w = xs @ r" and "sz = k + length xs" and "sz \<le> length b"
  shows "\<exists>w'. ReadAll N fd b sz k w = Inr (int sz, take k b @ xs @ drop sz b, w') \<and>
    incoming fd w' = r"
  using assms
proof (induction "length xs" arbitrary: k w xs b rule: less_induct)
  case less
  show ?case
  proof (cases "xs = []")
    case True
    with less.prems show ?thesis by (simp add: ReadAll.simps)
  next
    case False
    with less.prems have "incoming fd w \<noteq> []" and pos: "0 < sz - k" by auto
    from read_some [OF this] obtain bs w1 where rd: "net_read N fd (sz - k) w = (Some bs, w1)"
      and bs: "bs \<noteq> []" "length bs \<le> sz - k" and inc: "incoming fd w = bs @ incoming fd w1"
      by blast
    then have "bs @ incoming fd w1 = xs @ r" and "length bs \<le> length xs"
      using less.prems by auto
    then obtain ys where xs: "xs = bs @ ys" and inc1: "incoming fd w1 = ys @ r"
      by (auto simp: append_eq_append_conv2)
    let ?b = "take k b @ bs @ drop (k + length bs) b"
    have st: "buf_store b k bs = Inr ?b" using less.prems xs by (intro buf_store_fits) simp
    have "\<exists>w'. ReadAll N fd ?b sz (k + length bs) w1 =
        Inr (int sz, take (k + length bs) ?b @ ys @ drop sz ?b, w') \<and> incoming fd w' = r"
      using less.prems bs xs inc1 by (intro less.hyps) auto
    moreover have "take (k + length bs) ?b @ ys @ drop sz ?b = take k b @ xs @ drop sz b"
      using less.prems xs by (simp add: ac_simps)
    moreover have "ReadAll N fd b sz k w = ReadAll N fd ?b sz (k + length bs) w1"
      using pos rd bs(1) st by (subst ReadAll.simps) (auto split: list.split)
    ultimately show ?thesis by simp
  qed
qed

text \<open>Too few bytes before the end of the stream: the result is 0.\<close>

lemma ReadAll_short:
  assumes "k + length (incoming fd w) < sz" and "k + length (incoming fd w) \<le> length b"
  shows "\<exists>w' b'. ReadAll N fd b sz k w = Inr (0, b', w') \<and> length b' = length b \<and>
    incoming fd w' = []"
  using assms
proof (induction "length (incoming fd w)" arbitrary: k w b rule: less_induct)
  case less
  then have pos: "0 < sz - k" by simp
  show ?case
  proof (cases "incoming fd w = []")
    case True
    from read_end [OF this pos] obtain w' where "net_read N fd (sz - k) w = (Some [], w')"
      and "incoming fd w' = []" by blast
    with pos show ?thesis by (simp add: ReadAll.simps [of N fd b sz k w])
  next
    case False
    from read_some [OF this pos] obtain bs w1 where rd: "net_read N fd (sz - k) w = (Some bs, w1)"
      and bs: "bs \<noteq> []" "length bs \<le> sz - k" and inc: "incoming fd w = bs @ incoming fd w1"
      by blast
    let ?b = "take k b @ bs @ drop (k + length bs) b"
    have st: "buf_store b k bs = Inr ?b" using less.prems inc by (intro buf_store_fits) simp
    have "\<exists>w' b'. ReadAll N fd ?b sz (k + length bs) w1 = Inr (0, b', w') \<and>
        length b' = length ?b \<and> incoming fd w' = []"
      using less.prems bs inc by (intro less.hyps) auto
    moreover have "length ?b = length b" using less.prems inc by simp
    moreover have "ReadAll N fd b sz k w = ReadAll N fd ?b sz (k + length bs) w1"
      using pos rd bs(1) st by (subst ReadAll.simps) (auto split: list.split)
    ultimately show ?thesis by simp
  qed
qed

text \<open>More bytes than the array holds: some piece goes past its end.\<close>

lemma ReadAll_overflow:
  assumes "k \<le> length b" and "length b < sz" and "length b - k < length (incoming fd w)"
  shows "ReadAll N fd b sz k w = Inl WriteOverflow"
  using assms
proof (induction "sz - k" arbitrary: k b w rule: less_induct)
  case less
  then have pos: "0 < sz - k" and ne: "incoming fd w \<noteq> []" by auto
  from read_some [OF ne pos] obtain bs w1 where rd: "net_read N fd (sz - k) w = (Some bs, w1)"
    and bs: "bs \<noteq> []" "length bs \<le> sz - k" and inc: "incoming fd w = bs @ incoming fd w1" by blast
  then obtain c cs where c: "bs = c # cs" by (cases bs) auto
  show ?case
  proof (cases "k + length bs \<le> length b")
    case False
    then have "buf_store b k bs = Inl WriteOverflow" using bs(1) by (simp add: buf_store_def)
    with rd c pos show ?thesis by (subst ReadAll.simps) simp
  next
    case True
    let ?b = "take k b @ bs @ drop (k + length bs) b"
    have st: "buf_store b k bs = Inr ?b" using True by (rule buf_store_fits)
    have lb: "length ?b = length b" using True by simp
    have "ReadAll N fd ?b sz (k + length bs) w1 = Inl WriteOverflow"
      using less.prems True bs inc c lb by (intro less.hyps) auto
    with rd c pos st show ?thesis by (subst ReadAll.simps) simp
  qed
qed

lemma TCP_Get_header:
  assumes "incoming (sock t) w = mem32 (htonl (word_of_nat l)) @ r" and "l < 2 ^ 32"
  shows "\<exists>w1. incoming (sock t) w1 = r \<and> TCP_Get N m (t, w) =
    (case ReadAll N (sock t) (buf m) l 0 w1 of
       Inl e \<Rightarrow> Inl e
     | Inr (k, b, w2) \<Rightarrow>
         if l \<noteq> size_of_int k then Inr (False, m\<lparr>buf := b, len := 0\<rparr>, t, w2)
         else Inr (True, m\<lparr>buf := b, len := l\<rparr>, t, w2))"
proof -
  note h = htonl_header [OF assms(2)]
  from ReadAll_full [OF assms(1), of 4 0 "replicate 4 CHR 0x00"] obtain w1 where
    rd: "ReadAll N (sock t) (replicate 4 CHR 0x00) 4 0 w =
       Inr (4, mem32 (htonl (word_of_nat l)), w1)" and r: "incoming (sock t) w1 = r" by auto
  have "TCP_Get N m (t, w) =
    (case ReadAll N (sock t) (buf m) l 0 w1 of
       Inl e \<Rightarrow> Inl e
     | Inr (k, b, w2) \<Rightarrow>
         if l \<noteq> size_of_int k then Inr (False, m\<lparr>buf := b, len := 0\<rparr>, t, w2)
         else Inr (True, m\<lparr>buf := b, len := l\<rparr>, t, w2))"
    by (simp only: TCP_Get_def prod.case sum.case Let_def rd h simp_thms if_False)
  with r show ?thesis by blast
qed

lemma TCP_Get_frame:
  assumes "wf_buf m" and "incoming (sock t) w = tcp_frame x @ r" and "tcp_fits x"
  shows "\<exists>m' w'. TCP_Get N m (t, w) = Inr (True, m', t, w') \<and> wf_buf m' \<and> len m' = length x \<and>
    payload m' = x \<and> incoming (sock t) w' = r"
proof -
  have l: "length x < 2 ^ 32" using assms(3) by (simp add: tcp_fits_def MAX_MSG_SIZE_def)
  have "incoming (sock t) w = mem32 (htonl (word_of_nat (length x))) @ x @ r"
    using assms(2) by (simp add: tcp_frame_def)
  from TCP_Get_header [OF this l] obtain w1 where r1: "incoming (sock t) w1 = x @ r"
    and get: "TCP_Get N m (t, w) =
      (case ReadAll N (sock t) (buf m) (length x) 0 w1 of
         Inl e \<Rightarrow> Inl e
       | Inr (k, b, w2) \<Rightarrow>
           if length x \<noteq> size_of_int k then Inr (False, m\<lparr>buf := b, len := 0\<rparr>, t, w2)
           else Inr (True, m\<lparr>buf := b, len := length x\<rparr>, t, w2))" by blast
  have sz: "size_of_int (int (length x)) = length x" using l by simp
  have "length x \<le> length (buf m)" using assms(1,3) by (simp add: wf_buf_def tcp_fits_def)
  with ReadAll_full [OF r1, of "length x" 0 "buf m"] obtain w2 where
    "ReadAll N (sock t) (buf m) (length x) 0 w1 =
       Inr (int (length x), x @ drop (length x) (buf m), w2)" and "incoming (sock t) w2 = r" by auto
  with get sz \<open>length x \<le> length (buf m)\<close> assms(1) show ?thesis
    by (simp add: payload_def wf_buf_def)
qed

lemma TCP_Get_overflow:
  assumes "wf_buf m" and "incoming (sock t) w = mem32 (htonl (word_of_nat l)) @ r" and "l < 2 ^ 32"
    and "MAX_MSG_SIZE < l" and "MAX_MSG_SIZE < length r"
  shows "TCP_Get N m (t, w) = Inl WriteOverflow"
proof -
  from TCP_Get_header [OF assms(2,3), of m] obtain w1 where r: "incoming (sock t) w1 = r"
    and g: "TCP_Get N m (t, w) =
      (case ReadAll N (sock t) (buf m) l 0 w1 of
         Inl e \<Rightarrow> Inl e
       | Inr (k, b, w2) \<Rightarrow>
           if l \<noteq> size_of_int k then Inr (False, m\<lparr>buf := b, len := 0\<rparr>, t, w2)
           else Inr (True, m\<lparr>buf := b, len := l\<rparr>, t, w2))" by blast
  have "ReadAll N (sock t) (buf m) l 0 w1 = Inl WriteOverflow"
    using assms(1,4,5) r by (intro ReadAll_overflow) (auto simp: wf_buf_def)
  with g show ?thesis by simp
qed

lemma TCP_Get_at_end:
  assumes "incoming (sock t) w = []"
  shows "\<exists>m' w'. TCP_Get N m (t, w) = Inr (False, m', t, w')"
  using ReadAll_short [of 0 "sock t" w 4 "replicate 4 CHR 0x00"] assms
  by (auto simp: TCP_Get_def)

end

lemma ReadAll_length:
  "ReadAll N fd b sz k w = Inr (n, b', w') \<Longrightarrow> length b' = length b"
proof (induction N fd b sz k w rule: ReadAll.induct)
  case (1 N fd b sz k w)
  have step: "length b' = length b" if "k < sz" and "net_read N fd (sz - k) w = (Some (x # xs), w1)"
    and "buf_store b k (x # xs) = Inr b1"
    and "ReadAll N fd b1 sz (k + length (x # xs)) w1 = Inr (n, b', w')" for x xs w1 b1
    using "1.IH" [OF that(1) that(2) [symmetric] refl refl that(3) that(4)]
      buf_store_length [OF that(3)] by simp
  from "1.prems" show ?case
    by (subst (asm) ReadAll.simps)
      (auto split: if_splits prod.splits option.splits list.splits sum.splits intro: step)
qed

text \<open>What no \<^verbatim>\<open>read\<close> changes, \<^verbatim>\<open>ReadAll\<close> does not change.\<close>

lemma ReadAll_keeps:
  assumes "\<And>fd n w. f (snd (net_read N fd n w)) = f w"
    and "ReadAll N fd b sz k w = Inr (n, b', w')"
  shows "f w' = f w"
  using assms
proof (induction N fd b sz k w rule: ReadAll.induct)
  case (1 N fd b sz k w)
  note keep = "1.prems"(1) [of fd "sz - k" w]
  have step: "f w' = f w" if "k < sz" and "net_read N fd (sz - k) w = (Some (x # xs), w1)"
    and "buf_store b k (x # xs) = Inr b1"
    and "ReadAll N fd b1 sz (k + length (x # xs)) w1 = Inr (n, b', w')" for x xs w1 b1
    using "1.IH" [OF that(1) that(2) [symmetric] refl refl that(3) "1.prems"(1) that(4)] keep that(2)
    by simp
  from "1.prems"(2) keep show ?case
    by (subst (asm) ReadAll.simps)
      (auto split: if_splits prod.splits option.splits list.splits sum.splits intro: step)
qed

interpretation tcp_in: input_policy "TCP_Get N" for N :: "'w net"
proof
  show "wf_buf m'" if "wf_buf m" and "TCP_Get N m s = Inr (b, m', s')" for m s b m' s'
    using that
    by (auto simp: TCP_Get_def Let_def wf_buf_def dest!: ReadAll_length
        split: sum.splits prod.splits if_splits)
  show "len m' = 0" if "TCP_Get N m s = Inr (False, m', s')" for m s m' s'
    using that by (auto simp: TCP_Get_def Let_def split: sum.splits prod.splits if_splits)
qed

sublocale recv_stream \<subseteq> tcp: stream_codec "TCP_Get N" "\<lambda>_. True" "\<lambda>(t, w). incoming (sock t) w"
    tcp_frame tcp_fits
proof
  show "\<exists>m' s'. TCP_Get N m s = Inr (True, m', s') \<and> len m' = length x \<and> payload m' = x \<and> True \<and>
      (case s' of (t, w) \<Rightarrow> incoming (sock t) w) = r"
    if "tcp_fits x" and "(case s of (t, w) \<Rightarrow> incoming (sock t) w) = tcp_frame x @ r"
      and "wf_buf m" for s x r m
    using that TCP_Get_frame [of m "fst s" "snd s" x r] by (cases s) fastforce
  show "\<exists>m' s'. TCP_Get N m s = Inr (False, m', s')"
    if "(case s of (t, w) \<Rightarrow> incoming (sock t) w) = []" for s m
    using that TCP_Get_at_end [of "fst s" "snd s" m] by (cases s) fastforce
qed

context recv_stream
begin

lemma get_all_tcp:
  assumes "incoming (sock t) w = concat (map tcp_frame xs)" and "\<forall>x \<in> set xs. tcp_fits x" and "wf_buf m"
    and "length xs < n"
  shows "get_all (TCP_Get N) n m (t, w) = Inr xs"
  using tcp.get_all_frames [where s = "(t, w)"] assms by simp

text \<open>A frame that was cut off by the end of the connection is not a message.\<close>

lemma TCP_Get_cut_off:
  assumes "wf_buf m" and "incoming (sock t) w = take k (tcp_frame y)" and "tcp_fits y" and "k < length (tcp_frame y)"
  shows "\<exists>m' w'. TCP_Get N m (t, w) = Inr (False, m', t, w')"
proof (cases "k < 4")
  case True
  with assms(2) have "length (incoming (sock t) w) < 4" by simp
  with ReadAll_short [of 0 "sock t" w 4 "replicate 4 CHR 0x00"] show ?thesis by (auto simp: TCP_Get_def)
next
  case False
  have l: "length y < 2 ^ 32" using assms(3) by (simp add: tcp_fits_def MAX_MSG_SIZE_def)
  have short: "k - 4 < length y" using assms(4) False by (simp add: tcp_frame_def)
  have "incoming (sock t) w = mem32 (htonl (word_of_nat (length y))) @ take (k - 4) y"
    using assms(2) False by (simp add: tcp_frame_def)
  from TCP_Get_header [OF this l, of m] obtain w1 where r: "incoming (sock t) w1 = take (k - 4) y"
    and g: "TCP_Get N m (t, w) =
      (case ReadAll N (sock t) (buf m) (length y) 0 w1 of
         Inl e \<Rightarrow> Inl e
       | Inr (k, b, w2) \<Rightarrow>
           if length y \<noteq> size_of_int k then Inr (False, m\<lparr>buf := b, len := 0\<rparr>, t, w2)
           else Inr (True, m\<lparr>buf := b, len := length y\<rparr>, t, w2))" by blast
  have "length y \<le> length (buf m)" using assms(1,3) by (simp add: wf_buf_def tcp_fits_def)
  with ReadAll_short [of 0 "sock t" w1 "length y" "buf m"] r short obtain w2 b where
    "ReadAll N (sock t) (buf m) (length y) 0 w1 = Inr (0, b, w2)" by auto
  with g short show ?thesis by (auto simp: size_of_int_def)
qed

lemma get_all_tcp_cut_off:
  assumes "incoming (sock t) w = concat (map tcp_frame xs) @ take k (tcp_frame y)" and "\<forall>x \<in> set xs. tcp_fits x"
    and "tcp_fits y" and "k < length (tcp_frame y)" and "wf_buf m" and "length xs < n"
  shows "get_all (TCP_Get N) n m (t, w) = Inr xs"
  using assms
proof (induction xs arbitrary: n m w)
  case Nil
  then obtain j where n: "n = Suc j" by (cases n) auto
  with TCP_Get_cut_off [of m t w k y] Nil show ?case by auto
next
  case (Cons x xs)
  then obtain j where n: "n = Suc j" by (cases n) auto
  from Cons.prems(1) have "incoming (sock t) w = tcp_frame x @ concat (map tcp_frame xs) @ take k (tcp_frame y)" by simp
  from TCP_Get_frame [OF Cons.prems(5) this] Cons.prems(2) obtain m' w' where g: "TCP_Get N m (t, w) = Inr (True, m', t, w')"
    "wf_buf m'" "payload m' = x" "incoming (sock t) w' = concat (map tcp_frame xs) @ take k (tcp_frame y)" by auto
  with Cons.IH [OF g(4) _ Cons.prems(3,4) g(2), of j] Cons.prems(2,6) n show ?case by simp
qed

end

subsection \<open>Messages sent one after another\<close>

text \<open>Sending until a message is not sent; the payloads of those that were.\<close>

primrec put_until_failure :: "'s op \<Rightarrow> msg_buf list \<Rightarrow> 's \<Rightarrow> fault + string list \<times> 's" where
  "put_until_failure put [] s = Inr ([], s)"
| "put_until_failure put (m # ms) s =
     (case put m s of
        Inl e \<Rightarrow> Inl e
      | Inr (ok, m', s') \<Rightarrow>
          if ok then
            (case put_until_failure put ms s' of Inl e \<Rightarrow> Inl e | Inr (xs, s'') \<Rightarrow> Inr (payload m # xs, s''))
          else Inr ([], s'))"

context send_stream
begin

text \<open>Where no \<^verbatim>\<open>write\<close> fails, every message is sent.\<close>

lemma WriteAll_succeeds:
  assumes "\<And>fd bs w. fst (net_write N fd bs w) \<noteq> None" and "k \<le> length data" and "WriteAll N fd data k w = Some (ok, w')"
  shows "ok"
  using assms(2,3)
proof (induction "length data - k" arbitrary: k w rule: less_induct)
  case less
  show ?case
  proof (cases "k < length data")
    case False
    with less.prems(2) show ?thesis by (subst (asm) WriteAll.simps) simp
  next
    case True
    then have ne: "drop k data \<noteq> []" by simp
    obtain n w1 where wr: "net_write N fd (drop k data) w = (Some n, w1)"
      using assms(1) [of fd "drop k data" w] by (cases "net_write N fd (drop k data) w") auto
    with write_takes [OF ne] have n: "0 < n" "n \<le> length data - k" by auto
    have "WriteAll N fd data (k + n) w1 = Some (ok, w')"
      using less.prems(2) True wr by (subst (asm) WriteAll.simps) simp
    with less.hyps [of "k + n" w1] n True show ?thesis by simp
  qed
qed

lemma TCP_Put_succeeds:
  assumes "\<And>fd bs w. fst (net_write N fd bs w) \<noteq> None" and "0 < len m" and "TCP_Put N m (t, w) = Inr (ok, m', t', w')"
  shows "ok"
  using assms(2,3) WriteAll_succeeds [OF assms(1) le0]
  by (auto simp: TCP_Put_def split: if_splits option.splits sum.splits prod.splits bool.splits)

lemma put_until_failure_all:
  assumes "\<And>fd bs w. fst (net_write N fd bs w) \<noteq> None" and "\<forall>m \<in> set ms. wf_msg m \<and> 0 < len m"
    and "put_until_failure (TCP_Put N) ms (t, w) = Inr (xs, t', w')"
  shows "xs = map payload ms"
  using assms(2,3)
proof (induction ms arbitrary: t w xs)
  case (Cons m ms)
  from TCP_Put_returns [of m t w] Cons.prems(1) obtain ok w1 where p: "TCP_Put N m (t, w) = Inr (ok, m, t, w1)" by auto
  with TCP_Put_succeeds [OF assms(1) _ p] Cons.prems(1) have "ok" by simp
  with Cons p show ?case by (auto split: sum.splits)
qed simp

lemma put_until_failure_sends:
  assumes "\<forall>m \<in> set ms. wf_msg m \<and> 0 < len m"
  shows "\<exists>k w' cut y. put_until_failure (TCP_Put N) ms (t, w) = Inr (map payload (take k ms), t, w') \<and> k \<le> length ms \<and>
    outgoing (sock t) w' = outgoing (sock t) w @ concat (map tcp_frame (map payload (take k ms))) @ take cut (tcp_frame y) \<and>
    tcp_fits y \<and> cut < length (tcp_frame y) \<and> (k = length ms \<longrightarrow> cut = 0)"
  using assms
proof (induction ms arbitrary: w)
  case Nil
  show ?case by (intro exI [of _ 0] exI [of _ w] exI [of _ "[]"]) (simp add: tcp_fits_def tcp_frame_def)
next
  case (Cons m ms)
  then have m: "wf_msg m" "0 < len m" and fits: "tcp_fits (payload m)"
    by (auto simp: tcp_fits_def length_payload wf_msg_def)
  from TCP_Put_returns [OF m, of t w] obtain ok w1 sent where p: "TCP_Put N m (t, w) = Inr (ok, m, t, w1)"
    "outgoing (sock t) w1 = outgoing (sock t) w @ take sent (tcp_frame (payload m))"
    "if ok then sent = length (tcp_frame (payload m)) else sent < length (tcp_frame (payload m))" by blast
  show ?case
  proof (cases ok)
    case False
    with p fits show ?thesis
      by (intro exI [of _ 0] exI [of _ w1] exI [of _ sent] exI [of _ "payload m"]) simp
  next
    case True
    have all: "\<forall>m \<in> set ms. wf_msg m \<and> 0 < len m" using Cons.prems by simp
    from Cons.IH [OF all, of w1] obtain k w' cut y where r: "put_until_failure (TCP_Put N) ms (t, w1) = Inr (map payload (take k ms), t, w')"
      "k \<le> length ms" "outgoing (sock t) w' = outgoing (sock t) w1 @ concat (map tcp_frame (map payload (take k ms))) @ take cut (tcp_frame y)"
      "tcp_fits y" "cut < length (tcp_frame y)" "k = length ms \<longrightarrow> cut = 0" by blast
    show ?thesis
      by (rule exI [of _ "Suc k"], rule exI [of _ w'], rule exI [of _ cut], rule exI [of _ y]) (use True p r in simp)
  qed
qed

end

end
