(* ===== verification/Sub_Registry.thy ===== *)
theory Sub_Registry
  imports Util
begin

text \<open>
  \<^verbatim>\<open>src/sub_entry.hpp\<close> and \<^verbatim>\<open>src/sub_dir.hpp\<close>: subscribers announce themselves as files in a directory per
  queue, and publishers list that directory. A file is named after the subscriber's address and the
  destination its messages go to. The file system calls are parameters over the state \<open>'w\<close> outside;
  what the program relies on of one directory is the locale \<open>dir_fs\<close>.
\<close>

record 'w fs =
  fs_mkdir :: "string \<Rightarrow> 'w \<Rightarrow> 'w"
  fs_open_creat :: "string \<Rightarrow> 'w \<Rightarrow> int \<times> 'w"
  fs_futimes :: "int \<Rightarrow> 'w \<Rightarrow> int \<times> 'w"
  fs_close :: "int \<Rightarrow> 'w \<Rightarrow> 'w"
  fs_unlink :: "string \<Rightarrow> 'w \<Rightarrow> 'w"
  fs_readdir :: "string \<Rightarrow> 'w \<Rightarrow> (string \<times> bool) list option"

text \<open>
  \<open>fs_readdir\<close> gives the names in a directory in the order of \<^verbatim>\<open>readdir\<close>, each with whether it is a
  directory itself, and \<open>None\<close> where \<^verbatim>\<open>opendir\<close> fails.
\<close>

subsection \<open>Announcing a subscriber\<close>

record sub_entry =
  meta_dir :: string
  queue_name :: string
  node_name :: string
  addr_str :: string

definition queue_dir :: "string \<Rightarrow> string \<Rightarrow> string" where
  "queue_dir meta queue = meta @ ''/sub/'' @ queue"

definition node_file :: "char \<Rightarrow> string \<Rightarrow> string \<Rightarrow> bool \<Rightarrow> fault + string" where
  "node_file before queue addr topic_mode =
     (case EscapeSubFolderPath before queue of
        Inl e \<Rightarrow> Inl e
      | Inr e \<Rightarrow> Inr (addr @ '','' @ e @ (if topic_mode then ''.'' @ addr else [])))"

definition SubEntry_renew :: "'w fs \<Rightarrow> sub_entry \<Rightarrow> 'w \<Rightarrow> fault option \<times> 'w" where
  "SubEntry_renew FS e w =
     (let w1 = fs_mkdir FS (meta_dir e @ ''/sub/'' @ queue_name e) w;
          (fd, w2) = fs_open_creat FS (node_name e) w1
      in if fd = -1 then
           (Some (Exception (''Cannot create subscriber entry at '' @ node_name e)), w2)
         else let (res, w3) = fs_futimes FS fd w2;
                  w4 = fs_close FS fd w3
              in if res = -1 then
                   (Some (Exception (''Cannot update subscriber entry at '' @ node_name e)), w4)
                 else (None, w4))"

definition SubEntry_new ::
  "'w fs \<Rightarrow> char \<Rightarrow> string \<Rightarrow> string \<Rightarrow> string \<Rightarrow> bool \<Rightarrow> 'w \<Rightarrow> (fault + sub_entry) \<times> 'w" where
  "SubEntry_new FS before meta queue addr topic_mode w =
     (case node_file before queue addr topic_mode of
        Inl f \<Rightarrow> (Inl f, w)
      | Inr n \<Rightarrow>
          let e = \<lparr>meta_dir = meta, queue_name = queue,
                   node_name = meta @ ''/sub/'' @ queue @ ''/'' @ n, addr_str = addr\<rparr>
          in case SubEntry_renew FS e w of
               (Some f, w1) \<Rightarrow> (Inl f, w1)
             | (None, w1) \<Rightarrow> (Inr e, w1))"

definition SubEntry_delete :: "'w fs \<Rightarrow> sub_entry \<Rightarrow> 'w \<Rightarrow> 'w" where
  "SubEntry_delete FS e w = fs_unlink FS (node_name e) w"

subsection \<open>Listing the subscribers\<close>

definition parse_entry :: "string \<Rightarrow> string \<times> string" where
  "parse_entry entry =
     (let sep_pos = str_find entry CHR '',''
      in (str_substr entry 0 sep_pos,
          UnescapeSubFolderPath
            (str_substr entry (size_add sep_pos 1)
               (size_sub (size_sub (length entry) sep_pos) 1))))"

fun sub_list_loop :: "(string \<times> bool) list \<Rightarrow> (string \<times> string) list" where
  "sub_list_loop [] = []"
| "sub_list_loop ((d_name, is_directory) # ents) =
     (if d_name = ''.'' \<or> d_name = ''..'' \<or> is_directory then sub_list_loop ents
      else parse_entry d_name # sub_list_loop ents)"

definition GetSubList :: "'w fs \<Rightarrow> string \<Rightarrow> string \<Rightarrow> 'w \<Rightarrow> (string \<times> string) list" where
  "GetSubList FS meta queue w =
     (case fs_readdir FS (meta @ ''/sub/'' @ queue) w of
        None \<Rightarrow> [] | Some ents \<Rightarrow> sub_list_loop ents)"

subsection \<open>Names\<close>

text \<open>The destination a subscriber's messages are queued under.\<close>

definition real_dest :: "string \<Rightarrow> string \<Rightarrow> bool \<Rightarrow> string" where
  "real_dest queue addr topic_mode = queue @ (if topic_mode then ''.'' @ addr else [])"

definition plain_addr :: "string \<Rightarrow> bool" where
  "plain_addr a \<longleftrightarrow> CHR '','' \<notin> set a \<and> CHR ''/'' \<notin> set a \<and> CHR ''#'' \<notin> set a"

lemma parse_entry_comma:
  assumes "CHR '','' \<notin> set a" and "length (a @ CHR '','' # d) < npos"
  shows "parse_entry (a @ CHR '','' # d) = (a, UnescapeSubFolderPath d)"
proof -
  have sep: "str_find (a @ CHR '','' # d) CHR '','' = length a"
    using assms(1) by (rule str_find_first)
  have a1: "size_add (length a) 1 = Suc (length a)"
    using assms(2) by (simp add: size_add_def npos_def)
  have "size_sub (length (a @ CHR '','' # d)) (length a) = Suc (length d)"
    using assms(2) by (subst size_sub_no_wrap) (simp_all add: npos_def)
  then have s: "size_sub (size_sub (length (a @ CHR '','' # d)) (length a)) 1 = length d"
    using assms(2) by (simp add: npos_def)
  show ?thesis
    unfolding parse_entry_def Let_def sep a1 s by (simp add: str_substr_def)
qed

lemma node_file_parsed:
  assumes "q \<noteq> []" and "plain_addr a" and "node_file before q a t = Inr n"
    and "length n < npos"
  shows "parse_entry n = (a, real_dest (queue_dest q) a t)" and "CHR ''/'' \<notin> set n"
    and "n \<noteq> ''.'' \<and> n \<noteq> ''..''"
proof -
  obtain e where e: "EscapeSubFolderPath before q = Inr e" "CHR ''/'' \<notin> set e"
    "UnescapeSubFolderPath e = queue_dest q"
    using Escape_any [OF assms(1)] .
  let ?d = "e @ (if t then ''.'' @ a else [])"
  from assms(3) e(1) have n: "n = a @ CHR '','' # ?d" by (simp add: node_file_def)
  have "UnescapeSubFolderPath ?d = real_dest (queue_dest q) a t"
    using assms(2) by (simp add: real_dest_def wissbi_string plain_addr_def e(3))
  with parse_entry_comma [of a ?d] assms(2,4) n show "parse_entry n = (a, real_dest (queue_dest q) a t)"
    by (simp add: plain_addr_def)
  show "CHR ''/'' \<notin> set n" using assms(2) e(2) n by (auto simp: plain_addr_def)
  have "CHR '','' \<in> set n" unfolding n by simp
  then show "n \<noteq> ''.'' \<and> n \<noteq> ''..''" by auto
qed

subsection \<open>One directory\<close>

text \<open>
  \<open>entries d w\<close> are the names of the files in directory \<open>d\<close>. Making a directory that exists, or one
  that is new and empty, changes none; opening with \<^verbatim>\<open>O_CREAT\<close> adds the name it is given, \<^verbatim>\<open>unlink\<close> removes
  it; the listing has every name once, and the names of directories marked. A path with a slash after it
  names the same directory.
\<close>

locale dir_fs =
  fixes FS :: "'w fs" and entries :: "string \<Rightarrow> 'w \<Rightarrow> string set"
  assumes mkdir_entries: "entries d (fs_mkdir FS d w) = entries d w"
    and open_entries: "CHR ''/'' \<notin> set n \<Longrightarrow> n \<noteq> ''.'' \<Longrightarrow> n \<noteq> ''..'' \<Longrightarrow>
      fs_open_creat FS (d @ ''/'' @ n) w = (fd, w') \<Longrightarrow> fd \<noteq> -1 \<Longrightarrow>
        entries d w' = insert n (entries d w)"
    and open_fails: "fs_open_creat FS p w = (-1, w') \<Longrightarrow> entries d w' = entries d w"
    and futimes_entries: "entries d (snd (fs_futimes FS fd w)) = entries d w"
    and close_entries: "entries d (fs_close FS fd w) = entries d w"
    and unlink_entries: "CHR ''/'' \<notin> set n \<Longrightarrow>
      entries d (fs_unlink FS (d @ ''/'' @ n) w) = entries d w - {n}"
    and readdir_entries: "fs_readdir FS d w = Some es \<Longrightarrow>
      distinct (map fst es) \<and> {n. (n, False) \<in> set es \<and> n \<noteq> ''.'' \<and> n \<noteq> ''..''} = entries d w"
    and readdir_none: "fs_readdir FS d w = None \<Longrightarrow> entries d w = {}"
    and slash_entries: "d \<noteq> [] \<Longrightarrow> entries (d @ ''/'') w = entries d w"
begin

lemma sub_list_loop_set:
  "set (sub_list_loop es) = parse_entry ` {n. (n, False) \<in> set es \<and> n \<noteq> ''.'' \<and> n \<noteq> ''..''}"
  by (induction es rule: sub_list_loop.induct) auto

lemma GetSubList_set: "set (GetSubList FS meta q w) = parse_entry ` entries (queue_dir meta q) w"
proof (cases "fs_readdir FS (queue_dir meta q) w")
  case None
  then show ?thesis using readdir_none by (simp add: GetSubList_def queue_dir_def)
next
  case (Some es)
  with readdir_entries have "{n. (n, False) \<in> set es \<and> n \<noteq> ''.'' \<and> n \<noteq> ''..''} =
      entries (queue_dir meta q) w" by blast
  with sub_list_loop_set [of es] Some show ?thesis by (simp add: GetSubList_def queue_dir_def)
qed

lemma drop_slash_entries: "entries (queue_dir meta q) w = entries (queue_dir meta (drop_slash q)) w"
proof (cases "q \<noteq> [] \<and> last q = CHR ''/''")
  case True
  then have "q = drop_slash q @ ''/''" using append_butlast_last_id [of q] by (simp add: drop_slash_def)
  then have "queue_dir meta q = queue_dir meta (drop_slash q) @ ''/''" by (simp add: queue_dir_def)
  moreover have "queue_dir meta (drop_slash q) \<noteq> []" by (simp add: queue_dir_def)
  ultimately show ?thesis using slash_entries by simp
qed (auto simp: drop_slash_def)

lemma GetSubList_slash:
  "drop_slash q = drop_slash q' \<Longrightarrow> set (GetSubList FS meta q w) = set (GetSubList FS meta q' w)"
  using drop_slash_entries by (metis GetSubList_set)

lemma SubEntry_new_entries:
  assumes "q \<noteq> []" and "plain_addr a" and "length n < npos"
    and node: "node_file before q a t = Inr n"
    and new: "SubEntry_new FS before meta q a t w = (Inr e, w')"
  shows "entries (queue_dir meta q) w' = insert n (entries (queue_dir meta q) w)"
    and "node_name e = queue_dir meta q @ ''/'' @ n"
proof -
  let ?d = "queue_dir meta q" and ?w1 = "fs_mkdir FS (queue_dir meta q) w"
  obtain fd w2 where o: "fs_open_creat FS (?d @ ''/'' @ n) ?w1 = (fd, w2)" by force
  obtain r w3 where f: "fs_futimes FS fd w2 = (r, w3)" by force
  from new node o f have fd: "fd \<noteq> -1" and w': "w' = fs_close FS fd w3"
    and e: "node_name e = ?d @ ''/'' @ n"
    by (auto simp: SubEntry_new_def SubEntry_renew_def queue_dir_def Let_def split: if_splits)
  note nf = node_file_parsed [OF assms(1,2) node assms(3)]
  have "entries ?d w2 = insert n (entries ?d w)"
    using open_entries [OF nf(2) _ _ o fd] nf(3) by (simp add: mkdir_entries)
  moreover have "entries ?d w3 = entries ?d w2" using futimes_entries [of ?d fd w2] f by simp
  ultimately show "entries ?d w' = insert n (entries ?d w)" by (simp add: w' close_entries)
  show "node_name e = ?d @ ''/'' @ n" by (rule e)
qed

lemma SubEntry_new_listed:
  assumes "q \<noteq> []" and "plain_addr a" and "length n < npos"
    and "node_file before q a t = Inr n" and "SubEntry_new FS before meta q a t w = (Inr e, w')"
  shows "set (GetSubList FS meta q w') =
    insert (a, real_dest (queue_dest q) a t) (set (GetSubList FS meta q w))"
  unfolding GetSubList_set SubEntry_new_entries(1) [OF assms]
  by (simp add: node_file_parsed(1) [OF assms(1,2,4,3)])

lemma SubEntry_delete_entries:
  assumes "node_name e = queue_dir meta q @ ''/'' @ n" and "CHR ''/'' \<notin> set n"
  shows "set (GetSubList FS meta q (SubEntry_delete FS e w)) =
    parse_entry ` (entries (queue_dir meta q) w - {n})"
  unfolding GetSubList_set SubEntry_delete_def assms(1) unlink_entries [OF assms(2)] ..

lemma SubEntry_new_delete:
  assumes "q \<noteq> []" and "plain_addr a" and "length n < npos"
    and "node_file before q a t = Inr n" and "SubEntry_new FS before meta q a t w = (Inr e, w')"
    and "n \<notin> entries (queue_dir meta q) w"
  shows "set (GetSubList FS meta q (SubEntry_delete FS e w')) = set (GetSubList FS meta q w)"
proof -
  note n = SubEntry_new_entries [OF assms(1-5)]
  have "entries (queue_dir meta q) w' - {n} = entries (queue_dir meta q) w" using n(1) assms(6) by auto
  with SubEntry_delete_entries [OF n(2) node_file_parsed(2) [OF assms(1,2,4,3)], of w'] show ?thesis
    by (simp add: GetSubList_set)
qed

end

end
