(* ===== verification/Connector.thy ===== *)
theory Connector
  imports Filter_Metric Tcp_Policy Sub_Registry
begin

text \<open>
  \<^verbatim>\<open>src/connector.hpp\<close>: the thread that watches the subscriber directory of a destination. For a subscriber
  it does not know it makes sure there is a message queue for the subscriber's destination, hooked up to
  the tee, and a metric, and starts a producer thread that sends what is in the queue to the subscriber.

  This theory has the body of the watching loop and the producer's filter, each run on its own. How
  the threads interleave is the subject of the theory \<open>Pub_System\<close>.
\<close>

subsection \<open>A round over the directory\<close>

text \<open>
  The objects the loop works on. \<open>spawned\<close> records the producer threads it starts, with the address and
  the destination they capture.
\<close>

record 'w connector_st =
  producer_set :: "string list"
  out_tee :: "sysv_mq tee"
  metric_list :: "filter_metric list"
  spawned :: "(string \<times> string) list"
  conn_world :: 'w

text \<open>
  What a new queue object needs besides the kernel: whether assertions are compiled out, the process
  id, the byte before an empty string, the contents of its uninitialised members, and the environment
  variable \<^verbatim>\<open>WISSBI_DROP_MESSAGE\<close>.
\<close>

record conn_env =
  env_ndebug :: bool
  env_pid :: nat
  env_before :: char
  env_garbage :: "int \<times> int \<times> int"
  env_drop :: "string option"

definition new_branch ::
  "'w ipc \<Rightarrow> conn_env \<Rightarrow> string \<Rightarrow> 'w \<Rightarrow> fault option \<times> sysv_mq \<times> 'w" where
  "new_branch I E dest w =
     (case env_garbage E of (a, b, c) \<Rightarrow>
        (case mq_init I (env_ndebug E) (env_pid E) (env_before E) dest (SysvMq_new a b c, w) of
           (Some e, q, w1) \<Rightarrow> (Some e, q, w1)
         | (None, q, w1) \<Rightarrow>
             (None, set_drop (env_drop E \<noteq> Some ''no'') q, w1)))"

definition ensure_branch ::
  "'w ipc \<Rightarrow> conn_env \<Rightarrow> string \<Rightarrow> 'w connector_st \<Rightarrow> fault option \<times> 'w connector_st" where
  "ensure_branch I E dest st =
     (if ExistsBranch dest (out_tee st) then (None, st)
      else case new_branch I E dest (conn_world st) of
             (Some e, q, w1) \<Rightarrow> (Some e, st\<lparr>conn_world := w1\<rparr>)
           | (None, q, w1) \<Rightarrow>
               (None, st\<lparr>conn_world := w1, out_tee := AddBranch dest q (out_tee st)\<rparr>))"

definition ensure_metric :: "string \<Rightarrow> filter_metric list \<Rightarrow> filter_metric list" where
  "ensure_metric dest ms =
     (if \<exists>fm \<in> set ms. metric_name fm = dest then ms else FilterMetric dest # ms)"

text \<open>
  One subscriber of the list: the thread is started first, then its address is entered in the set.
\<close>

definition connector_visit ::
  "'w ipc \<Rightarrow> conn_env \<Rightarrow> string \<times> string \<Rightarrow> 'w connector_st \<Rightarrow> fault option \<times> 'w connector_st" where
  "connector_visit I E sub st =
     (case sub of (conn_str, dest) \<Rightarrow>
        if conn_str \<in> set (producer_set st) then (None, st)
        else case ensure_branch I E dest st of
               (Some e, st1) \<Rightarrow> (Some e, st1)
             | (None, st1) \<Rightarrow>
                 let st2 = st1\<lparr>metric_list := ensure_metric dest (metric_list st1)\<rparr>;
                     st3 = st2\<lparr>spawned := spawned st2 @ [(conn_str, dest)]\<rparr>
                 in (None, st3\<lparr>producer_set := List.insert conn_str (producer_set st3)\<rparr>))"

fun connector_pass ::
  "'w ipc \<Rightarrow> conn_env \<Rightarrow> (string \<times> string) list \<Rightarrow> 'w connector_st \<Rightarrow>
     fault option \<times> 'w connector_st" where
  "connector_pass I E [] st = (None, st)"
| "connector_pass I E (sub # subs) st =
     (case connector_visit I E sub st of
        (Some e, st1) \<Rightarrow> (Some e, st1)
      | (None, st1) \<Rightarrow> connector_pass I E subs st1)"

subsection \<open>The producer thread\<close>

text \<open>What the thread shares with the others: the pending counter and its metric.\<close>

record prod_vars =
  prod_pending :: "32 word"
  prod_metric :: filter_metric

type_synonym 'w prod_state = "sysv_mq \<times> tcp \<times> 'w \<times> prod_vars"

definition prod_get :: "'w ipc \<Rightarrow> 'w prod_state op" where
  "prod_get I m s =
     (case s of (q, t, w, v) \<Rightarrow>
        (case SysvMq_Get I m (q, w) of
           Inl e \<Rightarrow> Inl e | Inr (b, m', q', w') \<Rightarrow> Inr (b, m', q', t, w', v)))"

definition prod_put :: "'w net \<Rightarrow> 'w prod_state op" where
  "prod_put N m s =
     (case s of (q, t, w, v) \<Rightarrow>
        (case TCP_Put N m (t, w) of
           Inl e \<Rightarrow> Inl e | Inr (b, m', t', w') \<Rightarrow> Inr (b, m', q, t', w', v)))"

text \<open>
  The hook after a round: a delivered message is counted; otherwise whatever is in the buffer goes back
  to the queue, and the answer of that \<^verbatim>\<open>Put\<close> is not looked at.
\<close>

definition prod_post :: "'w ipc \<Rightarrow> bool \<Rightarrow> 'w prod_state op" where
  "prod_post I filter_result m s =
     (case s of (q, t, w, v) \<Rightarrow>
        if filter_result then
          Inr (True, m, q, t, w, v\<lparr>prod_pending := prod_pending v - 1,
                                   prod_metric := metric_bump (prod_metric v)\<rparr>)
        else case SysvMq_Put I m (q, w) of
               Inl e \<Rightarrow> Inl e
             | Inr (_, m', q', w') \<Rightarrow> Inr (False, m', q', t, w', v))"

definition producer_filter :: "'w ipc \<Rightarrow> 'w net \<Rightarrow> 'w prod_state msg_filter" where
  "producer_filter I N = set_post_filter_func (prod_post I) (MsgFilter (prod_get I) (prod_put N))"

text \<open>
  The thread up to its loop: the address, the connection, the queue. \<open>port0\<close> is the uninitialised port
  of \<open>ConnectStringToSockaddr\<close>. A failed connection is logged and ends the thread.
\<close>

definition producer_start ::
  "'w ipc \<Rightarrow> 'w net \<Rightarrow> conn_env \<Rightarrow> (string \<Rightarrow> 32 word) \<Rightarrow> int \<Rightarrow> string \<Rightarrow> string \<Rightarrow> 'w \<Rightarrow>
     fault + (sysv_mq \<times> tcp) option \<times> 'w" where
  "producer_start I N E inet_addr port0 conn_str dest w =
     (let addr = ConnectStringToSockaddr inet_addr port0 conn_str;
          (a, b, c) = env_garbage E;
          (t, w1) = TCP_new N w
      in case TCP_Connect N addr (t, w1) of
           (Some e, w2) \<Rightarrow>
             (case e of
                Exception what \<Rightarrow>
                  (case dispatch_r (split_format ''error connecting: {}'') [what] of
                     Inl f \<Rightarrow> Inl f
                   | Inr text \<Rightarrow> Inr (None, TCP_delete N t (net_cerr N text w2)))
              | _ \<Rightarrow> Inl e)
         | (None, w2) \<Rightarrow>
             (case mq_init I (env_ndebug E) (env_pid E) (env_before E) dest
                     (set_cleanup False (SysvMq_new a b c), w2) of
                (Some e, q, w3) \<Rightarrow> Inl e
              | (None, q, w3) \<Rightarrow> Inr (Some (q, t), w3)))"

subsection \<open>What a pass leaves behind\<close>

definition connector_inv :: "'w connector_st \<Rightarrow> bool" where
  "connector_inv st \<longleftrightarrow>
     wf_tee (out_tee st) \<and> distinct (map metric_name (metric_list st)) \<and>
     distinct (producer_set st) \<and>
     (\<forall>(c, d) \<in> set (spawned st). ExistsBranch d (out_tee st) \<and>
        (\<exists>fm \<in> set (metric_list st). metric_name fm = d))"

lemma ensure_metric_props:
  "\<exists>fm \<in> set (ensure_metric d ms). metric_name fm = d"
  "set ms \<subseteq> set (ensure_metric d ms)"
  "distinct (map metric_name ms) \<Longrightarrow> distinct (map metric_name (ensure_metric d ms))"
  by (auto simp: ensure_metric_def FilterMetric_def)

lemma ensure_branch_props:
  assumes "ensure_branch I E d st = (r, st1)"
  shows "metric_list st1 = metric_list st" "spawned st1 = spawned st"
    "producer_set st1 = producer_set st"
    "wf_tee (out_tee st) \<Longrightarrow> wf_tee (out_tee st1)"
    "ExistsBranch k (out_tee st) \<Longrightarrow> ExistsBranch k (out_tee st1)"
    "r = None \<Longrightarrow> ExistsBranch d (out_tee st1)"
  using assms by (auto simp: ensure_branch_def split: if_splits prod.splits option.splits)

lemma map_fst_update_new:
  "k \<notin> fst ` set al \<Longrightarrow> map fst (AList.update k v al) = map fst al @ [k]"
  by (induction al) auto

lemma ensure_branch_keys:
  assumes "ensure_branch I E d st = (None, st1)"
  shows "map fst (branch_map (out_tee st1)) =
    (if d \<in> set (map fst (branch_map (out_tee st))) then map fst (branch_map (out_tee st))
     else map fst (branch_map (out_tee st)) @ [d])"
  using assms
  by (auto simp: ensure_branch_def ExistsBranch_iff AddBranch_def map_fst_update_new
      split: if_splits prod.splits option.splits)

lemma connector_visit_inv:
  assumes "connector_visit I E sub st = (None, st')" and "connector_inv st"
  shows "connector_inv st'"
proof (cases "fst sub \<in> set (producer_set st)")
  case True
  with assms show ?thesis by (simp add: connector_visit_def case_prod_beta)
next
  case False
  obtain c d where sub: "sub = (c, d)" by force
  with assms(1) False obtain st1 where b: "ensure_branch I E d st = (None, st1)"
    and st': "st' = st1\<lparr>metric_list := ensure_metric d (metric_list st1),
        spawned := spawned st1 @ [(c, d)], producer_set := List.insert c (producer_set st1)\<rparr>"
    by (auto simp: connector_visit_def Let_def split: prod.splits option.splits)
  note p = ensure_branch_props [OF b]
  have "ExistsBranch k (out_tee st1) \<and> (\<exists>fm \<in> set (ensure_metric d (metric_list st)). metric_name fm = k)"
    if "(j, k) \<in> set (spawned st)" for j k
    using that assms(2) p(5) ensure_metric_props(2) [of "metric_list st" d]
    by (fastforce simp: connector_inv_def)
  then show ?thesis
    using assms(2) p(1-4,6) ensure_metric_props(1,3)
    by (auto simp: connector_inv_def st')
qed

lemma connector_pass_inv:
  "connector_pass I E subs st = (None, st') \<Longrightarrow> connector_inv st \<Longrightarrow> connector_inv st'"
proof (induction subs arbitrary: st)
  case (Cons sub subs)
  then show ?case
    by (auto split: prod.splits option.splits dest: connector_visit_inv)
qed simp

lemma connector_visit_producers:
  assumes "connector_visit I E (c, d) st = (None, st')"
  shows "set (producer_set st') = insert c (set (producer_set st))"
  using assms ensure_branch_props(3) [of I E d st]
  by (auto simp: connector_visit_def Let_def insert_absorb split: if_splits prod.splits option.splits)

lemma connector_pass_producers:
  "connector_pass I E subs st = (None, st') \<Longrightarrow>
     set (producer_set st') = set (producer_set st) \<union> fst ` set subs"
proof (induction subs arbitrary: st)
  case (Cons sub subs)
  obtain c d where sub: "sub = (c, d)" by force
  with Cons.prems obtain st1 where v: "connector_visit I E (c, d) st = (None, st1)"
    and r: "connector_pass I E subs st1 = (None, st')"
    by (auto split: prod.splits option.splits)
  show ?case using Cons.IH [OF r] connector_visit_producers [OF v] by (auto simp: sub)
qed simp

text \<open>The subscribers of a list that are not known and do not stand in it before: for each of them a thread is started.\<close>

fun newcomers :: "string set \<Rightarrow> (string \<times> string) list \<Rightarrow> (string \<times> string) list" where
  "newcomers K [] = []"
| "newcomers K ((c, d) # subs) = (if c \<in> K then newcomers K subs else (c, d) # newcomers (insert c K) subs)"

lemma connector_pass_newcomers:
  "connector_pass I E subs st = (None, st') \<Longrightarrow>
     spawned st' = spawned st @ newcomers (set (producer_set st)) subs \<and>
     set (map fst (branch_map (out_tee st'))) =
       set (map fst (branch_map (out_tee st))) \<union> snd ` set (newcomers (set (producer_set st)) subs)"
proof (induction subs arbitrary: st)
  case (Cons sub subs)
  obtain c d where sub: "sub = (c, d)" by force
  with Cons.prems obtain st1 where v: "connector_visit I E (c, d) st = (None, st1)"
    and r: "connector_pass I E subs st1 = (None, st')"
    by (auto split: prod.splits option.splits)
  show ?case
  proof (cases "c \<in> set (producer_set st)")
    case True
    with v have "st1 = st" by (simp add: connector_visit_def)
    with True Cons.IH [OF r] show ?thesis by (simp add: sub)
  next
    case False
    with v obtain st2 where b: "ensure_branch I E d st = (None, st2)"
      and st1: "st1 = st2\<lparr>metric_list := ensure_metric d (metric_list st2),
        spawned := spawned st2 @ [(c, d)], producer_set := List.insert c (producer_set st2)\<rparr>"
      by (auto simp: connector_visit_def Let_def split: prod.splits option.splits)
    have "spawned st1 = spawned st @ [(c, d)]"
      "set (map fst (branch_map (out_tee st1))) = insert d (set (map fst (branch_map (out_tee st))))"
      using ensure_branch_props(2) [OF b] ensure_branch_keys [OF b] by (auto simp: st1)
    with False Cons.IH [OF r] connector_visit_producers [OF v] show ?thesis by (simp add: sub)
  qed
qed simp

text \<open>Subscribers that are known start nothing.\<close>

lemma connector_pass_known:
  "fst ` set subs \<subseteq> set (producer_set st) \<Longrightarrow> connector_pass I E subs st = (None, st)"
  by (induction subs) (auto simp: connector_visit_def)

subsection \<open>A round of the producer\<close>

text \<open>
  What a round that answers true, and one that answers false, does to the queue and to the connection:
  one message moved, whole; or the message taken is back at the end of the queue or gone, with part of
  its frame on the connection at most; or there was no message and an empty one may have been added.
\<close>

definition round_sent ::
  "(int \<Rightarrow> 'w \<Rightarrow> string list) \<Rightarrow> (int \<Rightarrow> 'w \<Rightarrow> string) \<Rightarrow> sysv_mq \<Rightarrow> tcp \<Rightarrow> 'w \<Rightarrow> 'w \<Rightarrow> string \<Rightarrow> bool" where
  "round_sent queue outgoing q t w w' x \<longleftrightarrow>
     x \<noteq> [] \<and> queue (mqid q) w = x # queue (mqid q) w' \<and>
     outgoing (sock t) w' = outgoing (sock t) w @ tcp_frame x"

definition round_failed ::
  "(int \<Rightarrow> 'w \<Rightarrow> string list) \<Rightarrow> (int \<Rightarrow> 'w \<Rightarrow> string) \<Rightarrow> sysv_mq \<Rightarrow> tcp \<Rightarrow> 'w \<Rightarrow> 'w \<Rightarrow> bool" where
  "round_failed queue outgoing q t w w' \<longleftrightarrow>
     (\<exists>x rest back sent. queue (mqid q) w = x # rest \<and>
        queue (mqid q) w' = rest @ (if back then [x] else []) \<and> sent < length (tcp_frame x) \<and>
        outgoing (sock t) w' = outgoing (sock t) w @ take sent (tcp_frame x)) \<or>
     (\<exists>back. queue (mqid q) w' = queue (mqid q) w @ (if back then [[]] else []) \<and>
        outgoing (sock t) w' = outgoing (sock t) w)"

text \<open>
  Queue and connection live in the same outside state; a call on one leaves the other alone.
\<close>

locale prod_kernel = mq: mq_kernel I queue + conn: send_stream N outgoing
  for I :: "'w ipc" and queue and N :: "'w net" and outgoing +
  assumes write_queue: "queue r (snd (net_write N fd bs w)) = queue r w"
    and cerr_queue: "queue r (net_cerr N text w) = queue r w"
    and snd_outgoing: "outgoing fd (snd (ipc_msgsnd I q t b n f w)) = outgoing fd w"
    and rcv_outgoing: "outgoing fd (snd (ipc_msgrcv I q n w)) = outgoing fd w"
begin

lemma WriteAll_queue:
  assumes "WriteAll N fd data k w = Some (ok, w')"
  shows "queue r w' = queue r w"
proof (rule WriteAll.raw_induct [where P = "\<lambda>N' fd data k w res. N' = N \<longrightarrow>
    queue r (snd res) = queue r w", OF _ assms, simplified])
  fix f N' fd data k w res
  assume IH: "\<And>N' fd data k w res. f N' fd data k w = Some res \<Longrightarrow> N' = N \<longrightarrow>
      queue r (snd res) = queue r w"
    and eq: "(if k < length data then
        case net_write N' fd (drop k data) w of
          (None, w') \<Rightarrow> Some (False, net_cerr N' (write_error_text N' fd w') w')
        | (Some n, w') \<Rightarrow> f N' fd data (k + n) w'
      else Some (True, w)) = Some res"
  show "N' = N \<longrightarrow> queue r (snd res) = queue r w"
    using eq write_queue [of r fd "drop k data" w]
    by (auto simp: cerr_queue split: if_splits prod.splits option.splits dest!: IH)
qed

lemma TCP_Put_queue: "TCP_Put N m (t, w) = Inr (b, m', t', w') \<Longrightarrow> queue r w' = queue r w"
  by (auto simp: TCP_Put_def dest!: WriteAll_queue [where r = r]
      split: if_splits sum.splits prod.splits option.splits bool.splits)

lemma SysvMq_Put_outgoing:
  "SysvMq_Put I m (q, w) = Inr (b, m', q', w') \<Longrightarrow> outgoing fd w' = outgoing fd w"
  using snd_outgoing [of fd "mqid q" 1 "buf m" "len m" "put_flag q" w]
  by (auto simp: SysvMq_Put_def Let_def case_prod_beta)

lemma SysvMq_Get_outgoing:
  "SysvMq_Get I m (q, w) = Inr (b, m', q', w') \<Longrightarrow> outgoing fd w' = outgoing fd w"
  using rcv_outgoing [of fd "mqid q" MAX_MSG_SIZE w]
  by (auto simp: SysvMq_Get_def split: prod.splits option.splits sum.splits)

lemma SysvMq_Put_total: "\<exists>b w'. SysvMq_Put I m (q, w) = Inr (b, m\<lparr>mtype := 1\<rparr>, q, w')"
  by (simp add: SysvMq_Put_def Let_def split: prod.split)

text \<open>
  The hook on a failed round: the buffer's payload is queued again, or lost when the kernel refuses it.
\<close>

lemma prod_post_failed:
  assumes "wf_msg m"
  shows "\<exists>b m' w'. prod_post I False m (q, t, w, v) = Inr (False, m', q, t, w', v) \<and>
    outgoing fd w' = outgoing fd w \<and>
    queue (mqid q) w' = queue (mqid q) w @ (if b then [payload m] else [])"
proof -
  obtain b w' where p: "SysvMq_Put I m (q, w) = Inr (b, m\<lparr>mtype := 1\<rparr>, q, w')"
    using SysvMq_Put_total by blast
  from mq.SysvMq_Put_refines [OF assms p, of "mqid q"] SysvMq_Put_outgoing [OF p] p show ?thesis
    by (intro exI [of _ b] exI [of _ "m\<lparr>mtype := 1\<rparr>"] exI [of _ w']) (auto simp: prod_post_def)
qed

lemma producer_Filter_stages:
  assumes "SysvMq_Get I m (q, w) = Inr (True, m1, q, w1)" and "TCP_Put N m1 (t, w1) = Inr (ok, m1, t, w2)"
  shows "Filter (producer_filter I N) m (q, t, w, v) = prod_post I ok m1 (q, t, w2, v)"
  using assms by (simp add: Filter_def producer_filter_def prod_get_def prod_put_def)

lemma producer_Filter_no_message:
  assumes "SysvMq_Get I m (q, w) = Inr (False, m1, q, w1)"
  shows "Filter (producer_filter I N) m (q, t, w, v) = prod_post I False m1 (q, t, w1, v)"
  using assms by (simp add: Filter_def producer_filter_def prod_get_def)

text \<open>
  Every round returns. It answers true exactly when it moved one message, not empty, from the queue to
  the connection and counted it; otherwise the counters are as before.
\<close>

lemma producer_round_got:
  assumes "wf_buf m" and g: "SysvMq_Get I m (q, w) = Inr (True, m1, q, w1)"
  shows "\<exists>ok m' w' v'. Filter (producer_filter I N) m (q, t, w, v) = Inr (ok, m', q, t, w', v') \<and>
    (if ok then round_sent queue outgoing q t w w' (payload m1) \<and>
         v' = v\<lparr>prod_pending := prod_pending v - 1, prod_metric := metric_bump (prod_metric v)\<rparr>
     else round_failed queue outgoing q t w w' \<and> v' = v)"
proof -
  from mq.SysvMq_Get_refines [OF assms] have m1: "wf_msg m1"
    and q1: "queue (mqid q) w = payload m1 # queue (mqid q) w1" by simp_all
  note o1 = SysvMq_Get_outgoing [OF g, of "sock t"]
  have "\<exists>ok w2 sent. TCP_Put N m1 (t, w1) = Inr (ok, m1, t, w2) \<and>
      outgoing (sock t) w2 = outgoing (sock t) w1 @ take sent (tcp_frame (payload m1)) \<and>
      (if ok then payload m1 \<noteq> [] \<and> sent = length (tcp_frame (payload m1))
       else sent < length (tcp_frame (payload m1)))"
  proof (cases "len m1 = 0")
    case True
    then show ?thesis by (auto simp: wissbi_policy tcp_frame_def intro!: exI [of _ 0])
  next
    case False
    with conn.TCP_Put_returns [OF m1, of t w1] length_payload [OF m1] show ?thesis by fastforce
  qed
  then obtain ok w2 sent where p: "TCP_Put N m1 (t, w1) = Inr (ok, m1, t, w2)"
    and o2: "outgoing (sock t) w2 = outgoing (sock t) w1 @ take sent (tcp_frame (payload m1))"
    and s: "if ok then payload m1 \<noteq> [] \<and> sent = length (tcp_frame (payload m1))
       else sent < length (tcp_frame (payload m1))" by blast
  note F = producer_Filter_stages [OF g p, of v] and q2 = TCP_Put_queue [OF p, of "mqid q"]
  show ?thesis
  proof (cases ok)
    case True
    with F s q1 q2 o1 o2 show ?thesis by (auto simp: prod_post_def round_sent_def)
  next
    case False
    from prod_post_failed [OF m1, of q t w2 v "sock t"] obtain b m' w' where
      "prod_post I False m1 (q, t, w2, v) = Inr (False, m', q, t, w', v)"
      "outgoing (sock t) w' = outgoing (sock t) w2"
      "queue (mqid q) w' = queue (mqid q) w2 @ (if b then [payload m1] else [])" by blast
    moreover from this q1 q2 o1 o2 s False have "round_failed queue outgoing q t w w'"
      unfolding round_failed_def by (metis (no_types))
    ultimately show ?thesis using F False by auto
  qed
qed

lemma producer_round:
  assumes "wf_buf m"
  shows "\<exists>ok m' w' v'. Filter (producer_filter I N) m (q, t, w, v) = Inr (ok, m', q, t, w', v') \<and>
    (if ok then (\<exists>x. round_sent queue outgoing q t w w' x) \<and>
         v' = v\<lparr>prod_pending := prod_pending v - 1, prod_metric := metric_bump (prod_metric v)\<rparr>
     else round_failed queue outgoing q t w w' \<and> v' = v)"
proof -
  obtain got m1 w1 where g: "SysvMq_Get I m (q, w) = Inr (got, m1, q, w1)"
    using mq.SysvMq_Get_no_fault [OF assms] by blast
  show ?thesis
  proof (cases got)
    case True
    with producer_round_got [OF assms, of q w m1 w1 t v] g show ?thesis
      by (metis (mono_tags, lifting))
  next
    case False
    with mq.SysvMq_Get_refines [OF assms g, of "mqid q"] have m1: "wf_msg m1" "payload m1 = []"
      and q1: "queue (mqid q) w1 = queue (mqid q) w" by (simp_all add: payload_def)
    from prod_post_failed [OF m1(1), of q t w1 v "sock t", unfolded m1(2)] obtain b m' w' where
      "prod_post I False m1 (q, t, w1, v) = Inr (False, m', q, t, w', v)"
      "outgoing (sock t) w' = outgoing (sock t) w1"
      "queue (mqid q) w' = queue (mqid q) w1 @ (if b then [[]] else [])" by blast
    moreover from this q1 SysvMq_Get_outgoing [OF g, of "sock t"] have "round_failed queue outgoing q t w w'"
      unfolding round_failed_def by (metis (no_types))
    ultimately show ?thesis
      using producer_Filter_no_message [of m q w m1 w1 t v] g False by auto
  qed
qed

end

end
