(* ===== verification/Kernel_Ref.thy ===== *)
theory Kernel_Ref
  imports Connector
begin

text \<open>
  A small kernel that satisfies what the program relies on: sockets that move bytes in pieces of a
  given size, message queues with an optional limit on their bytes, directories of files, a clock. It interprets the
  locales of the components, and is the instance at which their theorems are shown not to be
  empty.
\<close>

record kworld =
  k_in :: "int \<Rightarrow> string"
  k_out :: "int \<Rightarrow> string"
  k_room :: nat
  k_chunk :: nat
  k_cerr :: string
  k_queues :: "int \<Rightarrow> string list"
  k_dirs :: "string \<Rightarrow> string list"
  k_next_fd :: int
  k_time :: int

definition kworld_empty :: kworld where
  "kworld_empty = \<lparr>k_in = (\<lambda>_. []), k_out = (\<lambda>_. []), k_room = 100000, k_chunk = 3, k_cerr = [],
                   k_queues = (\<lambda>_. []), k_dirs = (\<lambda>_. []), k_next_fd = 3,
                   k_time = 0\<rparr>"

subsection \<open>Sockets\<close>

text \<open>
  A read gives at most \<open>k_chunk + 1\<close> bytes; a write takes at most as many while there is room on the
  other side, and fails when there is none.
\<close>

definition ref_read :: "int \<Rightarrow> nat \<Rightarrow> kworld \<Rightarrow> string option \<times> kworld" where
  "ref_read fd n w =
     (let k = min n (Suc (k_chunk w)); s = k_in w fd
      in (Some (take k s), w\<lparr>k_in := (k_in w)(fd := drop k s)\<rparr>))"

definition ref_write :: "int \<Rightarrow> string \<Rightarrow> kworld \<Rightarrow> nat option \<times> kworld" where
  "ref_write fd bs w =
     (let k = min (length bs) (min (Suc (k_chunk w)) (k_room w))
      in if k = 0 then (None, w)
         else (Some k, w\<lparr>k_out := (k_out w)(fd := k_out w fd @ take k bs), k_room := k_room w - k\<rparr>))"

definition ref_net :: "kworld net" where
  "ref_net =
     \<lparr>net_socket = (\<lambda>w. (k_next_fd w, w\<lparr>k_next_fd := k_next_fd w + 1\<rparr>)),
      net_close = (\<lambda>fd w. w),
      net_connect = (\<lambda>fd a w. (sin_port a \<noteq> 0, w)),
      net_read = ref_read, net_write = ref_write,
      net_getsockname = (\<lambda>fd w. \<lparr>sin_family = AF_INET, sin_port = 0, s_addr = 0\<rparr>),
      net_strerror = (\<lambda>w. ''no room''),
      net_ntoa = quad_ntoa,
      net_cerr = (\<lambda>t w. w\<lparr>k_cerr := k_cerr w @ t @ [CHR 0x0A]\<rparr>)\<rparr>"

definition ref_incoming :: "int \<Rightarrow> kworld \<Rightarrow> string" where
  "ref_incoming fd w = k_in w fd"

definition ref_outgoing :: "int \<Rightarrow> kworld \<Rightarrow> string" where
  "ref_outgoing fd w = k_out w fd"

interpretation ref_send: send_stream ref_net ref_outgoing
  by unfold_locales
    (auto simp: ref_net_def ref_write_def ref_outgoing_def Let_def split: if_splits)

interpretation ref_recv: recv_stream ref_net ref_incoming
proof
  fix fd :: int and n :: nat and w :: kworld
  assume "ref_incoming fd w \<noteq> []" and "0 < n"
  then show "\<exists>bs w'. net_read ref_net fd n w = (Some bs, w') \<and> bs \<noteq> [] \<and> length bs \<le> n \<and>
      ref_incoming fd w = bs @ ref_incoming fd w'"
    by (simp add: ref_net_def ref_read_def ref_incoming_def Let_def)
next
  fix fd :: int and n :: nat and w :: kworld
  assume "ref_incoming fd w = []" and "0 < n"
  then show "\<exists>w'. net_read ref_net fd n w = (Some [], w') \<and> ref_incoming fd w' = []"
    by (simp add: ref_net_def ref_read_def ref_incoming_def Let_def)
qed

subsection \<open>Message queues\<close>

definition ref_key :: "string \<Rightarrow> int" where
  "ref_key s = foldl (\<lambda>a c. a * 256 + of_char c) 1 s"

lemma ref_key_nonneg: "0 \<le> ref_key s"
proof -
  have "0 \<le> foldl (\<lambda>a c. a * 256 + of_char c) a s" if "0 \<le> a" for a :: int
    using that by (induction s arbitrary: a) (simp_all add: of_char_def)
  then show ?thesis by (simp add: ref_key_def)
qed

definition ref_msgsnd ::
  "nat option \<Rightarrow> int \<Rightarrow> int \<Rightarrow> string \<Rightarrow> nat \<Rightarrow> int \<Rightarrow> kworld \<Rightarrow> bool \<times> kworld" where
  "ref_msgsnd lim q t b n f w =
     (if (case lim of None \<Rightarrow> False
          | Some l \<Rightarrow> l < sum_list (map length (k_queues w q)) + n) then (False, w)
      else (True, w\<lparr>k_queues := (k_queues w)(q := k_queues w q @ [take n b])\<rparr>))"

definition ref_msgrcv :: "int \<Rightarrow> nat \<Rightarrow> kworld \<Rightarrow> (int \<times> string) option \<times> kworld" where
  "ref_msgrcv q n w =
     (case k_queues w q of
        [] \<Rightarrow> (None, w)
      | x # xs \<Rightarrow> if n < length x then (None, w)
                  else (Some (1, x), w\<lparr>k_queues := (k_queues w)(q := xs)\<rparr>))"

definition ref_ipc :: "nat option \<Rightarrow> kworld ipc" where
  "ref_ipc lim =
     \<lparr>ipc_creat = (\<lambda>f w. (True, w)), ipc_ftok = (\<lambda>f w. ref_key f), ipc_msgget = (\<lambda>k w. (k, w)),
      ipc_msgsnd = ref_msgsnd lim, ipc_msgrcv = ref_msgrcv,
      ipc_qnum = (\<lambda>q w. length (k_queues w q)),
      ipc_rmid = (\<lambda>q w. w\<lparr>k_queues := (k_queues w)(q := [])\<rparr>),
      ipc_unlink = (\<lambda>f w. w), ipc_strerror = (\<lambda>w. ''error'')\<rparr>"

definition ref_queue :: "int \<Rightarrow> kworld \<Rightarrow> string list" where
  "ref_queue q w = k_queues w q"

interpretation ref_mq: mq_kernel "ref_ipc lim" ref_queue for lim :: "nat option"
  by unfold_locales
    (auto simp: ref_ipc_def ref_msgsnd_def ref_msgrcv_def ref_queue_def
      split: if_splits list.splits option.splits)

interpretation ref_prod: prod_kernel "ref_ipc lim" ref_queue ref_net ref_outgoing for lim :: "nat option"
  by unfold_locales
    (auto simp: ref_ipc_def ref_msgsnd_def ref_msgrcv_def ref_queue_def ref_net_def ref_write_def
      ref_outgoing_def Let_def split: list.split)

lemma ref_ipc_accepts: "fst (ipc_msgsnd (ref_ipc None) q t b n f w)"
  by (simp add: ref_ipc_def ref_msgsnd_def)

subsection \<open>Directories\<close>

text \<open>A path is split at its last slash.\<close>

definition path_base :: "string \<Rightarrow> string" where
  "path_base p = rev (takeWhile (\<lambda>c. c \<noteq> CHR ''/'') (rev p))"

definition path_dir :: "string \<Rightarrow> string" where
  "path_dir p = butlast (rev (dropWhile (\<lambda>c. c \<noteq> CHR ''/'') (rev p)))"

lemma path_split:
  assumes "CHR ''/'' \<notin> set n"
  shows "path_base (d @ ''/'' @ n) = n" and "path_dir (d @ ''/'' @ n) = d"
proof -
  have "\<forall>c \<in> set (rev n). c \<noteq> CHR ''/''" using assms by auto
  then show "path_base (d @ ''/'' @ n) = n" and "path_dir (d @ ''/'' @ n) = d"
    by (simp_all add: path_base_def path_dir_def)
qed

text \<open>Slashes at the end of a directory's path make no difference.\<close>

definition path_trim :: "string \<Rightarrow> string" where
  "path_trim p = rev (dropWhile (\<lambda>c. c = CHR ''/'') (rev p))"

lemma path_trim_slash: "path_trim (d @ ''/'') = path_trim d"
  by (simp add: path_trim_def)

definition ref_fs :: "kworld fs" where
  "ref_fs =
     \<lparr>fs_mkdir = (\<lambda>d w. w),
      fs_open_creat = (\<lambda>p w.
        let d = path_trim (path_dir p)
        in (3, w\<lparr>k_dirs := (k_dirs w)(d := List.insert (path_base p) (k_dirs w d))\<rparr>)),
      fs_futimes = (\<lambda>fd w. (0, w)),
      fs_close = (\<lambda>fd w. w),
      fs_unlink = (\<lambda>p w.
        let d = path_trim (path_dir p)
        in w\<lparr>k_dirs := (k_dirs w)(d := filter (\<lambda>n. n \<noteq> path_base p) (k_dirs w d))\<rparr>),
      fs_readdir = (\<lambda>d w. Some (map (\<lambda>n. (n, False))
        (remdups (filter (\<lambda>n. n \<noteq> ''.'' \<and> n \<noteq> ''..'') (k_dirs w (path_trim d))))))\<rparr>"

definition ref_entries :: "string \<Rightarrow> kworld \<Rightarrow> string set" where
  "ref_entries d w = set (k_dirs w (path_trim d)) - {''.'', ''..''}"

interpretation ref_dir: dir_fs ref_fs ref_entries
proof
  fix n d :: string and w w' :: kworld and fd :: int
  assume "CHR ''/'' \<notin> set n" and "n \<noteq> ''.''" and "n \<noteq> ''..''"
    and "fs_open_creat ref_fs (d @ ''/'' @ n) w = (fd, w')" and "fd \<noteq> -1"
  then show "ref_entries d w' = insert n (ref_entries d w)"
    by (auto simp: ref_fs_def ref_entries_def path_split Let_def simp del: append_Cons)
next
  fix n d :: string and w :: kworld
  assume "CHR ''/'' \<notin> set n"
  then show "ref_entries d (fs_unlink ref_fs (d @ ''/'' @ n) w) = ref_entries d w - {n}"
    by (auto simp: ref_fs_def ref_entries_def path_split Let_def simp del: append_Cons)
next
  fix d :: string and w :: kworld and es
  assume "fs_readdir ref_fs d w = Some es"
  then have es: "es = map (\<lambda>n. (n, False))
      (remdups (filter (\<lambda>n. n \<noteq> ''.'' \<and> n \<noteq> ''..'') (k_dirs w (path_trim d))))"
    by (simp add: ref_fs_def)
  show "distinct (map fst es) \<and> {n. (n, False) \<in> set es \<and> n \<noteq> ''.'' \<and> n \<noteq> ''..''} = ref_entries d w"
    unfolding es by (auto simp: ref_entries_def comp_def)
qed (auto simp: ref_fs_def ref_entries_def Let_def path_trim_slash simp del: append_Cons)

end
