(* ===== verification/Pub_Main.thy ===== *)
theory Pub_Main
  imports Kernel_Ref "HOL-Library.Signed_Division"
begin

text \<open>
  \<^verbatim>\<open>src/pub.cpp\<close>: \<^verbatim>\<open>wissbi-pub\<close>. The main thread waits for a subscriber, moves its input to the tee of
  message queues, counts what is pending, and waits, for a bounded time, until the producers have sent
  it.

  Here the main thread runs on its own: what the other threads do to the shared objects happens in the
  pauses of \<open>sleep_while\<close>, and is the parameter \<open>sleep\<close>. Every interleaving is in \<open>Pub_System\<close>.
\<close>

subsection \<open>Waiting\<close>

text \<open>
  \<open>now\<close> reads the system clock, in microseconds; the cast to seconds rounds towards 0. \<open>None\<close> is the
  loop that does not end.
\<close>

partial_function (option) sleep_while_loop ::
  "('s \<Rightarrow> int \<times> 's) \<Rightarrow> ('s \<Rightarrow> 's) \<Rightarrow> ('s \<Rightarrow> bool) \<Rightarrow> int \<Rightarrow> int \<Rightarrow> 's \<Rightarrow> 's option" where
  "sleep_while_loop now sleep cond second start s =
     (if cond s then
        case now s of (t, s1) \<Rightarrow>
          if second \<le> (t - start) sdiv 1000000 then Some s1
          else sleep_while_loop now sleep cond second start (sleep s1)
      else Some s)"

definition sleep_while ::
  "('s \<Rightarrow> int \<times> 's) \<Rightarrow> ('s \<Rightarrow> 's) \<Rightarrow> ('s \<Rightarrow> bool) \<Rightarrow> int \<Rightarrow> 's \<Rightarrow> 's option" where
  "sleep_while now sleep cond second s =
     (case now s of (start, s1) \<Rightarrow> sleep_while_loop now sleep cond second start s1)"

subsection \<open>The filters and their hooks\<close>

text \<open>
  The objects of \<^verbatim>\<open>run\<close> besides the input filter itself: the counters, and the parts of the filter the
  reporter feeds.
\<close>

record pub_vars =
  pending_counter :: "32 word"
  run_metrics :: "filter_metric list"
  drop_metrics :: "filter_metric list"
  metric_pending :: "32 word"
  metric_src :: string_policy
  metric_tee :: "sysv_mq tee"
  metric_buf :: msg_buf

type_synonym 'w pub_state = "iostream_base \<times> (sysv_mq tee \<times> 'w) \<times> pub_vars"

abbreviation pub_tee :: "'w pub_state \<Rightarrow> sysv_mq tee" where
  "pub_tee s \<equiv> fst (fst (snd s))"

abbreviation pub_world :: "'w pub_state \<Rightarrow> 'w" where
  "pub_world s \<equiv> snd (fst (snd s))"

abbreviation pub_locals :: "'w pub_state \<Rightarrow> pub_vars" where
  "pub_locals s \<equiv> snd (snd s)"

definition input_pre ::
  "('w pub_state \<Rightarrow> int \<times> 'w pub_state) \<Rightarrow> ('w pub_state \<Rightarrow> 'w pub_state) \<Rightarrow> int \<Rightarrow>
     'w pub_state \<Rightarrow> fault + (bool \<times> 'w pub_state)" where
  "input_pre now sleep wait_timeout_sec s =
     (case sleep_while now sleep (\<lambda>s. GetBranchCount (pub_tee s) = 0) wait_timeout_sec s of
        None \<Rightarrow> Inl NoReturn
      | Some s' \<Rightarrow> Inr (True, s'))"

text \<open>
  \<^verbatim>\<open>drop_metric_list.begin()\<close> of the list, which has one element from the start; on an empty one it has no
  element to refer to.
\<close>

definition input_post :: "bool \<Rightarrow> 'w pub_state op" where
  "input_post filter_result m s =
     (case s of (io, (t, w), v) \<Rightarrow>
        if filter_result then
          (case drop_metrics v of
             [] \<Rightarrow> Inl BadIterator
           | fm # fms \<Rightarrow>
               Inr (True, m, io, (t, w),
                 v\<lparr>pending_counter := pending_counter v + of_int (GetLastTeeCount t),
                   drop_metrics :=
                     fm\<lparr>last_processed := last_processed fm + of_int (GetLastFailedCount t)\<rparr> # fms\<rparr>))
        else Inr (False, m, s))"

definition input_filter ::
  "iostream_base op \<Rightarrow> 'w ipc \<Rightarrow> ('w pub_state \<Rightarrow> int \<times> 'w pub_state) \<Rightarrow> ('w pub_state \<Rightarrow> 'w pub_state) \<Rightarrow>
     int \<Rightarrow> 'w pub_state msg_filter" where
  "input_filter get I now sleep wait_timeout_sec =
     set_post_filter_func input_post
       (set_pre_filter_func (input_pre now sleep wait_timeout_sec)
         (MsgFilter (lift_in get) (lift_out (Tee_Put (SysvMq_Put I)))))"

definition metric_post :: "bool \<Rightarrow> ('w, 32 word) metric_state op" where
  "metric_post filter_result m s =
     (case s of (p, tw, n) \<Rightarrow> Inr (filter_result, m, p, tw, if filter_result then n + 1 else n))"

definition pub_metric_filter :: "'w ipc \<Rightarrow> ('w, 32 word) metric_state msg_filter" where
  "pub_metric_filter I = set_post_filter_func metric_post (metric_input_filter I)"

text \<open>A \<^verbatim>\<open>Report\<close> of a list of metrics, on the objects of \<^verbatim>\<open>run\<close>.\<close>

definition run_report ::
  "'w ipc \<Rightarrow> string \<Rightarrow> filter_metric list \<Rightarrow> 'w pub_state \<Rightarrow> fault + (filter_metric list \<times> 'w pub_state)" where
  "run_report I direction fms s =
     (case s of (io, (t, w), v) \<Rightarrow>
        (case Report (pub_metric_filter I) direction fms (metric_buf v)
                (metric_src v, (metric_tee v, w), metric_pending v) of
           Inl e \<Rightarrow> Inl e
         | Inr (fms', m', p', (t', w'), n') \<Rightarrow>
             Inr (fms', io, (t, w'),
                  v\<lparr>metric_buf := m', metric_src := p', metric_tee := t', metric_pending := n'\<rparr>)))"

definition enqueue_report :: "'w ipc \<Rightarrow> 'w pub_state \<Rightarrow> fault + 'w pub_state" where
  "enqueue_report I s =
     (case run_report I ''enqueue'' (run_metrics (pub_locals s)) s of
        Inl e \<Rightarrow> Inl e
      | Inr (fms, io, tw, v) \<Rightarrow> Inr (io, tw, v\<lparr>run_metrics := fms\<rparr>))"

definition drop_report :: "'w ipc \<Rightarrow> 'w pub_state \<Rightarrow> fault + 'w pub_state" where
  "drop_report I s =
     (case run_report I ''drop'' (drop_metrics (pub_locals s)) s of
        Inl e \<Rightarrow> Inl e
      | Inr (fms, io, tw, v) \<Rightarrow> Inr (io, tw, v\<lparr>drop_metrics := fms\<rparr>))"

text \<open>What the reporter thread does every second.\<close>

definition reporter_tick :: "'w ipc \<Rightarrow> 'w pub_state \<Rightarrow> fault + 'w pub_state" where
  "reporter_tick I s = (case enqueue_report I s of Inl e \<Rightarrow> Inl e | Inr s1 \<Rightarrow> drop_report I s1)"

subsection \<open>The main thread\<close>

text \<open>
  The objects of \<^verbatim>\<open>run\<close> at its start; the numbers are the uninitialised counters of the two tees, and the
  two buffers are those of the filters.
\<close>

definition run_start ::
  "string \<Rightarrow> string \<Rightarrow> msg_buf \<Rightarrow> int \<times> int \<Rightarrow> int \<times> int \<Rightarrow> ostream \<Rightarrow> 'w \<Rightarrow> 'w pub_state" where
  "run_start dest stdin mb g1 g2 cout w =
     (IOStreamBase (istream_of stdin) cout, (Tee_new (fst g1) (snd g1), w),
      \<lparr>pending_counter = 0, run_metrics = [], drop_metrics = [FilterMetric dest], metric_pending = 0,
       metric_src = String_new, metric_tee = Tee_new (fst g2) (snd g2), metric_buf = mb\<rparr>)"

definition pub_run ::
  "iostream_base op \<Rightarrow> 'w ipc \<Rightarrow> ('w pub_state \<Rightarrow> int \<times> 'w pub_state) \<Rightarrow> ('w pub_state \<Rightarrow> 'w pub_state) \<Rightarrow>
     int \<Rightarrow> msg_buf \<Rightarrow> 'w pub_state \<Rightarrow> (fault + 'w pub_state) option" where
  "pub_run get I now sleep wait_timeout_sec m s =
     (case FilterLoop (input_filter get I now sleep wait_timeout_sec) m s of
        None \<Rightarrow> None
      | Some (Inl e) \<Rightarrow> Some (Inl e)
      | Some (Inr (m1, s1)) \<Rightarrow>
          (case sleep_while now sleep (\<lambda>s. 0 < pending_counter (pub_locals s)) wait_timeout_sec s1 of
             None \<Rightarrow> None
           | Some s2 \<Rightarrow>
               (case enqueue_report I s2 of
                  Inl e \<Rightarrow> Some (Inl e)
                | Inr s3 \<Rightarrow>
                    (case sleep_while now sleep (\<lambda>s. 0 < metric_pending (pub_locals s))
                            wait_timeout_sec s3 of
                       None \<Rightarrow> None
                     | Some s4 \<Rightarrow> Some (Inr s4)))))"

datatype msg_format = Line_format | Length_format

datatype pub_config =
    PubUsage string
  | PubRun msg_format string int
  | PubUnknownFormat string

definition wait_timeout :: "(string \<Rightarrow> string option) \<Rightarrow> int" where
  "wait_timeout getenv =
     (case getenv ''WISSBI_PUB_WAIT_TIMEOUT_SEC'' of
        None \<Rightarrow> 1
      | Some s \<Rightarrow> fst (extract_int 1 (istream_of s)))"

definition pub_main_config :: "string list \<Rightarrow> (string \<Rightarrow> string option) \<Rightarrow> pub_config" where
  "pub_main_config argv getenv =
     (case argv of
        prog # dest # _ \<Rightarrow>
          (case getenv ''WISSBI_MESSAGE_FORMAT'' of
             None \<Rightarrow> PubRun Line_format dest (wait_timeout getenv)
           | Some f \<Rightarrow>
               if f = ''line'' then PubRun Line_format dest (wait_timeout getenv)
               else if f = ''length'' then PubRun Length_format dest (wait_timeout getenv)
               else PubUnknownFormat f)
      | _ \<Rightarrow> PubUsage (''Usage: '' @ concat (take 1 argv) @ '' DESTINATION_NAME''))"

definition format_get :: "msg_format \<Rightarrow> iostream_base op" where
  "format_get f = (case f of Line_format \<Rightarrow> Line_Get | Length_format \<Rightarrow> Length_Get)"

text \<open>The file with the process id; \<open>put_file\<close> writes a file.\<close>

definition write_pid_file ::
  "(string \<Rightarrow> string \<Rightarrow> 'w \<Rightarrow> 'w) \<Rightarrow> nat \<Rightarrow> (string \<Rightarrow> string option) \<Rightarrow> 'w \<Rightarrow> 'w" where
  "write_pid_file put_file pid getenv w =
     (case getenv ''WISSBI_PID_FILE'' of
        None \<Rightarrow> w
      | Some f \<Rightarrow> put_file f (show_nat pid @ [CHR 0x0A]) w)"

text \<open>The exit code, for the runs that end without a fault.\<close>

definition pub_main ::
  "'w ipc \<Rightarrow> ('w pub_state \<Rightarrow> int \<times> 'w pub_state) \<Rightarrow> ('w pub_state \<Rightarrow> 'w pub_state) \<Rightarrow>
     (string \<Rightarrow> string \<Rightarrow> 'w \<Rightarrow> 'w) \<Rightarrow> nat \<Rightarrow> string list \<Rightarrow> (string \<Rightarrow> string option) \<Rightarrow> string \<Rightarrow> msg_buf \<Rightarrow>
     msg_buf \<Rightarrow> int \<times> int \<Rightarrow> int \<times> int \<Rightarrow> ostream \<Rightarrow> 'w \<Rightarrow> (fault + int) option" where
  "pub_main I now sleep put_file pid argv getenv stdin m mb g1 g2 cout w =
     (case pub_main_config argv getenv of
        PubUsage _ \<Rightarrow> Some (Inr 1)
      | PubUnknownFormat _ \<Rightarrow> Some (Inr 1)
      | PubRun f dest wait \<Rightarrow>
          (case pub_run (format_get f) I now sleep wait m
                  (run_start dest stdin mb g1 g2 cout (write_pid_file put_file pid getenv w)) of
             None \<Rightarrow> None
           | Some (Inl e) \<Rightarrow> Some (Inl e)
           | Some (Inr s) \<Rightarrow> Some (Inr 0)))"

subsection \<open>The waits end\<close>

text \<open>
  A clock that shows the time and does not stand still while the thread sleeps. Whatever the other
  threads do meanwhile, a wait ends, with the condition false or the time over.
\<close>

locale wall_clock =
  fixes now :: "'s \<Rightarrow> int \<times> 's" and sleep :: "'s \<Rightarrow> 's" and time_of :: "'s \<Rightarrow> int"
  assumes now_time: "now s = (time_of s, s)"
    and sleep_time: "time_of s + 50000 \<le> time_of (sleep s)"
begin

lemma sdiv_seconds:
  fixes d :: int
  assumes "0 \<le> d"
  shows "second \<le> d sdiv 1000000 \<longleftrightarrow> second * 1000000 \<le> d"
proof -
  have "d sdiv 1000000 = d div 1000000"
    using assms by (simp add: signed_divide_int_def sgn_if)
  moreover have "d = 1000000 * (d div 1000000) + d mod 1000000" and "0 \<le> d mod 1000000"
    and "d mod 1000000 < 1000000" by simp_all
  ultimately show ?thesis by linarith
qed

lemma sleep_while_loop_returns:
  assumes "start \<le> time_of s"
  shows "\<exists>s'. sleep_while_loop now sleep cond second start s = Some s' \<and> time_of s \<le> time_of s' \<and>
    (cond s' \<longrightarrow> second * 1000000 \<le> time_of s' - start)"
  using assms
proof (induction "nat (start + second * 1000000 - time_of s)" arbitrary: s rule: less_induct)
  case less
  note unf = sleep_while_loop.simps [of now sleep cond second start s]
  show ?case
  proof (cases "cond s \<and> time_of s - start < second * 1000000")
    case False
    with less.prems show ?thesis
      by (subst unf) (auto simp: now_time sdiv_seconds)
  next
    case True
    note t = sleep_time [of s]
    from t True less.prems obtain s' where
      "sleep_while_loop now sleep cond second start (sleep s) = Some s'"
      "time_of (sleep s) \<le> time_of s'" "cond s' \<longrightarrow> second * 1000000 \<le> time_of s' - start"
      using less.hyps [of "sleep s"] by (auto simp: zless_nat_conj)
    with True t less.prems show ?thesis
      by (subst unf) (auto simp: now_time sdiv_seconds)
  qed
qed

lemma sleep_while_returns:
  "\<exists>s'. sleep_while now sleep cond second s = Some s' \<and> time_of s \<le> time_of s' \<and>
     (cond s' \<longrightarrow> second * 1000000 \<le> time_of s' - time_of s)"
  using sleep_while_loop_returns [of "time_of s" s] by (simp add: sleep_while_def now_time)

text \<open>A wait whose condition is false at once does not sleep.\<close>

lemma sleep_while_immediate: "\<not> cond s \<Longrightarrow> sleep_while now sleep cond second s = Some s"
  by (simp add: sleep_while_def now_time sleep_while_loop.simps)

end

subsection \<open>The input loop\<close>

text \<open>What a branch list and the answers of its queues make of a payload: the copies a queue receives.\<close>

definition tee_copies :: "(string \<times> sysv_mq) list \<Rightarrow> int \<Rightarrow> string \<Rightarrow> bool list \<Rightarrow> string list" where
  "tee_copies kvs r x oks = map (\<lambda>_. x) (filter (\<lambda>(kv, ok). ok \<and> mqid (snd kv) = r) (zip kvs oks))"

definition failed_puts :: "bool list \<Rightarrow> nat" where
  "failed_puts oks = length (filter Not oks)"

text \<open>
  The input policy, the queues and the clock together. With a branch in the tee no wait sleeps, so the
  loop runs through.
\<close>

locale pub_input = src: stream_codec get ready pending frame fits + mq: mq_kernel I queue +
    clk: wall_clock now sleep time_of
  for get :: "iostream_base op" and ready pending frame fits
    and I :: "'w ipc" and queue
    and now :: "'w pub_state \<Rightarrow> int \<times> 'w pub_state" and sleep and time_of +
  assumes fits_size: "fits x \<Longrightarrow> length x \<le> MAX_MSG_SIZE"
begin

abbreviation flt :: "int \<Rightarrow> 'w pub_state msg_filter" where
  "flt wait \<equiv> input_filter get I now sleep wait"

lemma pre_passes:
  assumes "0 < GetBranchCount t"
  shows "input_pre now sleep wait (io, (t, w), v) = Inr (True, io, (t, w), v)"
  using assms clk.sleep_while_immediate [of "\<lambda>s. GetBranchCount (pub_tee s) = 0" "(io, (t, w), v)"]
  by (simp add: input_pre_def)

lemma pub_round:
  assumes "0 < GetBranchCount t" and "drop_metrics v = fm # fms" and "ready io" and "fits x"
    and "pending io = frame x @ rest" and "wf_buf m"
  shows "\<exists>oks m' io' t' w'. length oks = GetBranchCount t \<and>
    Filter (flt wait) m (io, (t, w), v) = Inr (True, m', io', (t', w'),
      v\<lparr>pending_counter := pending_counter v + of_nat (GetBranchCount t),
        drop_metrics := fm\<lparr>last_processed := last_processed fm + of_nat (failed_puts oks)\<rparr> # fms\<rparr>) \<and>
    branch_map t' = branch_map t \<and> wf_buf m' \<and> ready io' \<and> pending io' = rest \<and>
    (\<forall>r. queue r w' = queue r w @ tee_copies (branch_map t) r x oks)"
proof -
  from src.get_frame [OF assms(3-6)] obtain m1 io1 where g: "get m io = Inr (True, m1, io1)"
    "len m1 = length x" "payload m1 = x" "ready io1" "pending io1 = rest" by blast
  from src.get_wf [OF assms(6) g(1)] g(2) fits_size [OF assms(4)] have "wf_msg m1"
    by (simp add: wf_msg_def)
  from mq.Tee_Put_queues [OF this, of t w] g(3) obtain oks m' w' where
    o: "length oks = GetBranchCount t" and m': "wf_msg m'" and
    p: "Tee_Put (SysvMq_Put I) m1 (t, w) =
      Inr (True, m', t\<lparr>last_tee_count := int (GetBranchCount t),
                       last_failed_count := int (failed_puts oks)\<rparr>, w')"
      (is "_ = Inr (True, m', ?t, w')") and
    q: "\<forall>r. queue r w' = queue r w @ tee_copies (branch_map t) r x oks"
    by (auto simp: tee_copies_def failed_puts_def)
  have "Filter (flt wait) m (io, (t, w), v) = input_post True m' (io1, (?t, w'), v)"
    using g(1) p pre_passes [OF assms(1), of wait io w v]
      Filter_all_pass [of "flt wait" "(io, (t, w), v)" "(io, (t, w), v)" m m1 "(io1, (t, w), v)" m1
        "(io1, (t, w), v)" True m' "(io1, (?t, w'), v)"]
    by (simp add: input_filter_def lift_in_def lift_out_def)
  also have "\<dots> = Inr (True, m', io1, (?t, w'),
      v\<lparr>pending_counter := pending_counter v + of_nat (GetBranchCount t),
        drop_metrics := fm\<lparr>last_processed := last_processed fm + of_nat (failed_puts oks)\<rparr> # fms\<rparr>)"
    using assms(2) by (simp add: input_post_def GetLastTeeCount_def GetLastFailedCount_def)
  finally show ?thesis
    using o m' q g(4,5) by (intro exI [of _ oks]) (auto simp: wf_msg_def)
qed

lemma pub_round_end:
  assumes "0 < GetBranchCount t" and "ready io" and "pending io = []" and "wf_buf m"
  shows "\<exists>m' io'. Filter (flt wait) m (io, (t, w), v) = Inr (False, m', io', (t, w), v)"
proof -
  from src.get_at_end [OF assms(2-4)] obtain m' io' where g: "get m io = Inr (False, m', io')" by blast
  have "Filter (flt wait) m (io, (t, w), v) = input_post False m' (io', (t, w), v)"
    using g pre_passes [OF assms(1), of wait io w v]
      Filter_get_fails [of "flt wait" "(io, (t, w), v)" "(io, (t, w), v)" m m' "(io', (t, w), v)"]
    by (simp add: input_filter_def lift_in_def)
  then show ?thesis by (simp add: input_post_def)
qed

text \<open>
  The whole input: every queue has the payloads it took, in their order, after what it had; every
  payload counts once per branch as pending, and once per refusal as dropped.
\<close>

lemma pub_loop:
  assumes "0 < GetBranchCount t" and "drop_metrics v = fm # fms" and "ready io"
    and "\<forall>x \<in> set xs. fits x" and "pending io = concat (map frame xs)" and "wf_buf m"
  shows "\<exists>okss m' io' t' w'. length okss = length xs \<and>
    (\<forall>oks \<in> set okss. length oks = GetBranchCount t) \<and>
    FilterLoop (flt wait) m (io, (t, w), v) = Some (Inr (m', io', (t', w'),
      v\<lparr>pending_counter := pending_counter v + of_nat (GetBranchCount t * length xs),
        drop_metrics := fm\<lparr>last_processed :=
          last_processed fm + of_nat (sum_list (map failed_puts okss))\<rparr> # fms\<rparr>)) \<and>
    branch_map t' = branch_map t \<and>
    (\<forall>r. queue r w' = queue r w @ concat (map2 (tee_copies (branch_map t) r) xs okss))"
  using assms
proof (induction xs arbitrary: m io t w v fm)
  case Nil
  then obtain m' io' where "Filter (flt wait) m (io, (t, w), v) = Inr (False, m', io', (t, w), v)"
    using pub_round_end by fastforce
  note FilterLoop_stop [OF this]
  with Nil show ?case by simp
next
  case (Cons x xs)
  from Cons.prems have "pending io = frame x @ concat (map frame xs)" and "fits x" by auto
  with pub_round [OF Cons.prems(1-3), of x "concat (map frame xs)" m wait w] Cons.prems(6)
  obtain oks m1 io1 t1 w1 where o: "length oks = GetBranchCount t" and
    F: "Filter (flt wait) m (io, (t, w), v) = Inr (True, m1, io1, (t1, w1),
      v\<lparr>pending_counter := pending_counter v + of_nat (GetBranchCount t),
        drop_metrics := fm\<lparr>last_processed := last_processed fm + of_nat (failed_puts oks)\<rparr> # fms\<rparr>)"
      (is "_ = Inr (True, m1, io1, (t1, w1), ?v)") and
    r: "branch_map t1 = branch_map t" "wf_buf m1" "ready io1" "pending io1 = concat (map frame xs)" and
    q: "\<And>r. queue r w1 = queue r w @ tee_copies (branch_map t) r x oks" by blast
  have b: "GetBranchCount t1 = GetBranchCount t" using r(1) by (simp add: GetBranchCount_def)
  have "0 < GetBranchCount t1" and "\<forall>x \<in> set xs. fits x" using Cons.prems(1,4) b by auto
  from Cons.IH [OF this(1) _ r(3) this(2) r(4,2), where v = ?v and w = w1]
  obtain okss m' io' t' w' where os: "length okss = length xs"
    "\<forall>oks \<in> set okss. length oks = GetBranchCount t" "branch_map t' = branch_map t" and
    L: "FilterLoop (flt wait) m1 (io1, (t1, w1), ?v) = Some (Inr (m', io', (t', w'),
      ?v\<lparr>pending_counter := pending_counter ?v + of_nat (GetBranchCount t * length xs),
        drop_metrics := fm\<lparr>last_processed := last_processed fm + of_nat (failed_puts oks) +
          of_nat (sum_list (map failed_puts okss))\<rparr> # fms\<rparr>))" and
    q': "\<And>r. queue r w' = queue r w1 @ concat (map2 (tee_copies (branch_map t) r) xs okss)"
    unfolding b r(1) by force
  show ?case
    using FilterLoop_next [OF F] L o os q q'
    by (intro exI [of _ "oks # okss"] exI [of _ m'] exI [of _ io'] exI [of _ t'] exI [of _ w'])
      (simp add: algebra_simps)
qed

end

subsection \<open>The reference clock\<close>

definition ref_now :: "kworld pub_state \<Rightarrow> int \<times> kworld pub_state" where
  "ref_now s = (k_time (pub_world s), s)"

definition ref_sleep :: "(pub_vars \<Rightarrow> pub_vars) \<Rightarrow> kworld pub_state \<Rightarrow> kworld pub_state" where
  "ref_sleep act s =
     (case s of (io, (t, w), v) \<Rightarrow> (io, (t, w\<lparr>k_time := k_time w + 50000\<rparr>), act v))"

definition ref_time :: "kworld pub_state \<Rightarrow> int" where
  "ref_time s = k_time (pub_world s)"

interpretation ref_clock: wall_clock ref_now "ref_sleep act" ref_time for act
  by unfold_locales (auto simp: ref_now_def ref_time_def ref_sleep_def split: prod.split)

interpretation ref_pub_line: pub_input Line_Get "\<lambda>io. good (is_ptr io)" "\<lambda>io. rdbuf (is_ptr io)"
    line_frame line_fits "ref_ipc lim" ref_queue ref_now "ref_sleep act" ref_time for lim act
  by unfold_locales (simp add: line_fits_def)

interpretation ref_pub_length: pub_input Length_Get "\<lambda>io. good (is_ptr io)" "\<lambda>io. rdbuf (is_ptr io)"
    length_frame length_fits "ref_ipc lim" ref_queue ref_now "ref_sleep act" ref_time for lim act
  by unfold_locales (simp add: length_fits_def)

end
