(* ===== verification/Pub_System.thy ===== *)
theory Pub_System
  imports Pub_Main "HOL-Library.Multiset"
begin

text \<open>
  \<^verbatim>\<open>wissbi-pub\<close> with its threads interleaved: the main thread and the thread that reports metrics
  (\<^verbatim>\<open>src/pub.cpp\<close>), the connector thread and the producer threads it starts (\<^verbatim>\<open>src/connector.hpp\<close>). Each access to an object two threads share is a step
  of its own; the queues, the pending counter and the two sets are the shared objects.

  The tee's map and the set of producers are shared without a lock in the source. The model takes each
  access to them as atomic and lets a fan-out run over the branches there were when it began; what
  the unsynchronised accesses themselves may do is outside it.
\<close>

subsection \<open>State\<close>

datatype in_phase =
    Reading
  | Teeing string "string list" nat nat
  | Ended

text \<open>\<open>Teeing x ds c f\<close>: message, branches still to serve, branches served, refusals.\<close>

datatype conn_phase =
    Listing
  | Visiting "(string \<times> string) list"
  | Inserting string "(string \<times> string) list"

datatype prod_phase =
    Connecting
  | Waiting
  | Holding string
  | Sent
  | Ending
  | Finished

record producer =
  p_conn :: string
  p_dest :: string
  p_phase :: prod_phase

text \<open>
  The fields from \<open>given\<close> on are ghosts, pairs of a destination and a message: put in the queue by the
  fan-out, refused by the queue then, wholly written to a subscriber, put back after a failure, refused
  then, and the empty messages put in the queue after a failed receive. \<open>reported\<close> has the numbers of refusals that
  were sent as metrics.
\<close>

record pub_sys =
  sys_stdin :: "string list"
  sys_main :: in_phase
  sys_conn :: conn_phase
  sys_producers :: "producer list"
  sys_branches :: "string list"
  sys_known :: "string list"
  sys_queue :: "string \<Rightarrow> string list"
  sys_pending :: "32 word"
  sys_drops :: "32 word"
  given :: "(string \<times> string) list"
  refused :: "(string \<times> string) list"
  delivered :: "(string \<times> string) list"
  requeued :: "(string \<times> string) list"
  lost :: "(string \<times> string) list"
  injected :: "(string \<times> string) list"
  reported :: "32 word list"

definition pub_init :: "string list \<Rightarrow> (string \<Rightarrow> string list) \<Rightarrow> pub_sys" where
  "pub_init input q0 =
     \<lparr>sys_stdin = input, sys_main = Reading, sys_conn = Listing, sys_producers = [], sys_branches = [],
      sys_known = [], sys_queue = q0, sys_pending = 0, sys_drops = 0, given = [], refused = [],
      delivered = [], requeued = [], lost = [], injected = [], reported = []\<rparr>"

definition enqueue :: "string \<Rightarrow> string \<Rightarrow> pub_sys \<Rightarrow> pub_sys" where
  "enqueue d x s = s\<lparr>sys_queue := (sys_queue s)(d := sys_queue s d @ [x])\<rparr>"

subsection \<open>The main thread\<close>

datatype main_event = MRead | MEnd | MTee bool | MPost

text \<open>
  \<open>MTee ok\<close> is one branch of \<^verbatim>\<open>Tee::Put\<close>; \<open>MPost\<close> is the hook after the round.
\<close>

fun main_exec :: "main_event \<Rightarrow> pub_sys \<Rightarrow> pub_sys option" where
  "main_exec MRead s =
     (case (sys_main s, sys_stdin s) of
        (Reading, x # xs) \<Rightarrow>
          Some (s\<lparr>sys_stdin := xs, sys_main := Teeing x (sys_branches s) 0 0\<rparr>)
      | _ \<Rightarrow> None)"
| "main_exec MEnd s =
     (case (sys_main s, sys_stdin s) of
        (Reading, []) \<Rightarrow> Some (s\<lparr>sys_main := Ended\<rparr>)
      | _ \<Rightarrow> None)"
| "main_exec (MTee ok) s =
     (case sys_main s of
        Teeing x (d # ds) c f \<Rightarrow>
          if ok then
            Some ((enqueue d x s)\<lparr>sys_main := Teeing x ds (Suc c) f, given := given s @ [(d, x)]\<rparr>)
          else Some (s\<lparr>sys_main := Teeing x ds (Suc c) (Suc f), refused := refused s @ [(d, x)]\<rparr>)
      | _ \<Rightarrow> None)"
| "main_exec MPost s =
     (case sys_main s of
        Teeing x [] c f \<Rightarrow>
          Some (s\<lparr>sys_main := Reading, sys_pending := sys_pending s + of_nat c,
                  sys_drops := sys_drops s + of_nat f\<rparr>)
      | _ \<Rightarrow> None)"

text \<open>
  \<^verbatim>\<open>drop_metric_reporter.Report()\<close>, once a second: the counter of refusals is taken and set to 0, and sent if it was
  not 0 already.
\<close>

definition report_exec :: "pub_sys \<Rightarrow> pub_sys" where
  "report_exec s = s\<lparr>sys_drops := 0, reported := (if sys_drops s = 0 then reported s else reported s @ [sys_drops s])\<rparr>"

subsection \<open>The connector thread\<close>

text \<open>
  \<open>CList subs\<close>: the directory has the entries \<open>subs\<close>. \<open>CVisit\<close> skips a known subscriber, or makes sure
  of the branch and starts a thread; \<open>CInsert\<close> then enters the address in the set.
\<close>

datatype conn_event = CList "(string \<times> string) list" | CVisit | CInsert

fun conn_exec :: "conn_event \<Rightarrow> pub_sys \<Rightarrow> pub_sys option" where
  "conn_exec (CList subs) s =
     (case sys_conn s of
        Listing \<Rightarrow> Some (s\<lparr>sys_conn := Visiting subs\<rparr>)
      | _ \<Rightarrow> None)"
| "conn_exec CVisit s =
     (case sys_conn s of
        Visiting [] \<Rightarrow> Some (s\<lparr>sys_conn := Listing\<rparr>)
      | Visiting ((c, d) # subs) \<Rightarrow>
          if c \<in> set (sys_known s) then Some (s\<lparr>sys_conn := Visiting subs\<rparr>)
          else Some (s\<lparr>sys_conn := Inserting c subs,
                       sys_branches := (if d \<in> set (sys_branches s) then sys_branches s
                                        else sys_branches s @ [d]),
                       sys_producers := sys_producers s @
                         [\<lparr>p_conn = c, p_dest = d, p_phase = Connecting\<rparr>]\<rparr>)
      | _ \<Rightarrow> None)"
| "conn_exec CInsert s =
     (case sys_conn s of
        Inserting c subs \<Rightarrow>
          Some (s\<lparr>sys_conn := Visiting subs, sys_known := List.insert c (sys_known s)\<rparr>)
      | _ \<Rightarrow> None)"

subsection \<open>The producer threads\<close>

text \<open>
  \<open>PFail back\<close> is a failed \<^verbatim>\<open>TCP::Put\<close>, after which the message goes back to the queue, where \<open>back\<close> is the
  answer nobody looks at; \<open>PNoMsg back\<close> is a failed receive, after which the same code puts an empty
  message in the queue. A message without bytes cannot be sent.
\<close>

datatype prod_event = PConnect bool | PGet | PNoMsg bool | PSend | PFail bool | PCount | PErase

definition set_phase :: "nat \<Rightarrow> prod_phase \<Rightarrow> pub_sys \<Rightarrow> pub_sys" where
  "set_phase i ph s =
     s\<lparr>sys_producers := (sys_producers s)[i := (sys_producers s ! i)\<lparr>p_phase := ph\<rparr>]\<rparr>"

fun prod_exec_at :: "prod_event \<Rightarrow> nat \<Rightarrow> string \<Rightarrow> string \<Rightarrow> prod_phase \<Rightarrow> pub_sys \<Rightarrow> pub_sys option" where
  "prod_exec_at (PConnect ok) i c d Connecting s =
     Some (set_phase i (if ok then Waiting else Ending) s)"
| "prod_exec_at PGet i c d Waiting s =
     (case sys_queue s d of
        [] \<Rightarrow> None
      | x # xs \<Rightarrow> Some (set_phase i (Holding x) (s\<lparr>sys_queue := (sys_queue s)(d := xs)\<rparr>)))"
| "prod_exec_at (PNoMsg back) i c d Waiting s =
     Some (set_phase i Ending
       (if back then (enqueue d [] s)\<lparr>injected := injected s @ [(d, [])]\<rparr> else s))"
| "prod_exec_at PSend i c d (Holding x) s =
     (if x = [] then None else Some (set_phase i Sent (s\<lparr>delivered := delivered s @ [(d, x)]\<rparr>)))"
| "prod_exec_at (PFail back) i c d (Holding x) s =
     Some (set_phase i Ending
       (if back then (enqueue d x s)\<lparr>requeued := requeued s @ [(d, x)]\<rparr>
        else s\<lparr>lost := lost s @ [(d, x)]\<rparr>))"
| "prod_exec_at PCount i c d Sent s = Some (set_phase i Waiting (s\<lparr>sys_pending := sys_pending s - 1\<rparr>))"
| "prod_exec_at PErase i c d Ending s =
     Some (set_phase i Finished (s\<lparr>sys_known := filter (\<lambda>k. k \<noteq> c) (sys_known s)\<rparr>))"
| "prod_exec_at _ i c d _ s = None"

definition prod_exec :: "nat \<Rightarrow> prod_event \<Rightarrow> pub_sys \<Rightarrow> pub_sys option" where
  "prod_exec i e s =
     (if i < length (sys_producers s) then
        let p = sys_producers s ! i in prod_exec_at e i (p_conn p) (p_dest p) (p_phase p) s
      else None)"

text \<open>What evaluates a run of given events.\<close>

lemmas sys_eval = pub_init_def prod_exec_def Let_def set_phase_def enqueue_def

subsection \<open>Runs\<close>

datatype event = Main main_event | Reporter | Conn conn_event | Prod nat prod_event

fun sys_exec :: "event \<Rightarrow> pub_sys \<Rightarrow> pub_sys option" where
  "sys_exec (Main e) s = main_exec e s"
| "sys_exec Reporter s = Some (report_exec s)"
| "sys_exec (Conn e) s = conn_exec e s"
| "sys_exec (Prod i e) s = prod_exec i e s"

fun sys_run :: "event list \<Rightarrow> pub_sys \<Rightarrow> pub_sys option" where
  "sys_run [] s = Some s"
| "sys_run (e # es) s = (case sys_exec e s of None \<Rightarrow> None | Some s' \<Rightarrow> sys_run es s')"

inductive pub_step :: "pub_sys \<Rightarrow> pub_sys \<Rightarrow> bool" where
  main: "main_exec e s = Some s' \<Longrightarrow> pub_step s s'"
| reporter: "pub_step s (report_exec s)"
| conn: "conn_exec e s = Some s' \<Longrightarrow> pub_step s s'"
| prod: "prod_exec i e s = Some s' \<Longrightarrow> pub_step s s'"

inductive pub_steps :: "pub_sys \<Rightarrow> pub_sys \<Rightarrow> bool" where
  refl: "pub_steps s s"
| step: "pub_steps s s' \<Longrightarrow> pub_step s' s'' \<Longrightarrow> pub_steps s s''"

inductive_cases pub_stepE: "pub_step s s'"

lemma sys_exec_step: "sys_exec e s = Some s' \<Longrightarrow> pub_step s s'"
  by (cases e) (auto intro: pub_step.intros)

lemma pub_steps_trans:
  assumes "pub_steps a b" and "pub_steps b c"
  shows "pub_steps a c"
  using assms(2,1) by induction (auto intro: pub_steps.intros)

lemma pub_steps_head: "pub_step a b \<Longrightarrow> pub_steps b c \<Longrightarrow> pub_steps a c"
  by (blast intro: pub_steps.intros pub_steps_trans)

lemma sys_run_steps: "sys_run es s = Some s' \<Longrightarrow> pub_steps s s'"
proof (induction es arbitrary: s)
  case Nil
  then show ?case by (simp add: pub_steps.refl)
next
  case (Cons e es)
  then obtain s1 where "sys_exec e s = Some s1" "sys_run es s1 = Some s'"
    by (auto split: option.splits)
  with Cons.IH sys_exec_step show ?case by (blast intro: pub_steps_head)
qed

lemma pub_steps_invariant:
  assumes "pub_steps s s'" and "P s" and "\<And>s s'. P s \<Longrightarrow> pub_step s s' \<Longrightarrow> P s'"
  shows "P s'"
  using assms by induction auto

subsection \<open>Accounting\<close>

text \<open>What the producers have in hand, as lists over all of them.\<close>

definition held_by :: "producer \<Rightarrow> (string \<times> string) list" where
  "held_by p = (case p_phase p of Holding x \<Rightarrow> [(p_dest p, x)] | _ \<Rightarrow> [])"

definition uncounted_by :: "producer \<Rightarrow> unit list" where
  "uncounted_by p = (if p_phase p = Sent then [()] else [])"

definition gather :: "(producer \<Rightarrow> 'a list) \<Rightarrow> pub_sys \<Rightarrow> 'a multiset" where
  "gather f s = mset (concat (map f (sys_producers s)))"

abbreviation held :: "pub_sys \<Rightarrow> (string \<times> string) multiset" where
  "held \<equiv> gather held_by"

abbreviation uncounted :: "pub_sys \<Rightarrow> unit multiset" where
  "uncounted \<equiv> gather uncounted_by"

definition in_hand :: "in_phase \<Rightarrow> nat" where
  "in_hand ph = (case ph of Teeing x ds c f \<Rightarrow> c | _ \<Rightarrow> 0)"

lemma mset_concat_update:
  "i < length ps \<Longrightarrow>
     mset (concat (map f (ps[i := q]))) + mset (f (ps ! i)) = mset (concat (map f ps)) + mset (f q)"
  by (induction ps arbitrary: i) (auto simp: less_Suc_eq_0_disj ac_simps)

lemma set_phase_sel [simp]:
  "sys_stdin (set_phase i ph s) = sys_stdin s" "sys_main (set_phase i ph s) = sys_main s"
  "sys_conn (set_phase i ph s) = sys_conn s" "sys_branches (set_phase i ph s) = sys_branches s"
  "sys_known (set_phase i ph s) = sys_known s" "sys_queue (set_phase i ph s) = sys_queue s"
  "sys_pending (set_phase i ph s) = sys_pending s" "sys_drops (set_phase i ph s) = sys_drops s"
  "given (set_phase i ph s) = given s" "refused (set_phase i ph s) = refused s"
  "delivered (set_phase i ph s) = delivered s" "requeued (set_phase i ph s) = requeued s"
  "lost (set_phase i ph s) = lost s" "injected (set_phase i ph s) = injected s" "reported (set_phase i ph s) = reported s"
  "sys_producers (set_phase i ph s) =
     (sys_producers s)[i := (sys_producers s ! i)\<lparr>p_phase := ph\<rparr>]"
  by (simp_all add: set_phase_def)

lemma enqueue_sel [simp]:
  "sys_stdin (enqueue d x s) = sys_stdin s" "sys_main (enqueue d x s) = sys_main s"
  "sys_conn (enqueue d x s) = sys_conn s" "sys_branches (enqueue d x s) = sys_branches s"
  "sys_known (enqueue d x s) = sys_known s" "sys_producers (enqueue d x s) = sys_producers s"
  "sys_queue (enqueue d x s) = (sys_queue s)(d := sys_queue s d @ [x])"
  "sys_pending (enqueue d x s) = sys_pending s" "sys_drops (enqueue d x s) = sys_drops s"
  "given (enqueue d x s) = given s" "refused (enqueue d x s) = refused s"
  "delivered (enqueue d x s) = delivered s" "requeued (enqueue d x s) = requeued s"
  "lost (enqueue d x s) = lost s" "injected (enqueue d x s) = injected s" "reported (enqueue d x s) = reported s"
  by (simp_all add: enqueue_def)

lemma report_exec_sel [simp]:
  "sys_stdin (report_exec s) = sys_stdin s" "sys_main (report_exec s) = sys_main s"
  "sys_conn (report_exec s) = sys_conn s" "sys_branches (report_exec s) = sys_branches s"
  "sys_known (report_exec s) = sys_known s" "sys_producers (report_exec s) = sys_producers s"
  "sys_queue (report_exec s) = sys_queue s" "sys_pending (report_exec s) = sys_pending s"
  "sys_drops (report_exec s) = 0" "sum_list (reported (report_exec s)) = sum_list (reported s) + sys_drops s"
  "given (report_exec s) = given s" "refused (report_exec s) = refused s"
  "delivered (report_exec s) = delivered s" "requeued (report_exec s) = requeued s"
  "lost (report_exec s) = lost s" "injected (report_exec s) = injected s"
  "gather f (report_exec s) = gather f s"
  by (simp_all add: report_exec_def gather_def)

fun_cases prod_exec_atE: "prod_exec_at e i c d ph s = Some s'"

text \<open>The steps of a producer, one case each.\<close>

lemma prod_exec_cases:
  assumes "prod_exec i e s = Some s'"
  obtains (Connect) ok where "i < length (sys_producers s)" "p_phase (sys_producers s ! i) = Connecting"
      "s' = set_phase i (if ok then Waiting else Ending) s"
  | (Get) x xs where "i < length (sys_producers s)" "p_phase (sys_producers s ! i) = Waiting"
      "sys_queue s (p_dest (sys_producers s ! i)) = x # xs"
      "s' = set_phase i (Holding x)
         (s\<lparr>sys_queue := (sys_queue s)(p_dest (sys_producers s ! i) := xs)\<rparr>)"
  | (NoMsg) b where "i < length (sys_producers s)" "p_phase (sys_producers s ! i) = Waiting"
      "s' = set_phase i Ending
         (if b then (enqueue (p_dest (sys_producers s ! i)) [] s)
            \<lparr>injected := injected s @ [(p_dest (sys_producers s ! i), [])]\<rparr> else s)"
  | (Send) x where "i < length (sys_producers s)" "p_phase (sys_producers s ! i) = Holding x" "x \<noteq> []"
      "s' = set_phase i Sent (s\<lparr>delivered := delivered s @ [(p_dest (sys_producers s ! i), x)]\<rparr>)"
  | (Fail) x b where "i < length (sys_producers s)" "p_phase (sys_producers s ! i) = Holding x"
      "s' = set_phase i Ending
         (if b then (enqueue (p_dest (sys_producers s ! i)) x s)
            \<lparr>requeued := requeued s @ [(p_dest (sys_producers s ! i), x)]\<rparr>
          else s\<lparr>lost := lost s @ [(p_dest (sys_producers s ! i), x)]\<rparr>)"
  | (Count) "i < length (sys_producers s)" "p_phase (sys_producers s ! i) = Sent"
      "s' = set_phase i Waiting (s\<lparr>sys_pending := sys_pending s - 1\<rparr>)"
  | (Erase) "i < length (sys_producers s)" "p_phase (sys_producers s ! i) = Ending"
      "s' = set_phase i Finished
         (s\<lparr>sys_known := filter (\<lambda>k. k \<noteq> p_conn (sys_producers s ! i)) (sys_known s)\<rparr>)"
proof -
  from assms have i: "i < length (sys_producers s)"
    and e: "prod_exec_at e i (p_conn (sys_producers s ! i)) (p_dest (sys_producers s ! i))
      (p_phase (sys_producers s ! i)) s = Some s'"
    by (auto simp: prod_exec_def Let_def split: if_splits)
  from e show thesis
    by (rule prod_exec_atE) (auto split: list.splits if_splits intro: that [OF i])
qed

text \<open>What a step changes of its producer and of the connector's set.\<close>

lemma prod_exec_phase:
  assumes "prod_exec i e s = Some s'"
  obtains ph where "i < length (sys_producers s)" "p_phase (sys_producers s ! i) \<noteq> Finished"
    "sys_producers s' = (sys_producers s)[i := (sys_producers s ! i)\<lparr>p_phase := ph\<rparr>]"
    "sys_known s' = (if ph = Finished
       then filter (\<lambda>k. k \<noteq> p_conn (sys_producers s ! i)) (sys_known s) else sys_known s)"
    "sys_conn s' = sys_conn s" "sys_branches s' = sys_branches s"
  using assms by (cases rule: prod_exec_cases) (auto split: if_splits)

lemma prod_exec_gather:
  assumes "prod_exec i e s = Some s'"
  shows "gather f s' + mset (f (sys_producers s ! i)) = gather f s + mset (f (sys_producers s' ! i))"
proof -
  from assms obtain ph where "i < length (sys_producers s)"
    "sys_producers s' = (sys_producers s)[i := (sys_producers s ! i)\<lparr>p_phase := ph\<rparr>]"
    by (rule prod_exec_phase)
  with mset_concat_update show ?thesis by (simp add: gather_def)
qed

subsection \<open>No message appears or vanishes unrecorded\<close>

definition conserved :: "(string \<Rightarrow> string list) \<Rightarrow> pub_sys \<Rightarrow> bool" where
  "conserved q0 s \<longleftrightarrow> (\<forall>d x.
     count (mset (q0 d)) x + count (mset (given s)) (d, x) + count (mset (injected s)) (d, x) =
     count (mset (sys_queue s d)) x + count (held s) (d, x) +
       count (mset (delivered s)) (d, x) + count (mset (lost s)) (d, x))"

lemma conserved_init: "conserved q0 (pub_init input q0)"
  by (simp add: conserved_def pub_init_def gather_def)

lemma conserved_main:
  assumes "main_exec e s = Some s'" and "conserved q0 s"
  shows "conserved q0 s'"
proof -
  have "gather held_by s' = gather held_by s"
    using assms(1) by (cases e) (auto simp: gather_def split: in_phase.splits list.splits if_splits)
  with assms show ?thesis
    by (cases e) (auto simp: conserved_def split: in_phase.splits list.splits if_splits)
qed

lemma conn_exec_keeps:
  assumes "conn_exec e s = Some s'"
  shows "sys_main s' = sys_main s" "sys_queue s' = sys_queue s" "sys_pending s' = sys_pending s"
    "sys_drops s' = sys_drops s" "given s' = given s" "refused s' = refused s"
    "delivered s' = delivered s" "requeued s' = requeued s" "lost s' = lost s"
    "injected s' = injected s" "reported s' = reported s"
  using assms by (cases e; auto split: conn_phase.splits list.splits if_splits)+

lemma conserved_conn:
  assumes "conn_exec e s = Some s'" and "conserved q0 s"
  shows "conserved q0 s'"
proof -
  have "gather held_by s' = gather held_by s"
    using assms(1)
    by (cases e) (auto simp: gather_def held_by_def split: conn_phase.splits list.splits if_splits)
  with conn_exec_keeps [OF assms(1)] assms(2) show ?thesis by (simp add: conserved_def)
qed

lemma conserved_prod:
  assumes "prod_exec i e s = Some s'" and "conserved q0 s"
  shows "conserved q0 s'"
  unfolding conserved_def
proof (intro allI)
  fix d x
  have h: "count (held s') (d, x) + count (mset (held_by (sys_producers s ! i))) (d, x) =
      count (held s) (d, x) + count (mset (held_by (sys_producers s' ! i))) (d, x)"
    using prod_exec_gather [OF assms(1), of held_by] by (metis count_union)
  have c: "count (mset (q0 d)) x + count (mset (given s)) (d, x) + count (mset (injected s)) (d, x) =
      count (mset (sys_queue s d)) x + count (held s) (d, x) +
      count (mset (delivered s)) (d, x) + count (mset (lost s)) (d, x)"
    using assms(2) unfolding conserved_def by blast
  show "count (mset (q0 d)) x + count (mset (given s')) (d, x) + count (mset (injected s')) (d, x) =
      count (mset (sys_queue s' d)) x + count (held s') (d, x) +
      count (mset (delivered s')) (d, x) + count (mset (lost s')) (d, x)"
    using assms(1) h c
    by (cases rule: prod_exec_cases) (auto simp: held_by_def split: if_splits)
qed

lemma conserved_report: "conserved q0 s \<Longrightarrow> conserved q0 (report_exec s)"
  by (simp add: conserved_def)

lemma conserved_step: "conserved q0 s \<Longrightarrow> pub_step s s' \<Longrightarrow> conserved q0 s'"
  by (erule pub_stepE) (auto intro: conserved_main conserved_conn conserved_prod conserved_report)

lemma conserved_steps: "pub_steps (pub_init input q0) s \<Longrightarrow> conserved q0 s"
  by (erule pub_steps_invariant) (auto intro: conserved_init conserved_step)

subsection \<open>The pending counter\<close>

definition in_refused :: "in_phase \<Rightarrow> nat" where
  "in_refused ph = (case ph of Teeing x ds c f \<Rightarrow> f | _ \<Rightarrow> 0)"

text \<open>
  The counter is the number of copies made, taken or refused, less the number sent, up to the fan-out
  under way and the sends not yet counted. Only messages with bytes are sent, only empty ones injected.
\<close>

definition pending_exact :: "pub_sys \<Rightarrow> bool" where
  "pending_exact s \<longleftrightarrow>
     sys_pending s + of_nat (in_hand (sys_main s)) + of_nat (length (delivered s)) =
       of_nat (length (given s) + length (refused s)) + of_nat (size (uncounted s)) \<and>
     sys_drops s + sum_list (reported s) + of_nat (in_refused (sys_main s)) = of_nat (length (refused s)) \<and>
     list_all (\<lambda>dx. snd dx \<noteq> []) (delivered s) \<and> list_all (\<lambda>dx. snd dx = []) (injected s)"

lemma pending_exact_init: "pending_exact (pub_init input q0)"
  by (simp add: pending_exact_def pub_init_def gather_def in_hand_def in_refused_def)

lemma pending_exact_main:
  assumes "main_exec e s = Some s'" and "pending_exact s"
  shows "pending_exact s'"
proof -
  have "uncounted s' = uncounted s"
    using assms(1) by (cases e) (auto simp: gather_def split: in_phase.splits list.splits if_splits)
  with assms show ?thesis
    by (cases e)
      (simp_all add: pending_exact_def in_hand_def in_refused_def algebra_simps
        split: in_phase.splits list.splits if_splits, auto simp: ac_simps)
qed

lemma pending_exact_conn:
  assumes "conn_exec e s = Some s'" and "pending_exact s"
  shows "pending_exact s'"
proof -
  have "uncounted s' = uncounted s"
    using assms(1)
    by (cases e) (auto simp: gather_def uncounted_by_def split: conn_phase.splits list.splits if_splits)
  with conn_exec_keeps [OF assms(1)] assms(2) show ?thesis by (simp add: pending_exact_def)
qed

lemma pending_exact_prod:
  assumes "prod_exec i e s = Some s'" and "pending_exact s"
  shows "pending_exact s'"
proof -
  have u: "of_nat (size (uncounted s')) + of_nat (length (uncounted_by (sys_producers s ! i))) =
      (of_nat (size (uncounted s)) + of_nat (length (uncounted_by (sys_producers s' ! i))) :: 32 word)"
    using arg_cong [OF prod_exec_gather [OF assms(1), of uncounted_by], of size]
    by (simp flip: of_nat_add)
  show ?thesis
    using assms(1) u assms(2)
    by (cases rule: prod_exec_cases)
      (simp_all add: pending_exact_def uncounted_by_def algebra_simps split: if_splits)
qed

lemma pending_exact_report: "pending_exact s \<Longrightarrow> pending_exact (report_exec s)"
  by (simp add: pending_exact_def ac_simps)

lemma pending_exact_step: "pending_exact s \<Longrightarrow> pub_step s s' \<Longrightarrow> pending_exact s'"
  by (erule pub_stepE) (auto intro: pending_exact_main pending_exact_conn pending_exact_prod pending_exact_report)

lemma pending_exact_steps: "pub_steps (pub_init input q0) s \<Longrightarrow> pending_exact s"
  by (erule pub_steps_invariant) (auto intro: pending_exact_init pending_exact_step)

text \<open>
  Once the input has ended, and as long as the numbers are below the counter's width, the counter is 0
  exactly when every copy was taken by its queue and has reached a subscriber, and has been counted.
\<close>

lemma size_uncounted: "size (uncounted s) \<le> length (sys_producers s)"
proof -
  have "length (concat (map uncounted_by ps)) \<le> length ps" for ps :: "producer list"
    by (induction ps) (auto simp: uncounted_by_def)
  then show ?thesis by (simp add: gather_def)
qed

lemma delivered_subset:
  assumes "conserved (\<lambda>_. []) s" and "pending_exact s"
  shows "mset (delivered s) \<subseteq># mset (given s)"
proof (rule mset_subset_eqI)
  fix dx :: "string \<times> string"
  obtain d x where dx: "dx = (d, x)" by force
  show "count (mset (delivered s)) dx \<le> count (mset (given s)) dx"
  proof (cases "x = []")
    case True
    with assms(2) have "dx \<notin> set (delivered s)" by (force simp: pending_exact_def dx list_all_iff)
    then have "count (mset (delivered s)) dx = 0" by (simp add: count_eq_zero_iff)
    then show ?thesis by linarith
  next
    case False
    with assms(2) have "dx \<notin> set (injected s)" by (force simp: pending_exact_def dx list_all_iff)
    then have "count (mset (injected s)) (d, x) = 0" by (simp add: count_eq_zero_iff dx)
    moreover from assms(1) have "count (mset []) x + count (mset (given s)) (d, x) +
        count (mset (injected s)) (d, x) = count (mset (sys_queue s d)) x + count (held s) (d, x) +
        count (mset (delivered s)) (d, x) + count (mset (lost s)) (d, x)"
      unfolding conserved_def by blast
    moreover have "count (mset []) x = 0" by simp
    ultimately show ?thesis unfolding dx by linarith
  qed
qed

lemma word32_eq_nat:
  assumes "of_nat a = (of_nat b :: 32 word)" and "a < 2 ^ 32" and "b < 2 ^ 32"
  shows "a = b"
  using arg_cong [OF assms(1), of unat] assms(2,3) by (simp add: unat_of_nat)

lemma pending_zero_iff:
  assumes "conserved (\<lambda>_. []) s" and "pending_exact s" and "sys_main s = Ended"
    and "length (given s) + length (refused s) + length (sys_producers s) < 2 ^ 32"
  shows "sys_pending s = 0 \<longleftrightarrow>
    refused s = [] \<and> mset (delivered s) = mset (given s) \<and> uncounted s = {#}"
proof
  note sub = delivered_subset [OF assms(1,2)]
  from size_mset_mono [OF sub] have le: "length (delivered s) \<le> length (given s)" by simp
  assume "sys_pending s = 0"
  with assms(2,3) have "of_nat (length (delivered s)) =
      (of_nat (length (given s) + length (refused s) + size (uncounted s)) :: 32 word)"
    by (simp add: pending_exact_def in_hand_def)
  then have "length (delivered s) = length (given s) + length (refused s) + size (uncounted s)"
    using le assms(4) size_uncounted [of s] by (intro word32_eq_nat) auto
  with le have "refused s = []" and "uncounted s = {#}"
    and "size (mset (given s)) \<le> size (mset (delivered s))" by auto
  with sub show "refused s = [] \<and> mset (delivered s) = mset (given s) \<and> uncounted s = {#}"
    by (metis leD mset_subset_size subset_mset.le_imp_less_or_eq)
next
  assume r: "refused s = [] \<and> mset (delivered s) = mset (given s) \<and> uncounted s = {#}"
  then have "length (delivered s) = length (given s)" by (metis size_mset)
  with r assms(2,3) show "sys_pending s = 0" by (simp add: pending_exact_def in_hand_def)
qed

subsection \<open>One producer per subscriber\<close>

definition live_by :: "string \<Rightarrow> producer \<Rightarrow> unit list" where
  "live_by c p = (if p_conn p = c \<and> p_phase p \<noteq> Finished then [()] else [])"

definition live :: "string \<Rightarrow> pub_sys \<Rightarrow> nat" where
  "live c s = size (gather (live_by c) s)"

text \<open>A thread that has not ended is known to the connector, or about to be.\<close>

definition slot :: "string \<Rightarrow> pub_sys \<Rightarrow> nat" where
  "slot c s = (if c \<in> set (sys_known s) then 1
     else case sys_conn s of Inserting k subs \<Rightarrow> if k = c then 1 else 0 | _ \<Rightarrow> 0)"

definition known_inv :: "pub_sys \<Rightarrow> bool" where
  "known_inv s \<longleftrightarrow>
     (\<forall>c. live c s \<le> slot c s) \<and>
     (\<forall>p \<in> set (sys_producers s). p_dest p \<in> set (sys_branches s)) \<and>
     distinct (sys_branches s) \<and> distinct (sys_known s)"

lemma known_inv_live: "known_inv s \<Longrightarrow> live c s \<le> slot c s"
  by (simp add: known_inv_def)

lemma live_conv: "live c s = length (concat (map (live_by c) (sys_producers s)))"
  by (simp add: live_def gather_def)

lemma live_filter:
  "live c s = length (filter (\<lambda>p. p_conn p = c \<and> p_phase p \<noteq> Finished) (sys_producers s))"
proof -
  have "length (concat (map (live_by c) ps)) =
      length (filter (\<lambda>p. p_conn p = c \<and> p_phase p \<noteq> Finished) ps)" for ps :: "producer list"
    by (induction ps) (auto simp: live_by_def)
  then show ?thesis by (simp add: live_conv)
qed

lemma slot_le_1: "slot c s \<le> 1"
  by (simp add: slot_def split: conn_phase.split)

lemma live_update:
  assumes "i < length ps"
  shows "length (concat (map (live_by c) (ps[i := q]))) + length (live_by c (ps ! i)) =
    length (concat (map (live_by c) ps)) + length (live_by c q)"
  using arg_cong [OF mset_concat_update [OF assms, of "live_by c" q], of size] by simp

lemma main_exec_keeps:
  assumes "main_exec e s = Some s'"
  shows "sys_conn s' = sys_conn s" "sys_producers s' = sys_producers s" "sys_known s' = sys_known s"
    "sys_branches s' = sys_branches s" "delivered s' = delivered s" "requeued s' = requeued s"
    "lost s' = lost s" "injected s' = injected s"
  using assms by (cases e; auto split: in_phase.splits list.splits if_splits)+

lemma prod_exec_live:
  assumes "prod_exec i e s = Some s'"
  shows "live c s' \<le> live c s"
    and "c \<in> set (sys_known s) \<Longrightarrow> c \<notin> set (sys_known s') \<Longrightarrow> Suc (live c s') = live c s"
proof -
  from assms obtain ph where p: "i < length (sys_producers s)"
    "p_phase (sys_producers s ! i) \<noteq> Finished"
    "sys_producers s' = (sys_producers s)[i := (sys_producers s ! i)\<lparr>p_phase := ph\<rparr>]"
    and k: "sys_known s' = (if ph = Finished
       then filter (\<lambda>k. k \<noteq> p_conn (sys_producers s ! i)) (sys_known s) else sys_known s)"
    by (rule prod_exec_phase)
  have l: "live c s' + length (live_by c (sys_producers s ! i)) =
      live c s + length (live_by c ((sys_producers s ! i)\<lparr>p_phase := ph\<rparr>))"
    using live_update [OF p(1)] by (simp add: live_conv p(3))
  then show "live c s' \<le> live c s" using p(2) by (simp add: live_by_def split: if_splits)
  show "Suc (live c s') = live c s" if "c \<in> set (sys_known s)" "c \<notin> set (sys_known s')"
  proof -
    from that k have "ph = Finished" "p_conn (sys_producers s ! i) = c" by (auto split: if_splits)
    with l p(2) show ?thesis by (simp add: live_by_def)
  qed
qed

lemma prod_exec_dests:
  assumes "prod_exec i e s = Some s'"
  shows "map p_dest (sys_producers s') = map p_dest (sys_producers s)"
  using assms by (rule prod_exec_phase) (simp add: map_update list_update_same_conv)

text \<open>The steps of the connector, one case each.\<close>

lemma conn_exec_cases:
  assumes "conn_exec e s = Some s'"
  obtains (Quiet) ph where "sys_conn s' = ph" "\<nexists>c subs. sys_conn s = Inserting c subs"
      "\<nexists>c subs. ph = Inserting c subs" "s' = s\<lparr>sys_conn := ph\<rparr>"
  | (Spawn) c d subs where "sys_conn s = Visiting ((c, d) # subs)" "c \<notin> set (sys_known s)"
      "s' = s\<lparr>sys_conn := Inserting c subs,
              sys_branches := (if d \<in> set (sys_branches s) then sys_branches s
                               else sys_branches s @ [d]),
              sys_producers := sys_producers s @ [\<lparr>p_conn = c, p_dest = d, p_phase = Connecting\<rparr>]\<rparr>"
  | (Insert) c subs where "sys_conn s = Inserting c subs"
      "s' = s\<lparr>sys_conn := Visiting subs, sys_known := List.insert c (sys_known s)\<rparr>"
  using assms
proof (cases e)
  case CVisit
  then show thesis
    using assms Quiet [of "sys_conn s'"] Spawn
    by (auto split: conn_phase.splits list.splits if_splits)
qed (auto split: conn_phase.splits intro: that)

lemma known_inv_conn:
  assumes "conn_exec e s = Some s'" and "known_inv s"
  shows "known_inv s'"
  using assms(1)
proof (cases rule: conn_exec_cases)
  case (Quiet ph)
  then have "slot c s = slot c s'" for c by (auto simp: slot_def split: conn_phase.splits)
  with Quiet assms(2) show ?thesis by (simp add: known_inv_def live_conv)
next
  case (Spawn c d subs)
  have "live k s' = live k s + (if k = c then 1 else 0)" for k
    using Spawn(3) by (simp add: live_conv live_by_def)
  moreover have "slot k s' = slot k s + (if k = c then 1 else 0)" for k
    using Spawn by (simp add: slot_def)
  ultimately have "live k s' \<le> slot k s'" for k using known_inv_live [OF assms(2)] by simp
  with Spawn(3) assms(2) show ?thesis by (auto simp: known_inv_def)
next
  case (Insert c subs)
  then have "slot k s' = slot k s" and "live k s' = live k s" for k
    by (auto simp: slot_def live_conv)
  with Insert(2) assms(2) show ?thesis by (simp add: known_inv_def)
qed

lemma known_inv_prod:
  assumes "prod_exec i e s = Some s'" and "known_inv s"
  shows "known_inv s'"
proof -
  from assms(1) obtain ph where k: "sys_known s' = (if ph = Finished
       then filter (\<lambda>k. k \<noteq> p_conn (sys_producers s ! i)) (sys_known s) else sys_known s)"
    and p: "sys_conn s' = sys_conn s" "sys_branches s' = sys_branches s" by (rule prod_exec_phase)
  have "live c s' \<le> slot c s'" for c
  proof (cases "c \<in> set (sys_known s) \<and> c \<notin> set (sys_known s')")
    case True
    then have "slot c s = 1" by (simp add: slot_def)
    with True known_inv_live [OF assms(2), of c] prod_exec_live(2) [OF assms(1), of c]
    show ?thesis by simp
  next
    case False
    then have "slot c s' = slot c s" using k p(1) by (auto simp: slot_def split: if_splits)
    then show ?thesis
      using known_inv_live [OF assms(2), of c] prod_exec_live(1) [OF assms(1), of c] by simp
  qed
  moreover have "p_dest ` set (sys_producers s') = p_dest ` set (sys_producers s)"
    using prod_exec_dests [OF assms(1)] by (metis list.set_map)
  then have "\<forall>q \<in> set (sys_producers s'). p_dest q \<in> set (sys_branches s')"
    using assms(2) p(2) unfolding known_inv_def by (metis imageE imageI)
  moreover have "distinct (sys_known s')" using assms(2) k by (simp add: known_inv_def)
  ultimately show ?thesis using assms(2) p(2) by (simp add: known_inv_def)
qed

lemma known_inv_step: "known_inv s \<Longrightarrow> pub_step s s' \<Longrightarrow> known_inv s'"
proof (erule pub_stepE)
  show "known_inv s'" if "known_inv s" and "main_exec e s = Some s'" for e
  proof -
    note k = main_exec_keeps [OF that(2)]
    then have "slot c s' = slot c s" for c by (simp add: slot_def)
    with k that(1) show ?thesis by (simp add: known_inv_def live_conv)
  qed
  show "known_inv s'" if "known_inv s" and "s' = report_exec s"
    using that by (simp add: known_inv_def live_conv slot_def cong: if_cong del: if_split)
qed (auto intro: known_inv_conn known_inv_prod)

lemma known_inv_init: "known_inv (pub_init input q0)"
  by (simp add: known_inv_def pub_init_def live_def gather_def)

lemma known_inv_steps: "pub_steps (pub_init input q0) s \<Longrightarrow> known_inv s"
  by (erule pub_steps_invariant) (auto intro: known_inv_init known_inv_step)

lemma known_inv_one_producer:
  "known_inv s \<Longrightarrow>
     length (filter (\<lambda>p. p_conn p = c \<and> p_phase p \<noteq> Finished) (sys_producers s)) \<le> 1"
  using known_inv_live [of s c] slot_le_1 [of c s] by (simp add: live_filter)

lemma known_inv_producer:
  assumes "known_inv s"
  shows "(\<forall>p \<in> set (sys_producers s). p_dest p \<in> set (sys_branches s) \<and>
       (p_phase p \<noteq> Finished \<longrightarrow>
          p_conn p \<in> set (sys_known s) \<or> (\<exists>subs. sys_conn s = Inserting (p_conn p) subs))) \<and>
    distinct (sys_branches s)"
proof -
  have "p_conn p \<in> set (sys_known s) \<or> (\<exists>subs. sys_conn s = Inserting (p_conn p) subs)"
    if "p \<in> set (sys_producers s)" and "p_phase p \<noteq> Finished" for p
  proof -
    have "live (p_conn p) s \<noteq> 0" using that by (auto simp: live_filter filter_empty_conv)
    then show ?thesis
      using known_inv_live [OF assms, of "p_conn p"]
      by (auto simp: slot_def split: if_splits conn_phase.splits)
  qed
  then show ?thesis using assms by (auto simp: known_inv_def)
qed

text \<open>
  A producer that ends before the connector has entered its address in the set leaves the address there
  with no thread behind it. Nothing takes it out again.
\<close>

definition stuck :: "string \<Rightarrow> pub_sys \<Rightarrow> bool" where
  "stuck c s \<longleftrightarrow> c \<in> set (sys_known s) \<and> live c s = 0"

lemma stuck_step: "stuck c s \<Longrightarrow> pub_step s s' \<Longrightarrow> stuck c s'"
proof (erule pub_stepE)
  show "stuck c s'" if "stuck c s" and "main_exec e s = Some s'" for e
    using main_exec_keeps [OF that(2)] that(1) by (simp add: stuck_def live_conv)
  show "stuck c s'" if "stuck c s" and "conn_exec e s = Some s'" for e
    using that(2,1)
    by (cases rule: conn_exec_cases) (auto simp: stuck_def live_conv live_by_def)
  show "stuck c s'" if "stuck c s" and "prod_exec i e s = Some s'" for i e
    using prod_exec_live [OF that(2), of c] that(1) by (auto simp: stuck_def)
qed (simp add: stuck_def live_conv)

lemma stuck_steps: "pub_steps s s' \<Longrightarrow> stuck c s \<Longrightarrow> stuck c s'"
  by (erule pub_steps_invariant) (auto intro: stuck_step)

definition stuck_race :: "string \<Rightarrow> string \<Rightarrow> event list" where
  "stuck_race c d =
     [Conn (CList [(c, d)]), Conn CVisit, Prod 0 (PConnect False), Prod 0 PErase, Conn CInsert]"

lemma stuck_race_runs: "\<exists>s. sys_run (stuck_race c d) (pub_init input q0) = Some s \<and> stuck c s"
  by (simp add: stuck_race_def sys_eval stuck_def live_conv live_by_def)

subsection \<open>Order\<close>

definition of_dest :: "string \<Rightarrow> (string \<times> string) list \<Rightarrow> string list" where
  "of_dest d l = map snd (filter (\<lambda>dx. fst dx = d) l)"

text \<open>What has gone to a destination, is on its way, and waits, in this order.\<close>

definition flow :: "string \<Rightarrow> pub_sys \<Rightarrow> string list" where
  "flow d s = of_dest d (delivered s) @ of_dest d (concat (map held_by (sys_producers s))) @ sys_queue s d"

definition undisturbed :: "string \<Rightarrow> pub_sys \<Rightarrow> bool" where
  "undisturbed d s \<longleftrightarrow>
     length (filter (\<lambda>p. p_dest p = d) (sys_producers s)) \<le> 1 \<and>
     of_dest d (requeued s) = [] \<and> of_dest d (lost s) = [] \<and> of_dest d (injected s) = []"

definition in_order :: "(string \<Rightarrow> string list) \<Rightarrow> string \<Rightarrow> pub_sys \<Rightarrow> bool" where
  "in_order q0 d s \<longleftrightarrow> (undisturbed d s \<longrightarrow> flow d s = q0 d @ of_dest d (given s))"

lemma of_dest_simps [simp]:
  "of_dest d [] = []" "of_dest d (a @ b) = of_dest d a @ of_dest d b"
  "of_dest d (dx # l) = (if fst dx = d then snd dx # of_dest d l else of_dest d l)"
  by (simp_all add: of_dest_def)

lemma of_dest_held:
  "(\<And>p. p \<in> set ps \<Longrightarrow> p_dest p \<noteq> d) \<Longrightarrow> of_dest d (concat (map held_by ps)) = []"
  by (induction ps) (auto simp: held_by_def split: prod_phase.split)

lemma held_update_other:
  assumes "i < length ps" and "p_dest (ps ! i) \<noteq> d" and "p_dest q \<noteq> d"
  shows "of_dest d (concat (map held_by (ps[i := q]))) = of_dest d (concat (map held_by ps))"
proof -
  have "of_dest d (concat (map held_by (take i ps @ [p] @ drop (Suc i) ps))) =
      of_dest d (concat (map held_by (take i ps @ drop (Suc i) ps)))" if "p_dest p \<noteq> d" for p
    using that by (auto simp: held_by_def split: prod_phase.split)
  from this [OF assms(2)] this [OF assms(3)] assms(1) show ?thesis
    by (simp add: upd_conv_take_nth_drop id_take_nth_drop [symmetric])
qed

lemma held_update_only:
  assumes "i < length ps" and "length (filter (\<lambda>p. p_dest p = d) ps) \<le> 1" and "p_dest (ps ! i) = d"
  shows "of_dest d (concat (map held_by (ps[i := q]))) = of_dest d (held_by q)"
proof -
  have "length (filter (\<lambda>p. p_dest p = d) (take i ps @ ps ! i # drop (Suc i) ps)) \<le> 1"
    using assms(1,2) by (simp add: id_take_nth_drop [symmetric])
  with assms(3) have "filter (\<lambda>p. p_dest p = d) (take i ps) = [] \<and>
      filter (\<lambda>p. p_dest p = d) (drop (Suc i) ps) = []" by simp
  then have "of_dest d (concat (map held_by (take i ps))) = []"
    and "of_dest d (concat (map held_by (drop (Suc i) ps))) = []"
    by (auto intro!: of_dest_held simp: filter_empty_conv)
  then show ?thesis using assms(1) by (simp add: upd_conv_take_nth_drop)
qed

lemma held_only:
  assumes "i < length ps" and "length (filter (\<lambda>p. p_dest p = d) ps) \<le> 1" and "p_dest (ps ! i) = d"
  shows "of_dest d (concat (map held_by ps)) = of_dest d (held_by (ps ! i))"
  using held_update_only [OF assms, of "ps ! i"] by simp

lemma filter_dest_length:
  "length (filter (\<lambda>p. p_dest p = d) ps) = length (filter (\<lambda>k. k = d) (map p_dest ps))"
  by (simp add: filter_map comp_def)

lemma undisturbed_prod:
  assumes "prod_exec i e s = Some s'" and "undisturbed d s'"
  shows "undisturbed d s"
proof -
  have "length (filter (\<lambda>p. p_dest p = d) (sys_producers s)) \<le> 1"
    using assms(2) prod_exec_dests [OF assms(1)] by (simp add: undisturbed_def filter_dest_length)
  with assms show ?thesis
    by (cases rule: prod_exec_cases) (auto simp: undisturbed_def split: if_splits)
qed

lemma in_order_prod:
  assumes e: "prod_exec i e s = Some s'" and "in_order q0 d s"
  shows "in_order q0 d s'"
proof -
  let ?p = "sys_producers s ! i"
  have "flow d s' = q0 d @ of_dest d (given s')" if u': "undisturbed d s'"
  proof -
    from undisturbed_prod [OF e u'] assms(2) have u: "undisturbed d s"
      and f: "flow d s = q0 d @ of_dest d (given s)" by (simp_all add: in_order_def)
    show ?thesis
    proof (cases "p_dest ?p = d")
      case False
      show ?thesis
        using e f False
        by (cases rule: prod_exec_cases) (auto simp: flow_def held_update_other)
    next
      case True
      have i: "i < length (sys_producers s)" using e by (auto simp: prod_exec_def split: if_splits)
      have n: "length (filter (\<lambda>p. p_dest p = d) (sys_producers s)) \<le> 1"
        using u by (simp add: undisturbed_def)
      note h = held_only [OF i n True] held_update_only [OF i n True]
      show ?thesis
        using e f u' True
        by (cases rule: prod_exec_cases)
          (auto simp: flow_def h held_by_def undisturbed_def split: if_splits)
    qed
  qed
  then show ?thesis by (simp add: in_order_def)
qed

lemma in_order_conn:
  assumes "conn_exec e s = Some s'" and "in_order q0 d s"
  shows "in_order q0 d s'"
proof -
  have "of_dest d (concat (map held_by (sys_producers s'))) =
      of_dest d (concat (map held_by (sys_producers s)))"
    using assms(1) by (cases rule: conn_exec_cases) (auto simp: held_by_def)
  moreover have "undisturbed d s' \<Longrightarrow> undisturbed d s"
    using assms(1) by (cases rule: conn_exec_cases) (auto simp: undisturbed_def split: if_splits)
  ultimately show ?thesis
    using conn_exec_keeps [OF assms(1)] assms(2) by (auto simp: in_order_def flow_def)
qed

lemma in_order_main:
  assumes "main_exec e s = Some s'" and "in_order q0 d s"
  shows "in_order q0 d s'"
proof -
  have "undisturbed d s' = undisturbed d s"
    using main_exec_keeps [OF assms(1)] by (simp add: undisturbed_def)
  moreover have "flow d s' = flow d s \<and> of_dest d (given s') = of_dest d (given s) \<or>
      (\<exists>x. flow d s' = flow d s @ [x] \<and> of_dest d (given s') = of_dest d (given s) @ [x])"
    using assms(1)
    by (cases e) (auto simp: flow_def split: in_phase.splits list.splits if_splits)
  ultimately show ?thesis using assms(2) by (auto simp: in_order_def)
qed

lemma in_order_report: "in_order q0 d s \<Longrightarrow> in_order q0 d (report_exec s)"
  by (simp add: in_order_def undisturbed_def flow_def)

lemma in_order_steps: "pub_steps (pub_init input q0) s \<Longrightarrow> in_order q0 d s"
proof (erule pub_steps_invariant)
  show "in_order q0 d (pub_init input q0)" by (simp add: in_order_def flow_def pub_init_def)
  show "in_order q0 d s'" if "in_order q0 d s" and "pub_step s s'" for s s'
    using that(2,1)
    by (auto elim!: pub_stepE intro: in_order_main in_order_conn in_order_prod in_order_report)
qed

end
