(* ===== verification/Pub_Refinement.thy ===== *)
theory Pub_Refinement
  imports Pub_System
begin

text \<open>
  The threads of \<^verbatim>\<open>wissbi-pub\<close> as the components run them, against the interleaving model: a round of the
  input filter, a round of a producer's filter, and a round of the connector over the directory, on a
  kernel, is a sequence of the thread's own steps of \<open>Pub_System\<close>.
\<close>

lemma sys_run_append:
  "sys_run (es @ fs) s = (case sys_run es s of None \<Rightarrow> None | Some s' \<Rightarrow> sys_run fs s')"
  by (induction es arbitrary: s) (auto split: option.split)

subsection \<open>A producer's round\<close>

text \<open>
  Producer \<open>i\<close> waits for a message; its queue and the counter are what the state says.
\<close>

definition producer_at ::
  "(int \<Rightarrow> 'w \<Rightarrow> string list) \<Rightarrow> nat \<Rightarrow> pub_sys \<Rightarrow> prod_phase \<Rightarrow> sysv_mq \<Rightarrow> 'w \<Rightarrow> prod_vars \<Rightarrow> bool" where
  "producer_at queue i s ph q w v \<longleftrightarrow>
     i < length (sys_producers s) \<and> p_phase (sys_producers s ! i) = ph \<and>
     sys_queue s (p_dest (sys_producers s ! i)) = queue (mqid q) w \<and>
     sys_pending s = prod_pending v"

lemma sim_sent:
  assumes "producer_at queue i s Waiting q w v" and "round_sent queue outgoing q t w w' x"
    and "prod_pending v' = prod_pending v - 1"
  shows "\<exists>s'. sys_run [Prod i PGet, Prod i PSend, Prod i PCount] s = Some s' \<and>
    producer_at queue i s' Waiting q w' v' \<and>
    delivered s' = delivered s @ [(p_dest (sys_producers s ! i), x)]"
  using assms
  by (simp add: producer_at_def round_sent_def prod_exec_def Let_def)

lemma sim_failed:
  assumes "producer_at queue i s Waiting q w v" and "round_failed queue outgoing q t w w'"
  shows "\<exists>es s'. sys_run (map (Prod i) es) s = Some s' \<and> producer_at queue i s' Ending q w' v \<and>
    delivered s' = delivered s"
proof -
  consider (held) x rest b where "queue (mqid q) w = x # rest"
      "queue (mqid q) w' = rest @ (if b then [x] else [])"
    | (none) b where "queue (mqid q) w' = queue (mqid q) w @ (if b then [[]] else [])"
    using assms(2) unfolding round_failed_def by blast
  then show ?thesis
  proof cases
    case held
    with assms(1) show ?thesis
      by (intro exI [of _ "[PGet, PFail b]"]) (auto simp: producer_at_def prod_exec_def Let_def)
  next
    case none
    with assms(1) show ?thesis
      by (intro exI [of _ "[PNoMsg b]"]) (auto simp: producer_at_def prod_exec_def Let_def)
  qed
qed

context prod_kernel
begin

lemma producer_round_simulated:
  assumes "wf_buf m" and "producer_at queue i s Waiting q w v"
  shows "\<exists>ok m' w' v' es s'. Filter (producer_filter I N) m (q, t, w, v) = Inr (ok, m', q, t, w', v') \<and>
    sys_run (map (Prod i) es) s = Some s' \<and>
    producer_at queue i s' (if ok then Waiting else Ending) q w' v' \<and>
    (if ok then \<exists>x. delivered s' = delivered s @ [(p_dest (sys_producers s ! i), x)] \<and>
                    outgoing (sock t) w' = outgoing (sock t) w @ tcp_frame x
     else delivered s' = delivered s)"
proof -
  from producer_round [OF assms(1), of q t w v] obtain ok m' w' v' where
    F: "Filter (producer_filter I N) m (q, t, w, v) = Inr (ok, m', q, t, w', v')" and
    r: "if ok then (\<exists>x. round_sent queue outgoing q t w w' x) \<and>
         v' = v\<lparr>prod_pending := prod_pending v - 1, prod_metric := metric_bump (prod_metric v)\<rparr>
     else round_failed queue outgoing q t w w' \<and> v' = v" by blast
  show ?thesis
  proof (cases ok)
    case True
    with r obtain x where x: "round_sent queue outgoing q t w w' x"
      and v': "prod_pending v' = prod_pending v - 1" by auto
    have "outgoing (sock t) w' = outgoing (sock t) w @ tcp_frame x"
      using x by (simp add: round_sent_def)
    with sim_sent [OF assms(2) x v'] F True show ?thesis
      by (intro exI [of _ ok] exI [of _ m'] exI [of _ w'] exI [of _ v']
          exI [of _ "[PGet, PSend, PCount]"]) auto
  next
    case False
    with r have "round_failed queue outgoing q t w w'" and "v' = v" by auto
    with sim_failed [OF assms(2) this(1)] F False show ?thesis by fastforce
  qed
qed

end

subsection \<open>A round of the input filter\<close>

text \<open>
  The main thread is about to read; the branches of the tee have queues of their own, with the contents
  the state says; the counter agrees.
\<close>

definition main_at ::
  "(int \<Rightarrow> 'w \<Rightarrow> string list) \<Rightarrow> pub_sys \<Rightarrow> sysv_mq tee \<Rightarrow> 'w \<Rightarrow> pub_vars \<Rightarrow> bool" where
  "main_at queue s t w v \<longleftrightarrow>
     sys_main s = Reading \<and> sys_branches s = map fst (branch_map t) \<and>
     sys_pending s = pending_counter v \<and>
     (\<forall>kv \<in> set (branch_map t). sys_queue s (fst kv) = queue (mqid (snd kv)) w \<and>
        (\<forall>kv' \<in> set (branch_map t). mqid (snd kv) = mqid (snd kv') \<longleftrightarrow> fst kv = fst kv'))"

lemma tee_run:
  assumes "sys_main s = Teeing x ds c f" and "length oks = length ds"
  shows "\<exists>s'. sys_run (map (\<lambda>ok. Main (MTee ok)) oks) s = Some s' \<and>
    sys_main s' = Teeing x [] (c + length ds) (f + failed_puts oks) \<and>
    sys_stdin s' = sys_stdin s \<and> sys_branches s' = sys_branches s \<and> sys_pending s' = sys_pending s \<and>
    (\<forall>d. sys_queue s' d = sys_queue s d @
       map (\<lambda>_. x) (filter (\<lambda>(k, ok). ok \<and> k = d) (zip ds oks)))"
  using assms
proof (induction oks arbitrary: s ds c f)
  case Nil
  then show ?case by (simp add: failed_puts_def)
next
  case (Cons ok oks)
  then obtain d ds' where ds: "ds = d # ds'" by (cases ds) auto
  obtain s1 where s1: "main_exec (MTee ok) s = Some s1"
    "sys_main s1 = Teeing x ds' (Suc c) (if ok then f else Suc f)" "sys_stdin s1 = sys_stdin s"
    "sys_branches s1 = sys_branches s" "sys_pending s1 = sys_pending s"
    "sys_queue s1 = (if ok then (sys_queue s)(d := sys_queue s d @ [x]) else sys_queue s)"
    using Cons.prems(1) ds by (cases ok) simp_all
  from Cons.prems(2) ds have "length oks = length ds'" by simp
  from Cons.IH [OF s1(2) this] s1 ds show ?case by (auto simp: failed_puts_def)
qed

lemma tee_copies_dest:
  assumes "main_at queue s t w v" and "kv \<in> set (branch_map t)"
  shows "tee_copies (branch_map t) (mqid (snd kv)) x oks =
    map (\<lambda>_. x) (filter (\<lambda>(k, ok). ok \<and> k = fst kv) (zip (map fst (branch_map t)) oks))"
proof -
  have "\<forall>kv' \<in> set (branch_map t). mqid (snd kv') = mqid (snd kv) \<longleftrightarrow> fst kv' = fst kv"
    using assms unfolding main_at_def by metis
  then have "map (\<lambda>_. x) (filter (\<lambda>(kv', ok). ok \<and> mqid (snd kv') = mqid (snd kv)) (zip kvs oks)) =
      map (\<lambda>_. x) (filter (\<lambda>(k, ok). ok \<and> k = fst kv) (zip (map fst kvs) oks))"
    if "set kvs \<subseteq> set (branch_map t)" for kvs
    using that
  proof (induction kvs arbitrary: oks)
    case (Cons k kvs)
    then show ?case by (cases oks) auto
  qed simp
  then show ?thesis by (simp add: tee_copies_def)
qed

context pub_input
begin

lemma pub_round_simulated:
  assumes "main_at queue s t w v" and "sys_stdin s = x # xs"
    and "0 < GetBranchCount t" and "drop_metrics v = fm # fms" and "ready io" and "fits x"
    and "pending io = frame x @ rest" and "wf_buf m"
  shows "\<exists>m' io' t' w' v' es s'.
    Filter (flt wait) m (io, (t, w), v) = Inr (True, m', io', (t', w'), v') \<and>
    sys_run (map Main es) s = Some s' \<and> main_at queue s' t' w' v' \<and> sys_stdin s' = xs"
proof -
  from pub_round [OF assms(3-8), of wait w] obtain oks m' io' t' w' where
    o: "length oks = GetBranchCount t" and
    F: "Filter (flt wait) m (io, (t, w), v) = Inr (True, m', io', (t', w'),
      v\<lparr>pending_counter := pending_counter v + of_nat (GetBranchCount t),
        drop_metrics := fm\<lparr>last_processed := last_processed fm + of_nat (failed_puts oks)\<rparr> # fms\<rparr>)"
      (is "_ = Inr (True, m', io', (t', w'), ?v)") and
    b: "branch_map t' = branch_map t" and
    q: "\<And>r. queue r w' = queue r w @ tee_copies (branch_map t) r x oks" by blast
  let ?s = "s\<lparr>sys_stdin := xs, sys_main := Teeing x (sys_branches s) 0 0\<rparr>"
  have r: "main_exec MRead s = Some ?s" using assms(1,2) by (simp add: main_at_def)
  have "length oks = length (sys_branches ?s)" using assms(1) o by (simp add: main_at_def GetBranchCount_def)
  from tee_run [of ?s x "sys_branches ?s" 0 0, OF _ this] obtain s2 where
    s2: "sys_run (map (\<lambda>ok. Main (MTee ok)) oks) ?s = Some s2"
    "sys_main s2 = Teeing x [] (length (sys_branches s)) (failed_puts oks)" "sys_stdin s2 = xs"
    "sys_branches s2 = sys_branches s" "sys_pending s2 = sys_pending s"
    "\<forall>d. sys_queue s2 d = sys_queue s d @
       map (\<lambda>_. x) (filter (\<lambda>(k, ok). ok \<and> k = d) (zip (sys_branches s) oks))" by auto
  let ?s' = "s2\<lparr>sys_main := Reading, sys_pending := sys_pending s2 + of_nat (length (sys_branches s)),
      sys_drops := sys_drops s2 + of_nat (failed_puts oks)\<rparr>"
  have "sys_run (map Main (MRead # map MTee oks @ [MPost])) s = Some ?s'"
    using r s2(1,2) by (simp add: sys_run_append comp_def)
  moreover have "main_at queue ?s' t' w' ?v"
    using assms(1) s2(3-6) b q tee_copies_dest [OF assms(1)]
    by (simp add: main_at_def GetBranchCount_def)
  ultimately show ?thesis
    using F s2(3)
    by (intro exI [of _ m'] exI [of _ io'] exI [of _ t'] exI [of _ w'] exI [of _ ?v]
        exI [of _ "MRead # map MTee oks @ [MPost]"] exI [of _ ?s']) simp
qed

end

subsection \<open>A round of the connector\<close>

text \<open>
  The set of producers, the branches and the threads started are those of the state.
\<close>

definition conn_at :: "'w connector_st \<Rightarrow> pub_sys \<Rightarrow> bool" where
  "conn_at st s \<longleftrightarrow>
     set (producer_set st) = set (sys_known s) \<and> map fst (branch_map (out_tee st)) = sys_branches s \<and>
     spawned st = map (\<lambda>p. (p_conn p, p_dest p)) (sys_producers s)"

lemma sim_visit:
  assumes "connector_visit I E (c, d) st = (None, st')" and "conn_at st s"
    and "sys_conn s = Visiting ((c, d) # subs)"
  shows "\<exists>es s'. set es \<subseteq> {CVisit, CInsert} \<and> sys_run (map Conn es) s = Some s' \<and> conn_at st' s' \<and>
    sys_conn s' = Visiting subs"
proof (cases "c \<in> set (producer_set st)")
  case True
  with assms show ?thesis
    by (intro exI [of _ "[CVisit]"]) (simp add: connector_visit_def conn_at_def)
next
  case False
  with assms(1) obtain st1 where b: "ensure_branch I E d st = (None, st1)"
    and st': "st' = st1\<lparr>metric_list := ensure_metric d (metric_list st1),
        spawned := spawned st1 @ [(c, d)], producer_set := List.insert c (producer_set st1)\<rparr>"
    by (auto simp: connector_visit_def Let_def split: prod.splits option.splits)
  from False assms ensure_branch_props(2,3) [OF b] ensure_branch_keys [OF b] show ?thesis
    by (intro exI [of _ "[CVisit, CInsert]"]) (simp add: conn_at_def st')
qed

lemma sim_visits:
  "connector_pass I E subs st = (None, st') \<Longrightarrow> conn_at st s \<Longrightarrow> sys_conn s = Visiting subs \<Longrightarrow>
     \<exists>es s'. set es \<subseteq> {CVisit, CInsert} \<and> sys_run (map Conn es) s = Some s' \<and> conn_at st' s' \<and>
       sys_conn s' = Visiting []"
proof (induction subs arbitrary: st s)
  case Nil
  then show ?case by (intro exI [of _ "[]"]) simp
next
  case (Cons sub subs)
  obtain c d where sub: "sub = (c, d)" by force
  with Cons.prems(1) obtain st1 where v: "connector_visit I E (c, d) st = (None, st1)"
    and r: "connector_pass I E subs st1 = (None, st')" by (auto split: prod.splits option.splits)
  from sim_visit [OF v Cons.prems(2)] Cons.prems(3) sub obtain es1 s1 where
    1: "sys_run (map Conn es1) s = Some s1" "conn_at st1 s1" "sys_conn s1 = Visiting subs" "set es1 \<subseteq> {CVisit, CInsert}" by blast
  from Cons.IH [OF r 1(2,3)] obtain es2 s2 where
    "sys_run (map Conn es2) s1 = Some s2" "conn_at st' s2" "sys_conn s2 = Visiting []" "set es2 \<subseteq> {CVisit, CInsert}" by blast
  with 1(1,4) show ?case by (intro exI [of _ "es1 @ es2"] exI [of _ s2]) (simp add: sys_run_append)
qed

lemma connector_pass_simulated:
  assumes "connector_pass I E subs st = (None, st')" and "conn_at st s" and "sys_conn s = Listing"
  shows "\<exists>es s'. set es \<subseteq> {CVisit, CInsert} \<and> sys_run (map Conn (CList subs # es)) s = Some s' \<and> conn_at st' s' \<and>
    sys_conn s' = Listing"
proof -
  have "conn_at st (s\<lparr>sys_conn := Visiting subs\<rparr>)" using assms(2) by (simp add: conn_at_def)
  from sim_visits [OF assms(1) this] obtain es s1 where
    "sys_run (map Conn es) (s\<lparr>sys_conn := Visiting subs\<rparr>) = Some s1" "conn_at st' s1"
    "sys_conn s1 = Visiting []" "set es \<subseteq> {CVisit, CInsert}" by auto
  with assms(3) show ?thesis
    by (intro exI [of _ "es @ [CVisit]"] exI [of _ "s1\<lparr>sys_conn := Listing\<rparr>"])
      (simp add: sys_run_append conn_at_def)
qed

end
