(* ===== verification/Sub_Main.thy ===== *)
theory Sub_Main
  imports Pub_Main
begin

unbundle bit_operations_syntax

text \<open>
  \<^verbatim>\<open>src/sub.cpp\<close>: \<^verbatim>\<open>wissbi-sub\<close>. It listens on a port of the kernel's choice, announces itself, and for each
  publisher that connects starts a receiver thread that moves messages from the connection to a message
  queue; a writer thread moves them from the queue to the standard output.

  The server's system calls are parameters, collected in the record \<open>srv\<close> over the state \<open>'w\<close> outside.
\<close>

record 'w srv =
  srv_socket :: "'w \<Rightarrow> int \<times> 'w"
  srv_getfl :: "int \<Rightarrow> 'w \<Rightarrow> int"
  srv_setfl :: "int \<Rightarrow> int \<Rightarrow> 'w \<Rightarrow> int \<times> 'w"
  srv_bind :: "int \<Rightarrow> sockaddr_in \<Rightarrow> 'w \<Rightarrow> int \<times> 'w"
  srv_listen :: "int \<Rightarrow> int \<Rightarrow> 'w \<Rightarrow> int \<times> 'w"
  srv_getsockname :: "int \<Rightarrow> 'w \<Rightarrow> sockaddr_in"
  srv_poll :: "int \<Rightarrow> int \<Rightarrow> 'w \<Rightarrow> int \<times> 'w"
  srv_accept :: "int \<Rightarrow> 'w \<Rightarrow> (int \<times> sockaddr_in) \<times> 'w"
  srv_sockopts :: "int \<Rightarrow> 'w \<Rightarrow> 'w"
  srv_log :: "string \<Rightarrow> 'w \<Rightarrow> 'w"

text \<open>
  \<open>srv_sockopts\<close> are the two \<^verbatim>\<open>setsockopt\<close> calls on a new connection (no receive timeout, linger 0);
  \<open>srv_log\<close> is \<^verbatim>\<open>logger::log\<close> with its text filled in.
\<close>

definition O_NONBLOCK :: int where
  "O_NONBLOCK = 2048"

subsection \<open>Setting up\<close>

text \<open>
  The call that makes the listening socket non-blocking is the argument of an \<^verbatim>\<open>assert\<close>: with \<open>ndebug\<close> it
  is not made.
\<close>

definition sub_listen ::
  "'w srv \<Rightarrow> bool \<Rightarrow> (string \<Rightarrow> 32 word) \<Rightarrow> int \<Rightarrow> 'w \<Rightarrow> (fault + (int \<times> sockaddr_in)) \<times> 'w" where
  "sub_listen S ndebug inet_addr port0 w =
     (let (serv, w1) = srv_socket S w;
          opts = srv_getfl S serv w1 OR O_NONBLOCK;
          (r, w2) = (if ndebug then (0, w1) else srv_setfl S serv opts w1)
      in if r \<noteq> 0 then (Inl AssertFailure, w2)
         else let (rb, w3) = srv_bind S serv (ConnectStringToSockaddr inet_addr port0 ''0.0.0.0:0'') w2
              in if rb = -1 then (Inl (Exception ''bind error''), srv_log S ''bind error'' w3)
                 else let (rl, w4) = srv_listen S serv 10 w3
                      in if rl = -1 then (Inl (Exception ''listen error''), srv_log S ''listen error'' w4)
                         else let addr = srv_getsockname S serv w4
                              in (Inr (serv, addr),
                                  srv_log S (''wissbi-sub is listening on port '' @
                                    show_nat (unat (ntohs (sin_port addr)))) w4))"

text \<open>The address it announces.\<close>

definition sub_address ::
  "string \<Rightarrow> (string \<Rightarrow> 32 word list option) \<Rightarrow> (32 word \<Rightarrow> string) \<Rightarrow> sockaddr_in \<Rightarrow> fault + string" where
  "sub_address hostname getaddrinfo inet_ntoa addr =
     (case GetHostIP hostname getaddrinfo inet_ntoa of
        Inl e \<Rightarrow> Inl e
      | Inr ip \<Rightarrow> Inr (ip @ '':'' @ show_nat (unat (ntohs (sin_port addr)))))"

definition default_meta_dir :: "(string \<Rightarrow> string option) \<Rightarrow> string" where
  "default_meta_dir getenv =
     (case getenv ''WISSBI_META_DIR'' of None \<Rightarrow> ''/var/lib/wissbi'' | Some d \<Rightarrow> d)"

text \<open>
  The time between two renewals. The product is computed in an \<^verbatim>\<open>int\<close>; beyond its range it wraps, as it
  does on the target.
\<close>

definition heartbeat_millis :: "(string \<Rightarrow> string option) \<Rightarrow> int" where
  "heartbeat_millis getenv =
     (case getenv ''WISSBI_HEARTBEAT_SEC'' of
        None \<Rightarrow> 60000
      | Some s \<Rightarrow> sint (word_of_int (fst (extract_int 60000 (istream_of s)) * 1000) :: 32 word))"

subsection \<open>The threads\<close>

type_synonym 'w receiver_state = "tcp \<times> sysv_mq \<times> 'w"

definition receiver_get :: "'w net \<Rightarrow> 'w receiver_state op" where
  "receiver_get N m s =
     (case s of (t, q, w) \<Rightarrow>
        (case TCP_Get N m (t, w) of
           Inl e \<Rightarrow> Inl e | Inr (b, m', t', w') \<Rightarrow> Inr (b, m', t', q, w')))"

definition receiver_put :: "'w ipc \<Rightarrow> 'w receiver_state op" where
  "receiver_put I m s =
     (case s of (t, q, w) \<Rightarrow>
        (case SysvMq_Put I m (q, w) of
           Inl e \<Rightarrow> Inl e | Inr (b, m', q', w') \<Rightarrow> Inr (b, m', t, q', w')))"

definition receiver_filter :: "'w ipc \<Rightarrow> 'w net \<Rightarrow> 'w receiver_state msg_filter" where
  "receiver_filter I N = MsgFilter (receiver_get N) (receiver_put I)"

text \<open>
  A receiver thread from its start to its end, on the accepted socket \<open>res\<close>. The queue object does not
  clean up; the socket is closed by the destructor.
\<close>

definition receiver_thread ::
  "'w ipc \<Rightarrow> 'w net \<Rightarrow> conn_env \<Rightarrow> int \<Rightarrow> msg_buf \<Rightarrow> 'w \<Rightarrow> (fault + 'w) option" where
  "receiver_thread I N E res m w =
     (case env_garbage E of (a, b, c) \<Rightarrow>
        let (t, w1) = TCP_new N w
        in case mq_init I (env_ndebug E) (env_pid E) (env_before E) [] (SysvMq_new a b c, w1) of
             (Some e, q, w2) \<Rightarrow> Some (Inl e)
           | (None, q, w2) \<Rightarrow>
               let (t', w3) = TCP_AttachConnectedSock N res (t, w2)
               in case FilterLoop (receiver_filter I N) m (t', set_cleanup False q, w3) of
                    None \<Rightarrow> None
                  | Some (Inl e) \<Rightarrow> Some (Inl e)
                  | Some (Inr (m', t'', q', w4)) \<Rightarrow>
                      Some (Inr (TCP_delete N t'' (SysvMq_delete I q' w4))))"

type_synonym 'w writer_state = "(sysv_mq \<times> 'w) \<times> iostream_base \<times> unit"

definition writer_filter :: "'w ipc \<Rightarrow> iostream_base op \<Rightarrow> 'w writer_state msg_filter" where
  "writer_filter I put = MsgFilter (lift_in (SysvMq_Get I)) (lift_out put)"

subsection \<open>The main loop\<close>

text \<open>\<open>receivers\<close> records the sockets threads are started on.\<close>

record 'w sub_st =
  sub_serv :: int
  sub_ent :: sub_entry
  receivers :: "int list"
  sub_world :: 'w

definition sub_iteration ::
  "'w srv \<Rightarrow> 'w fs \<Rightarrow> (32 word \<Rightarrow> string) \<Rightarrow> int \<Rightarrow> 'w sub_st \<Rightarrow> fault option \<times> 'w sub_st" where
  "sub_iteration S FS inet_ntoa heartbeat st =
     (case SubEntry_renew FS (sub_ent st) (sub_world st) of
        (Some e, w1) \<Rightarrow> (Some e, st\<lparr>sub_world := w1\<rparr>)
      | (None, w1) \<Rightarrow>
          let (p, w2) = srv_poll S (sub_serv st) heartbeat w1
          in if p \<le> 0 then (None, st\<lparr>sub_world := w2\<rparr>)
             else case srv_accept S (sub_serv st) w2 of
                    ((res, other_addr), w3) \<Rightarrow>
                      if 0 < res then
                        let w4 = srv_log S (''wissbi-pub connected from '' @
                                   SockaddrToConnectString inet_ntoa other_addr) w3;
                            opts = srv_getfl S res w4 AND NOT O_NONBLOCK;
                            (_, w5) = srv_setfl S res opts w4;
                            w6 = srv_sockopts S res w5
                        in (None, st\<lparr>receivers := receivers st @ [res], sub_world := w6\<rparr>)
                      else (None, st\<lparr>sub_world := w3\<rparr>))"

text \<open>\<^verbatim>\<open>while (run)\<close>; the signal handler clears the flag, which is part of the state outside.\<close>

partial_function (option) sub_loop ::
  "'w srv \<Rightarrow> 'w fs \<Rightarrow> (32 word \<Rightarrow> string) \<Rightarrow> int \<Rightarrow> ('w \<Rightarrow> bool) \<Rightarrow> 'w sub_st \<Rightarrow>
     (fault option \<times> 'w sub_st) option" where
  "sub_loop S FS inet_ntoa heartbeat running st =
     (if running (sub_world st) then
        case sub_iteration S FS inet_ntoa heartbeat st of
          (None, st') \<Rightarrow> sub_loop S FS inet_ntoa heartbeat running st'
        | (Some e, st') \<Rightarrow> Some (Some e, st')
      else Some (None, st))"

datatype sub_config =
    SubUsage string
  | SubRun msg_format string bool
  | SubUnknownFormat string

definition sub_main_config :: "string list \<Rightarrow> (string \<Rightarrow> string option) \<Rightarrow> sub_config" where
  "sub_main_config argv getenv =
     (case argv of
        prog # src # _ \<Rightarrow>
          let topic_mode = (getenv ''WISSBI_SUB_TOPIC'' = Some ''true'')
          in (case getenv ''WISSBI_MESSAGE_FORMAT'' of
                None \<Rightarrow> SubRun Line_format src topic_mode
              | Some f \<Rightarrow>
                  if f = ''line'' then SubRun Line_format src topic_mode
                  else if f = ''length'' then SubRun Length_format src topic_mode
                  else SubUnknownFormat f)
      | _ \<Rightarrow> SubUsage (''Usage: '' @ concat (take 1 argv) @ '' SOURCE_NAME''))"

definition format_put :: "msg_format \<Rightarrow> iostream_base op" where
  "format_put f = (case f of Line_format \<Rightarrow> Line_Put | Length_format \<Rightarrow> Length_Put)"

text \<open>
  \<^verbatim>\<open>run_sub\<close> up to the loop: the state the loop starts from, and the queue object the writer thread reads
  from.
\<close>

record 'w sub_env =
  se_srv :: "'w srv"
  se_fs :: "'w fs"
  se_ipc :: "'w ipc"
  se_conn :: conn_env
  se_inet_addr :: "string \<Rightarrow> 32 word"
  se_inet_ntoa :: "32 word \<Rightarrow> string"
  se_port0 :: int
  se_hostname :: string
  se_getaddrinfo :: "string \<Rightarrow> 32 word list option"
  se_getenv :: "string \<Rightarrow> string option"
  se_put_file :: "string \<Rightarrow> string \<Rightarrow> 'w \<Rightarrow> 'w"

definition run_sub_start :: "'w sub_env \<Rightarrow> string \<Rightarrow> bool \<Rightarrow> 'w \<Rightarrow> fault + ('w sub_st \<times> sysv_mq)" where
  "run_sub_start V src topic_mode w =
     (case sub_listen (se_srv V) (env_ndebug (se_conn V)) (se_inet_addr V) (se_port0 V) w of
        (Inl e, w1) \<Rightarrow> Inl e
      | (Inr (serv, addr), w1) \<Rightarrow>
          (case sub_address (se_hostname V) (se_getaddrinfo V) (se_inet_ntoa V) addr of
             Inl e \<Rightarrow> Inl e
           | Inr a \<Rightarrow>
               (case SubEntry_new (se_fs V) (env_before (se_conn V)) (default_meta_dir (se_getenv V))
                       src a topic_mode w1 of
                  (Inl e, w2) \<Rightarrow> Inl e
                | (Inr ent, w2) \<Rightarrow>
                    (case env_garbage (se_conn V) of (g1, g2, g3) \<Rightarrow>
                       (case mq_init (se_ipc V) (env_ndebug (se_conn V)) (env_pid (se_conn V))
                               (env_before (se_conn V)) [] (SysvMq_new g1 g2 g3, w2) of
                          (Some e, q, w3) \<Rightarrow> Inl e
                        | (None, q, w3) \<Rightarrow>
                            Inr (\<lparr>sub_serv = serv, sub_ent = ent, receivers = [], sub_world = w3\<rparr>, q))))))"

text \<open>After the loop the destructors of the writer and of the entry run.\<close>

definition run_sub ::
  "'w sub_env \<Rightarrow> ('w \<Rightarrow> bool) \<Rightarrow> string \<Rightarrow> bool \<Rightarrow> 'w \<Rightarrow> (fault + 'w) option" where
  "run_sub V running src topic_mode w =
     (case run_sub_start V src topic_mode w of
        Inl e \<Rightarrow> Some (Inl e)
      | Inr (st, q) \<Rightarrow>
          (case sub_loop (se_srv V) (se_fs V) (se_inet_ntoa V) (heartbeat_millis (se_getenv V)) running st of
             None \<Rightarrow> None
           | Some (Some e, st') \<Rightarrow> Some (Inl e)
           | Some (None, st') \<Rightarrow>
               Some (Inr (SubEntry_delete (se_fs V) (sub_ent st')
                            (SysvMq_delete (se_ipc V) q (sub_world st'))))))"

text \<open>The exit code; the format decides the policy of the writer thread.\<close>

definition sub_main ::
  "'w sub_env \<Rightarrow> ('w \<Rightarrow> bool) \<Rightarrow> string list \<Rightarrow> 'w \<Rightarrow> (fault + int) option" where
  "sub_main V running argv w =
     (case sub_main_config argv (se_getenv V) of
        SubUsage _ \<Rightarrow> Some (Inr 1)
      | SubUnknownFormat _ \<Rightarrow> Some (Inr 1)
      | SubRun f src topic_mode \<Rightarrow>
          (case run_sub V running src topic_mode
                  (write_pid_file (se_put_file V) (env_pid (se_conn V)) (se_getenv V) w) of
             None \<Rightarrow> None
           | Some (Inl e) \<Rightarrow> Some (Inl e)
           | Some (Inr w') \<Rightarrow> Some (Inr 0)))"

subsection \<open>The receiver moves every message to the queue\<close>

text \<open>
  Connection and queue live in the same outside state and leave each other alone. \<^verbatim>\<open>msgsnd\<close> without \<^verbatim>\<open>IPC_NOWAIT\<close> waits
  for room: a message of positive type that fits a buffer is taken, as long as the queue is not removed and no signal ends the wait.
\<close>

locale recv_kernel = rcv: recv_stream N incoming + mq: mq_kernel I queue
  for N :: "'w net" and incoming and I :: "'w ipc" and queue +
  assumes read_queue: "queue r (snd (net_read N fd n w)) = queue r w"
    and snd_incoming: "incoming fd (snd (ipc_msgsnd I q t b n f w)) = incoming fd w"
    and snd_accepts: "waits_for_room f \<Longrightarrow> 0 < t \<Longrightarrow> n \<le> MAX_MSG_SIZE \<Longrightarrow> fst (ipc_msgsnd I q t b n f w)"
begin

lemma TCP_Get_queue:
  assumes "TCP_Get N m (t, w) = Inr (b, m', t', w')"
  shows "queue r w' = queue r w" and "t' = t"
  using assms
  by (auto simp: TCP_Get_def Let_def dest!: ReadAll_keeps [where f = "queue r", OF read_queue]
      split: sum.splits prod.splits if_splits)

lemma SysvMq_Put_accepted:
  assumes "wf_msg m" and "waits_for_room (put_flag q)"
  shows "\<exists>m' w'. SysvMq_Put I m (q, w) = Inr (True, m', q, w') \<and> wf_buf m' \<and>
    queue (mqid q) w' = queue (mqid q) w @ [payload m] \<and> incoming fd w' = incoming fd w"
proof -
  obtain ok m' q' w' where p: "SysvMq_Put I m (q, w) = Inr (ok, m', q', w')"
    by (cases "ipc_msgsnd I (mqid q) 1 (buf m) (len m) (put_flag q) w") (simp add: SysvMq_Put_def)
  moreover from assms(1) have "len m \<le> MAX_MSG_SIZE" by (simp add: wf_msg_def)
  with p snd_accepts [OF assms(2), of 1 "len m" "mqid q" "buf m" w]
    snd_incoming [of fd "mqid q" 1 "buf m" "len m" "put_flag q" w]
  have "ok" and "incoming fd w' = incoming fd w" by (auto simp: SysvMq_Put_def Let_def split: prod.splits)
  ultimately show ?thesis
    using mq.SysvMq_Put_refines [OF assms(1) p, of "mqid q"] by auto
qed

end

sublocale recv_kernel \<subseteq> receiver: msg_pipeline "receiver_get N" "\<lambda>(t, q, w). waits_for_room (put_flag q)"
    "\<lambda>(t, q, w). incoming (sock t) w" tcp_frame tcp_fits "receiver_put I" "\<lambda>m s. Inr (True, m, s)"
    "\<lambda>(t, q, w). queue (mqid q) w" "\<lambda>x. [x]" "\<lambda>_. True" "\<lambda>_. False" "\<lambda>_. ()" "\<lambda>_ _. ()"
proof
  show "wf_buf m'" if "wf_buf m" and "receiver_get N m s = Inr (b, m', s')"
    for m b m' and s s' :: "'w receiver_state"
    using that tcp_in.get_wf by (auto simp: receiver_get_def split: prod.splits sum.splits)
  show "len m' = 0" if "receiver_get N m s = Inr (False, m', s')"
    for m m' and s s' :: "'w receiver_state"
    using that tcp_in.get_false by (auto simp: receiver_get_def split: prod.splits sum.splits)
  show "\<exists>m' s'. receiver_get N m s = Inr (True, m', s') \<and> len m' = length x \<and> payload m' = x \<and>
      (case s' of (t, q, w) \<Rightarrow> waits_for_room (put_flag q)) \<and> (case s' of (t, q, w) \<Rightarrow> incoming (sock t) w) = r"
    if "case s of (t, q, w) \<Rightarrow> waits_for_room (put_flag q)" and "tcp_fits x" and "(case s of (t, q, w) \<Rightarrow> incoming (sock t) w) = tcp_frame x @ r" and "wf_buf m"
    for s :: "'w receiver_state" and x r m
    using that rcv.TCP_Get_frame [of m "fst s" "snd (snd s)" x r]
    by (cases s) (auto simp: receiver_get_def)
  show "\<exists>m' s'. receiver_get N m s = Inr (False, m', s')"
    if "(case s of (t, q, w) \<Rightarrow> incoming (sock t) w) = []" for s :: "'w receiver_state" and m
    using that rcv.TCP_Get_at_end [of "fst s" "snd (snd s)" m]
    by (cases s) (auto simp: receiver_get_def)
  show "(case s' of (t, q, w) \<Rightarrow> queue (mqid q) w) = (case s of (t, q, w) \<Rightarrow> queue (mqid q) w)"
    if "receiver_get N m s = Inr (b, m', s')" for m b m' and s s' :: "'w receiver_state"
    using that
    by (auto simp: receiver_get_def split: prod.splits sum.splits dest: TCP_Get_queue(1))
  show "\<exists>m' s'. receiver_put I m s = Inr (True, m', s') \<and> wf_buf m' \<and>
      (case s' of (t, q, w) \<Rightarrow> queue (mqid q) w) =
        (case s of (t, q, w) \<Rightarrow> queue (mqid q) w) @ [payload m] \<and>
      (case s' of (t, q, w) \<Rightarrow> waits_for_room (put_flag q)) = (case s of (t, q, w) \<Rightarrow> waits_for_room (put_flag q)) \<and>
      (case s' of (t, q, w) \<Rightarrow> incoming (sock t) w) = (case s of (t, q, w) \<Rightarrow> incoming (sock t) w)"
    if "case s of (t, q, w) \<Rightarrow> waits_for_room (put_flag q)" and "wf_msg m" for s :: "'w receiver_state" and m
    using SysvMq_Put_accepted [OF that(2), of "fst (snd s)" "snd (snd s)" "sock (fst s)"] that(1)
    by (cases s) (auto simp: receiver_put_def)
qed (auto simp: tcp_fits_def)

lemma filter_func_pass: "set_filter_func (\<lambda>m s. Inr (True, m, s)) (MsgFilter g p) = MsgFilter g p"
  by (simp add: set_filter_func_def MsgFilter_def)

context recv_kernel
begin

text \<open>The connection is closed after the messages \<open>xs\<close>: the loop ends and the queue has all of them.\<close>

lemma receiver_loop:
  assumes "\<forall>x \<in> set xs. tcp_fits x" and "incoming (sock t) w = concat (map tcp_frame xs)" and "wf_buf m"
    and "waits_for_room (put_flag q)"
  shows "\<exists>m' t' q' w'. FilterLoop (receiver_filter I N) m (t, q, w) = Some (Inr (m', t', q', w')) \<and>
    queue (mqid q') w' = queue (mqid q) w @ xs"
  using receiver.FilterLoop_all [where s = "(t, q, w)", of xs m] assms
  by (auto simp: receiver_filter_def filter_func_pass)

end

subsection \<open>The writer prints every message of the queue\<close>

text \<open>
  A queue that gives its oldest message when there is one, and an output policy that writes each message
  that is not empty.
\<close>

locale queue_writer = mq: mq_kernel I queue + out: stream_writer put emit
  for I :: "'w ipc" and queue and put and emit +
  assumes rcv_oldest: "queue q w = x # xs \<Longrightarrow> length x \<le> n \<Longrightarrow> \<exists>t w'. ipc_msgrcv I q n w = (Some (t, x), w')"
begin

lemma SysvMq_Get_oldest:
  assumes "wf_buf m" and "queue (mqid q) w = x # xs" and "length x \<le> MAX_MSG_SIZE"
  shows "\<exists>m' w'. SysvMq_Get I m (q, w) = Inr (True, m', q, w') \<and> len m' = length x \<and> payload m' = x \<and>
    queue (mqid q) w' = xs"
proof -
  from mq.SysvMq_Get_no_fault [OF assms(1), of q w] obtain ok m' w' where
    g: "SysvMq_Get I m (q, w) = Inr (ok, m', q, w')" by blast
  have "ok" using g rcv_oldest [OF assms(2,3)]
    by (auto simp: SysvMq_Get_def split: sum.splits)
  with mq.SysvMq_Get_refines [OF assms(1) g, of "mqid q"] assms(2) have
    "wf_msg m'" "payload m' = x" "queue (mqid q) w' = xs" by auto
  with g \<open>ok\<close> length_payload [of m'] show ?thesis by auto
qed

lemma SysvMq_Get_none:
  assumes "wf_buf m" and "queue (mqid q) w = []"
  shows "\<exists>m' w'. SysvMq_Get I m (q, w) = Inr (False, m', q, w')"
proof -
  from mq.SysvMq_Get_no_fault [OF assms(1), of q w] obtain ok m' w' where
    g: "SysvMq_Get I m (q, w) = Inr (ok, m', q, w')" by blast
  with mq.SysvMq_Get_refines [OF assms(1) g, of "mqid q"] assms(2) show ?thesis by (cases ok) auto
qed

end

definition writer_ready :: "'w writer_state \<Rightarrow> bool" where
  "writer_ready s = (\<not> badbit (os_ptr (fst (snd s))))"

definition writer_output :: "'w writer_state \<Rightarrow> string" where
  "writer_output s = written (os_ptr (fst (snd s)))"

sublocale queue_writer \<subseteq> writer: msg_pipeline "lift_in (SysvMq_Get I)" writer_ready
    "\<lambda>s. queue (mqid (fst (fst s))) (snd (fst s))" "\<lambda>x. [x]" tcp_fits "lift_out put" "\<lambda>m s. Inr (True, m, s)"
    writer_output emit "\<lambda>x. x \<noteq> []" "\<lambda>x. x = []" "\<lambda>_. ()" "\<lambda>_ _. ()"
proof
  show "wf_buf m'" if "wf_buf m" and "lift_in (SysvMq_Get I) m s = Inr (b, m', s')"
    for m b m' and s s' :: "'w writer_state"
    using that mq_in.get_wf by (auto simp: lift_in_def split: prod.splits sum.splits)
  show "len m' = 0" if "lift_in (SysvMq_Get I) m s = Inr (False, m', s')"
    for m m' and s s' :: "'w writer_state"
    using that mq_in.get_false by (auto simp: lift_in_def split: prod.splits sum.splits)
  show "\<exists>m' s'. lift_in (SysvMq_Get I) m s = Inr (True, m', s') \<and> len m' = length x \<and> payload m' = x \<and>
      writer_ready s' \<and> queue (mqid (fst (fst s'))) (snd (fst s')) = r"
    if "writer_ready s" and "tcp_fits x" and "queue (mqid (fst (fst s))) (snd (fst s)) = [x] @ r"
      and "wf_buf m" for s :: "'w writer_state" and x r m
    using that SysvMq_Get_oldest [of m "fst (fst s)" "snd (fst s)" x r]
    by (cases s) (auto simp: lift_in_def tcp_fits_def writer_ready_def)
  show "\<exists>m' s'. lift_in (SysvMq_Get I) m s = Inr (False, m', s')"
    if "queue (mqid (fst (fst s))) (snd (fst s)) = []" and "wf_buf m" for s :: "'w writer_state" and m
    using that SysvMq_Get_none [of m "fst (fst s)" "snd (fst s)"]
    by (cases s) (auto simp: lift_in_def)
  show "writer_output s' = writer_output s" if "lift_in (SysvMq_Get I) m s = Inr (b, m', s')"
    for m b m' and s s' :: "'w writer_state"
    using that by (auto simp: lift_in_def writer_output_def split: prod.splits sum.splits)
  show "\<exists>m' s'. lift_out put m s = Inr (True, m', s') \<and> wf_buf m' \<and>
      writer_output s' = writer_output s @ emit (payload m) \<and> writer_ready s' = writer_ready s \<and>
      queue (mqid (fst (fst s'))) (snd (fst s')) = queue (mqid (fst (fst s))) (snd (fst s))"
    if "writer_ready s" and "wf_msg m" and "payload m \<noteq> []" for s :: "'w writer_state" and m
  proof -
    have "0 < len m" using that(3) by (cases "len m") (auto simp: payload_def)
    with that out.put_writes [of m "fst (snd s)"] show ?thesis
      by (cases s) (auto simp: lift_out_def writer_ready_def writer_output_def ostream_write_def)
  qed
  show "\<exists>m' s'. lift_out put m s = Inr (False, m', s') \<and> writer_output s' = writer_output s \<and>
      queue (mqid (fst (fst s'))) (snd (fst s')) = queue (mqid (fst (fst s))) (snd (fst s))"
    if "wf_msg m" and "payload m = []" for s :: "'w writer_state" and m
    using that length_payload [of m] out.put_refuses [of m "fst (snd s)"]
    by (cases s) (auto simp: lift_out_def)
qed (auto simp: tcp_fits_def)

context queue_writer
begin

text \<open>
  The writer comes to the empty queue, where the kernel makes it wait, with every message printed; an
  empty message ends it, with those before it printed and those after it left in the queue.
\<close>

lemma writer_prints:
  assumes "\<forall>x \<in> set xs. tcp_fits x \<and> x \<noteq> []" and "queue (mqid q) w = xs" and "\<not> badbit (os_ptr io)"
    and "wf_buf m"
  shows "\<exists>m' q' w' io'. FilterLoop (writer_filter I put) m ((q, w), io, ()) =
      FilterLoop (writer_filter I put) m' ((q', w'), io', ()) \<and>
    queue (mqid q') w' = [] \<and> written (os_ptr io') = written (os_ptr io) @ concat (map emit xs)"
  using writer.FilterLoop_prefix [where s = "((q, w), io, ())", of xs "[]" m] assms
  by (auto simp: writer_filter_def filter_func_pass writer_ready_def writer_output_def)

lemma writer_stops:
  assumes "\<forall>x \<in> set xs. tcp_fits x \<and> x \<noteq> []" and "queue (mqid q) w = xs @ [] # rest"
    and "\<not> badbit (os_ptr io)" and "wf_buf m"
  shows "\<exists>m' q' w' io'. FilterLoop (writer_filter I put) m ((q, w), io, ()) =
      Some (Inr (m', (q', w'), io', ())) \<and>
    queue (mqid q') w' = rest \<and> written (os_ptr io') = written (os_ptr io) @ concat (map emit xs)"
  using writer.FilterLoop_rejected [where s = "((q, w), io, ())", of xs "[]" rest m] assms
  by (auto simp: writer_filter_def filter_func_pass writer_ready_def writer_output_def tcp_fits_def)

end

subsection \<open>Instances\<close>

interpretation ref_receiver: recv_kernel ref_net ref_incoming "ref_ipc None" ref_queue
  by unfold_locales
    (auto simp: ref_net_def ref_read_def ref_queue_def ref_incoming_def ref_ipc_def ref_msgsnd_def Let_def)

interpretation ref_line_writer: queue_writer "ref_ipc lim" ref_queue Line_Put line_frame for lim
  by unfold_locales
    (auto simp: ref_ipc_def ref_msgrcv_def ref_queue_def)

interpretation ref_length_writer: queue_writer "ref_ipc lim" ref_queue Length_Put length_frame for lim
  by unfold_locales
    (auto simp: ref_ipc_def ref_msgrcv_def ref_queue_def)

subsection \<open>Settings\<close>

lemma sint_int32: "- (2 ^ 31) \<le> i \<Longrightarrow> i < 2 ^ 31 \<Longrightarrow> sint (word_of_int i :: 32 word) = i"
  by (simp add: sint_uint unsigned_of_int signed_take_bit_take_bit signed_take_bit_int_eq_self)

lemma sint_int32_range: "sint (w :: 32 word) < 2147483648"
  using sint_lt [of w] by simp

text \<open>The setting is honoured exactly up to 2147483 seconds.\<close>

lemma heartbeat_exact_iff:
  assumes "getenv ''WISSBI_HEARTBEAT_SEC'' = Some (show_nat n)" and "int n \<le> int_max"
  shows "heartbeat_millis getenv = 1000 * int n \<longleftrightarrow> n \<le> 2147483"
proof -
  have h: "heartbeat_millis getenv = sint (word_of_int (int n * 1000) :: 32 word)"
    using assms by (simp add: heartbeat_millis_def extract_int_of_show_nat)
  show ?thesis
  proof
    assume "heartbeat_millis getenv = 1000 * int n"
    with h sint_int32_range [of "word_of_int (int n * 1000)"] show "n \<le> 2147483" by linarith
  next
    assume "n \<le> 2147483"
    then show "heartbeat_millis getenv = 1000 * int n" unfolding h by (subst sint_int32) auto
  qed
qed

text \<open>With assertions compiled out, no call makes the listening socket non-blocking.\<close>

lemma sub_listen_ndebug:
  "sub_listen (S\<lparr>srv_setfl := f\<rparr>) True inet_addr port0 w = sub_listen S True inet_addr port0 w"
  by (simp add: sub_listen_def case_prod_beta Let_def)

lemma sub_iteration_accepts:
  assumes "SubEntry_renew FS (sub_ent st) (sub_world st) = (None, w1)"
    and "srv_poll S (sub_serv st) heartbeat w1 = (p, w2)" and "0 < p"
    and "srv_accept S (sub_serv st) w2 = ((res, other), w3)" and "0 < res"
  shows "\<exists>w'. sub_iteration S FS inet_ntoa heartbeat st =
    (None, st\<lparr>receivers := receivers st @ [res], sub_world := w'\<rparr>)"
  using assms by (auto simp: sub_iteration_def Let_def split: prod.split)

end
