(* ===== verification/Codecvt_Base.thy ===== *)
theory Codecvt_Base
  imports Wissbi_Prelude
begin

unbundle bit_operations_syntax

text \<open>
  What the conversion routines of \<^verbatim>\<open>3rd_party/libcxx/src/locale.cpp\<close> share: the result codes of
  \<^verbatim>\<open>codecvt_base\<close>, the mode bits of \<^verbatim>\<open>codecvt_mode\<close>, and the three loops their bodies run in.

  A conversion reads \<^verbatim>\<open>[frm_nxt, frm_end)\<close>, here the list of the units still to read, and has
  \<^verbatim>\<open>to_end - to_nxt\<close> units of room. It returns its result code, the units it left unread and the
  units it wrote. The body of a loop is a function from the unread units and the room left to
  either the result of a \<^verbatim>\<open>return\<close> inside the loop, or the number of units \<^verbatim>\<open>frm_nxt\<close> moves by together
  with the units written.

  The locale \<open>transcoder\<close> is what such a body promises: it reads exactly the encoding \<open>E c\<close> of one
  character and writes exactly its encoding \<open>D c\<close>. What that says about the whole loop, in both
  directions, is proved once, here.
\<close>

datatype result = ok | partial | error | noconv | past_end

text \<open>
  The first four are \<^verbatim>\<open>codecvt_base::result\<close>. \<open>past_end\<close> is no value of that type: it stands for a routine that
  reads at \<^verbatim>\<open>frm_end\<close> or behind it, or moves \<^verbatim>\<open>frm_nxt\<close> past it, where the behaviour is undefined.
\<close>

text \<open>\<^verbatim>\<open>enum codecvt_mode\<close>: three independent bits.\<close>

definition consume_header :: u32 where "consume_header = 4"
definition generate_header :: u32 where "generate_header = 2"
definition little_endian :: u32 where "little_endian = 1"

definition has_mode :: "u32 \<Rightarrow> u32 \<Rightarrow> bool" where
  "has_mode mode b \<longleftrightarrow> mode AND b \<noteq> 0"

lemma has_mode_0 [simp]: "\<not> has_mode 0 b"
  by (simp add: has_mode_def)

text \<open>\<^verbatim>\<open>static_cast<int>\<close> of a pointer difference, and the narrowing casts of an \<^verbatim>\<open>int\<close>.\<close>

definition static_cast_int :: "nat \<Rightarrow> int" where
  "static_cast_int n = sint (word_of_nat n :: u32)"

abbreviation int32 :: "'a::len word \<Rightarrow> u32" where
  "int32 x \<equiv> ucast x"

abbreviation uint8_t :: "u32 \<Rightarrow> u8" where
  "uint8_t x \<equiv> ucast x"

abbreviation uint16_t :: "u32 \<Rightarrow> u16" where
  "uint16_t x \<equiv> ucast x"

text \<open>\<^verbatim>\<open>x > Maxcode\<close>, the operand converted to \<^verbatim>\<open>unsigned long\<close>.\<close>

definition above :: "'a::len word \<Rightarrow> u64 \<Rightarrow> bool" where
  "above x Maxcode \<longleftrightarrow> Maxcode < (ucast x :: u64)"

subsection \<open>The loops\<close>

type_synonym ('u, 'v) conv = "result \<times> 'u list \<times> 'v list"
type_synonym ('u, 'v) body = "'u list \<Rightarrow> nat \<Rightarrow> result + nat \<times> 'v list"

definition put_out :: "'v list \<Rightarrow> ('u, 'v) conv \<Rightarrow> ('u, 'v) conv" where
  "put_out vs cv = (case cv of (r, rest, out) \<Rightarrow> (r, rest, vs @ out))"

text \<open>\<^verbatim>\<open>frm_nxt[i]\<close>, read and handed on.\<close>

definition unit_at :: "'u list \<Rightarrow> nat \<Rightarrow> ('u \<Rightarrow> result + nat \<times> 'v list) \<Rightarrow> result + nat \<times> 'v list" where
  "unit_at frm i k = (if i < length frm then k (frm ! i) else Inl past_end)"

lemma unit_at_Cons [simp]: "unit_at (u # us) 0 k = k u" "unit_at (u # v # us) (Suc 0) k = k v"
  by (simp_all add: unit_at_def)

lemma unit_at_in: "i < length frm \<Longrightarrow> unit_at frm i k = k (frm ! i)"
  by (simp add: unit_at_def)

text \<open>A read behind a test of how many units are left.\<close>

lemma unit_reads:
  "(if length frm < 2 then A else unit_at frm 1 f) = (if length frm < 2 then A else f (frm ! 1))"
  "(if length frm < 3 then A else unit_at frm 1 (\<lambda>x. unit_at frm 2 (g x))) =
     (if length frm < 3 then A else g (frm ! 1) (frm ! 2))"
  "(if length frm < 4 then A else unit_at frm 2 (\<lambda>x. unit_at frm 3 (g x))) =
     (if length frm < 4 then A else g (frm ! 2) (frm ! 3))"
  "(if length frm < 4 then A else unit_at frm 1 (\<lambda>x. unit_at frm 2 (\<lambda>y. unit_at frm 3 (h x y)))) =
     (if length frm < 4 then A else h (frm ! 1) (frm ! 2) (frm ! 3))"
  by (simp_all add: unit_at_def)

text \<open>\<^verbatim>\<open>for (; frm_nxt < frm_end; ++frm_nxt) ... return ok;\<close>\<close>

fun out_loop :: "('u, 'v) body \<Rightarrow> 'u list \<Rightarrow> nat \<Rightarrow> ('u, 'v) conv" where
  "out_loop body [] room = (ok, [], [])"
| "out_loop body (u # us) room =
     (case body (u # us) room of
        Inl r \<Rightarrow> (r, u # us, [])
      | Inr (n, out) \<Rightarrow>
          if length (u # us) < n then (past_end, [], out)
          else put_out out (out_loop body (drop (n - 1) us) (room - length out)))"

text \<open>
  \<^verbatim>\<open>for (; frm_nxt < frm_end - (w - 1) && to_nxt < to_end; ++to_nxt) ...\<close>, followed by
  \<^verbatim>\<open>return frm_nxt < frm_end ? partial : ok;\<close>
\<close>

fun in_loop :: "nat \<Rightarrow> ('u, 'v) body \<Rightarrow> 'u list \<Rightarrow> nat \<Rightarrow> ('u, 'v) conv" where
  "in_loop w body [] room = (ok, [], [])"
| "in_loop w body (u # us) room =
     (if length (u # us) < w \<or> room = 0 then (partial, u # us, [])
      else case body (u # us) room of
        Inl r \<Rightarrow> (r, u # us, [])
      | Inr (n, out) \<Rightarrow>
          if length (u # us) < n then (past_end, [], out)
          else put_out out (in_loop w body (drop (n - 1) us) (room - length out)))"

text \<open>
  The same loop of a \<^verbatim>\<open>_length\<close> routine, which counts the units it would write up to \<^verbatim>\<open>mx\<close> and returns
  how far \<^verbatim>\<open>frm_nxt\<close> got. Its body gives how far one character moves \<^verbatim>\<open>frm_nxt\<close> and how many units it
  counts for, or \<open>None\<close> where the loop is left.
\<close>

fun length_loop :: "nat \<Rightarrow> ('u list \<Rightarrow> nat \<Rightarrow> (nat \<times> nat) option) \<Rightarrow> 'u list \<Rightarrow> nat \<Rightarrow> nat" where
  "length_loop w body [] mx = 0"
| "length_loop w body (u # us) mx =
     (if length (u # us) < w \<or> mx = 0 then 0
      else case body (u # us) mx of
        None \<Rightarrow> 0
      | Some (n, k) \<Rightarrow> n + length_loop w body (drop (n - 1) us) (mx - k))"

text \<open>The byte order mark that opens the output, when there is room for it.\<close>

definition with_header :: "'v list \<Rightarrow> u32 \<Rightarrow> nat \<Rightarrow> 'u list \<Rightarrow> (nat \<Rightarrow> ('u, 'v) conv) \<Rightarrow> ('u, 'v) conv" where
  "with_header bom mode room frm loop =
     (if has_mode mode generate_header then
        if room < length bom then (partial, frm, [])
        else put_out bom (loop (room - length bom))
      else loop room)"

text \<open>The byte order mark that may open the input.\<close>

definition skip_header :: "'u list \<Rightarrow> u32 \<Rightarrow> 'u list \<Rightarrow> 'u list" where
  "skip_header bom mode frm =
     (if has_mode mode consume_header \<and> take (length bom) frm = bom then drop (length bom) frm else frm)"

lemma put_out_simps [simp]: "put_out vs (r, rest, out) = (r, rest, vs @ out)"
  by (simp add: put_out_def)

lemma put_out_emit [simp]: "put_out vs (put_out ws c) = put_out (vs @ ws) c" and put_out_Nil [simp]: "put_out [] c = c"
  by (simp_all add: put_out_def split: prod.splits)

lemma put_out_eq_conv: "put_out vs c = (r, rest, out) \<longleftrightarrow> (\<exists>o'. c = (r, rest, o') \<and> out = vs @ o')"
  by (cases c) auto

text \<open>What the byte order marks do to the input and the output.\<close>

lemma with_header_eq:
  "with_header bom mode room frm loop =
     (let hdr = if has_mode mode generate_header then bom else [] in
      if room < length hdr then (partial, frm, []) else put_out hdr (loop (room - length hdr)))"
  by (simp add: with_header_def)

lemma skip_header_suffix: "\<exists>hdr. frm = hdr @ skip_header bom mode frm \<and> (hdr = [] \<or> hdr = bom)"
  unfolding skip_header_def by (metis append_Nil append_take_drop_id)

lemma skip_header_consumes: "has_mode mode consume_header \<Longrightarrow> skip_header bom mode (bom @ frm) = frm"
  by (simp add: skip_header_def)

lemma skip_header_off: "\<not> has_mode mode consume_header \<Longrightarrow> skip_header bom mode frm = frm"
  by (simp add: skip_header_def)

lemma static_cast_int_small: "n < 2 ^ 31 \<Longrightarrow> static_cast_int n = int n"
  by (simp add: static_cast_int_def sint_uint signed_take_bit_int_eq_self unsigned_of_nat take_bit_nat_eq_self)

text \<open>Both loops are one: the second reports a full output or a cut unit before it runs its body.\<close>

definition guarded :: "nat \<Rightarrow> ('u, 'v) body \<Rightarrow> ('u, 'v) body" where
  "guarded w body us room = (if length us < w \<or> room = 0 then Inl partial else body us room)"

lemma in_loop_is_out_loop: "in_loop w body us room = out_loop (guarded w body) us room"
  by (induction w body us room rule: in_loop.induct) (simp_all add: guarded_def split: sum.split)

subsection \<open>What a body promises\<close>

text \<open>A sequence of characters in an encoding.\<close>

definition encoded :: "(nat \<Rightarrow> 'u list) \<Rightarrow> nat list \<Rightarrow> 'u list" where
  "encoded E cs = concat (map E cs)"

lemma encoded_simps [simp]: "encoded E [] = []" "encoded E (c # cs) = E c @ encoded E cs"
  by (simp_all add: encoded_def)

text \<open>
  A conversion is exact for a set of characters and two encodings of them when every run, whatever its
  input and its room, has converted a sequence of those characters from the one to the other, is ok
  exactly when nothing is left unread, stops in front of a character only for want of room, and
  reports an error only where no continuation of the input would make it a character.
\<close>

definition converts_exactly ::
  "('u list \<Rightarrow> nat \<Rightarrow> ('u, 'v) conv) \<Rightarrow> (nat \<Rightarrow> bool) \<Rightarrow> (nat \<Rightarrow> 'u list) \<Rightarrow> (nat \<Rightarrow> 'v list) \<Rightarrow> bool" where
  "converts_exactly f cp E D \<longleftrightarrow>
     (\<forall>us room r rest out. f us room = (r, rest, out) \<longrightarrow>
        (\<exists>cs. list_all cp cs \<and> us = encoded E cs @ rest \<and> out = encoded D cs \<and> length out \<le> room \<and>
           r \<in> {ok, partial, error} \<and> (r = ok \<longleftrightarrow> rest = []) \<and>
           (\<forall>c xs. cp c \<longrightarrow> rest = E c @ xs \<longrightarrow> r = partial \<and> room - length out < length (D c)) \<and>
           (r = error \<longrightarrow> (\<forall>c xs more. cp c \<longrightarrow> rest @ more \<noteq> E c @ xs))))"

text \<open>
  A conversion refuses what is no character: where it stops in front of units that begin no character, it
  is with an error.
\<close>

definition refuses_others ::
  "('u list \<Rightarrow> nat \<Rightarrow> ('u, 'v) conv) \<Rightarrow> (nat \<Rightarrow> bool) \<Rightarrow> (nat \<Rightarrow> 'u list) \<Rightarrow> bool" where
  "refuses_others f cp E \<longleftrightarrow>
     (\<forall>us room r rest out. f us room = (r, rest, out) \<longrightarrow> rest \<noteq> [] \<longrightarrow>
        (\<forall>c xs. cp c \<longrightarrow> rest \<noteq> E c @ xs) \<longrightarrow> r = error)"

locale transcoder =
  fixes body :: "('u, 'v) body"
    and cp :: "nat \<Rightarrow> bool"
    and E :: "nat \<Rightarrow> 'u list"
    and D :: "nat \<Rightarrow> 'v list"
  assumes reads_one: "us \<noteq> [] \<Longrightarrow> body us room = Inr (n, out) \<Longrightarrow>
      \<exists>c rest. cp c \<and> us = E c @ rest \<and> n = length (E c) \<and> out = D c \<and> length (D c) \<le> room"
    and accepts: "cp c \<Longrightarrow> length (D c) \<le> room \<Longrightarrow> body (E c @ rest) room = Inr (length (E c), D c)"
    and error_final: "us \<noteq> [] \<Longrightarrow> body us room = Inl error \<Longrightarrow> cp c \<Longrightarrow> us @ more \<noteq> E c @ rest"
    and stops_with: "us \<noteq> [] \<Longrightarrow> body us room = Inl r \<Longrightarrow> r = partial \<or> r = error"
    and nonempty: "cp c \<Longrightarrow> E c \<noteq> []"
begin

lemma out_loop_char:
  assumes "cp c" "length (D c) \<le> room"
  shows "out_loop body (E c @ rest) room = put_out (D c) (out_loop body rest (room - length (D c)))"
proof -
  obtain u us where E: "E c = u # us" using nonempty [OF assms(1)] by (cases "E c") auto
  with accepts [OF assms, of rest] show ?thesis by simp
qed

lemma out_loop_chars:
  assumes "list_all cp cs" "length (encoded D cs) \<le> room"
  shows "out_loop body (encoded E cs @ rest) room = put_out (encoded D cs) (out_loop body rest (room - length (encoded D cs)))"
  using assms by (induction cs arbitrary: room) (simp_all add: out_loop_char)

lemma converts_all:
  "list_all cp cs \<Longrightarrow> length (encoded D cs) \<le> room \<Longrightarrow> out_loop body (encoded E cs) room = (ok, [], encoded D cs)"
  using out_loop_chars [of cs room "[]"] by simp

lemma stops_where:
  assumes "us \<noteq> []" "body us room = Inl r"
  shows "r \<in> {partial, error}"
    and "cp c \<Longrightarrow> us = E c @ xs \<Longrightarrow> r = partial \<and> room < length (D c)"
    and "r = error \<Longrightarrow> cp c \<Longrightarrow> us @ more \<noteq> E c @ xs"
proof -
  show r: "r \<in> {partial, error}" using stops_with assms by blast
  show "r = partial \<and> room < length (D c)" if "cp c" "us = E c @ xs"
    using accepts [of c room xs] error_final [of us room c "[]" xs] that assms r by fastforce
  show "us @ more \<noteq> E c @ xs" if "r = error" "cp c"
    using error_final assms that by blast
qed

lemma goes_on:
  assumes "body (u # us) room = Inr (n, out)"
  obtains c where "cp c" "u # us = E c @ drop (n - 1) us" "out = D c" "length (D c) \<le> room"
    "\<not> length (u # us) < n"
proof -
  from reads_one [OF _ assms] obtain c xs where
    c: "cp c" "u # us = E c @ xs" "n = length (E c)" "out = D c" "length (D c) \<le> room" by blast
  have "0 < n" "drop n (u # us) = xs" using nonempty [OF c(1)] c by simp_all
  then have "drop (n - 1) us = xs" by (cases n) auto
  moreover have "\<not> length (u # us) < n" unfolding c(2,3) by simp
  ultimately show thesis using c that by simp
qed

text \<open>
  Everything a run can do: it has converted a sequence of characters, wrote no more than the room,
  and stopped either at the end or in front of something that is no character or does not fit.
\<close>

lemma converts_only:
  assumes "out_loop body us room = (r, rest, out)"
  shows "\<exists>cs. list_all cp cs \<and> us = encoded E cs @ rest \<and> out = encoded D cs \<and> length out \<le> room \<and>
           r \<in> {ok, partial, error} \<and> (r = ok \<longleftrightarrow> rest = []) \<and>
           (\<forall>c xs. cp c \<longrightarrow> rest = E c @ xs \<longrightarrow> r = partial \<and> room - length out < length (D c)) \<and>
           (r = error \<longrightarrow> (\<forall>c xs more. cp c \<longrightarrow> rest @ more \<noteq> E c @ xs))"
  using assms
proof (induction us arbitrary: room r rest out rule: length_induct)
  case (1 vs)
  consider "vs = []" | u us r' where "vs = u # us" "body (u # us) room = Inl r'"
    | u us n o1 where "vs = u # us" "body (u # us) room = Inr (n, o1)"
    by (cases vs; cases "body vs room") auto
  then show ?case
  proof cases
    case 1
    with "1.prems" show ?thesis by (auto intro!: exI [of _ "[]"] dest: nonempty)
  next
    case 2
    with "1.prems" stops_where [OF list.distinct(2) 2(2)] show ?thesis by (intro exI [of _ "[]"]) auto
  next
    case 3
    obtain c where c: "cp c" "u # us = E c @ drop (n - 1) us" "o1 = D c" "length (D c) \<le> room"
      "\<not> length (u # us) < n"
      using goes_on [OF 3(2)] .
    from "1.prems" 3 c(5) obtain o2 where
      o2: "out_loop body (drop (n - 1) us) (room - length o1) = (r, rest, o2)" "out = o1 @ o2"
      by (auto simp: put_out_eq_conv)
    have "length (drop (n - 1) us) < length vs" using 3 by simp
    with "1.IH" o2(1) obtain cs where cs: "list_all cp cs" "drop (n - 1) us = encoded E cs @ rest"
      "o2 = encoded D cs" "length o2 \<le> room - length o1" "r \<in> {ok, partial, error}" "(r = ok) = (rest = [])"
      "\<forall>c xs. cp c \<longrightarrow> rest = E c @ xs \<longrightarrow> r = partial \<and> room - length o1 - length o2 < length (D c)"
      "r = error \<longrightarrow> (\<forall>c xs more. cp c \<longrightarrow> rest @ more \<noteq> E c @ xs)"
      by blast
    show ?thesis
      using cs c(1-4) o2(2) 3(1) by (intro exI [of _ "c # cs"]) (simp add: diff_diff_left)
  qed
qed

text \<open>A run that leaves something unread was ended there by the body.\<close>

lemma stopped_by:
  "out_loop body us room = (r, rest, out) \<Longrightarrow> rest \<noteq> [] \<Longrightarrow> body rest (room - length out) = Inl r"
proof (induction us arbitrary: room r rest out rule: length_induct)
  case (1 vs)
  consider "vs = []" | u us r' where "vs = u # us" "body (u # us) room = Inl r'"
    | u us n o1 where "vs = u # us" "body (u # us) room = Inr (n, o1)"
    by (cases vs; cases "body vs room") auto
  then show ?case
  proof cases
    case 3
    have "\<not> length (u # us) < n" by (rule goes_on [OF 3(2)]) blast
    with "1.prems" 3 obtain o2 where
      o2: "out_loop body (drop (n - 1) us) (room - length o1) = (r, rest, o2)" "out = o1 @ o2"
      by (auto simp: put_out_eq_conv)
    have "length (drop (n - 1) us) < length vs" using 3 by simp
    with "1.IH" o2(1) "1.prems"(2) have "body rest (room - length o1 - length o2) = Inl r" by blast
    then show ?thesis by (simp add: o2(2))
  qed (use "1.prems" in auto)
qed

lemma exact: "converts_exactly (out_loop body) cp E D"
  unfolding converts_exactly_def using converts_only by blast

end

text \<open>A code point as one unit, and a body that writes the encoding of one such unit at a time.\<close>

definition utf32 :: "nat \<Rightarrow> 'a::len word list" where
  "utf32 c = [of_nat c]"

locale unit_writer =
  fixes body :: "('a::len word, 'v) body" and cp :: "nat \<Rightarrow> bool" and D :: "nat \<Rightarrow> 'v list"
  assumes writes: "body (wc # ws) room =
      (if \<not> cp (unat wc) then Inl error
       else if room < length (D (unat wc)) then Inl partial
       else Inr (1, D (unat wc)))"
    and cp_fits: "cp c \<Longrightarrow> c < 2 ^ LENGTH('a)"

sublocale unit_writer \<subseteq> transcoder body cp utf32 D
proof
  have unat: "unat (of_nat c :: 'a word) = c" if "cp c" for c
    using cp_fits [OF that] by (simp add: unat_of_nat take_bit_nat_eq_self)
  fix us more rest :: "'a word list" and room n out r c
  show "body (utf32 c @ rest) room = Inr (length (utf32 c :: 'a word list), D c)" if "cp c" "length (D c) \<le> room"
    using that by (simp add: writes unat utf32_def)
  assume "us \<noteq> []"
  then obtain wc ws where us: "us = wc # ws" by (cases us) auto
  show "\<exists>c rest. cp c \<and> us = utf32 c @ rest \<and> n = length (utf32 c :: 'a word list) \<and> out = D c \<and> length (D c) \<le> room"
    if "body us room = Inr (n, out)"
    using that unfolding us writes by (intro exI [of _ "unat wc"]) (auto simp: utf32_def split: if_splits)
  show "us @ more \<noteq> utf32 c @ rest" if "body us room = Inl error" "cp c"
    using that unfolding us writes by (auto simp: unat utf32_def split: if_splits)
  show "r = partial \<or> r = error" if "body us room = Inl r"
    using that unfolding us writes by (auto split: if_splits)
qed (simp add: utf32_def)

context unit_writer
begin

lemma refuses: "refuses_others (out_loop body) cp utf32"
  unfolding refuses_others_def
proof (intro allI impI)
  fix us room r rest out
  assume run: "out_loop body us room = (r, rest, out)" and ne: "rest \<noteq> []"
    and no_char: "\<forall>c xs. cp c \<longrightarrow> rest \<noteq> utf32 c @ xs"
  from ne obtain wc ws where rest: "rest = wc # ws" by (cases rest) auto
  then have "\<not> cp (unat wc)" using no_char by (auto simp: utf32_def)
  with stopped_by [OF run ne] show "r = error" unfolding rest writes by simp
qed

end

text \<open>Two bodies that invert each other on the same characters.\<close>

locale transcoder_pair =
  forth: transcoder there cp E D + backw: transcoder here cp D E
  for there :: "('u, 'v) body" and here :: "('v, 'u) body" and cp E D
begin

text \<open>What one conversion wrote, the other reads back, whatever stopped the first.\<close>

lemma read_back:
  assumes "out_loop there us room = (r, rest, out)" "length us \<le> room'"
  shows "\<exists>done. us = done @ rest \<and> out_loop here out room' = (ok, [], done)"
proof -
  from forth.converts_only [OF assms(1)] obtain cs where
    cs: "list_all cp cs" "us = encoded E cs @ rest" "out = encoded D cs" by blast
  with assms(2) have "out_loop here out room' = (ok, [], encoded E cs)"
    by (simp add: backw.converts_all)
  with cs show ?thesis by blast
qed

lemma round_trip:
  assumes "out_loop there us room = (ok, rest, out)" "length us \<le> room'"
  shows "out_loop here out room' = (ok, [], us)"
  using read_back [OF assms] forth.converts_only [OF assms(1)] by auto

lemma routine_round_trip:
  assumes "with_header bom mode room us (out_loop there us) = (ok, rest, out)" "length us \<le> room'"
    "has_mode mode generate_header = has_mode mode consume_header"
  shows "out_loop here (skip_header bom mode out) room' = (ok, [], us)"
proof (cases "has_mode mode generate_header")
  case True
  with assms(1) obtain o' where "out_loop there us (room - length bom) = (ok, rest, o')" "out = bom @ o'"
    by (auto simp: with_header_def put_out_eq_conv split: if_splits)
  with True assms(2,3) round_trip show ?thesis by (simp add: skip_header_consumes)
next
  case False
  with assms round_trip show ?thesis by (simp add: with_header_def skip_header_off)
qed

end

text \<open>A \<^verbatim>\<open>_length\<close> body that counts what a conversion body does.\<close>

locale length_body =
  fixes w :: nat and body :: "('u, 'v) body" and count :: "'u list \<Rightarrow> nat \<Rightarrow> (nat \<times> nat) option"
  assumes counts: "w \<le> length us \<Longrightarrow> 0 < mx \<Longrightarrow> us \<noteq> [] \<Longrightarrow>
      count us mx = (case body us mx of Inl r \<Rightarrow> None | Inr (n, out) \<Rightarrow> Some (n, length out))"
    and moves: "w \<le> length us \<Longrightarrow> us \<noteq> [] \<Longrightarrow> body us mx = Inr (n, out) \<Longrightarrow> 0 < n \<and> n \<le> length us"
begin

lemma length_loop_exact:
  "length_loop w count us mx + length (fst (snd (in_loop w body us mx))) = length us"
proof (induction us arbitrary: mx rule: length_induct)
  case (1 us)
  show ?case
  proof (cases "w \<le> length us \<and> 0 < mx \<and> us \<noteq> []")
    case False
    then show ?thesis by (cases us) auto
  next
    case True
    then obtain v vs where us: "us = v # vs" by (cases us) auto
    show ?thesis
    proof (cases "body us mx")
      case (Inl r)
      then show ?thesis using True us counts [of us mx] by simp
    next
      case (Inr p)
      then obtain n out where b: "body us mx = Inr (n, out)" by (cases p) auto
      then have n: "0 < n" "n \<le> length us" using moves True by blast+
      have "length (drop (n - 1) vs) < length us" using us by simp
      with 1 have "length_loop w count (drop (n - 1) vs) (mx - length out) +
          length (fst (snd (in_loop w body (drop (n - 1) vs) (mx - length out)))) = length (drop (n - 1) vs)"
        by blast
      then show ?thesis using True us b n counts [of us mx] by (auto simp: put_out_def split: prod.split)
    qed
  qed
qed

lemma routine_length:
  fixes bom and mode :: u32
  assumes "length frm < 2 ^ 31"
  defines "nxt \<equiv> skip_header bom mode frm"
  shows "static_cast_int ((length frm - length nxt) + length_loop w count nxt mx) =
    int (length frm - length (fst (snd (in_loop w body nxt mx))))"
proof -
  have "length nxt \<le> length frm"
    using skip_header_suffix [of frm bom mode] by (metis length_append le_add2 nxt_def)
  then have "(length frm - length nxt) + length_loop w count nxt mx =
      length frm - length (fst (snd (in_loop w body nxt mx)))"
    using length_loop_exact [of nxt mx] by linarith
  then show ?thesis using assms(1) by (simp add: static_cast_int_small)
qed

end


text \<open>
  What holds of a body whatever \<^verbatim>\<open>Maxcode\<close> is: it moves by at most \<open>N\<close> units, never past the end of
  the input, reads nothing there, writes something when it moves, and never more than the room.
\<close>

locale bounded_body =
  fixes N :: nat and body :: "('u, 'v) body"
  assumes fits: "us \<noteq> [] \<Longrightarrow> body us room = Inr (n, out) \<Longrightarrow>
      0 < n \<and> n \<le> N \<and> n \<le> length us \<and> out \<noteq> [] \<and> length out \<le> room"
    and reads_within: "us \<noteq> [] \<Longrightarrow> body us room \<noteq> Inl past_end"
begin

lemma loop_fits:
  "out_loop body us room = (r, rest, out) \<Longrightarrow>
    r \<noteq> past_end \<and> length out \<le> room \<and> (\<exists>done. us = done @ rest)"
proof (induction us arbitrary: room r rest out rule: length_induct)
  case (1 us)
  show ?case
  proof (cases us)
    case Nil
    with "1.prems" show ?thesis by simp
  next
    case (Cons v vs)
    show ?thesis
    proof (cases "body us room")
      case (Inl r')
      with "1.prems" Cons reads_within [of us room] show ?thesis by auto
    next
      case (Inr p)
      then obtain n o1 where b: "body us room = Inr (n, o1)" by (cases p) auto
      moreover have "\<not> length us < n" using fits [OF _ b] Cons by simp
      ultimately obtain o2 where o2: "out_loop body (drop (n - 1) vs) (room - length o1) = (r, rest, o2)"
        "out = o1 @ o2" using "1.prems" Cons by (auto simp: put_out_eq_conv)
      have "length (drop (n - 1) vs) < length us" using Cons by simp
      with "1.IH" o2(1) obtain d where "r \<noteq> past_end" "length o2 \<le> room - length o1" "drop (n - 1) vs = d @ rest" by blast
      moreover have "us = (v # take (n - 1) vs @ d) @ rest"
        using calculation(3) Cons by (metis append.assoc append_Cons append_take_drop_id)
      then have "\<exists>done. us = done @ rest" by blast
      moreover have "length o1 \<le> room" using fits [OF _ b] Cons by simp
      ultimately show ?thesis using o2(2) by simp
    qed
  qed
qed

lemma one_char: "out_loop body us 1 = (r, rest, out) \<Longrightarrow> length us \<le> N + length rest"
proof (cases us)
  case (Cons v vs)
  assume run: "out_loop body us 1 = (r, rest, out)"
  have none: "out_loop body xs 0 = (r', rest', out') \<Longrightarrow> rest' = xs" for xs r' rest' out'
    using fits [of xs 0] by (cases xs; cases "body xs 0") auto
  show ?thesis
  proof (cases "body us 1")
    case (Inl r')
    with run Cons show ?thesis by simp
  next
    case (Inr p)
    then obtain n o1 where b: "body us 1 = Inr (n, o1)" by (cases p) auto
    have f: "0 < n" "n \<le> N" "n \<le> length us" "length o1 = 1" using fits [OF _ b] Cons by (auto simp: le_Suc_eq)
    with run Cons b obtain o2 where "out_loop body (drop (n - 1) vs) 0 = (r, rest, o2)" by (auto simp: put_out_eq_conv)
    with none have "rest = drop (n - 1) vs" by blast
    with f Cons show ?thesis by simp
  qed
qed simp

text \<open>The routines around the loops.\<close>

lemma routine_out_fits:
  assumes "with_header bom mode room us (out_loop body us) = (r, rest, out)"
  shows "r \<noteq> past_end \<and> length out \<le> room \<and> (\<exists>done. us = done @ rest)"
  using assms loop_fits [of us] by (fastforce simp: with_header_eq Let_def put_out_eq_conv split: if_splits)

lemma routine_in_fits:
  assumes "out_loop body (skip_header bom mode us) room = (r, rest, out)"
  shows "r \<noteq> past_end \<and> length out \<le> room \<and> (\<exists>done. us = done @ rest)"
  using loop_fits [OF assms] skip_header_suffix [of us bom mode] by (metis append.assoc)

lemma routine_one_char:
  assumes "out_loop body (skip_header bom mode us) 1 = (r, rest, out)"
  shows "length us \<le> (if has_mode mode consume_header then length bom else 0) + N + length rest"
  using one_char [OF assms] by (auto simp: skip_header_def split: if_splits)

end

end
