(* ===== verification/Utf_Spec.thy ===== *)
theory Utf_Spec
  imports Codecvt_Base
begin

text \<open>
  The encodings the conversion routines are about, as arithmetic on code points: \<open>utf8\<close>, \<open>utf16\<close>,
  \<open>utf32\<close> and the two byte orders of UTF-16, with the table of valid ranges in the comment above the
  routines (\<^verbatim>\<open>locale.cpp\<close>) as \<open>scalar\<close>. After them, the facts that turn the shifts and masks of the
  routines into that arithmetic.
\<close>

unbundle bit_operations_syntax

subsection \<open>Encodings\<close>

definition scalar :: "nat \<Rightarrow> bool" where
  "scalar c \<longleftrightarrow> c < 0xD800 \<or> 0xE000 \<le> c \<and> c \<le> 0x10FFFF"

definition cp_upto :: "u64 \<Rightarrow> nat \<Rightarrow> bool" where
  "cp_upto Maxcode c \<longleftrightarrow> scalar c \<and> c \<le> unat Maxcode"

definition bmp_upto :: "u64 \<Rightarrow> nat \<Rightarrow> bool" where
  "bmp_upto Maxcode c \<longleftrightarrow> cp_upto Maxcode c \<and> c \<le> 0xFFFF"

definition utf8 :: "nat \<Rightarrow> u8 list" where
  "utf8 c =
     (if c < 0x80 then [of_nat c]
      else if c < 0x800 then [of_nat (0xC0 + c div 64), of_nat (0x80 + c mod 64)]
      else if c < 0x10000 then
        [of_nat (0xE0 + c div 4096), of_nat (0x80 + c div 64 mod 64), of_nat (0x80 + c mod 64)]
      else [of_nat (0xF0 + c div 262144), of_nat (0x80 + c div 4096 mod 64),
            of_nat (0x80 + c div 64 mod 64), of_nat (0x80 + c mod 64)])"

definition utf16 :: "nat \<Rightarrow> 'a::len word list" where
  "utf16 c =
     (if c < 0x10000 then [of_nat c]
      else [of_nat (0xD800 + (c - 0x10000) div 1024), of_nat (0xDC00 + (c - 0x10000) mod 1024)])"

text \<open>A 16-bit unit as two bytes.\<close>

definition be16 :: "u16 \<Rightarrow> u8 list" where
  "be16 w = [ucast (drop_bit 8 w), ucast w]"

definition le16 :: "u16 \<Rightarrow> u8 list" where
  "le16 w = [ucast w, ucast (drop_bit 8 w)]"

definition utf16_bytes :: "(u16 \<Rightarrow> u8 list) \<Rightarrow> nat \<Rightarrow> u8 list" where
  "utf16_bytes bytes c = concat (map bytes (utf16 c))"

subsection \<open>Shifts and masks as arithmetic\<close>

text \<open>A shift of a mask stays as the routines write it.\<close>

declare push_bit_and [simp del] drop_bit_and [simp del]

lemma or_eq_plus_nat: "2 ^ k dvd x \<Longrightarrow> y < 2 ^ k \<Longrightarrow> x OR y = x + (y :: nat)"
proof -
  assume "2 ^ k dvd x" and "y < 2 ^ k"
  then obtain z where x: "x = push_bit k z" by (auto simp: push_bit_eq_mult mult.commute elim: dvdE)
  have y: "y = take_bit k y" using \<open>y < 2 ^ k\<close> by (simp add: take_bit_nat_eq_self)
  have "x AND y = 0"
    unfolding x by (subst y) (simp add: bit_eq_iff bit_simps)
  then show ?thesis by (simp add: disjunctive_add_eq_or)
qed

lemma and_field_nat: "(x :: nat) AND (2 ^ a * (2 ^ b - 1)) = x div 2 ^ a mod 2 ^ b * 2 ^ a"
proof -
  have "x AND (push_bit a (mask b)) = push_bit a (take_bit b (drop_bit a x))"
    by (auto simp add: bit_eq_iff bit_simps)
  then show ?thesis
    by (simp add: mask_eq_exp_minus_1 push_bit_eq_mult drop_bit_eq_div take_bit_eq_mod mult.commute)
qed

lemma and_low_nat: "(x :: nat) AND (2 ^ b - 1) = x mod 2 ^ b"
  using and_field_nat [of x 0 b] by simp

lemma and_nat_3: "x AND 0x3 = x mod 4" for x :: nat
  using and_low_nat [of x 2] by simp

lemma and_nat_7: "x AND 0x7 = x mod 8" for x :: nat
  using and_low_nat [of x 3] by simp

lemma and_nat_F: "x AND 0xF = x mod 16" for x :: nat
  using and_low_nat [of x 4] by simp

lemma and_nat_1F: "x AND 0x1F = x mod 32" for x :: nat
  using and_low_nat [of x 5] by simp

lemma and_nat_3F: "x AND 0x3F = x mod 64" for x :: nat
  using and_low_nat [of x 6] by simp

lemma and_nat_3FF: "x AND 0x3FF = x mod 1024" for x :: nat
  using and_low_nat [of x 10] by simp

lemma and_nat_30: "x AND 0x30 = x div 16 mod 4 * 16" for x :: nat
  using and_field_nat [of x 4 2] by simp

lemma and_nat_F0: "x AND 0xF0 = x div 16 mod 16 * 16" for x :: nat
  using and_field_nat [of x 4 4] by simp

lemma and_nat_E0: "x AND 0xE0 = x div 32 mod 8 * 32" for x :: nat
  using and_field_nat [of x 5 3] by simp

lemma and_nat_C0: "x AND 0xC0 = x div 64 mod 4 * 64" for x :: nat
  using and_field_nat [of x 6 2] by simp

lemma and_nat_3C: "x AND 0x3C = x div 4 mod 16 * 4" for x :: nat
  using and_field_nat [of x 2 4] by simp

lemma and_nat_3C0: "x AND 0x3C0 = x div 64 mod 16 * 64" for x :: nat
  using and_field_nat [of x 6 4] by simp

lemma and_nat_FC0: "x AND 0xFC0 = x div 64 mod 64 * 64" for x :: nat
  using and_field_nat [of x 6 6] by simp

lemma and_nat_3F000: "x AND 0x3F000 = x div 4096 mod 64 * 4096" for x :: nat
  using and_field_nat [of x 12 6] by simp

lemma and_nat_FC00: "x AND 0xFC00 = x div 1024 mod 64 * 1024" for x :: nat
  using and_field_nat [of x 10 6] by simp

lemma and_nat_F800: "x AND 0xF800 = x div 2048 mod 32 * 2048" for x :: nat
  using and_field_nat [of x 11 5] by simp

lemma and_nat_FFFFF800: "x AND 0xFFFFF800 = x div 2048 mod 2097152 * 2048" for x :: nat
  using and_field_nat [of x 11 21] by simp

lemma and_nat_1F0000: "x AND 0x1F0000 = x div 65536 mod 32 * 65536" for x :: nat
  using and_field_nat [of x 16 5] by simp

lemmas and_nat =
  and_nat_3 and_nat_7 and_nat_F and_nat_1F and_nat_3F and_nat_3FF and_nat_30 and_nat_F0 and_nat_E0 and_nat_C0 and_nat_3C and_nat_3C0 and_nat_FC0 and_nat_3F000 and_nat_FC00 and_nat_F800 and_nat_FFFFF800 and_nat_1F0000

lemma unat_lt: "unat (x :: u8) < 256" "unat (y :: u16) < 65536" "unat (z :: u32) < 4294967296"
  using unsigned_less [of x, where ?'a = nat] unsigned_less [of y, where ?'a = nat]
    unsigned_less [of z, where ?'a = nat] by simp_all

lemma unat_u32 [simp]: "unat (int32 (x :: u8)) = unat x" "unat (int32 (y :: u16)) = unat y"
  using unat_lt(1) [of x] unat_lt(2) [of y]
  by (simp_all add: unsigned_ucast_eq take_bit_eq_mod)

lemma unat_u64 [simp]: "unat (ucast (x :: u8) :: u64) = unat x" "unat (ucast (y :: u16) :: u64) = unat y"
  "unat (ucast (z :: u32) :: u64) = unat z"
  using unat_lt(1) [of x] unat_lt(2) [of y] unat_lt(3) [of z]
  by (simp_all add: unsigned_ucast_eq take_bit_eq_mod)

lemma unat_push_bit: "unat (push_bit k (x :: 'a::len word)) = unat x * 2 ^ k mod 2 ^ LENGTH('a)"
  by (simp only: unsigned_push_bit_eq) (simp add: push_bit_eq_mult take_bit_eq_mod)

lemma unat_drop_bit: "unat (drop_bit k (x :: 'a::len word)) = unat x div 2 ^ k"
  by (simp only: unsigned_drop_bit_eq) (simp add: drop_bit_eq_div take_bit_nat_eq_self)

lemma ucast_of_unat: "ucast (x :: 'a::len word) = (of_nat (unat x) :: 'b::len word)"
  by simp

lemma narrow_widened: "uint8_t (int32 (x :: u16)) = ucast x" "uint16_t (int32 (y :: u8)) = ucast y"
  by (rule bit_word_eqI, simp add: bit_simps)+

lemmas unat_bits = unsigned_and_eq unsigned_or_eq unat_push_bit unat_drop_bit

lemma above_iff: "above (x :: u8) M \<longleftrightarrow> unat M < unat x" "above (y :: u16) M \<longleftrightarrow> unat M < unat y"
  "above (z :: u32) M \<longleftrightarrow> unat M < unat z"
  by (simp_all add: above_def word_less_nat_alt)

subsection \<open>Bytes\<close>

lemma u32_eq_iff: "x = y \<longleftrightarrow> unat x = unat y" for x y :: u32
  by (rule word_unat_eq_iff)

lemma continuation_byte: "int32 (c :: u8) AND 0xC0 = 0x80 \<longleftrightarrow> 0x80 \<le> unat c \<and> unat c < 0xC0"
  using unat_lt(1) [of c] by (simp add: u32_eq_iff unat_bits and_nat) linarith

lemma e0_second: "int32 (c :: u8) AND 0xE0 = 0xA0 \<longleftrightarrow> 0xA0 \<le> unat c \<and> unat c < 0xC0"
  using unat_lt(1) [of c] by (simp add: u32_eq_iff unat_bits and_nat) linarith

lemma ed_second: "int32 (c :: u8) AND 0xE0 = 0x80 \<longleftrightarrow> 0x80 \<le> unat c \<and> unat c < 0xA0"
  using unat_lt(1) [of c] by (simp add: u32_eq_iff unat_bits and_nat) linarith

lemma f4_second: "int32 (c :: u8) AND 0xF0 = 0x80 \<longleftrightarrow> 0x80 \<le> unat c \<and> unat c < 0x90"
  using unat_lt(1) [of c] by (simp add: u32_eq_iff unat_bits and_nat) linarith

lemma surrogate_u32: "(x :: u32) AND 0xFFFFF800 = 0xD800 \<longleftrightarrow> 0xD800 \<le> unat x \<and> unat x < 0xE000"
  using unat_lt(3) [of x] by (simp add: u32_eq_iff unat_bits and_nat) linarith

lemma surrogate_u16: "int32 (x :: u16) AND 0xF800 = 0xD800 \<longleftrightarrow> 0xD800 \<le> unat x \<and> unat x < 0xE000"
  using unat_lt(2) [of x] by (simp add: u32_eq_iff unat_bits and_nat) linarith

lemma high_surrogate: "int32 (x :: u16) AND 0xFC00 = 0xD800 \<longleftrightarrow> 0xD800 \<le> unat x \<and> unat x < 0xDC00"
  using unat_lt(2) [of x] by (simp add: u32_eq_iff unat_bits and_nat) linarith

lemma low_surrogate: "int32 (x :: u16) AND 0xFC00 = 0xDC00 \<longleftrightarrow> 0xDC00 \<le> unat x \<and> unat x < 0xE000"
  using unat_lt(2) [of x] by (simp add: u32_eq_iff unat_bits and_nat) linarith


subsection \<open>The bytes the routines write\<close>

lemma or_const: "y < 64 \<Longrightarrow> 0x80 OR y = 0x80 + y" "y < 32 \<Longrightarrow> 0xC0 OR y = 0xC0 + y"
  "y < 16 \<Longrightarrow> 0xE0 OR y = 0xE0 + y" "y < 8 \<Longrightarrow> 0xF0 OR y = 0xF0 + y"
  "y < 1024 \<Longrightarrow> 0xD800 OR y = 0xD800 + y" "y < 1024 \<Longrightarrow> 0xDC00 OR y = 0xDC00 + y" for y :: nat
  by (simp_all add: or_eq_plus_nat [of 6] or_eq_plus_nat [of 5] or_eq_plus_nat [of 4] or_eq_plus_nat [of 3]
      or_eq_plus_nat [of 10])

lemma or_fields: "y < 64 \<Longrightarrow> x * 64 OR y = x * 64 + y" "y < 16 \<Longrightarrow> x * 16 OR y = x * 16 + y"
  "y < 4 \<Longrightarrow> x * 4 OR y = x * 4 + y" "y < 4096 \<Longrightarrow> x * 4096 OR y = x * 4096 + y"
  "y < 262144 \<Longrightarrow> x * 262144 OR y = x * 262144 + y" "y < 256 \<Longrightarrow> x * 256 OR y = x * 256 + y"
  "y < 65536 \<Longrightarrow> x * 65536 OR y = x * 65536 + y" "y < 1024 \<Longrightarrow> x * 1024 OR y = x * 1024 + y" for x y :: nat
  by (simp_all add: or_eq_plus_nat [of 6] or_eq_plus_nat [of 4] or_eq_plus_nat [of 2] or_eq_plus_nat [of 12]
      or_eq_plus_nat [of 18] or_eq_plus_nat [of 8] or_eq_plus_nat [of 16] or_eq_plus_nat [of 10])

lemma utf8_low: "uint8_t (0x80 OR (x AND 0x3F)) = of_nat (0x80 + unat x mod 64)"
  by (simp add: ucast_of_unat unat_bits and_nat or_const del: of_nat_unat)

lemma utf8_mid: "uint8_t (0x80 OR drop_bit 6 (x AND 0xFC0)) = of_nat (0x80 + unat x div 64 mod 64)"
  by (simp add: ucast_of_unat unat_bits and_nat or_const)

lemma utf8_high: "uint8_t (0x80 OR drop_bit 12 (x AND 0x3F000)) = of_nat (0x80 + unat x div 4096 mod 64)"
  by (simp add: ucast_of_unat unat_bits and_nat or_const)

lemma utf8_lead2: "unat x < 0x800 \<Longrightarrow> uint8_t (0xC0 OR drop_bit 6 x) = of_nat (0xC0 + unat x div 64)"
  by (simp add: ucast_of_unat unat_bits or_const)

lemma utf8_lead3: "unat x < 0x10000 \<Longrightarrow> uint8_t (0xE0 OR drop_bit 12 x) = of_nat (0xE0 + unat x div 4096)"
  by (simp add: ucast_of_unat unat_bits or_const)

lemma utf8_lead4: "unat x < 0x110000 \<Longrightarrow> uint8_t (0xF0 OR drop_bit 18 x) = of_nat (0xF0 + unat x div 262144)"
  by (simp add: ucast_of_unat unat_bits or_const)

lemmas utf8_bytes = utf8_low utf8_mid utf8_high utf8_lead2 utf8_lead3 utf8_lead4

subsection \<open>The values the routines assemble\<close>

lemma assemble2: "unat (push_bit 6 (int32 c1 AND 0x1F) OR (int32 c2 AND 0x3F)) =
    unat (c1 :: u8) mod 32 * 64 + unat (c2 :: u8) mod 64"
  by (simp add: unat_bits and_nat or_fields)


lemma assemble3: "unat (push_bit 12 (int32 c1 AND 0x0F) OR push_bit 6 (int32 c2 AND 0x3F) OR (int32 c3 AND 0x3F)) =
    unat (c1 :: u8) mod 16 * 4096 + unat (c2 :: u8) mod 64 * 64 + unat (c3 :: u8) mod 64"
proof -
  have "unat c2 mod 64 * 64 < (4096 :: nat)" by simp
  moreover have "unat c1 mod 16 * 4096 + unat c2 mod 64 * 64 = (unat c1 mod 16 * 64 + unat c2 mod 64) * 64" by simp
  ultimately show ?thesis
    by (simp add: unat_bits and_nat or_fields or.assoc)
qed

lemma assemble4: "unat (push_bit 18 (int32 c1 AND 7) OR push_bit 12 (int32 c2 AND 0x3F) OR
      push_bit 6 (int32 c3 AND 0x3F) OR (int32 c4 AND 0x3F)) =
    unat (c1 :: u8) mod 8 * 262144 + unat (c2 :: u8) mod 64 * 4096 + unat (c3 :: u8) mod 64 * 64 + unat (c4 :: u8) mod 64"
proof -
  have "unat c2 mod 64 < 64" "unat c3 mod 64 < 64" "unat c4 mod 64 < 64" by simp_all
  then have "unat c3 mod 64 * 64 + unat c4 mod 64 < (4096 :: nat)"
    "unat c2 mod 64 * 4096 + (unat c3 mod 64 * 64 + unat c4 mod 64) < (262144 :: nat)" by linarith+
  then show ?thesis
    by (simp add: unat_bits and_nat or_fields or.assoc)
qed

end
