(* ===== verification/Utf8_Scan.thy ===== *)
theory Utf8_Scan
  imports Utf_Spec
begin

text \<open>
  One character of UTF-8, read by the table of valid ranges in \<^verbatim>\<open>locale.cpp\<close>. All decoding routines
  and their \<^verbatim>\<open>_length\<close> twins test the same ranges; each of their bodies is shown to be \<open>utf8_scan\<close>
  followed by what is its own. Here the scan is shown to read exactly the encodings of \<open>utf8\<close>:
  no overlong form, no surrogate, nothing above U+10FFFF.
\<close>

unbundle bit_operations_syntax

definition cont :: "nat \<Rightarrow> bool" where
  "cont b \<longleftrightarrow> 0x80 \<le> b \<and> b < 0xC0"

text \<open>The second byte, after a lead byte of three or of four.\<close>

definition second3 :: "nat \<Rightarrow> nat \<Rightarrow> bool" where
  "second3 b1 b2 \<longleftrightarrow> (if b1 = 0xE0 then 0xA0 \<le> b2 \<and> b2 < 0xC0
                     else if b1 = 0xED then 0x80 \<le> b2 \<and> b2 < 0xA0 else cont b2)"

definition second4 :: "nat \<Rightarrow> nat \<Rightarrow> bool" where
  "second4 b1 b2 \<longleftrightarrow> (if b1 = 0xF0 then 0x90 \<le> b2 \<and> b2 < 0xC0
                     else if b1 = 0xF4 then 0x80 \<le> b2 \<and> b2 < 0x90 else cont b2)"

definition utf8_scan :: "u8 list \<Rightarrow> result + nat \<times> nat" where
  "utf8_scan frm =
     (let b = \<lambda>i. unat (frm ! i) in
      if b 0 < 0x80 then Inr (1, b 0)
      else if b 0 < 0xC2 then Inl error
      else if b 0 < 0xE0 then
        if length frm < 2 then Inl partial
        else if \<not> cont (b 1) then Inl error
        else Inr (2, b 0 mod 32 * 64 + b 1 mod 64)
      else if b 0 < 0xF0 then
        if length frm < 3 then Inl partial
        else if \<not> (second3 (b 0) (b 1) \<and> cont (b 2)) then Inl error
        else Inr (3, b 0 mod 16 * 4096 + b 1 mod 64 * 64 + b 2 mod 64)
      else if b 0 < 0xF5 then
        if length frm < 4 then Inl partial
        else if \<not> (second4 (b 0) (b 1) \<and> cont (b 2) \<and> cont (b 3)) then Inl error
        else Inr (4, b 0 mod 8 * 262144 + b 1 mod 64 * 4096 + b 2 mod 64 * 64 + b 3 mod 64)
      else Inl error)"

subsection \<open>Arithmetic of the digits\<close>

lemma byte_digit: "k * w \<le> b \<Longrightarrow> b < k * w + w \<Longrightarrow> \<exists>x<w. b = k * w + x \<and> b mod w = x" for b k w :: nat
  by (metis le_add_diff_inverse mod_less mod_mult_self3 nat_add_left_cancel_less)

lemma cont_digit: "cont b \<Longrightarrow> \<exists>x<64. b = 0x80 + x \<and> b mod 64 = x"
  using byte_digit [of 2 64 b] by (simp add: cont_def)

lemma digits: "y < 64 \<Longrightarrow> (x * 64 + y) div 64 = x" "y < 64 \<Longrightarrow> (x * 64 + y) mod 64 = y"
  "c div 4096 = c div 64 div 64" "c div 262144 = c div 64 div 64 div 64" for x y c :: nat
  by (simp_all add: div_mult2_eq [symmetric])

lemma utf8_two:
  assumes "0xC2 \<le> b1" "b1 < 0xE0" "cont b2"
  defines "c \<equiv> b1 mod 32 * 64 + b2 mod 64"
  shows "0x80 \<le> c \<and> c < 0x800 \<and> 0xC0 + c div 64 = b1 \<and> 0x80 + c mod 64 = b2"
proof -
  obtain x y where x: "b1 = 0xC0 + x" "x < 32" "b1 mod 32 = x" and y: "b2 = 0x80 + y" "y < 64" "b2 mod 64 = y"
    using byte_digit [of 6 32 b1] cont_digit [OF assms(3)] assms(1,2) by auto
  then have c: "c = x * 64 + y" by (simp add: c_def)
  show ?thesis using assms(1) x y unfolding c by (simp add: digits)
qed

lemma utf8_three:
  assumes "0xE0 \<le> b1" "b1 < 0xF0" "second3 b1 b2" "cont b3"
  defines "c \<equiv> b1 mod 16 * 4096 + b2 mod 64 * 64 + b3 mod 64"
  shows "0x800 \<le> c \<and> (c < 0xD800 \<or> 0xE000 \<le> c) \<and> c < 0x10000 \<and> 0xE0 + c div 4096 = b1 \<and>
    0x80 + c div 64 mod 64 = b2 \<and> 0x80 + c mod 64 = b3"
proof -
  have "cont b2" using assms(3) by (auto simp: second3_def cont_def split: if_splits)
  then obtain x y z where x: "b1 = 0xE0 + x" "x < 16" "b1 mod 16 = x"
    and y: "b2 = 0x80 + y" "y < 64" "b2 mod 64 = y" and z: "b3 = 0x80 + z" "z < 64" "b3 mod 64 = z"
    using byte_digit [of 14 16 b1] cont_digit [of b2] cont_digit [OF assms(4)] assms(1,2) by auto
  then have c: "c = (x * 64 + y) * 64 + z" by (simp add: c_def)
  have "0x800 \<le> c" "c < 0xD800 \<or> 0xE000 \<le> c" "c < 0x10000"
    using assms(3) x(1,2) y(1,2) z(2) unfolding c by (auto simp: second3_def cont_def split: if_splits)
  moreover have "c div 64 = x * 64 + y" "c mod 64 = z" using z(2) unfolding c by (rule digits)+
  ultimately show ?thesis using x(1) y z(1) by (simp add: digits)
qed

lemma utf8_four:
  assumes "0xF0 \<le> b1" "b1 < 0xF5" "second4 b1 b2" "cont b3" "cont b4"
  defines "c \<equiv> b1 mod 8 * 262144 + b2 mod 64 * 4096 + b3 mod 64 * 64 + b4 mod 64"
  shows "0x10000 \<le> c \<and> c \<le> 0x10FFFF \<and> 0xF0 + c div 262144 = b1 \<and> 0x80 + c div 4096 mod 64 = b2 \<and>
    0x80 + c div 64 mod 64 = b3 \<and> 0x80 + c mod 64 = b4"
proof -
  have "cont b2" using assms(3) by (auto simp: second4_def cont_def split: if_splits)
  then obtain x y z u where x: "b1 = 0xF0 + x" "x < 8" "b1 mod 8 = x"
    and y: "b2 = 0x80 + y" "y < 64" "b2 mod 64 = y" and z: "b3 = 0x80 + z" "z < 64" "b3 mod 64 = z"
    and u: "b4 = 0x80 + u" "u < 64" "b4 mod 64 = u"
    using byte_digit [of 30 8 b1] cont_digit [of b2] cont_digit [OF assms(4)] cont_digit [OF assms(5)]
      assms(1,2) by auto
  then have c: "c = ((x * 64 + y) * 64 + z) * 64 + u" by (simp add: c_def)
  have "0x10000 \<le> c" "c \<le> 0x10FFFF"
    using assms(2,3) x(1,2) y(1,2) z(2) u(2) unfolding c by (auto simp: second4_def cont_def split: if_splits)
  moreover have "c div 64 = (x * 64 + y) * 64 + z" "c mod 64 = u" using u(2) unfolding c by (rule digits)+
  moreover from this(1) have "c div 64 div 64 = x * 64 + y" "c div 64 mod 64 = z" using z(2) by (simp_all only: digits)
  moreover from this(1) have "c div 64 div 64 div 64 = x" "c div 64 div 64 mod 64 = y" using y(2) by (simp_all only: digits)
  ultimately show ?thesis using x(1) y(1) z(1) u(1) by (simp add: digits(3,4))
qed

subsection \<open>The scan reads exactly the encodings\<close>

lemma of_nat_byte: "n = unat (b :: u8) \<Longrightarrow> of_nat n = b"
  by simp

lemma scan_partial_or_error: "utf8_scan frm = Inl r \<Longrightarrow> r = partial \<or> r = error"
  by (auto simp: utf8_scan_def Let_def split: if_splits)

lemma scan_extends:
  assumes "frm \<noteq> []" "utf8_scan frm \<noteq> Inl partial"
  shows "utf8_scan (frm @ more) = utf8_scan frm"
proof -
  let ?b = "unat (frm ! 0)"
  have 0: "(frm @ more) ! i = frm ! i" if "i < length frm" for i using that by (rule nth_append_left)
  consider "?b < 0x80" | "0x80 \<le> ?b" "?b < 0xC2" | "0xF5 \<le> ?b" | "0xC2 \<le> ?b" "?b < 0xE0" | "0xE0 \<le> ?b" "?b < 0xF0" | "0xF0 \<le> ?b" "?b < 0xF5"
    by linarith
  then show ?thesis
  proof cases
    case 1
    then show ?thesis by (simp add: utf8_scan_def 0 assms(1))
  next
    case 2
    then show ?thesis by (simp add: utf8_scan_def 0 assms(1))
  next
    case 3
    then show ?thesis by (simp add: utf8_scan_def 0 assms(1))
  next
    case 4
    then have "2 \<le> length frm" using assms(2) by (simp add: utf8_scan_def Let_def split: if_splits)
    with 4 show ?thesis by (simp add: utf8_scan_def Let_def 0 assms(1))
  next
    case 5
    then have "3 \<le> length frm" using assms(2) by (simp add: utf8_scan_def Let_def split: if_splits)
    with 5 show ?thesis by (simp add: utf8_scan_def Let_def 0 assms(1))
  next
    case 6
    then have "4 \<le> length frm" using assms(2) by (simp add: utf8_scan_def Let_def split: if_splits)
    with 6 show ?thesis by (simp add: utf8_scan_def Let_def 0 assms(1))
  qed
qed

text \<open>The scan of the encoding of a character is that character.\<close>

lemma utf8_shape:
  assumes "scalar c"
  obtains (one) b where "c < 0x80" "utf8 c = [b]" "unat b = c"
  | (two) b1 b2 where "0x80 \<le> c" "c < 0x800" "utf8 c = [b1, b2]"
      "unat b1 = 0xC0 + c div 64" "unat b2 = 0x80 + c mod 64"
  | (three) b1 b2 b3 where "0x800 \<le> c" "c < 0x10000" "utf8 c = [b1, b2, b3]"
      "unat b1 = 0xE0 + c div 4096" "unat b2 = 0x80 + c div 64 mod 64" "unat b3 = 0x80 + c mod 64"
  | (four) b1 b2 b3 b4 where "0x10000 \<le> c" "c \<le> 0x10FFFF" "utf8 c = [b1, b2, b3, b4]"
      "unat b1 = 0xF0 + c div 262144" "unat b2 = 0x80 + c div 4096 mod 64"
      "unat b3 = 0x80 + c div 64 mod 64" "unat b4 = 0x80 + c mod 64"
proof -
  have u: "unat (of_nat n :: u8) = n" if "n < 256" for n
    using that by (simp add: unat_of_nat take_bit_nat_eq_self)
  have d: "0x80 + c div 64 mod 64 < 256" "0x80 + c mod 64 < 256" "0x80 + c div 4096 mod 64 < 256"
    using mod_less_divisor [of 64 "c div 64"] mod_less_divisor [of 64 c] mod_less_divisor [of 64 "c div 4096"]
    by linarith+
  consider "c < 0x80" | "0x80 \<le> c" "c < 0x800" | "0x800 \<le> c" "c < 0x10000" | "0x10000 \<le> c" "c \<le> 0x10FFFF"
    using assms unfolding scalar_def by linarith
  then show thesis
  proof cases
    case 1
    then show thesis by (intro one [OF 1 _ u [of c]]) (simp_all add: utf8_def)
  next
    case 2
    then have "0xC0 + c div 64 < 256" by linarith
    from two [OF 2 _ u [OF this] u [OF d(2)]] 2 show thesis by (simp add: utf8_def)
  next
    case 3
    then have "0xE0 + c div 4096 < 256" by linarith
    from three [OF 3 _ u [OF this] u [OF d(1)] u [OF d(2)]] 3 show thesis by (simp add: utf8_def)
  next
    case 4
    then have "0xF0 + c div 262144 < 256" by linarith
    from four [OF 4 _ u [OF this] u [OF d(3)] u [OF d(1)] u [OF d(2)]] 4 show thesis by (simp add: utf8_def)
  qed
qed

lemma low_digits: "(0x80 + x mod 64) mod 64 = x mod 64" "x < 32 \<Longrightarrow> (0xC0 + x) mod 32 = x"
  "x < 16 \<Longrightarrow> (0xE0 + x) mod 16 = x" "x < 8 \<Longrightarrow> (0xF0 + x) mod 8 = x" for x :: nat
  using mod_mult_self3 [of 2 64 "x mod 64"] mod_mult_self3 [of 6 32 x] mod_mult_self3 [of 14 16 x]
    mod_mult_self3 [of 30 8 x]
  by simp_all

lemma recombine: "c div 4096 * 4096 + c div 64 mod 64 * 64 + c mod 64 = c"
  "c div 262144 * 262144 + c div 4096 mod 64 * 4096 + c div 64 mod 64 * 64 + c mod 64 = c" for c :: nat
  using div_mult_mod_eq [of c 64] div_mult_mod_eq [of "c div 64" 64] div_mult_mod_eq [of "c div 64 div 64" 64]
  unfolding digits(3,4) by linarith+

lemma second3_digits:
  assumes "y < 64" "z < 64" "0x800 \<le> x * 4096 + y * 64 + z" "scalar (x * 4096 + y * 64 + z)"
  shows "second3 (0xE0 + x) (0x80 + y)"
proof -
  have "32 \<le> y" if "x = 0" using assms(2,3) that by simp
  moreover have "y < 32" if "x = 13" using assms(1,2,4) that by (simp add: scalar_def)
  ultimately show ?thesis using assms(1) by (auto simp: second3_def cont_def)
qed

lemma second4_digits:
  assumes "y < 64" "z < 4096" "0x10000 \<le> x * 262144 + y * 4096 + z" "x * 262144 + y * 4096 + z \<le> 0x10FFFF"
  shows "second4 (0xF0 + x) (0x80 + y)"
proof -
  have "16 \<le> y" if "x = 0" using assms(2,3) that by simp
  moreover have "y < 16" if "x = 4" using assms(4) that by simp
  ultimately show ?thesis using assms(1) by (auto simp: second4_def cont_def)
qed

lemma scan_utf8:
  assumes "scalar c"
  shows "utf8_scan (utf8 c @ rest) = Inr (length (utf8 c), c)"
  using assms
proof (cases c rule: utf8_shape)
  case one
  then show ?thesis by (simp add: utf8_scan_def)
next
  case two
  then have "c div 64 < 32" "2 \<le> c div 64" by linarith+
  then show ?thesis using two by (simp add: utf8_scan_def cont_def low_digits)
next
  case three
  then have d: "c div 4096 < 16" by linarith
  have "second3 (0xE0 + c div 4096) (0x80 + c div 64 mod 64)"
    using three(1,2) assms second3_digits [of "c div 64 mod 64" "c mod 64" "c div 4096"] by (simp add: recombine)
  then show ?thesis using three d
    by (simp add: utf8_scan_def cont_def low_digits recombine)
next
  case four
  then have d: "c div 262144 < 5" by linarith
  have "second4 (0xF0 + c div 262144) (0x80 + c div 4096 mod 64)"
    using four(1,2) second4_digits [of "c div 4096 mod 64" "c div 64 mod 64 * 64 + c mod 64" "c div 262144"]
      recombine(2) [of c] by simp
  then show ?thesis using four d
    by (simp add: utf8_scan_def cont_def low_digits recombine)
qed


lemma scan_sound:
  assumes "frm \<noteq> []" "utf8_scan frm = Inr (n, c)"
  shows "scalar c \<and> n = length (utf8 c) \<and> (\<exists>rest. frm = utf8 c @ rest)"
proof -
  let ?b = "\<lambda>i. unat (frm ! i)"
  consider "?b 0 < 0x80" | "0xC2 \<le> ?b 0" "?b 0 < 0xE0" | "0xE0 \<le> ?b 0" "?b 0 < 0xF0" | "0xF0 \<le> ?b 0" "?b 0 < 0xF5"
    using assms(2) by (simp add: utf8_scan_def Let_def split: if_splits)
  then show ?thesis
  proof cases
    case 1
    then show ?thesis using assms by (cases frm) (auto simp: utf8_scan_def utf8_def scalar_def)
  next
    case 2
    then have s: "2 \<le> length frm" "cont (?b 1)" "n = 2" "c = ?b 0 mod 32 * 64 + ?b 1 mod 64"
      using assms(2) by (auto simp: utf8_scan_def Let_def split: if_splits)
    then obtain b1 b2 rest where frm: "frm = b1 # b2 # rest" by (cases frm; cases "tl frm") auto
    from utf8_two [OF 2 s(2)] s(4) have "utf8 c = [b1, b2]"
      unfolding frm by (simp add: utf8_def of_nat_byte del: of_nat_add)
    with utf8_two [OF 2 s(2)] s(3,4) frm show ?thesis by (simp add: scalar_def)
  next
    case 3
    then have s: "3 \<le> length frm" "second3 (?b 0) (?b 1)" "cont (?b 2)" "n = 3"
      "c = ?b 0 mod 16 * 4096 + ?b 1 mod 64 * 64 + ?b 2 mod 64"
      using assms(2) by (auto simp: utf8_scan_def Let_def split: if_splits)
    then obtain b1 b2 b3 rest where frm: "frm = b1 # b2 # b3 # rest"
      by (cases frm; cases "tl frm"; cases "tl (tl frm)") auto
    from utf8_three [OF 3 s(2,3)] s(5) have "utf8 c = [b1, b2, b3]"
      unfolding frm by (simp add: utf8_def of_nat_byte del: of_nat_add)
    with utf8_three [OF 3 s(2,3)] s(4,5) frm show ?thesis by (auto simp add: scalar_def)
  next
    case 4
    then have s: "4 \<le> length frm" "second4 (?b 0) (?b 1)" "cont (?b 2)" "cont (?b 3)" "n = 4"
      "c = ?b 0 mod 8 * 262144 + ?b 1 mod 64 * 4096 + ?b 2 mod 64 * 64 + ?b 3 mod 64"
      using assms(2) by (auto simp: utf8_scan_def Let_def split: if_splits)
    then obtain b1 b2 b3 b4 rest where frm: "frm = b1 # b2 # b3 # b4 # rest"
      by (cases frm; cases "tl frm"; cases "tl (tl frm)"; cases "tl (tl (tl frm))") auto
    from utf8_four [OF 4 s(2-4)] s(6) have "utf8 c = [b1, b2, b3, b4]"
      unfolding frm by (simp add: utf8_def of_nat_byte del: of_nat_add)
    with utf8_four [OF 4 s(2-4)] s(5,6) frm show ?thesis by (auto simp add: scalar_def)
  qed
qed

text \<open>A lead byte of four is what a character outside the basic plane has.\<close>

lemma scan_lead4:
  assumes "frm \<noteq> []" "utf8_scan frm = Inr (n, c)"
  shows "0xF0 \<le> unat (frm ! 0) \<longleftrightarrow> 0x10000 \<le> c"
proof -
  from scan_sound [OF assms] obtain rest where c: "scalar c" "frm = utf8 c @ rest" by blast
  from c(1) show ?thesis by (cases c rule: utf8_shape) (simp_all add: c(2))
qed

lemma scan_error:
  assumes "frm \<noteq> []" "utf8_scan frm = Inl error" "scalar c"
  shows "frm @ more \<noteq> utf8 c @ rest"
  using scan_extends [OF assms(1), of more] scan_utf8 [OF assms(3), of rest] assms(2) by auto

text \<open>A text has one reading, and eleven byte values never occur in it.\<close>

lemma utf8_unique:
  assumes "list_all scalar cs" "list_all scalar ds" "encoded utf8 cs = encoded utf8 ds"
  shows "cs = ds"
  using assms
proof (induction cs arbitrary: ds)
  case Nil
  then show ?case by (cases ds) (auto simp: utf8_def split: if_splits)
next
  case (Cons c cs)
  from Cons.prems obtain d ds' where ds: "ds = d # ds'"
    by (cases ds) (auto simp: utf8_def split: if_splits)
  have "utf8 c @ encoded utf8 cs = utf8 d @ encoded utf8 ds'" using Cons.prems(3) ds by simp
  moreover from this have "c = d"
    using scan_utf8 [of c "encoded utf8 cs"] scan_utf8 [of d "encoded utf8 ds'"] Cons.prems(1,2) ds by simp
  ultimately show ?case using Cons ds by simp
qed

definition valid_octet :: "u8 \<Rightarrow> bool" where
  "valid_octet b \<longleftrightarrow> b \<noteq> 0xC0 \<and> b \<noteq> 0xC1 \<and> b < 0xF5"

lemma valid_octetI: "unat b < 0xC0 \<or> 0xC2 \<le> unat b \<and> unat b < 0xF5 \<Longrightarrow> valid_octet b"
  by (auto simp: valid_octet_def word_unat_eq_iff word_less_nat_alt)

lemma utf8_octets:
  assumes "scalar c"
  shows "list_all valid_octet (utf8 c)"
proof -
  have d: "c mod 64 < 64" "c div 64 mod 64 < 64" "c div 4096 mod 64 < 64" by simp_all
  from assms show ?thesis
  proof (cases c rule: utf8_shape)
    case one
    then have "valid_octet b" if "utf8 c = [b]" for b using that by (intro valid_octetI) simp
    with one show ?thesis by simp
  next
    case (two b1 b2)
    then have "0xC2 \<le> unat b1" "unat b1 < 0xF5" "unat b2 < 0xC0" using d by linarith+
    with two show ?thesis by (simp add: valid_octetI)
  next
    case (three b1 b2 b3)
    then have "0xC2 \<le> unat b1" "unat b1 < 0xF5" "unat b2 < 0xC0" "unat b3 < 0xC0" using d by linarith+
    with three show ?thesis by (simp add: valid_octetI)
  next
    case (four b1 b2 b3 b4)
    then have "0xC2 \<le> unat b1" "unat b1 < 0xF5" "unat b2 < 0xC0" "unat b3 < 0xC0" "unat b4 < 0xC0" using d by linarith+
    with four show ?thesis by (simp add: valid_octetI)
  qed
qed

lemma encoded_octets: "list_all scalar cs \<Longrightarrow> list_all valid_octet (encoded utf8 cs)"
  by (induction cs) (simp_all add: utf8_octets)

text \<open>The tests of the routines on bytes, as the tests of the scan.\<close>

lemma byte_less: "c < 0x80 \<longleftrightarrow> unat c < 0x80" "c < 0xC2 \<longleftrightarrow> unat c < 0xC2" "c < 0xE0 \<longleftrightarrow> unat c < 0xE0"
  "c < 0xF0 \<longleftrightarrow> unat c < 0xF0" "c < 0xF5 \<longleftrightarrow> unat c < 0xF5" for c :: u8
  by (simp_all add: word_less_nat_alt)

lemma cont_iff: "int32 (c :: u8) AND 0xC0 = 0x80 \<longleftrightarrow> cont (unat c)"
  by (simp add: continuation_byte cont_def)

lemma second3_iff:
  "(if c1 = 0xE0 then int32 c2 AND 0xE0 \<noteq> 0xA0
    else if c1 = 0xED then int32 c2 AND 0xE0 \<noteq> 0x80
    else int32 c2 AND 0xC0 \<noteq> 0x80) \<longleftrightarrow> \<not> second3 (unat c1) (unat c2)" for c1 c2 :: u8
  by (simp add: second3_def cont_iff e0_second ed_second word_unat_eq_iff [of c1])

lemma second4_iff:
  "(if c1 = 0xF0 then \<not> (0x90 \<le> c2 \<and> c2 \<le> 0xBF)
    else if c1 = 0xF4 then int32 c2 AND 0xF0 \<noteq> 0x80
    else int32 c2 AND 0xC0 \<noteq> 0x80) \<longleftrightarrow> \<not> second4 (unat c1) (unat c2)" for c1 c2 :: u8
  by (auto simp add: second4_def cont_iff f4_second word_unat_eq_iff [of c1] word_le_nat_alt)

lemmas scan_tests = byte_less cont_iff second3_iff second4_iff
  second3_iff [unfolded cont_iff] second4_iff [unfolded cont_iff]

lemma hd_nth0: "us \<noteq> [] \<Longrightarrow> hd us = us ! 0"
  by (rule hd_conv_nth)

subsection \<open>Bodies that read through the scan\<close>

locale utf8_reader =
  fixes body :: "(u8, 'v) body" and cp :: "nat \<Rightarrow> bool" and D :: "nat \<Rightarrow> 'v list"
  assumes cp_scalar: "cp c \<Longrightarrow> scalar c"
    and D_nonempty: "cp c \<Longrightarrow> D c \<noteq> []"
    and takes: "us \<noteq> [] \<Longrightarrow> utf8_scan us = Inr (n, c) \<Longrightarrow> cp c \<Longrightarrow> length (D c) \<le> room \<Longrightarrow> body us room = Inr (n, D c)"
    and took: "us \<noteq> [] \<Longrightarrow> 0 < room \<Longrightarrow> body us room = Inr (n, out) \<Longrightarrow>
      \<exists>c. utf8_scan us = Inr (n, c) \<and> cp c \<and> out = D c \<and> length (D c) \<le> room"
    and refused: "us \<noteq> [] \<Longrightarrow> 0 < room \<Longrightarrow> body us room = Inl error \<Longrightarrow> utf8_scan (us @ more) = Inr (n, c) \<Longrightarrow> \<not> cp c"
    and refuses: "us \<noteq> [] \<Longrightarrow> 0 < room \<Longrightarrow> body us room = Inl r \<Longrightarrow> r = partial \<or> r = error"

sublocale utf8_reader \<subseteq> transcoder "guarded 1 body" cp utf8 D
proof
  fix us room n out
  assume "us \<noteq> []" "guarded 1 body us room = Inr (n, out)"
  then have b: "us \<noteq> []" "0 < room" "body us room = Inr (n, out)" by (auto simp: guarded_def split: if_splits)
  from took [OF this] obtain c where c: "utf8_scan us = Inr (n, c)" "cp c" "out = D c" "length (D c) \<le> room" by blast
  with scan_sound [OF b(1) c(1)]
  show "\<exists>c rest. cp c \<and> us = utf8 c @ rest \<and> n = length (utf8 c) \<and> out = D c \<and> length (D c) \<le> room" by blast
next
  fix c room rest
  assume c: "cp c" "length (D c) \<le> room"
  have "utf8 c \<noteq> []" by (simp add: utf8_def)
  with c D_nonempty [OF c(1)] takes [OF _ scan_utf8 [OF cp_scalar [OF c(1)]] c, of rest]
  show "guarded 1 body (utf8 c @ rest) room = Inr (length (utf8 c), D c)"
    by (cases room) (auto simp: guarded_def)
next
  fix us room c more rest
  assume e: "guarded 1 body us room = Inl error" and c: "cp c"
  then have b: "us \<noteq> []" "0 < room" "body us room = Inl error" by (auto simp: guarded_def split: if_splits)
  from refused [OF this] scan_utf8 [OF cp_scalar [OF c], of rest] c
  show "us @ more \<noteq> utf8 c @ rest" by metis
next
  fix us room r
  assume "guarded 1 body us room = Inl r"
  then show "r = partial \<or> r = error"
    using refuses by (cases "us = []") (auto simp: guarded_def split: if_splits)
next
  show "utf8 c \<noteq> []" for c by (simp add: utf8_def)
qed

end
