(* ===== verification/Utf16_Scan.thy ===== *)
theory Utf16_Scan
  imports Utf8_Scan
begin

text \<open>
  One character of UTF-16, read from 16-bit units, and the arithmetic of surrogate pairs: the value
  a pair stands for, the pair of a value, and the four bytes of UTF-8 for it.
\<close>

unbundle bit_operations_syntax

definition pair_value :: "nat \<Rightarrow> nat \<Rightarrow> nat" where
  "pair_value w v = (w div 64 mod 16 + 1) * 65536 + w mod 64 * 1024 + v mod 1024"

definition high :: "nat \<Rightarrow> bool" where "high w \<longleftrightarrow> 0xD800 \<le> w \<and> w < 0xDC00"

definition low :: "nat \<Rightarrow> bool" where "low v \<longleftrightarrow> 0xDC00 \<le> v \<and> v < 0xE000"

definition utf16_scan :: "u16 list \<Rightarrow> result + nat \<times> nat" where
  "utf16_scan us =
     (let w = unat (us ! 0) in
      if low w then Inl error
      else if \<not> high w then Inr (1, w)
      else if length us < 2 then Inl partial
      else if \<not> low (unat (us ! 1)) then Inl error
      else Inr (2, pair_value w (unat (us ! 1))))"

lemma mod_div_digits: "w div 64 mod 16 = w mod 1024 div 64" "w mod 64 = w mod 1024 mod 64" for w :: nat
  using mod_mult2_eq [of w 64 16] by (simp_all add: mod_mult2_eq [of w 64 16] mod_mod_cancel)

lemma pair_value_eq:
  assumes "high w" "low v"
  shows "pair_value w v = 0x10000 + (w - 0xD800) * 1024 + (v - 0xDC00)"
proof -
  obtain p q where p: "w = 0xD800 + p" "p < 1024" "w mod 1024 = p" and q: "v = 0xDC00 + q" "q < 1024" "v mod 1024 = q"
    using byte_digit [of 54 1024 w] byte_digit [of 55 1024 v] assms by (auto simp: high_def low_def)
  have "w div 64 mod 16 = p div 64" "w mod 64 = p mod 64"
    using mod_div_digits [of w] unfolding p(3) .
  then have "w div 64 mod 16 * 65536 + w mod 64 * 1024 = p * 1024"
    using div_mult_mod_eq [of p 64] by linarith
  then show ?thesis unfolding pair_value_def using p(1) q(1,3) by simp
qed

lemma pair_value_range:
  assumes "high w" "low v"
  shows "0x10000 \<le> pair_value w v" "pair_value w v \<le> 0x10FFFF"
    "0xD800 + (pair_value w v - 0x10000) div 1024 = w" "0xDC00 + (pair_value w v - 0x10000) mod 1024 = v"
proof -
  obtain p q where p: "w = 0xD800 + p" "p < 1024" and q: "v = 0xDC00 + q" "q < 1024"
    using byte_digit [of 54 1024 w] byte_digit [of 55 1024 v] assms by (auto simp: high_def low_def)
  have "pair_value w v - 0x10000 = p * 1024 + q" using pair_value_eq [OF assms] p q by simp
  then show "0xD800 + (pair_value w v - 0x10000) div 1024 = w" "0xDC00 + (pair_value w v - 0x10000) mod 1024 = v"
    using p q by simp_all
  show "0x10000 \<le> pair_value w v" "pair_value w v \<le> 0x10FFFF"
    using pair_value_eq [OF assms] p q by simp_all
qed

text \<open>The units of a value.\<close>

lemma utf16_shape:
  assumes "scalar c"
  obtains (one) w where "c < 0x10000" "(utf16 c :: u16 list) = [w]" "unat w = c" "\<not> high (unat w)" "\<not> low (unat w)"
  | (two) w v where "0x10000 \<le> c" "c \<le> 0x10FFFF" "(utf16 c :: u16 list) = [w, v]" "high (unat w)" "low (unat v)"
      "pair_value (unat w) (unat v) = c"
proof -
  have u: "unat (of_nat n :: u16) = n" if "n < 65536" for n
    using that by (simp add: unat_of_nat take_bit_nat_eq_self)
  show thesis
  proof (cases "c < 0x10000")
    case True
    then show thesis using assms u [OF True]
      by (intro one [OF True]) (auto simp: utf16_def high_def low_def scalar_def)
  next
    case False
    then have c: "0x10000 \<le> c" "c \<le> 0x10FFFF" using assms by (auto simp: scalar_def)
    let ?w = "0xD800 + (c - 0x10000) div 1024" and ?v = "0xDC00 + (c - 0x10000) mod 1024"
    have h: "high ?w" and l: "low ?v" using c by (auto simp: high_def low_def)
    have "?w < 65536" "?v < 65536" using h l by (simp_all add: high_def low_def)
    note uw = u [OF this(1)] u [OF this(2)]
    show thesis
      using two [OF c, of "of_nat ?w" "of_nat ?v"] False h l pair_value_eq [OF h l] c(1)
      unfolding uw by (simp add: utf16_def)
  qed
qed

lemma scan_utf16: "scalar c \<Longrightarrow> utf16_scan (utf16 c @ rest) = Inr (length (utf16 c :: u16 list), c)"
  by (cases c rule: utf16_shape) (auto simp: utf16_scan_def high_def low_def)

lemma scan16_sound:
  assumes "us \<noteq> []" "utf16_scan us = Inr (n, c)"
  shows "scalar c \<and> n = length (utf16 c :: u16 list) \<and> (\<exists>rest. us = utf16 c @ rest)"
proof (cases "high (unat (us ! 0))")
  case False
  with assms have "\<not> low c" "\<not> high c" "n = 1" "c = unat (us ! 0)"
    by (auto simp: utf16_scan_def Let_def split: if_splits)
  then show ?thesis using assms(1) unat_lt(2) [of "us ! 0"]
    by (cases us) (auto simp: scalar_def utf16_def high_def low_def)
next
  case True
  with assms have s: "2 \<le> length us" "low (unat (us ! 1))" "n = 2" "c = pair_value (unat (us ! 0)) (unat (us ! 1))"
    by (auto simp: utf16_scan_def Let_def split: if_splits)
  then obtain w v rest where us: "us = w # v # rest" by (cases us; cases "tl us") auto
  note r = pair_value_range [OF True s(2)]
  then have "(utf16 c :: u16 list) = [w, v]" unfolding s(4) us by (simp add: utf16_def del: of_nat_add)
  with r s(3,4) us show ?thesis by (simp add: scalar_def)
qed

lemma scan16_extends:
  "us \<noteq> [] \<Longrightarrow> utf16_scan us \<noteq> Inl partial \<Longrightarrow> utf16_scan (us @ more) = utf16_scan us"
  by (cases us; cases "tl us") (auto simp: utf16_scan_def Let_def split: if_splits)

lemma scan16_partial_or_error: "utf16_scan us = Inl r \<Longrightarrow> r = partial \<or> r = error"
  by (auto simp: utf16_scan_def Let_def split: if_splits)


subsection \<open>A pair as four bytes\<close>

lemma pair_digits:
  fixes z l1 l0 q1 q0 :: nat
  assumes "l1 < 16" "l0 < 4" "q1 < 16" "q0 < 64"
  defines "c \<equiv> z * 65536 + (l1 * 4 + l0) * 1024 + (q1 * 64 + q0)"
  shows "c div 262144 = z div 4" "c div 4096 mod 64 = z mod 4 * 16 + l1" "c div 64 mod 64 = l0 * 16 + q1" "c mod 64 = q0"
proof -
  have c: "c = ((z * 16 + l1) * 64 + (l0 * 16 + q1)) * 64 + q0" by (simp add: c_def)
  have z: "z * 16 + l1 = z div 4 * 64 + (z mod 4 * 16 + l1)" using div_mult_mod_eq [of z 4] by linarith
  have "z mod 4 < 4" by simp
  then have small: "z mod 4 * 16 + l1 < 64" "l0 * 16 + q1 < 64" using assms(1-3) by linarith+
  have d: "c div 64 = (z * 16 + l1) * 64 + (l0 * 16 + q1)" "c mod 64 = q0"
    using assms(4) unfolding c by (rule digits)+
  have e: "c div 64 div 64 = z * 16 + l1" "c div 64 mod 64 = l0 * 16 + q1"
    using small(2) unfolding d(1) by (rule digits)+
  show "c div 262144 = z div 4" "c div 4096 mod 64 = z mod 4 * 16 + l1"
    unfolding digits(3,4) e(1) z using small(1) by (rule digits)+
  show "c div 64 mod 64 = l0 * 16 + q1" "c mod 64 = q0" by (fact e d)+
qed

lemma pair_fields: "w mod 64 = w div 4 mod 16 * 4 + w mod 4" "v mod 1024 = v div 64 mod 16 * 64 + v mod 64" for w v :: nat
  using mod_mult2_eq [of w 4 16] mod_mult2_eq [of v 64 16] by simp_all

lemma pair_value_digits:
  "pair_value w v div 262144 = (w div 64 mod 16 + 1) div 4"
  "pair_value w v div 4096 mod 64 = (w div 64 mod 16 + 1) mod 4 * 16 + w div 4 mod 16"
  "pair_value w v div 64 mod 64 = w mod 4 * 16 + v div 64 mod 16"
  "pair_value w v mod 64 = v mod 64"
proof -
  have pv: "pair_value w v = (w div 64 mod 16 + 1) * 65536 + (w div 4 mod 16 * 4 + w mod 4) * 1024 +
      (v div 64 mod 16 * 64 + v mod 64)"
    by (simp only: pair_value_def pair_fields(1) [of w] pair_fields(2) [of v])
  show "pair_value w v div 262144 = (w div 64 mod 16 + 1) div 4"
    "pair_value w v div 4096 mod 64 = (w div 64 mod 16 + 1) mod 4 * 16 + w div 4 mod 16"
    "pair_value w v div 64 mod 64 = w mod 4 * 16 + v div 64 mod 16"
    "pair_value w v mod 64 = v mod 64"
    unfolding pv by (rule pair_digits; simp)+
qed

lemma pair_value_u64:
  "unat (push_bit 16 (drop_bit 6 (ucast (w :: u16) AND 0x03C0) + 1) + push_bit 10 (ucast w AND 0x003F)
     + ucast (int32 (v :: u16) AND 0x03FF) :: u64) = pair_value (unat w) (unat v)"
proof -
  have d: "unat w div 64 mod 16 < 16" "unat w mod 64 < 64" "unat v mod 1024 < 1024" by simp_all
  then show ?thesis
    by (simp add: unat_word_ariths unat_bits and_nat pair_value_def)
qed

lemma pair_bytes:
  fixes w v :: u16
  defines "z \<equiv> uint8_t (drop_bit 6 (int32 w AND 0x03C0) + 1)"
  shows "[uint8_t (0xF0 OR drop_bit 2 (int32 z)),
      uint8_t (0x80 OR push_bit 4 (int32 z AND 0x03) OR drop_bit 2 (int32 w AND 0x003C)),
      uint8_t (0x80 OR push_bit 4 (int32 w AND 0x0003) OR drop_bit 6 (int32 v AND 0x03C0)),
      uint8_t (0x80 OR (int32 v AND 0x003F))] = utf8 (pair_value (unat w) (unat v))"
proof -
  have d: "unat w div 64 mod 16 < 16" by simp
  then have z: "unat z = unat w div 64 mod 16 + 1"
    unfolding z_def by (simp add: unsigned_ucast_eq unat_word_ariths unat_bits and_nat take_bit_nat_eq_self)
  have c: "\<not> pair_value (unat w) (unat v) < 0x10000" by (simp add: pair_value_def)
  have m: "unat z mod 4 < 4" "unat w mod 4 < 4" "unat w div 4 mod 16 < 16" "unat v div 64 mod 16 < 16" by simp_all
  then have s: "unat z mod 4 * 16 + unat w div 4 mod 16 < 64" "unat w mod 4 * 16 + unat v div 64 mod 16 < 64"
    by linarith+
  have "uint8_t (0xF0 OR drop_bit 2 (int32 z)) = of_nat (0xF0 + unat z div 4)"
  proof -
    have "unat z div 4 < 8" using z d by linarith
    then show ?thesis by (subst ucast_of_unat) (simp add: unat_bits or_const)
  qed
  moreover have "uint8_t (0x80 OR push_bit 4 (int32 z AND 0x03) OR drop_bit 2 (int32 w AND 0x003C)) =
      of_nat (0x80 + (unat z mod 4 * 16 + unat w div 4 mod 16))"
    using m s by (subst ucast_of_unat) (simp add: unat_bits and_nat or_fields or_const)
  moreover have "uint8_t (0x80 OR push_bit 4 (int32 w AND 0x0003) OR drop_bit 6 (int32 v AND 0x03C0)) =
      of_nat (0x80 + (unat w mod 4 * 16 + unat v div 64 mod 16))"
    using m s by (subst ucast_of_unat) (simp add: unat_bits and_nat or_fields or_const)
  ultimately show ?thesis
    using c utf8_low [of "int32 v"] by (simp only: utf8_def pair_value_digits z unat_u32) simp
qed


subsection \<open>Four bytes as a pair\<close>

definition four_value :: "nat \<Rightarrow> nat \<Rightarrow> nat \<Rightarrow> nat \<Rightarrow> nat" where
  "four_value b1 b2 b3 b4 = b1 mod 8 * 262144 + b2 mod 64 * 4096 + b3 mod 64 * 64 + b4 mod 64"

lemma four_value_u64:
  "unat (push_bit 18 (ucast (c1 :: u8) AND 7) + push_bit 12 (ucast (c2 :: u8) AND 0x3F)
     + push_bit 6 (ucast (c3 :: u8) AND 0x3F) + ucast (int32 (c4 :: u8) AND 0x3F) :: u64) =
   four_value (unat c1) (unat c2) (unat c3) (unat c4)"
proof -
  have d: "unat c1 mod 8 < 8" "unat c2 mod 64 < 64" "unat c3 mod 64 < 64" "unat c4 mod 64 < 64" by simp_all
  then show ?thesis
    by (simp add: unat_word_ariths unat_bits and_nat four_value_def)
qed

lemma block1024: "r < 1024 \<Longrightarrow> (a * 1024 + r) div 1024 = a" "r < 1024 \<Longrightarrow> (a * 1024 + r) mod 1024 = r" for a r :: nat
  by simp_all

lemma four_value_units:
  assumes "0x10000 \<le> four_value b1 b2 b3 b4"
  defines "x \<equiv> b1 mod 8 * 4 + b2 div 16 mod 4"
  shows "1 \<le> x"
    "(four_value b1 b2 b3 b4 - 0x10000) div 1024 = (x - 1) * 64 + (b2 mod 16 * 4 + b3 div 16 mod 4)"
    "(four_value b1 b2 b3 b4 - 0x10000) mod 1024 = b3 mod 16 * 64 + b4 mod 64"
proof -
  have f: "b2 mod 64 = b2 div 16 mod 4 * 16 + b2 mod 16" "b3 mod 64 = b3 div 16 mod 4 * 16 + b3 mod 16"
    using mod_mult2_eq [of b2 16 4] mod_mult2_eq [of b3 16 4] by simp_all
  have b: "b2 mod 16 < 16" "b3 div 16 mod 4 < 4" "b3 mod 16 < 16" "b4 mod 64 < 64" by simp_all
  have v: "four_value b1 b2 b3 b4 = x * 65536 + (b2 mod 16 * 4 + b3 div 16 mod 4) * 1024 + (b3 mod 16 * 64 + b4 mod 64)"
    unfolding four_value_def x_def f(1) [of] f(2) [of] by simp
  show x: "1 \<le> x" using assms(1) b unfolding v by (cases x) auto
  then obtain y where y: "x = Suc y" by (cases x) auto
  have "four_value b1 b2 b3 b4 - 0x10000 = (y * 64 + (b2 mod 16 * 4 + b3 div 16 mod 4)) * 1024 + (b3 mod 16 * 64 + b4 mod 64)"
    unfolding v y by simp
  moreover have "b3 mod 16 * 64 + b4 mod 64 < 1024" using b by linarith
  ultimately show
    "(four_value b1 b2 b3 b4 - 0x10000) div 1024 = (x - 1) * 64 + (b2 mod 16 * 4 + b3 div 16 mod 4)"
    "(four_value b1 b2 b3 b4 - 0x10000) mod 1024 = b3 mod 16 * 64 + b4 mod 64"
    unfolding y diff_Suc_1 by (simp_all only: block1024)
qed

lemma four_units:
  fixes c1 c2 c3 c4 :: u8
  defines "c \<equiv> four_value (unat c1) (unat c2) (unat c3) (unat c4)"
  assumes "0x10000 \<le> c" "c \<le> 0x10FFFF"
  shows "unat (0xD800 OR push_bit 6 ((push_bit 2 (int32 c1 AND 0x07) OR drop_bit 4 (int32 c2 AND 0x30)) - 1)
           OR push_bit 2 (int32 c2 AND 0x0F) OR drop_bit 4 (int32 c3 AND 0x30)) = 0xD800 + (c - 0x10000) div 1024"
    and "unat (0xDC00 OR push_bit 6 (int32 c3 AND 0x0F) OR (int32 c4 AND 0x3F)) = 0xDC00 + (c - 0x10000) mod 1024"
proof -
  let ?x = "push_bit 2 (int32 c1 AND 0x07) OR drop_bit 4 (int32 c2 AND 0x30)"
  define X where "X = unat c1 mod 8 * 4 + unat c2 div 16 mod 4"
  note u = four_value_units [OF assms(2) [unfolded c_def], folded X_def c_def]
  have b: "unat c2 mod 16 < 16" "unat c3 div 16 mod 4 < 4" "unat c3 mod 16 < 16" "unat c4 mod 64 < 64"
    "unat c2 div 16 mod 4 < 4" by simp_all
  have x: "unat ?x = X"
    using b(5) by (simp add: X_def unat_bits and_nat or_fields)
  have x1: "unat (?x - 1) = X - 1"
    using u(1) x by (subst unat_minus_one) auto
  have "(c - 0x10000) div 1024 < 1024" using assms(3) by linarith
  then have le: "(X - 1) * 64 + (unat c2 mod 16 * 4 + unat c3 div 16 mod 4) < 1024"
    unfolding u(2) .
  moreover have m: "unat c2 mod 16 * 4 + unat c3 div 16 mod 4 < 64" using b by linarith
  ultimately have sum: "0xD800 OR (X - 1) * 64 OR (unat c2 mod 16 * 4 OR unat c3 div 16 mod 4) =
      0xD800 + ((X - 1) * 64 + (unat c2 mod 16 * 4 + unat c3 div 16 mod 4))"
    using b(2) by (simp add: or_fields or_const or.assoc)
  have "unat (push_bit 6 (?x - 1)) = (X - 1) * 64"
    using le unfolding unat_push_bit x1 by simp
  moreover have "unat (push_bit 2 (int32 c2 AND 0x0F)) = unat c2 mod 16 * 4"
    "unat (drop_bit 4 (int32 c3 AND 0x30)) = unat c3 div 16 mod 4"
    by (simp_all add: unat_bits and_nat)
  ultimately show "unat (0xD800 OR push_bit 6 (?x - 1)
           OR push_bit 2 (int32 c2 AND 0x0F) OR drop_bit 4 (int32 c3 AND 0x30)) = 0xD800 + (c - 0x10000) div 1024"
    using sum unfolding u(2) unsigned_or_eq by simp
  show "unat (0xDC00 OR push_bit 6 (int32 c3 AND 0x0F) OR (int32 c4 AND 0x3F)) = 0xDC00 + (c - 0x10000) mod 1024"
  proof -
    have "unat c3 mod 16 * 64 + unat c4 mod 64 < 1024" using b by linarith
    then show ?thesis unfolding u(3) using b by (simp add: unat_bits and_nat or_fields or_const)
  qed
qed

end
