(* ===== verification/Utf8_Ucs4.thy ===== *)
theory Utf8_Ucs4
  imports Utf8_Scan
begin

text \<open>
  \<^verbatim>\<open>ucs4_to_utf8\<close>, \<^verbatim>\<open>utf8_to_ucs4\<close> and \<^verbatim>\<open>utf8_to_ucs4_length\<close> of \<^verbatim>\<open>locale.cpp\<close>: the body of each loop,
  then the routine. The laws of \<open>transcoder\<close> are discharged for both bodies, those of
  \<open>length_body\<close> for the third.
\<close>

unbundle bit_operations_syntax

definition utf8_bom :: "u8 list" where
  "utf8_bom = [0xEF, 0xBB, 0xBF]"

subsection \<open>ucs4_to_utf8\<close>

definition ucs4_to_utf8_body :: "u64 \<Rightarrow> (u32, u8) body" where
  "ucs4_to_utf8_body Maxcode frm room =
     (let wc = hd frm in
      if wc AND 0xFFFFF800 = 0x00D800 \<or> above wc Maxcode then Inl error
      else if wc < 0x000080 then
        if room < 1 then Inl partial
        else Inr (1, [uint8_t wc])
      else if wc < 0x000800 then
        if room < 2 then Inl partial
        else Inr (1, [uint8_t (0xC0 OR drop_bit 6 wc),
                      uint8_t (0x80 OR (wc AND 0x03F))])
      else if wc < 0x010000 then
        if room < 3 then Inl partial
        else Inr (1, [uint8_t (0xE0 OR drop_bit 12 wc),
                      uint8_t (0x80 OR drop_bit 6 (wc AND 0x0FC0)),
                      uint8_t (0x80 OR (wc AND 0x003F))])
      else
        if room < 4 then Inl partial
        else Inr (1, [uint8_t (0xF0 OR drop_bit 18 wc),
                      uint8_t (0x80 OR drop_bit 12 (wc AND 0x03F000)),
                      uint8_t (0x80 OR drop_bit 6 (wc AND 0x000FC0)),
                      uint8_t (0x80 OR (wc AND 0x00003F))]))"

definition ucs4_to_utf8 :: "u64 \<Rightarrow> u32 \<Rightarrow> u32 list \<Rightarrow> nat \<Rightarrow> (u32, u8) conv" where
  "ucs4_to_utf8 Maxcode mode frm room =
     with_header utf8_bom mode room frm (out_loop (ucs4_to_utf8_body Maxcode) frm)"

subsection \<open>utf8_to_ucs4\<close>

definition utf8_to_ucs4_body :: "u64 \<Rightarrow> (u8, u32) body" where
  "utf8_to_ucs4_body Maxcode frm room =
     (let c1 = hd frm in
      if c1 < 0x80 then
        if above c1 Maxcode then Inl error
        else Inr (1, [int32 c1])
      else if c1 < 0xC2 then Inl error
      else if c1 < 0xE0 then
        if length frm < 2 then Inl partial
        else unit_at frm 1 (\<lambda>c2.
          if int32 c2 AND 0xC0 \<noteq> 0x80 then Inl error
          else let t = push_bit 6 (int32 c1 AND 0x1F) OR (int32 c2 AND 0x3F) in
            if above t Maxcode then Inl error
            else Inr (2, [t]))
      else if c1 < 0xF0 then
        if length frm < 3 then Inl partial
        else unit_at frm 1 (\<lambda>c2. unit_at frm 2 (\<lambda>c3.
          if (if c1 = 0xE0 then int32 c2 AND 0xE0 \<noteq> 0xA0
              else if c1 = 0xED then int32 c2 AND 0xE0 \<noteq> 0x80
              else int32 c2 AND 0xC0 \<noteq> 0x80) then Inl error
          else if int32 c3 AND 0xC0 \<noteq> 0x80 then Inl error
          else let t = push_bit 12 (int32 c1 AND 0x0F) OR push_bit 6 (int32 c2 AND 0x3F)
                         OR (int32 c3 AND 0x3F) in
            if above t Maxcode then Inl error
            else Inr (3, [t])))
      else if c1 < 0xF5 then
        if length frm < 4 then Inl partial
        else unit_at frm 1 (\<lambda>c2. unit_at frm 2 (\<lambda>c3. unit_at frm 3 (\<lambda>c4.
          if (if c1 = 0xF0 then \<not> (0x90 \<le> c2 \<and> c2 \<le> 0xBF)
              else if c1 = 0xF4 then int32 c2 AND 0xF0 \<noteq> 0x80
              else int32 c2 AND 0xC0 \<noteq> 0x80) then Inl error
          else if int32 c3 AND 0xC0 \<noteq> 0x80 \<or> int32 c4 AND 0xC0 \<noteq> 0x80 then Inl error
          else let t = push_bit 18 (int32 c1 AND 0x07) OR push_bit 12 (int32 c2 AND 0x3F)
                         OR push_bit 6 (int32 c3 AND 0x3F) OR (int32 c4 AND 0x3F) in
            if above t Maxcode then Inl error
            else Inr (4, [t]))))
      else Inl error)"

lemmas utf8_to_ucs4_body_plain = utf8_to_ucs4_body_def [unfolded unit_reads]

definition utf8_to_ucs4 :: "u64 \<Rightarrow> u32 \<Rightarrow> u8 list \<Rightarrow> nat \<Rightarrow> (u8, u32) conv" where
  "utf8_to_ucs4 Maxcode mode frm room =
     in_loop 1 (utf8_to_ucs4_body Maxcode) (skip_header utf8_bom mode frm) room"

subsection \<open>utf8_to_ucs4_length\<close>

definition utf8_to_ucs4_length_body :: "u64 \<Rightarrow> u8 list \<Rightarrow> nat \<Rightarrow> (nat \<times> nat) option" where
  "utf8_to_ucs4_length_body Maxcode frm mx =
     (let c1 = hd frm in
      if c1 < 0x80 then
        if above c1 Maxcode then None else Some (1, 1)
      else if c1 < 0xC2 then None
      else if c1 < 0xE0 then
        if length frm < 2 \<or> int32 (frm ! 1) AND 0xC0 \<noteq> 0x80 then None
        else if above (push_bit 6 (int32 c1 AND 0x1F) OR (int32 (frm ! 1) AND 0x3F)) Maxcode then None
        else Some (2, 1)
      else if c1 < 0xF0 then
        if length frm < 3 then None
        else let c2 = frm ! 1; c3 = frm ! 2 in
          if (if c1 = 0xE0 then int32 c2 AND 0xE0 \<noteq> 0xA0
              else if c1 = 0xED then int32 c2 AND 0xE0 \<noteq> 0x80
              else int32 c2 AND 0xC0 \<noteq> 0x80) then None
          else if int32 c3 AND 0xC0 \<noteq> 0x80 then None
          else if above (push_bit 12 (int32 c1 AND 0x0F) OR push_bit 6 (int32 c2 AND 0x3F)
                           OR (int32 c3 AND 0x3F)) Maxcode then None
          else Some (3, 1)
      else if c1 < 0xF5 then
        if length frm < 4 then None
        else let c2 = frm ! 1; c3 = frm ! 2; c4 = frm ! 3 in
          if (if c1 = 0xF0 then \<not> (0x90 \<le> c2 \<and> c2 \<le> 0xBF)
              else if c1 = 0xF4 then int32 c2 AND 0xF0 \<noteq> 0x80
              else int32 c2 AND 0xC0 \<noteq> 0x80) then None
          else if int32 c3 AND 0xC0 \<noteq> 0x80 \<or> int32 c4 AND 0xC0 \<noteq> 0x80 then None
          else if above (push_bit 18 (int32 c1 AND 0x07) OR push_bit 12 (int32 c2 AND 0x3F)
                           OR push_bit 6 (int32 c3 AND 0x3F) OR (int32 c4 AND 0x3F)) Maxcode then None
          else Some (4, 1)
      else None)"

definition utf8_to_ucs4_length :: "u64 \<Rightarrow> u32 \<Rightarrow> u8 list \<Rightarrow> nat \<Rightarrow> int" where
  "utf8_to_ucs4_length Maxcode mode frm mx =
     (let nxt = skip_header utf8_bom mode frm in
      static_cast_int ((length frm - length nxt)
        + length_loop 1 (utf8_to_ucs4_length_body Maxcode) nxt mx))"

subsection \<open>ucs4_to_utf8 writes UTF-8\<close>

lemma u32_less_iff: "wc < 0x80 \<longleftrightarrow> unat wc < 0x80" "wc < 0x800 \<longleftrightarrow> unat wc < 0x800"
  "wc < 0x10000 \<longleftrightarrow> unat wc < 0x10000" for wc :: u32
  by (simp_all add: word_less_nat_alt)

lemma ucs4_to_utf8_body_eq:
  assumes "unat Maxcode \<le> 0x10FFFF"
  shows "ucs4_to_utf8_body Maxcode (wc # ws) room =
    (if \<not> cp_upto Maxcode (unat wc) then Inl error
     else if room < length (utf8 (unat wc)) then Inl partial
     else Inr (1, utf8 (unat wc)))"
proof -
  consider "\<not> cp_upto Maxcode (unat wc)" | "cp_upto Maxcode (unat wc)" "unat wc < 0x110000"
    using assms unfolding cp_upto_def by linarith
  then show ?thesis
  proof cases
    case 1
    then show ?thesis using assms
      by (auto simp: ucs4_to_utf8_body_def surrogate_u32 above_iff cp_upto_def scalar_def)
  next
    case 2
    then show ?thesis
      by (auto simp: ucs4_to_utf8_body_def surrogate_u32 above_iff cp_upto_def scalar_def u32_less_iff
          utf8_def utf8_bytes unat_drop_bit)
  qed
qed


subsection \<open>utf8_to_ucs4 reads UTF-8\<close>

lemma utf8_to_ucs4_body_eq:
  assumes "us \<noteq> []"
  shows "utf8_to_ucs4_body Maxcode us room =
    (case utf8_scan us of Inl r \<Rightarrow> Inl r
     | Inr (n, c) \<Rightarrow> if unat Maxcode < c then Inl error else Inr (n, utf32 c))"
proof -
  let ?b = "unat (us ! 0)"
  consider "?b < 0x80" | "0x80 \<le> ?b" "?b < 0xC2" | "0xF5 \<le> ?b" | "0xC2 \<le> ?b" "?b < 0xE0" | "0xE0 \<le> ?b" "?b < 0xF0" | "0xF0 \<le> ?b" "?b < 0xF5"
    by linarith
  then show ?thesis
    by cases (simp_all add: utf8_to_ucs4_body_plain utf8_scan_def hd_nth0 assms Let_def scan_tests above_iff
        utf32_def flip: assemble2 assemble3 assemble4)
qed


lemma cp_upto_scalar: "cp_upto Maxcode c \<Longrightarrow> scalar c"
  by (simp add: cp_upto_def)

interpretation ucs4_reader: utf8_reader "utf8_to_ucs4_body Maxcode" "cp_upto Maxcode" "utf32 :: nat \<Rightarrow> u32 list"
  for Maxcode
proof
  fix us :: "u8 list" and room n c
  assume "us \<noteq> []" "utf8_scan us = Inr (n, c)" "cp_upto Maxcode c"
  then show "utf8_to_ucs4_body Maxcode us room = Inr (n, utf32 c)"
    by (simp add: utf8_to_ucs4_body_eq cp_upto_def)
next
  fix us :: "u8 list" and room n out
  assume "us \<noteq> []" "0 < room" "utf8_to_ucs4_body Maxcode us room = Inr (n, out)"
  then show "\<exists>c. utf8_scan us = Inr (n, c) \<and> cp_upto Maxcode c \<and> out = utf32 c \<and> length (utf32 c :: u32 list) \<le> room"
    using scan_sound [of us]
    by (auto simp: utf8_to_ucs4_body_eq cp_upto_def utf32_def split: sum.splits prod.splits if_splits)
next
  fix us :: "u8 list" and room n c more
  assume "us \<noteq> []" "utf8_to_ucs4_body Maxcode us room = Inl error" "utf8_scan (us @ more) = Inr (n, c)"
  then show "\<not> cp_upto Maxcode c"
    using scan_extends [of us more]
    by (auto simp: utf8_to_ucs4_body_eq cp_upto_def split: sum.splits prod.splits if_splits)
next
  fix us :: "u8 list" and room r
  assume "us \<noteq> []" "utf8_to_ucs4_body Maxcode us room = Inl r"
  then show "r = partial \<or> r = error"
    using scan_partial_or_error [of us]
    by (auto simp: utf8_to_ucs4_body_eq split: sum.splits prod.splits if_splits)
qed (simp_all add: cp_upto_def utf32_def)

lemma unat_min: "unat (min Maxcode (0x10FFFF :: u64)) \<le> 0x10FFFF"
  using word_le_nat_alt [of "min Maxcode 0x10FFFF" "0x10FFFF"] by simp

interpretation ucs4_writer: unit_writer "ucs4_to_utf8_body (min Maxcode 0x10FFFF)" "cp_upto (min Maxcode 0x10FFFF)" utf8
  for Maxcode
proof
  fix wc ws room c
  show "ucs4_to_utf8_body (min Maxcode 0x10FFFF) (wc # ws) room =
    (if \<not> cp_upto (min Maxcode 0x10FFFF) (unat wc) then Inl error
     else if room < length (utf8 (unat wc)) then Inl partial else Inr (1, utf8 (unat wc)))"
    by (rule ucs4_to_utf8_body_eq [OF unat_min])
  show "c < 2 ^ LENGTH(32)" if "cp_upto (min Maxcode 0x10FFFF) c"
    using that by (auto simp: cp_upto_def scalar_def)
qed


interpretation ucs4_utf8: transcoder_pair "ucs4_to_utf8_body (min Maxcode 0x10FFFF)"
  "guarded 1 (utf8_to_ucs4_body (min Maxcode 0x10FFFF))" "cp_upto (min Maxcode 0x10FFFF)" utf32 utf8
  for Maxcode
  by unfold_locales

interpretation ucs4_length: length_body 1 "utf8_to_ucs4_body Maxcode" "utf8_to_ucs4_length_body Maxcode"
  for Maxcode
proof
  fix us :: "u8 list" and mx n out
  show "utf8_to_ucs4_length_body Maxcode us mx =
      (case utf8_to_ucs4_body Maxcode us mx of Inl r \<Rightarrow> None | Inr (n, out) \<Rightarrow> Some (n, length out))"
    by (simp add: utf8_to_ucs4_length_body_def utf8_to_ucs4_body_plain Let_def)
  show "0 < n \<and> n \<le> length us" if "us \<noteq> []" "utf8_to_ucs4_body Maxcode us mx = Inr (n, out)"
    using that by (auto simp: utf8_to_ucs4_body_plain Let_def Suc_le_eq split: if_splits)
qed

end
