(* ===== verification/Utf8_Ucs2.thy ===== *)
theory Utf8_Ucs2
  imports Utf8_Ucs4
begin

text \<open>
  \<^verbatim>\<open>ucs2_to_utf8\<close>, \<^verbatim>\<open>utf8_to_ucs2\<close> and \<^verbatim>\<open>utf8_to_ucs2_length\<close> of \<^verbatim>\<open>locale.cpp\<close>: UTF-8 against 16-bit units
  that hold one character each, so a lead byte of four is an error at once.
\<close>

unbundle bit_operations_syntax

definition ucs2_to_utf8_body :: "u64 \<Rightarrow> (u16, u8) body" where
  "ucs2_to_utf8_body Maxcode frm room =
     (let wc = int32 (hd frm) in
      if wc AND 0xF800 = 0xD800 \<or> above wc Maxcode then Inl error
      else if wc < 0x0080 then
        if room < 1 then Inl partial
        else Inr (1, [uint8_t wc])
      else if wc < 0x0800 then
        if room < 2 then Inl partial
        else Inr (1, [uint8_t (0xC0 OR drop_bit 6 wc),
                      uint8_t (0x80 OR (wc AND 0x03F))])
      else
        if room < 3 then Inl partial
        else Inr (1, [uint8_t (0xE0 OR drop_bit 12 wc),
                      uint8_t (0x80 OR drop_bit 6 (wc AND 0x0FC0)),
                      uint8_t (0x80 OR (wc AND 0x003F))]))"

definition ucs2_to_utf8 :: "u64 \<Rightarrow> u32 \<Rightarrow> u16 list \<Rightarrow> nat \<Rightarrow> (u16, u8) conv" where
  "ucs2_to_utf8 Maxcode mode frm room =
     with_header utf8_bom mode room frm (out_loop (ucs2_to_utf8_body Maxcode) frm)"

definition utf8_to_ucs2_body :: "u64 \<Rightarrow> (u8, u16) body" where
  "utf8_to_ucs2_body Maxcode frm room =
     (let c1 = hd frm in
      if c1 < 0x80 then
        if above c1 Maxcode then Inl error
        else Inr (1, [uint16_t (int32 c1)])
      else if c1 < 0xC2 then Inl error
      else if c1 < 0xE0 then
        if length frm < 2 then Inl partial
        else unit_at frm 1 (\<lambda>c2.
          if int32 c2 AND 0xC0 \<noteq> 0x80 then Inl error
          else let t = uint16_t (push_bit 6 (int32 c1 AND 0x1F) OR (int32 c2 AND 0x3F)) in
            if above t Maxcode then Inl error
            else Inr (2, [t]))
      else if c1 < 0xF0 then
        if length frm < 3 then Inl partial
        else unit_at frm 1 (\<lambda>c2. unit_at frm 2 (\<lambda>c3.
          if (if c1 = 0xE0 then int32 c2 AND 0xE0 \<noteq> 0xA0
              else if c1 = 0xED then int32 c2 AND 0xE0 \<noteq> 0x80
              else int32 c2 AND 0xC0 \<noteq> 0x80) then Inl error
          else if int32 c3 AND 0xC0 \<noteq> 0x80 then Inl error
          else let t = uint16_t (push_bit 12 (int32 c1 AND 0x0F) OR push_bit 6 (int32 c2 AND 0x3F)
                         OR (int32 c3 AND 0x3F)) in
            if above t Maxcode then Inl error
            else Inr (3, [t])))
      else Inl error)"

lemmas utf8_to_ucs2_body_plain = utf8_to_ucs2_body_def [unfolded unit_reads]

definition utf8_to_ucs2 :: "u64 \<Rightarrow> u32 \<Rightarrow> u8 list \<Rightarrow> nat \<Rightarrow> (u8, u16) conv" where
  "utf8_to_ucs2 Maxcode mode frm room =
     in_loop 1 (utf8_to_ucs2_body Maxcode) (skip_header utf8_bom mode frm) room"

definition utf8_to_ucs2_length_body :: "u64 \<Rightarrow> u8 list \<Rightarrow> nat \<Rightarrow> (nat \<times> nat) option" where
  "utf8_to_ucs2_length_body Maxcode frm mx =
     (let c1 = hd frm in
      if c1 < 0x80 then
        if above c1 Maxcode then None else Some (1, 1)
      else if c1 < 0xC2 then None
      else if c1 < 0xE0 then
        if length frm < 2 \<or> int32 (frm ! 1) AND 0xC0 \<noteq> 0x80 then None
        else if above (push_bit 6 (int32 c1 AND 0x1F) OR (int32 (frm ! 1) AND 0x3F)) Maxcode then None
        else Some (2, 1)
      else if c1 < 0xF0 then
        if length frm < 3 then None
        else let c2 = frm ! 1; c3 = frm ! 2 in
          if (if c1 = 0xE0 then int32 c2 AND 0xE0 \<noteq> 0xA0
              else if c1 = 0xED then int32 c2 AND 0xE0 \<noteq> 0x80
              else int32 c2 AND 0xC0 \<noteq> 0x80) then None
          else if int32 c3 AND 0xC0 \<noteq> 0x80 then None
          else if above (push_bit 12 (int32 c1 AND 0x0F) OR push_bit 6 (int32 c2 AND 0x3F)
                           OR (int32 c3 AND 0x3F)) Maxcode then None
          else Some (3, 1)
      else None)"

definition utf8_to_ucs2_length :: "u64 \<Rightarrow> u32 \<Rightarrow> u8 list \<Rightarrow> nat \<Rightarrow> int" where
  "utf8_to_ucs2_length Maxcode mode frm mx =
     (let nxt = skip_header utf8_bom mode frm in
      static_cast_int ((length frm - length nxt)
        + length_loop 1 (utf8_to_ucs2_length_body Maxcode) nxt mx))"

subsection \<open>ucs2_to_utf8 writes UTF-8\<close>

lemma ucs2_to_utf8_body_eq:
  "ucs2_to_utf8_body Maxcode (wc # ws) room =
    (if \<not> bmp_upto Maxcode (unat wc) then Inl error
     else if room < length (utf8 (unat wc)) then Inl partial
     else Inr (1, utf8 (unat wc)))"
  using unat_lt(2) [of wc]
  by (auto simp: ucs2_to_utf8_body_def surrogate_u16 above_iff bmp_upto_def cp_upto_def scalar_def u32_less_iff
      utf8_def utf8_bytes unat_drop_bit narrow_widened Let_def)

interpretation ucs2_writer: unit_writer "ucs2_to_utf8_body Maxcode" "bmp_upto Maxcode" utf8 for Maxcode
  by unfold_locales (rule ucs2_to_utf8_body_eq, simp add: bmp_upto_def)

subsection \<open>utf8_to_ucs2 reads UTF-8\<close>

text \<open>The 16-bit value of two or three bytes is not cut.\<close>

lemma uint16_assemble2: "unat (uint16_t (push_bit 6 (int32 c1 AND 0x1F) OR (int32 c2 AND 0x3F))) =
    unat (c1 :: u8) mod 32 * 64 + unat (c2 :: u8) mod 64"
proof -
  have "unat c1 mod 32 < 32" "unat c2 mod 64 < 64" by simp_all
  then have "unat c1 mod 32 * 64 + unat c2 mod 64 < 65536" by linarith
  then show ?thesis by (simp only: unsigned_ucast_eq assemble2) (simp add: take_bit_nat_eq_self)
qed

lemma uint16_assemble3: "unat (uint16_t (push_bit 12 (int32 c1 AND 0x0F) OR push_bit 6 (int32 c2 AND 0x3F) OR (int32 c3 AND 0x3F))) =
    unat (c1 :: u8) mod 16 * 4096 + unat (c2 :: u8) mod 64 * 64 + unat (c3 :: u8) mod 64"
proof -
  have "unat c1 mod 16 < 16" "unat c2 mod 64 < 64" "unat c3 mod 64 < 64" by simp_all
  then have "unat c1 mod 16 * 4096 + unat c2 mod 64 * 64 + unat c3 mod 64 < 65536" by linarith
  then show ?thesis by (simp only: unsigned_ucast_eq assemble3) (simp add: take_bit_nat_eq_self)
qed

lemma above_uint16:
  "above (uint16_t (push_bit 6 (int32 c1 AND 0x1F) OR (int32 c2 AND 0x3F))) M =
     above (push_bit 6 (int32 (c1 :: u8) AND 0x1F) OR (int32 (c2 :: u8) AND 0x3F)) M"
  "above (uint16_t (push_bit 12 (int32 c1 AND 0x0F) OR push_bit 6 (int32 c2 AND 0x3F) OR (int32 c3 AND 0x3F))) M =
     above (push_bit 12 (int32 c1 AND 0x0F) OR push_bit 6 (int32 c2 AND 0x3F) OR (int32 (c3 :: u8) AND 0x3F)) M"
  by (simp_all only: above_iff uint16_assemble2 uint16_assemble3 assemble2 assemble3)

lemma utf8_to_ucs2_body_eq:
  assumes "us \<noteq> []"
  shows "utf8_to_ucs2_body Maxcode us room =
    (if 0xF0 \<le> unat (us ! 0) then Inl error
     else case utf8_scan us of Inl r \<Rightarrow> Inl r
     | Inr (n, c) \<Rightarrow> if unat Maxcode < c then Inl error else Inr (n, utf32 c))"
proof -
  let ?b = "unat (us ! 0)"
  consider "?b < 0x80" | "0x80 \<le> ?b" "?b < 0xC2" | "0xC2 \<le> ?b" "?b < 0xE0" | "0xE0 \<le> ?b" "?b < 0xF0" | "0xF0 \<le> ?b"
    by linarith
  then show ?thesis
    by cases (simp_all add: utf8_to_ucs2_body_plain utf8_scan_def hd_nth0 assms Let_def scan_tests above_iff
        utf32_def narrow_widened flip: uint16_assemble2 uint16_assemble3)
qed


interpretation ucs2_reader: utf8_reader "utf8_to_ucs2_body Maxcode" "bmp_upto Maxcode" "utf32 :: nat \<Rightarrow> u16 list"
  for Maxcode
proof
  fix us :: "u8 list" and room n c
  assume "us \<noteq> []" "utf8_scan us = Inr (n, c)" "bmp_upto Maxcode c"
  then show "utf8_to_ucs2_body Maxcode us room = Inr (n, utf32 c)"
    using scan_lead4 [of us n c] by (simp add: utf8_to_ucs2_body_eq bmp_upto_def cp_upto_def)
next
  fix us :: "u8 list" and room n out
  assume "us \<noteq> []" "0 < room" "utf8_to_ucs2_body Maxcode us room = Inr (n, out)"
  then show "\<exists>c. utf8_scan us = Inr (n, c) \<and> bmp_upto Maxcode c \<and> out = utf32 c \<and> length (utf32 c :: u16 list) \<le> room"
    using scan_sound [of us] scan_lead4 [of us]
    by (fastforce simp: utf8_to_ucs2_body_eq bmp_upto_def cp_upto_def utf32_def split: sum.splits prod.splits if_splits)
next
  fix us :: "u8 list" and room n c more
  assume us: "us \<noteq> []" and e: "utf8_to_ucs2_body Maxcode us room = Inl error" and s: "utf8_scan (us @ more) = Inr (n, c)"
  have "(us @ more) ! 0 = us ! 0" using us by (simp add: nth_append)
  then show "\<not> bmp_upto Maxcode c"
    using scan_extends [OF us, of more] scan_lead4 [OF _ s] us e s
    by (auto simp: utf8_to_ucs2_body_eq bmp_upto_def cp_upto_def split: sum.splits prod.splits if_splits)
next
  fix us :: "u8 list" and room r
  assume "us \<noteq> []" "utf8_to_ucs2_body Maxcode us room = Inl r"
  then show "r = partial \<or> r = error"
    using scan_partial_or_error [of us]
    by (auto simp: utf8_to_ucs2_body_eq split: sum.splits prod.splits if_splits)
qed (simp_all add: bmp_upto_def cp_upto_def utf32_def)

interpretation ucs2_utf8: transcoder_pair "ucs2_to_utf8_body Maxcode" "guarded 1 (utf8_to_ucs2_body Maxcode)"
  "bmp_upto Maxcode" utf32 utf8
  for Maxcode
  by unfold_locales

interpretation ucs2_length: length_body 1 "utf8_to_ucs2_body Maxcode" "utf8_to_ucs2_length_body Maxcode"
  for Maxcode
proof
  fix us :: "u8 list" and mx n out
  show "utf8_to_ucs2_length_body Maxcode us mx =
      (case utf8_to_ucs2_body Maxcode us mx of Inl r \<Rightarrow> None | Inr (n, out) \<Rightarrow> Some (n, length out))"
    unfolding utf8_to_ucs2_length_body_def utf8_to_ucs2_body_plain Let_def above_uint16 by simp
  show "0 < n \<and> n \<le> length us" if "us \<noteq> []" "utf8_to_ucs2_body Maxcode us mx = Inr (n, out)"
    using that by (auto simp: utf8_to_ucs2_body_plain Let_def Suc_le_eq split: if_splits)
qed

end
