(* ===== verification/Utf8_Utf16.thy ===== *)
theory Utf8_Utf16
  imports Utf16_Scan Utf8_Ucs2
begin

text \<open>
  The two overloads of \<^verbatim>\<open>utf16_to_utf8\<close> and of \<^verbatim>\<open>utf8_to_utf16\<close> in \<^verbatim>\<open>locale.cpp\<close>, for 16-bit units and for
  16-bit units kept in 32-bit ones, and \<^verbatim>\<open>utf8_to_utf16_length\<close>.
\<close>

unbundle bit_operations_syntax

subsection \<open>utf16_to_utf8\<close>

definition utf16_to_utf8_16_body :: "u64 \<Rightarrow> (u16, u8) body" where
  "utf16_to_utf8_16_body Maxcode frm room =
     (let wc1 = hd frm in
      if above wc1 Maxcode then Inl error
      else if wc1 < 0x0080 then
        if room < 1 then Inl partial
        else Inr (1, [uint8_t (int32 wc1)])
      else if wc1 < 0x0800 then
        if room < 2 then Inl partial
        else Inr (1, [uint8_t (0xC0 OR drop_bit 6 (int32 wc1)),
                      uint8_t (0x80 OR (int32 wc1 AND 0x03F))])
      else if wc1 < 0xD800 then
        if room < 3 then Inl partial
        else Inr (1, [uint8_t (0xE0 OR drop_bit 12 (int32 wc1)),
                      uint8_t (0x80 OR drop_bit 6 (int32 wc1 AND 0x0FC0)),
                      uint8_t (0x80 OR (int32 wc1 AND 0x003F))])
      else if wc1 < 0xDC00 then
        if length frm < 2 then Inl partial
        else unit_at frm 1 (\<lambda>wc2.
          if int32 wc2 AND 0xFC00 \<noteq> 0xDC00 then Inl error
          else if room < 4 then Inl partial
          else if Maxcode < push_bit 16 (drop_bit 6 (ucast wc1 AND 0x03C0) + 1)
                            + push_bit 10 (ucast wc1 AND 0x003F) + ucast (int32 wc2 AND 0x03FF) then Inl error
          else let z = uint8_t (drop_bit 6 (int32 wc1 AND 0x03C0) + 1) in
            Inr (2, [uint8_t (0xF0 OR drop_bit 2 (int32 z)),
                     uint8_t (0x80 OR push_bit 4 (int32 z AND 0x03) OR drop_bit 2 (int32 wc1 AND 0x003C)),
                     uint8_t (0x80 OR push_bit 4 (int32 wc1 AND 0x0003) OR drop_bit 6 (int32 wc2 AND 0x03C0)),
                     uint8_t (0x80 OR (int32 wc2 AND 0x003F))]))
      else if wc1 < 0xE000 then Inl error
      else
        if room < 3 then Inl partial
        else Inr (1, [uint8_t (0xE0 OR drop_bit 12 (int32 wc1)),
                      uint8_t (0x80 OR drop_bit 6 (int32 wc1 AND 0x0FC0)),
                      uint8_t (0x80 OR (int32 wc1 AND 0x003F))]))"

lemmas utf16_to_utf8_16_body_plain = utf16_to_utf8_16_body_def [unfolded unit_reads]

definition utf16_to_utf8_16 :: "u64 \<Rightarrow> u32 \<Rightarrow> u16 list \<Rightarrow> nat \<Rightarrow> (u16, u8) conv" where
  "utf16_to_utf8_16 Maxcode mode frm room =
     with_header utf8_bom mode room frm (out_loop (utf16_to_utf8_16_body Maxcode) frm)"

definition utf16_to_utf8_32_body :: "u64 \<Rightarrow> (u32, u8) body" where
  "utf16_to_utf8_32_body Maxcode frm room =
     (let wc1 = ucast (hd frm) :: u16 in
      if above wc1 Maxcode then Inl error
      else if wc1 < 0x0080 then
        if room < 1 then Inl partial
        else Inr (1, [uint8_t (int32 wc1)])
      else if wc1 < 0x0800 then
        if room < 2 then Inl partial
        else Inr (1, [uint8_t (0xC0 OR drop_bit 6 (int32 wc1)),
                      uint8_t (0x80 OR (int32 wc1 AND 0x03F))])
      else if wc1 < 0xD800 then
        if room < 3 then Inl partial
        else Inr (1, [uint8_t (0xE0 OR drop_bit 12 (int32 wc1)),
                      uint8_t (0x80 OR drop_bit 6 (int32 wc1 AND 0x0FC0)),
                      uint8_t (0x80 OR (int32 wc1 AND 0x003F))])
      else if wc1 < 0xDC00 then
        if length frm < 2 then Inl partial
        else unit_at frm 1 (\<lambda>w2. let wc2 = ucast w2 :: u16 in
          if int32 wc2 AND 0xFC00 \<noteq> 0xDC00 then Inl error
          else if room < 4 then Inl partial
          else if Maxcode < push_bit 16 (drop_bit 6 (ucast wc1 AND 0x03C0) + 1)
                            + push_bit 10 (ucast wc1 AND 0x003F) + ucast (int32 wc2 AND 0x03FF) then Inl error
          else let z = uint8_t (drop_bit 6 (int32 wc1 AND 0x03C0) + 1) in
            Inr (2, [uint8_t (0xF0 OR drop_bit 2 (int32 z)),
                     uint8_t (0x80 OR push_bit 4 (int32 z AND 0x03) OR drop_bit 2 (int32 wc1 AND 0x003C)),
                     uint8_t (0x80 OR push_bit 4 (int32 wc1 AND 0x0003) OR drop_bit 6 (int32 wc2 AND 0x03C0)),
                     uint8_t (0x80 OR (int32 wc2 AND 0x003F))]))
      else if wc1 < 0xE000 then Inl error
      else
        if room < 3 then Inl partial
        else Inr (1, [uint8_t (0xE0 OR drop_bit 12 (int32 wc1)),
                      uint8_t (0x80 OR drop_bit 6 (int32 wc1 AND 0x0FC0)),
                      uint8_t (0x80 OR (int32 wc1 AND 0x003F))]))"

lemmas utf16_to_utf8_32_body_plain = utf16_to_utf8_32_body_def [unfolded unit_reads]

definition utf16_to_utf8_32 :: "u64 \<Rightarrow> u32 \<Rightarrow> u32 list \<Rightarrow> nat \<Rightarrow> (u32, u8) conv" where
  "utf16_to_utf8_32 Maxcode mode frm room =
     with_header utf8_bom mode room frm (out_loop (utf16_to_utf8_32_body Maxcode) frm)"

subsection \<open>utf8_to_utf16\<close>

definition utf8_to_utf16_16_body :: "u64 \<Rightarrow> (u8, u16) body" where
  "utf8_to_utf16_16_body Maxcode frm room =
     (let c1 = hd frm in
      if above c1 Maxcode then Inl error
      else if c1 < 0x80 then Inr (1, [uint16_t (int32 c1)])
      else if c1 < 0xC2 then Inl error
      else if c1 < 0xE0 then
        if length frm < 2 then Inl partial
        else unit_at frm 1 (\<lambda>c2.
          if int32 c2 AND 0xC0 \<noteq> 0x80 then Inl error
          else let t = uint16_t (push_bit 6 (int32 c1 AND 0x1F) OR (int32 c2 AND 0x3F)) in
            if above t Maxcode then Inl error
            else Inr (2, [t]))
      else if c1 < 0xF0 then
        if length frm < 3 then Inl partial
        else unit_at frm 1 (\<lambda>c2. unit_at frm 2 (\<lambda>c3.
          if (if c1 = 0xE0 then int32 c2 AND 0xE0 \<noteq> 0xA0
              else if c1 = 0xED then int32 c2 AND 0xE0 \<noteq> 0x80
              else int32 c2 AND 0xC0 \<noteq> 0x80) then Inl error
          else if int32 c3 AND 0xC0 \<noteq> 0x80 then Inl error
          else let t = uint16_t (push_bit 12 (int32 c1 AND 0x0F) OR push_bit 6 (int32 c2 AND 0x3F)
                         OR (int32 c3 AND 0x3F)) in
            if above t Maxcode then Inl error
            else Inr (3, [t])))
      else if c1 < 0xF5 then
        if length frm < 4 then Inl partial
        else unit_at frm 1 (\<lambda>c2. unit_at frm 2 (\<lambda>c3. unit_at frm 3 (\<lambda>c4.
          if (if c1 = 0xF0 then \<not> (0x90 \<le> c2 \<and> c2 \<le> 0xBF)
              else if c1 = 0xF4 then int32 c2 AND 0xF0 \<noteq> 0x80
              else int32 c2 AND 0xC0 \<noteq> 0x80) then Inl error
          else if int32 c3 AND 0xC0 \<noteq> 0x80 \<or> int32 c4 AND 0xC0 \<noteq> 0x80 then Inl error
          else if room < 2 then Inl partial
          else if Maxcode < push_bit 18 (ucast c1 AND 7) + push_bit 12 (ucast c2 AND 0x3F)
                            + push_bit 6 (ucast c3 AND 0x3F) + ucast (int32 c4 AND 0x3F) then Inl error
          else Inr (4, [uint16_t (0xD800
                       OR push_bit 6 ((push_bit 2 (int32 c1 AND 0x07) OR drop_bit 4 (int32 c2 AND 0x30)) - 1)
                       OR push_bit 2 (int32 c2 AND 0x0F)
                       OR drop_bit 4 (int32 c3 AND 0x30)),
                        uint16_t (0xDC00 OR push_bit 6 (int32 c3 AND 0x0F) OR (int32 c4 AND 0x3F))]))))
      else Inl error)"

lemmas utf8_to_utf16_16_body_plain = utf8_to_utf16_16_body_def [unfolded unit_reads]

definition utf8_to_utf16_16 :: "u64 \<Rightarrow> u32 \<Rightarrow> u8 list \<Rightarrow> nat \<Rightarrow> (u8, u16) conv" where
  "utf8_to_utf16_16 Maxcode mode frm room =
     in_loop 1 (utf8_to_utf16_16_body Maxcode) (skip_header utf8_bom mode frm) room"

definition utf8_to_utf16_32_body :: "u64 \<Rightarrow> (u8, u32) body" where
  "utf8_to_utf16_32_body Maxcode frm room =
     (let c1 = hd frm in
      if above c1 Maxcode then Inl error
      else if c1 < 0x80 then Inr (1, [int32 c1])
      else if c1 < 0xC2 then Inl error
      else if c1 < 0xE0 then
        if length frm < 2 then Inl partial
        else unit_at frm 1 (\<lambda>c2.
          if int32 c2 AND 0xC0 \<noteq> 0x80 then Inl error
          else let t = uint16_t (push_bit 6 (int32 c1 AND 0x1F) OR (int32 c2 AND 0x3F)) in
            if above t Maxcode then Inl error
            else Inr (2, [int32 t]))
      else if c1 < 0xF0 then
        if length frm < 3 then Inl partial
        else unit_at frm 1 (\<lambda>c2. unit_at frm 2 (\<lambda>c3.
          if (if c1 = 0xE0 then int32 c2 AND 0xE0 \<noteq> 0xA0
              else if c1 = 0xED then int32 c2 AND 0xE0 \<noteq> 0x80
              else int32 c2 AND 0xC0 \<noteq> 0x80) then Inl error
          else if int32 c3 AND 0xC0 \<noteq> 0x80 then Inl error
          else let t = uint16_t (push_bit 12 (int32 c1 AND 0x0F) OR push_bit 6 (int32 c2 AND 0x3F)
                         OR (int32 c3 AND 0x3F)) in
            if above t Maxcode then Inl error
            else Inr (3, [int32 t])))
      else if c1 < 0xF5 then
        if length frm < 4 then Inl partial
        else unit_at frm 1 (\<lambda>c2. unit_at frm 2 (\<lambda>c3. unit_at frm 3 (\<lambda>c4.
          if (if c1 = 0xF0 then \<not> (0x90 \<le> c2 \<and> c2 \<le> 0xBF)
              else if c1 = 0xF4 then int32 c2 AND 0xF0 \<noteq> 0x80
              else int32 c2 AND 0xC0 \<noteq> 0x80) then Inl error
          else if int32 c3 AND 0xC0 \<noteq> 0x80 \<or> int32 c4 AND 0xC0 \<noteq> 0x80 then Inl error
          else if room < 2 then Inl partial
          else if Maxcode < push_bit 18 (ucast c1 AND 7) + push_bit 12 (ucast c2 AND 0x3F)
                            + push_bit 6 (ucast c3 AND 0x3F) + ucast (int32 c4 AND 0x3F) then Inl error
          else Inr (4, [0xD800
                       OR push_bit 6 ((push_bit 2 (int32 c1 AND 0x07) OR drop_bit 4 (int32 c2 AND 0x30)) - 1)
                       OR push_bit 2 (int32 c2 AND 0x0F)
                       OR drop_bit 4 (int32 c3 AND 0x30),
                        0xDC00 OR push_bit 6 (int32 c3 AND 0x0F) OR (int32 c4 AND 0x3F)]))))
      else Inl error)"

lemmas utf8_to_utf16_32_body_plain = utf8_to_utf16_32_body_def [unfolded unit_reads]

definition utf8_to_utf16_32 :: "u64 \<Rightarrow> u32 \<Rightarrow> u8 list \<Rightarrow> nat \<Rightarrow> (u8, u32) conv" where
  "utf8_to_utf16_32 Maxcode mode frm room =
     in_loop 1 (utf8_to_utf16_32_body Maxcode) (skip_header utf8_bom mode frm) room"

subsection \<open>utf8_to_utf16_length\<close>

definition utf8_to_utf16_length_body :: "u64 \<Rightarrow> u8 list \<Rightarrow> nat \<Rightarrow> (nat \<times> nat) option" where
  "utf8_to_utf16_length_body Maxcode frm mx =
     (let c1 = hd frm in
      if above c1 Maxcode then None
      else if c1 < 0x80 then Some (1, 1)
      else if c1 < 0xC2 then None
      else if c1 < 0xE0 then
        if length frm < 2 \<or> int32 (frm ! 1) AND 0xC0 \<noteq> 0x80 then None
        else if above (uint16_t (push_bit 6 (int32 c1 AND 0x1F) OR (int32 (frm ! 1) AND 0x3F))) Maxcode then None
        else Some (2, 1)
      else if c1 < 0xF0 then
        if length frm < 3 then None
        else let c2 = frm ! 1; c3 = frm ! 2 in
          if (if c1 = 0xE0 then int32 c2 AND 0xE0 \<noteq> 0xA0
              else if c1 = 0xED then int32 c2 AND 0xE0 \<noteq> 0x80
              else int32 c2 AND 0xC0 \<noteq> 0x80) then None
          else if int32 c3 AND 0xC0 \<noteq> 0x80 then None
          else if above (push_bit 12 (int32 c1 AND 0x0F) OR push_bit 6 (int32 c2 AND 0x3F)
                           OR (int32 c3 AND 0x3F)) Maxcode then None
          else Some (3, 1)
      else if c1 < 0xF5 then
        if length frm < 4 \<or> mx < 2 then None
        else let c2 = frm ! 1; c3 = frm ! 2; c4 = frm ! 3 in
          if (if c1 = 0xF0 then \<not> (0x90 \<le> c2 \<and> c2 \<le> 0xBF)
              else if c1 = 0xF4 then int32 c2 AND 0xF0 \<noteq> 0x80
              else int32 c2 AND 0xC0 \<noteq> 0x80) then None
          else if int32 c3 AND 0xC0 \<noteq> 0x80 \<or> int32 c4 AND 0xC0 \<noteq> 0x80 then None
          else if Maxcode < push_bit 18 (ucast c1 AND 7) + push_bit 12 (ucast c2 AND 0x3F)
                            + push_bit 6 (ucast c3 AND 0x3F) + ucast (int32 c4 AND 0x3F) then None
          else Some (4, 2)
      else None)"

definition utf8_to_utf16_length :: "u64 \<Rightarrow> u32 \<Rightarrow> u8 list \<Rightarrow> nat \<Rightarrow> int" where
  "utf8_to_utf16_length Maxcode mode frm mx =
     (let nxt = skip_header utf8_bom mode frm in
      static_cast_int ((length frm - length nxt)
        + length_loop 1 (utf8_to_utf16_length_body Maxcode) nxt mx))"

subsection \<open>utf16_to_utf8 reads UTF-16 and writes UTF-8\<close>

lemma u16_less_iff: "wc < 0x80 \<longleftrightarrow> unat wc < 0x80" "wc < 0x800 \<longleftrightarrow> unat wc < 0x800"
  "wc < 0xD800 \<longleftrightarrow> unat wc < 0xD800" "wc < 0xDC00 \<longleftrightarrow> unat wc < 0xDC00" "wc < 0xE000 \<longleftrightarrow> unat wc < 0xE000" for wc :: u16
  by (simp_all add: word_less_nat_alt)

lemma low_iff: "int32 (v :: u16) AND 0xFC00 = 0xDC00 \<longleftrightarrow> low (unat v)"
  by (simp add: low_surrogate low_def)

lemma utf16_to_utf8_16_body_eq:
  assumes "us \<noteq> []"
  shows "utf16_to_utf8_16_body Maxcode us room =
    (if unat Maxcode < unat (us ! 0) then Inl error
     else case utf16_scan us of Inl r \<Rightarrow> Inl r
     | Inr (n, c) \<Rightarrow> if room < length (utf8 c) then Inl partial
                     else if unat Maxcode < c then Inl error else Inr (n, utf8 c))"
proof -
  let ?w = "unat (us ! 0)"
  note defs = utf16_to_utf8_16_body_plain utf16_scan_def hd_nth0 [OF assms] Let_def above_iff u16_less_iff low_iff
  have w: "?w < 0x10000" using unat_lt(2) [of "us ! 0"] by simp
  consider "?w < 0x80" | "0x80 \<le> ?w" "?w < 0x800" | "0x800 \<le> ?w" "?w < 0xD800" | "0xD800 \<le> ?w" "?w < 0xDC00"
    | "0xDC00 \<le> ?w" "?w < 0xE000" | "0xE000 \<le> ?w"
    by linarith
  then show ?thesis
  proof cases
    case 4
    then have h: "high ?w" "\<not> low ?w" by (simp_all add: high_def low_def)
    have c: "\<not> pair_value ?w (unat v) < 0x10000" for v :: u16 by (simp add: pair_value_def)
    have "length (utf8 (pair_value ?w (unat v))) = 4" for v :: u16 using c [of v] by (simp add: utf8_def)
    then show ?thesis using 4 h unfolding defs word_less_nat_alt [of Maxcode] pair_value_u64 pair_bytes by simp
  qed (use w in \<open>simp_all add: defs high_def low_def utf8_def utf8_bytes narrow_widened\<close>)
qed

lemma utf16_first: "scalar c \<Longrightarrow> unat ((utf16 c :: u16 list) ! 0) \<le> c"
  by (cases c rule: utf16_shape) (auto simp: high_def)

interpretation utf16_writer: transcoder "utf16_to_utf8_16_body Maxcode" "cp_upto Maxcode" "utf16 :: nat \<Rightarrow> u16 list" utf8
  for Maxcode
proof
  fix us :: "u16 list" and room n out
  assume "us \<noteq> []" "utf16_to_utf8_16_body Maxcode us room = Inr (n, out)"
  then show "\<exists>c rest. cp_upto Maxcode c \<and> us = utf16 c @ rest \<and> n = length (utf16 c :: u16 list) \<and> out = utf8 c \<and> length (utf8 c) \<le> room"
    using scan16_sound [of us]
    by (fastforce simp: utf16_to_utf8_16_body_eq cp_upto_def split: sum.splits prod.splits if_splits)
next
  fix c room and rest :: "u16 list"
  assume c: "cp_upto Maxcode c" "length (utf8 c) \<le> room"
  have ne: "(utf16 c :: u16 list) \<noteq> []" by (simp add: utf16_def)
  then have "(utf16 c @ rest) ! 0 = (utf16 c :: u16 list) ! 0" by (simp add: nth_append)
  then show "utf16_to_utf8_16_body Maxcode (utf16 c @ rest) room = Inr (length (utf16 c :: u16 list), utf8 c)"
    using c ne utf16_first [of c] scan_utf16 [of c rest]
    by (simp add: utf16_to_utf8_16_body_eq cp_upto_def)
next
  fix us :: "u16 list" and room c more rest
  assume us: "us \<noteq> []" and e: "utf16_to_utf8_16_body Maxcode us room = Inl error" and c: "cp_upto Maxcode c"
  have ne: "(utf16 c :: u16 list) \<noteq> []" by (simp add: utf16_def)
  show "us @ more \<noteq> utf16 c @ rest"
  proof
    assume eq: "us @ more = utf16 c @ rest"
    then have "us ! 0 = utf16 c ! 0" using us ne by (metis hd_append2 hd_conv_nth)
    then have "\<not> unat Maxcode < unat (us ! 0)" using c utf16_first [of c] by (simp add: cp_upto_def)
    then show False
      using e us c scan16_extends [OF us, of more] scan_utf16 [of c rest] unfolding eq
      by (auto simp: utf16_to_utf8_16_body_eq cp_upto_def split: sum.splits prod.splits if_splits)
  qed
next
  fix us :: "u16 list" and room r
  assume "us \<noteq> []" "utf16_to_utf8_16_body Maxcode us room = Inl r"
  then show "r = partial \<or> r = error"
    using scan16_partial_or_error [of us]
    by (auto simp: utf16_to_utf8_16_body_eq split: sum.splits prod.splits if_splits)
qed (simp add: utf16_def)

text \<open>
  What is no character is refused with an error, but for two cases, where the answer is partial: a high
  surrogate that is the last unit, and a pair above \<^verbatim>\<open>Maxcode\<close> when there is no room for four bytes.
\<close>

definition refuses_units :: "u64 \<Rightarrow> (u16 list \<Rightarrow> nat \<Rightarrow> (u16, 'v) conv) \<Rightarrow> bool" where
  "refuses_units Maxcode f \<longleftrightarrow>
     (\<forall>us room r rest out. f us room = (r, rest, out) \<longrightarrow> rest \<noteq> [] \<longrightarrow>
        (\<forall>c xs. cp_upto Maxcode c \<longrightarrow> rest \<noteq> utf16 c @ xs) \<longrightarrow>
        r = (if high (unat (rest ! 0)) \<and> unat (rest ! 0) \<le> unat Maxcode \<and>
               (length rest = 1 \<or> low (unat (rest ! 1)) \<and> room - length out < 4)
             then partial else error))"

lemma utf16_refuses: "refuses_units Maxcode (out_loop (utf16_to_utf8_16_body Maxcode))"
  unfolding refuses_units_def
proof (intro allI impI)
  fix us room r rest out
  assume run: "out_loop (utf16_to_utf8_16_body Maxcode) us room = (r, rest, out)" and ne: "rest \<noteq> []"
    and no_char: "\<forall>c xs. cp_upto Maxcode c \<longrightarrow> rest \<noteq> utf16 c @ xs"
  let ?w = "unat (rest ! 0)" and ?room = "room - length out"
  note stop = utf16_writer.stopped_by [OF run ne, unfolded utf16_to_utf8_16_body_eq [OF ne]]
  have big: "unat Maxcode < c" if "utf16_scan rest = Inr (n, c)" for n c
    using scan16_sound [OF ne that] no_char by (auto simp: cp_upto_def not_less)
  show "r = (if high ?w \<and> ?w \<le> unat Maxcode \<and> (length rest = 1 \<or> low (unat (rest ! 1)) \<and> ?room < 4)
      then partial else error)"
  proof (cases "unat Maxcode < ?w")
    case False
    have one: "low ?w" if "\<not> high ?w"
    proof (rule ccontr)
      assume "\<not> low ?w"
      with that have "utf16_scan rest = Inr (1, ?w)" by (simp add: utf16_scan_def)
      with big False show False by blast
    qed
    have "length (utf8 (pair_value ?w v)) = 4" for v
      by (simp add: utf8_def pair_value_def)
    then show ?thesis
      using stop False one ne big [of 2]
      by (auto simp: utf16_scan_def Let_def high_def low_def less_2_cases_iff split: if_splits)
  qed (use stop in auto)
qed

subsection \<open>utf8_to_utf16 reads UTF-8 and writes UTF-16\<close>

lemma utf16_bmp: "c < 0x10000 \<Longrightarrow> (utf16 c :: 'a::len word list) = [of_nat c]"
  by (simp add: utf16_def)

lemma uint16_units:
  fixes c1 c2 c3 c4 :: u8
  defines "c \<equiv> four_value (unat c1) (unat c2) (unat c3) (unat c4)"
  assumes "0x10000 \<le> c" "c \<le> 0x10FFFF"
  shows "[uint16_t (0xD800 OR push_bit 6 ((push_bit 2 (int32 c1 AND 0x07) OR drop_bit 4 (int32 c2 AND 0x30)) - 1)
           OR push_bit 2 (int32 c2 AND 0x0F) OR drop_bit 4 (int32 c3 AND 0x30)),
      uint16_t (0xDC00 OR push_bit 6 (int32 c3 AND 0x0F) OR (int32 c4 AND 0x3F))] = utf16 c"
proof -
  note u = four_units [OF assms(2,3) [unfolded c_def], folded c_def]
  show ?thesis
    using assms(2) ucast_of_unat [where 'b = 16, symmetric] u [symmetric] by (simp add: utf16_def del: of_nat_add)
qed

lemma four_scan:
  assumes "second4 (unat (us ! 0)) (unat (us ! 1)) \<and> cont (unat (us ! 2)) \<and> cont (unat (us ! 3))"
    "0xF0 \<le> unat (us ! 0)" "unat (us ! 0) < 0xF5"
  defines "c \<equiv> four_value (unat (us ! 0)) (unat (us ! 1)) (unat (us ! 2)) (unat (us ! 3))"
  shows "0x10000 \<le> c" "c \<le> 0x10FFFF"
  using utf8_four [OF assms(2,3)] assms(1) unfolding c_def four_value_def by blast+

lemma utf16_unit: "(utf16 (unat (x :: u16)) :: u16 list) = [x]"
  using unat_lt(2) [of x] by (simp add: utf16_def)

lemma utf8_to_utf16_16_body_eq:
  assumes "us \<noteq> []" "0 < room"
  shows "utf8_to_utf16_16_body Maxcode us room =
    (if unat Maxcode < unat (us ! 0) then Inl error
     else case utf8_scan us of Inl r \<Rightarrow> Inl r
     | Inr (n, c) \<Rightarrow> if room < length (utf16 c :: u16 list) then Inl partial
                     else if unat Maxcode < c then Inl error else Inr (n, utf16 c))"
proof -
  let ?b = "unat (us ! 0)"
  note defs = utf8_to_utf16_16_body_plain utf8_scan_def hd_nth0 [OF assms(1)] Let_def above_iff scan_tests
  consider "?b < 0x80" | "0x80 \<le> ?b" "?b < 0xC2" | "0xC2 \<le> ?b" "?b < 0xE0" | "0xE0 \<le> ?b" "?b < 0xF0"
    | "0xF0 \<le> ?b" "?b < 0xF5" | "0xF5 \<le> ?b"
    by linarith
  then show ?thesis
  proof cases
    case 5
    let ?c = "four_value ?b (unat (us ! 1)) (unat (us ! 2)) (unat (us ! 3))"
    show ?thesis
    proof (cases "second4 ?b (unat (us ! 1)) \<and> cont (unat (us ! 2)) \<and> cont (unat (us ! 3))")
      case False
      then show ?thesis using 5 by (auto simp: defs)
    next
      case True
      note c = four_scan [OF True 5]
      have "length (utf16 ?c :: u16 list) = 2" using c(1) by (simp add: utf16_def)
      then show ?thesis
        using 5 True uint16_units [OF c] unfolding defs word_less_nat_alt [of Maxcode] four_value_u64
        by (simp add: four_value_def)
    qed
  qed (use assms(2) in \<open>simp_all add: defs utf16_unit utf16_bmp narrow_widened flip: uint16_assemble2 uint16_assemble3\<close>)
qed

text \<open>
  The routine compares every lead byte with \<^verbatim>\<open>Maxcode\<close> before it decodes it. From 0xF4 on that changes
  nothing, since no lead byte is larger.
\<close>

lemma scan_lead: "utf8_scan us = Inr (n, c) \<Longrightarrow> unat (us ! 0) \<le> 0xF4"
  by (auto simp: utf8_scan_def Let_def split: if_splits)

lemma max_F4: "unat (max Maxcode (0xF4 :: u64)) = max (unat Maxcode) 0xF4"
  by (simp add: max_def word_le_nat_alt)

interpretation utf16_reader: utf8_reader "utf8_to_utf16_16_body (max Maxcode 0xF4)" "cp_upto (max Maxcode 0xF4)"
  "utf16 :: nat \<Rightarrow> u16 list"
  for Maxcode
proof
  fix us :: "u8 list" and room n c
  assume "us \<noteq> []" "utf8_scan us = Inr (n, c)" "cp_upto (max Maxcode 0xF4) c" "length (utf16 c :: u16 list) \<le> room"
  moreover from this(4) have "0 < room" by (cases room) (auto simp: utf16_def split: if_splits)
  ultimately show "utf8_to_utf16_16_body (max Maxcode 0xF4) us room = Inr (n, utf16 c)"
    using scan_lead [of us n c] by (auto simp: utf8_to_utf16_16_body_eq cp_upto_def max_F4)
next
  fix us :: "u8 list" and room n out
  assume "us \<noteq> []" "0 < room" "utf8_to_utf16_16_body (max Maxcode 0xF4) us room = Inr (n, out)"
  then show "\<exists>c. utf8_scan us = Inr (n, c) \<and> cp_upto (max Maxcode 0xF4) c \<and> out = utf16 c \<and> length (utf16 c :: u16 list) \<le> room"
    using scan_sound [of us]
    by (auto simp: utf8_to_utf16_16_body_eq cp_upto_def split: sum.splits prod.splits if_splits)
next
  fix us :: "u8 list" and room n c more
  assume us: "us \<noteq> []" and room: "0 < room" and e: "utf8_to_utf16_16_body (max Maxcode 0xF4) us room = Inl error"
    and s: "utf8_scan (us @ more) = Inr (n, c)"
  have "(us @ more) ! 0 = us ! 0" using us by (simp add: nth_append)
  then have "\<not> unat (max Maxcode (0xF4 :: u64)) < unat (us ! 0)" using scan_lead [OF s] by (simp add: max_F4)
  with us room e s scan_extends [OF us, of more] show "\<not> cp_upto (max Maxcode 0xF4) c"
    by (auto simp: utf8_to_utf16_16_body_eq cp_upto_def split: sum.splits prod.splits if_splits)
next
  fix us :: "u8 list" and room r
  assume "us \<noteq> []" "0 < room" "utf8_to_utf16_16_body (max Maxcode 0xF4) us room = Inl r"
  then show "r = partial \<or> r = error"
    using scan_partial_or_error [of us]
    by (auto simp: utf8_to_utf16_16_body_eq split: sum.splits prod.splits if_splits)
qed (simp_all add: cp_upto_def utf16_def)

interpretation utf16_utf8: transcoder_pair "utf16_to_utf8_16_body (max Maxcode 0xF4)"
  "guarded 1 (utf8_to_utf16_16_body (max Maxcode 0xF4))" "cp_upto (max Maxcode 0xF4)" utf16 utf8
  for Maxcode
  by unfold_locales

interpretation utf16_length: length_body 1 "utf8_to_utf16_16_body Maxcode" "utf8_to_utf16_length_body Maxcode"
  for Maxcode
proof
  fix us :: "u8 list" and mx n out
  show "utf8_to_utf16_length_body Maxcode us mx =
      (case utf8_to_utf16_16_body Maxcode us mx of Inl r \<Rightarrow> None | Inr (n, out) \<Rightarrow> Some (n, length out))"
    unfolding utf8_to_utf16_length_body_def utf8_to_utf16_16_body_plain Let_def above_uint16 by simp
  show "0 < n \<and> n \<le> length us" if "us \<noteq> []" "utf8_to_utf16_16_body Maxcode us mx = Inr (n, out)"
    using that by (auto simp: utf8_to_utf16_16_body_plain Let_def Suc_le_eq split: if_splits)
qed

subsection \<open>The overloads on 32-bit units\<close>

text \<open>They do what the others do, one truncating its input to 16 bits, the other widening its output.\<close>

lemma utf16_to_utf8_32_body_eq:
  "us \<noteq> [] \<Longrightarrow> utf16_to_utf8_32_body Maxcode us room = utf16_to_utf8_16_body Maxcode (map ucast us) room"
  unfolding utf16_to_utf8_32_body_plain utf16_to_utf8_16_body_plain by (cases us; cases "tl us") (auto simp: Let_def)

lemma out_loop_32:
  "out_loop (utf16_to_utf8_16_body Maxcode) (map ucast us) room =
     apsnd (apfst (map ucast)) (out_loop (utf16_to_utf8_32_body Maxcode) us room)"
proof (induction us arbitrary: room rule: length_induct)
  case (1 us)
  show ?case
  proof (cases us)
    case (Cons v vs)
    then have "utf16_to_utf8_16_body Maxcode (map ucast us) room = utf16_to_utf8_32_body Maxcode us room"
      by (simp add: utf16_to_utf8_32_body_eq)
    moreover have "out_loop (utf16_to_utf8_16_body Maxcode) (map ucast (drop n vs)) r =
        apsnd (apfst (map ucast)) (out_loop (utf16_to_utf8_32_body Maxcode) (drop n vs) r)" for n r
      using 1 [rule_format, of "drop n vs" r] Cons by simp
    ultimately show ?thesis unfolding Cons
      by (auto simp: drop_map put_out_def split: sum.split prod.split)
  qed simp
qed

text \<open>The high and low units the wide overload assembles already fit 16 bits.\<close>

lemma widen_narrowed: "unat (x :: u32) < 65536 \<Longrightarrow> int32 (uint16_t x) = x"
  by (simp add: word_unat_eq_iff unsigned_ucast_eq unsigned_take_bit_eq take_bit_nat_eq_self)

lemma widen_byte: "int32 (uint16_t (int32 (c :: u8))) = int32 c"
  using unat_lt(1) [of c] by (intro widen_narrowed) simp

lemma utf8_to_utf16_32_body_eq:
  assumes "us \<noteq> []"
  shows "utf8_to_utf16_32_body Maxcode us room = map_sum id (apsnd (map ucast)) (utf8_to_utf16_16_body Maxcode us room)"
proof (cases "0xF0 \<le> unat (us ! 0) \<and> unat (us ! 0) < 0xF5 \<and>
    second4 (unat (us ! 0)) (unat (us ! 1)) \<and> cont (unat (us ! 2)) \<and> cont (unat (us ! 3))")
  case True
  then have "0x10000 \<le> four_value (unat (us ! 0)) (unat (us ! 1)) (unat (us ! 2)) (unat (us ! 3))"
    and "four_value (unat (us ! 0)) (unat (us ! 1)) (unat (us ! 2)) (unat (us ! 3)) \<le> 0x10FFFF"
    using four_scan [of us] by blast+
  note u = four_units [OF this]
  have H: "int32 (uint16_t x) = x" if "unat x = 0xD800 + (c - 0x10000) div 1024" "c \<le> 0x10FFFF" for x c
    using that by (intro widen_narrowed) linarith
  have L: "int32 (uint16_t x) = x" if "unat x = 0xDC00 + (c - 0x10000) mod 1024" for x c
    using that mod_less_divisor [of 1024 "c - 0x10000"] by (intro widen_narrowed) linarith
  from True show ?thesis
    using H [OF u(1)] L [OF u(2)] \<open>_ \<le> 0x10FFFF\<close>
    unfolding utf8_to_utf16_32_body_plain utf8_to_utf16_16_body_plain hd_nth0 [OF assms] Let_def scan_tests
    by simp
next
  case False
  then show ?thesis
    unfolding utf8_to_utf16_32_body_plain utf8_to_utf16_16_body_plain hd_nth0 [OF assms] Let_def scan_tests
    by (auto simp: widen_byte)
qed

lemma in_loop_32:
  "in_loop 1 (utf8_to_utf16_32_body Maxcode) us room =
     apsnd (apsnd (map ucast)) (in_loop 1 (utf8_to_utf16_16_body Maxcode) us room)"
proof (induction us arbitrary: room rule: length_induct)
  case (1 us)
  show ?case
  proof (cases us)
    case (Cons v vs)
    have "in_loop 1 (utf8_to_utf16_32_body Maxcode) (drop n vs) r =
        apsnd (apsnd (map ucast)) (in_loop 1 (utf8_to_utf16_16_body Maxcode) (drop n vs) r)" for n r
      using 1 [rule_format, of "drop n vs" r] Cons by simp
    with utf8_to_utf16_32_body_eq [of us Maxcode room] show ?thesis unfolding Cons
      by (auto simp: put_out_def split: sum.split prod.split)
  qed simp
qed

end
