(* ===== verification/Utf16_Bytes.thy ===== *)
theory Utf16_Bytes
  imports Utf8_Utf16
begin

text \<open>
  UTF-16 as a byte stream, in both byte orders: the six routines of \<^verbatim>\<open>locale.cpp\<close> between 32-bit code
  points and \<^verbatim>\<open>utf16be\<close>/\<^verbatim>\<open>utf16le\<close>, the six between 16-bit units and them, and their \<^verbatim>\<open>_length\<close>
  twins. The two orders differ in which byte of a unit comes first; \<open>byte_order\<close> says what the proofs
  need of that, \<open>utf16_bytes_reader\<close> what the reading bodies promise.
\<close>

unbundle bit_operations_syntax

definition utf16be_bom :: "u8 list" where "utf16be_bom = [0xFE, 0xFF]"

definition utf16le_bom :: "u8 list" where "utf16le_bom = [0xFF, 0xFE]"

subsection \<open>utf16be and 32-bit code points\<close>

definition ucs4_to_utf16be_body :: "u64 \<Rightarrow> (u32, u8) body" where
  "ucs4_to_utf16be_body Maxcode frm room =
     (let wc = hd frm in
      if wc AND 0xFFFFF800 = 0x00D800 \<or> above wc Maxcode then Inl error
      else if wc < 0x010000 then
        if room < 2 then Inl partial
        else Inr (1, [uint8_t (drop_bit 8 wc), uint8_t wc])
      else
        if room < 4 then Inl partial
        else let t = uint16_t (0xD800
                       OR push_bit 6 (drop_bit 16 (wc AND 0x1F0000) - 1)
                       OR drop_bit 10 (wc AND 0x00FC00));
                 t' = uint16_t (0xDC00 OR (wc AND 0x03FF)) in
          Inr (1, [uint8_t (drop_bit 8 (int32 t)), uint8_t (int32 t),
                   uint8_t (drop_bit 8 (int32 t')), uint8_t (int32 t')]))"

definition ucs4_to_utf16be :: "u64 \<Rightarrow> u32 \<Rightarrow> u32 list \<Rightarrow> nat \<Rightarrow> (u32, u8) conv" where
  "ucs4_to_utf16be Maxcode mode frm room =
     with_header utf16be_bom mode room frm (out_loop (ucs4_to_utf16be_body Maxcode) frm)"

definition utf16be_to_ucs4_body :: "u64 \<Rightarrow> (u8, u32) body" where
  "utf16be_to_ucs4_body Maxcode frm room =
     unit_at frm 0 (\<lambda>b0. unit_at frm 1 (\<lambda>b1.
     (let c1 = uint16_t (push_bit 8 (int32 b0) OR int32 b1) in
      if int32 c1 AND 0xFC00 = 0xDC00 then Inl error
      else if int32 c1 AND 0xFC00 \<noteq> 0xD800 then
        if above c1 Maxcode then Inl error
        else Inr (2, [int32 c1])
      else
        if length frm < 4 then Inl partial
        else unit_at frm 2 (\<lambda>b2. unit_at frm 3 (\<lambda>b3.
          let c2 = uint16_t (push_bit 8 (int32 b2) OR int32 b3) in
          if int32 c2 AND 0xFC00 \<noteq> 0xDC00 then Inl error
          else let t = push_bit 16 (drop_bit 6 (int32 c1 AND 0x03C0) + 1)
                         OR push_bit 10 (int32 c1 AND 0x003F)
                         OR (int32 c2 AND 0x03FF) in
            if above t Maxcode then Inl error
            else Inr (4, [t]))))))"

lemmas utf16be_to_ucs4_body_plain = utf16be_to_ucs4_body_def [unfolded unit_reads]

definition utf16be_to_ucs4 :: "u64 \<Rightarrow> u32 \<Rightarrow> u8 list \<Rightarrow> nat \<Rightarrow> (u8, u32) conv" where
  "utf16be_to_ucs4 Maxcode mode frm room =
     in_loop 2 (utf16be_to_ucs4_body Maxcode) (skip_header utf16be_bom mode frm) room"

definition utf16be_to_ucs4_length_body :: "u64 \<Rightarrow> u8 list \<Rightarrow> nat \<Rightarrow> (nat \<times> nat) option" where
  "utf16be_to_ucs4_length_body Maxcode frm mx =
     (let c1 = uint16_t (push_bit 8 (int32 (frm ! 0)) OR int32 (frm ! 1)) in
      if int32 c1 AND 0xFC00 = 0xDC00 then None
      else if int32 c1 AND 0xFC00 \<noteq> 0xD800 then
        if above c1 Maxcode then None else Some (2, 1)
      else
        if length frm < 4 then None
        else let c2 = uint16_t (push_bit 8 (int32 (frm ! 2)) OR int32 (frm ! 3)) in
          if int32 c2 AND 0xFC00 \<noteq> 0xDC00 then None
          else let t = push_bit 16 (drop_bit 6 (int32 c1 AND 0x03C0) + 1)
                         OR push_bit 10 (int32 c1 AND 0x003F)
                         OR (int32 c2 AND 0x03FF) in
            if above t Maxcode then None else Some (4, 1))"

definition utf16be_to_ucs4_length :: "u64 \<Rightarrow> u32 \<Rightarrow> u8 list \<Rightarrow> nat \<Rightarrow> int" where
  "utf16be_to_ucs4_length Maxcode mode frm mx =
     (let nxt = skip_header utf16be_bom mode frm in
      static_cast_int ((length frm - length nxt)
        + length_loop 2 (utf16be_to_ucs4_length_body Maxcode) nxt mx))"

subsection \<open>utf16be and 16-bit units\<close>

definition ucs2_to_utf16be_body :: "u64 \<Rightarrow> (u16, u8) body" where
  "ucs2_to_utf16be_body Maxcode frm room =
     (let wc = hd frm in
      if int32 wc AND 0xF800 = 0xD800 \<or> above wc Maxcode then Inl error
      else if room < 2 then Inl partial
      else Inr (1, [uint8_t (drop_bit 8 (int32 wc)), uint8_t (int32 wc)]))"

definition ucs2_to_utf16be :: "u64 \<Rightarrow> u32 \<Rightarrow> u16 list \<Rightarrow> nat \<Rightarrow> (u16, u8) conv" where
  "ucs2_to_utf16be Maxcode mode frm room =
     with_header utf16be_bom mode room frm (out_loop (ucs2_to_utf16be_body Maxcode) frm)"

definition utf16be_to_ucs2_body :: "u64 \<Rightarrow> (u8, u16) body" where
  "utf16be_to_ucs2_body Maxcode frm room =
     unit_at frm 0 (\<lambda>b0. unit_at frm 1 (\<lambda>b1.
     (let c1 = uint16_t (push_bit 8 (int32 b0) OR int32 b1) in
      if int32 c1 AND 0xF800 = 0xD800 \<or> above c1 Maxcode then Inl error
      else Inr (2, [c1]))))"

lemmas utf16be_to_ucs2_body_plain = utf16be_to_ucs2_body_def [unfolded unit_reads]

definition utf16be_to_ucs2 :: "u64 \<Rightarrow> u32 \<Rightarrow> u8 list \<Rightarrow> nat \<Rightarrow> (u8, u16) conv" where
  "utf16be_to_ucs2 Maxcode mode frm room =
     in_loop 2 (utf16be_to_ucs2_body Maxcode) (skip_header utf16be_bom mode frm) room"

definition utf16be_to_ucs2_length_body :: "u64 \<Rightarrow> u8 list \<Rightarrow> nat \<Rightarrow> (nat \<times> nat) option" where
  "utf16be_to_ucs2_length_body Maxcode frm mx =
     (let c1 = uint16_t (push_bit 8 (int32 (frm ! 0)) OR int32 (frm ! 1)) in
      if int32 c1 AND 0xF800 = 0xD800 \<or> above c1 Maxcode then None
      else Some (2, 1))"

definition utf16be_to_ucs2_length :: "u64 \<Rightarrow> u32 \<Rightarrow> u8 list \<Rightarrow> nat \<Rightarrow> int" where
  "utf16be_to_ucs2_length Maxcode mode frm mx =
     (let nxt = skip_header utf16be_bom mode frm in
      static_cast_int ((length frm - length nxt)
        + length_loop 2 (utf16be_to_ucs2_length_body Maxcode) nxt mx))"

subsection \<open>utf16le and 32-bit code points\<close>

definition ucs4_to_utf16le_body :: "u64 \<Rightarrow> (u32, u8) body" where
  "ucs4_to_utf16le_body Maxcode frm room =
     (let wc = hd frm in
      if wc AND 0xFFFFF800 = 0x00D800 \<or> above wc Maxcode then Inl error
      else if wc < 0x010000 then
        if room < 2 then Inl partial
        else Inr (1, [uint8_t wc, uint8_t (drop_bit 8 wc)])
      else
        if room < 4 then Inl partial
        else let t = uint16_t (0xD800
                       OR push_bit 6 (drop_bit 16 (wc AND 0x1F0000) - 1)
                       OR drop_bit 10 (wc AND 0x00FC00));
                 t' = uint16_t (0xDC00 OR (wc AND 0x03FF)) in
          Inr (1, [uint8_t (int32 t), uint8_t (drop_bit 8 (int32 t)),
                   uint8_t (int32 t'), uint8_t (drop_bit 8 (int32 t'))]))"

definition ucs4_to_utf16le :: "u64 \<Rightarrow> u32 \<Rightarrow> u32 list \<Rightarrow> nat \<Rightarrow> (u32, u8) conv" where
  "ucs4_to_utf16le Maxcode mode frm room =
     with_header utf16le_bom mode room frm (out_loop (ucs4_to_utf16le_body Maxcode) frm)"

definition utf16le_to_ucs4_body :: "u64 \<Rightarrow> (u8, u32) body" where
  "utf16le_to_ucs4_body Maxcode frm room =
     unit_at frm 0 (\<lambda>b0. unit_at frm 1 (\<lambda>b1.
     (let c1 = uint16_t (push_bit 8 (int32 b1) OR int32 b0) in
      if int32 c1 AND 0xFC00 = 0xDC00 then Inl error
      else if int32 c1 AND 0xFC00 \<noteq> 0xD800 then
        if above c1 Maxcode then Inl error
        else Inr (2, [int32 c1])
      else
        if length frm < 4 then Inl partial
        else unit_at frm 2 (\<lambda>b2. unit_at frm 3 (\<lambda>b3.
          let c2 = uint16_t (push_bit 8 (int32 b3) OR int32 b2) in
          if int32 c2 AND 0xFC00 \<noteq> 0xDC00 then Inl error
          else let t = push_bit 16 (drop_bit 6 (int32 c1 AND 0x03C0) + 1)
                         OR push_bit 10 (int32 c1 AND 0x003F)
                         OR (int32 c2 AND 0x03FF) in
            if above t Maxcode then Inl error
            else Inr (4, [t]))))))"

lemmas utf16le_to_ucs4_body_plain = utf16le_to_ucs4_body_def [unfolded unit_reads]

definition utf16le_to_ucs4 :: "u64 \<Rightarrow> u32 \<Rightarrow> u8 list \<Rightarrow> nat \<Rightarrow> (u8, u32) conv" where
  "utf16le_to_ucs4 Maxcode mode frm room =
     in_loop 2 (utf16le_to_ucs4_body Maxcode) (skip_header utf16le_bom mode frm) room"

definition utf16le_to_ucs4_length_body :: "u64 \<Rightarrow> u8 list \<Rightarrow> nat \<Rightarrow> (nat \<times> nat) option" where
  "utf16le_to_ucs4_length_body Maxcode frm mx =
     (let c1 = uint16_t (push_bit 8 (int32 (frm ! 1)) OR int32 (frm ! 0)) in
      if int32 c1 AND 0xFC00 = 0xDC00 then None
      else if int32 c1 AND 0xFC00 \<noteq> 0xD800 then
        if above c1 Maxcode then None else Some (2, 1)
      else
        if length frm < 4 then None
        else let c2 = uint16_t (push_bit 8 (int32 (frm ! 3)) OR int32 (frm ! 2)) in
          if int32 c2 AND 0xFC00 \<noteq> 0xDC00 then None
          else let t = push_bit 16 (drop_bit 6 (int32 c1 AND 0x03C0) + 1)
                         OR push_bit 10 (int32 c1 AND 0x003F)
                         OR (int32 c2 AND 0x03FF) in
            if above t Maxcode then None else Some (4, 1))"

definition utf16le_to_ucs4_length :: "u64 \<Rightarrow> u32 \<Rightarrow> u8 list \<Rightarrow> nat \<Rightarrow> int" where
  "utf16le_to_ucs4_length Maxcode mode frm mx =
     (let nxt = skip_header utf16le_bom mode frm in
      static_cast_int ((length frm - length nxt)
        + length_loop 2 (utf16le_to_ucs4_length_body Maxcode) nxt mx))"

subsection \<open>utf16le and 16-bit units\<close>

definition ucs2_to_utf16le_body :: "u64 \<Rightarrow> (u16, u8) body" where
  "ucs2_to_utf16le_body Maxcode frm room =
     (let wc = hd frm in
      if int32 wc AND 0xF800 = 0xD800 \<or> above wc Maxcode then Inl error
      else if room < 2 then Inl partial
      else Inr (1, [uint8_t (int32 wc), uint8_t (drop_bit 8 (int32 wc))]))"

definition ucs2_to_utf16le :: "u64 \<Rightarrow> u32 \<Rightarrow> u16 list \<Rightarrow> nat \<Rightarrow> (u16, u8) conv" where
  "ucs2_to_utf16le Maxcode mode frm room =
     with_header utf16le_bom mode room frm (out_loop (ucs2_to_utf16le_body Maxcode) frm)"

definition utf16le_to_ucs2_body :: "u64 \<Rightarrow> (u8, u16) body" where
  "utf16le_to_ucs2_body Maxcode frm room =
     unit_at frm 0 (\<lambda>b0. unit_at frm 1 (\<lambda>b1.
     (let c1 = uint16_t (push_bit 8 (int32 b1) OR int32 b0) in
      if int32 c1 AND 0xF800 = 0xD800 \<or> above c1 Maxcode then Inl error
      else Inr (2, [c1]))))"

lemmas utf16le_to_ucs2_body_plain = utf16le_to_ucs2_body_def [unfolded unit_reads]

definition utf16le_to_ucs2 :: "u64 \<Rightarrow> u32 \<Rightarrow> u8 list \<Rightarrow> nat \<Rightarrow> (u8, u16) conv" where
  "utf16le_to_ucs2 Maxcode mode frm room =
     in_loop 2 (utf16le_to_ucs2_body Maxcode) (skip_header utf16le_bom mode frm) room"

definition utf16le_to_ucs2_length_body :: "u64 \<Rightarrow> u8 list \<Rightarrow> nat \<Rightarrow> (nat \<times> nat) option" where
  "utf16le_to_ucs2_length_body Maxcode frm mx =
     (let c1 = uint16_t (push_bit 8 (int32 (frm ! 1)) OR int32 (frm ! 0)) in
      if int32 c1 AND 0xF800 = 0xD800 \<or> above c1 Maxcode then None
      else Some (2, 1))"

definition utf16le_to_ucs2_length :: "u64 \<Rightarrow> u32 \<Rightarrow> u8 list \<Rightarrow> nat \<Rightarrow> int" where
  "utf16le_to_ucs2_length Maxcode mode frm mx =
     (let nxt = skip_header utf16le_bom mode frm in
      static_cast_int ((length frm - length nxt)
        + length_loop 2 (utf16le_to_ucs2_length_body Maxcode) nxt mx))"

subsection \<open>Byte orders\<close>

locale byte_order =
  fixes bytes :: "u16 \<Rightarrow> u8 list" and join :: "u8 \<Rightarrow> u8 \<Rightarrow> u16"
  assumes split: "\<exists>a b. bytes w = [a, b] \<and> join a b = w"
    and joined: "bytes (join a b) = [a, b]"

locale utf16_bytes_reader = byte_order +
  fixes body :: "(u8, 'a::len word) body" and cp :: "nat \<Rightarrow> bool"
  assumes cp_scalar: "cp c \<Longrightarrow> scalar c"
    and plain_law: "\<not> high (unat (join a b)) \<Longrightarrow> \<not> low (unat (join a b)) \<Longrightarrow> body (a # b # us) room =
        (if cp (unat (join a b)) then Inr (2, [of_nat (unat (join a b))]) else Inl error)"
    and lone: "low (unat (join a b)) \<Longrightarrow> body (a # b # us) room = Inl error"
    and paired: "high (unat (join a b)) \<Longrightarrow> body (a # b # a' # b' # us) room =
        (if low (unat (join a' b')) \<and> cp (pair_value (unat (join a b)) (unat (join a' b')))
         then Inr (4, [of_nat (pair_value (unat (join a b)) (unat (join a' b')))]) else Inl error)"
    and cut_law: "high (unat (join a b)) \<Longrightarrow> length us < 2 \<Longrightarrow> body (a # b # us) room = Inl partial \<or>
        body (a # b # us) room = Inl error \<and> (\<forall>c. cp c \<longrightarrow> c < 0x10000)"
begin

text \<open>What the first bytes are, and what the body does there.\<close>

lemma body_cases:
  assumes "2 \<le> length us"
  obtains (plain) a b vs where "us = a # b # vs" "\<not> high (unat (join a b))" "\<not> low (unat (join a b))"
  | (low) a b vs where "us = a # b # vs" "low (unat (join a b))"
  | (cut) a b vs where "us = a # b # vs" "high (unat (join a b))" "length vs < 2"
  | (pair) a b a' b' vs where "us = a # b # a' # b' # vs" "high (unat (join a b))"
proof -
  obtain a b vs where us: "us = a # b # vs" using assms by (cases us; cases "tl us") auto
  show thesis
  proof (cases "high (unat (join a b)) \<and> 2 \<le> length vs")
    case True
    then obtain a' b' ws where "vs = a' # b' # ws" by (cases vs; cases "tl vs") auto
    with us True pair show thesis by blast
  next
    case False
    with us plain low cut show thesis by (metis not_le)
  qed
qed

lemma bytes_plain: "\<not> high (unat w) \<Longrightarrow> \<not> low (unat w) \<Longrightarrow> utf16_bytes bytes (unat w) = bytes w"
  by (simp add: utf16_bytes_def utf16_unit)

lemma bytes_pair:
  assumes "high (unat w)" "low (unat v)"
  shows "utf16_bytes bytes (pair_value (unat w) (unat v)) = bytes w @ bytes v"
proof -
  have "(utf16 (pair_value (unat w) (unat v)) :: u16 list) = [w, v]"
    using pair_value_range [OF assms] by (simp add: utf16_def del: of_nat_add)
  then show ?thesis by (simp add: utf16_bytes_def)
qed

lemma bytes_shape:
  assumes "scalar c"
  obtains (one) a b where "utf16_bytes bytes c = [a, b]" "unat (join a b) = c" "\<not> high c" "\<not> low c"
  | (two) a b a' b' where "utf16_bytes bytes c = [a, b, a', b']" "high (unat (join a b))" "low (unat (join a' b'))"
      "pair_value (unat (join a b)) (unat (join a' b')) = c" "0x10000 \<le> c"
  using assms
proof (cases c rule: utf16_shape)
  case (one w)
  obtain a b where "bytes w = [a, b]" "join a b = w" using split by blast
  with one that(1) show thesis by (simp add: utf16_bytes_def)
next
  case (two w v)
  obtain a b where "bytes w = [a, b]" "join a b = w" using split by blast
  moreover obtain a' b' where "bytes v = [a', b']" "join a' b' = v" using split by blast
  ultimately show thesis using two that(2) by (simp add: utf16_bytes_def)
qed

end


sublocale utf16_bytes_reader \<subseteq> transcoder "guarded 2 body" cp "utf16_bytes bytes" utf32
proof
  fix us room n out
  assume "guarded 2 body us room = Inr (n, out)"
  then have g: "2 \<le> length us" "0 < room" "body us room = Inr (n, out)" by (auto simp: guarded_def split: if_splits)
  from g(1) show "\<exists>c rest. cp c \<and> us = utf16_bytes bytes c @ rest \<and> n = length (utf16_bytes bytes c) \<and>
      out = utf32 c \<and> length (utf32 c :: 'a word list) \<le> room"
  proof (cases rule: body_cases)
    case (plain a b vs)
    then show ?thesis using g(2,3) bytes_plain [OF plain(2,3)] plain_law [of a b vs room]
      by (intro exI [of _ "unat (join a b)"]) (auto simp: joined utf32_def split: if_splits)
  next
    case (low a b vs)
    then show ?thesis using g(3) lone by simp
  next
    case (cut a b vs)
    then show ?thesis using g(3) cut_law [of a b vs room] by auto
  next
    case (pair a b a' b' vs)
    then show ?thesis using g(2,3) paired [OF pair(2), of a' b' vs room] bytes_pair [of "join a b" "join a' b'"]
      by (intro exI [of _ "pair_value (unat (join a b)) (unat (join a' b'))"])
        (auto simp: joined utf32_def split: if_splits)
  qed
next
  fix c room and rest :: "u8 list"
  assume c: "cp c" "length (utf32 c :: 'a word list) \<le> room"
  from cp_scalar [OF c(1)] show "guarded 2 body (utf16_bytes bytes c @ rest) room = Inr (length (utf16_bytes bytes c), utf32 c)"
    by (cases c rule: bytes_shape) (use c in \<open>auto simp: guarded_def utf32_def plain_law paired\<close>)
next
  fix us room c more rest
  assume "guarded 2 body us room = Inl error" and c: "cp c"
  then have g: "2 \<le> length us" "body us room = Inl error" by (auto simp: guarded_def split: if_splits)
  show "us @ more \<noteq> utf16_bytes bytes c @ rest"
  proof
    assume eq: "us @ more = utf16_bytes bytes c @ rest"
    from cp_scalar [OF c] show False
    proof (cases c rule: bytes_shape)
      case (one a b)
      then obtain vs where "us = a # b # vs" using eq g(1) by (cases us; cases "tl us") auto
      then show ?thesis using one c g(2) plain_law [of a b vs room] by auto
    next
      case (two a b a' b')
      then obtain vs where us: "us = a # b # vs" "vs @ more = a' # b' # rest" using eq g(1) by (cases us; cases "tl us") auto
      show ?thesis
      proof (cases "length vs < 2")
        case True
        then show ?thesis using cut_law [OF two(2) True, of room] us(1) g(2) two(5) c by force
      next
        case False
        then obtain ws where "vs = a' # b' # ws" using us(2) by (cases vs; cases "tl vs") auto
        then show ?thesis using paired [OF two(2), of a' b' ws room] us(1) g(2) two c by auto
      qed
    qed
  qed
next
  fix us room r
  assume "guarded 2 body us room = Inl r"
  then consider "r = partial" | "2 \<le> length us" "body us room = Inl r" by (auto simp: guarded_def split: if_splits)
  then show "r = partial \<or> r = error"
  proof cases
    case 2
    from 2(1) show ?thesis
      by (cases rule: body_cases) (use 2(2) in \<open>auto simp: plain_law lone paired dest: cut_law [where room = room] split: if_splits\<close>)
  qed simp
next
  show "utf16_bytes bytes c \<noteq> []" if "cp c" for c
    using cp_scalar [OF that] by (cases c rule: bytes_shape) auto
qed

subsection \<open>The two orders\<close>

definition be_join :: "u8 \<Rightarrow> u8 \<Rightarrow> u16" where
  "be_join a b = uint16_t (push_bit 8 (int32 a) OR int32 b)"

definition le_join :: "u8 \<Rightarrow> u8 \<Rightarrow> u16" where
  "le_join a b = uint16_t (push_bit 8 (int32 b) OR int32 a)"

lemma join_bytes: "be_join (ucast (drop_bit 8 w)) (ucast w) = w"
  by (rule bit_word_eqI) (auto simp: be_join_def bit_simps)

lemma bytes_join: "ucast (drop_bit 8 (be_join a b)) = a" "ucast (be_join a b) = b"
  by (rule bit_word_eqI; auto simp: be_join_def bit_simps dest: bit_imp_le_length)+

interpretation be: byte_order be16 be_join
  by unfold_locales (simp_all add: be16_def join_bytes bytes_join)

interpretation le: byte_order le16 le_join
  using join_bytes bytes_join
  by unfold_locales (simp_all add: le16_def le_join_def be_join_def)

subsection \<open>The readers\<close>

lemma assemble_pair:
  "unat (push_bit 16 (drop_bit 6 (int32 c1 AND 0x03C0) + 1) OR push_bit 10 (int32 c1 AND 0x003F) OR (int32 c2 AND 0x03FF)) =
    pair_value (unat (c1 :: u16)) (unat (c2 :: u16))"
proof -
  have d: "unat c1 div 64 mod 16 < 16" "unat c1 mod 64 < 64" "unat c2 mod 1024 < 1024" by simp_all
  then have "unat c1 mod 64 * 1024 + unat c2 mod 1024 < 65536" by linarith
  then show ?thesis
    using d or_eq_plus_nat [of 16 "65536 + unat c1 div 64 mod 16 * 65536"]
    by (simp add: unat_word_ariths unat_bits and_nat or_fields pair_value_def)
qed

lemma pair_of_nat: "of_nat (pair_value (unat (c1 :: u16)) (unat (c2 :: u16))) =
    push_bit 16 (drop_bit 6 (int32 c1 AND 0x03C0) + 1) OR push_bit 10 (int32 c1 AND 0x003F) OR (int32 c2 AND 0x03FF)"
  by (simp flip: assemble_pair)

lemma high_iff: "int32 (v :: u16) AND 0xFC00 = 0xD800 \<longleftrightarrow> high (unat v)"
  by (simp add: high_surrogate high_def)

lemma surrogate_iff: "int32 (v :: u16) AND 0xF800 = 0xD800 \<longleftrightarrow> high (unat v) \<or> low (unat v)"
  by (auto simp: surrogate_u16 high_def low_def)

lemma unit_cp: "\<not> high (unat w) \<Longrightarrow> \<not> low (unat w) \<Longrightarrow> cp_upto M (unat w) \<longleftrightarrow> unat w \<le> unat M"
  "\<not> high (unat w) \<Longrightarrow> \<not> low (unat w) \<Longrightarrow> bmp_upto M (unat w) \<longleftrightarrow> unat w \<le> unat M" for w :: u16
  using unat_lt(2) [of w] by (auto simp: bmp_upto_def cp_upto_def scalar_def high_def low_def)

lemma pair_cp: "high w \<Longrightarrow> low v \<Longrightarrow> cp_upto M (pair_value w v) \<longleftrightarrow> pair_value w v \<le> unat M"
  "high w \<Longrightarrow> low v \<Longrightarrow> \<not> bmp_upto M (pair_value w v)"
  using pair_value_range [of w v] by (auto simp: bmp_upto_def cp_upto_def scalar_def)

lemma bmp_upto_props: "bmp_upto M c \<Longrightarrow> scalar c" "bmp_upto M c \<Longrightarrow> c < 0x10000"
  by (simp_all add: bmp_upto_def cp_upto_def)

lemma high_not_low: "high w \<Longrightarrow> \<not> low w"
  by (simp add: high_def low_def)

lemmas reader_simps = Let_def low_iff high_iff surrogate_iff above_iff unit_cp pair_cp assemble_pair
  high_not_low pair_of_nat not_less

interpretation be4: utf16_bytes_reader be16 be_join "utf16be_to_ucs4_body Maxcode" "cp_upto Maxcode"
  for Maxcode
  by unfold_locales
    (auto simp: utf16be_to_ucs4_body_plain reader_simps cp_upto_scalar be_join_def [symmetric])

interpretation be2: utf16_bytes_reader be16 be_join "utf16be_to_ucs2_body Maxcode" "bmp_upto Maxcode"
  for Maxcode
  by unfold_locales
    (auto simp: utf16be_to_ucs2_body_plain reader_simps bmp_upto_props be_join_def [symmetric])

interpretation le4: utf16_bytes_reader le16 le_join "utf16le_to_ucs4_body Maxcode" "cp_upto Maxcode"
  for Maxcode
  by unfold_locales
    (auto simp: utf16le_to_ucs4_body_plain reader_simps cp_upto_scalar le_join_def [symmetric])

interpretation le2: utf16_bytes_reader le16 le_join "utf16le_to_ucs2_body Maxcode" "bmp_upto Maxcode"
  for Maxcode
  by unfold_locales
    (auto simp: utf16le_to_ucs2_body_plain reader_simps bmp_upto_props le_join_def [symmetric])

subsection \<open>The writers\<close>

lemma split8:
  "uint8_t (drop_bit 8 x) = ucast (drop_bit 8 (uint16_t x))" "uint8_t x = ucast (uint16_t x)"
  "uint8_t (drop_bit 8 (int32 (w :: u16))) = ucast (drop_bit 8 w)"
  by (rule bit_word_eqI; auto simp: bit_simps)+

lemma uint16_of_unat: "unat x = n \<Longrightarrow> uint16_t x = of_nat n"
  by auto

lemma writer_units:
  fixes wc :: u32
  assumes "0x10000 \<le> unat wc" "unat wc \<le> 0x10FFFF"
  shows "[uint16_t (0xD800 OR push_bit 6 (drop_bit 16 (wc AND 0x1F0000) - 1) OR drop_bit 10 (wc AND 0x00FC00)),
     uint16_t (0xDC00 OR (wc AND 0x03FF))] = utf16 (unat wc)"
proof -
  define c x y z where "c = unat wc" and "x = c div 65536" and "y = c div 1024 mod 64" and "z = c mod 1024"
  have b: "y < 64" "z < 1024" by (simp_all add: y_def z_def)
  have "c div 1024 div 64 = x" by (simp add: x_def flip: div_mult2_eq)
  then have "c = x * 65536 + y * 1024 + z"
    using div_mult_mod_eq [of c 1024] div_mult_mod_eq [of "c div 1024" 64] unfolding y_def z_def by linarith
  moreover from this have x: "1 \<le> x" "x \<le> 16" using assms b unfolding c_def [symmetric] by linarith+
  ultimately have "c - 0x10000 = ((x - 1) * 64 + y) * 1024 + z" by (cases x) simp_all
  then have c: "(c - 0x10000) div 1024 = (x - 1) * 64 + y" "(c - 0x10000) mod 1024 = z"
    using b(2) by (simp_all only: block1024)
  let ?x = "drop_bit 16 (wc AND 0x1F0000)"
  have ux: "unat ?x = x" using x by (simp add: unat_bits and_nat x_def c_def)
  then have "unat (?x - 1) = x - 1" using x(1) by (subst unat_minus_one) auto
  then have p: "unat (push_bit 6 (?x - 1)) = (x - 1) * 64" using x(2) by (simp add: unat_push_bit)
  have "unat (drop_bit 10 (wc AND 0x00FC00)) = y" by (simp add: unat_bits and_nat y_def c_def)
  moreover have "(x - 1) * 64 + y < 1024" using x b by linarith
  ultimately have "unat (0xD800 OR push_bit 6 (?x - 1) OR drop_bit 10 (wc AND 0x00FC00)) = 0xD800 + (c - 0x10000) div 1024"
    unfolding unsigned_or_eq p c(1) using b(1) by (simp add: or_fields or_const)
  moreover have "unat (0xDC00 OR (wc AND 0x03FF)) = 0xDC00 + (c - 0x10000) mod 1024"
    unfolding c(2) using b(2) by (simp add: unat_bits and_nat z_def c_def or_const)
  ultimately show ?thesis
    using assms(1) unfolding c_def by (simp add: utf16_def uint16_of_unat del: of_nat_add)
qed

lemma ucs4_to_utf16be_body_eq:
  assumes "unat Maxcode \<le> 0x10FFFF"
  shows "ucs4_to_utf16be_body Maxcode (wc # ws) room =
    (if \<not> cp_upto Maxcode (unat wc) then Inl error
     else if room < length (utf16_bytes be16 (unat wc)) then Inl partial
     else Inr (1, utf16_bytes be16 (unat wc)))"
proof (cases "unat wc < 0x10000")
  case True
  then have "utf16_bytes be16 (unat wc) = be16 (uint16_t wc)" by (simp add: utf16_bytes_def utf16_def)
  with True show ?thesis
    by (auto simp: ucs4_to_utf16be_body_def surrogate_u32 above_iff cp_upto_def scalar_def u32_less_iff be16_def split8(1)
        split8(2) [of wc])
next
  case False
  show ?thesis
  proof (cases "unat wc \<le> 0x10FFFF")
    case True
    with False writer_units [of wc] have "(utf16 (unat wc) :: u16 list) =
      [uint16_t (0xD800 OR push_bit 6 (drop_bit 16 (wc AND 0x1F0000) - 1) OR drop_bit 10 (wc AND 0x00FC00)),
       uint16_t (0xDC00 OR (wc AND 0x03FF))]" by simp
    with False True show ?thesis
      by (auto simp: ucs4_to_utf16be_body_def surrogate_u32 above_iff cp_upto_def scalar_def u32_less_iff be16_def
          utf16_bytes_def split8(3) narrow_widened Let_def)
  next
    case 2: False
    then have "above wc Maxcode" using assms by (simp add: above_iff)
    with 2 show ?thesis by (simp add: ucs4_to_utf16be_body_def cp_upto_def scalar_def)
  qed
qed

interpretation be4_writer: unit_writer "ucs4_to_utf16be_body (min Maxcode 0x10FFFF)" "cp_upto (min Maxcode 0x10FFFF)"
  "utf16_bytes be16"
  for Maxcode
proof
  fix c
  show "c < 2 ^ LENGTH(32)" if "cp_upto (min Maxcode 0x10FFFF) c"
    using that by (auto simp: cp_upto_def scalar_def)
qed (rule ucs4_to_utf16be_body_eq [OF unat_min])

interpretation be2_writer: unit_writer "ucs2_to_utf16be_body Maxcode" "bmp_upto Maxcode" "utf16_bytes be16"
  for Maxcode
proof
  fix wc ws room
  have "utf16_bytes be16 (unat wc) = be16 wc" by (simp add: utf16_bytes_def utf16_unit)
  moreover have "bmp_upto Maxcode (unat wc) \<longleftrightarrow> \<not> (0xD800 \<le> unat wc \<and> unat wc < 0xE000) \<and> unat wc \<le> unat Maxcode"
    using unat_lt(2) [of wc] by (auto simp: bmp_upto_def cp_upto_def scalar_def)
  ultimately show "ucs2_to_utf16be_body Maxcode (wc # ws) room =
    (if \<not> bmp_upto Maxcode (unat wc) then Inl error
     else if room < length (utf16_bytes be16 (unat wc)) then Inl partial
     else Inr (1, utf16_bytes be16 (unat wc)))"
    by (auto simp: ucs2_to_utf16be_body_def surrogate_u16 above_iff be16_def split8(3) narrow_widened)
qed (simp add: bmp_upto_def)

interpretation be4_pair: transcoder_pair "ucs4_to_utf16be_body (min Maxcode 0x10FFFF)"
  "guarded 2 (utf16be_to_ucs4_body (min Maxcode 0x10FFFF))" "cp_upto (min Maxcode 0x10FFFF)" utf32 "utf16_bytes be16"
  for Maxcode
  by unfold_locales

interpretation be2_pair: transcoder_pair "ucs2_to_utf16be_body Maxcode"
  "guarded 2 (utf16be_to_ucs2_body Maxcode)" "bmp_upto Maxcode" utf32 "utf16_bytes be16"
  for Maxcode
  by unfold_locales

interpretation be4_length: length_body 2 "utf16be_to_ucs4_body Maxcode" "utf16be_to_ucs4_length_body Maxcode"
  for Maxcode
  by unfold_locales
    (auto simp: utf16be_to_ucs4_length_body_def utf16be_to_ucs4_body_plain unit_at_in Let_def split: if_splits)

interpretation be2_length: length_body 2 "utf16be_to_ucs2_body Maxcode" "utf16be_to_ucs2_length_body Maxcode"
  for Maxcode
  by unfold_locales
    (auto simp: utf16be_to_ucs2_length_body_def utf16be_to_ucs2_body_plain unit_at_in Let_def split: if_splits)

lemma ucs4_to_utf16le_body_eq:
  assumes "unat Maxcode \<le> 0x10FFFF"
  shows "ucs4_to_utf16le_body Maxcode (wc # ws) room =
    (if \<not> cp_upto Maxcode (unat wc) then Inl error
     else if room < length (utf16_bytes le16 (unat wc)) then Inl partial
     else Inr (1, utf16_bytes le16 (unat wc)))"
proof (cases "unat wc < 0x10000")
  case True
  then have "utf16_bytes le16 (unat wc) = le16 (uint16_t wc)" by (simp add: utf16_bytes_def utf16_def)
  with True show ?thesis
    by (auto simp: ucs4_to_utf16le_body_def surrogate_u32 above_iff cp_upto_def scalar_def u32_less_iff le16_def split8(1)
        split8(2) [of wc])
next
  case False
  show ?thesis
  proof (cases "unat wc \<le> 0x10FFFF")
    case True
    with False writer_units [of wc] have "(utf16 (unat wc) :: u16 list) =
      [uint16_t (0xD800 OR push_bit 6 (drop_bit 16 (wc AND 0x1F0000) - 1) OR drop_bit 10 (wc AND 0x00FC00)),
       uint16_t (0xDC00 OR (wc AND 0x03FF))]" by simp
    with False True show ?thesis
      by (auto simp: ucs4_to_utf16le_body_def surrogate_u32 above_iff cp_upto_def scalar_def u32_less_iff le16_def
          utf16_bytes_def split8(3) narrow_widened Let_def)
  next
    case 2: False
    then have "above wc Maxcode" using assms by (simp add: above_iff)
    with 2 show ?thesis by (simp add: ucs4_to_utf16le_body_def cp_upto_def scalar_def)
  qed
qed

interpretation le4_writer: unit_writer "ucs4_to_utf16le_body (min Maxcode 0x10FFFF)" "cp_upto (min Maxcode 0x10FFFF)"
  "utf16_bytes le16"
  for Maxcode
proof
  fix c
  show "c < 2 ^ LENGTH(32)" if "cp_upto (min Maxcode 0x10FFFF) c"
    using that by (auto simp: cp_upto_def scalar_def)
qed (rule ucs4_to_utf16le_body_eq [OF unat_min])

interpretation le2_writer: unit_writer "ucs2_to_utf16le_body Maxcode" "bmp_upto Maxcode" "utf16_bytes le16"
  for Maxcode
proof
  fix wc ws room
  have "utf16_bytes le16 (unat wc) = le16 wc" by (simp add: utf16_bytes_def utf16_unit)
  moreover have "bmp_upto Maxcode (unat wc) \<longleftrightarrow> \<not> (0xD800 \<le> unat wc \<and> unat wc < 0xE000) \<and> unat wc \<le> unat Maxcode"
    using unat_lt(2) [of wc] by (auto simp: bmp_upto_def cp_upto_def scalar_def)
  ultimately show "ucs2_to_utf16le_body Maxcode (wc # ws) room =
    (if \<not> bmp_upto Maxcode (unat wc) then Inl error
     else if room < length (utf16_bytes le16 (unat wc)) then Inl partial
     else Inr (1, utf16_bytes le16 (unat wc)))"
    by (auto simp: ucs2_to_utf16le_body_def surrogate_u16 above_iff le16_def split8(3) narrow_widened)
qed (simp add: bmp_upto_def)

interpretation le4_pair: transcoder_pair "ucs4_to_utf16le_body (min Maxcode 0x10FFFF)"
  "guarded 2 (utf16le_to_ucs4_body (min Maxcode 0x10FFFF))" "cp_upto (min Maxcode 0x10FFFF)" utf32 "utf16_bytes le16"
  for Maxcode
  by unfold_locales

interpretation le2_pair: transcoder_pair "ucs2_to_utf16le_body Maxcode"
  "guarded 2 (utf16le_to_ucs2_body Maxcode)" "bmp_upto Maxcode" utf32 "utf16_bytes le16"
  for Maxcode
  by unfold_locales

interpretation le4_length: length_body 2 "utf16le_to_ucs4_body Maxcode" "utf16le_to_ucs4_length_body Maxcode"
  for Maxcode
  by unfold_locales
    (auto simp: utf16le_to_ucs4_length_body_def utf16le_to_ucs4_body_plain unit_at_in Let_def split: if_splits)

interpretation le2_length: length_body 2 "utf16le_to_ucs2_body Maxcode" "utf16le_to_ucs2_length_body Maxcode"
  for Maxcode
  by unfold_locales
    (auto simp: utf16le_to_ucs2_length_body_def utf16le_to_ucs2_body_plain unit_at_in Let_def split: if_splits)

end
