(* ===== verification/Codecvt_Facets.thy ===== *)
theory Codecvt_Facets
  imports Utf16_Bytes
begin

text \<open>
  The \<^verbatim>\<open>codecvt\<close> classes of \<^verbatim>\<open>locale.cpp\<close>. A class is the record of its virtual functions, an object of
  it that record at the \<^verbatim>\<open>_Maxcode_\<close> and \<^verbatim>\<open>_Mode_\<close> it was built with. The pointers of the callers are
  reinterpreted as pointers to \<^verbatim>\<open>uint8_t\<close>, \<^verbatim>\<open>uint16_t\<close> or \<^verbatim>\<open>uint32_t\<close>, so the units are words here too.

  The locale \<open>codecvt_laws\<close> is what a stream buffer may rely on, whatever the class: nothing is
  written past the room or read past the end, \<^verbatim>\<open>do_length\<close> tells how many bytes \<^verbatim>\<open>do_in\<close> consumes, and
  \<^verbatim>\<open>do_max_length\<close> bounds it for one character. It is interpreted for all fourteen classes that
  convert.
\<close>

unbundle bit_operations_syntax

record 'i codecvt =
  do_out :: "'i list \<Rightarrow> nat \<Rightarrow> ('i, u8) conv"
  do_in :: "u8 list \<Rightarrow> nat \<Rightarrow> (u8, 'i) conv"
  do_unshift :: "result \<times> u8 list"
  do_encoding :: int
  do_always_noconv :: bool
  do_length :: "u8 list \<Rightarrow> nat \<Rightarrow> int"
  do_max_length :: int

text \<open>\<^verbatim>\<open>codecvt<char, char, mbstate_t>\<close>: nothing to convert.\<close>

definition codecvt_char :: "u8 codecvt" where
  "codecvt_char = \<lparr>
     do_out = (\<lambda>frm room. (noconv, frm, [])),
     do_in = (\<lambda>frm room. (noconv, frm, [])),
     do_unshift = (noconv, []),
     do_encoding = 1,
     do_always_noconv = True,
     do_length = (\<lambda>frm mx. static_cast_int (min mx (length frm))),
     do_max_length = 1 \<rparr>"

text \<open>\<^verbatim>\<open>codecvt<char16_t, char, mbstate_t>\<close>\<close>

definition codecvt_char16 :: "u16 codecvt" where
  "codecvt_char16 = \<lparr>
     do_out = utf16_to_utf8_16 0x10FFFF 0,
     do_in = utf8_to_utf16_16 0x10FFFF 0,
     do_unshift = (noconv, []),
     do_encoding = 0,
     do_always_noconv = False,
     do_length = utf8_to_utf16_length 0x10FFFF 0,
     do_max_length = 4 \<rparr>"

text \<open>\<^verbatim>\<open>codecvt<char32_t, char, mbstate_t>\<close>\<close>

definition codecvt_char32 :: "u32 codecvt" where
  "codecvt_char32 = \<lparr>
     do_out = ucs4_to_utf8 0x10FFFF 0,
     do_in = utf8_to_ucs4 0x10FFFF 0,
     do_unshift = (noconv, []),
     do_encoding = 0,
     do_always_noconv = False,
     do_length = utf8_to_ucs4_length 0x10FFFF 0,
     do_max_length = 4 \<rparr>"

text \<open>\<^verbatim>\<open>__codecvt_utf8<wchar_t>\<close>\<close>

definition codecvt_utf8_wchar :: "u64 \<Rightarrow> u32 \<Rightarrow> u32 codecvt" where
  "codecvt_utf8_wchar Maxcode Mode = \<lparr>
     do_out = ucs4_to_utf8 Maxcode Mode,
     do_in = utf8_to_ucs4 Maxcode Mode,
     do_unshift = (noconv, []),
     do_encoding = 0,
     do_always_noconv = False,
     do_length = utf8_to_ucs4_length Maxcode Mode,
     do_max_length = (if has_mode Mode consume_header then 7 else 4) \<rparr>"

text \<open>\<^verbatim>\<open>__codecvt_utf8<char16_t>\<close>\<close>

definition codecvt_utf8_char16 :: "u64 \<Rightarrow> u32 \<Rightarrow> u16 codecvt" where
  "codecvt_utf8_char16 Maxcode Mode = \<lparr>
     do_out = ucs2_to_utf8 Maxcode Mode,
     do_in = utf8_to_ucs2 Maxcode Mode,
     do_unshift = (noconv, []),
     do_encoding = 0,
     do_always_noconv = False,
     do_length = utf8_to_ucs2_length Maxcode Mode,
     do_max_length = (if has_mode Mode consume_header then 6 else 3) \<rparr>"

text \<open>\<^verbatim>\<open>__codecvt_utf8<char32_t>\<close>\<close>

definition codecvt_utf8_char32 :: "u64 \<Rightarrow> u32 \<Rightarrow> u32 codecvt" where
  "codecvt_utf8_char32 Maxcode Mode = \<lparr>
     do_out = ucs4_to_utf8 Maxcode Mode,
     do_in = utf8_to_ucs4 Maxcode Mode,
     do_unshift = (noconv, []),
     do_encoding = 0,
     do_always_noconv = False,
     do_length = utf8_to_ucs4_length Maxcode Mode,
     do_max_length = (if has_mode Mode consume_header then 7 else 4) \<rparr>"

text \<open>\<^verbatim>\<open>__codecvt_utf16<wchar_t, false>\<close>\<close>

definition codecvt_utf16be_wchar :: "u64 \<Rightarrow> u32 \<Rightarrow> u32 codecvt" where
  "codecvt_utf16be_wchar Maxcode Mode = \<lparr>
     do_out = ucs4_to_utf16be Maxcode Mode,
     do_in = utf16be_to_ucs4 Maxcode Mode,
     do_unshift = (noconv, []),
     do_encoding = 0,
     do_always_noconv = False,
     do_length = utf16be_to_ucs4_length Maxcode Mode,
     do_max_length = (if has_mode Mode consume_header then 6 else 4) \<rparr>"

text \<open>\<^verbatim>\<open>__codecvt_utf16<wchar_t, true>\<close>\<close>

definition codecvt_utf16le_wchar :: "u64 \<Rightarrow> u32 \<Rightarrow> u32 codecvt" where
  "codecvt_utf16le_wchar Maxcode Mode = \<lparr>
     do_out = ucs4_to_utf16le Maxcode Mode,
     do_in = utf16le_to_ucs4 Maxcode Mode,
     do_unshift = (noconv, []),
     do_encoding = 0,
     do_always_noconv = False,
     do_length = utf16le_to_ucs4_length Maxcode Mode,
     do_max_length = (if has_mode Mode consume_header then 6 else 4) \<rparr>"

text \<open>\<^verbatim>\<open>__codecvt_utf16<char16_t, false>\<close>\<close>

definition codecvt_utf16be_char16 :: "u64 \<Rightarrow> u32 \<Rightarrow> u16 codecvt" where
  "codecvt_utf16be_char16 Maxcode Mode = \<lparr>
     do_out = ucs2_to_utf16be Maxcode Mode,
     do_in = utf16be_to_ucs2 Maxcode Mode,
     do_unshift = (noconv, []),
     do_encoding = 0,
     do_always_noconv = False,
     do_length = utf16be_to_ucs2_length Maxcode Mode,
     do_max_length = (if has_mode Mode consume_header then 4 else 2) \<rparr>"

text \<open>\<^verbatim>\<open>__codecvt_utf16<char16_t, true>\<close>\<close>

definition codecvt_utf16le_char16 :: "u64 \<Rightarrow> u32 \<Rightarrow> u16 codecvt" where
  "codecvt_utf16le_char16 Maxcode Mode = \<lparr>
     do_out = ucs2_to_utf16le Maxcode Mode,
     do_in = utf16le_to_ucs2 Maxcode Mode,
     do_unshift = (noconv, []),
     do_encoding = 0,
     do_always_noconv = False,
     do_length = utf16le_to_ucs2_length Maxcode Mode,
     do_max_length = (if has_mode Mode consume_header then 4 else 2) \<rparr>"

text \<open>\<^verbatim>\<open>__codecvt_utf16<char32_t, false>\<close>\<close>

definition codecvt_utf16be_char32 :: "u64 \<Rightarrow> u32 \<Rightarrow> u32 codecvt" where
  "codecvt_utf16be_char32 Maxcode Mode = \<lparr>
     do_out = ucs4_to_utf16be Maxcode Mode,
     do_in = utf16be_to_ucs4 Maxcode Mode,
     do_unshift = (noconv, []),
     do_encoding = 0,
     do_always_noconv = False,
     do_length = utf16be_to_ucs4_length Maxcode Mode,
     do_max_length = (if has_mode Mode consume_header then 6 else 4) \<rparr>"

text \<open>\<^verbatim>\<open>__codecvt_utf16<char32_t, true>\<close>\<close>

definition codecvt_utf16le_char32 :: "u64 \<Rightarrow> u32 \<Rightarrow> u32 codecvt" where
  "codecvt_utf16le_char32 Maxcode Mode = \<lparr>
     do_out = ucs4_to_utf16le Maxcode Mode,
     do_in = utf16le_to_ucs4 Maxcode Mode,
     do_unshift = (noconv, []),
     do_encoding = 0,
     do_always_noconv = False,
     do_length = utf16le_to_ucs4_length Maxcode Mode,
     do_max_length = (if has_mode Mode consume_header then 6 else 4) \<rparr>"

text \<open>\<^verbatim>\<open>__codecvt_utf8_utf16<wchar_t>\<close>\<close>

definition codecvt_utf8_utf16_wchar :: "u64 \<Rightarrow> u32 \<Rightarrow> u32 codecvt" where
  "codecvt_utf8_utf16_wchar Maxcode Mode = \<lparr>
     do_out = utf16_to_utf8_32 Maxcode Mode,
     do_in = utf8_to_utf16_32 Maxcode Mode,
     do_unshift = (noconv, []),
     do_encoding = 0,
     do_always_noconv = False,
     do_length = utf8_to_utf16_length Maxcode Mode,
     do_max_length = (if has_mode Mode consume_header then 7 else 4) \<rparr>"

text \<open>\<^verbatim>\<open>__codecvt_utf8_utf16<char16_t>\<close>\<close>

definition codecvt_utf8_utf16_char16 :: "u64 \<Rightarrow> u32 \<Rightarrow> u16 codecvt" where
  "codecvt_utf8_utf16_char16 Maxcode Mode = \<lparr>
     do_out = utf16_to_utf8_16 Maxcode Mode,
     do_in = utf8_to_utf16_16 Maxcode Mode,
     do_unshift = (noconv, []),
     do_encoding = 0,
     do_always_noconv = False,
     do_length = utf8_to_utf16_length Maxcode Mode,
     do_max_length = (if has_mode Mode consume_header then 7 else 4) \<rparr>"

text \<open>\<^verbatim>\<open>__codecvt_utf8_utf16<char32_t>\<close>\<close>

definition codecvt_utf8_utf16_char32 :: "u64 \<Rightarrow> u32 \<Rightarrow> u32 codecvt" where
  "codecvt_utf8_utf16_char32 Maxcode Mode = \<lparr>
     do_out = utf16_to_utf8_32 Maxcode Mode,
     do_in = utf8_to_utf16_32 Maxcode Mode,
     do_unshift = (noconv, []),
     do_encoding = 0,
     do_always_noconv = False,
     do_length = utf8_to_utf16_length Maxcode Mode,
     do_max_length = (if has_mode Mode consume_header then 7 else 4) \<rparr>"

lemmas facet_defs = codecvt_char16_def codecvt_char32_def codecvt_utf8_wchar_def codecvt_utf8_char16_def codecvt_utf8_char32_def codecvt_utf16be_wchar_def codecvt_utf16le_wchar_def codecvt_utf16be_char16_def codecvt_utf16le_char16_def codecvt_utf16be_char32_def codecvt_utf16le_char32_def codecvt_utf8_utf16_wchar_def codecvt_utf8_utf16_char16_def codecvt_utf8_utf16_char32_def

lemmas routine_defs =
  ucs4_to_utf8_def utf8_to_ucs4_def utf8_to_ucs4_length_def
  ucs2_to_utf8_def utf8_to_ucs2_def utf8_to_ucs2_length_def
  utf16_to_utf8_16_def utf16_to_utf8_32_def utf8_to_utf16_16_def utf8_to_utf16_32_def utf8_to_utf16_length_def
  ucs4_to_utf16be_def utf16be_to_ucs4_def utf16be_to_ucs4_length_def
  ucs4_to_utf16le_def utf16le_to_ucs4_def utf16le_to_ucs4_length_def
  ucs2_to_utf16be_def utf16be_to_ucs2_def utf16be_to_ucs2_length_def
  ucs2_to_utf16le_def utf16le_to_ucs2_def utf16le_to_ucs2_length_def

subsection \<open>What every facet promises\<close>

locale codecvt_laws =
  fixes F :: "'i codecvt"
  assumes out_fits: "do_out F us room = (r, rest, out) \<Longrightarrow>
      r \<noteq> past_end \<and> length out \<le> room \<and> (\<exists>done. us = done @ rest)"
    and in_fits: "do_in F bs room = (r, rest', out') \<Longrightarrow>
      r \<noteq> past_end \<and> length out' \<le> room \<and> (\<exists>done. bs = done @ rest')"
    and length_counts: "length bs < 2 ^ 31 \<Longrightarrow>
      do_length F bs mx = int (length bs - length (fst (snd (do_in F bs mx))))"
    and one_bounded: "do_in F bs 1 = (r, rest', out') \<Longrightarrow> int (length bs - length rest') \<le> do_max_length F"
    and stateless: "do_unshift F = (noconv, [])" "do_encoding F = 0" "\<not> do_always_noconv F"
begin

lemma length_in_range: "length bs < 2 ^ 31 \<Longrightarrow> 0 \<le> do_length F bs mx \<and> do_length F bs mx \<le> int (length bs)"
  by (simp add: length_counts)

lemma max_length_bounds: "length bs < 2 ^ 31 \<Longrightarrow> do_length F bs 1 \<le> do_max_length F"
  using one_bounded by (cases "do_in F bs 1") (fastforce simp: length_counts)

end

locale routine_facet =
  writer: bounded_body M obody + reader: bounded_body N "guarded w ibody" + counter: length_body w ibody count
  for M and obody :: "('i, u8) body" and N w and ibody :: "(u8, 'i) body" and count +
  fixes F :: "'i codecvt" and obom ibom :: "u8 list" and Mode :: u32
  assumes F_out: "do_out F us room = with_header obom Mode room us (out_loop obody us)"
    and F_in: "do_in F bs room = in_loop w ibody (skip_header ibom Mode bs) room"
    and F_length: "do_length F bs mx = (let nxt = skip_header ibom Mode bs in
      static_cast_int ((length bs - length nxt) + length_loop w count nxt mx))"
    and F_max: "int ((if has_mode Mode consume_header then length ibom else 0) + N) \<le> do_max_length F"
    and F_stateless: "do_unshift F = (noconv, [])" "do_encoding F = 0" "\<not> do_always_noconv F"

sublocale routine_facet \<subseteq> codecvt_laws F
proof
  fix us room r rest out and bs :: "u8 list" and rest' out' mx
  show "r \<noteq> past_end \<and> length out \<le> room \<and> (\<exists>done. us = done @ rest)" if "do_out F us room = (r, rest, out)"
    using writer.routine_out_fits that unfolding F_out .
  show "r \<noteq> past_end \<and> length out' \<le> room \<and> (\<exists>done. bs = done @ rest')" if "do_in F bs room = (r, rest', out')"
    using reader.routine_in_fits that unfolding F_in in_loop_is_out_loop .
  show "do_length F bs mx = int (length bs - length (fst (snd (do_in F bs mx))))" if "length bs < 2 ^ 31"
    using counter.routine_length [OF that] unfolding F_length F_in Let_def .
  show "int (length bs - length rest') \<le> do_max_length F" if "do_in F bs 1 = (r, rest', out')"
    using reader.routine_one_char [of ibom Mode bs] that F_max unfolding F_in in_loop_is_out_loop by fastforce
qed (simp_all add: F_stateless)

subsection \<open>The bodies are bounded\<close>

lemma ucs4_to_utf8_body_bounded: "bounded_body 1 (ucs4_to_utf8_body Maxcode)"
  by unfold_locales (auto simp: ucs4_to_utf8_body_def Let_def Suc_le_eq split: if_splits)

lemma ucs2_to_utf8_body_bounded: "bounded_body 1 (ucs2_to_utf8_body Maxcode)"
  by unfold_locales (auto simp: ucs2_to_utf8_body_def Let_def Suc_le_eq split: if_splits)

lemma utf16_to_utf8_16_body_bounded: "bounded_body 2 (utf16_to_utf8_16_body Maxcode)"
  by unfold_locales (auto simp: utf16_to_utf8_16_body_plain Let_def Suc_le_eq split: if_splits)

lemma utf16_to_utf8_32_body_bounded: "bounded_body 2 (utf16_to_utf8_32_body Maxcode)"
  by unfold_locales (auto simp: utf16_to_utf8_32_body_plain Let_def Suc_le_eq split: if_splits)

lemma ucs4_to_utf16be_body_bounded: "bounded_body 1 (ucs4_to_utf16be_body Maxcode)"
  by unfold_locales (auto simp: ucs4_to_utf16be_body_def Let_def Suc_le_eq split: if_splits)

lemma ucs4_to_utf16le_body_bounded: "bounded_body 1 (ucs4_to_utf16le_body Maxcode)"
  by unfold_locales (auto simp: ucs4_to_utf16le_body_def Let_def Suc_le_eq split: if_splits)

lemma ucs2_to_utf16be_body_bounded: "bounded_body 1 (ucs2_to_utf16be_body Maxcode)"
  by unfold_locales (auto simp: ucs2_to_utf16be_body_def Let_def Suc_le_eq split: if_splits)

lemma ucs2_to_utf16le_body_bounded: "bounded_body 1 (ucs2_to_utf16le_body Maxcode)"
  by unfold_locales (auto simp: ucs2_to_utf16le_body_def Let_def Suc_le_eq split: if_splits)

lemma utf8_to_ucs4_body_bounded: "bounded_body 4 (guarded 1 (utf8_to_ucs4_body Maxcode))"
  by unfold_locales (auto simp: utf8_to_ucs4_body_plain guarded_def Let_def Suc_le_eq split: if_splits)

lemma utf8_to_ucs2_body_bounded: "bounded_body 3 (guarded 1 (utf8_to_ucs2_body Maxcode))"
  by unfold_locales (auto simp: utf8_to_ucs2_body_plain guarded_def Let_def Suc_le_eq split: if_splits)

lemma utf8_to_utf16_16_body_bounded: "bounded_body 4 (guarded 1 (utf8_to_utf16_16_body Maxcode))"
  by unfold_locales (auto simp: utf8_to_utf16_16_body_plain guarded_def Let_def Suc_le_eq split: if_splits)

lemma utf8_to_utf16_32_body_bounded: "bounded_body 4 (guarded 1 (utf8_to_utf16_32_body Maxcode))"
  by unfold_locales (auto simp: utf8_to_utf16_32_body_plain guarded_def Let_def Suc_le_eq split: if_splits)

lemma utf16be_to_ucs4_body_bounded: "bounded_body 4 (guarded 2 (utf16be_to_ucs4_body Maxcode))"
  by unfold_locales (auto simp: utf16be_to_ucs4_body_plain unit_at_in guarded_def Let_def Suc_le_eq split: if_splits)

lemma utf16le_to_ucs4_body_bounded: "bounded_body 4 (guarded 2 (utf16le_to_ucs4_body Maxcode))"
  by unfold_locales (auto simp: utf16le_to_ucs4_body_plain unit_at_in guarded_def Let_def Suc_le_eq split: if_splits)

lemma utf16be_to_ucs2_body_bounded: "bounded_body 2 (guarded 2 (utf16be_to_ucs2_body Maxcode))"
  by unfold_locales (auto simp: utf16be_to_ucs2_body_plain unit_at_in guarded_def Let_def Suc_le_eq split: if_splits)

lemma utf16le_to_ucs2_body_bounded: "bounded_body 2 (guarded 2 (utf16le_to_ucs2_body Maxcode))"
  by unfold_locales (auto simp: utf16le_to_ucs2_body_plain unit_at_in guarded_def Let_def Suc_le_eq split: if_splits)

lemma utf16_32_length: "length_body 1 (utf8_to_utf16_32_body Maxcode) (utf8_to_utf16_length_body Maxcode)"
proof
  fix us :: "u8 list" and mx n out
  show "utf8_to_utf16_length_body Maxcode us mx =
      (case utf8_to_utf16_32_body Maxcode us mx of Inl r \<Rightarrow> None | Inr (n, out) \<Rightarrow> Some (n, length out))"
    if "1 \<le> length us" "0 < mx" "us \<noteq> []"
    using utf16_length.counts [OF that, of Maxcode] that(3)
    by (auto simp: utf8_to_utf16_32_body_eq split: sum.splits)
  show "0 < n \<and> n \<le> length us" if "1 \<le> length us" "us \<noteq> []" "utf8_to_utf16_32_body Maxcode us mx = Inr (n, out)"
    using that utf16_length.moves [of us Maxcode mx n]
    by (auto simp: utf8_to_utf16_32_body_eq map_sum_def split: sum.splits prod.splits)
qed

subsection \<open>All fourteen keep the promise\<close>

lemmas body_bounds = ucs4_to_utf8_body_bounded ucs2_to_utf8_body_bounded utf16_to_utf8_16_body_bounded utf16_to_utf8_32_body_bounded ucs4_to_utf16be_body_bounded ucs4_to_utf16le_body_bounded ucs2_to_utf16be_body_bounded ucs2_to_utf16le_body_bounded utf8_to_ucs4_body_bounded utf8_to_ucs2_body_bounded utf8_to_utf16_16_body_bounded utf8_to_utf16_32_body_bounded utf16be_to_ucs4_body_bounded utf16le_to_ucs4_body_bounded utf16be_to_ucs2_body_bounded utf16le_to_ucs2_body_bounded

lemmas body_lengths = ucs4_length.length_body_axioms ucs2_length.length_body_axioms utf16_length.length_body_axioms
  utf16_32_length be4_length.length_body_axioms le4_length.length_body_axioms be2_length.length_body_axioms
  le2_length.length_body_axioms

lemmas bom_defs = utf8_bom_def utf16be_bom_def utf16le_bom_def

interpretation char16: routine_facet 2 "utf16_to_utf8_16_body 0x10FFFF" 4 1 "utf8_to_utf16_16_body 0x10FFFF" "utf8_to_utf16_length_body 0x10FFFF"
  codecvt_char16 utf8_bom utf8_bom 0
  by (rule routine_facet.intro, rule body_bounds, rule body_bounds, rule body_lengths,
      unfold_locales) (simp_all add: codecvt_char16_def routine_defs bom_defs)

interpretation char32: routine_facet 1 "ucs4_to_utf8_body 0x10FFFF" 4 1 "utf8_to_ucs4_body 0x10FFFF" "utf8_to_ucs4_length_body 0x10FFFF"
  codecvt_char32 utf8_bom utf8_bom 0
  by (rule routine_facet.intro, rule body_bounds, rule body_bounds, rule body_lengths,
      unfold_locales) (simp_all add: codecvt_char32_def routine_defs bom_defs)

interpretation utf8_wchar: routine_facet 1 "ucs4_to_utf8_body Maxcode" 4 1 "utf8_to_ucs4_body Maxcode" "utf8_to_ucs4_length_body Maxcode"
  "codecvt_utf8_wchar Maxcode Mode" utf8_bom utf8_bom Mode
  for Maxcode Mode
  by (rule routine_facet.intro, rule body_bounds, rule body_bounds, rule body_lengths,
      unfold_locales) (simp_all add: codecvt_utf8_wchar_def routine_defs bom_defs)

interpretation utf8_char16: routine_facet 1 "ucs2_to_utf8_body Maxcode" 3 1 "utf8_to_ucs2_body Maxcode" "utf8_to_ucs2_length_body Maxcode"
  "codecvt_utf8_char16 Maxcode Mode" utf8_bom utf8_bom Mode
  for Maxcode Mode
  by (rule routine_facet.intro, rule body_bounds, rule body_bounds, rule body_lengths,
      unfold_locales) (simp_all add: codecvt_utf8_char16_def routine_defs bom_defs)

interpretation utf8_char32: routine_facet 1 "ucs4_to_utf8_body Maxcode" 4 1 "utf8_to_ucs4_body Maxcode" "utf8_to_ucs4_length_body Maxcode"
  "codecvt_utf8_char32 Maxcode Mode" utf8_bom utf8_bom Mode
  for Maxcode Mode
  by (rule routine_facet.intro, rule body_bounds, rule body_bounds, rule body_lengths,
      unfold_locales) (simp_all add: codecvt_utf8_char32_def routine_defs bom_defs)

interpretation utf16be_wchar: routine_facet 1 "ucs4_to_utf16be_body Maxcode" 4 2 "utf16be_to_ucs4_body Maxcode" "utf16be_to_ucs4_length_body Maxcode"
  "codecvt_utf16be_wchar Maxcode Mode" utf16be_bom utf16be_bom Mode
  for Maxcode Mode
  by (rule routine_facet.intro, rule body_bounds, rule body_bounds, rule body_lengths,
      unfold_locales) (simp_all add: codecvt_utf16be_wchar_def routine_defs bom_defs)

interpretation utf16le_wchar: routine_facet 1 "ucs4_to_utf16le_body Maxcode" 4 2 "utf16le_to_ucs4_body Maxcode" "utf16le_to_ucs4_length_body Maxcode"
  "codecvt_utf16le_wchar Maxcode Mode" utf16le_bom utf16le_bom Mode
  for Maxcode Mode
  by (rule routine_facet.intro, rule body_bounds, rule body_bounds, rule body_lengths,
      unfold_locales) (simp_all add: codecvt_utf16le_wchar_def routine_defs bom_defs)

interpretation utf16be_char16: routine_facet 1 "ucs2_to_utf16be_body Maxcode" 2 2 "utf16be_to_ucs2_body Maxcode" "utf16be_to_ucs2_length_body Maxcode"
  "codecvt_utf16be_char16 Maxcode Mode" utf16be_bom utf16be_bom Mode
  for Maxcode Mode
  by (rule routine_facet.intro, rule body_bounds, rule body_bounds, rule body_lengths,
      unfold_locales) (simp_all add: codecvt_utf16be_char16_def routine_defs bom_defs)

interpretation utf16le_char16: routine_facet 1 "ucs2_to_utf16le_body Maxcode" 2 2 "utf16le_to_ucs2_body Maxcode" "utf16le_to_ucs2_length_body Maxcode"
  "codecvt_utf16le_char16 Maxcode Mode" utf16le_bom utf16le_bom Mode
  for Maxcode Mode
  by (rule routine_facet.intro, rule body_bounds, rule body_bounds, rule body_lengths,
      unfold_locales) (simp_all add: codecvt_utf16le_char16_def routine_defs bom_defs)

interpretation utf16be_char32: routine_facet 1 "ucs4_to_utf16be_body Maxcode" 4 2 "utf16be_to_ucs4_body Maxcode" "utf16be_to_ucs4_length_body Maxcode"
  "codecvt_utf16be_char32 Maxcode Mode" utf16be_bom utf16be_bom Mode
  for Maxcode Mode
  by (rule routine_facet.intro, rule body_bounds, rule body_bounds, rule body_lengths,
      unfold_locales) (simp_all add: codecvt_utf16be_char32_def routine_defs bom_defs)

interpretation utf16le_char32: routine_facet 1 "ucs4_to_utf16le_body Maxcode" 4 2 "utf16le_to_ucs4_body Maxcode" "utf16le_to_ucs4_length_body Maxcode"
  "codecvt_utf16le_char32 Maxcode Mode" utf16le_bom utf16le_bom Mode
  for Maxcode Mode
  by (rule routine_facet.intro, rule body_bounds, rule body_bounds, rule body_lengths,
      unfold_locales) (simp_all add: codecvt_utf16le_char32_def routine_defs bom_defs)

interpretation utf8_utf16_wchar: routine_facet 2 "utf16_to_utf8_32_body Maxcode" 4 1 "utf8_to_utf16_32_body Maxcode" "utf8_to_utf16_length_body Maxcode"
  "codecvt_utf8_utf16_wchar Maxcode Mode" utf8_bom utf8_bom Mode
  for Maxcode Mode
  by (rule routine_facet.intro, rule body_bounds, rule body_bounds, rule body_lengths,
      unfold_locales) (simp_all add: codecvt_utf8_utf16_wchar_def routine_defs bom_defs)

interpretation utf8_utf16_char16: routine_facet 2 "utf16_to_utf8_16_body Maxcode" 4 1 "utf8_to_utf16_16_body Maxcode" "utf8_to_utf16_length_body Maxcode"
  "codecvt_utf8_utf16_char16 Maxcode Mode" utf8_bom utf8_bom Mode
  for Maxcode Mode
  by (rule routine_facet.intro, rule body_bounds, rule body_bounds, rule body_lengths,
      unfold_locales) (simp_all add: codecvt_utf8_utf16_char16_def routine_defs bom_defs)

interpretation utf8_utf16_char32: routine_facet 2 "utf16_to_utf8_32_body Maxcode" 4 1 "utf8_to_utf16_32_body Maxcode" "utf8_to_utf16_length_body Maxcode"
  "codecvt_utf8_utf16_char32 Maxcode Mode" utf8_bom utf8_bom Mode
  for Maxcode Mode
  by (rule routine_facet.intro, rule body_bounds, rule body_bounds, rule body_lengths,
      unfold_locales) (simp_all add: codecvt_utf8_utf16_char32_def routine_defs bom_defs)

subsection \<open>The classes together\<close>

definition facets32 :: "u64 \<Rightarrow> u32 \<Rightarrow> u32 codecvt list" where
  "facets32 Maxcode Mode =
     [codecvt_utf8_wchar Maxcode Mode, codecvt_utf8_char32 Maxcode Mode,
      codecvt_utf16be_wchar Maxcode Mode, codecvt_utf16le_wchar Maxcode Mode,
      codecvt_utf16be_char32 Maxcode Mode, codecvt_utf16le_char32 Maxcode Mode]"

definition facets16 :: "u64 \<Rightarrow> u32 \<Rightarrow> u16 codecvt list" where
  "facets16 Maxcode Mode =
     [codecvt_utf8_char16 Maxcode Mode, codecvt_utf16be_char16 Maxcode Mode,
      codecvt_utf16le_char16 Maxcode Mode, codecvt_utf8_utf16_char16 Maxcode Mode]"

text \<open>The two that keep 16-bit units in wider ones.\<close>

definition facets_wide :: "u64 \<Rightarrow> u32 \<Rightarrow> u32 codecvt list" where
  "facets_wide Maxcode Mode =
     [codecvt_utf8_utf16_wchar Maxcode Mode, codecvt_utf8_utf16_char32 Maxcode Mode]"

definition within_buffers :: "'i codecvt \<Rightarrow> bool" where
  "within_buffers F \<longleftrightarrow>
     (\<forall>us room. case do_out F us room of (r, rest, out) \<Rightarrow>
        r \<noteq> past_end \<and> length out \<le> room \<and> (\<exists>done. us = done @ rest)) \<and>
     (\<forall>bs room. case do_in F bs room of (r, rest, out) \<Rightarrow>
        r \<noteq> past_end \<and> length out \<le> room \<and> (\<exists>done. bs = done @ rest))"

definition counts_input :: "'i codecvt \<Rightarrow> bool" where
  "counts_input F \<longleftrightarrow>
     (\<forall>bs mx. length bs < 2 ^ 31 \<longrightarrow>
        do_length F bs mx = int (length bs - length (fst (snd (do_in F bs mx)))) \<and>
        do_length F bs 1 \<le> do_max_length F)"

definition round_trips :: "'i codecvt \<Rightarrow> bool" where
  "round_trips F \<longleftrightarrow>
     (\<forall>us room rest out. do_out F us room = (ok, rest, out) \<longrightarrow> do_in F out (length us) = (ok, [], us))"

context codecvt_laws
begin

lemma is_within_buffers: "within_buffers F"
  unfolding within_buffers_def using out_fits in_fits by (simp split: prod.split)

lemma does_count_input: "counts_input F"
  unfolding counts_input_def using length_counts max_length_bounds by blast

end

lemmas all_within_buffers = char16.is_within_buffers char32.is_within_buffers utf8_wchar.is_within_buffers utf8_char16.is_within_buffers utf8_char32.is_within_buffers utf16be_wchar.is_within_buffers utf16le_wchar.is_within_buffers utf16be_char16.is_within_buffers utf16le_char16.is_within_buffers utf16be_char32.is_within_buffers utf16le_char32.is_within_buffers utf8_utf16_wchar.is_within_buffers utf8_utf16_char16.is_within_buffers utf8_utf16_char32.is_within_buffers

lemmas all_count_input = char16.does_count_input char32.does_count_input utf8_wchar.does_count_input utf8_char16.does_count_input utf8_char32.does_count_input utf16be_wchar.does_count_input utf16le_wchar.does_count_input utf16be_char16.does_count_input utf16le_char16.does_count_input utf16be_char32.does_count_input utf16le_char32.does_count_input utf8_utf16_wchar.does_count_input utf8_utf16_char16.does_count_input utf8_utf16_char32.does_count_input

text \<open>A facet whose two loops invert each other brings back what it wrote.\<close>

lemma round_trips_if:
  assumes "transcoder_pair obody (guarded w ibody) cp E D"
    "has_mode Mode generate_header = has_mode Mode consume_header"
    "\<And>us room. do_out F us room = with_header bom Mode room us (out_loop obody us)"
    "\<And>bs room. do_in F bs room = in_loop w ibody (skip_header bom Mode bs) room"
  shows "round_trips F"
  unfolding round_trips_def assms(3,4) in_loop_is_out_loop
  using transcoder_pair.routine_round_trip [OF assms(1) _ order_refl assms(2)] by blast

lemma Maxcode_unicode: "unat Maxcode \<le> 0x10FFFF \<Longrightarrow> min Maxcode (0x10FFFF :: u64) = Maxcode"
  by (rule min_absorb1) (simp add: word_le_nat_alt)

lemma Maxcode_lead: "0xF4 \<le> unat Maxcode \<Longrightarrow> max Maxcode (0xF4 :: u64) = Maxcode"
  by (rule max_absorb1) (simp add: word_le_nat_alt)

text \<open>Without byte order marks the routines are their loops.\<close>

lemma plain_in: "utf8_to_ucs4 M 0 = out_loop (guarded 1 (utf8_to_ucs4_body M))"
  "utf8_to_ucs2 M 0 = out_loop (guarded 1 (utf8_to_ucs2_body M))"
  "utf8_to_utf16_16 M 0 = out_loop (guarded 1 (utf8_to_utf16_16_body M))"
  "utf16be_to_ucs4 M 0 = out_loop (guarded 2 (utf16be_to_ucs4_body M))"
  "utf16le_to_ucs4 M 0 = out_loop (guarded 2 (utf16le_to_ucs4_body M))"
  "utf16be_to_ucs2 M 0 = out_loop (guarded 2 (utf16be_to_ucs2_body M))"
  "utf16le_to_ucs2 M 0 = out_loop (guarded 2 (utf16le_to_ucs2_body M))"
  by (intro ext; simp add: routine_defs skip_header_off in_loop_is_out_loop)+

lemma plain_out: "ucs4_to_utf8 M 0 = out_loop (ucs4_to_utf8_body M)"
  "ucs2_to_utf8 M 0 = out_loop (ucs2_to_utf8_body M)"
  "utf16_to_utf8_16 M 0 = out_loop (utf16_to_utf8_16_body M)"
  "ucs4_to_utf16be M 0 = out_loop (ucs4_to_utf16be_body M)"
  "ucs4_to_utf16le M 0 = out_loop (ucs4_to_utf16le_body M)"
  "ucs2_to_utf16be M 0 = out_loop (ucs2_to_utf16be_body M)"
  "ucs2_to_utf16le M 0 = out_loop (ucs2_to_utf16le_body M)"
  by (intro ext; simp add: routine_defs with_header_def)+

lemma codecvt_char16_round_trips: "round_trips codecvt_char16"
  by (rule round_trips_if [OF utf16_utf8.transcoder_pair_axioms [of "0x10FFFF", unfolded Maxcode_lead [of "0x10FFFF", simplified]], of 0])
    (simp_all add: codecvt_char16_def routine_defs)

lemma codecvt_char32_round_trips: "round_trips codecvt_char32"
  by (rule round_trips_if [OF ucs4_utf8.transcoder_pair_axioms [of "0x10FFFF", unfolded Maxcode_unicode [of "0x10FFFF", simplified]], of 0])
    (simp_all add: codecvt_char32_def routine_defs)

lemma codecvt_utf8_wchar_round_trips:
  assumes "unat Maxcode \<le> 0x10FFFF" "has_mode Mode generate_header = has_mode Mode consume_header"
  shows "round_trips (codecvt_utf8_wchar Maxcode Mode)"
  by (rule round_trips_if [OF ucs4_utf8.transcoder_pair_axioms [of Maxcode, unfolded Maxcode_unicode [OF assms(1)]] assms(2)])
    (simp_all add: codecvt_utf8_wchar_def routine_defs)

lemma codecvt_utf8_char16_round_trips:
  assumes "has_mode Mode generate_header = has_mode Mode consume_header"
  shows "round_trips (codecvt_utf8_char16 Maxcode Mode)"
  by (rule round_trips_if [OF ucs2_utf8.transcoder_pair_axioms [of Maxcode] assms(1)])
    (simp_all add: codecvt_utf8_char16_def routine_defs)

lemma codecvt_utf8_char32_round_trips:
  assumes "unat Maxcode \<le> 0x10FFFF" "has_mode Mode generate_header = has_mode Mode consume_header"
  shows "round_trips (codecvt_utf8_char32 Maxcode Mode)"
  by (rule round_trips_if [OF ucs4_utf8.transcoder_pair_axioms [of Maxcode, unfolded Maxcode_unicode [OF assms(1)]] assms(2)])
    (simp_all add: codecvt_utf8_char32_def routine_defs)

lemma codecvt_utf16be_wchar_round_trips:
  assumes "unat Maxcode \<le> 0x10FFFF" "has_mode Mode generate_header = has_mode Mode consume_header"
  shows "round_trips (codecvt_utf16be_wchar Maxcode Mode)"
  by (rule round_trips_if [OF be4_pair.transcoder_pair_axioms [of Maxcode, unfolded Maxcode_unicode [OF assms(1)]] assms(2)])
    (simp_all add: codecvt_utf16be_wchar_def routine_defs)

lemma codecvt_utf16le_wchar_round_trips:
  assumes "unat Maxcode \<le> 0x10FFFF" "has_mode Mode generate_header = has_mode Mode consume_header"
  shows "round_trips (codecvt_utf16le_wchar Maxcode Mode)"
  by (rule round_trips_if [OF le4_pair.transcoder_pair_axioms [of Maxcode, unfolded Maxcode_unicode [OF assms(1)]] assms(2)])
    (simp_all add: codecvt_utf16le_wchar_def routine_defs)

lemma codecvt_utf16be_char16_round_trips:
  assumes "has_mode Mode generate_header = has_mode Mode consume_header"
  shows "round_trips (codecvt_utf16be_char16 Maxcode Mode)"
  by (rule round_trips_if [OF be2_pair.transcoder_pair_axioms [of Maxcode] assms(1)])
    (simp_all add: codecvt_utf16be_char16_def routine_defs)

lemma codecvt_utf16le_char16_round_trips:
  assumes "has_mode Mode generate_header = has_mode Mode consume_header"
  shows "round_trips (codecvt_utf16le_char16 Maxcode Mode)"
  by (rule round_trips_if [OF le2_pair.transcoder_pair_axioms [of Maxcode] assms(1)])
    (simp_all add: codecvt_utf16le_char16_def routine_defs)

lemma codecvt_utf16be_char32_round_trips:
  assumes "unat Maxcode \<le> 0x10FFFF" "has_mode Mode generate_header = has_mode Mode consume_header"
  shows "round_trips (codecvt_utf16be_char32 Maxcode Mode)"
  by (rule round_trips_if [OF be4_pair.transcoder_pair_axioms [of Maxcode, unfolded Maxcode_unicode [OF assms(1)]] assms(2)])
    (simp_all add: codecvt_utf16be_char32_def routine_defs)

lemma codecvt_utf16le_char32_round_trips:
  assumes "unat Maxcode \<le> 0x10FFFF" "has_mode Mode generate_header = has_mode Mode consume_header"
  shows "round_trips (codecvt_utf16le_char32 Maxcode Mode)"
  by (rule round_trips_if [OF le4_pair.transcoder_pair_axioms [of Maxcode, unfolded Maxcode_unicode [OF assms(1)]] assms(2)])
    (simp_all add: codecvt_utf16le_char32_def routine_defs)

lemma codecvt_utf8_utf16_char16_round_trips:
  assumes "0xF4 \<le> unat Maxcode" "has_mode Mode generate_header = has_mode Mode consume_header"
  shows "round_trips (codecvt_utf8_utf16_char16 Maxcode Mode)"
  by (rule round_trips_if [OF utf16_utf8.transcoder_pair_axioms [of Maxcode, unfolded Maxcode_lead [OF assms(1)]] assms(2)])
    (simp_all add: codecvt_utf8_utf16_char16_def routine_defs)

lemmas facets_round_trips = codecvt_char16_round_trips codecvt_char32_round_trips codecvt_utf8_wchar_round_trips codecvt_utf8_char16_round_trips codecvt_utf8_char32_round_trips codecvt_utf16be_wchar_round_trips codecvt_utf16le_wchar_round_trips codecvt_utf16be_char16_round_trips codecvt_utf16le_char16_round_trips codecvt_utf16be_char32_round_trips codecvt_utf16le_char32_round_trips codecvt_utf8_utf16_char16_round_trips

subsection \<open>Between the routines\<close>

lemma routine_octets:
  assumes "converts_exactly (out_loop body) cp E utf8" "\<And>c. cp c \<Longrightarrow> scalar c"
  shows "list_all valid_octet (snd (snd (with_header utf8_bom mode room us (out_loop body us))))"
proof -
  have loop: "list_all valid_octet out" if run: "out_loop body us room = (r, rest, out)" for room r rest out
  proof -
    from assms(1) run obtain cs where "list_all cp cs" "out = encoded utf8 cs"
      unfolding converts_exactly_def by blast
    then show ?thesis using encoded_octets [of cs] assms(2) by (simp add: list_all_iff)
  qed
  have bom: "list_all valid_octet utf8_bom" by (simp add: utf8_bom_def valid_octet_def)
  show ?thesis
    using loop bom
    by (cases "out_loop body us room"; cases "out_loop body us (room - length utf8_bom)")
      (auto simp: with_header_def)
qed

lemma utf16_to_utf8_32_octets:
  "snd (snd (utf16_to_utf8_32 Maxcode mode us room)) = snd (snd (utf16_to_utf8_16 Maxcode mode (map ucast us) room))"
  unfolding routine_defs out_loop_32 with_header_def by (simp add: put_out_def split: prod.split)

lemma bytes_of_units: "encoded (utf16_bytes bytes) cs = concat (map bytes (encoded utf16 cs))"
  by (induction cs) (simp_all add: utf16_bytes_def)

lemma units_to_bytes:
  assumes "unat Maxcode \<le> 0x10FFFF" "list_all (cp_upto Maxcode) cs"
    "2 * length (encoded utf16 cs :: u16 list) \<le> room"
  shows "ucs4_to_utf16be Maxcode 0 (encoded utf32 cs) room = (ok, [], concat (map be16 (encoded utf16 cs)))"
    "ucs4_to_utf16le Maxcode 0 (encoded utf32 cs) room = (ok, [], concat (map le16 (encoded utf16 cs)))"
proof -
  have "length (concat (map be16 ws)) = 2 * length ws" "length (concat (map le16 ws)) = 2 * length ws" for ws
    by (induction ws) (simp_all add: be16_def le16_def)
  with assms(3) show "ucs4_to_utf16be Maxcode 0 (encoded utf32 cs) room = (ok, [], concat (map be16 (encoded utf16 cs)))"
    "ucs4_to_utf16le Maxcode 0 (encoded utf32 cs) room = (ok, [], concat (map le16 (encoded utf16 cs)))"
    using be4_writer.converts_all [of Maxcode cs room] le4_writer.converts_all [of Maxcode cs room] assms(2)
    unfolding plain_out Maxcode_unicode [OF assms(1)] bytes_of_units by simp_all
qed

end
