(* ===== verification/Hash_Primes.thy ===== *)
theory Hash_Primes
  imports Wissbi_Prelude
begin

text \<open>
  \<^verbatim>\<open>__next_prime\<close> of \<^verbatim>\<open>3rd_party/libcxx/src/hash.cpp\<close>, which sizes the bucket arrays of the unordered
  containers (the tee's map of branches and the connector's set of producers). The tables are the source's; its loop over potential
  primes, unrolled 48 times, is the recursion \<open>wheel_round\<close> over the list of its increments.

  A \<^verbatim>\<open>size_t\<close> is a \<^typ>\<open>nat\<close> below \<open>2 ^ 64\<close>. The one assignment that can wrap, \<^verbatim>\<open>n = L * k0 + indices[in]\<close>,
  has its wrap written out; the trial divisor \<^verbatim>\<open>i\<close> never exceeds \<^verbatim>\<open>n / i\<close> when it is increased, so it
  stays far below the bound.
\<close>

definition small_primes :: "nat list" where
  "small_primes =
    [0, 2, 3, 5, 7, 11, 13, 17, 19, 23, 29, 31, 37, 41, 43, 47, 
     53, 59, 61, 67, 71, 73, 79, 83, 89, 97, 101, 103, 107, 109, 113, 127, 
     131, 137, 139, 149, 151, 157, 163, 167, 173, 179, 181, 191, 193, 197, 199, 211]"

definition indices :: "nat list" where
  "indices =
    [1, 11, 13, 17, 19, 23, 29, 31, 37, 41, 43, 47, 53, 59, 61, 67, 
     71, 73, 79, 83, 89, 97, 101, 103, 107, 109, 113, 121, 127, 131, 137, 139, 
     143, 149, 151, 157, 163, 167, 169, 173, 179, 181, 187, 191, 193, 197, 199, 209]"

text \<open>\<^verbatim>\<open>std::lower_bound\<close> on a sorted array: the index of the first element not below the value.\<close>

definition lower_bound :: "nat list \<Rightarrow> nat \<Rightarrow> nat" where
  "lower_bound xs v = length (takeWhile (\<lambda>x. x < v) xs)"

definition check_for_overflow :: "nat \<Rightarrow> fault + unit" where
  "check_for_overflow N = (if 0xFFFFFFFFFFFFFFC5 < N then Inl (Exception ''__next_prime overflow'') else Inr ())"

text \<open>One division: \<^verbatim>\<open>return n\<close> when the quotient is below the divisor, \<^verbatim>\<open>next\<close> when it is even.\<close>

definition divide_by :: "nat \<Rightarrow> nat \<Rightarrow> bool option" where
  "divide_by n p = (let q = n div p in if q < p then Some True else if n = q * p then Some False else None)"

text \<open>\<^verbatim>\<open>for (size_t j = 5; j < N - 1; ++j)\<close> over the small primes.\<close>

fun by_small_primes :: "nat \<Rightarrow> nat list \<Rightarrow> bool option" where
  "by_small_primes n [] = None"
| "by_small_primes n (p # ps) =
     (case divide_by n p of Some b \<Rightarrow> Some b | None \<Rightarrow> by_small_primes n ps)"

text \<open>The increments of the unrolled loop, a third of it at a time.\<close>

definition wheel_1 :: "nat list" where
  "wheel_1 = [10, 2, 4, 2, 4, 6, 2, 6, 4, 2, 4, 6, 6, 2, 6, 4]"

definition wheel_2 :: "nat list" where
  "wheel_2 = [2, 6, 4, 6, 8, 4, 2, 4, 2, 4, 8, 6, 4, 6, 2, 4]"

definition wheel_3 :: "nat list" where
  "wheel_3 = [6, 2, 6, 6, 4, 2, 4, 6, 2, 6, 4, 2, 4, 2, 10, 2]"

definition wheel :: "nat list" where
  "wheel = wheel_1 @ wheel_2 @ wheel_3"

text \<open>One round of it: divide, go on to the next potential prime, divide, and so on.\<close>

fun wheel_round :: "nat \<Rightarrow> nat \<Rightarrow> nat list \<Rightarrow> bool + nat" where
  "wheel_round n i [] = Inr i"
| "wheel_round n i (d # ds) =
     (case divide_by n i of Some b \<Rightarrow> Inl b | None \<Rightarrow> wheel_round n (i + d) ds)"

lemma wheel_round_grows: "wheel_round n i ds = Inr i' \<Longrightarrow> ds \<noteq> [] \<Longrightarrow> i \<le> n \<and> i' = i + sum_list ds"
proof (induction ds arbitrary: i)
  case (Cons d ds)
  from Cons.prems(1) have "\<not> n div i < i" and r: "wheel_round n (i + d) ds = Inr i'"
    by (auto simp: divide_by_def Let_def split: if_splits option.splits)
  then have "i \<le> n" by (meson div_le_dividend le_trans not_le)
  moreover have "i' = i + d + sum_list ds" using r Cons.IH [OF r] by (cases ds) auto
  ultimately show ?case by simp
qed simp

function wheel_loop :: "nat \<Rightarrow> nat \<Rightarrow> bool" where
  "wheel_loop n i = (case wheel_round n i wheel of Inl b \<Rightarrow> b | Inr i' \<Rightarrow> wheel_loop n i')"
  by pat_completeness auto
termination
proof (relation "measure (\<lambda>(n, i). n + 1 - i)")
  fix n i i'
  assume "wheel_round n i wheel = Inr i'"
  from wheel_round_grows [OF this] have "i \<le> n" "i' = i + 210"
    by (simp_all add: wheel_def wheel_1_def wheel_2_def wheel_3_def)
  then show "((n, i'), n, i) \<in> measure (\<lambda>(n, i). n + 1 - i)" by simp
qed simp

declare wheel_loop.simps [simp del]

text \<open>Is this potential prime a prime: the small primes from 11 on, then the wheel from 211.\<close>

definition test_candidate :: "nat \<Rightarrow> bool" where
  "test_candidate n =
     (case by_small_primes n (take (length small_primes - 1 - 5) (drop 5 small_primes)) of
        Some b \<Rightarrow> b
      | None \<Rightarrow> wheel_loop n 211)"

text \<open>\<^verbatim>\<open>while (true)\<close> over the potential primes; \<open>None\<close> would be a search that never ends.\<close>

definition next_candidate :: "nat \<Rightarrow> nat \<Rightarrow> nat \<times> nat" where
  "next_candidate k0 ix = (if Suc ix = length indices then (Suc k0, 0) else (k0, Suc ix))"

partial_function (option) candidate_loop :: "nat \<Rightarrow> nat \<Rightarrow> nat \<Rightarrow> nat option" where
  "candidate_loop k0 ix n =
     (if test_candidate n then Some n
      else let (k0', ix') = next_candidate k0 ix in
        candidate_loop k0' ix' ((210 * k0' + indices ! ix') mod 2 ^ 64))"

definition next_prime :: "nat \<Rightarrow> (fault + nat) option" where
  "next_prime n =
     (if n \<le> last small_primes then Some (Inr (small_primes ! lower_bound small_primes n))
      else case check_for_overflow n of
        Inl e \<Rightarrow> Some (Inl e)
      | Inr _ \<Rightarrow>
          let k0 = n div 210;
              ix = lower_bound indices (n - k0 * 210) in
          map_option Inr (candidate_loop k0 ix ((210 * k0 + indices ! ix) mod 2 ^ 64)))"

subsection \<open>Primes\<close>

definition is_prime :: "nat \<Rightarrow> bool" where
  "is_prime p \<longleftrightarrow> 1 < p \<and> (\<forall>d. d dvd p \<longrightarrow> d = 1 \<or> d = p)"

lemma prime_factor:
  assumes "1 < n" "\<not> is_prime n"
  obtains p where "is_prime p" "p dvd n" "p * p \<le> n"
proof -
  from assms obtain d where "d dvd n" "d \<noteq> 1" "d \<noteq> n" by (auto simp: is_prime_def)
  moreover from this(1) assms(1) have "d \<le> n" "d \<noteq> 0" by (auto intro: dvd_imp_le gr0I)
  ultimately have d: "1 < d" "d dvd n" "d < n" by auto
  define p where "p = (LEAST d. 1 < d \<and> d dvd n)"
  have p: "1 < p" "p dvd n" using LeastI [of "\<lambda>d. 1 < d \<and> d dvd n" d] d unfolding p_def by auto
  have least: "p \<le> e" if "1 < e" "e dvd n" for e
    using that Least_le [of "\<lambda>d. 1 < d \<and> d dvd n" e] unfolding p_def by auto
  have "is_prime p"
    unfolding is_prime_def
  proof (intro conjI allI impI)
    fix e assume "e dvd p"
    then have "e dvd n" "e \<le> p" "0 < e" using p by (auto intro: dvd_trans dvd_imp_le gr0I)
    then show "e = 1 \<or> e = p" using least [of e] by (cases "e = 1") auto
  qed (fact p)
  moreover from p(2) obtain m where m: "n = p * m" by (auto elim: dvdE)
  have "1 < m"
  proof (rule ccontr)
    assume "\<not> 1 < m"
    then have "n \<le> p" using m by (cases m) auto
    then show False using least [OF d(1,2)] d(3) by simp
  qed
  then have "p \<le> m" using least [of m] m by simp
  then have "p * p \<le> n" using m by simp
  ultimately show thesis using p(2) that by blast
qed

lemma even_division_not_prime: "n = n div i * i \<Longrightarrow> 1 < i \<Longrightarrow> i \<le> n div i \<Longrightarrow> \<not> is_prime n"
proof
  assume n: "n = n div i * i" "1 < i" "i \<le> n div i" and "is_prime n"
  from n(1) have "i dvd n" by (metis dvd_triv_right)
  with \<open>is_prime n\<close> n(2) have "i = n" unfolding is_prime_def by auto
  with n show False by simp
qed

subsection \<open>Numbers prime to 210\<close>

definition wheel_number :: "nat \<Rightarrow> bool" where
  "wheel_number m \<longleftrightarrow> m mod 210 \<in> set indices"

lemma residues: "\<forall>r<210. r \<in> set indices \<longleftrightarrow> r mod 2 \<noteq> 0 \<and> r mod 3 \<noteq> 0 \<and> r mod 5 \<noteq> 0 \<and> r mod 7 \<noteq> 0"
proof -
  have "list_all (\<lambda>r. r \<in> set indices \<longleftrightarrow> r mod 2 \<noteq> 0 \<and> r mod 3 \<noteq> 0 \<and> r mod 5 \<noteq> 0 \<and> r mod 7 \<noteq> 0) [0..<210]"
  proof -
    have "[0..<210] = 0 # 1 # [2..<210]" by (simp add: upt_conv_Cons numeral_2_eq_2)
    then show ?thesis by (simp only:) (simp add: indices_def)
  qed
  then show ?thesis by (simp add: list_all_iff)
qed

lemma wheel_number_iff: "wheel_number m \<longleftrightarrow> \<not> 2 dvd m \<and> \<not> 3 dvd m \<and> \<not> 5 dvd m \<and> \<not> 7 dvd m"
proof -
  have "m mod 210 mod 2 = m mod 2" "m mod 210 mod 3 = m mod 3" "m mod 210 mod 5 = m mod 5" "m mod 210 mod 7 = m mod 7"
    by (simp_all add: mod_mod_cancel)
  moreover have "m mod 210 \<in> set indices \<longleftrightarrow> m mod 210 mod 2 \<noteq> 0 \<and> m mod 210 mod 3 \<noteq> 0 \<and> m mod 210 mod 5 \<noteq> 0 \<and> m mod 210 mod 7 \<noteq> 0"
    by (rule residues [rule_format]) simp
  ultimately show ?thesis unfolding wheel_number_def dvd_eq_mod_eq_0 by (simp only:)
qed

lemma prime_wheel_number: "is_prime p \<Longrightarrow> 7 < p \<Longrightarrow> wheel_number p"
  unfolding wheel_number_iff is_prime_def by fastforce

subsection \<open>Trial division\<close>

lemma divide_by_iff: "divide_by n p = Some True \<longleftrightarrow> n div p < p"
  "divide_by n p = Some False \<longleftrightarrow> p \<le> n div p \<and> n = n div p * p"
  "divide_by n p = None \<longleftrightarrow> p \<le> n div p \<and> n \<noteq> n div p * p"
  by (auto simp: divide_by_def Let_def)

fun sums :: "nat \<Rightarrow> nat list \<Rightarrow> nat list" where
  "sums i [] = []"
| "sums i (d # ds) = i # sums (i + d) ds"

lemma wheel_round_scan: "wheel_round n i ds =
    (case by_small_primes n (sums i ds) of Some b \<Rightarrow> Inl b | None \<Rightarrow> Inr (i + sum_list ds))"
  by (induction ds arbitrary: i) (auto split: option.split)

text \<open>The increments step through the numbers prime to 210.\<close>

lemma sums_wheel: "sums (210 * k + 1) wheel = map (\<lambda>r. 210 * k + r) indices" "sum_list wheel = 210"
  by (simp_all add: wheel_def wheel_1_def wheel_2_def wheel_3_def indices_def)

lemma scan_True:
  "by_small_primes n xs = Some True \<Longrightarrow>
     \<exists>ys x zs. xs = ys @ x # zs \<and> n div x < x \<and> (\<forall>y\<in>set ys. n \<noteq> n div y * y)"
proof (induction xs)
  case (Cons x xs)
  show ?case
  proof (cases "divide_by n x")
    case None
    with Cons obtain ys y zs where "xs = ys @ y # zs" "n div y < y" "\<forall>y\<in>set ys. n \<noteq> n div y * y" by auto
    with None show ?thesis by (intro exI [of _ "x # ys"]) (auto simp: divide_by_iff)
  next
    case (Some b)
    with Cons.prems have "n div x < x" by (simp flip: divide_by_iff)
    then show ?thesis by (intro exI [of _ "[]"]) auto
  qed
qed simp

lemma scan_False: "by_small_primes n xs = Some False \<Longrightarrow> \<exists>x\<in>set xs. x \<le> n div x \<and> n = n div x * x"
  by (induction xs) (auto simp: divide_by_iff split: option.splits)

lemma scan_None: "by_small_primes n xs = None \<Longrightarrow> \<forall>x\<in>set xs. n \<noteq> n div x * x"
  by (induction xs) (auto simp: divide_by_iff split: option.splits)

definition no_prime_below :: "nat \<Rightarrow> nat \<Rightarrow> bool" where
  "no_prime_below n b \<longleftrightarrow> (\<forall>p. is_prime p \<longrightarrow> p < b \<longrightarrow> \<not> p dvd n)"

lemma scan_decides:
  assumes "1 < n" "sorted_wrt (<) xs" "no_prime_below n lo"
    and all: "\<And>p. is_prime p \<Longrightarrow> lo \<le> p \<Longrightarrow> p < hi \<Longrightarrow> p \<in> set xs" and xs: "\<And>x. x \<in> set xs \<Longrightarrow> 1 < x \<and> x < hi"
  shows "by_small_primes n xs = Some True \<Longrightarrow> is_prime n"
    "by_small_primes n xs = Some False \<Longrightarrow> \<not> is_prime n"
    "by_small_primes n xs = None \<Longrightarrow> no_prime_below n hi"
proof -
  assume "by_small_primes n xs = Some True"
  from scan_True [OF this] obtain ys x zs where x: "xs = ys @ x # zs" "n div x < x" "\<forall>y\<in>set ys. n \<noteq> n div y * y"
    by blast
  show "is_prime n"
  proof (rule ccontr)
    assume "\<not> is_prime n"
    then obtain p where p: "is_prime p" "p dvd n" "p * p \<le> n" using prime_factor [OF assms(1)] by blast
    have "n < x * x" using x(2) by (metis div_less_iff_less_mult less_zeroE neq0_conv)
    then have "p < x" using p(3) by (metis le_less_trans mult_le_mono not_le)
    moreover have "lo \<le> p" using p assms(3) by (auto simp: no_prime_below_def not_less)
    moreover have "x < hi" using xs x(1) by simp
    ultimately have "p \<in> set xs" using all p(1) by simp
    then have "p \<in> set ys" using x(1) assms(2) \<open>p < x\<close> by (auto simp: sorted_wrt_append)
    then show False using x(3) p(2) by auto
  qed
next
  assume "by_small_primes n xs = Some False"
  from scan_False [OF this] obtain x where "x \<in> set xs" "x \<le> n div x" "n = n div x * x" by blast
  with xs show "\<not> is_prime n" using even_division_not_prime by blast
next
  assume "by_small_primes n xs = None"
  from scan_None [OF this] have none: "\<not> x dvd n" if "x \<in> set xs" for x using that by auto
  show "no_prime_below n hi"
    unfolding no_prime_below_def
  proof (intro allI impI)
    fix p assume "is_prime p" "p < hi"
    then show "\<not> p dvd n"
      using assms(3) none all [of p] by (cases "p < lo") (auto simp: no_prime_below_def)
  qed
qed

lemma sorted_indices: "sorted_wrt (<) indices"
  by (simp add: indices_def)

lemma indices_range: "r \<in> set indices \<Longrightarrow> 0 < r \<and> r < 210"
  by (auto simp: indices_def)

lemma wheel_loop_correct:
  assumes "1 < n" "1 \<le> k" "no_prime_below n (210 * k + 1)"
  shows "wheel_loop n (210 * k + 1) = is_prime n"
  using assms(2,3)
proof (induction "n - k" arbitrary: k rule: less_induct)
  case less
  let ?xs = "map (\<lambda>r. 210 * k + r) indices"
  have all: "p \<in> set ?xs" if "is_prime p" "210 * k + 1 \<le> p" "p < 210 * Suc k + 1" for p
  proof -
    have w: "p mod 210 \<in> set indices" using prime_wheel_number [OF that(1)] that(2) less.prems(1) by (simp add: wheel_number_def)
    then have "p \<noteq> 210 * Suc k" using indices_range [OF w] by auto
    then have "p div 210 = k" using that by (intro div_nat_eqI) auto
    with w show ?thesis using div_mult_mod_eq [of p 210] by (auto simp: image_iff mult.commute intro!: bexI [of _ "p mod 210"])
  qed
  have sorted: "sorted_wrt (<) ?xs" using sorted_indices by (simp add: sorted_wrt_map)
  have range: "1 < x \<and> x < 210 * Suc k + 1" if "x \<in> set ?xs" for x
    using that less.prems(1) indices_range by fastforce
  note scan = scan_decides [OF assms(1) sorted less.prems(2) all range]
  show ?case
  proof (cases "by_small_primes n ?xs")
    case (Some b)
    then have "wheel_loop n (210 * k + 1) = b"
      using sums_wheel(1) [of k] by (simp add: wheel_loop.simps wheel_round_scan)
    then show ?thesis using scan(1,2) Some by (cases b) auto
  next
    case None
    then have r: "wheel_round n (210 * k + 1) wheel = Inr (210 * Suc k + 1)"
      using sums_wheel(1) [of k] sums_wheel(2) by (simp add: wheel_round_scan)
    have "wheel \<noteq> []" by (simp add: wheel_def wheel_1_def)
    with wheel_round_grows [OF r] have "k < n" by auto
    then have "wheel_loop n (210 * Suc k + 1) = is_prime n"
      using less.hyps [of "Suc k"] scan(3) None by simp
    with r show ?thesis unfolding wheel_loop.simps [of n "210 * k + 1"] by simp
  qed
qed

lemma test_candidate_correct:
  assumes "wheel_number n" "211 \<le> n"
  shows "test_candidate n = is_prime n"
proof -
  let ?xs = "take (length small_primes - 1 - 5) (drop 5 small_primes)"
  have xs: "?xs = [11, 13, 17, 19, 23, 29, 31, 37, 41, 43, 47, 53, 59, 61, 67, 71, 73, 79, 83, 89, 97, 101, 103,
      107, 109, 113, 127, 131, 137, 139, 149, 151, 157, 163, 167, 173, 179, 181, 191, 193, 197, 199]"
    by (simp add: small_primes_def)
  have below: "no_prime_below n 11"
    unfolding no_prime_below_def
  proof (intro allI impI notI)
    fix p assume p: "is_prime p" "p < 11" "p dvd n"
    then have "p \<in> {2, 3, 4, 5, 6, 7, 8, 9, 10}" by (auto simp: is_prime_def)
    then have "2 dvd p \<or> 3 dvd p \<or> 5 dvd p \<or> 7 dvd p" by auto
    then show False using p(3) assms(1) unfolding wheel_number_iff by (meson dvd_trans)
  qed
  have all: "p \<in> set ?xs" if p: "is_prime p" "11 \<le> p" "p < 211" for p
  proof -
    have w: "p mod 210 \<in> set indices" using prime_wheel_number [OF p(1)] p(2) by (simp add: wheel_number_def)
    have "p \<noteq> 210" using indices_range [OF w] by auto
    then have "p \<in> set indices" using w p(3) by simp
    moreover have "\<not> 11 dvd p" "\<not> 13 dvd p" if "p \<noteq> 11" "p \<noteq> 13" using p(1) that unfolding is_prime_def by auto
    ultimately show ?thesis unfolding xs indices_def using p(2) by auto
  qed
  have "sorted_wrt (<) ?xs" "\<And>x. x \<in> set ?xs \<Longrightarrow> 1 < x \<and> x < 211" unfolding xs by auto
  note scan = scan_decides [OF _ this(1) below all this(2)]
  show ?thesis
  proof (cases "by_small_primes n ?xs")
    case (Some b)
    then have "test_candidate n = b" by (simp add: test_candidate_def)
    then show ?thesis using scan(1,2) Some assms(2) by (cases b) auto
  next
    case None
    then have "test_candidate n = wheel_loop n 211" by (simp add: test_candidate_def)
    then show ?thesis using wheel_loop_correct [of n 1] scan(3) None assms(2) by simp
  qed
qed

subsection \<open>The potential primes\<close>

lemma length_indices [simp]: "length indices = 48"
  by (simp add: indices_def)

lemma last_index: "indices ! 47 = 209"
  by (simp add: indices_def)

lemma candidate_is_wheel: "i < 48 \<Longrightarrow> wheel_number (210 * k + indices ! i)"
  using indices_range [of "indices ! i"] by (simp add: wheel_number_def)

lemma next_candidate_skips:
  assumes "i < 48" "next_candidate k i = (k', i')"
  shows "i' < 48 \<and> 210 * k + indices ! i < 210 * k' + indices ! i' \<and>
    (\<forall>m. 210 * k + indices ! i < m \<longrightarrow> m < 210 * k' + indices ! i' \<longrightarrow> \<not> wheel_number m)"
proof (cases "Suc i = 48")
  case True
  then have "k' = Suc k" "i' = 0" "i = 47" using assms(2) by (auto simp: next_candidate_def)
  moreover have "indices ! 0 = 1" by (simp add: indices_def)
  moreover have "\<not> wheel_number m" if "210 * k + 209 < m" "m < 211 + 210 * k" for m
  proof -
    from that have "m = 210 * Suc k" by simp
    then have "m mod 210 = 0" by (simp only: mod_mult_self1_is_0)
    then show ?thesis using indices_range [of 0] by (auto simp: wheel_number_def)
  qed
  ultimately show ?thesis using last_index by auto
next
  case False
  with assms have n: "k' = k" "i' = Suc i" "Suc i < 48" by (auto simp: next_candidate_def)
  have lt: "indices ! i < indices ! Suc i" using sorted_indices n(3) by (simp add: sorted_wrt_nth_less)
  have "\<not> wheel_number m" if m: "210 * k + indices ! i < m" "m < 210 * k + indices ! Suc i" for m
  proof
    assume "wheel_number m"
    have "indices ! Suc i < 210" using indices_range [of "indices ! Suc i"] n(3) by simp
    then have "m mod 210 = m - 210 * k" using m by (intro mod_nat_eqI) auto
    with \<open>wheel_number m\<close> obtain j where j: "j < 48" "indices ! j = m - 210 * k"
      by (auto simp: wheel_number_def in_set_conv_nth)
    then have "indices ! i < indices ! j" "indices ! j < indices ! Suc i" using m by auto
    then have "i < j" "j < Suc i"
      using sorted_indices j(1) n(3) by (metis length_indices linorder_neqE_nat not_less_iff_gr_or_eq order.asym sorted_wrt_nth_less Suc_lessD)+
    then show False by simp
  qed
  with n lt show ?thesis by simp
qed

lemma lower_bound_first:
  assumes "sorted_wrt (<) xs" "x \<in> set xs" "v \<le> x"
  shows "lower_bound xs v < length xs \<and> v \<le> xs ! lower_bound xs v \<and> xs ! lower_bound xs v \<le> x \<and>
    xs ! lower_bound xs v \<in> set xs"
  using assms
proof (induction xs)
  case (Cons y ys)
  show ?case
  proof (cases "y < v")
    case True
    with Cons show ?thesis by (auto simp: lower_bound_def)
  next
    case False
    with Cons.prems show ?thesis by (auto simp: lower_bound_def)
  qed
qed simp

definition least_prime_from :: "nat \<Rightarrow> nat \<Rightarrow> bool" where
  "least_prime_from n q \<longleftrightarrow> is_prime q \<and> n \<le> q \<and> (\<forall>m. n \<le> m \<longrightarrow> m < q \<longrightarrow> \<not> is_prime m)"

text \<open>With a prime ahead, the search ends at the first one.\<close>

lemma candidate_loop_finds:
  assumes "is_prime p" "p < 2 ^ 64" "210 * k + indices ! i \<le> p" "i < 48" "1 \<le> k"
  shows "\<exists>q. candidate_loop k i (210 * k + indices ! i) = Some q \<and> least_prime_from (210 * k + indices ! i) q"
  using assms(3-5)
proof (induction "p - (210 * k + indices ! i)" arbitrary: k i rule: less_induct)
  case less
  let ?n = "210 * k + indices ! i"
  have n: "211 \<le> ?n" using less.prems(2,3) indices_range [of "indices ! i"] by simp
  note test = test_candidate_correct [OF candidate_is_wheel [OF less.prems(2)] n]
  show ?case
  proof (cases "is_prime ?n")
    case True
    then show ?thesis using test by (subst candidate_loop.simps) (simp add: least_prime_from_def)
  next
    case False
    obtain k' i' where nc: "next_candidate k i = (k', i')" by (cases "next_candidate k i") auto
    let ?m = "210 * k' + indices ! i'"
    from next_candidate_skips [OF less.prems(2) nc] have s: "i' < 48" "?n < ?m"
      "\<And>m. ?n < m \<Longrightarrow> m < ?m \<Longrightarrow> \<not> wheel_number m" by blast+
    have "?n < p" using False assms(1) less.prems(1) by (cases "p = ?n") auto
    with s(3) [of p] prime_wheel_number [OF assms(1)] n have "?m \<le> p" by force
    moreover have "1 \<le> k'" using nc less.prems(3) by (auto simp: next_candidate_def split: if_splits)
    ultimately obtain q where q: "candidate_loop k' i' ?m = Some q" "least_prime_from ?m q"
      using less.hyps [of k' i'] s(1,2) \<open>?n < p\<close> by (metis diff_less_mono2)
    have "?m mod 2 ^ 64 = ?m" using \<open>?m \<le> p\<close> assms(2) by simp
    then have "candidate_loop k i ?n = Some q"
      using q(1) test False nc by (subst candidate_loop.simps) simp
    moreover have "\<not> is_prime m" if "?n \<le> m" "m < q" for m
    proof -
      consider "m = ?n" | "?n < m" "m < ?m" | "?m \<le> m" using \<open>?n \<le> m\<close> by linarith
      then show ?thesis
        using False s(3) [of m] prime_wheel_number [of m] n q(2) \<open>m < q\<close>
        by cases (auto simp: least_prime_from_def)
    qed
    ultimately show ?thesis using q(2) s(2) by (auto simp: least_prime_from_def)
  qed
qed

subsection \<open>The table\<close>

lemma small_prime_iff:
  assumes "m < 289"
  shows "is_prime m \<longleftrightarrow> 1 < m \<and> list_all (\<lambda>q. q dvd m \<longrightarrow> q = m) [2, 3, 5, 7, 11, 13]"
proof
  assume r: "1 < m \<and> list_all (\<lambda>q. q dvd m \<longrightarrow> q = m) [2, 3, 5, 7, 11, 13]"
  show "is_prime m"
  proof (rule ccontr)
    assume "\<not> is_prime m"
    with r obtain p where p: "is_prime p" "p dvd m" "p * p \<le> m" using prime_factor [of m] by blast
    have "p < 17"
    proof (rule ccontr)
      assume "\<not> p < 17"
      then have "17 * 17 \<le> p * p" by (intro mult_le_mono) simp_all
      with p(3) assms show False by simp
    qed
    moreover have "1 < p" using p(1) by (simp add: is_prime_def)
    ultimately have "p \<in> {2, 3, 4, 5, 6, 7, 8, 9, 10, 11, 12, 13, 14, 15, 16}" unfolding insert_iff empty_iff by presburger
    moreover have "\<not> 2 dvd p \<or> p = 2" "\<not> 3 dvd p \<or> p = 3" using p(1) by (auto simp: is_prime_def)
    ultimately have "p \<in> {2, 3, 5, 7, 11, 13}" by auto
    with r p(2) have "p = m" by auto
    with p(3) r show False by simp
  qed
qed (auto simp: is_prime_def)

lemma table_is_exact:
  assumes "m < 212"
  shows "m \<in> set small_primes \<longleftrightarrow> m = 0 \<or> is_prime m"
proof -
  have "list_all (\<lambda>m. m \<in> set small_primes \<longleftrightarrow> m = 0 \<or> 1 < m \<and> list_all (\<lambda>q. q dvd m \<longrightarrow> q = m) [2, 3, 5, 7, 11, 13]) [0..<212]"
  proof -
    have "[0..<212] = 0 # 1 # [2..<212]" by (simp add: upt_conv_Cons numeral_2_eq_2)
    then show ?thesis by (simp only:) (simp add: small_primes_def)
  qed
  then show ?thesis using assms small_prime_iff [of m] by (auto simp: list_all_iff)
qed

lemma sorted_small_primes: "sorted_wrt (<) small_primes"
  and last_small_prime: "last small_primes = 211" "211 \<in> set small_primes"
  by (simp_all add: small_primes_def)

lemma next_prime_correct:
  assumes "0 < n" "n \<le> 0xFFFFFFFFFFFFFFC5" "is_prime p" "n \<le> p" "p < 2 ^ 64"
  shows "\<exists>q. next_prime n = Some (Inr q) \<and> least_prime_from n q"
proof (cases "n \<le> 211")
  case True
  let ?q = "small_primes ! lower_bound small_primes n"
  note first = lower_bound_first [OF sorted_small_primes]
  from first [OF last_small_prime(2) True] have q: "n \<le> ?q" "?q \<le> 211" "?q \<in> set small_primes" by blast+
  then have "is_prime ?q" using table_is_exact [of ?q] assms(1) by simp
  moreover have "\<not> is_prime m" if "n \<le> m" "m < ?q" for m
    using first [of m n] table_is_exact [of m] that q(2) by fastforce
  ultimately have "least_prime_from n ?q" using q(1) by (simp add: least_prime_from_def)
  then show ?thesis using True by (auto simp: next_prime_def last_small_prime)
next
  case False
  define k where "k = n div 210"
  define i where "i = lower_bound indices (n - k * 210)"
  have r: "n - k * 210 = n mod 210" by (simp add: k_def minus_div_mult_eq_mod)
  have n: "n = 210 * k + n mod 210" by (simp add: k_def)
  have "209 \<in> set indices" "n mod 210 \<le> 209" by (simp_all add: indices_def)
  from lower_bound_first [OF sorted_indices this] have i: "i < 48" "n mod 210 \<le> indices ! i"
    unfolding i_def r by simp_all
  have skip: "\<not> wheel_number m" if "n \<le> m" "m < 210 * k + indices ! i" for m
  proof
    assume "wheel_number m"
    have "indices ! i < 210" using indices_range [of "indices ! i"] i(1) by simp
    then have "m mod 210 = m - 210 * k" using that n by (intro mod_nat_eqI) auto
    with \<open>wheel_number m\<close> have "m - 210 * k \<in> set indices" by (simp add: wheel_number_def)
    moreover have "n mod 210 \<le> m - 210 * k" using that(1) n by linarith
    ultimately have "indices ! i \<le> m - 210 * k"
      using lower_bound_first [OF sorted_indices, of "m - 210 * k" "n mod 210"] unfolding i_def r by blast
    then show False using that n by linarith
  qed
  have k: "1 \<le> k" using False by (simp add: k_def)
  have "7 < p" using False assms(4) by simp
  then have le: "210 * k + indices ! i \<le> p" using skip [of p] assms(3,4) prime_wheel_number by force
  from candidate_loop_finds [OF assms(3,5) le i(1) k] obtain q where
    q: "candidate_loop k i (210 * k + indices ! i) = Some q" "least_prime_from (210 * k + indices ! i) q" by blast
  have "least_prime_from n q"
    unfolding least_prime_from_def
  proof (intro conjI allI impI)
    show "is_prime q" "n \<le> q" using q(2) n i(2) by (auto simp: least_prime_from_def)
    show "\<not> is_prime m" if "n \<le> m" "m < q" for m
      using skip [of m] prime_wheel_number [of m] q(2) that False by (fastforce simp: least_prime_from_def)
  qed
  moreover have "(210 * k + indices ! i) mod 2 ^ 64 = 210 * k + indices ! i" using le assms(5) by simp
  ultimately show ?thesis using q(1) False assms(2)
    by (auto simp: next_prime_def last_small_prime check_for_overflow_def Let_def simp flip: k_def i_def)
qed

end
