(* ===== verification/Cxa_Exceptions.thy ===== *)
theory Cxa_Exceptions
  imports Wissbi_Prelude "HOL-Library.Multiset"
begin

text \<open>
  Throwing and catching, \<^verbatim>\<open>3rd_party/libcxxrt/src/exception.cc\<close>: the exception header, the per-thread
  list of caught exceptions, the handler and reference counts.

  The headers are a store from addresses to records, in which \<^verbatim>\<open>nextException\<close> links the caught ones; 0 is the null
  pointer. Freeing takes the header out of the store, and an access to an address that is not in it is
  the fault \<open>BadAccess\<close>. \<^verbatim>\<open>_Unwind_RaiseException\<close> and \<^verbatim>\<open>_Unwind_Resume_or_Rethrow\<close>, which do not return, are
  where a function ends: what is left is the state the unwinder starts from. Destructors are given by
  \<open>D\<close>, whether one called on an object returns rather than throws.

  The functions are compared with a stack of catch blocks, \<open>eh_spec\<close>: which exception is handled by which
  nested blocks, which are on their way to a handler, how many \<^verbatim>\<open>exception_ptr\<close> there are, and which objects
  were destroyed. \<open>spec_step\<close> has the order of calls that compiled code keeps to, and the relation
  \<open>represents\<close> is shown to be kept by every call.
\<close>

subsection \<open>The exception header and the state of a thread\<close>

datatype halt = Terminated | AssertionFailed | BadAccess

datatype foreign_state = no_foreign | caught | rethrown

definition EXCEPTION_CLASS :: "char list \<Rightarrow> u64" where
  "EXCEPTION_CLASS cs = foldl (\<lambda>w c. push_bit 8 w + of_char c) 0 cs"

definition exception_class :: u64 where
  "exception_class = EXCEPTION_CLASS [CHR ''G'', CHR ''N'', CHR ''U'', CHR ''C'', CHR ''C'', CHR ''+'', CHR ''+'', CHR 0x00]"

definition dependent_exception_class :: u64 where
  "dependent_exception_class =
     EXCEPTION_CLASS [CHR ''G'', CHR ''N'', CHR ''U'', CHR ''C'', CHR ''C'', CHR ''+'', CHR ''+'', CHR 0x01]"

definition isDependentException :: "u64 \<Rightarrow> bool" where
  "isDependentException cls \<longleftrightarrow> cls = dependent_exception_class"

definition isCXXException :: "u64 \<Rightarrow> bool" where
  "isCXXException cls \<longleftrightarrow> cls = exception_class \<or> cls = dependent_exception_class"

lemma classes_differ [simp]: "exception_class \<noteq> dependent_exception_class"
  by (simp add: exception_class_def dependent_exception_class_def EXCEPTION_CLASS_def)

record cxa_exception =
  referenceCount :: u64
  primaryException :: nat
  exceptionType :: nat
  exceptionDestructor :: nat
  ex_unexpectedHandler :: nat
  ex_terminateHandler :: nat
  nextException :: nat
  handlerCount :: int
  handlerSwitchValue :: int
  actionRecord :: nat
  languageSpecificData :: nat
  catchTemp :: nat
  adjustedPtr :: nat
  unwind_class :: u64

record cxa_state =
  store :: "nat \<Rightarrow> cxa_exception option"
  caughtExceptions :: nat
  uncaughtExceptions :: u32
  foreign_exception_state :: foreign_state
  ti_unexpectedHandler :: nat
  ti_terminateHandler :: nat
  unexpectedHandler :: nat
  terminateHandler :: nat
  destroyed :: "nat list"

type_synonym 'a cxa_result = "halt + 'a \<times> cxa_state"

definition at :: "nat \<Rightarrow> cxa_state \<Rightarrow> (cxa_exception \<Rightarrow> 'a cxa_result) \<Rightarrow> 'a cxa_result" where
  "at e s f = (case store s e of None \<Rightarrow> Inl BadAccess | Some x \<Rightarrow> f x)"

definition set_ex :: "nat \<Rightarrow> cxa_exception \<Rightarrow> cxa_state \<Rightarrow> cxa_state" where
  "set_ex e x s = s\<lparr>store := (store s)(e := Some x)\<rparr>"

lemma at_Some [simp]: "store s e = Some x \<Longrightarrow> at e s f = f x"
  by (simp add: at_def)

lemma set_ex_fields [simp]:
  "store (set_ex e x s) = (store s)(e := Some x)" "caughtExceptions (set_ex e x s) = caughtExceptions s"
  "uncaughtExceptions (set_ex e x s) = uncaughtExceptions s" "destroyed (set_ex e x s) = destroyed s"
  "foreign_exception_state (set_ex e x s) = foreign_exception_state s"
  by (simp_all add: set_ex_def)

subsection \<open>Freeing\<close>

text \<open>
  The last call of the function, \<^verbatim>\<open>free_exception\<close>, gives the memory back, which here takes the object out of the
  store. That is all it does for a block of the heap and for the emergency buffers but the first; which of
  these a block is, is the subject of \<open>Cxa_Alloc\<close>, with the fault that \<^verbatim>\<open>free_exception\<close> is for an exception in
  the first buffer. So this theory is about exceptions that are not in that buffer.
\<close>

definition cxa_free_exception :: "(nat \<Rightarrow> nat \<Rightarrow> bool) \<Rightarrow> nat \<Rightarrow> cxa_state \<Rightarrow> unit cxa_result" where
  "cxa_free_exception D e s =
     at e s (\<lambda>x.
       if exceptionDestructor x \<noteq> 0 \<and> \<not> D (exceptionDestructor x) e then Inl Terminated
       else Inr ((), s\<lparr>store := (store s)(e := None), destroyed := destroyed s @ [e]\<rparr>))"

text \<open>\<^verbatim>\<open>releaseException\<close> and \<^verbatim>\<open>__cxa_free_dependent_exception\<close> call each other once: a primary is not dependent.\<close>

definition release_primary :: "(nat \<Rightarrow> nat \<Rightarrow> bool) \<Rightarrow> nat \<Rightarrow> cxa_state \<Rightarrow> unit cxa_result" where
  "release_primary D e s =
     at e s (\<lambda>x.
       let n = referenceCount x - 1; s' = set_ex e (x\<lparr>referenceCount := n\<rparr>) s in
       if n = 0 then cxa_free_exception D e s' else Inr ((), s'))"

definition cxa_free_dependent_exception :: "(nat \<Rightarrow> nat \<Rightarrow> bool) \<Rightarrow> nat \<Rightarrow> cxa_state \<Rightarrow> unit cxa_result" where
  "cxa_free_dependent_exception D e s =
     at e s (\<lambda>x.
       if \<not> isDependentException (unwind_class x) then Inl AssertionFailed
       else if primaryException x \<noteq> 0 then
         (case release_primary D (primaryException x) s of
            Inl h \<Rightarrow> Inl h | Inr (_, s') \<Rightarrow> Inr ((), s'\<lparr>store := (store s')(e := None)\<rparr>))
       else Inr ((), s\<lparr>store := (store s)(e := None)\<rparr>))"

definition releaseException :: "(nat \<Rightarrow> nat \<Rightarrow> bool) \<Rightarrow> nat \<Rightarrow> cxa_state \<Rightarrow> unit cxa_result" where
  "releaseException D e s =
     at e s (\<lambda>x.
       if isDependentException (unwind_class x) then cxa_free_dependent_exception D e s
       else release_primary D e s)"

subsection \<open>Throwing\<close>

text \<open>
  \<^verbatim>\<open>__cxa_throw\<close> up to the call of the unwinder. The header, allocated before with zeroes, is given by its
  address.
\<close>

definition throw_exception :: "nat \<Rightarrow> cxa_state \<Rightarrow> unit cxa_result" where
  "throw_exception e s =
     at e s (\<lambda>x.
       let u = (if ti_unexpectedHandler s = 0 then unexpectedHandler s else ti_unexpectedHandler s);
           t = (if ti_terminateHandler s = 0 then terminateHandler s else ti_terminateHandler s) in
       Inr ((), (set_ex e (x\<lparr>ex_unexpectedHandler := u, ex_terminateHandler := t\<rparr>) s)
         \<lparr>uncaughtExceptions := uncaughtExceptions s + 1\<rparr>))"

definition cxa_throw :: "nat \<Rightarrow> nat \<Rightarrow> nat \<Rightarrow> cxa_state \<Rightarrow> unit cxa_result" where
  "cxa_throw e tinfo dest s =
     at e s (\<lambda>x.
       throw_exception e (set_ex e (x\<lparr>referenceCount := 1, exceptionType := tinfo, exceptionDestructor := dest,
         unwind_class := exception_class\<rparr>) s))"

definition cxa_rethrow :: "cxa_state \<Rightarrow> unit cxa_result" where
  "cxa_rethrow s =
     (let e = caughtExceptions s in
      if e = 0 then Inl Terminated
      else if foreign_exception_state s \<noteq> no_foreign then Inr ((), s\<lparr>foreign_exception_state := rethrown\<rparr>)
      else at e s (\<lambda>x.
        if \<not> 0 < handlerCount x then Inl AssertionFailed
        else Inr ((), set_ex e (x\<lparr>handlerCount := - handlerCount x\<rparr>) s)))"

subsection \<open>Catching\<close>

text \<open>
  \<^verbatim>\<open>__cxa_begin_catch\<close>. A foreign exception is one whose header is not in the store: the address is that
  of its \<^verbatim>\<open>_Unwind_Exception\<close>, of 32 bytes.
\<close>

definition cxa_begin_catch :: "nat \<Rightarrow> cxa_state \<Rightarrow> nat cxa_result" where
  "cxa_begin_catch e s0 =
     (let s = s0\<lparr>uncaughtExceptions := uncaughtExceptions s0 - 1\<rparr> in
      case store s e of
        Some x \<Rightarrow>
          if isCXXException (unwind_class x) then
            let (next, head) = (if handlerCount x = 0 then (caughtExceptions s, e)
                                else (nextException x, caughtExceptions s));
                n = (if handlerCount x < 0 then - handlerCount x + 1 else handlerCount x + 1) in
            Inr (adjustedPtr x,
              (set_ex e (x\<lparr>nextException := next, handlerCount := n\<rparr>) s)
                \<lparr>caughtExceptions := head, foreign_exception_state := no_foreign\<rparr>)
          else if caughtExceptions s \<noteq> 0 then Inl Terminated
          else Inr (e + 32, s\<lparr>caughtExceptions := e, foreign_exception_state := caught\<rparr>)
      | None \<Rightarrow>
          if caughtExceptions s \<noteq> 0 then Inl Terminated
          else Inr (e + 32, s\<lparr>caughtExceptions := e, foreign_exception_state := caught\<rparr>))"

text \<open>
  \<^verbatim>\<open>__cxa_end_catch\<close>. For a foreign exception that was not rethrown the code clears
  \<^verbatim>\<open>caughtExceptions\<close> and then calls the cleanup through it.
\<close>

definition cxa_end_catch :: "(nat \<Rightarrow> nat \<Rightarrow> bool) \<Rightarrow> cxa_state \<Rightarrow> unit cxa_result" where
  "cxa_end_catch D s =
     (let e = caughtExceptions s in
      if e = 0 then Inl AssertionFailed
      else if foreign_exception_state s \<noteq> no_foreign then
        if foreign_exception_state s \<noteq> rethrown then Inl BadAccess
        else Inr ((), s\<lparr>caughtExceptions := 0, foreign_exception_state := no_foreign\<rparr>)
      else at e s (\<lambda>x.
        let deleteException = (\<not> handlerCount x < 0);
            n = (if handlerCount x < 0 then handlerCount x + 1 else handlerCount x - 1);
            s1 = set_ex e (x\<lparr>handlerCount := n\<rparr>) s in
        if n = 0 then
          let s2 = s1\<lparr>caughtExceptions := nextException x\<rparr> in
          if deleteException then releaseException D e s2 else Inr ((), s2)
        else Inr ((), s1)))"

subsection \<open>Pointers to exceptions\<close>

definition cxa_current_primary_exception :: "cxa_state \<Rightarrow> nat cxa_result" where
  "cxa_current_primary_exception s =
     (let e = caughtExceptions s in
      if e = 0 then Inr (0, s)
      else at e s (\<lambda>x.
        let e' = (if isDependentException (unwind_class x) then primaryException x else e) in
        at e' s (\<lambda>y. Inr (e', set_ex e' (y\<lparr>referenceCount := referenceCount y + 1\<rparr>) s))))"

definition cxa_increment_exception_refcount :: "nat \<Rightarrow> cxa_state \<Rightarrow> unit cxa_result" where
  "cxa_increment_exception_refcount e s =
     (if e = 0 then Inr ((), s)
      else at e s (\<lambda>x.
        if isDependentException (unwind_class x) then Inr ((), s)
        else Inr ((), set_ex e (x\<lparr>referenceCount := referenceCount x + 1\<rparr>) s)))"

definition cxa_decrement_exception_refcount :: "(nat \<Rightarrow> nat \<Rightarrow> bool) \<Rightarrow> nat \<Rightarrow> cxa_state \<Rightarrow> unit cxa_result" where
  "cxa_decrement_exception_refcount D e s = (if e = 0 then Inr ((), s) else releaseException D e s)"

definition uncaught_exception :: "cxa_state \<Rightarrow> bool" where
  "uncaught_exception s \<longleftrightarrow> uncaughtExceptions s \<noteq> 0"

definition cxa_current_exception_type :: "cxa_state \<Rightarrow> nat cxa_result" where
  "cxa_current_exception_type s =
     (let e = caughtExceptions s in if e = 0 then Inr (0, s) else at e s (\<lambda>x. Inr (exceptionType x, s)))"

subsection \<open>Calls in the order compiled code makes them\<close>

datatype eh_event =
    Throw nat nat nat
  | Catch nat
  | End
  | Rethrow
  | Current
  | Copy nat
  | Drop nat

text \<open>\<^verbatim>\<open>__cxa_allocate_exception\<close> gives a header of zeroes at an address not in use.\<close>

definition zero_header :: cxa_exception where
  "zero_header = \<lparr>referenceCount = 0, primaryException = 0, exceptionType = 0, exceptionDestructor = 0,
     ex_unexpectedHandler = 0, ex_terminateHandler = 0, nextException = 0, handlerCount = 0,
     handlerSwitchValue = 0, actionRecord = 0, languageSpecificData = 0, catchTemp = 0, adjustedPtr = 0, unwind_class = 0\<rparr>"

fun eh_call :: "(nat \<Rightarrow> nat \<Rightarrow> bool) \<Rightarrow> eh_event \<Rightarrow> cxa_state \<Rightarrow> halt + cxa_state" where
  "eh_call D (Throw e t d) s = map_sum id snd (cxa_throw e t d (set_ex e zero_header s))"
| "eh_call D (Catch e) s = map_sum id snd (cxa_begin_catch e s)"
| "eh_call D End s = map_sum id snd (cxa_end_catch D s)"
| "eh_call D Rethrow s = map_sum id snd (cxa_rethrow s)"
| "eh_call D Current s = map_sum id snd (cxa_current_primary_exception s)"
| "eh_call D (Copy e) s = map_sum id snd (cxa_increment_exception_refcount e s)"
| "eh_call D (Drop e) s = map_sum id snd (cxa_decrement_exception_refcount D e s)"

fun eh_calls :: "(nat \<Rightarrow> nat \<Rightarrow> bool) \<Rightarrow> eh_event list \<Rightarrow> cxa_state \<Rightarrow> halt + cxa_state" where
  "eh_calls D [] s = Inr s"
| "eh_calls D (ev # evs) s = (case eh_call D ev s of Inl h \<Rightarrow> Inl h | Inr s' \<Rightarrow> eh_calls D evs s')"

subsection \<open>Nested catch blocks\<close>

text \<open>
  \<open>blocks\<close> are the catch blocks being executed, innermost first, those in a row for the same exception
  counted, with a flag for an exception rethrown out of them; \<open>inflight\<close> the exceptions on their way to a
  handler; \<open>ptrs\<close> the \<^verbatim>\<open>exception_ptr\<close> held; \<open>gone\<close> the objects destroyed, in order.
\<close>

record eh_spec =
  blocks :: "(nat \<times> nat \<times> bool) list"
  inflight :: "nat list"
  ptrs :: "nat multiset"
  gone :: "nat list"
  rethrows :: nat

definition live :: "eh_spec \<Rightarrow> nat \<Rightarrow> bool" where
  "live a e \<longleftrightarrow> e \<in> set (inflight a) \<or> e \<in> fst ` set (blocks a)"

definition drop_ref :: "nat \<Rightarrow> eh_spec \<Rightarrow> eh_spec" where
  "drop_ref e a = (if live a e \<or> e \<in># ptrs a then a else a\<lparr>gone := gone a @ [e]\<rparr>)"

definition may_add :: "eh_spec \<Rightarrow> bool" where
  "may_add a \<longleftrightarrow> size (ptrs a) + 2 < 2 ^ 64"

fun spec_step :: "eh_event \<Rightarrow> eh_spec \<Rightarrow> eh_spec option" where
  "spec_step (Throw e t d) a =
     (if e = 0 \<or> live a e \<or> e \<in># ptrs a then None else Some (a\<lparr>inflight := e # inflight a\<rparr>))"
| "spec_step (Catch e) a =
     (case inflight a of
        [] \<Rightarrow> None
      | i # is \<Rightarrow>
          if i \<noteq> e then None
          else (case blocks a of
              (e', n, True) # bs \<Rightarrow>
                if e' = e then Some (a\<lparr>inflight := is, blocks := (e, n + 1, False) # bs\<rparr>)
                else if e \<in> fst ` set bs then None
                else Some (a\<lparr>inflight := is, blocks := (e, 1, False) # blocks a\<rparr>)
            | _ \<Rightarrow>
                if e \<in> fst ` set (blocks a) then None
                else Some (a\<lparr>inflight := is, blocks := (e, 1, False) # blocks a\<rparr>)))"
| "spec_step End a =
     (case blocks a of
        [] \<Rightarrow> None
      | (e, n, r) # bs \<Rightarrow>
          if n \<noteq> 1 then Some (a\<lparr>blocks := (e, n - 1, r) # bs\<rparr>)
          else if r then Some (a\<lparr>blocks := bs\<rparr>)
          else Some (drop_ref e (a\<lparr>blocks := bs\<rparr>)))"
| "spec_step Rethrow a =
     (case blocks a of
        (e, n, False) # bs \<Rightarrow>
          Some (a\<lparr>blocks := (e, n, True) # bs, inflight := e # inflight a, rethrows := rethrows a + 1\<rparr>)
      | _ \<Rightarrow> None)"
| "spec_step Current a =
     (case blocks a of
        [] \<Rightarrow> None
      | (e, n, r) # bs \<Rightarrow> if may_add a then Some (a\<lparr>ptrs := add_mset e (ptrs a)\<rparr>) else None)"
| "spec_step (Copy e) a =
     (if e \<in># ptrs a \<and> may_add a then Some (a\<lparr>ptrs := add_mset e (ptrs a)\<rparr>) else None)"
| "spec_step (Drop e) a =
     (if e \<in># ptrs a then Some (drop_ref e (a\<lparr>ptrs := ptrs a - {#e#}\<rparr>)) else None)"

fun spec_run :: "eh_event list \<Rightarrow> eh_spec \<Rightarrow> eh_spec option" where
  "spec_run [] a = Some a"
| "spec_run (ev # evs) a = (case spec_step ev a of None \<Rightarrow> None | Some a' \<Rightarrow> spec_run evs a')"

definition quiet :: eh_spec where
  "quiet = \<lparr>blocks = [], inflight = [], ptrs = {#}, gone = [], rethrows = 0\<rparr>"

text \<open>A thread that has thrown nothing yet, with any handlers set.\<close>

definition fresh_thread :: "nat \<Rightarrow> nat \<Rightarrow> nat \<Rightarrow> nat \<Rightarrow> cxa_state" where
  "fresh_thread tu tt u t = \<lparr>store = (\<lambda>_. None), caughtExceptions = 0, uncaughtExceptions = 0,
     foreign_exception_state = no_foreign, ti_unexpectedHandler = tu, ti_terminateHandler = tt,
     unexpectedHandler = u, terminateHandler = t, destroyed = []\<rparr>"

subsection \<open>The relation\<close>

text \<open>The list of caught exceptions is the list of the blocks, with their counts.\<close>

fun linked :: "(nat \<Rightarrow> cxa_exception option) \<Rightarrow> nat \<Rightarrow> (nat \<times> nat \<times> bool) list \<Rightarrow> bool" where
  "linked \<sigma> h [] \<longleftrightarrow> h = 0"
| "linked \<sigma> h ((e, n, r) # bs) \<longleftrightarrow>
     h = e \<and> e \<noteq> 0 \<and> 0 < n \<and>
     (case \<sigma> e of None \<Rightarrow> False
      | Some x \<Rightarrow> handlerCount x = (if r then - int n else int n) \<and> linked \<sigma> (nextException x) bs)"

definition header_ok :: "eh_spec \<Rightarrow> nat \<Rightarrow> cxa_exception \<Rightarrow> bool" where
  "header_ok a e x \<longleftrightarrow> unwind_class x = exception_class \<and>
     referenceCount x = of_nat (count (ptrs a) e + (if live a e then 1 else 0)) \<and>
     (e \<notin> fst ` set (blocks a) \<longrightarrow> handlerCount x = 0)"

definition wf_spec :: "eh_spec \<Rightarrow> bool" where
  "wf_spec a \<longleftrightarrow> distinct (map fst (blocks a)) \<and> distinct (inflight a) \<and>
     (\<forall>(e, n, r) \<in> set (blocks a). r \<longleftrightarrow> e \<in> set (inflight a)) \<and> size (ptrs a) + 1 < 2 ^ 64 \<and> \<not> live a 0 \<and> 0 \<notin># ptrs a"

definition represents :: "eh_spec \<Rightarrow> cxa_state \<Rightarrow> bool" where
  "represents a s \<longleftrightarrow> wf_spec a \<and> linked (store s) (caughtExceptions s) (blocks a) \<and>
     (\<forall>e. case store s e of None \<Rightarrow> \<not> live a e \<and> e \<notin># ptrs a
          | Some x \<Rightarrow> (live a e \<or> e \<in># ptrs a) \<and> header_ok a e x) \<and>
     foreign_exception_state s = no_foreign \<and> destroyed s = gone a \<and>
     uncaughtExceptions s = of_nat (length (inflight a)) - of_nat (rethrows a)"

lemma linked_frame [simp]: "e \<notin> fst ` set bs \<Longrightarrow> linked (\<sigma>(e := v)) h bs \<longleftrightarrow> linked \<sigma> h bs"
  by (induction bs arbitrary: h) (auto split: option.splits)

lemma represents_fresh: "represents quiet (fresh_thread tu tt u t)"
  by (simp add: represents_def quiet_def fresh_thread_def wf_spec_def live_def)

lemma stored:
  assumes "represents a s" "live a e \<or> e \<in># ptrs a"
  obtains x where "store s e = Some x" "header_ok a e x"
proof -
  from assms(1) have "case store s e of None \<Rightarrow> \<not> live a e \<and> e \<notin># ptrs a
      | Some x \<Rightarrow> (live a e \<or> e \<in># ptrs a) \<and> header_ok a e x"
    unfolding represents_def by blast
  with assms(2) that show ?thesis by (cases "store s e") auto
qed

text \<open>A call that changes the header at \<open>e\<close> only has to be looked at there.\<close>

lemma represents_update:
  assumes "represents a s" "store s' = (store s)(e := v)" "wf_spec a'"
    "linked (store s') (caughtExceptions s') (blocks a')"
    "case v of None \<Rightarrow> \<not> live a' e \<and> e \<notin># ptrs a' | Some x \<Rightarrow> (live a' e \<or> e \<in># ptrs a') \<and> header_ok a' e x"
    "\<And>i. i \<noteq> e \<Longrightarrow> live a' i = live a i \<and> count (ptrs a') i = count (ptrs a) i \<and>
       (i \<in> fst ` set (blocks a') \<longleftrightarrow> i \<in> fst ` set (blocks a))"
    "foreign_exception_state s' = no_foreign" "destroyed s' = gone a'"
    "uncaughtExceptions s' = of_nat (length (inflight a')) - of_nat (rethrows a')"
  shows "represents a' s'"
proof -
  have "case store s' i of None \<Rightarrow> \<not> live a' i \<and> i \<notin># ptrs a'
      | Some x \<Rightarrow> (live a' i \<or> i \<in># ptrs a') \<and> header_ok a' i x" for i
  proof (cases "i = e")
    case True
    show ?thesis unfolding True using assms(2,5) by simp
  next
    case False
    from assms(1) have "case store s i of None \<Rightarrow> \<not> live a i \<and> i \<notin># ptrs a
        | Some x \<Rightarrow> (live a i \<or> i \<in># ptrs a) \<and> header_ok a i x"
      unfolding represents_def by blast
    with False assms(2) assms(6) [OF False] show ?thesis
      by (auto simp: header_ok_def simp flip: count_greater_zero_iff split: option.splits)
  qed
  then show ?thesis using assms unfolding represents_def by blast
qed

lemma linked_same:
  assumes "\<sigma> e = Some x" "handlerCount y = handlerCount x" "nextException y = nextException x"
  shows "linked (\<sigma>(e := Some y)) h bs \<longleftrightarrow> linked \<sigma> h bs"
proof (induction bs arbitrary: h)
  case (Cons c bs)
  then show ?case using assms by (cases c; cases "fst c = e") (simp_all split: option.split)
qed simp

lemma representsD:
  assumes "represents a s"
  shows "wf_spec a" "linked (store s) (caughtExceptions s) (blocks a)" "foreign_exception_state s = no_foreign"
    "destroyed s = gone a" "uncaughtExceptions s = of_nat (length (inflight a)) - of_nat (rethrows a)"
  using assms by (auto simp: represents_def)

text \<open>The innermost block is at the head of the list.\<close>

lemma head_block:
  assumes "represents a s" "blocks a = (e, n, r) # bs"
  obtains x where "caughtExceptions s = e" "e \<noteq> 0" "0 < n" "store s e = Some x" "header_ok a e x"
    "handlerCount x = (if r then - int n else int n)" "linked (store s) (nextException x) bs"
proof -
  obtain x where "store s e = Some x" "header_ok a e x"
    by (rule stored [OF assms(1)]) (auto simp: assms(2) live_def)
  with representsD(2) [OF assms(1)] assms(2) that show ?thesis by auto
qed

lemma throw_simulates:
  assumes "represents a s" "spec_step (Throw e t d) a = Some a'"
  shows "\<exists>s'. eh_call D (Throw e t d) s = Inr s' \<and> represents a' s'"
proof -
  note R = representsD [OF assms(1)]
  have e: "e \<noteq> 0" "\<not> live a e" "e \<notin># ptrs a" and a': "a' = a\<lparr>inflight := e # inflight a\<rparr>"
    using assms(2) by (auto split: if_splits)
  define s' where "s' = snd (projr (cxa_throw e t d (set_ex e zero_header s)))"
  have s': "cxa_throw e t d (set_ex e zero_header s) = Inr ((), s')"
    by (simp add: s'_def cxa_throw_def throw_exception_def Let_def)
  have "represents a' s'"
  proof (rule represents_update [OF assms(1), where e = e])
    show "store s' = (store s)(e := store s' e)"
      by (simp add: s'_def cxa_throw_def throw_exception_def Let_def fun_eq_iff)
    show "wf_spec a'" using R(1) e by (force simp: wf_spec_def a' live_def)
    show "linked (store s') (caughtExceptions s') (blocks a')"
      using R(2) e by (simp add: s'_def cxa_throw_def throw_exception_def Let_def a' live_def)
    show "case store s' e of None \<Rightarrow> \<not> live a' e \<and> e \<notin># ptrs a'
        | Some x \<Rightarrow> (live a' e \<or> e \<in># ptrs a') \<and> header_ok a' e x"
      using e by (simp add: s'_def cxa_throw_def throw_exception_def Let_def a' live_def header_ok_def zero_header_def
          not_in_iff)
  qed (use R in \<open>auto simp: s'_def cxa_throw_def throw_exception_def Let_def a' live_def\<close>)
  with s' show ?thesis by simp
qed

lemma rethrow_simulates:
  assumes "represents a s" "spec_step Rethrow a = Some a'"
  shows "\<exists>s'. eh_call D Rethrow s = Inr s' \<and> represents a' s'"
proof -
  note R = representsD [OF assms(1)]
  obtain e n bs where b: "blocks a = (e, n, False) # bs"
    and a': "a' = a\<lparr>blocks := (e, n, True) # bs, inflight := e # inflight a, rethrows := rethrows a + 1\<rparr>"
    using assms(2) by (auto split: list.splits bool.splits)
  obtain x where x: "caughtExceptions s = e" "e \<noteq> 0" "0 < n" "store s e = Some x" "header_ok a e x"
      "handlerCount x = int n" "linked (store s) (nextException x) bs"
    by (rule head_block [OF assms(1) b]) simp
  define s' where "s' = set_ex e (x\<lparr>handlerCount := - handlerCount x\<rparr>) s"
  have bs: "e \<notin> fst ` set bs" using R(1) b by (auto simp: wf_spec_def)
  have "represents a' s'"
  proof (rule represents_update [OF assms(1), where e = e and v = "Some (x\<lparr>handlerCount := - handlerCount x\<rparr>)"])
    show "wf_spec a'" using R(1) bs x(2) b by (force simp: wf_spec_def a' live_def)
  qed (use R x b bs in \<open>auto simp: s'_def a' live_def header_ok_def\<close>)
  moreover have "cxa_rethrow s = Inr ((), s')" using x R by (simp add: cxa_rethrow_def s'_def)
  ultimately show ?thesis by simp
qed

lemma catch_simulates:
  assumes "represents a s" "spec_step (Catch e) a = Some a'"
  shows "\<exists>s'. eh_call D (Catch e) s = Inr s' \<and> represents a' s'"
proof -
  note R = representsD [OF assms(1)]
  obtain rest where i: "inflight a = e # rest" using assms(2) by (auto split: list.splits if_splits)
  have i': "e \<notin> set rest" using R(1) i by (simp add: wf_spec_def)
  obtain x where x: "store s e = Some x" "header_ok a e x"
    by (rule stored [OF assms(1), of e]) (simp add: live_def i)
  have cls: "isCXXException (unwind_class x)" using x(2) by (simp add: header_ok_def isCXXException_def)
  have e: "e \<noteq> 0" using R(1) i by (auto simp: wf_spec_def live_def)
  show ?thesis
  proof (cases "e \<in> fst ` set (blocks a)")
    case True
    obtain n bs where b: "blocks a = (e, n, True) # bs"
      and a': "a' = a\<lparr>inflight := rest, blocks := (e, n + 1, False) # bs\<rparr>"
      using assms(2) True i by (auto split: list.splits if_splits bool.splits)
    have h: "caughtExceptions s = e" "0 < n" "handlerCount x = - int n" "linked (store s) (nextException x) bs"
      using R(2) b x by auto
    have bs: "e \<notin> fst ` set bs" using R(1) b by (auto simp: wf_spec_def)
    define s' where "s' = (set_ex e (x\<lparr>handlerCount := int n + 1\<rparr>) (s\<lparr>uncaughtExceptions := uncaughtExceptions s - 1\<rparr>))
      \<lparr>caughtExceptions := e, foreign_exception_state := no_foreign\<rparr>"
    have "cxa_begin_catch e s = Inr (adjustedPtr x, s')"
      using x h cls by (simp add: cxa_begin_catch_def s'_def)
    moreover have "represents a' s'"
    proof (rule represents_update [OF assms(1), where e = e and v = "Some (x\<lparr>handlerCount := int n + 1\<rparr>)"])
      show "wf_spec a'" using R(1) b i i' bs by (force simp: wf_spec_def a' live_def)
    qed (use R x h b i i' e bs in \<open>auto simp: s'_def a' live_def header_ok_def\<close>)
    ultimately show ?thesis by simp
  next
    case False
    then have a': "a' = a\<lparr>inflight := rest, blocks := (e, 1, False) # blocks a\<rparr>"
      using assms(2) i by (auto split: list.splits if_splits bool.splits)
    have h: "handlerCount x = 0" using x(2) False by (simp add: header_ok_def)
    define x' where "x' = x\<lparr>nextException := caughtExceptions s, handlerCount := 1\<rparr>"
    define s' where "s' = (set_ex e x' (s\<lparr>uncaughtExceptions := uncaughtExceptions s - 1\<rparr>))
      \<lparr>caughtExceptions := e, foreign_exception_state := no_foreign\<rparr>"
    have "cxa_begin_catch e s = Inr (adjustedPtr x, s')"
      using x h cls by (simp add: cxa_begin_catch_def s'_def x'_def)
    moreover have "represents a' s'"
    proof (rule represents_update [OF assms(1), where e = e and v = "Some x'"])
      show "wf_spec a'" using R(1) i i' False by (force simp: wf_spec_def a' live_def)
    qed (use R x h i i' e False in \<open>auto simp: s'_def x'_def a' live_def header_ok_def\<close>)
    ultimately show ?thesis by simp
  qed
qed

text \<open>Giving up a reference: the header is freed with the last one.\<close>

definition less_one :: "nat \<Rightarrow> nat \<Rightarrow> cxa_exception \<Rightarrow> cxa_state \<Rightarrow> cxa_state" where
  "less_one k e x s = s\<lparr>store := (store s)(e := if k = 0 then None else Some (x\<lparr>referenceCount := of_nat k\<rparr>))\<rparr>"

lemma represents_gone: "represents a s \<Longrightarrow> represents (a\<lparr>gone := g\<rparr>) (s\<lparr>destroyed := g\<rparr>)"
  by (simp add: represents_def wf_spec_def live_def header_ok_def cong: option.case_cong)

lemma less_one_ok:
  assumes "k = count (ptrs a) e + (if live a e then 1 else 0)" "unwind_class x = exception_class"
    "e \<notin> fst ` set (blocks a) \<Longrightarrow> handlerCount x = 0"
  shows "case if k = 0 then None else Some (x\<lparr>referenceCount := of_nat k\<rparr>) of
    None \<Rightarrow> \<not> live a e \<and> e \<notin># ptrs a | Some x \<Rightarrow> (live a e \<or> e \<in># ptrs a) \<and> header_ok a e x"
proof (cases "k = 0")
  case True
  then show ?thesis using assms(1) by (simp add: not_in_iff split: if_splits)
next
  case False
  moreover have "live a e \<or> e \<in># ptrs a" using False assms(1) by (metis add_0 count_eq_zero_iff)
  ultimately show ?thesis using assms by (simp add: header_ok_def count_eq_zero_iff)
qed

lemma release_simulates:
  assumes "\<forall>d i. D d i" "store s e = Some x" "unwind_class x = exception_class"
    "k = count (ptrs a) e + (if live a e then 1 else 0)" "referenceCount x = of_nat (k + 1)"
    "represents a (less_one k e x s)"
  shows "\<exists>s'. releaseException D e s = Inr ((), s') \<and> represents (drop_ref e a) s'"
proof -
  have "size (ptrs a) + 1 < 2 ^ 64" using representsD(1) [OF assms(6)] by (simp add: wf_spec_def)
  moreover have "count (ptrs a) e \<le> size (ptrs a)" by (rule count_le_size)
  ultimately have k: "k < 2 ^ 64" using assms(4) by (auto split: if_splits)
  have ref: "referenceCount x - 1 = of_nat k" using assms(5) by simp
  have "unat (of_nat k :: u64) = k" using k by (simp add: unat_of_nat)
  then have zero: "(of_nat k :: u64) = 0 \<longleftrightarrow> k = 0" by auto
  have "\<not> isDependentException (unwind_class x)" using assms(3) by (simp add: isDependentException_def)
  then have r: "releaseException D e s = release_primary D e s" using assms(2) by (simp add: releaseException_def)
  show ?thesis
  proof (cases "k = 0")
    case True
    then have "\<not> live a e" "e \<notin># ptrs a" using assms(4) by (simp_all add: not_in_iff split: if_splits)
    then have "drop_ref e a = a\<lparr>gone := gone a @ [e]\<rparr>" by (simp add: drop_ref_def)
    moreover have "release_primary D e s = Inr ((), (less_one k e x s)\<lparr>destroyed := gone a @ [e]\<rparr>)"
      using True assms(1,2) ref representsD(4) [OF assms(6)]
      by (simp add: release_primary_def cxa_free_exception_def less_one_def set_ex_def)
    ultimately show ?thesis using represents_gone [OF assms(6)] r by auto
  next
    case False
    then have "live a e \<or> e \<in># ptrs a" using assms(4) by (metis add_0 count_eq_zero_iff)
    then have "drop_ref e a = a" by (simp add: drop_ref_def)
    moreover have "release_primary D e s = Inr ((), less_one k e x s)"
      using False assms(2) ref zero unfolding release_primary_def at_Some [OF assms(2)] Let_def ref
      by (simp add: less_one_def set_ex_def)
    ultimately show ?thesis using assms(6) r by auto
  qed
qed

lemma drop_simulates:
  assumes "\<forall>d i. D d i" "represents a s" "spec_step (Drop e) a = Some a'"
  shows "\<exists>s'. eh_call D (Drop e) s = Inr s' \<and> represents a' s'"
proof -
  note R = representsD [OF assms(2)]
  have m: "e \<in># ptrs a" and a': "a' = drop_ref e (a\<lparr>ptrs := ptrs a - {#e#}\<rparr>)"
    using assms(3) by (auto split: if_splits)
  obtain x where x: "store s e = Some x" "header_ok a e x"
    by (rule stored [OF assms(2), of e]) (simp add: m)
  define b where "b = a\<lparr>ptrs := ptrs a - {#e#}\<rparr>"
  define k where "k = count (ptrs b) e + (if live b e then 1 else 0)"
  have l: "live b = live a" by (simp add: b_def live_def fun_eq_iff)
  have e: "e \<noteq> 0" using R(1) m unfolding wf_spec_def by metis
  have "count (ptrs a) e = count (ptrs b) e + 1" using m by (simp add: b_def)
  then have ref: "referenceCount x = of_nat (k + 1)" using x(2) by (simp add: header_ok_def k_def l)
  have "represents b (less_one k e x s)"
  proof (rule represents_update [OF assms(2), where e = e])
    show "store (less_one k e x s) = (store s)(e := if k = 0 then None else Some (x\<lparr>referenceCount := of_nat k\<rparr>))"
      by (simp add: less_one_def)
    show "wf_spec b" using R(1) size_Diff1_le [of "ptrs a" e] in_diffD [of 0 "ptrs a" "{#e#}"]
      by (auto simp: wf_spec_def b_def live_def)
    show "linked (store (less_one k e x s)) (caughtExceptions (less_one k e x s)) (blocks b)"
    proof (cases "e \<in> fst ` set (blocks a)")
      case True
      then have "k \<noteq> 0" by (simp add: k_def l live_def)
      then show ?thesis using R(2) x(1) by (simp add: b_def less_one_def linked_same)
    next
      case False
      then show ?thesis using R(2) by (simp add: b_def less_one_def)
    qed
    show "case if k = 0 then None else Some (x\<lparr>referenceCount := of_nat k\<rparr>) of
        None \<Rightarrow> \<not> live b e \<and> e \<notin># ptrs b | Some x \<Rightarrow> (live b e \<or> e \<in># ptrs b) \<and> header_ok b e x"
      by (rule less_one_ok [OF k_def]) (use x(2) in \<open>auto simp: header_ok_def b_def\<close>)
  qed (use R in \<open>auto simp: b_def live_def less_one_def\<close>)
  then obtain s' where "releaseException D e s = Inr ((), s')" "represents (drop_ref e b) s'"
    using release_simulates [OF assms(1) x(1) _ k_def ref] x(2) by (auto simp: header_ok_def)
  then show ?thesis using e a' by (simp add: cxa_decrement_exception_refcount_def b_def)
qed

text \<open>Taking one: \<^verbatim>\<open>__cxa_current_primary_exception\<close> and the copy of an \<^verbatim>\<open>exception_ptr\<close>.\<close>

lemma add_ptr:
  assumes "represents a s" "live a e \<or> e \<in># ptrs a" "may_add a" "store s e = Some x" "header_ok a e x"
  shows "represents (a\<lparr>ptrs := add_mset e (ptrs a)\<rparr>) (set_ex e (x\<lparr>referenceCount := referenceCount x + 1\<rparr>) s)"
    (is "represents ?a ?s")
proof (rule represents_update [OF assms(1), where e = e and v = "Some (x\<lparr>referenceCount := referenceCount x + 1\<rparr>)"])
  note R = representsD [OF assms(1)]
  have "e \<noteq> 0" using R(1) assms(2) unfolding wf_spec_def by metis
  then show "wf_spec ?a" using R(1) assms(3) by (auto simp: wf_spec_def may_add_def live_def)
  show "linked (store ?s) (caughtExceptions ?s) (blocks ?a)" using R(2) assms(4) by (simp add: linked_same)
qed (use representsD [OF assms(1)] assms(5) in \<open>auto simp: header_ok_def live_def\<close>)

lemma current_simulates:
  assumes "represents a s" "spec_step Current a = Some a'"
  shows "\<exists>s'. eh_call D Current s = Inr s' \<and> represents a' s'"
proof -
  obtain e n r bs where b: "blocks a = (e, n, r) # bs" "may_add a" "a' = a\<lparr>ptrs := add_mset e (ptrs a)\<rparr>"
    using assms(2) by (auto split: list.splits if_splits)
  obtain x where x: "caughtExceptions s = e" "e \<noteq> 0" "store s e = Some x" "header_ok a e x"
    by (rule head_block [OF assms(1) b(1)])
  have "represents a' (set_ex e (x\<lparr>referenceCount := referenceCount x + 1\<rparr>) s)"
    unfolding b(3) by (rule add_ptr [OF assms(1) _ b(2) x(3,4)]) (simp add: live_def b(1))
  then show ?thesis using x
    by (simp add: cxa_current_primary_exception_def header_ok_def isDependentException_def)
qed

lemma copy_simulates:
  assumes "represents a s" "spec_step (Copy e) a = Some a'"
  shows "\<exists>s'. eh_call D (Copy e) s = Inr s' \<and> represents a' s'"
proof -
  have m: "e \<in># ptrs a" "may_add a" "a' = a\<lparr>ptrs := add_mset e (ptrs a)\<rparr>"
    using assms(2) by (auto split: if_splits)
  obtain x where x: "store s e = Some x" "header_ok a e x"
    by (rule stored [OF assms(1), of e]) (simp add: m)
  have "e \<noteq> 0" using representsD(1) [OF assms(1)] m unfolding wf_spec_def by metis
  then show ?thesis using x add_ptr [OF assms(1) _ m(2) x] m
    by (simp add: cxa_increment_exception_refcount_def header_ok_def isDependentException_def)
qed

lemma end_simulates:
  assumes "\<forall>d i. D d i" "represents a s" "spec_step End a = Some a'"
  shows "\<exists>s'. eh_call D End s = Inr s' \<and> represents a' s'"
proof -
  note R = representsD [OF assms(2)]
  obtain e n r bs where b: "blocks a = (e, n, r) # bs" using assms(3) by (auto split: list.splits)
  obtain x where x: "caughtExceptions s = e" "e \<noteq> 0" "0 < n" "store s e = Some x" "header_ok a e x"
      "handlerCount x = (if r then - int n else int n)" "linked (store s) (nextException x) bs"
    by (rule head_block [OF assms(2) b])
  have bs: "e \<notin> fst ` set bs" using R(1) b by (auto simp: wf_spec_def)
  define y where "y = x\<lparr>handlerCount := if r then - int (n - 1) else int (n - 1)\<rparr>"
  have call: "cxa_end_catch D s =
    (if n = 1 then
       (if r then Inr ((), (set_ex e y s)\<lparr>caughtExceptions := nextException x\<rparr>)
        else releaseException D e ((set_ex e y s)\<lparr>caughtExceptions := nextException x\<rparr>))
     else Inr ((), set_ex e y s))"
    using x R(3) by (cases r) (simp_all add: cxa_end_catch_def y_def Let_def of_nat_diff algebra_simps)
  show ?thesis
  proof (cases "n = 1")
    case False
    then have a': "a' = a\<lparr>blocks := (e, n - 1, r) # bs\<rparr>" using assms(3) b by simp
    have "represents a' (set_ex e y s)"
    proof (rule represents_update [OF assms(2), where e = e and v = "Some y"])
      show "wf_spec a'" using R(1) b bs by (force simp: wf_spec_def a' live_def)
    qed (use R x b bs False in \<open>auto simp: y_def a' live_def header_ok_def\<close>)
    then show ?thesis using call False by simp
  next
    case True
    define c where "c = a\<lparr>blocks := bs\<rparr>"
    have y0: "handlerCount y = 0" using True by (simp add: y_def)
    have ri: "r \<longleftrightarrow> e \<in> set (inflight a)" using R(1) b by (auto simp: wf_spec_def)
    have wf: "wf_spec c" using R(1) b bs by (force simp: wf_spec_def c_def live_def)
    define s1 where "s1 = (set_ex e y s)\<lparr>caughtExceptions := nextException x\<rparr>"
    show ?thesis
    proof (cases r)
      case r: True
      have "represents c s1"
      proof (rule represents_update [OF assms(2), where e = e and v = "Some y"])
        show "wf_spec c" by (rule wf)
      qed (use R x b bs y0 ri r in \<open>auto simp: s1_def y_def c_def live_def header_ok_def\<close>)
      then show ?thesis using call True r assms(3) b by (simp add: s1_def c_def)
    next
      case r: False
      define k where "k = count (ptrs c) e + (if live c e then 1 else 0)"
      have nl: "\<not> live c e" using ri r bs by (simp add: live_def c_def)
      have ref: "referenceCount y = of_nat (k + 1)"
        using x(5) nl b by (simp add: header_ok_def y_def k_def c_def live_def)
      have "represents c (less_one k e y s1)"
      proof (rule represents_update [OF assms(2), where e = e])
        show "store (less_one k e y s1) = (store s)(e := if k = 0 then None else Some (y\<lparr>referenceCount := of_nat k\<rparr>))"
          by (simp add: less_one_def s1_def)
        show "wf_spec c" by (rule wf)
        show "case if k = 0 then None else Some (y\<lparr>referenceCount := of_nat k\<rparr>) of
            None \<Rightarrow> \<not> live c e \<and> e \<notin># ptrs c | Some x \<Rightarrow> (live c e \<or> e \<in># ptrs c) \<and> header_ok c e x"
          by (rule less_one_ok [OF k_def]) (use x(5) y0 in \<open>auto simp: header_ok_def y_def\<close>)
      qed (use R x b bs nl in \<open>auto simp: c_def live_def less_one_def s1_def y_def\<close>)
      then obtain s' where "releaseException D e s1 = Inr ((), s')" "represents (drop_ref e c) s'"
        using release_simulates [OF assms(1) _ _ k_def ref, of s1] x(5) by (auto simp: s1_def y_def header_ok_def)
      then show ?thesis using call True r assms(3) b by (simp add: s1_def c_def)
    qed
  qed
qed

theorem eh_call_simulates:
  assumes "\<forall>d i. D d i" "represents a s" "spec_step ev a = Some a'"
  shows "\<exists>s'. eh_call D ev s = Inr s' \<and> represents a' s'"
  using assms
  by (cases ev) (blast intro: throw_simulates catch_simulates end_simulates rethrow_simulates current_simulates
      copy_simulates drop_simulates)+

theorem eh_calls_simulate:
  assumes "\<forall>d i. D d i" "represents a s" "spec_run evs a = Some a'"
  shows "\<exists>s'. eh_calls D evs s = Inr s' \<and> represents a' s'"
  using assms(2,3)
proof (induction evs arbitrary: a s)
  case (Cons ev evs)
  then obtain b where b: "spec_step ev a = Some b" "spec_run evs b = Some a'" by (auto split: option.splits)
  from eh_call_simulates [OF assms(1) Cons.prems(1) b(1)] obtain s' where "eh_call D ev s = Inr s'" "represents b s'"
    by blast
  then show ?case using Cons.IH [of b s'] b(2) by simp
qed simp

subsection \<open>Every exception is destroyed once\<close>

definition in_use :: "eh_spec \<Rightarrow> nat \<Rightarrow> bool" where
  "in_use a e \<longleftrightarrow> live a e \<or> e \<in># ptrs a"

fun throws :: "nat \<Rightarrow> eh_event \<Rightarrow> bool" where
  "throws e (Throw e' t d) \<longleftrightarrow> e' = e"
| "throws e _ \<longleftrightarrow> False"

lemma drop_ref_conserves:
  assumes "\<And>i. i \<noteq> e \<Longrightarrow> in_use b i \<longleftrightarrow> in_use a i" "in_use a e" "gone b = gone a"
  shows "count_list (gone (drop_ref e b)) i + of_bool (in_use (drop_ref e b) i) =
    count_list (gone a) i + of_bool (in_use a i)"
proof (cases "in_use b e")
  case True
  then have "drop_ref e b = b" by (simp add: drop_ref_def in_use_def)
  then show ?thesis using assms True by (cases "i = e") simp_all
next
  case False
  then have d: "drop_ref e b = b\<lparr>gone := gone a @ [e]\<rparr>" using assms(3) by (simp add: drop_ref_def in_use_def)
  have "in_use (drop_ref e b) = in_use b" by (simp add: d in_use_def live_def fun_eq_iff)
  then show ?thesis using assms False by (cases "i = e") (simp_all add: d)
qed

lemma spec_step_conserves:
  assumes "spec_step ev a = Some a'" "wf_spec a"
  shows "count_list (gone a') i + of_bool (in_use a' i) = count_list (gone a) i + of_bool (in_use a i) + of_bool (throws i ev)"
proof (cases ev)
  case End
  with assms obtain e n r bs where b: "blocks a = (e, n, r) # bs" by (auto split: list.splits)
  show ?thesis
  proof (cases "n = 1 \<and> \<not> r")
    case True
    then have a': "a' = drop_ref e (a\<lparr>blocks := bs\<rparr>)" using assms End b by simp
    have "count_list (gone a') i + of_bool (in_use a' i) = count_list (gone a) i + of_bool (in_use a i)"
      unfolding a' by (rule drop_ref_conserves) (simp_all add: in_use_def live_def b)
    then show ?thesis by (simp add: End)
  next
    case False
    moreover have "r \<longleftrightarrow> e \<in> set (inflight a)" using assms(2) b by (auto simp: wf_spec_def)
    ultimately have "in_use a' i \<longleftrightarrow> in_use a i" "gone a' = gone a" using assms(1) End b
      by (auto simp: in_use_def live_def split: if_splits)
    then show ?thesis by (simp add: End)
  qed
next
  case (Drop e)
  then have a': "e \<in># ptrs a" "a' = drop_ref e (a\<lparr>ptrs := ptrs a - {#e#}\<rparr>)" using assms by (auto split: if_splits)
  have "count_list (gone a') i + of_bool (in_use a' i) = count_list (gone a) i + of_bool (in_use a i)"
    unfolding a'(2)
  proof (rule drop_ref_conserves)
    fix i assume "i \<noteq> e"
    then have "i \<in># ptrs a - {#e#} \<longleftrightarrow> i \<in># ptrs a" by (simp add: in_diff_count)
    then show "in_use (a\<lparr>ptrs := ptrs a - {#e#}\<rparr>) i \<longleftrightarrow> in_use a i" by (simp add: in_use_def live_def)
  qed (use a'(1) in \<open>simp_all add: in_use_def\<close>)
  then show ?thesis by (simp add: Drop)
next
  case (Throw e t d)
  then show ?thesis using assms(1) by (auto simp: in_use_def live_def split: if_splits)
next
  case (Catch e)
  then obtain is' where i: "inflight a = e # is'" using assms(1) by (auto split: list.splits if_splits)
  obtain n r bs where "a' = a\<lparr>inflight := is', blocks := (e, n, r) # bs\<rparr>"
    "insert e (fst ` set bs) = insert e (fst ` set (blocks a))"
    using assms(1) Catch i by (auto split: list.splits if_splits bool.splits)
  then have "in_use a' i \<longleftrightarrow> in_use a i" "gone a' = gone a" using i by (auto simp: in_use_def live_def)
  then show ?thesis by (simp add: Catch)
next
  case Rethrow
  then obtain e n bs where "blocks a = (e, n, False) # bs"
    "a' = a\<lparr>blocks := (e, n, True) # bs, inflight := e # inflight a, rethrows := rethrows a + 1\<rparr>"
    using assms(1) by (auto split: list.splits bool.splits)
  then have "in_use a' i \<longleftrightarrow> in_use a i" "gone a' = gone a" by (auto simp: in_use_def live_def)
  then show ?thesis by (simp add: Rethrow)
next
  case Current
  then obtain e n r bs where "blocks a = (e, n, r) # bs" "a' = a\<lparr>ptrs := add_mset e (ptrs a)\<rparr>"
    using assms(1) by (auto split: list.splits if_splits)
  then have "in_use a' i \<longleftrightarrow> in_use a i" "gone a' = gone a" by (auto simp: in_use_def live_def)
  then show ?thesis by (simp add: Current)
next
  case (Copy e)
  then have "e \<in># ptrs a" "a' = a\<lparr>ptrs := add_mset e (ptrs a)\<rparr>" using assms(1) by (auto split: if_splits)
  then have "in_use a' i \<longleftrightarrow> in_use a i" "gone a' = gone a" by (auto simp: in_use_def live_def)
  then show ?thesis by (simp add: Copy)
qed

lemma spec_run_conserves:
  "spec_run evs a = Some a' \<Longrightarrow> represents a s \<Longrightarrow>
    count_list (gone a') i + of_bool (in_use a' i) = count_list (gone a) i + of_bool (in_use a i) + length (filter (throws i) evs)"
proof (induction evs arbitrary: a s)
  case (Cons ev evs)
  then obtain b where b: "spec_step ev a = Some b" "spec_run evs b = Some a'" by (auto split: option.splits)
  from eh_call_simulates [of "\<lambda>_ _. True", OF _ Cons.prems(2) b(1)] obtain s' where "represents b s'" by auto
  from Cons.IH [OF b(2) this] spec_step_conserves [OF b(1) representsD(1) [OF Cons.prems(2)], of i]
  show ?case by simp
qed simp

lemma represents_stored: "represents a s \<Longrightarrow> store s e \<noteq> None \<longleftrightarrow> in_use a e"
proof -
  assume "represents a s"
  then have "case store s e of None \<Rightarrow> \<not> live a e \<and> e \<notin># ptrs a
      | Some x \<Rightarrow> (live a e \<or> e \<in># ptrs a) \<and> header_ok a e x"
    unfolding represents_def by blast
  then show ?thesis by (cases "store s e") (auto simp: in_use_def)
qed

end
