(* ===== verification/Cxa_Alloc.thy ===== *)
theory Cxa_Alloc
  imports Cxa_Exceptions
begin

text \<open>
  Memory for exceptions, \<^verbatim>\<open>3rd_party/libcxxrt/src/exception.cc\<close>: \<^verbatim>\<open>calloc\<close>, and when it fails one of sixteen
  emergency buffers of a kilobyte each, at most four for a thread.

  Addresses are numbers, 0 the null pointer; the buffers begin at \<open>base\<close>. The state has the flags of the
  buffers, the thread's count, and the blocks that came from the heap, so that freeing anything
  else is a fault. A thread that finds no buffer sleeps until another frees one: the argument \<open>rounds\<close> has, for the
  first attempt and each one after a wake-up, the answer of \<^verbatim>\<open>calloc\<close> and the flags as they are then, and
  the value is \<open>None\<close> when it sleeps for good.
\<close>

record emergency =
  buffer_allocated :: "bool list"
  emergencyBuffersHeld :: int
  heap_blocks :: "nat list"

fun first_free :: "bool list \<Rightarrow> nat option" where
  "first_free [] = None"
| "first_free (b # bs) = (if b then map_option Suc (first_free bs) else Some 0)"

text \<open>The \<^verbatim>\<open>while\<close> loop: a block of the heap, or a buffer with the flags it leaves.\<close>

fun emergency_rounds :: "(nat \<times> bool list) list \<Rightarrow> (nat \<times> bool list + nat \<times> bool list) option" where
  "emergency_rounds [] = None"
| "emergency_rounds ((m, flags) # rounds) =
     (if m \<noteq> 0 then Some (Inl (m, flags))
      else case first_free flags of
        Some i \<Rightarrow> Some (Inr (i, flags[i := True]))
      | None \<Rightarrow> emergency_rounds rounds)"

definition emergency_malloc :: "nat \<Rightarrow> nat \<Rightarrow> (nat \<times> bool list) list \<Rightarrow> emergency \<Rightarrow> (nat \<times> emergency) option" where
  "emergency_malloc base sz rounds s =
     (if 1024 < sz then Some (0, s)
      else if 3 < emergencyBuffersHeld s then Some (0, s)
      else case emergency_rounds rounds of
        None \<Rightarrow> None
      | Some (Inl (m, flags)) \<Rightarrow> Some (m, s\<lparr>buffer_allocated := flags, heap_blocks := m # heap_blocks s\<rparr>)
      | Some (Inr (i, flags)) \<Rightarrow>
          Some (base + 1024 * i, s\<lparr>buffer_allocated := flags, emergencyBuffersHeld := emergencyBuffersHeld s + 1\<rparr>))"

definition emergency_malloc_free :: "nat \<Rightarrow> nat \<Rightarrow> emergency \<Rightarrow> halt + emergency" where
  "emergency_malloc_free base ptr s =
     (case List.find (\<lambda>i. ptr = base + 1024 * i) [0..<16] of
        None \<Rightarrow> Inl AssertionFailed
      | Some i \<Rightarrow>
          if \<not> 0 < i then Inl AssertionFailed
          else Inr (s\<lparr>buffer_allocated := (buffer_allocated s)[i := False]\<rparr>))"

definition alloc_or_die :: "nat \<Rightarrow> nat \<Rightarrow> nat \<Rightarrow> (nat \<times> bool list) list \<Rightarrow> emergency \<Rightarrow> (halt + nat \<times> emergency) option" where
  "alloc_or_die base sz m rounds s =
     (if m \<noteq> 0 then Some (Inr (m, s\<lparr>heap_blocks := m # heap_blocks s\<rparr>))
      else case emergency_malloc base sz rounds s of
        None \<Rightarrow> None
      | Some (p, s') \<Rightarrow> if p = 0 then Some (Inl Terminated) else Some (Inr (p, s')))"

text \<open>\<^verbatim>\<open>free\<close> of what did not come from the heap is a fault.\<close>

definition free_exception :: "nat \<Rightarrow> nat \<Rightarrow> emergency \<Rightarrow> halt + emergency" where
  "free_exception base e s =
     (if base < e \<and> e < base + 16384 then emergency_malloc_free base e s
      else if e \<in> set (heap_blocks s) then Inr (s\<lparr>heap_blocks := remove1 e (heap_blocks s)\<rparr>)
      else Inl BadAccess)"

definition sizeof_cxa_exception :: nat where "sizeof_cxa_exception = 128"

definition cxa_allocate_exception ::
  "nat \<Rightarrow> nat \<Rightarrow> nat \<Rightarrow> (nat \<times> bool list) list \<Rightarrow> emergency \<Rightarrow> (halt + nat \<times> emergency) option" where
  "cxa_allocate_exception base thrown_size m rounds s =
     map_option (map_sum id (map_prod (\<lambda>p. p + sizeof_cxa_exception) id))
       (alloc_or_die base (size_add thrown_size sizeof_cxa_exception) m rounds s)"

subsection \<open>Buffers\<close>

lemma first_free_Some: "first_free bs = Some i \<Longrightarrow> i < length bs \<and> \<not> bs ! i \<and> (\<forall>j < i. bs ! j)"
proof (induction bs arbitrary: i)
  case (Cons b bs)
  then show ?case by (cases i) (auto split: if_splits simp: nth_Cons split: nat.splits)
qed simp

lemma first_free_None: "first_free bs = None \<longleftrightarrow> list_all id bs"
  by (induction bs) auto

lemma emergency_rounds_buffer:
  "emergency_rounds rounds = Some (Inr (i, flags)) \<Longrightarrow>
    \<exists>old. (0, old) \<in> set rounds \<and> i < length old \<and> \<not> old ! i \<and> flags = old[i := True]"
  by (induction rounds rule: emergency_rounds.induct)
    (auto split: if_splits option.splits dest: first_free_Some)

lemma emergency_rounds_heap:
  "emergency_rounds rounds = Some (Inl (m, flags)) \<Longrightarrow> m \<noteq> 0 \<and> (m, flags) \<in> set rounds"
  by (induction rounds rule: emergency_rounds.induct) (auto split: if_splits option.splits)

lemma find_buffer: "i < 16 \<Longrightarrow> List.find ((=) i) [0..<16] = Some i"
  unfolding find_Some_iff by (rule exI [of _ i]) simp

text \<open>The sleeping thread wakes up for good when a buffer is free or the heap has memory again.\<close>

lemma emergency_rounds_ends:
  "\<exists>(m, flags) \<in> set rounds. m \<noteq> 0 \<or> \<not> list_all id flags \<Longrightarrow> emergency_rounds rounds \<noteq> None"
  by (induction rounds rule: emergency_rounds.induct)
    (auto split: option.splits simp: first_free_None [symmetric])

subsection \<open>Getting and freeing\<close>

text \<open>
  What an allocation gives: a block of the heap that was not in use, or a buffer that was free when the thread
  looked and is now marked. That \<^verbatim>\<open>calloc\<close> gives no block that is still in use is \<open>calloc_fresh\<close>.
\<close>

definition calloc_fresh :: "(nat \<times> bool list) list \<Rightarrow> emergency \<Rightarrow> bool" where
  "calloc_fresh rounds s \<longleftrightarrow> list_all (\<lambda>(m, flags). m \<notin> set (heap_blocks s)) rounds"

definition granted :: "nat \<Rightarrow> (nat \<times> bool list) list \<Rightarrow> emergency \<Rightarrow> nat \<Rightarrow> emergency \<Rightarrow> bool" where
  "granted base rounds s p s' \<longleftrightarrow>
     p \<notin> set (heap_blocks s) \<and> heap_blocks s' = p # heap_blocks s \<and>
        emergencyBuffersHeld s' = emergencyBuffersHeld s \<or>
     heap_blocks s' = heap_blocks s \<and>
     (\<exists>i flags. (0, flags) \<in> set rounds \<and> i < length flags \<and> \<not> flags ! i \<and> p = base + 1024 * i \<and>
        buffer_allocated s' = flags[i := True] \<and> emergencyBuffersHeld s' = emergencyBuffersHeld s + 1 \<and>
        emergencyBuffersHeld s \<le> 3)"

lemma emergency_malloc_granted:
  assumes "emergency_malloc base sz rounds s = Some (p, s')" "p \<noteq> 0" "calloc_fresh rounds s"
  shows "sz \<le> 1024 \<and> granted base rounds s p s'"
proof -
  have le: "sz \<le> 1024" "emergencyBuffersHeld s \<le> 3"
    using assms by (auto simp: emergency_malloc_def split: if_splits)
  then obtain r where r: "emergency_rounds rounds = Some r"
    using assms(1) by (auto simp: emergency_malloc_def split: if_splits option.splits)
  show ?thesis
  proof (cases r)
    case (Inl mf)
    obtain m flags where mf: "mf = (m, flags)" by (cases mf)
    have "m \<notin> set (heap_blocks s)"
      using emergency_rounds_heap [of rounds m flags] assms(3) r Inl mf
      by (auto simp: calloc_fresh_def list_all_iff)
    then show ?thesis using assms(1) le r Inl mf by (auto simp: emergency_malloc_def granted_def)
  next
    case (Inr bf)
    obtain i flags where bf: "bf = (i, flags)" by (cases bf)
    with Inr r obtain old where "(0, old) \<in> set rounds" "i < length old" "\<not> old ! i" "flags = old[i := True]"
      using emergency_rounds_buffer by blast
    moreover have "p = base + 1024 * i" "s' = s\<lparr>buffer_allocated := flags, emergencyBuffersHeld := emergencyBuffersHeld s + 1\<rparr>"
      using assms(1) le r Inr bf by (simp_all add: emergency_malloc_def)
    ultimately show ?thesis using le by (auto simp: granted_def)
  qed
qed

lemma alloc_granted:
  "alloc_or_die base sz m rounds s = Some (Inr (p, s')) \<Longrightarrow> calloc_fresh ((m, flags) # rounds) s \<Longrightarrow>
    granted base rounds s p s'"
proof (cases "m = 0")
  case True
  assume "alloc_or_die base sz m rounds s = Some (Inr (p, s'))" and "calloc_fresh ((m, flags) # rounds) s"
  with True have "emergency_malloc base sz rounds s = Some (p, s')" "p \<noteq> 0"
    "calloc_fresh rounds s"
    by (auto simp: alloc_or_die_def calloc_fresh_def split: if_splits option.splits)
  then show ?thesis using emergency_malloc_granted by blast
next
  case False
  assume "alloc_or_die base sz m rounds s = Some (Inr (p, s'))" and "calloc_fresh ((m, flags) # rounds) s"
  with False show ?thesis by (auto simp: alloc_or_die_def granted_def calloc_fresh_def)
qed

lemma free_buffer:
  assumes "0 < i" "i < 16"
  shows "free_exception base (base + 1024 * i) s = Inr (s\<lparr>buffer_allocated := (buffer_allocated s)[i := False]\<rparr>)"
  using assms by (simp add: free_exception_def emergency_malloc_free_def find_buffer)

lemma free_first_buffer:
  "base \<notin> set (heap_blocks s) \<Longrightarrow> free_exception base base s = Inl BadAccess"
  by (simp add: free_exception_def)

end
