(* ===== verification/Dwarf_Value.thy ===== *)
theory Dwarf_Value
  imports Wissbi_Prelude
begin

unbundle bit_operations_syntax

text \<open>
  Reading numbers from exception tables, \<^verbatim>\<open>3rd_party/libcxxrt/src/dwarf_eh.h\<close>: the encodings, the
  variable-length readers and \<^verbatim>\<open>read_value\<close>.

  Memory is a partial function from addresses to bytes, and \<^verbatim>\<open>dw_eh_ptr_t *data\<close> the address passed in and
  the one given back. What can stop a reader is the type \<open>dw_error\<close>. Integers have the widths and the
  conversions of the source: in \<^verbatim>\<open>digit << bit\<close> the digit is promoted to a 32-bit \<^verbatim>\<open>int\<close>, the shift is
  done in that width, and the sum extends its sign; a shift by 32 or more is undefined. Fixed-length
  values are little-endian, as on the processors the programs are built for.

  What the readers are compared with are the encoders \<open>uleb_bytes\<close>, \<open>sleb_bytes\<close> and \<open>value_bytes\<close>, and the
  predicate \<open>holds\<close>, that memory has given bytes from an address on.
\<close>

type_synonym memory = "nat \<Rightarrow> u8 option"

datatype dw_error = Unmapped | AssertFailed | Aborted | UndefinedShift

definition and_then :: "dw_error + 'a \<Rightarrow> ('a \<Rightarrow> dw_error + 'b) \<Rightarrow> dw_error + 'b" where
  "and_then r f = (case r of Inl e \<Rightarrow> Inl e | Inr x \<Rightarrow> f x)"

lemma and_then_simps [simp]: "and_then (Inl e) f = Inl e" "and_then (Inr x) f = f x"
  by (simp_all add: and_then_def)

lemma and_then_Inr: "and_then r f = Inr y \<longleftrightarrow> (\<exists>x. r = Inr x \<and> f x = Inr y)"
  by (cases r) auto

lemma and_then_cong [fundef_cong]: "r = r' \<Longrightarrow> (\<And>x. r' = Inr x \<Longrightarrow> f x = g x) \<Longrightarrow> and_then r f = and_then r' g"
  by (cases r') auto

definition byte_at :: "memory \<Rightarrow> nat \<Rightarrow> dw_error + u8" where
  "byte_at mem p = (case mem p of None \<Rightarrow> Inl Unmapped | Some b \<Rightarrow> Inr b)"

subsection \<open>Encodings\<close>

definition DW_EH_PE_uleb128 :: u8 where "DW_EH_PE_uleb128 = 0x01"
definition DW_EH_PE_udata2 :: u8 where "DW_EH_PE_udata2 = 0x02"
definition DW_EH_PE_udata4 :: u8 where "DW_EH_PE_udata4 = 0x03"
definition DW_EH_PE_udata8 :: u8 where "DW_EH_PE_udata8 = 0x04"
definition DW_EH_PE_signed :: u8 where "DW_EH_PE_signed = 0x08"
definition DW_EH_PE_sleb128 :: u8 where "DW_EH_PE_sleb128 = DW_EH_PE_uleb128 OR DW_EH_PE_signed"
definition DW_EH_PE_sdata2 :: u8 where "DW_EH_PE_sdata2 = DW_EH_PE_udata2 OR DW_EH_PE_signed"
definition DW_EH_PE_sdata4 :: u8 where "DW_EH_PE_sdata4 = DW_EH_PE_udata4 OR DW_EH_PE_signed"
definition DW_EH_PE_sdata8 :: u8 where "DW_EH_PE_sdata8 = DW_EH_PE_udata8 OR DW_EH_PE_signed"
definition DW_EH_PE_omit :: u8 where "DW_EH_PE_omit = 0xff"
definition DW_EH_PE_absptr :: u8 where "DW_EH_PE_absptr = 0x00"
definition DW_EH_PE_pcrel :: u8 where "DW_EH_PE_pcrel = 0x10"
definition DW_EH_PE_textrel :: u8 where "DW_EH_PE_textrel = 0x20"
definition DW_EH_PE_datarel :: u8 where "DW_EH_PE_datarel = 0x30"
definition DW_EH_PE_funcrel :: u8 where "DW_EH_PE_funcrel = 0x40"
definition DW_EH_PE_indirect :: u8 where "DW_EH_PE_indirect = 0x80"

definition get_encoding :: "u8 \<Rightarrow> u8" where
  "get_encoding x = x AND 0xf"

definition get_base :: "u8 \<Rightarrow> u8" where
  "get_base x = x AND 0x70"

definition is_indirect :: "u8 \<Rightarrow> bool" where
  "is_indirect x \<longleftrightarrow> x AND DW_EH_PE_indirect = DW_EH_PE_indirect"

lemmas dw_constants =
  DW_EH_PE_uleb128_def DW_EH_PE_udata2_def DW_EH_PE_udata4_def DW_EH_PE_udata8_def DW_EH_PE_signed_def
  DW_EH_PE_sleb128_def DW_EH_PE_sdata2_def DW_EH_PE_sdata4_def DW_EH_PE_sdata8_def DW_EH_PE_omit_def
  DW_EH_PE_absptr_def DW_EH_PE_pcrel_def DW_EH_PE_textrel_def DW_EH_PE_datarel_def DW_EH_PE_funcrel_def
  DW_EH_PE_indirect_def

definition dwarf_size_of_fixed_size_field :: "u8 \<Rightarrow> dw_error + int" where
  "dwarf_size_of_fixed_size_field type =
     (let e = get_encoding type in
      if e = DW_EH_PE_sdata2 \<or> e = DW_EH_PE_udata2 then Inr 2
      else if e = DW_EH_PE_sdata4 \<or> e = DW_EH_PE_udata4 then Inr 4
      else if e = DW_EH_PE_sdata8 \<or> e = DW_EH_PE_udata8 then Inr 8
      else if e = DW_EH_PE_absptr then Inr 8
      else Inl Aborted)"

subsection \<open>Variable-length values\<close>

text \<open>The \<^verbatim>\<open>do\<close> loop of \<^verbatim>\<open>read_leb128\<close>: the value, the number of bits and the address after it.\<close>

function leb_loop :: "memory \<Rightarrow> nat \<Rightarrow> u64 \<Rightarrow> nat \<Rightarrow> dw_error + u64 \<times> nat \<times> nat" where
  "leb_loop mem data uleb b =
     (if \<not> b < 64 then Inl AssertFailed
      else and_then (byte_at mem data) (\<lambda>octet.
        let digit = octet AND 0x7f in
        if 32 \<le> b then Inl UndefinedShift
        else let uleb' = uleb + scast (push_bit b (ucast digit :: u32)) in
          if octet \<noteq> digit then leb_loop mem (data + 1) uleb' (b + 7)
          else Inr (uleb', b + 7, data + 1)))"
  by pat_completeness auto
termination by (relation "measure (\<lambda>(mem, data, uleb, b). 64 - b)") auto

declare leb_loop.simps [simp del]

definition read_leb128 :: "memory \<Rightarrow> nat \<Rightarrow> dw_error + u64 \<times> nat \<times> nat" where
  "read_leb128 mem data = leb_loop mem data 0 0"

definition read_uleb128 :: "memory \<Rightarrow> nat \<Rightarrow> dw_error + u64 \<times> nat" where
  "read_uleb128 mem data = and_then (read_leb128 mem data) (\<lambda>(uleb, b, data'). Inr (uleb, data'))"

definition read_sleb128 :: "memory \<Rightarrow> nat \<Rightarrow> dw_error + u64 \<times> nat" where
  "read_sleb128 mem data =
     and_then (read_leb128 mem data) (\<lambda>(uleb, bits, data').
       Inr (if drop_bit (bits - 1) uleb = 1 then uleb OR push_bit bits (- 1) else uleb, data'))"

subsection \<open>Values of any encoding\<close>

text \<open>\<^verbatim>\<open>*(type*)(*data)\<close> for a type of \<open>n\<close> bytes.\<close>

fun load_le :: "memory \<Rightarrow> nat \<Rightarrow> nat \<Rightarrow> dw_error + nat" where
  "load_le mem p 0 = Inr 0"
| "load_le mem p (Suc n) =
     and_then (byte_at mem p) (\<lambda>x. and_then (load_le mem (p + 1) n) (\<lambda>v. Inr (unat x + 256 * v)))"

definition READ :: "(nat \<Rightarrow> u64) \<Rightarrow> nat \<Rightarrow> memory \<Rightarrow> nat \<Rightarrow> dw_error + u64 \<times> nat" where
  "READ conv n mem data = and_then (load_le mem data n) (\<lambda>v. Inr (conv v, data + n))"

definition read_value :: "memory \<Rightarrow> u8 \<Rightarrow> nat \<Rightarrow> dw_error + u64 \<times> nat" where
  "read_value mem encoding data =
     (let type = get_encoding encoding in
      if type = DW_EH_PE_udata2 then READ (\<lambda>v. ucast (of_nat v :: u16)) 2 mem data
      else if type = DW_EH_PE_udata4 then READ (\<lambda>v. ucast (of_nat v :: u32)) 4 mem data
      else if type = DW_EH_PE_udata8 then READ of_nat 8 mem data
      else if type = DW_EH_PE_sdata2 then READ (\<lambda>v. scast (of_nat v :: u16)) 2 mem data
      else if type = DW_EH_PE_sdata4 then READ (\<lambda>v. scast (of_nat v :: u32)) 4 mem data
      else if type = DW_EH_PE_sdata8 then READ of_nat 8 mem data
      else if type = DW_EH_PE_absptr then READ of_nat 8 mem data
      else if type = DW_EH_PE_sleb128 then read_sleb128 mem data
      else if type = DW_EH_PE_uleb128 then read_uleb128 mem data
      else Inl Aborted)"

subsection \<open>Encoders\<close>

fun uleb_bytes :: "nat \<Rightarrow> u8 list" where
  "uleb_bytes n = (if n < 128 then [of_nat n] else of_nat (128 + n mod 128) # uleb_bytes (n div 128))"

declare uleb_bytes.simps [simp del]

function sleb_bytes :: "int \<Rightarrow> u8 list" where
  "sleb_bytes i =
     (if - 64 \<le> i \<and> i < 64 then [of_int (i mod 128)] else of_int (128 + i mod 128) # sleb_bytes (i div 128))"
  by pat_completeness auto
termination
proof (relation "measure (\<lambda>i. nat (if 0 \<le> i then i else - i))")
  fix i :: int
  assume "\<not> (- 64 \<le> i \<and> i < 64)"
  then show "(i div 128, i) \<in> measure (\<lambda>i. nat (if 0 \<le> i then i else - i))" by auto
qed simp

declare sleb_bytes.simps [simp del]

fun le_bytes :: "nat \<Rightarrow> nat \<Rightarrow> u8 list" where
  "le_bytes 0 v = []"
| "le_bytes (Suc n) v = of_nat (v mod 256) # le_bytes n (v div 256)"

fun holds :: "memory \<Rightarrow> nat \<Rightarrow> u8 list \<Rightarrow> bool" where
  "holds mem p [] \<longleftrightarrow> True"
| "holds mem p (b # bs) \<longleftrightarrow> mem p = Some b \<and> holds mem (p + 1) bs"

lemma holds_append [simp]: "holds mem p (xs @ ys) \<longleftrightarrow> holds mem p xs \<and> holds mem (p + length xs) ys"
  by (induction xs arbitrary: p) auto

subsection \<open>The unsigned reader\<close>

lemma byte_at_holds [simp]: "mem p = Some b \<Longrightarrow> byte_at mem p = Inr b"
  by (simp add: byte_at_def)

lemma leb_loop_step:
  assumes "mem p = Some x" "b < 32"
  shows "leb_loop mem p u b =
    (let u' = u + scast (push_bit b (ucast (x AND 0x7f) :: u32)) in
     if x \<noteq> x AND 0x7f then leb_loop mem (p + 1) u' (b + 7) else Inr (u', b + 7, p + 1))"
  using assms by (subst leb_loop.simps) (simp add: Let_def)

lemma and_7f: "(x :: u8) AND 0x7f = of_int (uint x mod 128)"
proof -
  have "x AND 0x7f = take_bit 7 x" by (simp add: take_bit_eq_mask mask_numeral)
  also have "\<dots> = take_bit 7 (of_int (uint x))" by simp
  also have "\<dots> = of_int (take_bit 7 (uint x))" by (rule take_bit_of_int)
  finally show ?thesis by (simp add: take_bit_eq_mod)
qed

text \<open>The digit of a byte made from \<open>d\<close> with or without the continuation bit, and its shift in an \<^verbatim>\<open>int\<close>.\<close>

lemma digit_last: "0 \<le> d \<Longrightarrow> d < 128 \<Longrightarrow> (of_int d :: u8) AND 0x7f = of_int d"
  by (simp add: and_7f unsigned_of_int take_bit_int_eq_self)

lemma digit_more:
  assumes "0 \<le> d" "d < 128"
  shows "(of_int (128 + d) :: u8) AND 0x7f = of_int d" "(of_int (128 + d) :: u8) \<noteq> of_int d"
proof -
  have u: "uint (of_int (128 + d) :: u8) = 128 + d" "uint (of_int d :: u8) = d"
    using assms by (simp_all add: unsigned_of_int take_bit_int_eq_self del: of_int_add)
  show "(of_int (128 + d) :: u8) AND 0x7f = of_int d" using assms by (simp add: and_7f u(1) del: of_int_add)
  show "(of_int (128 + d) :: u8) \<noteq> of_int d" using u by (auto dest: arg_cong [where f = uint] simp del: of_int_add)
qed

lemma scast_of_int: "- (2 ^ 31) \<le> m \<Longrightarrow> m < 2 ^ 31 \<Longrightarrow> scast (of_int m :: u32) = (of_int m :: u64)"
  by (simp add: scast_eq signed_of_int signed_take_bit_int_eq_self)

lemma shifted_digit:
  assumes "0 \<le> d" "d < 128" "of_int (d * 2 ^ b) = (of_int m :: u32)" "- (2 ^ 31) \<le> m" "m < 2 ^ 31"
  shows "scast (push_bit b (ucast (of_int d :: u8) :: u32)) = (of_int m :: u64)"
proof -
  have "(ucast (of_int d :: u8) :: u32) = of_int d"
    using assms(1,2) by (simp add: unsigned_of_int take_bit_int_eq_self)
  then have "push_bit b (ucast (of_int d :: u8) :: u32) = of_int m"
    using assms(3) by (simp add: push_bit_eq_mult)
  then show ?thesis using assms(4,5) by (simp only: scast_of_int)
qed

lemma digit_scale: "a mod b * c + a div b * (b * c) = a * (c :: 'a::euclidean_semiring)"
proof -
  have "(a mod b + a div b * b) * c = a * c" by (simp only: mod_div_mult_eq)
  then show ?thesis by (simp only: distrib_right mult.assoc)
qed

lemma uleb_loop:
  assumes "holds mem p (uleb_bytes n)" "n * 2 ^ (7 * k) < 2 ^ 31" "k \<le> 4"
  shows "leb_loop mem p u (7 * k) =
    Inr (u + of_nat (n * 2 ^ (7 * k)), 7 * (k + length (uleb_bytes n)), p + length (uleb_bytes n))"
  using assms
proof (induction n arbitrary: p u k rule: uleb_bytes.induct)
  case (1 n)
  define d where "d = n mod 128"
  have b: "7 * k < 32" using "1.prems"(3) by simp
  have d: "d * 2 ^ (7 * k) < 2 ^ 31"
    by (rule le_less_trans [OF mult_le_mono1 "1.prems"(2)]) (simp add: d_def)
  have s: "scast (push_bit (7 * k) (ucast (of_int (int d) :: u8) :: u32)) = (of_int (int (d * 2 ^ (7 * k))) :: u64)"
  proof (rule shifted_digit)
    show "- (2 ^ 31) \<le> int (d * 2 ^ (7 * k))" by (rule order_trans [of _ 0]) simp_all
    show "int (d * 2 ^ (7 * k)) < 2 ^ 31" using d by (simp only: of_nat_less_numeral_power_cancel_iff)
  qed (simp_all add: d_def)
  show ?case
  proof (cases "n < 128")
    case True
    then have "d = n" by (simp add: d_def)
    moreover have "mem p = Some (of_int (int n))" using "1.prems"(1) True by (simp add: uleb_bytes.simps)
    ultimately show ?thesis
      using leb_loop_step [OF _ b, of mem p "of_int (int n)" u] digit_last [of "int n"] s True
      by (simp add: uleb_bytes.simps)
  next
    case False
    have m: "mem p = Some (of_int (128 + int d))" "holds mem (p + 1) (uleb_bytes (n div 128))"
      using "1.prems"(1) False by (simp_all add: uleb_bytes.simps [of n] d_def)
    have le: "n div 128 * 2 ^ (7 * (k + 1)) \<le> n * 2 ^ (7 * k)"
      using digit_scale [of n 128 "2 ^ (7 * k)"] by (simp add: power_add mult.commute)
    have "1 * 2 ^ (7 * (k + 1)) \<le> n div 128 * 2 ^ (7 * (k + 1))" using False by (intro mult_le_mono1) simp
    with le "1.prems"(2) have "(2::nat) ^ (7 * (k + 1)) < 2 ^ 31" by linarith
    then have "7 * (k + 1) < 31" by (simp only: power_strict_increasing_iff)
    then have k: "k + 1 \<le> 4" by simp
    have "leb_loop mem p u (7 * k) = leb_loop mem (p + 1) (u + of_nat (d * 2 ^ (7 * k))) (7 * (k + 1))"
      using leb_loop_step [of mem p "of_int (128 + int d)" "7 * k" u] m(1) b digit_more [of "int d"] s by (simp add: d_def Let_def add.commute [of 7])
    also have "\<dots> = Inr (u + of_nat (d * 2 ^ (7 * k)) + of_nat (n div 128 * 2 ^ (7 * (k + 1))),
        7 * (k + 1 + length (uleb_bytes (n div 128))), p + 1 + length (uleb_bytes (n div 128)))"
      by (rule "1.IH") (use False m k le "1.prems"(2) in simp_all)
    also have "u + of_nat (d * 2 ^ (7 * k)) + of_nat (n div 128 * 2 ^ (7 * (k + 1))) = u + (of_nat (n * 2 ^ (7 * k)) :: u64)"
    proof -
      have "d * 2 ^ (7 * k) + n div 128 * 2 ^ (7 * (k + 1)) = n * 2 ^ (7 * k)"
        using digit_scale [of n 128 "2 ^ (7 * k)"] by (simp add: d_def power_add mult.commute)
      then show ?thesis by (simp only: add.assoc flip: of_nat_add)
    qed
    finally show ?thesis using False by (simp add: uleb_bytes.simps [of n])
  qed
qed

lemma read_uleb128_holds:
  assumes "holds mem p (uleb_bytes n)" "n < 2 ^ 31"
  shows "read_uleb128 mem p = Inr (of_nat n, p + length (uleb_bytes n))"
  using uleb_loop [of mem p n 0 0] assms by (simp add: read_uleb128_def read_leb128_def)

subsection \<open>The signed reader\<close>

text \<open>
  The sum the loop makes of a signed value: the value itself once the fifth byte, shifted by 28, has given
  the sign of the \<^verbatim>\<open>int\<close>, and its digits as an unsigned number before.
\<close>

definition sleb_sum :: "nat \<Rightarrow> int \<Rightarrow> int" where
  "sleb_sum k i = (let l = length (sleb_bytes i) in if k + l \<le> 4 then i mod 2 ^ (7 * l) else i)"

lemma sleb_bytes_last: "- 64 \<le> i \<Longrightarrow> i < 64 \<Longrightarrow> sleb_bytes i = [of_int (i mod 128)]"
  and sleb_bytes_more:
    "\<not> (- 64 \<le> i \<and> i < 64) \<Longrightarrow> sleb_bytes i = of_int (128 + i mod 128) # sleb_bytes (i div 128)"
  by (auto simp: sleb_bytes.simps [of i])

lemma sleb_sum_more:
  assumes "\<not> (- 64 \<le> i \<and> i < 64)"
  shows "sleb_sum k i = i mod 128 + 128 * sleb_sum (k + 1) (i div 128)"
proof -
  define l where "l = length (sleb_bytes (i div 128))"
  have "i mod (128 * 2 ^ (7 * l)) = 128 * (i div 128 mod 2 ^ (7 * l)) + i mod 128"
    by (rule zmod_zmult2_eq) simp
  moreover have "(2::int) ^ (7 * Suc l) = 128 * 2 ^ (7 * l)" by (simp add: power_add)
  ultimately show ?thesis
    using assms by (simp add: sleb_sum_def Let_def sleb_bytes_more l_def del: sleb_bytes.simps)
qed

lemma sleb_ranges:
  fixes i :: int
  assumes "\<not> (- 64 \<le> i \<and> i < 64)" "- (2 ^ 31) \<le> i * 2 ^ (7 * k)" "i * 2 ^ (7 * k) < 2 ^ 31"
  shows "- (2 ^ 31) \<le> i div 128 * 2 ^ (7 * (k + 1))" "i div 128 * 2 ^ (7 * (k + 1)) < 2 ^ 31"
    "k + 1 \<le> 4" "i mod 128 * 2 ^ (7 * k) < 2 ^ 31"
proof -
  have "k < 4"
  proof (rule ccontr)
    assume "\<not> k < 4"
    then have "(2::int) ^ 28 \<le> 2 ^ (7 * k)" by (intro power_increasing) simp_all
    then have "268435456 \<le> (2::int) ^ (7 * k)" by simp
    moreover have "64 * (2::int) ^ (7 * k) \<le> i * 2 ^ (7 * k) \<or> i * 2 ^ (7 * k) \<le> - 65 * (2::int) ^ (7 * k)"
    proof (cases "64 \<le> i")
      case False
      then have "i \<le> - 65" using assms(1) by linarith
      then have "i * 2 ^ (7 * k) \<le> - 65 * 2 ^ (7 * k)" by (intro mult_right_mono) simp_all
      then show ?thesis ..
    qed simp
    moreover have "- 2147483648 \<le> i * 2 ^ (7 * k)" "i * 2 ^ (7 * k) < 2147483648" using assms(2,3) by simp_all
    ultimately show False by linarith
  qed
  then have "k = 0 \<or> k = 1 \<or> k = 2 \<or> k = 3" by linarith
  then show "- (2 ^ 31) \<le> i div 128 * 2 ^ (7 * (k + 1))" "i div 128 * 2 ^ (7 * (k + 1)) < 2 ^ 31"
      "k + 1 \<le> 4" "i mod 128 * 2 ^ (7 * k) < 2 ^ 31"
    using assms(2,3) by (elim disjE; simp; linarith)+
qed

lemma sleb_loop:
  assumes "holds mem p (sleb_bytes i)" "- (2 ^ 31) \<le> i * 2 ^ (7 * k)" "i * 2 ^ (7 * k) < 2 ^ 31" "k \<le> 4"
  shows "leb_loop mem p u (7 * k) =
    Inr (u + of_int (sleb_sum k i * 2 ^ (7 * k)), 7 * (k + length (sleb_bytes i)), p + length (sleb_bytes i))"
  using assms
proof (induction i arbitrary: p u k rule: sleb_bytes.induct)
  case (1 i)
  have b: "7 * k < 32" using "1.prems"(4) by simp
  have d: "0 \<le> i mod 128" "i mod 128 < 128" by simp_all
  show ?case
  proof (cases "- 64 \<le> i \<and> i < 64")
    case True
    have m: "mem p = Some (of_int (i mod 128))" using "1.prems"(1) True by (simp add: sleb_bytes_last)
    have s: "scast (push_bit (7 * k) (ucast (of_int (i mod 128) :: u8) :: u32)) = (of_int (sleb_sum k i * 2 ^ (7 * k)) :: u64)"
    proof (cases "k = 4")
      case True4: True
      have "of_int (i mod 128 * 2 ^ 28) = (of_int (i * 2 ^ 28) :: u32)"
      proof -
        have "i * 2 ^ 28 = i mod 128 * 2 ^ 28 + 2 ^ 32 * (8 * (i div 128))"
          using digit_scale [of i 128 "2 ^ 28"] by simp
        then have "(of_int (i * 2 ^ 28) :: u32) = of_int (i mod 128 * 2 ^ 28) + of_int (2 ^ 32) * of_int (8 * (i div 128))"
          by (simp only: of_int_add of_int_mult)
        moreover have "(of_int (2 ^ 32) :: u32) = 0" by simp
        ultimately show ?thesis by (simp only: mult_zero_left add_0_right)
      qed
      then show ?thesis using "1.prems"(2,3) True True4 d
        by (intro shifted_digit) (simp_all add: sleb_sum_def sleb_bytes_last)
    next
      case False
      then have "k = 0 \<or> k = 1 \<or> k = 2 \<or> k = 3" using "1.prems"(4) by linarith
      then show ?thesis using True d
        by (intro shifted_digit) (auto simp: sleb_sum_def sleb_bytes_last)
    qed
    show ?thesis
      using leb_loop_step [of mem p "of_int (i mod 128)" "7 * k" u] m b digit_last [OF d] s True by (simp add: sleb_bytes_last)
  next
    case False
    have m: "mem p = Some (of_int (128 + i mod 128))" "holds mem (p + 1) (sleb_bytes (i div 128))"
      using "1.prems"(1) False by (simp_all add: sleb_bytes_more)
    note r = sleb_ranges [OF False "1.prems"(2,3)]
    have s: "scast (push_bit (7 * k) (ucast (of_int (i mod 128) :: u8) :: u32)) = (of_int (i mod 128 * 2 ^ (7 * k)) :: u64)"
      by (rule shifted_digit [OF d]) (use r(4) in \<open>auto intro: order_trans [of _ 0]\<close>)
    have "leb_loop mem p u (7 * k) = leb_loop mem (p + 1) (u + of_int (i mod 128 * 2 ^ (7 * k))) (7 * (k + 1))"
      using leb_loop_step [of mem p "of_int (128 + i mod 128)" "7 * k" u] m(1) b digit_more [OF d] s
      by (simp add: Let_def add.commute [of 7] del: of_int_add)
    also have "\<dots> = Inr (u + of_int (i mod 128 * 2 ^ (7 * k)) + of_int (sleb_sum (k + 1) (i div 128) * 2 ^ (7 * (k + 1))),
        7 * (k + 1 + length (sleb_bytes (i div 128))), p + 1 + length (sleb_bytes (i div 128)))"
      by (rule "1.IH" [OF False m(2) r(1,2,3)])
    also have "u + of_int (i mod 128 * 2 ^ (7 * k)) + of_int (sleb_sum (k + 1) (i div 128) * 2 ^ (7 * (k + 1))) =
        u + (of_int (sleb_sum k i * 2 ^ (7 * k)) :: u64)"
    proof -
      have "i mod 128 * 2 ^ (7 * k) + sleb_sum (k + 1) (i div 128) * 2 ^ (7 * (k + 1)) = sleb_sum k i * 2 ^ (7 * k)"
        by (simp add: sleb_sum_more [OF False] power_add algebra_simps)
      then show ?thesis by (simp only: add.assoc flip: of_int_add)
    qed
    finally show ?thesis using False by (simp add: sleb_bytes_more)
  qed
qed

lemma sleb_length:
  "0 < length (sleb_bytes i)"
  "- (2 ^ (7 * length (sleb_bytes i) - 1)) \<le> i \<and> i < 2 ^ (7 * length (sleb_bytes i) - 1)"
proof (induction i rule: sleb_bytes.induct)
  case (1 i)
  define l where "l = length (sleb_bytes (i div 128))"
  { case 1 show ?case by (subst sleb_bytes.simps) simp }
  { case 2
    show ?case
    proof (cases "- 64 \<le> i \<and> i < 64")
      case False
      from "1.IH" [OF False] obtain l' where l': "l = Suc l'" by (cases l) (auto simp: l_def)
      have "7 * Suc l - 1 = 7 + (7 * l - 1)" using l' by simp
      then have "(2::int) ^ (7 * Suc l - 1) = 128 * 2 ^ (7 * l - 1)" by (simp only: power_add) simp
      moreover have "- (2 ^ (7 * l - 1)) \<le> i div 128" "i div 128 < 2 ^ (7 * l - 1)"
        using "1.IH"(2) [OF False] by (simp_all add: l_def)
      ultimately have "- (2 ^ (7 * Suc l - 1)) \<le> i" "i < 2 ^ (7 * Suc l - 1)" by linarith+
      then show ?thesis using False by (simp add: sleb_bytes_more l_def)
    qed (simp add: sleb_bytes_last) }
qed

lemma sleb_length_le:
  "- (2 ^ (7 * m + 6)) \<le> i \<Longrightarrow> i < 2 ^ (7 * m + 6) \<Longrightarrow> length (sleb_bytes i) \<le> Suc m"
proof (induction m arbitrary: i)
  case 0
  then show ?case by (simp add: sleb_bytes_last)
next
  case (Suc m)
  have "(2::int) ^ (7 * Suc m + 6) = 128 * 2 ^ (7 * m + 6)" by (simp add: power_add)
  with Suc.prems have "- (2 ^ (7 * m + 6)) \<le> i div 128" "i div 128 < 2 ^ (7 * m + 6)" by linarith+
  from Suc.IH [OF this] show ?case by (cases "- 64 \<le> i \<and> i < 64") (simp_all add: sleb_bytes_last sleb_bytes_more)
qed

text \<open>Setting all bits in front of a number below \<open>2 ^ b\<close> subtracts \<open>2 ^ b\<close>.\<close>

lemma sign_extend:
  assumes "0 \<le> m" "m < 2 ^ b" "b < 64"
  shows "(of_int m :: u64) OR push_bit b (- 1) = of_int (m - 2 ^ b)"
proof -
  have "take_bit b (of_int m :: u64) = of_int m"
    using assms by (simp add: take_bit_of_int take_bit_int_eq_self)
  then have "(of_int m :: u64) AND push_bit b (- 1) = 0"
    by (metis (no_types) and_zero_eq bit.conj_disj_distrib push_bit_minus_one_eq_not_mask take_bit_eq_mask
        word_bw_assocs(1) bit.conj_cancel_right)
  then have "(of_int m :: u64) OR push_bit b (- 1) = of_int m + push_bit b (- 1)"
    by (metis word_plus_and_or add_0)
  then show ?thesis by (simp add: push_bit_eq_mult)
qed

lemma drop_bit_of_int:
  assumes "0 \<le> m" "m < 2 ^ 64"
  shows "uint (drop_bit b (of_int m :: u64)) = m div 2 ^ b"
proof -
  have "uint (drop_bit b (of_int m :: u64)) = drop_bit b (uint (of_int m :: u64))"
    by (simp only: unsigned_drop_bit_eq) (transfer; simp)
  then show ?thesis using assms by (simp add: unsigned_of_int take_bit_int_eq_self drop_bit_eq_div [where 'a = int])
qed

lemma word_one_iff: "w = 1 \<longleftrightarrow> uint w = 1" for w :: u64
  by (metis uint_1 word_uint_eq_iff)

lemma read_sleb128_holds:
  assumes "holds mem p (sleb_bytes i)" "- (2 ^ 31) \<le> i" "i < 2 ^ 31"
  shows "read_sleb128 mem p = Inr (of_int i, p + length (sleb_bytes i))"
proof -
  define l where "l = length (sleb_bytes i)"
  define u :: u64 where "u = of_int (sleb_sum 0 i)"
  have r: "read_leb128 mem p = Inr (u, 7 * l, p + l)"
    using sleb_loop [of mem p i 0 0] assms by (simp add: read_leb128_def u_def l_def)
  have "(if drop_bit (7 * l - 1) u = 1 then u OR push_bit (7 * l) (- 1) else u) = of_int i"
  proof (cases "l \<le> 4")
    case True
    obtain l' where l': "l = Suc l'" using sleb_length(1) [of i] by (cases l) (simp_all add: l_def)
    define P where "P = (2::int) ^ (7 * l - 1)"
    have P: "(2::int) ^ (7 * l) = 2 * P" using l' by (simp add: P_def power_add)
    have i: "- P \<le> i" "i < P" using sleb_length(2) [of i] by (simp_all add: P_def l_def)
    have u: "u = of_int (i mod (2 * P))" using True by (simp add: u_def sleb_sum_def l_def [symmetric] P)
    have "(2::int) ^ (7 * l) \<le> 2 ^ 28" using True by (intro power_increasing) simp_all
    then have P28: "0 < P" "2 * P \<le> 2 ^ 28" using P by (simp_all add: P_def)
    have m: "0 \<le> i mod (2 * P)" "i mod (2 * P) < 2 * P" using P28(1) by simp_all
    then have s: "drop_bit (7 * l - 1) u = 1 \<longleftrightarrow> i mod (2 * P) div P = 1"
      using drop_bit_of_int [of "i mod (2 * P)" "7 * l - 1", folded P_def] P28(2) by (simp add: u word_one_iff)
    show ?thesis
    proof (cases "i < 0")
      case neg: True
      then have "(i + 2 * P) mod (2 * P) = i + 2 * P" using i P28(1) by (intro mod_pos_pos_trivial) linarith+
      then have e: "i mod (2 * P) = i + 2 * P" by (simp only: mod_add_self2)
      have "(i + 2 * P) div P = 1" using i neg by (intro int_div_pos_eq [where r = "i + P"]) simp_all
      moreover have "u OR push_bit (7 * l) (- 1) = of_int (i mod (2 * P) - 2 ^ (7 * l))"
        unfolding u by (rule sign_extend) (use m P True in simp_all)
      ultimately show ?thesis using s by (simp add: e P)
    next
      case False
      then have "i mod (2 * P) = i" using i by simp
      then show ?thesis using s False i by (simp add: u)
    qed
  next
    case False
    have "l \<le> 5" using sleb_length_le [of 4 i] assms(2,3) by (simp add: l_def)
    with False have l: "l = 5" by simp
    have u: "u = of_int i" using False by (simp add: u_def sleb_sum_def l_def)
    have "drop_bit 34 u \<noteq> 1"
    proof (cases "i < 0")
      case True
      have "u = of_int (i + 2 ^ 64)" by (simp add: u)
      then have "uint (drop_bit 34 u) = (i + 2 ^ 64) div 2 ^ 34"
        using True assms(2) by (simp only:) (rule drop_bit_of_int; simp)
      then show ?thesis using assms(2) by (simp add: word_one_iff)
    next
      case False
      then show ?thesis using assms(3) by (simp add: word_one_iff drop_bit_of_int u)
    qed
    then show ?thesis by (simp add: l u)
  qed
  then show ?thesis by (simp only: read_sleb128_def r and_then_simps prod.case l_def)
qed

subsection \<open>Any encoding\<close>

definition value_bytes :: "u8 \<Rightarrow> int \<Rightarrow> u8 list" where
  "value_bytes encoding i =
     (let type = get_encoding encoding in
      if type = DW_EH_PE_uleb128 then uleb_bytes (nat i)
      else if type = DW_EH_PE_sleb128 then sleb_bytes i
      else if type = DW_EH_PE_udata2 \<or> type = DW_EH_PE_sdata2 then le_bytes 2 (nat (i mod 0x10000))
      else if type = DW_EH_PE_udata4 \<or> type = DW_EH_PE_sdata4 then le_bytes 4 (nat (i mod 0x100000000))
      else le_bytes 8 (nat (i mod 0x10000000000000000)))"

text \<open>The values an encoding can hold; for the variable-length ones, those the readers get right.\<close>

definition encodable :: "u8 \<Rightarrow> int \<Rightarrow> bool" where
  "encodable encoding i \<longleftrightarrow>
     (let type = get_encoding encoding in
      if type = DW_EH_PE_uleb128 then 0 \<le> i \<and> i < 0x80000000
      else if type = DW_EH_PE_sleb128 then - 0x80000000 \<le> i \<and> i < 0x80000000
      else if type = DW_EH_PE_udata2 then 0 \<le> i \<and> i < 0x10000
      else if type = DW_EH_PE_sdata2 then - 0x8000 \<le> i \<and> i < 0x8000
      else if type = DW_EH_PE_udata4 then 0 \<le> i \<and> i < 0x100000000
      else if type = DW_EH_PE_sdata4 then - 0x80000000 \<le> i \<and> i < 0x80000000
      else if type = DW_EH_PE_sdata8 then - 0x8000000000000000 \<le> i \<and> i < 0x8000000000000000
      else (type = DW_EH_PE_udata8 \<or> type = DW_EH_PE_absptr) \<and> 0 \<le> i \<and> i < 0x10000000000000000)"

lemma length_le_bytes [simp]: "length (le_bytes n v) = n"
  by (induction n arbitrary: v) simp_all

lemma load_le_holds: "holds mem p (le_bytes n v) \<Longrightarrow> load_le mem p n = Inr (v mod 256 ^ n)"
proof (induction n arbitrary: p v)
  case (Suc n)
  have "v mod (256 * 256 ^ n) = 256 * (v div 256 mod 256 ^ n) + v mod 256" by (rule mod_mult2_eq)
  moreover have "unat (of_nat (v mod 256) :: u8) = v mod 256" by (simp add: unat_of_nat)
  ultimately show ?case using Suc.IH [of "Suc p" "v div 256"] Suc.prems by simp
qed simp

lemma READ_holds:
  "holds mem p (le_bytes n v) \<Longrightarrow> v < 256 ^ n \<Longrightarrow> READ conv n mem p = Inr (conv v, p + n)"
  by (simp add: READ_def load_le_holds)

lemma of_nat_mod: "of_nat (nat (i mod 0x10000)) = (of_int i :: u16)" "of_nat (nat (i mod 0x100000000)) = (of_int i :: u32)"
  "of_nat (nat (i mod 0x10000000000000000)) = (of_int i :: u64)"
  by (simp_all add: of_nat_nat word_of_int_eq_iff take_bit_eq_mod)

lemma fixed_conv:
  "0 \<le> i \<Longrightarrow> i < 0x10000 \<Longrightarrow> ucast (of_int i :: u16) = (of_int i :: u64)"
  "0 \<le> i \<Longrightarrow> i < 0x100000000 \<Longrightarrow> ucast (of_int i :: u32) = (of_int i :: u64)"
  "- 0x8000 \<le> i \<Longrightarrow> i < 0x8000 \<Longrightarrow> scast (of_int i :: u16) = (of_int i :: u64)"
  by (simp_all add: unsigned_of_int take_bit_int_eq_self scast_eq signed_of_int signed_take_bit_int_eq_self)

lemma fixed_range: "nat (i mod 0x10000) < 256 ^ 2" "nat (i mod 0x100000000) < 256 ^ 4" "nat (i mod 0x10000000000000000) < 256 ^ 8"
  by (simp_all add: nat_less_iff)

lemmas READ_fixed = READ_holds [OF _ fixed_range(1)] READ_holds [OF _ fixed_range(2)] READ_holds [OF _ fixed_range(3)]

lemma fits_encoding:
  assumes "encodable e i"
  obtains "get_encoding e = DW_EH_PE_uleb128" | "get_encoding e = DW_EH_PE_sleb128"
    | "get_encoding e = DW_EH_PE_udata2" | "get_encoding e = DW_EH_PE_sdata2"
    | "get_encoding e = DW_EH_PE_udata4" | "get_encoding e = DW_EH_PE_sdata4"
    | "get_encoding e = DW_EH_PE_udata8" | "get_encoding e = DW_EH_PE_sdata8" | "get_encoding e = DW_EH_PE_absptr"
  using assms unfolding encodable_def Let_def by metis

lemma read_value_holds:
  assumes "encodable e i" "holds mem p (value_bytes e i)"
  shows "read_value mem e p = Inr (of_int i, p + length (value_bytes e i))"
  by (rule fits_encoding [OF assms(1)])
    (use assms in \<open>simp_all add: read_value_def encodable_def value_bytes_def dw_constants READ_fixed READ_holds nat_less_iff of_nat_mod
      fixed_conv scast_of_int read_uleb128_holds read_sleb128_holds\<close>)

lemma leb_loop_advances: "leb_loop mem p u b = Inr (v, b', q) \<Longrightarrow> p < q"
proof (induction mem p u b rule: leb_loop.induct)
  case (1 mem p u b)
  then show ?case
    by (subst (asm) (2) leb_loop.simps) (fastforce simp: Let_def and_then_Inr split: if_splits)
qed

lemma read_uleb128_advances: "read_uleb128 mem p = Inr (v, q) \<Longrightarrow> p < q"
  and read_sleb128_advances: "read_sleb128 mem p = Inr (v, q) \<Longrightarrow> p < q"
  by (auto simp: read_uleb128_def read_sleb128_def read_leb128_def and_then_Inr dest: leb_loop_advances)

lemma read_value_advances: "read_value mem e p = Inr (v, q) \<Longrightarrow> p < q"
  by (auto simp: read_value_def Let_def READ_def and_then_Inr split: if_splits
      dest: read_uleb128_advances read_sleb128_advances)

end
