(* ===== verification/Dwarf_Lsda.thy ===== *)
theory Dwarf_Lsda
  imports Dwarf_Value
begin

unbundle bit_operations_syntax

text \<open>
  The exception tables of a function, \<^verbatim>\<open>3rd_party/libcxxrt/src/dwarf_eh.h\<close>: the header of the
  language-specific data area and the search for a call site. What the generic unwind library answers is
  the record \<open>unwind_context\<close>.

  The locale \<open>value_reader\<close> is what the search relies on, a reader that gives back what an encoder wrote and
  moves forward; \<open>read_value\<close> for any encoding and \<open>read_uleb128\<close> are instances. The search is compared with
  \<open>covering\<close>, a search in the list of the entries.
\<close>

record unwind_context =
  GetIP :: u64
  GetRegionStart :: u64
  GetTextRelBase :: u64
  GetDataRelBase :: u64

definition resolve_indirect_value :: "unwind_context \<Rightarrow> memory \<Rightarrow> u8 \<Rightarrow> u64 \<Rightarrow> u64 \<Rightarrow> dw_error + u64" where
  "resolve_indirect_value c mem encoding v start =
     (let base = get_base encoding;
          v' = (if base = DW_EH_PE_pcrel then v + start
                else if base = DW_EH_PE_textrel then v + GetTextRelBase c
                else if base = DW_EH_PE_datarel then v + GetDataRelBase c
                else if base = DW_EH_PE_funcrel then v + GetRegionStart c
                else v) in
      if is_indirect encoding then and_then (load_le mem (unat v') 8) (\<lambda>x. Inr (of_nat x))
      else Inr v')"

definition read_value_with_encoding :: "unwind_context \<Rightarrow> memory \<Rightarrow> nat \<Rightarrow> u64 \<Rightarrow> dw_error + u64 \<times> nat" where
  "read_value_with_encoding context mem data out =
     (let start = data in
      and_then (byte_at mem data) (\<lambda>encoding.
        if encoding = DW_EH_PE_omit then Inr (out, data + 1)
        else and_then (read_value mem encoding (data + 1)) (\<lambda>(v, data').
          and_then (resolve_indirect_value context mem encoding v (of_nat start)) (\<lambda>v'. Inr (v', data')))))"

record dwarf_eh_lsda =
  region_start :: u64
  landing_pads :: u64
  type_table :: u64
  type_table_encoding :: u8
  call_site_table :: u64
  action_table :: u64
  callsite_encoding :: u8

definition parse_lsda :: "unwind_context \<Rightarrow> memory \<Rightarrow> nat \<Rightarrow> dw_error + dwarf_eh_lsda" where
  "parse_lsda context mem data =
     and_then (read_value_with_encoding context mem data (GetRegionStart context)) (\<lambda>(lp, data).
     and_then (byte_at mem data) (\<lambda>tt_enc.
     let data = data + 1 in
     and_then (if tt_enc \<noteq> DW_EH_PE_omit
               then and_then (read_uleb128 mem data) (\<lambda>(v, data). Inr (of_nat data + v, data))
               else Inr (0, data)) (\<lambda>(tt, data).
     and_then (byte_at mem data) (\<lambda>cs_enc.
     let data = data + 1 in
     and_then (read_uleb128 mem data) (\<lambda>(callsite_size, data).
     Inr \<lparr> region_start = GetRegionStart context, landing_pads = lp, type_table = tt,
           type_table_encoding = tt_enc, call_site_table = of_nat data,
           action_table = of_nat data + callsite_size, callsite_encoding = cs_enc \<rparr>)))))"

record dwarf_eh_action =
  landing_pad :: u64
  action_record :: u64

text \<open>What \<^verbatim>\<open>result\<close> is set to for the entry that covers the instruction pointer.\<close>

definition call_site_action :: "dwarf_eh_lsda \<Rightarrow> u64 \<Rightarrow> u64 \<Rightarrow> dwarf_eh_action" where
  "call_site_action lsda pad action =
     \<lparr> landing_pad = (if pad \<noteq> 0 then landing_pads lsda + pad else 0),
       action_record = (if action \<noteq> 0 then action_table lsda + action - 1 else 0) \<rparr>"

function find_loop :: "memory \<Rightarrow> dwarf_eh_lsda \<Rightarrow> u64 \<Rightarrow> nat \<Rightarrow> dw_error + bool \<times> dwarf_eh_action" where
  "find_loop mem lsda ip callsite_table =
     (if callsite_table \<le> unat (action_table lsda) then
        and_then (read_value mem (callsite_encoding lsda) callsite_table) (\<lambda>(call_site_start, t1).
        and_then (read_value mem (callsite_encoding lsda) t1) (\<lambda>(call_site_size, t2).
        if ip < call_site_start then Inr (False, \<lparr>landing_pad = 0, action_record = 0\<rparr>)
        else
          and_then (read_value mem (callsite_encoding lsda) t2) (\<lambda>(pad, t3).
          and_then (read_uleb128 mem t3) (\<lambda>(action, t4).
          if call_site_start < ip \<and> ip \<le> call_site_start + call_site_size
          then Inr (True, call_site_action lsda pad action)
          else find_loop mem lsda ip t4))))
      else Inr (False, \<lparr>landing_pad = 0, action_record = 0\<rparr>))"
  by pat_completeness auto
termination
  by (relation "measure (\<lambda>(mem, lsda, ip, t). Suc (unat (action_table lsda)) - t)")
    (auto dest!: read_value_advances read_uleb128_advances)

declare find_loop.simps [simp del]

definition dwarf_eh_find_callsite ::
  "unwind_context \<Rightarrow> memory \<Rightarrow> dwarf_eh_lsda \<Rightarrow> dw_error + bool \<times> dwarf_eh_action" where
  "dwarf_eh_find_callsite context mem lsda =
     find_loop mem lsda (GetIP context - GetRegionStart context) (unat (call_site_table lsda))"

subsection \<open>Readers\<close>

locale value_reader =
  fixes rd :: "memory \<Rightarrow> nat \<Rightarrow> dw_error + u64 \<times> nat"
    and bytes :: "int \<Rightarrow> u8 list"
    and range :: "int \<Rightarrow> bool"
  assumes reads: "range i \<Longrightarrow> holds mem p (bytes i) \<Longrightarrow> rd mem p = Inr (of_int i, p + length (bytes i))"
    and advances: "rd mem p = Inr (v, q) \<Longrightarrow> p < q"
begin

lemma bytes_nonempty: "range i \<Longrightarrow> 0 < length (bytes i)"
proof -
  assume r: "range i"
  define mem :: memory where "mem = (\<lambda>p. if p < length (bytes i) then Some (bytes i ! p) else None)"
  have "holds mem p xs" if "\<forall>k < length xs. mem (p + k) = Some (xs ! k)" for p and xs :: "u8 list"
    using that by (induction xs arbitrary: p) (auto, force)
  then have "holds mem 0 (bytes i)" by (simp add: mem_def)
  from advances [OF reads [OF r this]] show ?thesis by simp
qed

lemma reads_next:
  assumes "range i" "holds mem p (bytes i @ bs)"
  shows "and_then (rd mem p) f = f (of_int i, p + length (bytes i))" "holds mem (p + length (bytes i)) bs"
  using assms reads by simp_all

end

interpretation enc: value_reader "\<lambda>mem. read_value mem e" "value_bytes e" "encodable e" for e
  by unfold_locales (auto intro: read_value_holds dest: read_value_advances)

interpretation uleb: value_reader read_uleb128 "\<lambda>i. uleb_bytes (nat i)" "\<lambda>i. 0 \<le> i \<and> i < 2 ^ 31"
  by unfold_locales (auto simp: read_uleb128_holds nat_less_iff dest: read_uleb128_advances)

interpretation sleb: value_reader read_sleb128 sleb_bytes "\<lambda>i. - (2 ^ 31) \<le> i \<and> i < 2 ^ 31"
  by unfold_locales (auto simp: read_sleb128_holds dest: read_sleb128_advances)

subsection \<open>The call-site table\<close>

record call_site =
  cs_start :: int
  cs_size :: int
  cs_pad :: int
  cs_action :: int

definition entry_bytes :: "u8 \<Rightarrow> call_site \<Rightarrow> u8 list" where
  "entry_bytes e c = value_bytes e (cs_start c) @ value_bytes e (cs_size c) @ value_bytes e (cs_pad c) @
     uleb_bytes (nat (cs_action c))"

definition entry_fits :: "u8 \<Rightarrow> call_site \<Rightarrow> bool" where
  "entry_fits e c \<longleftrightarrow> encodable e (cs_start c) \<and> encodable e (cs_size c) \<and> encodable e (cs_pad c) \<and>
     0 \<le> cs_action c \<and> cs_action c < 2 ^ 31"

definition covers :: "u64 \<Rightarrow> call_site \<Rightarrow> bool" where
  "covers ip c \<longleftrightarrow> of_int (cs_start c) < ip \<and> ip \<le> of_int (cs_start c) + of_int (cs_size c)"

text \<open>The search: the entry that covers \<open>ip\<close>, up to the first that begins after it.\<close>

fun covering :: "u64 \<Rightarrow> call_site list \<Rightarrow> call_site option" where
  "covering ip [] = None"
| "covering ip (c # cs) =
     (if ip < of_int (cs_start c) then None else if covers ip c then Some c else covering ip cs)"

text \<open>It is settled inside the table when some entry covers \<open>ip\<close> or begins after it.\<close>

definition settled :: "u64 \<Rightarrow> call_site list \<Rightarrow> bool" where
  "settled ip cs \<longleftrightarrow> (\<exists>c \<in> set cs. covers ip c \<or> ip < of_int (cs_start c))"

definition outcome :: "dwarf_eh_lsda \<Rightarrow> call_site option \<Rightarrow> bool \<times> dwarf_eh_action" where
  "outcome lsda r =
     (case r of None \<Rightarrow> (False, \<lparr>landing_pad = 0, action_record = 0\<rparr>)
      | Some c \<Rightarrow> (True, call_site_action lsda (of_int (cs_pad c)) (of_int (cs_action c))))"

lemma find_loop_entry:
  assumes "p \<le> unat (action_table lsda)" "entry_fits (callsite_encoding lsda) c"
    "holds mem p (entry_bytes (callsite_encoding lsda) c)"
  shows "find_loop mem lsda ip p =
    (if ip < of_int (cs_start c) then Inr (outcome lsda None)
     else if covers ip c then Inr (outcome lsda (Some c))
     else find_loop mem lsda ip (p + length (entry_bytes (callsite_encoding lsda) c)))"
proof -
  let ?e = "callsite_encoding lsda"
  have f: "encodable ?e (cs_start c)" "encodable ?e (cs_size c)" "encodable ?e (cs_pad c)" "0 \<le> cs_action c \<and> cs_action c < 2 ^ 31"
    using assms(2) by (simp_all add: entry_fits_def)
  note h1 = assms(3) [unfolded entry_bytes_def]
  note h2 = enc.reads_next(2) [OF f(1) h1]
  note h3 = enc.reads_next(2) [OF f(2) h2]
  note h4 = enc.reads_next(2) [OF f(3) h3]
  show ?thesis
    by (subst find_loop.simps)
      (simp add: assms(1) enc.reads_next(1) [OF f(1) h1] enc.reads_next(1) [OF f(2) h2]
        enc.reads_next(1) [OF f(3) h3] uleb.reads [OF f(4) h4] outcome_def covers_def entry_bytes_def flip: add.assoc)
qed

lemma find_loop_covering:
  assumes "holds mem p (concat (map (entry_bytes (callsite_encoding lsda)) cs))"
    "list_all (entry_fits (callsite_encoding lsda)) cs" "settled ip cs"
    "unat (action_table lsda) = p + length (concat (map (entry_bytes (callsite_encoding lsda)) cs))"
  shows "find_loop mem lsda ip p = Inr (outcome lsda (covering ip cs))"
  using assms
proof (induction cs arbitrary: p)
  case Nil
  then show ?case by (simp add: settled_def)
next
  case (Cons c cs)
  have "find_loop mem lsda ip p =
    (if ip < of_int (cs_start c) then Inr (outcome lsda None)
     else if covers ip c then Inr (outcome lsda (Some c))
     else find_loop mem lsda ip (p + length (entry_bytes (callsite_encoding lsda) c)))"
    by (rule find_loop_entry) (use Cons.prems in simp_all)
  then show ?case using Cons.IH [of "p + length (entry_bytes (callsite_encoding lsda) c)"] Cons.prems
    by (auto simp: settled_def)
qed

text \<open>In a table sorted by start the search finds an entry that covers \<open>ip\<close> whenever there is one.\<close>

lemma covering_sound: "covering ip cs = Some c \<Longrightarrow> c \<in> set cs \<and> covers ip c"
  by (induction cs) (auto split: if_splits)

lemma covering_complete:
  "sorted_wrt (\<lambda>c d. of_int (cs_start c) \<le> (of_int (cs_start d) :: u64)) cs \<Longrightarrow> covering ip cs = None \<Longrightarrow>
    c \<in> set cs \<Longrightarrow> \<not> covers ip c"
proof (induction cs)
  case (Cons d cs)
  then show ?case by (auto simp: covers_def split: if_splits)
qed simp

subsection \<open>The header\<close>

text \<open>
  The base of the landing pads, with its encoding, or that it is omitted: its bytes, and the address it stands
  for in a data area at \<open>p\<close>, which a relative encoding counts from the beginning of the area, of the text, of
  the data or of the function. Indirect encodings, which hold the address of the address, are left out.
\<close>

definition lp_bytes :: "(u8 \<times> int) option \<Rightarrow> u8 list" where
  "lp_bytes lp = (case lp of None \<Rightarrow> [DW_EH_PE_omit] | Some (le, v) \<Rightarrow> le # value_bytes le v)"

definition lp_fits :: "(u8 \<times> int) option \<Rightarrow> bool" where
  "lp_fits lp \<longleftrightarrow>
     (case lp of None \<Rightarrow> True
      | Some (le, v) \<Rightarrow> le \<noteq> DW_EH_PE_omit \<and> \<not> is_indirect le \<and> encodable le v)"

definition lp_start :: "unwind_context \<Rightarrow> nat \<Rightarrow> (u8 \<times> int) option \<Rightarrow> u64" where
  "lp_start context p lp =
     (case lp of None \<Rightarrow> GetRegionStart context
      | Some (le, v) \<Rightarrow> of_int v +
          (if get_base le = DW_EH_PE_pcrel then of_nat p
           else if get_base le = DW_EH_PE_textrel then GetTextRelBase context
           else if get_base le = DW_EH_PE_datarel then GetDataRelBase context
           else if get_base le = DW_EH_PE_funcrel then GetRegionStart context else 0))"

lemma read_lp_holds:
  assumes "lp_fits lp" "holds mem p (lp_bytes lp)"
  shows "read_value_with_encoding context mem p (GetRegionStart context) =
    Inr (lp_start context p lp, p + length (lp_bytes lp))"
proof (cases lp)
  case None
  with assms show ?thesis by (simp add: read_value_with_encoding_def lp_bytes_def lp_start_def)
next
  case (Some a)
  obtain le v where a: "a = (le, v)" by (cases a)
  then have f: "le \<noteq> DW_EH_PE_omit" "\<not> is_indirect le" "encodable le v" "holds mem (Suc p) (value_bytes le v)"
    "byte_at mem p = Inr le"
    using assms Some by (simp_all add: lp_fits_def lp_bytes_def)
  then show ?thesis
    using read_value_holds [OF f(3,4)] Some a
    by (simp add: read_value_with_encoding_def resolve_indirect_value_def lp_bytes_def lp_start_def add.commute)
qed

text \<open>
  A header, with or without a base for the landing pads, with or without a type table (its encoding and its
  distance), for a call-site table of \<open>n\<close> bytes, and what it is parsed as at address \<open>p\<close>.
\<close>

definition data_header :: "(u8 \<times> int) option \<Rightarrow> (u8 \<times> nat) option \<Rightarrow> u8 \<Rightarrow> nat \<Rightarrow> u8 list" where
  "data_header lp tt e n =
     lp_bytes lp @ (case tt of None \<Rightarrow> [DW_EH_PE_omit] | Some (te, off) \<Rightarrow> [te] @ uleb_bytes off) @
     [e] @ uleb_bytes n"

definition header_fits :: "(u8 \<times> nat) option \<Rightarrow> nat \<Rightarrow> bool" where
  "header_fits tt n \<longleftrightarrow> n < 2 ^ 31 \<and> (case tt of None \<Rightarrow> True | Some (te, off) \<Rightarrow> te \<noteq> DW_EH_PE_omit \<and> off < 2 ^ 31)"

definition data_lsda ::
  "unwind_context \<Rightarrow> nat \<Rightarrow> (u8 \<times> int) option \<Rightarrow> (u8 \<times> nat) option \<Rightarrow> u8 \<Rightarrow> nat \<Rightarrow> dwarf_eh_lsda" where
  "data_lsda context p lp tt e n =
     \<lparr> region_start = GetRegionStart context, landing_pads = lp_start context p lp,
       type_table = (case tt of None \<Rightarrow> 0
         | Some (te, off) \<Rightarrow> of_nat (p + length (lp_bytes lp) + 1 + length (uleb_bytes off) + off)),
       type_table_encoding = (case tt of None \<Rightarrow> DW_EH_PE_omit | Some (te, off) \<Rightarrow> te),
       call_site_table = of_nat (p + length (data_header lp tt e n)),
       action_table = of_nat (p + length (data_header lp tt e n) + n), callsite_encoding = e \<rparr>"

lemma parse_header_holds:
  assumes "lp_fits lp" "header_fits tt n" "holds mem p (data_header lp tt e n)"
  shows "parse_lsda context mem p = Inr (data_lsda context p lp tt e n)"
proof -
  define q where "q = p + length (lp_bytes lp)"
  have h: "holds mem p (lp_bytes lp)"
    "holds mem q ((case tt of None \<Rightarrow> [DW_EH_PE_omit] | Some (te, off) \<Rightarrow> [te] @ uleb_bytes off) @ [e] @ uleb_bytes n)"
    using assms(3) by (simp_all add: data_header_def q_def)
  have lp: "read_value_with_encoding context mem p (GetRegionStart context) = Inr (lp_start context p lp, q)"
    using read_lp_holds [OF assms(1) h(1)] by (simp add: q_def)
  show ?thesis
  proof (cases tt)
    case None
    with assms(2) h(2) read_uleb128_holds [of mem "Suc (Suc q)" n] show ?thesis
      unfolding parse_lsda_def lp by (simp add: data_header_def data_lsda_def header_fits_def q_def algebra_simps)
  next
    case (Some t)
    obtain te off where "t = (te, off)" by (cases t)
    with Some assms(2) h(2) read_uleb128_holds [of mem "Suc q" off]
      read_uleb128_holds [of mem "Suc (Suc (q + length (uleb_bytes off)))" n]
    show ?thesis
      unfolding parse_lsda_def lp by (simp add: data_header_def data_lsda_def header_fits_def q_def algebra_simps)
  qed
qed

text \<open>From the address of the data area to the answer.\<close>

definition data_area :: "(u8 \<times> int) option \<Rightarrow> (u8 \<times> nat) option \<Rightarrow> u8 \<Rightarrow> call_site list \<Rightarrow> u8 list" where
  "data_area lp tt e cs =
     (let table = concat (map (entry_bytes e) cs) in data_header lp tt e (length table) @ table)"

lemma find_in_area:
  defines "table \<equiv> \<lambda>e cs. concat (map (entry_bytes e) cs)"
  assumes "lp_fits lp" "header_fits tt (length (table e cs))" "list_all (entry_fits e) cs"
    "holds mem p (data_area lp tt e cs)" "p + length (data_area lp tt e cs) < 2 ^ 64"
    "settled (GetIP context - GetRegionStart context) cs"
  shows "and_then (parse_lsda context mem p) (dwarf_eh_find_callsite context mem) =
    Inr (outcome (data_lsda context p lp tt e (length (table e cs))) (covering (GetIP context - GetRegionStart context) cs))"
proof -
  define lsda where "lsda = data_lsda context p lp tt e (length (table e cs))"
  have area: "data_area lp tt e cs = data_header lp tt e (length (table e cs)) @ table e cs"
    by (simp add: data_area_def table_def Let_def)
  have a: "call_site_table lsda = of_nat (p + length (data_header lp tt e (length (table e cs))))"
    "action_table lsda = of_nat (p + length (data_header lp tt e (length (table e cs))) + length (table e cs))"
    "callsite_encoding lsda = e"
    by (simp_all add: lsda_def data_lsda_def)
  then have u: "unat (call_site_table lsda) = p + length (data_header lp tt e (length (table e cs)))"
    "unat (action_table lsda) = p + length (data_header lp tt e (length (table e cs))) + length (table e cs)"
    using assms(6) unfolding area by (simp_all add: unat_of_nat del: of_nat_add)
  have "parse_lsda context mem p = Inr lsda"
    unfolding lsda_def by (rule parse_header_holds) (use assms area in simp_all)
  moreover have "find_loop mem lsda (GetIP context - GetRegionStart context) (unat (call_site_table lsda)) =
      Inr (outcome lsda (covering (GetIP context - GetRegionStart context) cs))"
    by (rule find_loop_covering) (use assms u a(3) area in \<open>simp_all add: table_def\<close>)
  ultimately show ?thesis by (simp add: dwarf_eh_find_callsite_def lsda_def)
qed

text \<open>The landing pad and the action record of an entry, from the numbers that were encoded.\<close>

lemma encoded_nonzero:
  assumes "encodable e i"
  shows "(of_int i :: u64) = 0 \<longleftrightarrow> i = 0"
proof -
  have b: "- (2 ^ 63) \<le> i" "i < 2 ^ 64" using assms by (auto simp: encodable_def Let_def split: if_splits)
  have "(of_int i :: u64) = 0 \<longleftrightarrow> 2 ^ 64 dvd i" by (simp add: word_of_int_eq_0_iff)
  also have "\<dots> \<longleftrightarrow> i = 0" using b zdvd_not_zless [of i "2 ^ 64"] zdvd_not_zless [of "- i" "2 ^ 64"] by (cases i "0 :: int" rule: linorder_cases) auto
  finally show ?thesis .
qed

lemma entry_outcome:
  assumes "entry_fits e c"
  shows "outcome lsda (Some c) =
    (True, \<lparr> landing_pad = (if cs_pad c = 0 then 0 else landing_pads lsda + of_int (cs_pad c)),
             action_record = (if cs_action c = 0 then 0 else action_table lsda + of_int (cs_action c - 1)) \<rparr>)"
proof -
  have "(of_int (cs_pad c) :: u64) = 0 \<longleftrightarrow> cs_pad c = 0"
    using assms encoded_nonzero by (auto simp: entry_fits_def)
  moreover have "(of_int (cs_action c) :: u64) = 0 \<longleftrightarrow> cs_action c = 0"
    using assms encoded_nonzero [of DW_EH_PE_uleb128] by (simp add: entry_fits_def encodable_def get_encoding_def dw_constants)
  ultimately show ?thesis by (simp add: outcome_def call_site_action_def algebra_simps)
qed

lemma covering_find: "covering ip cs = List.find (covers ip) (takeWhile (\<lambda>c. \<not> ip < of_int (cs_start c)) cs)"
  by (induction cs) auto

lemma covering_sorted:
  assumes "sorted_wrt (\<lambda>c d. of_int (cs_start c) \<le> (of_int (cs_start d) :: u64)) cs"
  shows "covering ip cs = List.find (covers ip) cs"
  using assms
proof (induction cs)
  case (Cons c cs)
  have "List.find (covers ip) cs = None" "\<not> covers ip c" if "ip < of_int (cs_start c)"
    using that Cons.prems by (force simp: find_None_iff covers_def)+
  with Cons show ?case by auto
qed simp

subsection \<open>Without a base for the landing pads\<close>

definition lsda_header :: "(u8 \<times> nat) option \<Rightarrow> u8 \<Rightarrow> nat \<Rightarrow> u8 list" where
  "lsda_header tt e n =
     [DW_EH_PE_omit] @ (case tt of None \<Rightarrow> [DW_EH_PE_omit] | Some (te, off) \<Rightarrow> [te] @ uleb_bytes off) @
     [e] @ uleb_bytes n"

definition lsda_at :: "unwind_context \<Rightarrow> nat \<Rightarrow> (u8 \<times> nat) option \<Rightarrow> u8 \<Rightarrow> nat \<Rightarrow> dwarf_eh_lsda" where
  "lsda_at context p tt e n =
     \<lparr> region_start = GetRegionStart context, landing_pads = GetRegionStart context,
       type_table = (case tt of None \<Rightarrow> 0 | Some (te, off) \<Rightarrow> of_nat (p + 2 + length (uleb_bytes off) + off)),
       type_table_encoding = (case tt of None \<Rightarrow> DW_EH_PE_omit | Some (te, off) \<Rightarrow> te),
       call_site_table = of_nat (p + length (lsda_header tt e n)),
       action_table = of_nat (p + length (lsda_header tt e n) + n), callsite_encoding = e \<rparr>"

lemma without_base: "lsda_header tt e n = data_header None tt e n" "lsda_at context p tt e n = data_lsda context p None tt e n"
  by (simp_all add: lsda_header_def data_header_def lsda_at_def data_lsda_def lp_bytes_def lp_start_def split: option.split)

lemma parse_lsda_holds:
  assumes "header_fits tt n" "holds mem p (lsda_header tt e n)"
  shows "parse_lsda context mem p = Inr (lsda_at context p tt e n)"
  using parse_header_holds [of None tt n mem p e] assms by (simp add: without_base lp_fits_def)

lemma find_callsite_holds:
  defines "table \<equiv> \<lambda>e cs. concat (map (entry_bytes e) cs)"
  assumes "header_fits tt (length (table e cs))" "list_all (entry_fits e) cs"
    "holds mem p (lsda_header tt e (length (table e cs)) @ table e cs)"
    "p + length (lsda_header tt e (length (table e cs)) @ table e cs) < 2 ^ 64"
    "settled (GetIP context - GetRegionStart context) cs"
  shows "and_then (parse_lsda context mem p) (dwarf_eh_find_callsite context mem) =
    Inr (outcome (lsda_at context p tt e (length (table e cs))) (covering (GetIP context - GetRegionStart context) cs))"
  using find_in_area [of None tt e cs mem p "context"] assms
  by (simp add: without_base data_area_def table_def lp_fits_def Let_def)

end
