(* ===== verification/Type_Info.thy ===== *)
theory Type_Info
  imports Dwarf_Value
begin

unbundle bit_operations_syntax

text \<open>
  Type descriptors and casts, \<^verbatim>\<open>3rd_party/libcxxrt/src/typeinfo.h\<close>, \<^verbatim>\<open>typeinfo.cc\<close> and \<^verbatim>\<open>dynamic_cast.cc\<close>. A
  descriptor is a value of the type \<open>type_info\<close>, one constructor per class of descriptors the code
  distinguishes, with the address it is compared by and the address of its name. The virtual functions are
  functions by cases on it. Virtual bases are found through the vtable of the object, so casts read
  memory.

  A cast is compared with \<open>subobject\<close>, the relation between an object and the objects of its base classes.
\<close>

datatype type_info =
    Simple_Type nat nat
  | Class_Type nat nat
  | Si_Class_Type nat nat type_info
  | Vmi_Class_Type nat nat "(type_info \<times> u64) list"
  | Pointer_Type nat nat u32 type_info
  | Member_Pointer_Type nat nat u32 type_info

fun ti_addr :: "type_info \<Rightarrow> nat" where
  "ti_addr (Simple_Type a n) = a"
| "ti_addr (Class_Type a n) = a"
| "ti_addr (Si_Class_Type a n b) = a"
| "ti_addr (Vmi_Class_Type a n bs) = a"
| "ti_addr (Pointer_Type a n f p) = a"
| "ti_addr (Member_Pointer_Type a n f p) = a"

fun ti_name :: "type_info \<Rightarrow> nat" where
  "ti_name (Simple_Type a n) = n"
| "ti_name (Class_Type a n) = n"
| "ti_name (Si_Class_Type a n b) = n"
| "ti_name (Vmi_Class_Type a n bs) = n"
| "ti_name (Pointer_Type a n f p) = n"
| "ti_name (Member_Pointer_Type a n f p) = n"

text \<open>\<^verbatim>\<open>type_info::operator==\<close> compares the addresses of the names.\<close>

definition ti_equal :: "type_info \<Rightarrow> type_info \<Rightarrow> bool" where
  "ti_equal s t \<longleftrightarrow> ti_name s = ti_name t"

fun is_pointer_p :: "type_info \<Rightarrow> bool" where
  "is_pointer_p (Pointer_Type a n f p) \<longleftrightarrow> True"
| "is_pointer_p _ \<longleftrightarrow> False"

text \<open>\<^verbatim>\<open>dynamic_cast<const __class_type_info *>(type)\<close>\<close>

fun is_class :: "type_info \<Rightarrow> bool" where
  "is_class (Class_Type a n) \<longleftrightarrow> True"
| "is_class (Si_Class_Type a n b) \<longleftrightarrow> True"
| "is_class (Vmi_Class_Type a n bs) \<longleftrightarrow> True"
| "is_class _ \<longleftrightarrow> False"

subsection \<open>Base classes\<close>

definition virtual_mask :: u64 where "virtual_mask = 0x1"
definition public_mask :: u64 where "public_mask = 0x2"

definition base_offset :: "u64 \<Rightarrow> u64" where
  "base_offset offset_flags = signed_drop_bit 8 offset_flags"

definition base_flags :: "u64 \<Rightarrow> u64" where
  "base_flags offset_flags = offset_flags AND (push_bit 8 1 - 1)"

definition isPublic :: "u64 \<Rightarrow> bool" where
  "isPublic offset_flags \<longleftrightarrow> base_flags offset_flags AND public_mask \<noteq> 0"

definition isVirtual :: "u64 \<Rightarrow> bool" where
  "isVirtual offset_flags \<longleftrightarrow> base_flags offset_flags AND virtual_mask \<noteq> 0"

text \<open>A word in memory, and where the base object begins in the object at \<open>obj\<close>.\<close>

definition load_word :: "memory \<Rightarrow> u64 \<Rightarrow> dw_error + u64" where
  "load_word mem p = and_then (load_le mem (unat p) 8) (\<lambda>v. Inr (of_nat v))"

definition base_object :: "memory \<Rightarrow> u64 \<Rightarrow> u64 \<Rightarrow> dw_error + u64" where
  "base_object mem offset_flags obj =
     (if isVirtual offset_flags then
        and_then (load_word mem obj) (\<lambda>vtable.
        and_then (load_word mem (vtable + base_offset offset_flags)) (\<lambda>offset. Inr (obj + offset)))
      else Inr (obj + base_offset offset_flags))"

text \<open>\<^verbatim>\<open>__do_upcast\<close> of the four kinds of descriptor: the adjusted pointer, or \<open>None\<close> for false.\<close>

fun do_upcast :: "memory \<Rightarrow> type_info \<Rightarrow> nat \<Rightarrow> u64 \<Rightarrow> dw_error + u64 option"
  and upcast_bases :: "memory \<Rightarrow> (type_info \<times> u64) list \<Rightarrow> nat \<Rightarrow> u64 \<Rightarrow> dw_error + u64 option" where
  "do_upcast mem (Class_Type a n) target obj = Inr (if a = target then Some obj else None)"
| "do_upcast mem (Si_Class_Type a n b) target obj =
     (if a = target then Inr (Some obj) else do_upcast mem b target obj)"
| "do_upcast mem (Vmi_Class_Type a n bs) target obj =
     (if a = target then Inr (Some obj) else upcast_bases mem bs target obj)"
| "do_upcast mem (Simple_Type a n) target obj = Inr None"
| "do_upcast mem (Pointer_Type a n f p) target obj = Inr None"
| "do_upcast mem (Member_Pointer_Type a n f p) target obj = Inr None"
| "upcast_bases mem [] target obj = Inr None"
| "upcast_bases mem ((b, offset_flags) # bs) target obj =
     and_then (base_object mem offset_flags obj) (\<lambda>cast.
       if ti_addr b = target then Inr (Some cast)
       else and_then (do_upcast mem b target cast) (\<lambda>r.
         case r of Some c \<Rightarrow> Inr (Some c) | None \<Rightarrow> upcast_bases mem bs target obj))"

text \<open>\<^verbatim>\<open>cast_to\<close>, with 0 for a cast that fails.\<close>

fun cast_to :: "memory \<Rightarrow> type_info \<Rightarrow> u64 \<Rightarrow> nat \<Rightarrow> dw_error + u64" where
  "cast_to mem (Si_Class_Type a n b) obj other = (if a = other then Inr obj else cast_to mem b obj other)"
| "cast_to mem (Vmi_Class_Type a n bs) obj other =
     and_then (do_upcast mem (Vmi_Class_Type a n bs) other obj) (\<lambda>r. Inr (case r of Some c \<Rightarrow> c | None \<Rightarrow> 0))"
| "cast_to mem t obj other = Inr (if ti_addr t = other then obj else 0)"

text \<open>
  \<^verbatim>\<open>__dynamic_cast\<close>: in front of the vtable are the offset of the complete object and its type; \<open>types\<close>
  has the descriptors by address.
\<close>

definition dynamic_cast :: "memory \<Rightarrow> (u64 \<Rightarrow> type_info option) \<Rightarrow> u64 \<Rightarrow> nat \<Rightarrow> dw_error + u64" where
  "dynamic_cast mem types sub dst =
     and_then (load_word mem sub) (\<lambda>vtable.
     and_then (load_word mem (vtable - 16)) (\<lambda>leaf_offset.
     and_then (load_word mem (vtable - 8)) (\<lambda>type.
     case types type of None \<Rightarrow> Inl Unmapped | Some t \<Rightarrow> cast_to mem t (sub + leaf_offset) dst)))"

subsection \<open>Catching\<close>

definition const_mask :: u32 where "const_mask = 0x1"

text \<open>
  \<^verbatim>\<open>__do_catch\<close>, the version for pointers and the one for all other types. \<open>void_name\<close> is the name of
  \<^verbatim>\<open>typeid(void)\<close>.
\<close>

fun do_catch :: "memory \<Rightarrow> nat \<Rightarrow> type_info \<Rightarrow> type_info \<Rightarrow> u64 \<Rightarrow> u32 \<Rightarrow> dw_error + u64 option"
  and pbase_do_catch :: "memory \<Rightarrow> nat \<Rightarrow> nat \<Rightarrow> u32 \<Rightarrow> type_info \<Rightarrow> type_info \<Rightarrow> u64 \<Rightarrow> u32 \<Rightarrow> dw_error + u64 option" where
  "do_catch mem void_name (Pointer_Type a n f p) ex_type obj outer =
     pbase_do_catch mem void_name a f p ex_type obj outer"
| "do_catch mem void_name (Member_Pointer_Type a n f p) ex_type obj outer =
     pbase_do_catch mem void_name a f p ex_type obj outer"
| "do_catch mem void_name t ex_type obj outer =
     (if ti_addr t = ti_addr ex_type then Inr (Some obj)
      else if is_class t then do_upcast mem ex_type (ti_addr t) obj
      else Inr None)"
| "pbase_do_catch mem void_name a f p ex_type obj outer =
     (if ti_addr ex_type = a then Inr (Some obj)
      else case ex_type of
        Pointer_Type a' n' f' p' \<Rightarrow>
          if outer AND 1 = 0 then Inr None
          else let outer' = (if f AND const_mask = 0 then outer AND NOT 1 else outer) in
            if f' AND NOT f \<noteq> 0 then Inr None
            else if ti_name p = void_name then Inr (Some obj)
            else do_catch mem void_name p p' obj outer'
      | _ \<Rightarrow> Inr None)"

subsection \<open>Base objects\<close>

inductive subobject :: "memory \<Rightarrow> type_info \<Rightarrow> u64 \<Rightarrow> type_info \<Rightarrow> u64 \<Rightarrow> bool" for mem where
  subobject_refl: "subobject mem t p t p"
| subobject_si: "subobject mem b p s q \<Longrightarrow> subobject mem (Si_Class_Type a n b) p s q"
| subobject_vmi: "(b, off) \<in> set bs \<Longrightarrow> base_object mem off p = Inr c \<Longrightarrow> subobject mem b c s q \<Longrightarrow>
    subobject mem (Vmi_Class_Type a n bs) p s q"

inductive_cases subobject_cases [elim!]:
  "subobject mem (Class_Type a n) p s q" "subobject mem (Simple_Type a n) p s q"
  "subobject mem (Pointer_Type a n f t) p s q" "subobject mem (Member_Pointer_Type a n f t) p s q"

inductive_cases subobject_siE: "subobject mem (Si_Class_Type a n b) p s q"
inductive_cases subobject_vmiE: "subobject mem (Vmi_Class_Type a n bs) p s q"

text \<open>A class has classes as its bases.\<close>

fun well_formed :: "type_info \<Rightarrow> bool" where
  "well_formed (Si_Class_Type a n b) \<longleftrightarrow> is_class b \<and> well_formed b"
| "well_formed (Vmi_Class_Type a n bs) \<longleftrightarrow> list_all (\<lambda>b. is_class (fst b) \<and> well_formed (fst b)) bs"
| "well_formed (Pointer_Type a n f p) \<longleftrightarrow> well_formed p"
| "well_formed (Member_Pointer_Type a n f p) \<longleftrightarrow> well_formed p"
| "well_formed _ \<longleftrightarrow> True"

lemma upcast_sound:
  "do_upcast mem t target p = Inr (Some q) \<Longrightarrow> \<exists>s. ti_addr s = target \<and> subobject mem t p s q"
  "upcast_bases mem bs target p = Inr (Some q) \<Longrightarrow>
    \<exists>b off c s. (b, off) \<in> set bs \<and> base_object mem off p = Inr c \<and> ti_addr s = target \<and> subobject mem b c s q"
proof (induction mem t target p and mem bs target p arbitrary: q and q rule: do_upcast_upcast_bases.induct)
  case (8 mem b off bs target obj)
  then obtain c where c: "base_object mem off obj = Inr c" by (auto simp: and_then_Inr)
  show ?case
  proof (cases "ti_addr b = target")
    case True
    then have "q = c" using "8.prems" c by simp
    then show ?thesis using True c subobject_refl by (metis list.set_intros(1))
  next
    case False
    then obtain r where r: "do_upcast mem b target c = Inr r" using "8.prems" c by (auto simp: and_then_Inr)
    show ?thesis
    proof (cases r)
      case None
      then have "upcast_bases mem bs target obj = Inr (Some q)" using "8.prems" c False r by simp
      from "8.IH"(2) [OF c False r None this] show ?thesis by (metis list.set_intros(2))
    next
      case (Some c')
      then have "do_upcast mem b target c = Inr (Some q)" using "8.prems" c False r by simp
      from "8.IH"(1) [OF c False this] c show ?thesis by (metis list.set_intros(1))
    qed
  qed
qed (auto split: if_splits intro: subobject.intros, (metis subobject_refl ti_addr.simps)+)

lemma upcast_complete:
  "do_upcast mem t target p = Inr None \<Longrightarrow> well_formed t \<Longrightarrow> is_class t \<Longrightarrow> subobject mem t p s q \<Longrightarrow> ti_addr s \<noteq> target"
  "upcast_bases mem bs target p = Inr None \<Longrightarrow> list_all (\<lambda>b. is_class (fst b) \<and> well_formed (fst b)) bs \<Longrightarrow>
    (b, off) \<in> set bs \<Longrightarrow> base_object mem off p = Inr c \<Longrightarrow> subobject mem b c s q \<Longrightarrow> ti_addr s \<noteq> target"
proof (induction mem t target p and mem bs target p arbitrary: s q and b off c s q rule: do_upcast_upcast_bases.induct)
  case (2 mem a n b target obj)
  from "2.prems"(4) show ?case
    by (rule subobject_siE) (use 2 in \<open>auto split: if_splits\<close>)
next
  case (3 mem a n bs target obj)
  from "3.prems"(4) show ?case
    by (rule subobject_vmiE) (use 3 in \<open>auto split: if_splits\<close>)
next
  case (8 mem b' off' bs target obj)
  then obtain c' where c: "base_object mem off' obj = Inr c'" by (auto simp: and_then_Inr)
  have a: "ti_addr b' \<noteq> target" using "8.prems"(1) c by auto
  then obtain r where r: "do_upcast mem b' target c' = Inr r" using "8.prems"(1) c by (auto simp: and_then_Inr)
  then have None: "r = None" "upcast_bases mem bs target obj = Inr None"
    using "8.prems"(1) c a by (auto split: option.splits)
  from "8.prems"(3) consider "b = b'" "off = off'" | "(b, off) \<in> set bs" by auto
  then show ?case
  proof cases
    case 1
    then show ?thesis using "8.IH"(1) [OF c a] r None "8.prems" c by auto
  next
    case 2
    then show ?thesis using "8.IH"(2) [OF c a r None(1,2)] "8.prems" by auto
  qed
qed (auto split: if_splits)

text \<open>
  When all base objects of a class are in one place, an upcast is exact.
\<close>

definition unambiguous :: "memory \<Rightarrow> type_info \<Rightarrow> u64 \<Rightarrow> nat \<Rightarrow> bool" where
  "unambiguous mem t p target \<longleftrightarrow>
     (\<forall>s q s' q'. subobject mem t p s q \<longrightarrow> ti_addr s = target \<longrightarrow> subobject mem t p s' q' \<longrightarrow> ti_addr s' = target \<longrightarrow> q = q')"

lemma upcast_exact:
  assumes "well_formed t" "is_class t" "do_upcast mem t target p = Inr r"
  shows "(r = None \<longleftrightarrow> \<not> (\<exists>s q. subobject mem t p s q \<and> ti_addr s = target)) \<and>
    (\<forall>q. r = Some q \<longrightarrow> (\<exists>s. subobject mem t p s q \<and> ti_addr s = target))"
  using upcast_sound(1) [of mem t target p] upcast_complete(1) [of mem t target p] assms by (cases r) blast+

lemma upcast_unambiguous:
  assumes "well_formed t" "is_class t" "do_upcast mem t target p = Inr r" "unambiguous mem t p target"
    "subobject mem t p s q" "ti_addr s = target"
  shows "r = Some q"
  using upcast_exact [OF assms(1-3)] assms(4-6) unfolding unambiguous_def by (cases r) blast+

lemma cast_to_upcast:
  assumes "well_formed t" "is_class t" "do_upcast mem t other p = Inr r"
  shows "cast_to mem t p other = Inr (case r of Some q \<Rightarrow> q | None \<Rightarrow> 0)"
  using assms by (induction mem t p other rule: cast_to.induct) (auto split: if_splits)

end
