(* ===== verification/Cxa_Personality.thy ===== *)
theory Cxa_Personality
  imports Cxa_Exceptions Dwarf_Lsda Type_Info
begin

text \<open>
  The personality function of \<^verbatim>\<open>3rd_party/libcxxrt/src/exception.cc\<close>, which the unwinder calls for every
  frame: it looks up the call site, follows the action records, compares the type of the exception with
  those of the handlers, and installs a landing pad.

  The chain of action records and the list of an exception specification end only if the tables are well
  formed, so the loops over them are partial functions, \<open>None\<close> standing for a loop that does not end. The
  descriptors of types are given by \<open>types\<close>, from addresses; a thrown object by its address and the
  address of its type. Out parameters are results.

  The search is compared with \<open>first_handler\<close> on the list of the filters of a chain.
\<close>

datatype handler_type = handler_none | handler_cleanup | handler_catch

record thrown =
  thrown_ptr :: u64
  thrown_type :: u64

text \<open>What a conversion of a 64-bit value to \<^verbatim>\<open>int\<close> gives.\<close>

definition to_int :: "u64 \<Rightarrow> int" where
  "to_int w = sint (ucast w :: u32)"

definition get_type_info_entry :: "unwind_context \<Rightarrow> memory \<Rightarrow> dwarf_eh_lsda \<Rightarrow> int \<Rightarrow> dw_error + u64" where
  "get_type_info_entry context mem lsda flt =
     and_then (dwarf_size_of_fixed_size_field (type_table_encoding lsda)) (\<lambda>size.
     let start = type_table lsda - of_int (size * flt) in
     and_then (read_value mem (type_table_encoding lsda) (unat start)) (\<lambda>(offset, _).
     if offset = 0 then Inr 0
     else resolve_indirect_value context mem (type_table_encoding lsda) offset start))"

text \<open>Whether the type matches, and the pointer for the handler, which is left alone otherwise.\<close>

definition check_type_signature ::
  "memory \<Rightarrow> (u64 \<Rightarrow> type_info option) \<Rightarrow> nat \<Rightarrow> thrown option \<Rightarrow> u64 \<Rightarrow> u64 \<Rightarrow> dw_error + bool \<times> u64" where
  "check_type_signature mem types void_name ex type adjusted =
     (case ex of
        None \<Rightarrow> Inr (type = 0, adjusted)
      | Some x \<Rightarrow>
          (case types (thrown_type x) of
             None \<Rightarrow> Inl Unmapped
           | Some ex_type \<Rightarrow>
               and_then (if is_pointer_p ex_type then load_word mem (thrown_ptr x) else Inr (thrown_ptr x)) (\<lambda>ptr.
               if type = 0 then Inr (True, ptr)
               else case types type of
                 None \<Rightarrow> Inl Unmapped
               | Some t \<Rightarrow>
                   if ti_equal t ex_type then Inr (True, ptr)
                   else and_then (do_catch mem void_name t ex_type ptr 1) (\<lambda>r.
                     Inr (case r of Some q \<Rightarrow> (True, q) | None \<Rightarrow> (False, adjusted))))))"

text \<open>A catch clause: the entry of the type table, and the comparison.\<close>

definition check_clause ::
  "unwind_context \<Rightarrow> memory \<Rightarrow> (u64 \<Rightarrow> type_info option) \<Rightarrow> nat \<Rightarrow> dwarf_eh_lsda \<Rightarrow> thrown option \<Rightarrow> int \<Rightarrow> u64 \<Rightarrow>
    dw_error + bool \<times> u64" where
  "check_clause context mem types void_name lsda ex flt adjusted =
     and_then (get_type_info_entry context mem lsda flt) (\<lambda>ti.
       check_type_signature mem types void_name ex ti adjusted)"

text \<open>An exception specification: whether one of the types in the list at \<open>p\<close> matches.\<close>

partial_function (option) spec_loop ::
  "unwind_context \<Rightarrow> memory \<Rightarrow> (u64 \<Rightarrow> type_info option) \<Rightarrow> nat \<Rightarrow> dwarf_eh_lsda \<Rightarrow> thrown option \<Rightarrow> nat \<Rightarrow> u64 \<Rightarrow>
    (dw_error + bool \<times> u64) option" where
  "spec_loop context mem types void_name lsda ex p adjusted =
     (case byte_at mem p of
        Inl e \<Rightarrow> Some (Inl e)
      | Inr b \<Rightarrow>
          if b = 0 then Some (Inr (False, adjusted))
          else (case check_clause context mem types void_name lsda ex (uint b) adjusted of
              Inl e \<Rightarrow> Some (Inl e)
            | Inr (matched, q) \<Rightarrow>
                if matched then Some (Inr (True, q))
                else spec_loop context mem types void_name lsda ex (p + 1) adjusted))"

text \<open>The filter of the record at \<open>p\<close> and the address of the next record, 0 at the end.\<close>

definition read_action :: "memory \<Rightarrow> nat \<Rightarrow> dw_error + int \<times> nat" where
  "read_action mem p =
     and_then (read_sleb128 mem p) (\<lambda>(f, q).
     and_then (read_sleb128 mem q) (\<lambda>(d, _).
     Inr (to_int f, if to_int d \<noteq> 0 then unat (of_nat q + of_int (to_int d) :: u64) else 0)))"

partial_function (option) action_loop ::
  "unwind_context \<Rightarrow> memory \<Rightarrow> (u64 \<Rightarrow> type_info option) \<Rightarrow> nat \<Rightarrow> dwarf_eh_lsda \<Rightarrow> thrown option \<Rightarrow>
    nat \<Rightarrow> handler_type \<Rightarrow> u64 \<Rightarrow> u64 \<Rightarrow> (dw_error + handler_type \<times> u64 \<times> u64) option" where
  "action_loop context mem types void_name lsda ex record found selector adjusted =
     (if record = 0 then Some (Inr (found, selector, adjusted))
      else case read_action mem record of
        Inl e \<Rightarrow> Some (Inl e)
      | Inr (flt, next) \<Rightarrow>
          if 0 < flt then
            (case check_clause context mem types void_name lsda ex flt adjusted of
               Inl e \<Rightarrow> Some (Inl e)
             | Inr (matched, q) \<Rightarrow>
                 if matched then Some (Inr (handler_catch, of_int flt, q))
                 else action_loop context mem types void_name lsda ex next found selector adjusted)
          else if flt < 0 \<and> ex \<noteq> None then
            (case spec_loop context mem types void_name lsda ex
                (unat (type_table lsda + of_int (- flt - 1))) adjusted of
               None \<Rightarrow> None
             | Some (Inl e) \<Rightarrow> Some (Inl e)
             | Some (Inr (matched, q)) \<Rightarrow>
                 if matched then action_loop context mem types void_name lsda ex next found (of_int flt) q
                 else Some (Inr (handler_catch, of_int flt, q)))
          else if flt = 0 then action_loop context mem types void_name lsda ex next handler_cleanup (of_int flt) adjusted
          else action_loop context mem types void_name lsda ex next found selector adjusted)"

definition check_action_record ::
  "unwind_context \<Rightarrow> memory \<Rightarrow> (u64 \<Rightarrow> type_info option) \<Rightarrow> nat \<Rightarrow> dwarf_eh_lsda \<Rightarrow> thrown option \<Rightarrow>
    u64 \<Rightarrow> u64 \<Rightarrow> u64 \<Rightarrow> (dw_error + handler_type \<times> u64 \<times> u64) option" where
  "check_action_record context mem types void_name lsda ex record selector adjusted =
     (if record = 0 then Some (Inr (handler_cleanup, selector, adjusted))
      else action_loop context mem types void_name lsda ex (unat record) handler_none selector adjusted)"

subsection \<open>The two phases\<close>

datatype reason = URC_FATAL_PHASE1_ERROR | URC_HANDLER_FOUND | URC_CONTINUE_UNWIND | URC_INSTALL_CONTEXT

definition UA_SEARCH_PHASE :: u32 where "UA_SEARCH_PHASE = 1"
definition UA_HANDLER_FRAME :: u32 where "UA_HANDLER_FRAME = 4"

text \<open>What is set in the context: the instruction pointer and the two registers.\<close>

record install =
  SetIP :: u64
  SetGR0 :: u64
  SetGR1 :: u64

datatype stop = Table_Error dw_error | Calls_Terminate

definition saveLandingPad :: "u64 \<Rightarrow> u64 \<Rightarrow> cxa_exception \<Rightarrow> cxa_exception" where
  "saveLandingPad selector pad ex = ex\<lparr>handlerSwitchValue := to_int selector, catchTemp := unat pad\<rparr>"

definition loadLandingPad :: "cxa_exception \<Rightarrow> u64 \<times> u64" where
  "loadLandingPad ex = (of_int (handlerSwitchValue ex), of_nat (catchTemp ex))"

text \<open>
  The call site and the action record chain of the frame: whether a call site was found, the landing
  pad, the record, and what \<^verbatim>\<open>check_action_record\<close> makes of it.
\<close>

definition lookup_frame ::
  "unwind_context \<Rightarrow> memory \<Rightarrow> (u64 \<Rightarrow> type_info option) \<Rightarrow> nat \<Rightarrow> nat \<Rightarrow> thrown option \<Rightarrow> u64 \<Rightarrow>
    dw_error + bool \<times> dwarf_eh_action \<times> (dw_error + handler_type \<times> u64 \<times> u64) option" where
  "lookup_frame context mem types void_name lsda_addr realEx adjusted =
     and_then (parse_lsda context mem lsda_addr) (\<lambda>lsda.
     and_then (dwarf_eh_find_callsite context mem lsda) (\<lambda>(b, action).
     Inr (b, action, check_action_record context mem types void_name lsda realEx (action_record action) 0 adjusted)))"

definition old_adjusted :: "cxa_exception option \<Rightarrow> u64" where
  "old_adjusted ex = (case ex of Some x \<Rightarrow> of_nat (adjustedPtr x) | None \<Rightarrow> 0)"

definition continue_unwinding :: "cxa_exception option \<Rightarrow> (stop + reason \<times> install option \<times> cxa_exception option) option" where
  "continue_unwinding ex = Some (Inr (URC_CONTINUE_UNWIND, None, ex))"

definition install_context ::
  "u64 \<Rightarrow> u64 \<Rightarrow> u64 \<Rightarrow> cxa_exception option \<Rightarrow> (stop + reason \<times> install option \<times> cxa_exception option) option" where
  "install_context pad obj selector ex =
     Some (Inr (URC_INSTALL_CONTEXT, Some \<lparr>SetIP = pad, SetGR0 = obj, SetGR1 = selector\<rparr>, ex))"

definition set_adjusted :: "u64 \<Rightarrow> cxa_exception option \<Rightarrow> cxa_exception option" where
  "set_adjusted q ex = map_option (\<lambda>x. x\<lparr>adjustedPtr := unat q\<rparr>) ex"

definition search_phase ::
  "unwind_context \<Rightarrow> memory \<Rightarrow> (u64 \<Rightarrow> type_info option) \<Rightarrow> nat \<Rightarrow> nat \<Rightarrow> cxa_exception option \<Rightarrow> thrown option \<Rightarrow>
    (stop + reason \<times> install option \<times> cxa_exception option) option" where
  "search_phase context mem types void_name lsda_addr ex realEx =
     (case lookup_frame context mem types void_name lsda_addr realEx (old_adjusted ex) of
        Inl e \<Rightarrow> Some (Inl (Table_Error e))
      | Inr (b, action, r) \<Rightarrow>
          if \<not> b then Some (Inr (URC_HANDLER_FOUND, None, ex))
          else (case r of
              None \<Rightarrow> None
            | Some (Inl e) \<Rightarrow> Some (Inl (Table_Error e))
            | Some (Inr (found_handler, selector, q)) \<Rightarrow>
                if found_handler = handler_catch then
                  Some (Inr (URC_HANDLER_FOUND, None,
                    map_option (\<lambda>x. (saveLandingPad selector (landing_pad action) x)
                      \<lparr>languageSpecificData := lsda_addr, actionRecord := unat (action_record action)\<rparr>) (set_adjusted q ex)))
                else continue_unwinding (set_adjusted q ex)))"

definition cleanup_phase ::
  "unwind_context \<Rightarrow> memory \<Rightarrow> (u64 \<Rightarrow> type_info option) \<Rightarrow> nat \<Rightarrow> nat \<Rightarrow> u64 \<Rightarrow> cxa_exception option \<Rightarrow> thrown option \<Rightarrow>
    (stop + reason \<times> install option \<times> cxa_exception option) option" where
  "cleanup_phase context mem types void_name lsda_addr obj ex realEx =
     (case lookup_frame context mem types void_name lsda_addr realEx (old_adjusted ex) of
        Inl e \<Rightarrow> Some (Inl (Table_Error e))
      | Inr (_, action, r) \<Rightarrow>
          if landing_pad action = 0 then continue_unwinding ex
          else (case r of
              None \<Rightarrow> None
            | Some (Inl e) \<Rightarrow> Some (Inl (Table_Error e))
            | Some (Inr (found_handler, selector, q)) \<Rightarrow>
                if found_handler \<noteq> handler_cleanup then continue_unwinding (set_adjusted q ex)
                else install_context (landing_pad action) obj selector (set_adjusted q ex)))"

definition foreign_handler_phase ::
  "unwind_context \<Rightarrow> memory \<Rightarrow> (u64 \<Rightarrow> type_info option) \<Rightarrow> nat \<Rightarrow> nat \<Rightarrow> u64 \<Rightarrow>
    (stop + reason \<times> install option \<times> cxa_exception option) option" where
  "foreign_handler_phase context mem types void_name lsda_addr obj =
     (case lookup_frame context mem types void_name lsda_addr None 0 of
        Inl e \<Rightarrow> Some (Inl (Table_Error e))
      | Inr (_, action, r) \<Rightarrow>
          (case r of
             None \<Rightarrow> None
           | Some (Inl e) \<Rightarrow> Some (Inl (Table_Error e))
           | Some (Inr (_, selector, _)) \<Rightarrow> install_context (landing_pad action) obj selector None))"

definition handler_phase ::
  "u64 \<Rightarrow> cxa_exception \<Rightarrow> (stop + reason \<times> install option \<times> cxa_exception option) option" where
  "handler_phase obj x =
     (if catchTemp x = 0 then Some (Inl Calls_Terminate)
      else let (selector, pad) = loadLandingPad x in
        install_context pad obj selector (Some (x\<lparr>catchTemp := 0, handlerSwitchValue := 0\<rparr>)))"

text \<open>
  \<^verbatim>\<open>__gxx_personality_v0\<close>. \<open>ex\<close> is the header of a C++ exception, with the object it carries; for a foreign
  exception there is none.
\<close>

definition gxx_personality_v0 ::
  "(u64 \<Rightarrow> type_info option) \<Rightarrow> nat \<Rightarrow> int \<Rightarrow> u32 \<Rightarrow> u64 \<Rightarrow> u64 \<Rightarrow> (cxa_exception \<times> thrown) \<Rightarrow>
    unwind_context \<Rightarrow> memory \<Rightarrow> nat \<Rightarrow> (stop + reason \<times> install option \<times> cxa_exception option) option" where
  "gxx_personality_v0 types void_name version actions exceptionClass exceptionObject header context mem lsda_addr =
     (if version \<noteq> 1 then Some (Inr (URC_FATAL_PHASE1_ERROR, None, None))
      else
        let foreignException = (\<not> isCXXException exceptionClass);
            ex = (if foreignException then None else Some (fst header));
            realEx = (if foreignException then None else Some (snd header)) in
        if lsda_addr = 0 then continue_unwinding ex
        else if and actions UA_SEARCH_PHASE \<noteq> 0 then search_phase context mem types void_name lsda_addr ex realEx
        else if and actions UA_HANDLER_FRAME = 0 then
          cleanup_phase context mem types void_name lsda_addr exceptionObject ex realEx
        else (case ex of
            None \<Rightarrow> foreign_handler_phase context mem types void_name lsda_addr exceptionObject
          | Some x \<Rightarrow> handler_phase exceptionObject x))"

subsection \<open>Chains of action records\<close>

definition in_int :: "int \<Rightarrow> bool" where
  "in_int i \<longleftrightarrow> - (2 ^ 31) \<le> i \<and> i < 2 ^ 31"

lemma to_int_of_int [simp]: "in_int i \<Longrightarrow> to_int (of_int i) = i"
  by (simp add: to_int_def in_int_def unsigned_of_int ucast_eq signed_of_int signed_take_bit_take_bit
      signed_take_bit_int_eq_self)

lemma in_int_to_int [simp]: "in_int (to_int w)"
  using sint_greater_eq [of "ucast w :: u32"] sint_less [of "ucast w :: u32"] by (simp add: in_int_def to_int_def)

text \<open>The records from \<open>p\<close> on have these filters and displacements.\<close>

fun chain :: "memory \<Rightarrow> nat \<Rightarrow> (int \<times> int) list \<Rightarrow> bool" where
  "chain mem p [] \<longleftrightarrow> p = 0"
| "chain mem p ((f, d) # rs) \<longleftrightarrow>
     p \<noteq> 0 \<and> in_int f \<and> in_int d \<and> holds mem p (sleb_bytes f @ sleb_bytes d) \<and>
     chain mem (if d = 0 then 0 else unat (of_nat (p + length (sleb_bytes f)) + of_int d :: u64)) rs"

lemma read_action_holds:
  assumes "in_int f" "in_int d" "holds mem p (sleb_bytes f @ sleb_bytes d)"
  shows "read_action mem p =
    Inr (f, if d = 0 then 0 else unat (of_nat (p + length (sleb_bytes f)) + of_int d :: u64))"
  using assms read_sleb128_holds [of mem p f] read_sleb128_holds [of mem "p + length (sleb_bytes f)" d]
  by (simp add: read_action_def in_int_def [of f] in_int_def [of d])

text \<open>
  What the loops compute for a C++ exception: \<open>clause\<close> is the pointer a clause that matches gives its handler,
  \<open>first_of\<close> that of the first one in a list, \<open>first_handler\<close> the first record that takes the exception, \<open>sp f\<close>
  being the list of the exception specification \<open>f\<close>.
\<close>

definition clause ::
  "unwind_context \<Rightarrow> memory \<Rightarrow> (u64 \<Rightarrow> type_info option) \<Rightarrow> nat \<Rightarrow> dwarf_eh_lsda \<Rightarrow> thrown \<Rightarrow> int \<Rightarrow> u64 option" where
  "clause context mem types void_name lsda x f =
     (case check_clause context mem types void_name lsda (Some x) f 0 of
        Inl _ \<Rightarrow> None | Inr (b, q) \<Rightarrow> if b then Some q else None)"

fun first_of :: "(int \<Rightarrow> u64 option) \<Rightarrow> u8 list \<Rightarrow> u64 option" where
  "first_of cl [] = None"
| "first_of cl (b # bs) = (case cl (uint b) of Some q \<Rightarrow> Some q | None \<Rightarrow> first_of cl bs)"

fun first_handler ::
  "(int \<Rightarrow> u64 option) \<Rightarrow> (int \<Rightarrow> u8 list) \<Rightarrow> int list \<Rightarrow> handler_type \<Rightarrow> int \<Rightarrow> u64 \<Rightarrow> handler_type \<times> int \<times> u64" where
  "first_handler cl sp [] h selector q = (h, selector, q)"
| "first_handler cl sp (f # fs) h selector q =
     (if 0 < f then
        (case cl f of Some q' \<Rightarrow> (handler_catch, f, q') | None \<Rightarrow> first_handler cl sp fs h selector q)
      else if f < 0 then
        (case first_of cl (sp f) of Some q' \<Rightarrow> first_handler cl sp fs h f q' | None \<Rightarrow> (handler_catch, f, q))
      else first_handler cl sp fs handler_cleanup 0 q)"

text \<open>The tables a filter refers to can be read: its type, or the list of its specification.\<close>

definition readable ::
  "unwind_context \<Rightarrow> memory \<Rightarrow> (u64 \<Rightarrow> type_info option) \<Rightarrow> nat \<Rightarrow> dwarf_eh_lsda \<Rightarrow> thrown \<Rightarrow> int \<Rightarrow> bool" where
  "readable context mem types void_name lsda x f \<longleftrightarrow>
     (\<exists>r. check_clause context mem types void_name lsda (Some x) f 0 = Inr r)"

definition resolvable ::
  "unwind_context \<Rightarrow> memory \<Rightarrow> (u64 \<Rightarrow> type_info option) \<Rightarrow> nat \<Rightarrow> dwarf_eh_lsda \<Rightarrow> thrown \<Rightarrow> (int \<Rightarrow> u8 list) \<Rightarrow> int \<Rightarrow> bool" where
  "resolvable context mem types void_name lsda x sp f \<longleftrightarrow>
     (if 0 < f then readable context mem types void_name lsda x f
      else f < 0 \<longrightarrow> list_all (\<lambda>b. b \<noteq> 0 \<and> readable context mem types void_name lsda x (uint b)) (sp f) \<and>
        holds mem (unat (type_table lsda + of_int (- f - 1))) (sp f @ [0]))"

lemma check_type_signature_adjusted:
  "check_type_signature mem types void_name (Some x) ti 0 = Inr (b, q) \<Longrightarrow>
    check_type_signature mem types void_name (Some x) ti r = Inr (b, if b then q else r)"
  unfolding check_type_signature_def
  by (auto simp: and_then_Inr split: option.splits if_splits)

lemma check_clause_readable:
  assumes "readable context mem types void_name lsda x f"
  shows "check_clause context mem types void_name lsda (Some x) f r =
    Inr (case clause context mem types void_name lsda x f of Some q \<Rightarrow> (True, q) | None \<Rightarrow> (False, r))"
proof -
  obtain b q where c: "check_clause context mem types void_name lsda (Some x) f 0 = Inr (b, q)"
    using assms by (auto simp: readable_def)
  then have "check_clause context mem types void_name lsda (Some x) f r = Inr (b, if b then q else r)"
    unfolding check_clause_def by (auto simp: and_then_Inr dest: check_type_signature_adjusted)
  then show ?thesis using c by (simp add: clause_def)
qed

lemma spec_loop_list:
  assumes "holds mem p (bs @ [0])"
    "list_all (\<lambda>b. b \<noteq> 0 \<and> readable context mem types void_name lsda x (uint b)) bs"
  shows "spec_loop context mem types void_name lsda (Some x) p r =
    Some (Inr (case first_of (clause context mem types void_name lsda x) bs of Some q \<Rightarrow> (True, q) | None \<Rightarrow> (False, r)))"
  using assms
proof (induction bs arbitrary: p)
  case Nil
  then show ?case by (subst spec_loop.simps) simp
next
  case (Cons b bs)
  then show ?case
    by (subst spec_loop.simps) (auto simp: check_clause_readable split: option.splits)
qed

lemma action_loop_chain:
  assumes "chain mem p rs" "list_all (\<lambda>(f, d). resolvable context mem types void_name lsda x sp f) rs"
  shows "action_loop context mem types void_name lsda (Some x) p h (of_int selector) q =
    Some (Inr (case first_handler (clause context mem types void_name lsda x) sp (map fst rs) h selector q of
      (h', selector', q') \<Rightarrow> (h', of_int selector', q')))"
  using assms
proof (induction rs arbitrary: p h selector q)
  case Nil
  then show ?case by (subst action_loop.simps) simp
next
  case (Cons fd rs)
  obtain f d where fd: "fd = (f, d)" by (cases fd)
  define nxt where "nxt = (if d = 0 then 0 else unat (of_nat (p + length (sleb_bytes f)) + of_int d :: u64))"
  have p: "p \<noteq> 0" "read_action mem p = Inr (f, nxt)" "chain mem nxt rs"
    using Cons.prems(1) by (simp_all add: fd read_action_holds nxt_def)
  have rs: "list_all (\<lambda>(f, d). resolvable context mem types void_name lsda x sp f) rs"
    and f: "resolvable context mem types void_name lsda x sp f"
    using Cons.prems(2) by (simp_all add: fd)
  note IH = Cons.IH [OF p(3) rs]
  consider "0 < f" | "f < 0" | "f = 0" by linarith
  then show ?case
  proof cases
    case 1
    then have "readable context mem types void_name lsda x f" using f by (simp add: resolvable_def)
    then show ?thesis using 1 p(1,2) IH
      by (subst action_loop.simps) (simp add: fd check_clause_readable split: option.split)
  next
    case 2
    have "spec_loop context mem types void_name lsda (Some x) (unat (type_table lsda + of_int (- f - 1))) q =
      Some (Inr (case first_of (clause context mem types void_name lsda x) (sp f) of
        Some q' \<Rightarrow> (True, q') | None \<Rightarrow> (False, q)))"
      by (rule spec_loop_list) (use 2 f in \<open>simp_all add: resolvable_def\<close>)
    then show ?thesis using 2 p(1,2) IH
      by (subst action_loop.simps) (simp add: fd split: option.split)
  next
    case 3
    then show ?thesis using p(1,2) IH [of handler_cleanup 0 q]
      by (subst action_loop.simps) (simp add: fd)
  qed
qed

lemma first_handler_selector:
  "list_all in_int fs \<Longrightarrow> in_int selector \<Longrightarrow> first_handler cl sp fs h selector q = (h', selector', q') \<Longrightarrow> in_int selector'"
  by (induction cl sp fs h selector q rule: first_handler.induct)
    (auto split: if_splits option.splits simp: in_int_def)

subsection \<open>A frame\<close>

text \<open>
  The tables of a frame at \<open>p\<close>: the header, the call sites \<open>cs\<close>, of which \<open>c\<close> covers the instruction pointer, and its
  chain of action records.
\<close>

definition frame_lsda :: "unwind_context \<Rightarrow> nat \<Rightarrow> (u8 \<times> nat) option \<Rightarrow> u8 \<Rightarrow> call_site list \<Rightarrow> dwarf_eh_lsda" where
  "frame_lsda context p tt e cs = lsda_at context p tt e (length (concat (map (entry_bytes e) cs)))"

definition frame_tables ::
  "unwind_context \<Rightarrow> memory \<Rightarrow> nat \<Rightarrow> (u8 \<times> nat) option \<Rightarrow> u8 \<Rightarrow> call_site list \<Rightarrow> call_site \<Rightarrow> (int \<times> int) list \<Rightarrow> bool" where
  "frame_tables context mem p tt e cs c rs \<longleftrightarrow>
     (let table = concat (map (entry_bytes e) cs); header = lsda_header tt e (length table);
          record = action_table (frame_lsda context p tt e cs) + of_int (cs_action c) - 1 in
      p \<noteq> 0 \<and> header_fits tt (length table) \<and> list_all (entry_fits e) cs \<and> holds mem p (header @ table) \<and>
      p + length (header @ table) < 2 ^ 64 \<and> covering (GetIP context - GetRegionStart context) cs = Some c \<and>
      0 < cs_action c \<and> record \<noteq> 0 \<and> chain mem (unat record) rs)"

lemma positive_word: "0 < i \<Longrightarrow> i < 2 ^ 64 \<Longrightarrow> (of_int i :: u64) \<noteq> 0"
  by (simp add: word_of_int_eq_0_iff zdvd_not_zless)

lemma frame_pad_nonzero:
  assumes "frame_tables context mem p tt e cs c rs" "0 < cs_pad c"
  shows "(of_int (cs_pad c) :: u64) \<noteq> 0"
proof -
  have "list_all (entry_fits e) cs" "covering (GetIP context - GetRegionStart context) cs = Some c"
    using assms(1) by (simp_all add: frame_tables_def Let_def)
  then have "entry_fits e c" using covering_sound by (auto simp: list_all_iff)
  then have "cs_pad c < 2 ^ 64" by (auto simp: entry_fits_def encodable_def Let_def split: if_splits)
  then show ?thesis by (rule positive_word [OF assms(2)])
qed

lemma lookup_frame_tables:
  assumes "frame_tables context mem p tt e cs c rs"
    "list_all (\<lambda>(f, d). resolvable context mem types void_name (frame_lsda context p tt e cs) x sp f) rs"
  shows "lookup_frame context mem types void_name p (Some x) q =
    Inr (True, call_site_action (frame_lsda context p tt e cs) (of_int (cs_pad c)) (of_int (cs_action c)),
      Some (Inr (case first_handler (clause context mem types void_name (frame_lsda context p tt e cs) x) sp
          (map fst rs) handler_none 0 q of (h, selector, q') \<Rightarrow> (h, of_int selector, q'))))"
proof -
  let ?lsda = "frame_lsda context p tt e cs" and ?ip = "GetIP context - GetRegionStart context"
  define arec where "arec = action_table ?lsda + of_int (cs_action c) - 1"
  have T: "header_fits tt (length (concat (map (entry_bytes e) cs)))" "list_all (entry_fits e) cs"
    "holds mem p (lsda_header tt e (length (concat (map (entry_bytes e) cs))) @ concat (map (entry_bytes e) cs))"
    "p + length (lsda_header tt e (length (concat (map (entry_bytes e) cs))) @ concat (map (entry_bytes e) cs)) < 2 ^ 64"
    "covering ?ip cs = Some c" "0 < cs_action c" "arec \<noteq> 0" "chain mem (unat arec) rs"
    using assms(1) by (simp_all add: frame_tables_def arec_def Let_def)
  have c: "c \<in> set cs" "covers ?ip c" using covering_sound [OF T(5)] by simp_all
  then have "settled ?ip cs" by (auto simp: settled_def)
  from find_callsite_holds [OF T(1-4) this]
  have f: "and_then (parse_lsda context mem p) (dwarf_eh_find_callsite context mem) =
      Inr (True, call_site_action ?lsda (of_int (cs_pad c)) (of_int (cs_action c)))"
    by (simp add: T(5) outcome_def frame_lsda_def)
  have l: "parse_lsda context mem p = Inr ?lsda"
    unfolding frame_lsda_def by (rule parse_lsda_holds) (use T in simp_all)
  have "entry_fits e c" using T(2) c(1) by (simp add: list_all_iff)
  then have "(of_int (cs_action c) :: u64) \<noteq> 0"
    using T(6) by (intro positive_word) (simp_all add: entry_fits_def)
  then have r: "action_record (call_site_action ?lsda (of_int (cs_pad c)) (of_int (cs_action c))) = arec"
    by (simp add: call_site_action_def arec_def)
  have "check_action_record context mem types void_name ?lsda (Some x) arec 0 q =
    Some (Inr (case first_handler (clause context mem types void_name ?lsda x) sp (map fst rs) handler_none 0 q of
      (h, selector, q') \<Rightarrow> (h, of_int selector, q')))"
    using action_loop_chain [OF T(8) assms(2), of handler_none 0 q] T(7) by (simp add: check_action_record_def)
  with f l r show ?thesis by (simp add: lookup_frame_def)
qed

lemma chain_in_int: "chain mem p rs \<Longrightarrow> list_all in_int (map fst rs)"
  by (induction mem p rs rule: chain.induct) auto

text \<open>The header after a search that found a catch clause, and what the second phase does with it.\<close>

definition caught_header :: "nat \<Rightarrow> dwarf_eh_action \<Rightarrow> int \<Rightarrow> u64 \<Rightarrow> cxa_exception \<Rightarrow> cxa_exception" where
  "caught_header p action selector q x =
     x\<lparr>adjustedPtr := unat q, handlerSwitchValue := selector, catchTemp := unat (landing_pad action),
       languageSpecificData := p, actionRecord := unat (action_record action)\<rparr>"

lemma search_phase_tables:
  assumes "frame_tables context mem p tt e cs c rs"
    "list_all (\<lambda>(f, d). resolvable context mem types void_name (frame_lsda context p tt e cs) th sp f) rs"
    "first_handler (clause context mem types void_name (frame_lsda context p tt e cs) th) sp (map fst rs)
      handler_none 0 (of_nat (adjustedPtr x)) = (h, selector, q)"
  shows "search_phase context mem types void_name p (Some x) (Some th) =
    Some (Inr (if h = handler_catch
      then (URC_HANDLER_FOUND, None, Some (caught_header p
        (call_site_action (frame_lsda context p tt e cs) (of_int (cs_pad c)) (of_int (cs_action c))) selector q x))
      else (URC_CONTINUE_UNWIND, None, Some (x\<lparr>adjustedPtr := unat q\<rparr>))))"
proof -
  have "list_all in_int (map fst rs)" using assms(1) chain_in_int by (auto simp: frame_tables_def Let_def)
  then have "in_int selector" using first_handler_selector [OF _ _ assms(3)] by (simp add: in_int_def)
  then show ?thesis
    using lookup_frame_tables [OF assms(1,2), of "of_nat (adjustedPtr x)"] assms(3)
    by (simp add: search_phase_def old_adjusted_def set_adjusted_def saveLandingPad_def caught_header_def
        continue_unwinding_def)
qed

lemma handler_phase_caught:
  assumes "landing_pad action \<noteq> 0"
  shows "handler_phase obj (caught_header p action selector q x) =
    Some (Inr (URC_INSTALL_CONTEXT, Some \<lparr>SetIP = landing_pad action, SetGR0 = obj, SetGR1 = of_int selector\<rparr>,
      Some ((caught_header p action selector q x)\<lparr>catchTemp := 0, handlerSwitchValue := 0\<rparr>)))"
proof -
  have "unat (landing_pad action) \<noteq> 0" using assms by (simp add: unat_eq_zero)
  then show ?thesis
    by (simp add: handler_phase_def loadLandingPad_def install_context_def caught_header_def)
qed

lemma personality_phases:
  assumes "isCXXException cls" "p \<noteq> 0"
  shows "gxx_personality_v0 types void_name 1 UA_SEARCH_PHASE cls obj (x, th) context mem p =
      search_phase context mem types void_name p (Some x) (Some th)"
    "gxx_personality_v0 types void_name 1 UA_HANDLER_FRAME cls obj (x, th) context mem p = handler_phase obj x"
  using assms by (simp_all add: gxx_personality_v0_def UA_SEARCH_PHASE_def UA_HANDLER_FRAME_def)

end
