(* ===== verification/Shared_Count.thy ===== *)
theory Shared_Count
  imports Wissbi_Prelude
begin

text \<open>
  The counts behind \<^verbatim>\<open>shared_ptr\<close> and \<^verbatim>\<open>weak_ptr\<close> (\<^verbatim>\<open>libcxx/src/memory.cpp\<close>), through which the branches of the
  publisher's tee own their queues, used by any number of threads. Every atomic operation is a step; what a
  thread has still to do of an operation is an entry of a list.
\<close>

subsection \<open>The counts\<close>

text \<open>Both counts are one less than the number of owners; all shared owners together hold one weak reference.\<close>

record shared_weak_count =
  shared_owners :: u64
  shared_weak_owners :: u64

definition increment :: "u64 \<Rightarrow> u64" where
  "increment t = t + 1"

definition decrement :: "u64 \<Rightarrow> u64" where
  "decrement t = t + - 1"

definition new_count :: shared_weak_count where
  "new_count = \<lparr>shared_owners = 0, shared_weak_owners = 0\<rparr>"

definition use_count :: "shared_weak_count \<Rightarrow> u64" where
  "use_count b = shared_owners b + 1"

definition add_shared :: "shared_weak_count \<Rightarrow> shared_weak_count" where
  "add_shared b = b\<lparr>shared_owners := increment (shared_owners b)\<rparr>"

definition add_weak :: "shared_weak_count \<Rightarrow> shared_weak_count" where
  "add_weak b = b\<lparr>shared_weak_owners := increment (shared_weak_owners b)\<rparr>"

subsection \<open>Threads\<close>

text \<open>
  What remains of an operation: \<^verbatim>\<open>__on_zero_shared\<close> and then \<^verbatim>\<open>__release_weak\<close> of the last shared owner,
  \<^verbatim>\<open>__on_zero_shared_weak\<close> of the last owner of all, and of \<^verbatim>\<open>lock\<close> the read of the count and the test with the
  compare-and-swap.
\<close>

datatype sp_op = OnZeroShared | ReleaseWeak | OnZeroSharedWeak | LockRead | LockTry u64 | Returned

record sp_sys =
  block :: shared_weak_count
  object_deleted :: nat
  block_deleted :: nat
  used_after_delete :: bool
  shared_ptrs :: nat
  weak_ptrs :: nat \<comment> \<open>not counting those a \<^verbatim>\<open>lock\<close> in progress is called on\<close>
  sp_ops :: "sp_op list"

definition sp_start :: sp_sys where
  "sp_start = \<lparr>block = new_count, object_deleted = 0, block_deleted = 0, used_after_delete = False,
     shared_ptrs = 1, weak_ptrs = 0, sp_ops = []\<rparr>"

text \<open>An access to the counts.\<close>

definition touch :: "sp_sys \<Rightarrow> sp_sys" where
  "touch s = (if 0 < block_deleted s then s\<lparr>used_after_delete := True\<rparr> else s)"

definition release_shared :: "sp_sys \<Rightarrow> sp_sys" where
  "release_shared s =
     (let n = decrement (shared_owners (block s));
          s1 = (touch s)\<lparr>block := (block s)\<lparr>shared_owners := n\<rparr>\<rparr> in
      if n = - 1 then s1\<lparr>sp_ops := sp_ops s @ [OnZeroShared]\<rparr> else s1)"

text \<open>\<^verbatim>\<open>__release_weak\<close>: the answer tells whether \<^verbatim>\<open>__on_zero_shared_weak\<close> is to be called.\<close>

definition release_weak :: "sp_sys \<Rightarrow> bool \<times> sp_sys" where
  "release_weak s =
     (let n = decrement (shared_weak_owners (block s)) in
      (n = - 1, (touch s)\<lparr>block := (block s)\<lparr>shared_weak_owners := n\<rparr>\<rparr>))"

definition set_op :: "nat \<Rightarrow> sp_op \<Rightarrow> sp_sys \<Rightarrow> sp_sys" where
  "set_op i x s = s\<lparr>sp_ops := (sp_ops s)[i := x]\<rparr>"

text \<open>One step of \<^verbatim>\<open>lock\<close> after the read.\<close>

definition lock_try :: "nat \<Rightarrow> u64 \<Rightarrow> sp_sys \<Rightarrow> sp_sys" where
  "lock_try i object_owners s =
     (if object_owners = - 1 then set_op i Returned (s\<lparr>weak_ptrs := weak_ptrs s + 1\<rparr>)
      else if shared_owners (block s) = object_owners then
        set_op i Returned ((touch s)\<lparr>block := (block s)\<lparr>shared_owners := object_owners + 1\<rparr>,
          shared_ptrs := shared_ptrs s + 1, weak_ptrs := weak_ptrs s + 1\<rparr>)
      else set_op i LockRead (touch s))"

fun sp_run_op :: "nat \<Rightarrow> sp_op \<Rightarrow> sp_sys \<Rightarrow> sp_sys option" where
  "sp_run_op i OnZeroShared s = Some (set_op i ReleaseWeak (s\<lparr>object_deleted := object_deleted s + 1\<rparr>))"
| "sp_run_op i ReleaseWeak s =
     (case release_weak s of (z, s1) \<Rightarrow> Some (set_op i (if z then OnZeroSharedWeak else Returned) s1))"
| "sp_run_op i OnZeroSharedWeak s = Some (set_op i Returned (s\<lparr>block_deleted := block_deleted s + 1\<rparr>))"
| "sp_run_op i LockRead s = Some (set_op i (LockTry (shared_owners (block s))) (touch s))"
| "sp_run_op i (LockTry n) s = Some (lock_try i n s)"
| "sp_run_op i Returned s = None"

text \<open>
  The events: a pointer is copied, destroyed, made from a shared pointer, or locked, which needs a pointer to do it
  with; or an operation under way goes on.
\<close>

datatype sp_event = CopyShared | DropShared | WeakOfShared | CopyWeak | DropWeak | StartLock | Run nat

fun sp_exec :: "sp_event \<Rightarrow> sp_sys \<Rightarrow> sp_sys option" where
  "sp_exec CopyShared s =
     (if shared_ptrs s = 0 then None
      else Some ((touch s)\<lparr>block := add_shared (block s), shared_ptrs := shared_ptrs s + 1\<rparr>))"
| "sp_exec DropShared s =
     (if shared_ptrs s = 0 then None else Some (release_shared (s\<lparr>shared_ptrs := shared_ptrs s - 1\<rparr>)))"
| "sp_exec WeakOfShared s =
     (if shared_ptrs s = 0 then None
      else Some ((touch s)\<lparr>block := add_weak (block s), weak_ptrs := weak_ptrs s + 1\<rparr>))"
| "sp_exec CopyWeak s =
     (if weak_ptrs s = 0 then None
      else Some ((touch s)\<lparr>block := add_weak (block s), weak_ptrs := weak_ptrs s + 1\<rparr>))"
| "sp_exec DropWeak s =
     (if weak_ptrs s = 0 then None
      else case release_weak (s\<lparr>weak_ptrs := weak_ptrs s - 1\<rparr>) of (z, s1) \<Rightarrow>
        Some (if z then s1\<lparr>sp_ops := sp_ops s1 @ [OnZeroSharedWeak]\<rparr> else s1))"
| "sp_exec StartLock s =
     (if weak_ptrs s = 0 then None
      else Some (s\<lparr>weak_ptrs := weak_ptrs s - 1, sp_ops := sp_ops s @ [LockRead]\<rparr>))"
| "sp_exec (Run i) s = (if i < length (sp_ops s) then sp_run_op i (sp_ops s ! i) s else None)"

fun sp_run :: "sp_event list \<Rightarrow> sp_sys \<Rightarrow> sp_sys option" where
  "sp_run [] s = Some s"
| "sp_run (e # es) s = (case sp_exec e s of None \<Rightarrow> None | Some s' \<Rightarrow> sp_run es s')"

subsection \<open>The invariant\<close>

text \<open>The weak references there are: weak pointers, and the one the shared owners have until the last has let it go.\<close>

fun weak_holder :: "sp_op \<Rightarrow> bool" where
  "weak_holder LockRead = True"
| "weak_holder (LockTry n) = True"
| "weak_holder OnZeroShared = True"
| "weak_holder ReleaseWeak = True"
| "weak_holder _ = False"

definition weak_refs :: "sp_sys \<Rightarrow> nat" where
  "weak_refs s = weak_ptrs s + how_many weak_holder (sp_ops s) + of_bool (0 < shared_ptrs s)"

definition sp_inv :: "sp_sys \<Rightarrow> bool" where
  "sp_inv s \<longleftrightarrow>
     shared_owners (block s) = of_nat (shared_ptrs s) - 1 \<and>
     shared_weak_owners (block s) = of_nat (weak_refs s) - 1 \<and>
     \<not> used_after_delete s \<and>
     how_many ((=) OnZeroShared) (sp_ops s) + object_deleted s = of_bool (shared_ptrs s = 0) \<and>
     how_many ((=) ReleaseWeak) (sp_ops s) \<le> object_deleted s \<and>
     how_many ((=) OnZeroSharedWeak) (sp_ops s) + block_deleted s = of_bool (weak_refs s = 0)"

definition sp_size :: "sp_sys \<Rightarrow> nat" where
  "sp_size s = shared_ptrs s + weak_ptrs s + length (sp_ops s)"

lemma of_nat_u64_0: "n < 2 ^ 64 \<Longrightarrow> (of_nat n :: u64) = 0 \<longleftrightarrow> n = 0"
  by (auto simp: word_of_nat_eq_0_iff dest: dvd_imp_le)

lemma count_down:
  "(of_nat (Suc n) :: u64) - 1 = of_nat n" "decrement (of_nat n) = of_nat n - 1"
  "n < 2 ^ 64 \<Longrightarrow> of_nat n - 1 = (- 1 :: u64) \<longleftrightarrow> n = 0"
  using of_nat_u64_0 [of n] by (simp_all add: decrement_def)

lemma how_many_le_length: "how_many P xs \<le> length xs"
  by (simp add: how_many_def)

lemma weak_refs_bound: "weak_refs s \<le> weak_ptrs s + length (sp_ops s) + 1"
  using how_many_le_length [of weak_holder "sp_ops s"] by (simp add: weak_refs_def)

lemma sp_inv_start: "sp_inv sp_start"
  by (simp add: sp_inv_def sp_start_def weak_refs_def new_count_def)

lemma touch_ok: "sp_inv s \<Longrightarrow> 0 < weak_refs s \<Longrightarrow> touch s = s"
  by (simp add: sp_inv_def touch_def)

lemma sp_inv_pointers:
  assumes inv: "sp_inv s" and room: "sp_size s < 2 ^ 63" and e: "sp_exec e s = Some s'" and run: "\<forall>i. e \<noteq> Run i"
  shows "sp_inv s'"
proof -
  have r: "weak_refs s < 2 ^ 64" "shared_ptrs s < 2 ^ 64"
    using weak_refs_bound [of s] room by (simp_all add: sp_size_def)
  have pos: "0 < shared_ptrs s \<Longrightarrow> 0 < weak_refs s" "0 < weak_ptrs s \<Longrightarrow> 0 < weak_refs s"
    by (simp_all add: weak_refs_def)
  have added: "sp_inv ((touch s)\<lparr>block := add_weak (block s), weak_ptrs := weak_ptrs s + 1\<rparr>)" if "0 < weak_refs s"
    using inv touch_ok [OF inv that] that by (auto simp: sp_inv_def weak_refs_def add_weak_def increment_def)
  show ?thesis
  proof (cases e)
    case CopyShared
    then show ?thesis using e inv pos touch_ok [OF inv]
      by (auto simp: sp_inv_def add_shared_def increment_def weak_refs_def split: if_splits)
  next
    case DropShared
    then obtain n where n: "shared_ptrs s = Suc n" using e by (cases "shared_ptrs s") auto
    then have o: "shared_owners (block s) = of_nat n" and u: "block_deleted s = 0" "\<not> used_after_delete s"
      using inv pos by (simp_all add: sp_inv_def)
    have m: "of_nat n - 1 = (- 1 :: u64) \<longleftrightarrow> n = 0" using r n by (simp add: count_down)
    have s': "s' = s\<lparr>shared_ptrs := n, block := (block s)\<lparr>shared_owners := of_nat n - 1\<rparr>,
        sp_ops := sp_ops s @ (if n = 0 then [OnZeroShared] else [])\<rparr>"
      using DropShared e n o u m by (auto simp: release_shared_def Let_def touch_def count_down)
    have "weak_refs s' = weak_refs s" using n by (simp add: s' weak_refs_def)
    then show ?thesis using inv n pos by (simp add: sp_inv_def) (auto simp: s')
  next
    case DropWeak
    then obtain n where n: "weak_ptrs s = Suc n" using e by (cases "weak_ptrs s") auto
    then obtain m where m: "weak_refs s = Suc m" using pos(2) by (cases "weak_refs s") auto
    then have o: "shared_weak_owners (block s) = of_nat m" and u: "block_deleted s = 0" "\<not> used_after_delete s"
      using inv by (simp_all add: sp_inv_def)
    have z: "of_nat m - 1 = (- 1 :: u64) \<longleftrightarrow> m = 0" using r m by (simp add: count_down)
    have s': "s' = s\<lparr>weak_ptrs := n, block := (block s)\<lparr>shared_weak_owners := of_nat m - 1\<rparr>,
        sp_ops := sp_ops s @ (if m = 0 then [OnZeroSharedWeak] else [])\<rparr>"
      using DropWeak e n o u z by (auto simp: release_weak_def Let_def touch_def count_down)
    have "weak_refs s' = m" using n m by (simp add: s' weak_refs_def)
    then show ?thesis using inv m by (simp add: sp_inv_def) (auto simp: s')
  next
    case StartLock
    then have s': "s' = s\<lparr>weak_ptrs := weak_ptrs s - 1, sp_ops := sp_ops s @ [LockRead]\<rparr>" and "0 < weak_ptrs s"
      using e by (auto split: if_splits)
    then have "weak_refs s' = weak_refs s" by (simp add: weak_refs_def)
    then show ?thesis using inv by (simp add: sp_inv_def) (auto simp: s')
  next
    case WeakOfShared
    then show ?thesis using e added pos by (auto split: if_splits)
  next
    case CopyWeak
    then show ?thesis using e added pos by (auto split: if_splits)
  qed (use run in auto)
qed

lemma set_op_counts:
  assumes "i < length (sp_ops s)"
  shows "how_many P (sp_ops (set_op i q s)) + of_bool (P (sp_ops s ! i)) = how_many P (sp_ops s) + of_bool (P q)"
  using how_many_update [OF assms] by (simp add: set_op_def)

lemma set_op_simps [simp]:
  "block (set_op i q s) = block s" "object_deleted (set_op i q s) = object_deleted s"
  "block_deleted (set_op i q s) = block_deleted s" "used_after_delete (set_op i q s) = used_after_delete s"
  "shared_ptrs (set_op i q s) = shared_ptrs s" "weak_ptrs (set_op i q s) = weak_ptrs s"
  by (simp_all add: set_op_def)

lemma weak_refs_set_op:
  assumes "i < length (sp_ops s)"
  shows "weak_refs (set_op i q s) + of_bool (weak_holder (sp_ops s ! i)) = weak_refs s + of_bool (weak_holder q)"
  using set_op_counts [OF assms, of weak_holder q] by (simp add: weak_refs_def)

text \<open>What the invariant asks of a state whose \<open>i\<close>-th operation has gone on, in terms of the state before.\<close>

lemma sp_inv_set_op:
  assumes "i < length (sp_ops s)" "sp_ops s ! i = p"
    "weak_refs s + of_bool (weak_holder q) = r + of_bool (weak_holder p)"
    "shared_owners (block s) = of_nat (shared_ptrs s) - 1" "shared_weak_owners (block s) = of_nat r - 1"
    "\<not> used_after_delete s"
    "how_many ((=) OnZeroShared) (sp_ops s) + of_bool (q = OnZeroShared) + object_deleted s =
      of_bool (shared_ptrs s = 0) + of_bool (p = OnZeroShared)"
    "how_many ((=) ReleaseWeak) (sp_ops s) + of_bool (q = ReleaseWeak) \<le> object_deleted s + of_bool (p = ReleaseWeak)"
    "how_many ((=) OnZeroSharedWeak) (sp_ops s) + of_bool (q = OnZeroSharedWeak) + block_deleted s =
      of_bool (r = 0) + of_bool (p = OnZeroSharedWeak)"
  shows "sp_inv (set_op i q s)"
proof -
  have "weak_refs (set_op i q s) = r" using weak_refs_set_op [OF assms(1), of q] assms(2,3) by simp
  then show ?thesis
    using assms set_op_counts [OF assms(1), of "(=) OnZeroShared" q] set_op_counts [OF assms(1), of "(=) ReleaseWeak" q]
      set_op_counts [OF assms(1), of "(=) OnZeroSharedWeak" q]
    by (simp add: sp_inv_def eq_commute [of OnZeroShared] eq_commute [of ReleaseWeak] eq_commute [of OnZeroSharedWeak])
qed

lemma sp_inv_lock_try:
  assumes inv: "sp_inv s" and i: "i < length (sp_ops s)" and p: "sp_ops s ! i = LockTry n"
  shows "sp_inv (lock_try i n s)"
proof -
  have w: "0 < weak_refs s" using how_many_pos [OF i, of weak_holder] p by (simp add: weak_refs_def)
  have o: "shared_owners (block s) = of_nat (shared_ptrs s) - 1" using inv by (simp add: sp_inv_def)
  consider "n = - 1" | "n \<noteq> - 1" "shared_owners (block s) = n" | "n \<noteq> - 1" "shared_owners (block s) \<noteq> n" by blast
  then show ?thesis
  proof cases
    case 1
    have "sp_inv (set_op i Returned (s\<lparr>weak_ptrs := weak_ptrs s + 1\<rparr>))"
      by (rule sp_inv_set_op [where p = "LockTry n" and r = "weak_refs s"])
        (use inv i p in \<open>simp_all add: sp_inv_def weak_refs_def\<close>)
    with 1 show ?thesis by (simp add: lock_try_def)
  next
    case 2
    then have sp: "0 < shared_ptrs s" using o by (cases "shared_ptrs s") auto
    have "sp_inv (set_op i Returned (s\<lparr>block := (block s)\<lparr>shared_owners := n + 1\<rparr>,
        shared_ptrs := shared_ptrs s + 1, weak_ptrs := weak_ptrs s + 1\<rparr>))"
      by (rule sp_inv_set_op [where p = "LockTry n" and r = "weak_refs s"])
        (use inv i p o sp 2 in \<open>auto simp add: sp_inv_def weak_refs_def\<close>)
    with 2 touch_ok [OF inv w] show ?thesis by (simp add: lock_try_def)
  next
    case 3
    have "sp_inv (set_op i LockRead s)"
      by (rule sp_inv_set_op [where p = "LockTry n" and r = "weak_refs s"]) (use inv i p in \<open>simp_all add: sp_inv_def\<close>)
    with 3 touch_ok [OF inv w] show ?thesis by (simp add: lock_try_def)
  qed
qed

lemma sp_inv_release_weak:
  assumes inv: "sp_inv s" and i: "i < length (sp_ops s)" and p: "sp_ops s ! i = ReleaseWeak"
    and r: "weak_refs s < 2 ^ 64" and e: "sp_run_op i ReleaseWeak s = Some s'"
  shows "sp_inv s'"
proof -
  obtain m where m: "weak_refs s = Suc m"
    using how_many_pos [OF i, of weak_holder] p by (cases "weak_refs s") (auto simp: weak_refs_def)
  then have o: "shared_weak_owners (block s) = of_nat m" and u: "block_deleted s = 0" "\<not> used_after_delete s"
    using inv by (simp_all add: sp_inv_def)
  have z: "of_nat m - 1 = (- 1 :: u64) \<longleftrightarrow> m = 0" using r m by (simp add: count_down)
  let ?s = "s\<lparr>block := (block s)\<lparr>shared_weak_owners := of_nat m - 1\<rparr>\<rparr>"
  have s': "s' = set_op i (if m = 0 then OnZeroSharedWeak else Returned) ?s"
    using e o u z by (auto simp: release_weak_def Let_def touch_def count_down)
  have "weak_refs ?s = Suc m" using m by (simp add: weak_refs_def)
  then show ?thesis unfolding s'
    by (intro sp_inv_set_op [where p = ReleaseWeak and r = m]) (use inv i p m in \<open>auto simp: sp_inv_def\<close>)
qed

lemma sp_inv_run:
  assumes inv: "sp_inv s" and room: "sp_size s < 2 ^ 63" and i: "i < length (sp_ops s)"
    and e: "sp_run_op i (sp_ops s ! i) s = Some s'"
  shows "sp_inv s'"
proof (cases "sp_ops s ! i")
  case OnZeroShared
  let ?s = "s\<lparr>object_deleted := object_deleted s + 1\<rparr>"
  have "weak_refs ?s = weak_refs s" by (simp add: weak_refs_def)
  then have "sp_inv (set_op i ReleaseWeak ?s)"
    by (intro sp_inv_set_op [where p = OnZeroShared and r = "weak_refs s"])
      (use inv i OnZeroShared in \<open>auto simp: sp_inv_def\<close>)
  with OnZeroShared e show ?thesis by simp
next
  case ReleaseWeak
  then show ?thesis
    using e weak_refs_bound [of s] room sp_inv_release_weak [OF inv i ReleaseWeak] by (simp add: sp_size_def)
next
  case OnZeroSharedWeak
  let ?s = "s\<lparr>block_deleted := block_deleted s + 1\<rparr>"
  have "weak_refs ?s = weak_refs s" by (simp add: weak_refs_def)
  then have "sp_inv (set_op i Returned ?s)"
    by (intro sp_inv_set_op [where p = OnZeroSharedWeak and r = "weak_refs s"])
      (use inv i OnZeroSharedWeak in \<open>auto simp: sp_inv_def\<close>)
  with OnZeroSharedWeak e show ?thesis by simp
next
  case LockRead
  have "0 < weak_refs s" using how_many_pos [OF i, of weak_holder] LockRead by (simp add: weak_refs_def)
  moreover have "sp_inv (set_op i (LockTry (shared_owners (block s))) s)"
    by (rule sp_inv_set_op [where p = LockRead and r = "weak_refs s"])
      (use inv i LockRead in \<open>simp_all add: sp_inv_def\<close>)
  ultimately show ?thesis using LockRead e touch_ok [OF inv] by simp
next
  case (LockTry n)
  then show ?thesis using e sp_inv_lock_try [OF inv i] by simp
qed (use e in auto)

lemma sp_inv_exec:
  assumes "sp_inv s" "sp_size s < 2 ^ 63" "sp_exec e s = Some s'"
  shows "sp_inv s'"
proof (cases "\<exists>i. e = Run i")
  case True
  then show ?thesis using assms sp_inv_run [OF assms(1,2)] by (auto split: if_splits)
next
  case False
  then show ?thesis using sp_inv_pointers [OF assms] by blast
qed

lemma sp_exec_size: "sp_exec e s = Some s' \<Longrightarrow> sp_size s' \<le> sp_size s + 2"
proof (cases e)
  case (Run i)
  moreover assume "sp_exec e s = Some s'"
  ultimately show ?thesis
    by (cases "sp_ops s ! i")
      (auto simp: sp_size_def set_op_def touch_def lock_try_def release_weak_def Let_def split: if_splits)
qed (auto simp: sp_size_def touch_def release_weak_def release_shared_def Let_def split: if_splits)

lemma sp_run_inv:
  "sp_run es s = Some s' \<Longrightarrow> sp_inv s \<Longrightarrow> sp_size s + 2 * length es < 2 ^ 63 \<Longrightarrow> sp_inv s'"
proof (induction es arbitrary: s)
  case (Cons e es)
  then obtain s1 where s1: "sp_exec e s = Some s1" "sp_run es s1 = Some s'" by (auto split: option.splits)
  have "sp_inv s1" using sp_inv_exec [OF Cons.prems(2) _ s1(1)] Cons.prems(3) by simp
  then show ?case using Cons.IH [OF s1(2)] sp_exec_size [OF s1(1)] Cons.prems(3) by simp
qed simp

lemma sp_reached_inv:
  assumes "sp_run es sp_start = Some s" "length es < 2 ^ 62 - 1"
  shows "sp_inv s"
proof -
  have "sp_size sp_start + 2 * length es < 2 ^ 63" using assms(2) by (simp add: sp_start_def sp_size_def)
  then show ?thesis using sp_run_inv [OF assms(1) sp_inv_start] by blast
qed

end
