(* ===== verification/Static_Guard.thy ===== *)
theory Static_Guard
  imports Wissbi_Prelude
begin

text \<open>
  The guard of a static variable (\<^verbatim>\<open>libcxxrt/src/guard.cc\<close>): \<^verbatim>\<open>__cxa_guard_acquire\<close>, \<^verbatim>\<open>__cxa_guard_release\<close> and
  \<^verbatim>\<open>__cxa_guard_abort\<close> for the 64-bit guards of a little-endian machine, run by any number of threads.
  Every access to the guard is a step of its own; \<^verbatim>\<open>|=\<close> is a load and a store.
\<close>

unbundle bit_operations_syntax

subsection \<open>The guard word\<close>

text \<open>\<^verbatim>\<open>*guard_object >> 56\<close>, and the 32 bits \<^verbatim>\<open>low_32_bits\<close> points to.\<close>

definition guard_shift :: "u64 \<Rightarrow> u64" where
  "guard_shift g = signed_drop_bit 56 g"

definition first_byte :: "u64 \<Rightarrow> u8" where
  "first_byte g = ucast (guard_shift g)"

definition low_32_bits :: "u64 \<Rightarrow> u32" where
  "low_32_bits g = ucast g"

definition set_low_32_bits :: "u32 \<Rightarrow> u64 \<Rightarrow> u64" where
  "set_low_32_bits v g = (g AND NOT 0xFFFFFFFF) OR ucast v"

subsection \<open>A thread that uses the variable\<close>

text \<open>
  Where a thread is: in \<^verbatim>\<open>__cxa_guard_acquire\<close> at the first test, the compare-and-swap, the test in the loop, the
  last test; running the initialiser; in \<^verbatim>\<open>__cxa_guard_release\<close> before the load and before the store of the guard;
  about to clear the lock, after success or after an exception; behind it, with the variable
  initialised or not. From there it may come again.
\<close>

datatype guard_phase = Entering | Spinning | Rechecking | Deciding | Constructing | Marking | Storing u64
  | Unlocking bool | Using | Failed

text \<open>One step, \<open>ok\<close> telling whether the initialiser returns rather than throws.\<close>

fun guard_thread :: "bool \<Rightarrow> guard_phase \<Rightarrow> u64 \<Rightarrow> guard_phase \<times> u64" where
  "guard_thread ok Entering g = (if first_byte g = 1 then Using else Spinning, g)"
| "guard_thread ok Spinning g =
     (if low_32_bits g = 0 then (Deciding, set_low_32_bits 1 g) else (Rechecking, g))"
| "guard_thread ok Rechecking g = (if guard_shift g = 1 then Deciding else Spinning, g)"
| "guard_thread ok Deciding g = (if first_byte g \<noteq> 1 then Constructing else Using, g)"
| "guard_thread ok Constructing g = (if ok then Marking else Unlocking False, g)"
| "guard_thread ok Marking g = (Storing g, g)"
| "guard_thread ok (Storing v) g = (Unlocking True, v OR push_bit 56 1)"
| "guard_thread ok (Unlocking done) g = (if done then Using else Failed, set_low_32_bits 0 g)"
| "guard_thread ok Using g = (Entering, g)"
| "guard_thread ok Failed g = (Entering, g)"

record guard_sys =
  guard_object :: u64
  guard_threads :: "guard_phase list"
  constructed :: nat \<comment> \<open>how often the initialiser has returned\<close>

definition guard_start :: "nat \<Rightarrow> guard_sys" where
  "guard_start n = \<lparr>guard_object = 0, guard_threads = replicate n Entering, constructed = 0\<rparr>"

definition guard_exec :: "nat \<Rightarrow> bool \<Rightarrow> guard_sys \<Rightarrow> guard_sys" where
  "guard_exec i ok s =
     (let p = guard_threads s ! i; (p', g) = guard_thread ok p (guard_object s) in
      \<lparr>guard_object = g, guard_threads = (guard_threads s)[i := p'],
       constructed = constructed s + of_bool (p = Constructing \<and> ok)\<rparr>)"

inductive guard_reach :: "nat \<Rightarrow> guard_sys \<Rightarrow> bool" for n where
  start: "guard_reach n (guard_start n)"
| step: "guard_reach n s \<Longrightarrow> i < length (guard_threads s) \<Longrightarrow> guard_reach n (guard_exec i ok s)"

subsection \<open>The invariant\<close>

fun constructing :: "guard_phase \<Rightarrow> bool" where
  "constructing Constructing = True"
| "constructing (Unlocking False) = True"
| "constructing _ = False"

fun marking :: "guard_phase \<Rightarrow> bool" where
  "marking Marking = True"
| "marking (Storing v) = True"
| "marking _ = False"

fun loaded :: "guard_phase \<Rightarrow> bool" where
  "loaded (Storing v) = (v = 1)"
| "loaded _ = True"

definition initialised :: "u64 \<Rightarrow> bool" where
  "initialised g \<longleftrightarrow> g = 0x100000000000000 \<or> g = 0x100000000000001"

text \<open>Before the initialiser has returned, one thread holds a set lock; afterwards nobody cares for it.\<close>

definition guard_inv :: "guard_sys \<Rightarrow> bool" where
  "guard_inv s \<longleftrightarrow>
     (let num = (\<lambda>P. how_many P (guard_threads s)); g = guard_object s;
          own = num ((=) Deciding) + num constructing + num marking in
      list_all loaded (guard_threads s) \<and>
      (g = 0 \<and> own = 0 \<and> num ((=) (Unlocking True)) = 0 \<and> num ((=) Using) = 0 \<and> constructed s = 0 \<or>
       g = 1 \<and> own = 1 \<and> num ((=) (Unlocking True)) = 0 \<and> num ((=) Using) = 0 \<and> constructed s = num marking \<or>
       initialised g \<and> num constructing = 0 \<and> num marking = 0 \<and> num ((=) (Unlocking True)) \<le> (if g = 0x100000000000000 then 0 else 1) \<and>
         constructed s = 1))"

lemma guard_words [simp]:
  "guard_shift 0 = 0" "guard_shift 1 = 0" "guard_shift (0x100000000000000) = 1" "guard_shift (0x100000000000001) = 1"
  "first_byte 0 = 0" "first_byte 1 = 0" "first_byte (0x100000000000000) = 1" "first_byte (0x100000000000001) = 1"
  "low_32_bits 0 = 0" "low_32_bits 1 = 1" "low_32_bits (0x100000000000000) = 0" "low_32_bits (0x100000000000001) = 1"
  "set_low_32_bits 1 0 = 1" "set_low_32_bits 0 1 = 0" "set_low_32_bits 1 (0x100000000000000) = 0x100000000000001"
  "set_low_32_bits 0 (0x100000000000001) = 0x100000000000000" "1 OR push_bit 56 1 = (0x100000000000001 :: u64)"
  by (simp_all add: guard_shift_def first_byte_def low_32_bits_def set_low_32_bits_def)

lemma list_all_update: "list_all P xs \<Longrightarrow> P y \<Longrightarrow> list_all P (xs[i := y])"
  by (auto simp: list_all_iff dest: set_update_subset_insert [THEN subsetD])

lemma guard_inv_start: "guard_inv (guard_start n)"
  by (simp add: guard_inv_def guard_start_def Let_def list_all_iff)

lemma guard_inv_step:
  assumes inv: "guard_inv s" and i: "i < length (guard_threads s)"
  shows "guard_inv (guard_exec i ok s)"
proof -
  obtain p p' g where p: "p = guard_threads s ! i" and q: "guard_thread ok p (guard_object s) = (p', g)"
    by (metis surj_pair)
  let ?P = "[(=) Deciding, constructing, marking, (=) (Unlocking True), (=) Using]"
  have up: "\<forall>P. how_many P ((guard_threads s)[i := p']) + of_bool (P p) = how_many P (guard_threads s) + of_bool (P p')"
    using how_many_update [OF i] p by simp
  have pos: "\<forall>P. P p \<longrightarrow> 0 < how_many P (guard_threads s)"
    using how_many_pos [OF i] p by blast
  have st: "list_all loaded (guard_threads s)"
    using inv by (simp add: guard_inv_def Let_def)
  then have p_st: "p = Storing v \<Longrightarrow> v = 1" for v
    using i p by (simp add: list_all_length) (metis loaded.simps(1))
  note U = up [rule_format, of "(=) Deciding"] up [rule_format, of constructing] up [rule_format, of marking]
    up [rule_format, of "(=) (Unlocking True)"] up [rule_format, of "(=) Using"]
  note Q = pos [rule_format, of "(=) Deciding"] pos [rule_format, of constructing] pos [rule_format, of marking]
    pos [rule_format, of "(=) (Unlocking True)"] pos [rule_format, of "(=) Using"]
  have "loaded p'"
    using q inv Q by (cases p) (auto simp: guard_inv_def Let_def initialised_def split: if_splits)
  then have "list_all loaded ((guard_threads s)[i := p'])"
    by (intro list_all_update st)
  then show ?thesis
    using q inv U Q p_st
    by (cases p) (auto simp: guard_inv_def guard_exec_def p [symmetric] Let_def initialised_def split: if_splits)
qed

lemma guard_reach_inv: "guard_reach n s \<Longrightarrow> guard_inv s"
  by (induction rule: guard_reach.induct) (auto intro: guard_inv_start guard_inv_step)

lemma how_many_mono: "(\<And>x. P x \<Longrightarrow> Q x) \<Longrightarrow> how_many P xs \<le> how_many Q xs"
  by (induction xs) (simp_all add: how_many_def)

subsection \<open>Getting out of the loop\<close>

fun waiting :: "guard_phase \<Rightarrow> bool" where
  "waiting Entering = True"
| "waiting Spinning = True"
| "waiting Rechecking = True"
| "waiting _ = False"

definition at_work :: "guard_phase \<Rightarrow> bool" where
  "at_work p \<longleftrightarrow> p = Deciding \<or> constructing p \<or> marking p \<or> p = Unlocking True"

lemma guard_exec_phase:
  "i < length (guard_threads s) \<Longrightarrow> guard_threads (guard_exec i ok s) ! i = fst (guard_thread ok (guard_threads s ! i) (guard_object s))"
  "guard_object (guard_exec i ok s) = snd (guard_thread ok (guard_threads s ! i) (guard_object s))"
  "length (guard_threads (guard_exec i ok s)) = length (guard_threads s)"
  by (simp_all add: guard_exec_def Let_def split: prod.split)

lemma guard_quiet_word:
  assumes "guard_inv s" "list_all (\<lambda>p. \<not> at_work p) (guard_threads s)"
  shows "guard_object s = 0 \<or> initialised (guard_object s)"
proof -
  have "how_many P (guard_threads s) = 0" if "\<And>p. P p \<Longrightarrow> at_work p" for P
    using assms(2) that by (auto simp: how_many_zero list_all_iff)
  then have "how_many ((=) Deciding) (guard_threads s) = 0" "how_many constructing (guard_threads s) = 0"
    "how_many marking (guard_threads s) = 0" by (auto simp: at_work_def)
  then show ?thesis using assms(1) by (auto simp: guard_inv_def Let_def)
qed

lemma guard_leaves_loop:
  assumes "guard_inv s" "list_all (\<lambda>p. \<not> at_work p) (guard_threads s)" "i < length (guard_threads s)"
    "waiting (guard_threads s ! i)"
  shows "\<exists>k \<le> 3. guard_threads ((guard_exec i ok ^^ k) s) ! i = (if constructed s = 0 then Constructing else Using)"
proof -
  let ?g = "guard_object s" and ?q = "if constructed s = 0 then Constructing else Using"
  have g: "?g = 0 \<and> constructed s = 0 \<or> initialised ?g \<and> constructed s = 1"
    using guard_quiet_word [OF assms(1,2)] assms(1) by (auto simp: guard_inv_def Let_def initialised_def)
  note E = guard_exec_phase [where ok = ok] funpow_Suc_right [where f = "guard_exec i ok"] numeral_2_eq_2 numeral_3_eq_3
  show ?thesis
  proof (cases "guard_threads s ! i")
    case Entering
    then have "guard_threads ((guard_exec i ok ^^ (if constructed s = 0 then 3 else 1)) s) ! i = ?q"
      using g assms(3) by (auto simp: E initialised_def)
    then show ?thesis by (intro exI [of _ "if constructed s = 0 then 3 else 1"]) simp
  next
    case Spinning
    then have "guard_threads ((guard_exec i ok ^^ (if low_32_bits ?g = 0 then 2 else 3)) s) ! i = ?q"
      using g assms(3) by (auto simp: E initialised_def)
    then show ?thesis by (intro exI [of _ "if low_32_bits ?g = 0 then 2 else 3"]) simp
  next
    case Rechecking
    then have "guard_threads ((guard_exec i ok ^^ (if constructed s = 0 then 3 else 2)) s) ! i = ?q"
      using g assms(3) by (auto simp: E initialised_def)
    then show ?thesis by (intro exI [of _ "if constructed s = 0 then 3 else 2"]) simp
  qed (use assms(4) in auto)
qed

text \<open>
  The byte of the guard at the lowest address of a little-endian machine, which the ABI reserves for the test
  compiled code makes before it calls \<^verbatim>\<open>__cxa_guard_acquire\<close>.
\<close>

definition abi_first_byte :: "u64 \<Rightarrow> u8" where
  "abi_first_byte g = ucast g"

lemma abi_byte_set_while_constructing:
  assumes "guard_inv s" "0 < how_many ((=) Constructing) (guard_threads s)"
  shows "abi_first_byte (guard_object s) = 1"
proof -
  have "how_many ((=) Constructing) (guard_threads s) \<le> how_many constructing (guard_threads s)"
    by (rule how_many_mono) auto
  then have "guard_object s = 1" using assms by (auto simp: guard_inv_def Let_def)
  then show ?thesis by (simp add: abi_first_byte_def)
qed

end
