(* ===== verification/Ios_Base.thy ===== *)
theory Ios_Base
  imports Wissbi_Prelude
begin

text \<open>
  The part of every stream that does not depend on its characters (\<^verbatim>\<open>libcxx/src/ios.cpp\<close>): state bits and
  exceptions, the arrays of \<^verbatim>\<open>iword\<close> and \<^verbatim>\<open>pword\<close>, callbacks, \<^verbatim>\<open>copyfmt\<close>, \<^verbatim>\<open>move\<close> and \<^verbatim>\<open>swap\<close>. An array on the heap
  is a list of slots, \<open>None\<close> for one that was never written; whether an allocation succeeds is an argument.
\<close>

unbundle bit_operations_syntax

subsection \<open>State\<close>

datatype ios_error = IosFailure | IosBadAlloc | IosBadAccess

definition ios_badbit :: u32 where "ios_badbit = 0x1"
definition ios_failbit :: u32 where "ios_failbit = 0x4"
definition ios_goodbit :: u32 where "ios_goodbit = 0x0"
definition ios_dec :: u32 where "ios_dec = 0x0002"
definition ios_skipws :: u32 where "ios_skipws = 0x1000"

text \<open>One of the two growing arrays: \<^verbatim>\<open>__iarray_\<close> with its size and capacity, or \<^verbatim>\<open>__parray_\<close>.\<close>

record 'v words =
  w_data :: "'v option list"
  w_size :: nat
  w_cap :: nat

record ios_base =
  io_fmtflags :: u32
  io_precision :: int
  io_width :: int
  io_rdstate :: u32
  io_exceptions :: u32
  io_rdbuf :: nat
  io_loc :: nat
  io_fn :: "nat option list"
  io_index :: "int option list"
  event_size :: nat
  event_cap :: nat
  iarray :: "int words"
  parray :: "nat words"

text \<open>An operation that may throw gives the exception with the state it leaves.\<close>

type_synonym 'a ios_result = "ios_error \<times> ios_base + 'a"

definition no_words :: "'v words" where
  "no_words = \<lparr>w_data = [], w_size = 0, w_cap = 0\<rparr>"

definition ios_init :: "nat \<Rightarrow> nat \<Rightarrow> ios_base" where
  "ios_init sb global_locale =
     \<lparr>io_fmtflags = ios_skipws OR ios_dec, io_precision = 6, io_width = 0,
      io_rdstate = (if sb \<noteq> 0 then ios_goodbit else ios_badbit), io_exceptions = ios_goodbit, io_rdbuf = sb,
      io_loc = global_locale, io_fn = [], io_index = [], event_size = 0, event_cap = 0,
      iarray = no_words, parray = no_words\<rparr>"

definition ios_clear :: "u32 \<Rightarrow> ios_base \<Rightarrow> ios_base ios_result" where
  "ios_clear state s =
     (let s' = s\<lparr>io_rdstate := (if io_rdbuf s \<noteq> 0 then state else state OR ios_badbit)\<rparr> in
      if (state OR (if io_rdbuf s \<noteq> 0 then ios_goodbit else ios_badbit)) AND io_exceptions s \<noteq> 0
      then Inl (IosFailure, s') else Inr s')"

definition ios_setstate :: "u32 \<Rightarrow> ios_base \<Rightarrow> ios_base ios_result" where
  "ios_setstate state s = ios_clear (io_rdstate s OR state) s"

text \<open>The two functions called in the handler of an exception: whether it is thrown on.\<close>

definition set_badbit_and_consider_rethrow :: "ios_base \<Rightarrow> bool \<times> ios_base" where
  "set_badbit_and_consider_rethrow s =
     (io_exceptions s AND ios_badbit \<noteq> 0, s\<lparr>io_rdstate := io_rdstate s OR ios_badbit\<rparr>)"

definition set_failbit_and_consider_rethrow :: "ios_base \<Rightarrow> bool \<times> ios_base" where
  "set_failbit_and_consider_rethrow s =
     (io_exceptions s AND ios_failbit \<noteq> 0, s\<lparr>io_rdstate := io_rdstate s OR ios_failbit\<rparr>)"

text \<open>The two static variables.\<close>

definition ios_xalloc :: "int \<Rightarrow> int \<times> int" where
  "ios_xalloc xindex = (xindex, xindex + 1)"

definition ios_sync_with_stdio :: "bool \<Rightarrow> bool \<Rightarrow> bool \<times> bool" where
  "ios_sync_with_stdio sync previous_state = (previous_state, sync)"

subsection \<open>Arrays of words\<close>

definition new_cap :: "nat \<Rightarrow> nat \<Rightarrow> nat" where
  "new_cap cap req = (if req < (2 ^ 64 - 1) div 2 then max (2 * cap mod 2 ^ 64) req else 2 ^ 64 - 1)"

definition realloc_slots :: "nat \<Rightarrow> nat \<Rightarrow> 'v option list \<Rightarrow> 'v option list" where
  "realloc_slots width n a =
     (let m = (n * width mod 2 ^ 64) div width in take m a @ replicate (m - length a) None)"

text \<open>The loop that writes zeros, from \<open>start\<close> on.\<close>

definition zero_slots :: "'v \<Rightarrow> nat \<Rightarrow> nat \<Rightarrow> 'v option list \<Rightarrow> 'v option list option" where
  "zero_slots z start n a =
     (if n = 0 then Some a
      else if start + n \<le> length a then Some (take start a @ replicate n (Some z) @ drop (start + n) a) else None)"

definition grow_words :: "bool \<Rightarrow> 'v \<Rightarrow> nat \<Rightarrow> 'v words \<Rightarrow> ios_error + 'v words option" where
  "grow_words ok z req w =
     (if ok then
        let newcap = new_cap (w_cap w) req in
        case zero_slots z (w_size w) (newcap - w_cap w) (realloc_slots 8 newcap (w_data w)) of
          None \<Rightarrow> Inl IosBadAccess
        | Some a \<Rightarrow> Inr (Some (w\<lparr>w_data := a, w_cap := newcap\<rparr>))
      else Inr None)"

text \<open>The body of \<^verbatim>\<open>iword\<close> and \<^verbatim>\<open>pword\<close>: the slot referred to, or \<open>None\<close> when there was no memory for it.\<close>

definition word_at :: "bool \<Rightarrow> 'v \<Rightarrow> int \<Rightarrow> 'v words \<Rightarrow> ios_error + (nat \<times> 'v words) option" where
  "word_at ok z index w =
     (let req = size_add (size_of_int index) 1 in
      case (if w_cap w < req then grow_words ok z req w else Inr (Some w)) of
        Inl e \<Rightarrow> Inl e
      | Inr None \<Rightarrow> Inr None
      | Inr (Some w') \<Rightarrow>
          if 0 \<le> index \<and> nat index < length (w_data w')
          then Inr (Some (nat index, w'\<lparr>w_size := max (w_size w') req\<rparr>)) else Inl IosBadAccess)"

text \<open>\<^verbatim>\<open>iword\<close> and \<^verbatim>\<open>pword\<close>; the answer \<open>None\<close> is the static variable.\<close>

definition ios_iword :: "bool \<Rightarrow> int \<Rightarrow> ios_base \<Rightarrow> (nat option \<times> ios_base) ios_result" where
  "ios_iword ok index s =
     (case word_at ok 0 index (iarray s) of
        Inl e \<Rightarrow> Inl (e, s)
      | Inr None \<Rightarrow> map_sum id (Pair None) (ios_setstate ios_badbit s)
      | Inr (Some (k, w)) \<Rightarrow> Inr (Some k, s\<lparr>iarray := w\<rparr>))"

definition ios_pword :: "bool \<Rightarrow> int \<Rightarrow> ios_base \<Rightarrow> (nat option \<times> ios_base) ios_result" where
  "ios_pword ok index s =
     (case word_at ok 0 index (parray s) of
        Inl e \<Rightarrow> Inl (e, s)
      | Inr None \<Rightarrow> map_sum id (Pair None) (ios_setstate ios_badbit s)
      | Inr (Some (k, w)) \<Rightarrow> Inr (Some k, s\<lparr>parray := w\<rparr>))"

subsection \<open>Callbacks\<close>

text \<open>
  \<^verbatim>\<open>register_callback\<close> goes on after a failed allocation, with a null pointer for the array; the capacity is not
  updated.
\<close>

definition store_callback :: "nat \<Rightarrow> int \<Rightarrow> ios_base \<Rightarrow> ios_base ios_result" where
  "store_callback f index s =
     (if event_size s < length (io_fn s) \<and> event_size s < length (io_index s)
      then Inr (s\<lparr>io_fn := (io_fn s)[event_size s := Some f], io_index := (io_index s)[event_size s := Some index],
        event_size := event_size s + 1\<rparr>)
      else Inl (IosBadAccess, s))"

definition register_callback :: "bool \<Rightarrow> bool \<Rightarrow> nat \<Rightarrow> int \<Rightarrow> ios_base \<Rightarrow> ios_base ios_result" where
  "register_callback ok1 ok2 f index s =
     (let req = size_add (event_size s) 1; newcap = new_cap (event_cap s) req in
      if event_cap s < req then
        case (if ok1 then Inr s else ios_setstate ios_badbit s) of
          Inl e \<Rightarrow> Inl e
        | Inr s1 \<Rightarrow>
            let s2 = s1\<lparr>io_fn := (if ok1 then realloc_slots 8 newcap (io_fn s1) else [])\<rparr> in
            case (if ok2 then Inr s2 else ios_setstate ios_badbit s2) of
              Inl e \<Rightarrow> Inl e
            | Inr s3 \<Rightarrow>
                store_callback f index (s3\<lparr>io_index := (if ok2 then realloc_slots 4 newcap (io_index s3) else [])\<rparr>)
      else store_callback f index s)"

datatype ios_event = erase_event | imbue_event | copyfmt_event

text \<open>\<^verbatim>\<open>__call_callbacks\<close>, where \<open>cb\<close> is what the functions do to the stream; \<open>i\<close> callbacks are still to be called.\<close>

fun call_from :: "(nat \<Rightarrow> ios_event \<Rightarrow> int \<Rightarrow> ios_base \<Rightarrow> ios_base ios_result) \<Rightarrow> ios_event \<Rightarrow> nat \<Rightarrow> ios_base \<Rightarrow>
    ios_base ios_result" where
  "call_from cb ev 0 s = Inr s"
| "call_from cb ev (Suc i) s =
     (if i < length (io_fn s) \<and> i < length (io_index s) then
        case (io_fn s ! i, io_index s ! i) of
          (Some f, Some x) \<Rightarrow> (case cb f ev x s of Inl e \<Rightarrow> Inl e | Inr s' \<Rightarrow> call_from cb ev i s')
        | _ \<Rightarrow> Inl (IosBadAccess, s)
      else Inl (IosBadAccess, s))"

definition call_callbacks :: "(nat \<Rightarrow> ios_event \<Rightarrow> int \<Rightarrow> ios_base \<Rightarrow> ios_base ios_result) \<Rightarrow> ios_event \<Rightarrow> ios_base \<Rightarrow>
    ios_base ios_result" where
  "call_callbacks cb ev s = call_from cb ev (event_size s) s"

definition ios_imbue :: "(nat \<Rightarrow> ios_event \<Rightarrow> int \<Rightarrow> ios_base \<Rightarrow> ios_base ios_result) \<Rightarrow> nat \<Rightarrow> ios_base \<Rightarrow>
    (nat \<times> ios_base) ios_result" where
  "ios_imbue cb newloc s = map_sum id (Pair (io_loc s)) (call_callbacks cb imbue_event (s\<lparr>io_loc := newloc\<rparr>))"

definition ios_destroy :: "(nat \<Rightarrow> ios_event \<Rightarrow> int \<Rightarrow> ios_base \<Rightarrow> ios_base ios_result) \<Rightarrow> ios_base \<Rightarrow> ios_base ios_result" where
  "ios_destroy cb s = call_callbacks cb erase_event s"

subsection \<open>Copying, moving, swapping\<close>

definition copy_slots :: "nat \<Rightarrow> 'v option list \<Rightarrow> 'v option list \<Rightarrow> 'v option list option" where
  "copy_slots n src dst = (if n \<le> length src \<and> n \<le> length dst then Some (take n src @ drop n dst) else None)"

text \<open>The words of the other stream, in the array there is or, if that is too small, in a new one.\<close>

definition copy_words :: "'v words \<Rightarrow> 'v words \<Rightarrow> 'v words option" where
  "copy_words src dst =
     (let dst' = (if w_cap dst < w_size src then dst\<lparr>w_data := replicate (w_size src) None, w_cap := w_size src\<rparr> else dst) in
      map_option (\<lambda>a. dst'\<lparr>w_data := a, w_size := w_size src\<rparr>) (copy_slots (w_size src) (w_data src) (w_data dst')))"

text \<open>The four allocations, in the order of the code, have their outcome in \<open>o1\<close> to \<open>o4\<close>.\<close>

definition ios_copyfmt :: "bool \<Rightarrow> bool \<Rightarrow> bool \<Rightarrow> bool \<Rightarrow> ios_base \<Rightarrow> ios_base \<Rightarrow> ios_base ios_result" where
  "ios_copyfmt o1 o2 o3 o4 rhs s =
     (let new_events = event_cap s < event_size rhs;
          new_longs = w_cap (iarray s) < w_size (iarray rhs);
          new_pointers = w_cap (parray s) < w_size (parray rhs);
          n = event_size rhs in
      if new_events \<and> \<not> o1 then Inl (IosBadAlloc, s)
      else if new_events \<and> \<not> o2 then Inl (IosBadAlloc, s)
      else if new_longs \<and> \<not> o3 then Inl (IosBadAlloc, s)
      else if new_pointers \<and> \<not> o4 then Inl (IosBadAlloc, s)
      else
        let s1 = s\<lparr>io_fmtflags := io_fmtflags rhs, io_precision := io_precision rhs, io_width := io_width rhs,
              io_loc := io_loc rhs\<rparr>;
            s2 = (if new_events then s1\<lparr>io_fn := replicate n None, io_index := replicate n None, event_cap := n\<rparr> else s1) in
        case (copy_slots n (io_fn rhs) (io_fn s2), copy_slots n (io_index rhs) (io_index s2),
              copy_words (iarray rhs) (iarray s), copy_words (parray rhs) (parray s)) of
          (Some fs, Some xs, Some ws, Some ps) \<Rightarrow>
            Inr (s2\<lparr>io_fn := fs, io_index := xs, event_size := n, iarray := ws, parray := ps\<rparr>)
        | _ \<Rightarrow> Inl (IosBadAccess, s2))"

text \<open>\<^verbatim>\<open>move\<close>: the new stream, and what is left of the other.\<close>

definition ios_move :: "ios_base \<Rightarrow> ios_base \<times> ios_base" where
  "ios_move rhs =
     (rhs\<lparr>io_rdbuf := 0\<rparr>,
      rhs\<lparr>io_fn := [], io_index := [], event_size := 0, event_cap := 0, iarray := no_words, parray := no_words\<rparr>)"

definition ios_swap :: "ios_base \<Rightarrow> ios_base \<Rightarrow> ios_base \<times> ios_base" where
  "ios_swap s rhs = (rhs\<lparr>io_rdbuf := io_rdbuf s\<rparr>, s\<lparr>io_rdbuf := io_rdbuf rhs\<rparr>)"

subsection \<open>Words\<close>

definition words_ok :: "'v words \<Rightarrow> bool" where
  "words_ok w \<longleftrightarrow> length (w_data w) = w_cap w \<and> w_size w \<le> w_cap w \<and> w_size w \<le> 2 ^ 31 \<and> w_cap w \<le> 2 ^ 32"

lemma realloc_slots_small:
  assumes "0 < width" "n * width < 2 ^ 64"
  shows "realloc_slots width n a = take n a @ replicate (n - length a) None"
  using assms by (simp add: realloc_slots_def)

lemma new_cap_small: "cap < req \<Longrightarrow> req \<le> 2 ^ 33 \<Longrightarrow> new_cap cap req = max (2 * cap) req"
  by (simp add: new_cap_def)

lemma grow_words_ok:
  assumes "words_ok w" "w_cap w < req" "req \<le> 2 ^ 31"
  shows "\<exists>a. grow_words True z req w = Inr (Some (w\<lparr>w_data := a, w_cap := max (2 * w_cap w) req\<rparr>)) \<and>
    length a = max (2 * w_cap w) req \<and> take (w_size w) a = take (w_size w) (w_data w) \<and>
    (\<forall>j. w_size w \<le> j \<longrightarrow> j + w_cap w < w_size w + length a \<longrightarrow> a ! j = Some z)"
proof -
  let ?n = "max (2 * w_cap w) req"
  let ?b = "w_data w @ replicate (?n - w_cap w) (None :: 'a option)"
  let ?a = "take (w_size w) ?b @ replicate (?n - w_cap w) (Some z) @ drop (w_size w + (?n - w_cap w)) ?b"
  have w: "length (w_data w) = w_cap w" "w_size w \<le> w_cap w" using assms(1) by (simp_all add: words_ok_def)
  have b: "realloc_slots 8 ?n (w_data w) = ?b"
    using assms w by (simp add: realloc_slots_small max_def)
  have "zero_slots z (w_size w) (?n - w_cap w) ?b = Some ?a"
    using assms w by (simp add: zero_slots_def)
  then have "grow_words True z req w = Inr (Some (w\<lparr>w_data := ?a, w_cap := ?n\<rparr>))"
    using assms b by (simp add: grow_words_def new_cap_small Let_def)
  moreover have "?a ! j = Some z" if "w_size w \<le> j" "j + w_cap w < w_size w + length ?a" for j
    using that w assms(2) by (auto simp: nth_append)
  moreover have "length ?a = ?n" using w assms(2) by auto
  moreover have "take (w_size w) ?a = take (w_size w) (w_data w)" using w by simp
  ultimately show ?thesis by blast
qed

text \<open>With memory, a reference to any word is given, and the words in use stay as they are.\<close>

lemma word_at_ok:
  assumes "words_ok w" "0 \<le> index" "index < 2 ^ 31"
  shows "\<exists>w'. word_at True z index w = Inr (Some (nat index, w')) \<and> words_ok w' \<and>
    w_size w' = max (w_size w) (nat index + 1) \<and> take (w_size w) (w_data w') = take (w_size w) (w_data w)"
proof -
  have req: "size_add (size_of_int index) 1 = nat index + 1" "nat index + 1 \<le> 2 ^ 31"
    using assms(2,3) by (simp_all add: size_of_int_def size_add_def)
  show ?thesis
  proof (cases "w_cap w < nat index + 1")
    case True
    from grow_words_ok [OF assms(1) True req(2), of z] obtain a where
      a: "grow_words True z (nat index + 1) w = Inr (Some (w\<lparr>w_data := a, w_cap := max (2 * w_cap w) (nat index + 1)\<rparr>))"
        "length a = max (2 * w_cap w) (nat index + 1)" "take (w_size w) a = take (w_size w) (w_data w)" by blast
    then show ?thesis using assms True req by (auto simp: word_at_def words_ok_def Let_def)
  next
    case False
    then show ?thesis using assms req by (auto simp: word_at_def words_ok_def Let_def)
  qed
qed

text \<open>Without memory for it, the answer is the static variable and nothing changes but the state bits.\<close>

lemma word_at_no_memory:
  assumes "words_ok w" "0 \<le> index" "index < 2 ^ 31" "w_cap w \<le> nat index"
  shows "word_at False z index w = Inr None"
  using assms by (simp add: word_at_def size_of_int_def size_add_def grow_words_def Let_def)

text \<open>An assignment through the reference.\<close>

definition set_word :: "(bool \<Rightarrow> int \<Rightarrow> ios_base \<Rightarrow> (nat option \<times> ios_base) ios_result) \<Rightarrow> (ios_base \<Rightarrow> 'v words) \<Rightarrow>
    ('v words \<Rightarrow> ios_base \<Rightarrow> ios_base) \<Rightarrow> bool \<Rightarrow> int \<Rightarrow> 'v \<Rightarrow> ios_base \<Rightarrow> ios_base ios_result" where
  "set_word ref arr upd ok i v s =
     (case ref ok i s of
        Inl e \<Rightarrow> Inl e
      | Inr (None, s') \<Rightarrow> Inr s'
      | Inr (Some k, s') \<Rightarrow> Inr (upd ((arr s')\<lparr>w_data := (w_data (arr s'))[k := Some v]\<rparr>) s'))"

text \<open>What the two arrays have in common, and that an assigned word keeps its value.\<close>

locale stream_words =
  fixes ref :: "bool \<Rightarrow> int \<Rightarrow> ios_base \<Rightarrow> (nat option \<times> ios_base) ios_result"
    and arr :: "ios_base \<Rightarrow> 'v words" and upd :: "'v words \<Rightarrow> ios_base \<Rightarrow> ios_base"
  assumes ref_ok: "words_ok (arr s) \<Longrightarrow> 0 \<le> i \<Longrightarrow> i < 2 ^ 31 \<Longrightarrow>
      \<exists>w. ref True i s = Inr (Some (nat i), upd w s) \<and> words_ok w \<and> w_size w = max (w_size (arr s)) (nat i + 1) \<and>
        take (w_size (arr s)) (w_data w) = take (w_size (arr s)) (w_data (arr s))"
    and ref_no_memory: "words_ok (arr s) \<Longrightarrow> 0 \<le> i \<Longrightarrow> i < 2 ^ 31 \<Longrightarrow> w_cap (arr s) \<le> nat i \<Longrightarrow>
      ref False i s = map_sum id (Pair None) (ios_setstate ios_badbit s)"
    and arr_upd: "arr (upd w s) = w" "upd w (upd w' s) = upd w s"
begin

lemma set_word_ok:
  assumes "words_ok (arr s)" "0 \<le> i" "i < 2 ^ 31"
  shows "\<exists>w. set_word ref arr upd True i v s = Inr (upd w s) \<and> words_ok w \<and>
    w_size w = max (w_size (arr s)) (nat i + 1) \<and> w_data w ! nat i = Some v \<and>
    (\<forall>k < w_size (arr s). k \<noteq> nat i \<longrightarrow> w_data w ! k = w_data (arr s) ! k)"
proof -
  obtain w where w: "ref True i s = Inr (Some (nat i), upd w s)" "words_ok w" "w_size w = max (w_size (arr s)) (nat i + 1)"
    "take (w_size (arr s)) (w_data w) = take (w_size (arr s)) (w_data (arr s))"
    using ref_ok [OF assms] by blast
  have "w_data w ! k = w_data (arr s) ! k" if "k < w_size (arr s)" for k
    using arg_cong [OF w(4), of "\<lambda>xs. xs ! k"] that by simp
  moreover have "nat i < length (w_data w)" using w(2,3) by (simp add: words_ok_def)
  ultimately show ?thesis using w by (auto simp: set_word_def arr_upd words_ok_def)
qed

lemma set_word_no_memory:
  assumes "words_ok (arr s)" "0 \<le> i" "i < 2 ^ 31" "w_cap (arr s) \<le> nat i"
  shows "set_word ref arr upd False i v s = ios_setstate ios_badbit s"
  using ref_no_memory [OF assms] by (cases "ios_setstate ios_badbit s") (simp_all add: set_word_def)

end

interpretation iwords: stream_words ios_iword iarray "\<lambda>w. iarray_update (\<lambda>_. w)"
proof
  fix s :: ios_base and i :: int
  assume a: "words_ok (iarray s)" "0 \<le> i" "i < 2 ^ 31"
  from word_at_ok [OF a, of 0] show "\<exists>w. ios_iword True i s = Inr (Some (nat i), s\<lparr>iarray := w\<rparr>) \<and> words_ok w \<and>
      w_size w = max (w_size (iarray s)) (nat i + 1) \<and>
      take (w_size (iarray s)) (w_data w) = take (w_size (iarray s)) (w_data (iarray s))"
    by (auto simp: ios_iword_def)
qed (simp_all add: ios_iword_def word_at_no_memory)

interpretation pwords: stream_words ios_pword parray "\<lambda>w. parray_update (\<lambda>_. w)"
proof
  fix s :: ios_base and i :: int
  assume a: "words_ok (parray s)" "0 \<le> i" "i < 2 ^ 31"
  from word_at_ok [OF a, of 0] show "\<exists>w. ios_pword True i s = Inr (Some (nat i), s\<lparr>parray := w\<rparr>) \<and> words_ok w \<and>
      w_size w = max (w_size (parray s)) (nat i + 1) \<and>
      take (w_size (parray s)) (w_data w) = take (w_size (parray s)) (w_data (parray s))"
    by (auto simp: ios_pword_def)
qed (simp_all add: ios_pword_def word_at_no_memory)

subsection \<open>Callbacks in the order of their registration\<close>

definition has_callbacks :: "ios_base \<Rightarrow> (nat \<times> int) list \<Rightarrow> bool" where
  "has_callbacks s cs \<longleftrightarrow> event_size s = length cs \<and> take (length cs) (io_fn s) = map (Some \<circ> fst) cs \<and>
     take (length cs) (io_index s) = map (Some \<circ> snd) cs \<and>
     event_cap s \<le> length (io_fn s) \<and> event_cap s \<le> length (io_index s) \<and> event_cap s \<le> 2 ^ 32"

lemma has_callbacks_length:
  "has_callbacks s cs \<Longrightarrow> length cs \<le> length (io_fn s)" "has_callbacks s cs \<Longrightarrow> length cs \<le> length (io_index s)"
  by (auto simp: has_callbacks_def dest!: arg_cong [of _ _ length])

lemma has_callbacks_nth:
  assumes "has_callbacks s cs" "i < length cs"
  shows "io_fn s ! i = Some (fst (cs ! i))" "io_index s ! i = Some (snd (cs ! i))"
  using assms arg_cong [of _ _ "\<lambda>xs. xs ! i", OF conjunct1 [OF conjunct2 [OF assms(1) [unfolded has_callbacks_def]]]]
    arg_cong [of _ _ "\<lambda>xs. xs ! i", OF conjunct1 [OF conjunct2 [OF conjunct2 [OF assms(1) [unfolded has_callbacks_def]]]]]
  by simp_all

lemma store_callback_ok:
  assumes "has_callbacks s cs" "length cs < length (io_fn s)" "length cs < length (io_index s)"
  shows "\<exists>s'. store_callback f x s = Inr s' \<and> has_callbacks s' (cs @ [(f, x)]) \<and>
    iarray s' = iarray s \<and> parray s' = parray s"
  using assms by (auto simp: store_callback_def has_callbacks_def take_Suc_conv_app_nth)

lemma register_callback_ok:
  assumes "has_callbacks s cs" "length cs < 2 ^ 32"
  shows "\<exists>s'. register_callback True True f x s = Inr s' \<and> has_callbacks s' (cs @ [(f, x)]) \<and>
    iarray s' = iarray s \<and> parray s' = parray s"
proof (cases "event_cap s < length cs + 1")
  case True
  let ?n = "max (2 * event_cap s) (length cs + 1)"
  let ?s = "s\<lparr>io_fn := realloc_slots 8 ?n (io_fn s), io_index := realloc_slots 4 ?n (io_index s)\<rparr>"
  have small: "?n * 8 < 2 ^ 64" "?n * 4 < 2 ^ 64" using True assms(2) by simp_all
  have "has_callbacks ?s cs"
    using assms has_callbacks_length [OF assms(1)] small
    by (auto simp: has_callbacks_def realloc_slots_small min_def)
  moreover have "register_callback True True f x s = store_callback f x ?s"
    using True assms by (simp add: register_callback_def has_callbacks_def new_cap_small Let_def)
  moreover have "length cs < length (io_fn ?s)" "length cs < length (io_index ?s)"
    using small by (simp_all add: realloc_slots_small)
  ultimately show ?thesis using store_callback_ok [of ?s cs f x] by simp
next
  case False
  then have "register_callback True True f x s = store_callback f x s"
    using assms by (simp add: register_callback_def has_callbacks_def Let_def)
  then show ?thesis using False assms store_callback_ok [of s cs f x] by (simp add: has_callbacks_def)
qed

text \<open>The calls for a list of callbacks, one after the other.\<close>

fun call_list :: "(nat \<Rightarrow> ios_event \<Rightarrow> int \<Rightarrow> ios_base \<Rightarrow> ios_base ios_result) \<Rightarrow> ios_event \<Rightarrow> (nat \<times> int) list \<Rightarrow>
    ios_base \<Rightarrow> ios_base ios_result" where
  "call_list cb ev [] s = Inr s"
| "call_list cb ev ((f, x) # cs) s = (case cb f ev x s of Inl e \<Rightarrow> Inl e | Inr s' \<Rightarrow> call_list cb ev cs s')"

definition leaves_callbacks :: "(nat \<Rightarrow> ios_event \<Rightarrow> int \<Rightarrow> ios_base \<Rightarrow> ios_base ios_result) \<Rightarrow> bool" where
  "leaves_callbacks cb \<longleftrightarrow> (\<forall>f ev x s s' cs. cb f ev x s = Inr s' \<longrightarrow> has_callbacks s cs \<longrightarrow> has_callbacks s' cs)"

lemma call_from_list:
  assumes "leaves_callbacks cb" "has_callbacks s cs" "n \<le> length cs"
  shows "call_from cb ev n s = call_list cb ev (rev (take n cs)) s"
  using assms(2,3)
proof (induction n arbitrary: s)
  case (Suc n)
  obtain f x where fx: "cs ! n = (f, x)" by fastforce
  have "rev (take (Suc n) cs) = (f, x) # rev (take n cs)" using Suc.prems(2) fx by (simp add: take_Suc_conv_app_nth)
  then show ?case
    using Suc assms(1) fx has_callbacks_length [OF Suc.prems(1)] has_callbacks_nth [OF Suc.prems(1), of n]
    by (auto simp: leaves_callbacks_def split: sum.split)
qed simp

lemma call_callbacks_reverse:
  assumes "leaves_callbacks cb" "has_callbacks s cs"
  shows "call_callbacks cb ev s = call_list cb ev (rev cs) s"
  using call_from_list [OF assms, of "length cs" ev] assms(2) by (simp add: call_callbacks_def has_callbacks_def)

subsection \<open>The storage of a stream\<close>

text \<open>Assignments to words and registrations, with memory, and what they leave behind.\<close>

datatype storage_call = SetInt int int | SetPointer int nat | Register nat int

definition set_int :: "bool \<Rightarrow> int \<Rightarrow> int \<Rightarrow> ios_base \<Rightarrow> ios_base ios_result" where
  "set_int = set_word ios_iword iarray (\<lambda>w. iarray_update (\<lambda>_. w))"

definition set_pointer :: "bool \<Rightarrow> int \<Rightarrow> nat \<Rightarrow> ios_base \<Rightarrow> ios_base ios_result" where
  "set_pointer = set_word ios_pword parray (\<lambda>w. parray_update (\<lambda>_. w))"

fun storage_step :: "storage_call \<Rightarrow> ios_base \<Rightarrow> ios_base ios_result" where
  "storage_step (SetInt i v) s = set_int True i v s"
| "storage_step (SetPointer i v) s = set_pointer True i v s"
| "storage_step (Register f x) s = register_callback True True f x s"

fun storage_run :: "storage_call list \<Rightarrow> ios_base \<Rightarrow> ios_base ios_result" where
  "storage_run [] s = Inr s"
| "storage_run (c # cs) s = (case storage_step c s of Inl e \<Rightarrow> Inl e | Inr s' \<Rightarrow> storage_run cs s')"

record storage =
  ints :: "nat \<Rightarrow> int option"
  pointers :: "nat \<Rightarrow> nat option"
  registered :: "(nat \<times> int) list"

fun storage_spec :: "storage_call \<Rightarrow> storage \<Rightarrow> storage" where
  "storage_spec (SetInt i v) a = a\<lparr>ints := (ints a)(nat i \<mapsto> v)\<rparr>"
| "storage_spec (SetPointer i v) a = a\<lparr>pointers := (pointers a)(nat i \<mapsto> v)\<rparr>"
| "storage_spec (Register f x) a = a\<lparr>registered := registered a @ [(f, x)]\<rparr>"

definition no_storage :: storage where
  "no_storage = \<lparr>ints = Map.empty, pointers = Map.empty, registered = []\<rparr>"

fun in_index :: "storage_call \<Rightarrow> bool" where
  "in_index (SetInt i v) = (0 \<le> i \<and> i < 2 ^ 31)"
| "in_index (SetPointer i v) = (0 \<le> i \<and> i < 2 ^ 31)"
| "in_index (Register f x) = True"

definition has_words :: "'v words \<Rightarrow> (nat \<Rightarrow> 'v option) \<Rightarrow> bool" where
  "has_words w m \<longleftrightarrow> words_ok w \<and> (\<forall>k v. m k = Some v \<longrightarrow> k < w_size w \<and> w_data w ! k = Some v)"

definition has_storage :: "ios_base \<Rightarrow> storage \<Rightarrow> bool" where
  "has_storage s a \<longleftrightarrow> has_words (iarray s) (ints a) \<and> has_words (parray s) (pointers a) \<and> has_callbacks s (registered a)"

lemma has_words_set:
  assumes "has_words w m" "words_ok w'" "w_size w' = max (w_size w) (nat i + 1)" "w_data w' ! nat i = Some v"
    "\<forall>k < w_size w. k \<noteq> nat i \<longrightarrow> w_data w' ! k = w_data w ! k"
  shows "has_words w' (m(nat i \<mapsto> v))"
  using assms by (auto simp: has_words_def less_max_iff_disj)

lemma storage_step_simulates:
  assumes "has_storage s a" "in_index c" "length (registered a) < 2 ^ 32"
  shows "\<exists>s'. storage_step c s = Inr s' \<and> has_storage s' (storage_spec c a)"
proof (cases c)
  case (SetInt i v)
  then show ?thesis
    using assms iwords.set_word_ok [of s i v] has_words_set [of "iarray s" "ints a"]
    by (fastforce simp: has_storage_def set_int_def has_words_def [of "iarray s"] has_callbacks_def)
next
  case (SetPointer i v)
  then show ?thesis
    using assms pwords.set_word_ok [of s i v] has_words_set [of "parray s" "pointers a"]
    by (fastforce simp: has_storage_def set_pointer_def has_words_def [of "parray s"] has_callbacks_def)
next
  case (Register f x)
  then show ?thesis using assms register_callback_ok [of s "registered a" f x] by (auto simp: has_storage_def)
qed

lemma storage_run_simulates:
  assumes "has_storage s a" "list_all in_index cs" "length (registered a) + length cs < 2 ^ 32"
  shows "\<exists>s'. storage_run cs s = Inr s' \<and> has_storage s' (fold storage_spec cs a)"
  using assms
proof (induction cs arbitrary: s a)
  case (Cons c cs)
  then obtain s1 where s1: "storage_step c s = Inr s1" "has_storage s1 (storage_spec c a)"
    using storage_step_simulates [of s a c] by auto
  have "length (registered (storage_spec c a)) \<le> length (registered a) + 1" by (cases c) simp_all
  then show ?case using Cons.IH [OF s1(2)] Cons.prems(2,3) s1(1) by simp
qed auto

lemma has_storage_init: "has_storage (ios_init sb l) no_storage"
  by (simp add: has_storage_def has_words_def words_ok_def has_callbacks_def ios_init_def no_storage_def no_words_def)

subsection \<open>\<^verbatim>\<open>copyfmt\<close>\<close>

lemma copy_words_ok:
  assumes "words_ok src" "words_ok dst"
  shows "\<exists>w. copy_words src dst = Some w \<and> words_ok w \<and> w_size w = w_size src \<and>
    take (w_size src) (w_data w) = take (w_size src) (w_data src)"
  using assms by (auto simp: copy_words_def copy_slots_def words_ok_def Let_def)

text \<open>Whether everything \<^verbatim>\<open>copyfmt\<close> has to allocate is granted.\<close>

definition copyfmt_granted :: "bool \<Rightarrow> bool \<Rightarrow> bool \<Rightarrow> bool \<Rightarrow> ios_base \<Rightarrow> ios_base \<Rightarrow> bool" where
  "copyfmt_granted o1 o2 o3 o4 rhs s \<longleftrightarrow>
     (event_cap s < event_size rhs \<longrightarrow> o1 \<and> o2) \<and> (w_cap (iarray s) < w_size (iarray rhs) \<longrightarrow> o3) \<and>
     (w_cap (parray s) < w_size (parray rhs) \<longrightarrow> o4)"

lemma copyfmt_refused: "\<not> copyfmt_granted o1 o2 o3 o4 rhs s \<Longrightarrow> ios_copyfmt o1 o2 o3 o4 rhs s = Inl (IosBadAlloc, s)"
  by (auto simp: copyfmt_granted_def ios_copyfmt_def Let_def)

lemma copyfmt_copies:
  assumes "copyfmt_granted o1 o2 o3 o4 rhs s" "has_storage s a" "has_storage rhs b" "length (registered b) \<le> 2 ^ 32"
  shows "\<exists>s'. ios_copyfmt o1 o2 o3 o4 rhs s = Inr s' \<and> has_storage s' b \<and>
    io_fmtflags s' = io_fmtflags rhs \<and> io_precision s' = io_precision rhs \<and> io_width s' = io_width rhs \<and>
    io_loc s' = io_loc rhs \<and> io_rdstate s' = io_rdstate s \<and> io_exceptions s' = io_exceptions s \<and> io_rdbuf s' = io_rdbuf s"
proof -
  let ?n = "event_size rhs"
  have w: "words_ok (iarray rhs)" "words_ok (iarray s)" "words_ok (parray rhs)" "words_ok (parray s)"
    using assms(2,3) by (simp_all add: has_storage_def has_words_def)
  obtain ws where ws: "copy_words (iarray rhs) (iarray s) = Some ws" "words_ok ws" "w_size ws = w_size (iarray rhs)"
    "take (w_size (iarray rhs)) (w_data ws) = take (w_size (iarray rhs)) (w_data (iarray rhs))"
    using copy_words_ok [OF w(1,2)] by blast
  obtain ps where ps: "copy_words (parray rhs) (parray s) = Some ps" "words_ok ps" "w_size ps = w_size (parray rhs)"
    "take (w_size (parray rhs)) (w_data ps) = take (w_size (parray rhs)) (w_data (parray rhs))"
    using copy_words_ok [OF w(3,4)] by blast
  have hw: "has_words ws (ints b)" "has_words ps (pointers b)"
    using assms(3) ws(2-4) ps(2-4) by (auto simp: has_storage_def has_words_def) (metis nth_take)+
  note cb = assms(2,3) [unfolded has_storage_def, THEN conjunct2, THEN conjunct2, unfolded has_callbacks_def]
  note len = has_callbacks_length [of rhs "registered b"]
  have rhs: "has_callbacks rhs (registered b)" using assms(3) by (simp add: has_storage_def)
  show ?thesis
  proof (cases "event_cap s < ?n")
    case True
    then show ?thesis
      using assms(1,4) cb len [OF rhs] ws(1) ps(1) hw
      by (simp add: ios_copyfmt_def copyfmt_granted_def Let_def copy_slots_def has_storage_def has_callbacks_def)
  next
    case False
    then show ?thesis
      using assms(1,4) cb len [OF rhs] ws(1) ps(1) hw
      by (simp add: ios_copyfmt_def copyfmt_granted_def Let_def copy_slots_def has_storage_def has_callbacks_def)
  qed
qed

lemma move_keeps_storage:
  "has_storage rhs a \<Longrightarrow> has_storage (fst (ios_move rhs)) a \<and> has_storage (snd (ios_move rhs)) no_storage"
  by (simp add: ios_move_def has_storage_def has_words_def words_ok_def has_callbacks_def no_storage_def no_words_def)

lemma swap_swaps_storage:
  "has_storage s a \<Longrightarrow> has_storage rhs b \<Longrightarrow> has_storage (fst (ios_swap s rhs)) b \<and> has_storage (snd (ios_swap s rhs)) a"
  by (simp add: ios_swap_def has_storage_def has_callbacks_def)

end
