(* ===== verification/String_Numbers.thy ===== *)
theory String_Numbers
  imports Wissbi_Prelude
begin

text \<open>
  The conversions between strings and numbers of the library (\<^verbatim>\<open>libcxx/src/string.cpp\<close>): \<^verbatim>\<open>stoi\<close> and its relatives, which
  wrap the C functions and turn their errors into exceptions, and \<^verbatim>\<open>to_string\<close>, which prints into a string it
  enlarges until the text fits. A string is the list of the codes of its characters, for \<^verbatim>\<open>string\<close> as for \<^verbatim>\<open>wstring\<close>.
\<close>

type_synonym units = "nat list"

subsection \<open>The C functions\<close>

definition c_space :: "nat \<Rightarrow> bool" where
  "c_space c \<longleftrightarrow> c = 32 \<or> 9 \<le> c \<and> c \<le> 13"

definition c_digit :: "nat \<Rightarrow> nat \<Rightarrow> nat option" where
  "c_digit b c =
     (let d = (if 48 \<le> c \<and> c \<le> 57 then Some (c - 48) else if 97 \<le> c \<and> c \<le> 122 then Some (c - 87)
               else if 65 \<le> c \<and> c \<le> 90 then Some (c - 55) else None) in
      case d of Some v \<Rightarrow> (if v < b then Some v else None) | None \<Rightarrow> None)"

text \<open>The value of the longest run of digits, and its length.\<close>

fun scan_digits :: "nat \<Rightarrow> nat \<Rightarrow> units \<Rightarrow> nat \<times> nat" where
  "scan_digits b v [] = (v, 0)"
| "scan_digits b v (c # cs) =
     (case c_digit b c of
        None \<Rightarrow> (v, 0)
      | Some d \<Rightarrow> (case scan_digits b (v * b + d) cs of (w, n) \<Rightarrow> (w, n + 1)))"

definition hex_prefix :: "nat \<Rightarrow> units \<Rightarrow> bool" where
  "hex_prefix b s \<longleftrightarrow> (b = 0 \<or> b = 16) \<and> 3 \<le> length s \<and> s ! 0 = 48 \<and> (s ! 1 = 120 \<or> s ! 1 = 88) \<and> c_digit 16 (s ! 2) \<noteq> None"

text \<open>
  What \<^verbatim>\<open>strtol\<close> and the functions like it read: sign, magnitude and the number of characters, none for a
  string they cannot convert.
\<close>

definition strto :: "nat \<Rightarrow> units \<Rightarrow> (bool \<times> nat) option \<times> nat" where
  "strto b str =
     (let s = takeWhile (\<lambda>c. c \<noteq> 0) str;
          k = length (takeWhile c_space s);
          t = drop k s;
          signed = (t \<noteq> [] \<and> (hd t = 43 \<or> hd t = 45));
          u = (if signed then tl t else t);
          base = (if hex_prefix b u then 16 else if b = 0 then (if u \<noteq> [] \<and> hd u = 48 then 8 else 10) else b);
          w = (if hex_prefix b u then drop 2 u else u);
          (v, n) = scan_digits base 0 w in
      if n = 0 then (None, 0)
      else (Some (signed \<and> hd t = 45, v), k + (if signed then 1 else 0) + (if hex_prefix b u then 2 else 0) + n))"

text \<open>\<^verbatim>\<open>errno\<close>: a failed conversion leaves 0 in it, one out of range \<^verbatim>\<open>ERANGE\<close>.\<close>

definition ERANGE :: int where "ERANGE = 34"

definition strtol_like :: "int \<Rightarrow> int \<Rightarrow> nat \<Rightarrow> units \<Rightarrow> int \<times> nat \<times> int" where
  "strtol_like lo hi b s =
     (case strto b s of
        (None, p) \<Rightarrow> (0, p, 0)
      | (Some (neg, v), p) \<Rightarrow>
          let i = (if neg then - int v else int v) in
          if i < lo then (lo, p, ERANGE) else if hi < i then (hi, p, ERANGE) else (i, p, 0))"

definition strtoul_like :: "int \<Rightarrow> nat \<Rightarrow> units \<Rightarrow> int \<times> nat \<times> int" where
  "strtoul_like hi b s =
     (case strto b s of
        (None, p) \<Rightarrow> (0, p, 0)
      | (Some (neg, v), p) \<Rightarrow>
          if hi < int v then (hi, p, ERANGE) else ((if neg then - int v else int v) mod (hi + 1), p, 0))"

definition strtol :: "nat \<Rightarrow> units \<Rightarrow> int \<times> nat \<times> int" where
  "strtol = strtol_like (- (2 ^ 63)) (2 ^ 63 - 1)"

definition strtoul :: "nat \<Rightarrow> units \<Rightarrow> int \<times> nat \<times> int" where
  "strtoul = strtoul_like (2 ^ 64 - 1)"

subsection \<open>\<^verbatim>\<open>stoi\<close> and its relatives\<close>

datatype number_error = Out_Of_Range string | Invalid_Argument string | Undefined_Base

text \<open>The value and the index after it, or the exception; and \<^verbatim>\<open>errno\<close> afterwards. Other bases are undefined in C.\<close>

definition as_integer_helper :: "string \<Rightarrow> units \<Rightarrow> nat \<Rightarrow> (nat \<Rightarrow> units \<Rightarrow> int \<times> nat \<times> int) \<Rightarrow> int \<Rightarrow>
    (number_error + int \<times> nat) \<times> int" where
  "as_integer_helper func str b f errno =
     (if b = 1 \<or> 36 < b then (Inl Undefined_Base, errno)
      else case f b str of (r, ptr, e) \<Rightarrow>
        (if e = ERANGE then Inl (Out_Of_Range (func @ '': out of range''))
         else if ptr = 0 then Inl (Invalid_Argument (func @ '': no conversion''))
         else Inr (r, ptr), errno))"

definition as_int :: "string \<Rightarrow> units \<Rightarrow> nat \<Rightarrow> int \<Rightarrow> (number_error + int \<times> nat) \<times> int" where
  "as_int func s b errno =
     (case as_integer_helper func s b strtol errno of
        (Inr (r, ptr), e) \<Rightarrow>
          (if r < - (2 ^ 31) \<or> 2 ^ 31 - 1 < r then (Inl (Out_Of_Range (func @ '': out of range'')), e) else (Inr (r, ptr), e))
      | (Inl x, e) \<Rightarrow> (Inl x, e))"

definition stoi :: "units \<Rightarrow> nat \<Rightarrow> int \<Rightarrow> (number_error + int \<times> nat) \<times> int" where
  "stoi s b = as_int ''stoi'' s b"

definition stol :: "units \<Rightarrow> nat \<Rightarrow> int \<Rightarrow> (number_error + int \<times> nat) \<times> int" where
  "stol s b = as_integer_helper ''stol'' s b strtol"

definition stoul :: "units \<Rightarrow> nat \<Rightarrow> int \<Rightarrow> (number_error + int \<times> nat) \<times> int" where
  "stoul s b = as_integer_helper ''stoul'' s b strtoul"

text \<open>\<^verbatim>\<open>long long\<close> has the range of \<^verbatim>\<open>long\<close> here, and \<^verbatim>\<open>strtoll\<close> and \<^verbatim>\<open>strtoull\<close> the behaviour of \<^verbatim>\<open>strtol\<close> and \<^verbatim>\<open>strtoul\<close>.\<close>

definition stoll :: "units \<Rightarrow> nat \<Rightarrow> int \<Rightarrow> (number_error + int \<times> nat) \<times> int" where
  "stoll s b = as_integer_helper ''stoll'' s b strtol"

definition stoull :: "units \<Rightarrow> nat \<Rightarrow> int \<Rightarrow> (number_error + int \<times> nat) \<times> int" where
  "stoull s b = as_integer_helper ''stoull'' s b strtoul"

subsection \<open>\<^verbatim>\<open>to_string\<close>\<close>

definition units_of :: "string \<Rightarrow> units" where
  "units_of s = map of_char s"

text \<open>
  The variable argument of \<^verbatim>\<open>snprintf\<close> and \<^verbatim>\<open>swprintf\<close>, of the width it is passed with (\<^verbatim>\<open>long\<close> and \<^verbatim>\<open>long long\<close> have 64
  bits), and the text a format gives for it: \<^verbatim>\<open>%d\<close> and \<^verbatim>\<open>%u\<close> take an \<^verbatim>\<open>int\<close> and an \<^verbatim>\<open>unsigned\<close>, with \<^verbatim>\<open>l\<close> a
  \<^verbatim>\<open>long\<close>, with \<^verbatim>\<open>ll\<close> a \<^verbatim>\<open>long long\<close>. An argument of another width is undefined behaviour, which is \<open>None\<close>.
\<close>

datatype vararg = Vararg32 u32 | Vararg64 u64

definition conversion_text :: "char \<Rightarrow> 'a::len word \<Rightarrow> string option" where
  "conversion_text c w =
     (if c = CHR ''d'' then Some (show_int (sint w))
      else if c = CHR ''u'' then Some (show_int (uint w)) else None)"

definition printf_text :: "string \<Rightarrow> vararg \<Rightarrow> units option" where
  "printf_text fmt a =
     map_option units_of
       (case fmt of
          [p, c] \<Rightarrow> (if p = CHR ''%'' then case a of Vararg32 w \<Rightarrow> conversion_text c w | Vararg64 w \<Rightarrow> None else None)
        | [p, l, c] \<Rightarrow>
            (if p = CHR ''%'' \<and> l = CHR ''l'' then case a of Vararg32 w \<Rightarrow> None | Vararg64 w \<Rightarrow> conversion_text c w else None)
        | [p, l, m, c] \<Rightarrow>
            (if p = CHR ''%'' \<and> l = CHR ''l'' \<and> m = CHR ''l''
             then case a of Vararg32 w \<Rightarrow> None | Vararg64 w \<Rightarrow> conversion_text c w else None)
        | _ \<Rightarrow> None)"

text \<open>
  Printing \<open>text\<close> into a buffer of \<open>n\<close> characters, the last for the terminator: \<^verbatim>\<open>snprintf\<close> answers the length of the
  whole text, \<^verbatim>\<open>swprintf\<close> that or, if it does not fit, -1.
\<close>

definition sprintf_status :: "bool \<Rightarrow> nat \<Rightarrow> units \<Rightarrow> int" where
  "sprintf_status wide n text = (if wide \<and> n \<le> length text then - 1 else int (length text))"

definition sprintf_into :: "nat \<Rightarrow> units \<Rightarrow> units \<Rightarrow> units" where
  "sprintf_into n text s = take (length s) (take (n - 1) text @ 0 # drop (min (n - 1) (length text) + 1) s)"

definition resize :: "nat \<Rightarrow> units \<Rightarrow> units" where
  "resize n s = take n s @ replicate (n - length s) 0"

text \<open>The loop of \<^verbatim>\<open>as_string\<close>, in which \<^verbatim>\<open>available\<close> is always the size of the string.\<close>

partial_function (option) as_string :: "bool \<Rightarrow> string \<Rightarrow> vararg \<Rightarrow> units \<Rightarrow> units option" where
  "as_string wide fmt a s =
     (case printf_text fmt a of None \<Rightarrow> None
      | Some text \<Rightarrow>
          let available = length s; status = sprintf_status wide (available + 1) text; s' = sprintf_into (available + 1) text s in
          if 0 \<le> status then
            if nat status \<le> available then Some (resize (nat status) s')
            else as_string wide fmt a (resize (nat status) s')
          else as_string wide fmt a (resize (available * 2 + 1) s'))"

declare as_string.simps [code]

text \<open>\<^verbatim>\<open>initial_string\<close>: the capacity of an empty string, and of one of 23 wide characters, is given by the string class.\<close>

definition initial_string :: "nat \<Rightarrow> units" where
  "initial_string capacity = replicate capacity 0"

text \<open>The overloads for integers, a value of a signed type as the word that represents it.\<close>

definition to_string_int :: "nat \<Rightarrow> u32 \<Rightarrow> units option" where
  "to_string_int capacity val = as_string False ''%d'' (Vararg32 val) (initial_string capacity)"

definition to_string_unsigned :: "nat \<Rightarrow> u32 \<Rightarrow> units option" where
  "to_string_unsigned capacity val = as_string False ''%u'' (Vararg32 val) (initial_string capacity)"

definition to_string_long :: "nat \<Rightarrow> u64 \<Rightarrow> units option" where
  "to_string_long capacity val = as_string False ''%ld'' (Vararg64 val) (initial_string capacity)"

definition to_string_unsigned_long :: "nat \<Rightarrow> u64 \<Rightarrow> units option" where
  "to_string_unsigned_long capacity val = as_string False ''%lu'' (Vararg64 val) (initial_string capacity)"

definition to_string_long_long :: "nat \<Rightarrow> u64 \<Rightarrow> units option" where
  "to_string_long_long capacity val = as_string False ''%lld'' (Vararg64 val) (initial_string capacity)"

definition to_string_unsigned_long_long :: "nat \<Rightarrow> u64 \<Rightarrow> units option" where
  "to_string_unsigned_long_long capacity val = as_string False ''%llu'' (Vararg64 val) (initial_string capacity)"

definition to_wstring_int :: "nat \<Rightarrow> u32 \<Rightarrow> units option" where
  "to_wstring_int capacity val = as_string True ''%d'' (Vararg32 val) (initial_string capacity)"

definition to_wstring_unsigned :: "nat \<Rightarrow> u32 \<Rightarrow> units option" where
  "to_wstring_unsigned capacity val = as_string True ''%u'' (Vararg32 val) (initial_string capacity)"

definition to_wstring_long :: "nat \<Rightarrow> u64 \<Rightarrow> units option" where
  "to_wstring_long capacity val = as_string True ''%ld'' (Vararg64 val) (initial_string capacity)"

definition to_wstring_unsigned_long :: "nat \<Rightarrow> u64 \<Rightarrow> units option" where
  "to_wstring_unsigned_long capacity val = as_string True ''%lu'' (Vararg64 val) (initial_string capacity)"

definition to_wstring_long_long :: "nat \<Rightarrow> u64 \<Rightarrow> units option" where
  "to_wstring_long_long capacity val = as_string True ''%lld'' (Vararg64 val) (initial_string capacity)"

definition to_wstring_unsigned_long_long :: "nat \<Rightarrow> u64 \<Rightarrow> units option" where
  "to_wstring_unsigned_long_long capacity val = as_string True ''%llu'' (Vararg64 val) (initial_string capacity)"

lemmas to_string_defs = to_string_int_def to_string_unsigned_def to_string_long_def to_string_unsigned_long_def
  to_string_long_long_def to_string_unsigned_long_long_def to_wstring_int_def to_wstring_unsigned_def to_wstring_long_def
  to_wstring_unsigned_long_def to_wstring_long_long_def to_wstring_unsigned_long_long_def

subsection \<open>Printing ends with the whole text\<close>

lemma length_sprintf_into [simp]: "length (sprintf_into n text s) = length s"
  by (simp add: sprintf_into_def)

lemma length_resize [simp]: "length (resize n s) = n"
  by (simp add: resize_def)

lemma as_string_fits:
  assumes "printf_text fmt a = Some text" "length text \<le> length s"
  shows "as_string wide fmt a s = Some text"
proof -
  have "take (length text) (sprintf_into (length s + 1) text s) = text"
    using assms(2) by (simp add: sprintf_into_def)
  then show ?thesis
    using assms by (subst as_string.simps) (simp add: sprintf_status_def Let_def resize_def)
qed

lemma as_string_grows:
  assumes "printf_text fmt a = Some text" "length s < length text"
  shows "\<exists>s'. as_string wide fmt a s = as_string wide fmt a s' \<and> length s < length s'"
proof -
  let ?s = "resize (if wide then length s * 2 + 1 else length text) (sprintf_into (length s + 1) text s)"
  have "as_string wide fmt a s = as_string wide fmt a ?s"
    using assms by (subst as_string.simps) (simp add: sprintf_status_def Let_def)
  moreover have "length s < length ?s" using assms by simp
  ultimately show ?thesis by blast
qed

lemma as_string_text:
  assumes "printf_text fmt a = Some text"
  shows "as_string wide fmt a s = Some text"
proof (induction "length text - length s" arbitrary: s rule: less_induct)
  case (less s)
  show ?case
  proof (cases "length text \<le> length s")
    case True
    with assms show ?thesis by (rule as_string_fits)
  next
    case False
    then obtain s' where s': "as_string wide fmt a s = as_string wide fmt a s'" "length s < length s'"
      using as_string_grows [OF assms, of s wide] by auto
    then have "as_string wide fmt a s' = Some text" using False by (intro less.hyps) simp
    with s' show ?thesis by simp
  qed
qed

lemma to_string_texts:
  "to_string_int capacity v = Some (units_of (show_int (sint v)))"
  "to_string_unsigned capacity v = Some (units_of (show_int (uint v)))"
  "to_string_long capacity w = Some (units_of (show_int (sint w)))"
  "to_string_unsigned_long capacity w = Some (units_of (show_int (uint w)))"
  "to_string_long_long capacity w = Some (units_of (show_int (sint w)))"
  "to_string_unsigned_long_long capacity w = Some (units_of (show_int (uint w)))"
  "to_wstring_int capacity v = Some (units_of (show_int (sint v)))"
  "to_wstring_unsigned capacity v = Some (units_of (show_int (uint v)))"
  "to_wstring_long capacity w = Some (units_of (show_int (sint w)))"
  "to_wstring_unsigned_long capacity w = Some (units_of (show_int (uint w)))"
  "to_wstring_long_long capacity w = Some (units_of (show_int (sint w)))"
  "to_wstring_unsigned_long_long capacity w = Some (units_of (show_int (uint w)))"
  unfolding to_string_defs by (rule as_string_text; simp add: printf_text_def conversion_text_def)+

subsection \<open>Reading decimal numbers\<close>

text \<open>White space, sign, digits and what follows them.\<close>

lemma c_digit_10: "is_digit c \<Longrightarrow> c_digit 10 (of_char c) = Some (digit_val c)"
  by (auto simp: c_digit_def is_digit_def digit_val_def Let_def)

lemma scan_digits_text:
  assumes "\<forall>c \<in> set ds. is_digit c" "rest = [] \<or> c_digit 10 (hd rest) = None"
  shows "scan_digits 10 v (units_of ds @ rest) = (v * 10 ^ length ds + digits_val ds, length ds)"
  using assms(1)
proof (induction ds arbitrary: v)
  case Nil
  then show ?case using assms(2) by (cases rest) (simp_all add: units_of_def digits_val_def)
next
  case (Cons c ds)
  have "digits_val (c # ds) = digit_val c * 10 ^ length ds + digits_val ds"
  proof (induction ds rule: rev_induct)
    case (snoc x xs)
    then show ?case using digits_val_snoc [of "c # xs" x] digits_val_snoc [of xs x] by simp
  qed (simp add: digits_val_def)
  then show ?case using Cons by (simp add: units_of_def c_digit_10 algebra_simps)
qed

definition is_sign :: "units \<Rightarrow> bool" where
  "is_sign sg \<longleftrightarrow> sg = [] \<or> sg = [43] \<or> sg = [45]"

definition stops :: "units \<Rightarrow> bool" where
  "stops rest \<longleftrightarrow> rest = [] \<or> c_digit 10 (hd rest) = None"

lemma digit_unit:
  assumes "is_digit c"
  shows "of_char c \<noteq> (0::nat)" "of_char c \<noteq> (43::nat)" "of_char c \<noteq> (45::nat)" "\<not> c_space (of_char c)"
  using assms by (auto simp: is_digit_def c_space_def)

lemma space_unit: "c_space c \<Longrightarrow> c \<noteq> 0" "\<not> c_space 43" "\<not> c_space 45"
  by (auto simp: c_space_def)

lemma stops_takeWhile: "stops rest \<Longrightarrow> stops (takeWhile (\<lambda>c. c \<noteq> 0) rest)"
  by (cases rest) (auto simp: stops_def)

text \<open>After white space that nothing else of it follows, and a sign, \<^verbatim>\<open>strtol\<close> is left with the rest up to the terminator.\<close>

lemma strto_rest:
  assumes sp: "\<forall>c \<in> set sp. c_space c" and sg: "is_sign sg"
    and t: "\<not> (t \<noteq> [] \<and> sg = [] \<and> (c_space (hd t) \<or> hd t = 43 \<or> hd t = 45))"
  shows "strto 10 (sp @ sg @ t) =
    (case scan_digits 10 0 (takeWhile (\<lambda>c. c \<noteq> 0) t) of (v, n) \<Rightarrow>
       if n = 0 then (None, 0) else (Some (sg = [45], v), length sp + length sg + n))"
proof -
  let ?t = "takeWhile (\<lambda>c. c \<noteq> 0) t"
  have z: "takeWhile (\<lambda>c. c \<noteq> 0) (sp @ sg @ t) = sp @ sg @ ?t"
    using sp sg space_unit(1) by (auto simp: takeWhile_append is_sign_def)
  have h: "?t \<noteq> [] \<Longrightarrow> t \<noteq> [] \<and> hd ?t = hd t" by (cases t) (auto split: if_splits)
  have k: "takeWhile c_space (sp @ sg @ ?t) = sp"
  proof (cases "sg @ ?t")
    case (Cons c cs)
    then have "\<not> c_space c" using sg t h by (cases sg) (auto simp: is_sign_def space_unit)
    then show ?thesis using sp Cons by (simp add: takeWhile_append)
  qed (use sp in simp)
  have s: "(sg @ ?t \<noteq> [] \<and> (hd (sg @ ?t) = 43 \<or> hd (sg @ ?t) = 45)) \<longleftrightarrow> sg \<noteq> []"
    using sg t h by (auto simp: is_sign_def)
  show ?thesis
    using sg s unfolding strto_def Let_def z k hex_prefix_def
    by (auto simp: is_sign_def split: prod.split)
qed

lemma strto_number:
  assumes "\<forall>c \<in> set sp. c_space c" "is_sign sg" "ds \<noteq> []" "\<forall>c \<in> set ds. is_digit c" "stops rest"
  shows "strto 10 (sp @ sg @ units_of ds @ rest) = (Some (sg = [45], digits_val ds), length sp + length sg + length ds)"
proof -
  obtain c cs where ds: "ds = c # cs" using assms(3) by (cases ds) auto
  have z: "takeWhile (\<lambda>c. c \<noteq> 0) (units_of ds @ rest) = units_of ds @ takeWhile (\<lambda>c. c \<noteq> 0) rest"
    using assms(4) digit_unit(1) by (auto simp: takeWhile_append units_of_def)
  have "scan_digits 10 0 (units_of ds @ takeWhile (\<lambda>c. c \<noteq> 0) rest) = (digits_val ds, length ds)"
    using scan_digits_text [OF assms(4), of "takeWhile (\<lambda>c. c \<noteq> 0) rest" 0] stops_takeWhile [OF assms(5)] by (simp add: stops_def)
  moreover have "\<not> (units_of ds @ rest \<noteq> [] \<and> sg = [] \<and>
      (c_space (hd (units_of ds @ rest)) \<or> hd (units_of ds @ rest) = 43 \<or> hd (units_of ds @ rest) = 45))"
    using ds assms(4) digit_unit [of c] by (simp add: units_of_def)
  ultimately show ?thesis using strto_rest [OF assms(1,2)] z assms(3) by simp
qed

lemma strto_nothing:
  assumes "\<forall>c \<in> set sp. c_space c" "is_sign sg" "stops rest"
    "\<not> (rest \<noteq> [] \<and> sg = [] \<and> (c_space (hd rest) \<or> hd rest = 43 \<or> hd rest = 45))"
  shows "strto 10 (sp @ sg @ rest) = (None, 0)"
proof -
  have "scan_digits 10 0 (takeWhile (\<lambda>c. c \<noteq> 0) rest) = (0, 0)"
    using stops_takeWhile [OF assms(3)] by (cases "takeWhile (\<lambda>c. c \<noteq> 0) rest") (auto simp: stops_def)
  then show ?thesis using strto_rest [OF assms(1,2,4)] by simp
qed

text \<open>The outcome for a number, of a function for the range from \<open>lo\<close> to \<open>hi\<close>.\<close>

definition number_result :: "string \<Rightarrow> int \<Rightarrow> int \<Rightarrow> int \<Rightarrow> nat \<Rightarrow> number_error + int \<times> nat" where
  "number_result func lo hi i n =
     (if lo \<le> i \<and> i \<le> hi then Inr (i, n) else Inl (Out_Of_Range (func @ '': out of range'')))"

definition signed_val :: "units \<Rightarrow> string \<Rightarrow> int" where
  "signed_val sg ds = (if sg = [45] then - int (digits_val ds) else int (digits_val ds))"

text \<open>And of the functions for \<^verbatim>\<open>unsigned long\<close>: the digits alone decide about the range, and a minus is taken modulo two to the 64th.\<close>

definition unsigned_result :: "string \<Rightarrow> units \<Rightarrow> string \<Rightarrow> nat \<Rightarrow> number_error + int \<times> nat" where
  "unsigned_result func sg ds n =
     (if int (digits_val ds) < 2 ^ 64 then Inr (signed_val sg ds mod 2 ^ 64, n)
      else Inl (Out_Of_Range (func @ '': out of range'')))"

lemma sto_number:
  assumes "\<forall>c \<in> set sp. c_space c" "is_sign sg" "ds \<noteq> []" "\<forall>c \<in> set ds. is_digit c" "stops rest"
  defines "s \<equiv> sp @ sg @ units_of ds @ rest" and "n \<equiv> length sp + length sg + length ds"
  shows "stoi s 10 e = (number_result ''stoi'' (- (2 ^ 31)) (2 ^ 31 - 1) (signed_val sg ds) n, e)"
    "stol s 10 e = (number_result ''stol'' (- (2 ^ 63)) (2 ^ 63 - 1) (signed_val sg ds) n, e)"
    "stoll s 10 e = (number_result ''stoll'' (- (2 ^ 63)) (2 ^ 63 - 1) (signed_val sg ds) n, e)"
    "stoul s 10 e = (unsigned_result ''stoul'' sg ds n, e)" "stoull s 10 e = (unsigned_result ''stoull'' sg ds n, e)"
proof -
  have n: "0 < n" using assms(3) by (simp add: n_def)
  note d = strto_number [OF assms(1-5), folded s_def n_def] stoi_def as_int_def stol_def stoll_def stoul_def stoull_def
    as_integer_helper_def strtol_def strtoul_def strtol_like_def strtoul_like_def number_result_def Let_def ERANGE_def
  show "stoi s 10 e = (number_result ''stoi'' (- (2 ^ 31)) (2 ^ 31 - 1) (signed_val sg ds) n, e)"
    "stol s 10 e = (number_result ''stol'' (- (2 ^ 63)) (2 ^ 63 - 1) (signed_val sg ds) n, e)"
    "stoll s 10 e = (number_result ''stoll'' (- (2 ^ 63)) (2 ^ 63 - 1) (signed_val sg ds) n, e)"
    using n by (auto simp: d signed_val_def)
  show "stoul s 10 e = (unsigned_result ''stoul'' sg ds n, e)" "stoull s 10 e = (unsigned_result ''stoull'' sg ds n, e)"
    using n by (auto simp: d signed_val_def unsigned_result_def)
qed

subsection \<open>There and back\<close>

lemma read_printed:
  defines "t \<equiv> \<lambda>i. units_of (show_int i)"
  shows "stoi (t i) 10 e = (number_result ''stoi'' (- (2 ^ 31)) (2 ^ 31 - 1) i (length (t i)), e)"
    "stol (t i) 10 e = (number_result ''stol'' (- (2 ^ 63)) (2 ^ 63 - 1) i (length (t i)), e)"
    "stoll (t i) 10 e = (number_result ''stoll'' (- (2 ^ 63)) (2 ^ 63 - 1) i (length (t i)), e)"
    "0 \<le> i \<Longrightarrow> i < 2 ^ 64 \<Longrightarrow> stoul (t i) 10 e = (Inr (i, length (t i)), e)"
    "0 \<le> i \<Longrightarrow> i < 2 ^ 64 \<Longrightarrow> stoull (t i) 10 e = (Inr (i, length (t i)), e)"
proof -
  let ?sg = "if i < 0 then [45] else []" and ?ds = "show_nat (nat \<bar>i\<bar>)"
  have t: "t i = [] @ ?sg @ units_of ?ds @ []" by (simp add: t_def show_int_def units_of_def)
  have v: "signed_val ?sg ?ds = i" by (simp add: signed_val_def)
  have n: "length (t i) = length ([] :: units) + length ?sg + length ?ds"
    by (simp add: t_def show_int_def units_of_def)
  note r = sto_number [of "[]" ?sg ?ds "[]" e, folded t n, unfolded v]
  show "stoi (t i) 10 e = (number_result ''stoi'' (- (2 ^ 31)) (2 ^ 31 - 1) i (length (t i)), e)"
    "stol (t i) 10 e = (number_result ''stol'' (- (2 ^ 63)) (2 ^ 63 - 1) i (length (t i)), e)"
    "stoll (t i) 10 e = (number_result ''stoll'' (- (2 ^ 63)) (2 ^ 63 - 1) i (length (t i)), e)"
    using r by (simp_all add: is_sign_def stops_def)
  have u: "unsigned_result f ?sg ?ds k = Inr (i, k)" if "0 \<le> i" "i < 2 ^ 64" for f k
    using that unfolding unsigned_result_def v by simp
  show "stoul (t i) 10 e = (Inr (i, length (t i)), e)" "stoull (t i) 10 e = (Inr (i, length (t i)), e)"
    if "0 \<le> i" "i < 2 ^ 64"
    using r(4,5) u [OF that] by (simp_all add: is_sign_def stops_def)
qed

lemma word_ranges: "- (2 ^ 31) \<le> sint (v :: u32)" "sint v \<le> 2 ^ 31 - 1" "uint v < 2 ^ 64"
  "- (2 ^ 63) \<le> sint (w :: u64)" "sint w \<le> 2 ^ 63 - 1" "uint w < 2 ^ 64"
  using sint_greater_eq [of v] sint_less [of v] unsigned_less [of v, where 'a = int]
    sint_greater_eq [of w] sint_less [of w] unsigned_less [of w, where 'a = int] by simp_all

end
