(* ===== verification/Locks.thy ===== *)
theory Locks
  imports Wissbi_Prelude
begin

text \<open>
  The mutexes of the library that are built from a mutex and a condition variable, and \<^verbatim>\<open>call_once\<close>
  (\<^verbatim>\<open>libcxx/src/mutex.cpp\<close>), with any number of threads. What a thread does while it holds the inner mutex is one
  step; waiting on the condition variable is a phase, which a notification or nothing at all may end.
\<close>

subsection \<open>The recursive mutex\<close>

text \<open>The members; a thread has a number from 1 on, and \<^verbatim>\<open>__id_\<close> is 0 when nobody holds the mutex.\<close>

record recursive_timed_mutex =
  rt_count :: nat
  rt_id :: nat

definition rt_init :: recursive_timed_mutex where
  "rt_init = \<lparr>rt_count = 0, rt_id = 0\<rparr>"

datatype lock_result = Acquired recursive_timed_mutex | Must_Wait | Limit_Reached

definition size_max :: nat where "size_max = 2 ^ 64 - 1"

text \<open>The test of the loop in \<^verbatim>\<open>lock\<close>, with what follows it.\<close>

definition rt_test :: "nat \<Rightarrow> recursive_timed_mutex \<Rightarrow> lock_result" where
  "rt_test i m = (if rt_count m \<noteq> 0 then Must_Wait else Acquired \<lparr>rt_count = 1, rt_id = i\<rparr>)"

definition rt_lock :: "nat \<Rightarrow> recursive_timed_mutex \<Rightarrow> lock_result" where
  "rt_lock i m =
     (if i = rt_id m then
        if rt_count m = size_max then Limit_Reached else Acquired (m\<lparr>rt_count := rt_count m + 1\<rparr>)
      else rt_test i m)"

text \<open>\<^verbatim>\<open>try_lock\<close>, where \<open>owns\<close> tells whether the inner mutex was free.\<close>

definition rt_try_lock :: "bool \<Rightarrow> nat \<Rightarrow> recursive_timed_mutex \<Rightarrow> bool \<times> recursive_timed_mutex" where
  "rt_try_lock owns i m =
     (if owns \<and> (rt_count m = 0 \<or> i = rt_id m) then
        if rt_count m = size_max then (False, m) else (True, m\<lparr>rt_count := rt_count m + 1, rt_id := i\<rparr>)
      else (False, m))"

text \<open>\<^verbatim>\<open>unlock\<close>: whether a waiting thread is to be notified.\<close>

definition rt_unlock :: "recursive_timed_mutex \<Rightarrow> bool \<times> recursive_timed_mutex" where
  "rt_unlock m =
     (let m' = m\<lparr>rt_count := size_sub (rt_count m) 1\<rparr> in
      if rt_count m' = 0 then (True, m'\<lparr>rt_id := 0\<rparr>) else (False, m'))"

subsection \<open>The mutex that is not recursive\<close>

record timed_mutex =
  tm_locked :: bool

definition tm_init :: timed_mutex where
  "tm_init = \<lparr>tm_locked = False\<rparr>"

text \<open>The loop of \<^verbatim>\<open>lock\<close>: the mutex taken, or \<open>None\<close> to wait.\<close>

definition tm_lock :: "timed_mutex \<Rightarrow> timed_mutex option" where
  "tm_lock m = (if tm_locked m then None else Some (m\<lparr>tm_locked := True\<rparr>))"

definition tm_try_lock :: "bool \<Rightarrow> timed_mutex \<Rightarrow> bool \<times> timed_mutex" where
  "tm_try_lock owns m = (if owns \<and> \<not> tm_locked m then (True, m\<lparr>tm_locked := True\<rparr>) else (False, m))"

definition tm_unlock :: "timed_mutex \<Rightarrow> timed_mutex" where
  "tm_unlock m = m\<lparr>tm_locked := False\<rparr>"

subsection \<open>Threads on a mutex\<close>

text \<open>
  Both kinds as one machine: a mutex is what its operations make of it, an attempt to lock (\<open>None\<close> for an exception,
  \<open>Some None\<close> to wait), the test after waking up, \<^verbatim>\<open>try_lock\<close>, \<^verbatim>\<open>unlock\<close>.
\<close>

record 'm mutex_ops =
  op_lock :: "nat \<Rightarrow> 'm \<Rightarrow> 'm option option"
  op_test :: "nat \<Rightarrow> 'm \<Rightarrow> 'm option"
  op_try :: "bool \<Rightarrow> nat \<Rightarrow> 'm \<Rightarrow> bool \<times> 'm"
  op_unlock :: "'m \<Rightarrow> bool \<times> 'm"

definition recursive_ops :: "recursive_timed_mutex mutex_ops" where
  "recursive_ops =
     \<lparr>op_lock = (\<lambda>i m. case rt_lock i m of Acquired m' \<Rightarrow> Some (Some m') | Must_Wait \<Rightarrow> Some None | Limit_Reached \<Rightarrow> None),
      op_test = (\<lambda>i m. case rt_test i m of Acquired m' \<Rightarrow> Some m' | _ \<Rightarrow> None),
      op_try = rt_try_lock, op_unlock = rt_unlock\<rparr>"

definition timed_ops :: "timed_mutex mutex_ops" where
  "timed_ops =
     \<lparr>op_lock = (\<lambda>i m. Some (tm_lock m)), op_test = (\<lambda>i. tm_lock), op_try = (\<lambda>owns i. tm_try_lock owns),
      op_unlock = (\<lambda>m. (True, tm_unlock m))\<rparr>"

text \<open>What a thread is doing, and how often it holds the mutex; how many notifications are still to be sent.\<close>

datatype lock_phase = Active | Asleep | Woken

record 'm lock_sys =
  the_mutex :: 'm
  lock_held :: "nat list"
  phases :: "lock_phase list"
  notices :: nat

definition lock_start :: "'m \<Rightarrow> nat \<Rightarrow> 'm lock_sys" where
  "lock_start m n = \<lparr>the_mutex = m, lock_held = replicate n 0, phases = replicate n Active, notices = 0\<rparr>"

datatype lock_event = Lock nat | Try_Lock nat bool | Unlock nat | Notify_One nat | Notify_Nobody | Wake nat

definition got :: "nat \<Rightarrow> 'm \<Rightarrow> 'm lock_sys \<Rightarrow> 'm lock_sys" where
  "got i m s = s\<lparr>the_mutex := m, lock_held := (lock_held s)[i := lock_held s ! i + 1], phases := (phases s)[i := Active]\<rparr>"

definition fall_asleep :: "nat \<Rightarrow> 'm lock_sys \<Rightarrow> 'm lock_sys" where
  "fall_asleep i s = s\<lparr>phases := (phases s)[i := Asleep]\<rparr>"

text \<open>A step of a thread; the one with index \<open>i\<close> has the number \<open>i + 1\<close>.\<close>

fun lock_step :: "'m mutex_ops \<Rightarrow> lock_event \<Rightarrow> 'm lock_sys \<Rightarrow> 'm lock_sys option" where
  "lock_step M (Lock i) s =
     (if \<not> i < length (phases s) \<or> phases s ! i \<noteq> Active then None
      else case op_lock M (i + 1) (the_mutex s) of
        None \<Rightarrow> Some s
      | Some None \<Rightarrow> Some (fall_asleep i s)
      | Some (Some m) \<Rightarrow> Some (got i m s))"
| "lock_step M (Try_Lock i owns) s =
     (if \<not> i < length (phases s) \<or> phases s ! i \<noteq> Active then None
      else case op_try M owns (i + 1) (the_mutex s) of (b, m) \<Rightarrow>
        Some (if b then got i m s else s\<lparr>the_mutex := m\<rparr>))"
| "lock_step M (Unlock i) s =
     (if \<not> i < length (phases s) \<or> phases s ! i \<noteq> Active \<or> lock_held s ! i = 0 then None
      else case op_unlock M (the_mutex s) of (b, m) \<Rightarrow>
        Some (s\<lparr>the_mutex := m, lock_held := (lock_held s)[i := lock_held s ! i - 1], notices := notices s + of_bool b\<rparr>))"
| "lock_step M (Notify_One i) s =
     (if \<not> i < length (phases s) \<or> notices s = 0 \<or> phases s ! i \<noteq> Asleep then None
      else Some (s\<lparr>notices := notices s - 1, phases := (phases s)[i := Woken]\<rparr>))"
| "lock_step M Notify_Nobody s =
     (if notices s = 0 \<or> Asleep \<in> set (phases s) then None else Some (s\<lparr>notices := notices s - 1\<rparr>))"
| "lock_step M (Wake i) s =
     (if \<not> i < length (phases s) \<or> phases s ! i = Active then None
      else case op_test M (i + 1) (the_mutex s) of
        None \<Rightarrow> Some (fall_asleep i s)
      | Some m \<Rightarrow> Some (got i m s))"

fun lock_run :: "'m mutex_ops \<Rightarrow> lock_event list \<Rightarrow> 'm lock_sys \<Rightarrow> 'm lock_sys option" where
  "lock_run M [] s = Some s"
| "lock_run M (e # es) s = (case lock_step M e s of None \<Rightarrow> None | Some s' \<Rightarrow> lock_run M es s')"

subsection \<open>What makes a mutex\<close>

text \<open>The number of the thread that holds it and how often, if one does.\<close>

type_synonym holder = "(nat \<times> nat) option"

definition holder_count :: "holder \<Rightarrow> nat \<Rightarrow> nat" where
  "holder_count h n = (case h of Some (j, c) \<Rightarrow> if j = n then c else 0 | None \<Rightarrow> 0)"

definition once_more :: "nat \<Rightarrow> holder \<Rightarrow> holder \<Rightarrow> bool" where
  "once_more i h h' \<longleftrightarrow> (h = None \<or> (\<exists>c. h = Some (i, c))) \<and> h' = Some (i, holder_count h i + 1)"

locale mutex_contract =
  fixes M :: "'m mutex_ops" and R :: "'m \<Rightarrow> holder \<Rightarrow> bool"
  assumes lock_gets: "0 < i \<Longrightarrow> R m h \<Longrightarrow> op_lock M i m = Some (Some m') \<Longrightarrow> \<exists>h'. R m' h' \<and> once_more i h h'"
    and lock_waits: "R m h \<Longrightarrow> op_lock M i m = Some None \<Longrightarrow> h \<noteq> None"
    and test_gets: "0 < i \<Longrightarrow> R m h \<Longrightarrow> op_test M i m = Some m' \<Longrightarrow> h = None \<and> R m' (Some (i, 1))"
    and test_waits: "R m h \<Longrightarrow> op_test M i m = None \<Longrightarrow> h \<noteq> None"
    and try_gets: "0 < i \<Longrightarrow> R m h \<Longrightarrow> op_try M owns i m = (True, m') \<Longrightarrow> \<exists>h'. R m' h' \<and> once_more i h h'"
    and try_fails: "op_try M owns i m = (False, m') \<Longrightarrow> m' = m"
    and unlock_frees: "R m (Some (i, c)) \<Longrightarrow> op_unlock M m = (b, m') \<Longrightarrow>
      0 < c \<and> (if c = 1 then b \<and> R m' None else R m' (Some (i, c - 1)))"
begin

text \<open>
  Nobody holds the mutex but the one it knows of, and if it is free while a thread sleeps, a notification is on its
  way or a thread is awake that will test it.
\<close>

definition lock_inv :: "'m lock_sys \<Rightarrow> bool" where
  "lock_inv s \<longleftrightarrow> length (lock_held s) = length (phases s) \<and>
     (\<exists>h. R (the_mutex s) h \<and> (\<forall>i < length (lock_held s). lock_held s ! i = holder_count h (i + 1)) \<and>
       (\<forall>j c. h = Some (j, c) \<longrightarrow> 0 < j \<and> j \<le> length (lock_held s) \<and> 0 < c) \<and>
       (h = None \<longrightarrow> Asleep \<in> set (phases s) \<longrightarrow> 0 < notices s \<or> Woken \<in> set (phases s)))"

lemma got_inv:
  assumes "i < length (phases s)" "length (lock_held s) = length (phases s)"
    "\<forall>j < length (lock_held s). lock_held s ! j = holder_count h (j + 1)" "once_more (i + 1) h h'" "R m h'"
  shows "lock_inv (got i m s)"
proof -
  have "(lock_held s)[i := lock_held s ! i + 1] ! j = holder_count h' (j + 1)" if "j < length (lock_held s)" for j
    using assms(3,4) that by (auto simp: once_more_def holder_count_def nth_list_update)
  then show ?thesis using assms by (auto simp: lock_inv_def got_def once_more_def)
qed

lemma sleep_inv:
  assumes "length (lock_held s) = length (phases s)" "R (the_mutex s) h" "h \<noteq> None"
    "\<forall>j < length (lock_held s). lock_held s ! j = holder_count h (j + 1)"
    "\<forall>j c. h = Some (j, c) \<longrightarrow> 0 < j \<and> j \<le> length (lock_held s) \<and> 0 < c"
  shows "lock_inv (fall_asleep i s)"
  using assms by (auto simp: lock_inv_def fall_asleep_def)

lemma lock_invE:
  assumes "lock_inv s"
  obtains h where "length (lock_held s) = length (phases s)" "R (the_mutex s) h"
    "\<forall>i < length (lock_held s). lock_held s ! i = holder_count h (i + 1)"
    "\<forall>j c. h = Some (j, c) \<longrightarrow> 0 < j \<and> j \<le> length (lock_held s) \<and> 0 < c"
    "h = None \<longrightarrow> Asleep \<in> set (phases s) \<longrightarrow> 0 < notices s \<or> Woken \<in> set (phases s)"
  using assms unfolding lock_inv_def by blast

lemma lock_inv_lock:
  assumes inv: "lock_inv s" and st: "lock_step M (Lock i) s = Some s'"
  shows "lock_inv s'"
proof -
  from inv obtain h where h: "length (lock_held s) = length (phases s)" "R (the_mutex s) h"
    "\<forall>i < length (lock_held s). lock_held s ! i = holder_count h (i + 1)"
    "\<forall>j c. h = Some (j, c) \<longrightarrow> 0 < j \<and> j \<le> length (lock_held s) \<and> 0 < c" by (rule lock_invE)
  have i: "i < length (phases s)" using st by (auto split: if_splits)
  consider "op_lock M (i + 1) (the_mutex s) = None" | "op_lock M (i + 1) (the_mutex s) = Some None"
    | m where "op_lock M (i + 1) (the_mutex s) = Some (Some m)" by (metis not_Some_eq)
  then show ?thesis
  proof cases
    case 1
    then show ?thesis using st inv by (auto split: if_splits)
  next
    case 2
    then have "h \<noteq> None" using lock_waits [OF h(2)] by blast
    then show ?thesis using st 2 sleep_inv [OF h(1,2) _ h(3,4)] by (auto split: if_splits)
  next
    case 3
    then obtain h' where "R m h'" "once_more (i + 1) h h'" using lock_gets [OF _ h(2), of "i + 1" m] by auto
    then have "lock_inv (got i m s)" using got_inv [OF i h(1,3)] by blast
    then show ?thesis using st 3 by (auto split: if_splits)
  qed
qed

lemma lock_inv_try:
  assumes inv: "lock_inv s" and st: "lock_step M (Try_Lock i owns) s = Some s'"
  shows "lock_inv s'"
proof -
  from inv obtain h where h: "length (lock_held s) = length (phases s)" "R (the_mutex s) h"
    "\<forall>i < length (lock_held s). lock_held s ! i = holder_count h (i + 1)"
    "\<forall>j c. h = Some (j, c) \<longrightarrow> 0 < j \<and> j \<le> length (lock_held s) \<and> 0 < c" by (rule lock_invE)
  obtain b m where b: "op_try M owns (i + 1) (the_mutex s) = (b, m)" "i < length (phases s)"
    "s' = (if b then got i m s else s\<lparr>the_mutex := m\<rparr>)"
    using st by (auto split: if_splits prod.splits)
  show ?thesis
  proof (cases b)
    case True
    then obtain h' where "R m h'" "once_more (i + 1) h h'" using b(1) try_gets [OF _ h(2), of "i + 1" owns m] by auto
    then show ?thesis using True b(3) got_inv [OF b(2) h(1,3)] by simp
  next
    case False
    then have "m = the_mutex s" using b(1) try_fails [of owns "i + 1" "the_mutex s" m] by simp
    then show ?thesis using b(3) False inv by simp
  qed
qed

lemma lock_inv_unlock:
  assumes inv: "lock_inv s" and st: "lock_step M (Unlock i) s = Some s'"
  shows "lock_inv s'"
proof -
  from inv obtain h where h: "length (lock_held s) = length (phases s)" "R (the_mutex s) h"
    "\<forall>i < length (lock_held s). lock_held s ! i = holder_count h (i + 1)"
    "\<forall>j c. h = Some (j, c) \<longrightarrow> 0 < j \<and> j \<le> length (lock_held s) \<and> 0 < c" by (rule lock_invE)
  obtain b m where b: "op_unlock M (the_mutex s) = (b, m)" "i < length (phases s)" "lock_held s ! i \<noteq> 0"
    "s' = s\<lparr>the_mutex := m, lock_held := (lock_held s)[i := lock_held s ! i - 1], notices := notices s + of_bool b\<rparr>"
    using st by (auto split: if_splits prod.splits)
  then obtain c where c: "h = Some (i + 1, c)" "lock_held s ! i = c"
    using h(1,3) by (auto simp: holder_count_def split: option.splits if_splits)
  note u = unlock_frees [OF h(2) [unfolded c(1)] b(1)]
  have n: "(lock_held s)[i := lock_held s ! i - 1] ! j = holder_count (if c = 1 then None else Some (i + 1, c - 1)) (j + 1)"
    if "j < length (lock_held s)" for j
    using that c h(3) by (auto simp: holder_count_def nth_list_update)
  show ?thesis
    using u b h(1) n by (auto simp: lock_inv_def intro!: exI [of _ "if c = 1 then None else Some (i + 1, c - 1)"])
qed

lemma lock_inv_wake:
  assumes inv: "lock_inv s" and st: "lock_step M (Wake i) s = Some s'"
  shows "lock_inv s'"
proof -
  from inv obtain h where h: "length (lock_held s) = length (phases s)" "R (the_mutex s) h"
    "\<forall>i < length (lock_held s). lock_held s ! i = holder_count h (i + 1)"
    "\<forall>j c. h = Some (j, c) \<longrightarrow> 0 < j \<and> j \<le> length (lock_held s) \<and> 0 < c" by (rule lock_invE)
  have i: "i < length (phases s)" using st by (auto split: if_splits)
  show ?thesis
  proof (cases "op_test M (i + 1) (the_mutex s)")
    case None
    then show ?thesis using st test_waits [OF h(2)] sleep_inv [OF h(1,2) _ h(3,4)] by (auto split: if_splits)
  next
    case (Some m)
    then have "h = None" "R m (Some (i + 1, 1))" using test_gets [OF _ h(2), of "i + 1" m] by auto
    then have "lock_inv (got i m s)"
      using got_inv [OF i h(1,3), of "Some (i + 1, 1)"] by (simp add: once_more_def holder_count_def)
    then show ?thesis using st Some by (auto split: if_splits)
  qed
qed

lemma lock_inv_notify:
  assumes inv: "lock_inv s" and st: "lock_step M e s = Some s'" and e: "e = Notify_One i \<or> e = Notify_Nobody"
  shows "lock_inv s'"
proof -
  from inv obtain h where h: "length (lock_held s) = length (phases s)" "R (the_mutex s) h"
    "\<forall>i < length (lock_held s). lock_held s ! i = holder_count h (i + 1)"
    "\<forall>j c. h = Some (j, c) \<longrightarrow> 0 < j \<and> j \<le> length (lock_held s) \<and> 0 < c" by (rule lock_invE)
  show ?thesis using e st h set_update_memI [of i "phases s" Woken]
    by (elim disjE) (auto simp: lock_inv_def split: if_splits)
qed

lemma lock_inv_step: "lock_inv s \<Longrightarrow> lock_step M e s = Some s' \<Longrightarrow> lock_inv s'"
  by (cases e) (blast intro: lock_inv_lock lock_inv_try lock_inv_unlock lock_inv_wake lock_inv_notify)+

lemma lock_inv_run: "lock_run M es s = Some s' \<Longrightarrow> lock_inv s \<Longrightarrow> lock_inv s'"
  by (induction es arbitrary: s) (auto split: option.splits dest: lock_inv_step)

lemma lock_inv_start: "R m None \<Longrightarrow> lock_inv (lock_start m n)"
  by (auto simp: lock_inv_def lock_start_def holder_count_def intro!: exI [of _ None])

text \<open>Hence the two promises of a mutex.\<close>

lemma mutual_exclusion:
  assumes "lock_inv s" "i < length (lock_held s)" "j < length (lock_held s)" "0 < lock_held s ! i" "0 < lock_held s ! j"
  shows "i = j"
  using assms by (auto elim!: lock_invE simp: holder_count_def split: option.splits if_splits)

lemma nobody_left_asleep:
  assumes "lock_inv s" "list_all ((=) 0) (lock_held s)" "Asleep \<in> set (phases s)"
  shows "0 < notices s \<or> Woken \<in> set (phases s)"
proof -
  from assms(1) obtain h where h: "\<forall>i < length (lock_held s). lock_held s ! i = holder_count h (i + 1)"
    "\<forall>j c. h = Some (j, c) \<longrightarrow> 0 < j \<and> j \<le> length (lock_held s) \<and> 0 < c"
    "h = None \<longrightarrow> Asleep \<in> set (phases s) \<longrightarrow> 0 < notices s \<or> Woken \<in> set (phases s)" by (rule lock_invE)
  have "h = None"
  proof (rule ccontr)
    assume "h \<noteq> None"
    then obtain j c where jc: "h = Some (j, c)" by auto
    then have "lock_held s ! (j - 1) = c" "j - 1 < length (lock_held s)" "0 < c" using h(1,2) by (auto simp: holder_count_def)
    then show False using assms(2) by (auto simp: list_all_length)
  qed
  then show ?thesis using h(3) assms(3) by blast
qed

end

text \<open>The two classes keep that contract.\<close>

definition rt_holder :: "recursive_timed_mutex \<Rightarrow> holder \<Rightarrow> bool" where
  "rt_holder m h \<longleftrightarrow>
     (case h of None \<Rightarrow> rt_count m = 0 \<and> rt_id m = 0
      | Some (i, c) \<Rightarrow> rt_count m = c \<and> rt_id m = i \<and> 0 < i \<and> 0 < c \<and> c \<le> size_max)"

definition tm_holder :: "timed_mutex \<Rightarrow> holder \<Rightarrow> bool" where
  "tm_holder m h \<longleftrightarrow> (case h of None \<Rightarrow> \<not> tm_locked m | Some (i, c) \<Rightarrow> tm_locked m \<and> c = 1)"

interpretation recursive: mutex_contract recursive_ops rt_holder
proof
  fix i m h m' assume "0 < i" "rt_holder m h" "op_lock recursive_ops i m = Some (Some m')"
  then show "\<exists>h'. rt_holder m' h' \<and> once_more i h h'"
    by (cases h) (auto simp: recursive_ops_def rt_lock_def rt_test_def rt_holder_def once_more_def holder_count_def size_max_def
        split: lock_result.splits if_splits)
next
  fix i m h m' owns assume "0 < i" "rt_holder m h" "op_try recursive_ops owns i m = (True, m')"
  then show "\<exists>h'. rt_holder m' h' \<and> once_more i h h'"
    by (cases h) (auto simp: recursive_ops_def rt_try_lock_def rt_holder_def once_more_def holder_count_def size_max_def
        split: if_splits)
next
  fix i c m b m' assume a: "rt_holder m (Some (i, c))" "op_unlock recursive_ops m = (b, m')"
  then have "size_sub c 1 = c - 1" by (simp add: rt_holder_def size_max_def)
  with a show "0 < c \<and> (if c = 1 then b \<and> rt_holder m' None else rt_holder m' (Some (i, c - 1)))"
    by (auto simp: recursive_ops_def rt_unlock_def rt_holder_def Let_def split: if_splits)
qed (auto simp: recursive_ops_def rt_lock_def rt_test_def rt_try_lock_def rt_holder_def size_max_def
    split: lock_result.splits if_splits option.splits)

interpretation timed: mutex_contract timed_ops tm_holder
  by unfold_locales
    (auto simp: timed_ops_def tm_lock_def tm_try_lock_def tm_unlock_def tm_holder_def once_more_def holder_count_def
      split: if_splits option.splits)

end
