(* ===== verification/Call_Once.thy ===== *)
theory Call_Once
  imports Wissbi_Prelude
begin

text \<open>
  \<^verbatim>\<open>call_once\<close> (\<^verbatim>\<open>libcxx/src/mutex.cpp\<close>, \<^verbatim>\<open>libcxx/include/mutex\<close>), called for one flag by any number of threads. What a thread
  does while it holds the mutex of \<^verbatim>\<open>__call_once\<close> is one step. The mutex and the condition variable are shared by all
  flags of the program, so a thread may be woken without anything having happened to its own.
\<close>

subsection \<open>A thread\<close>

text \<open>
  Where a thread is: at the test of the flag in \<^verbatim>\<open>call_once\<close>; at the beginning of \<^verbatim>\<open>__call_once\<close>; asleep on the
  condition variable, or woken; in the function; about to broadcast, after it has returned or thrown; behind the call,
  which has returned or thrown.
\<close>

datatype once_phase = Outside | Calling | Sleeping | Awake | Running | Announcing bool | Passed | Threw

definition once_done :: u64 where "once_done = - 1"

text \<open>The section from the loop to the call of the function or the end.\<close>

definition once_enter :: "u64 \<Rightarrow> once_phase \<times> u64" where
  "once_enter flag =
     (if flag = 1 then (Sleeping, flag)
      else if flag = 0 then (Running, 1)
      else (Passed, flag))"

text \<open>One step, \<open>returns\<close> telling whether the function does; broadcasting is a step on all threads.\<close>

fun once_thread :: "bool \<Rightarrow> once_phase \<Rightarrow> u64 \<Rightarrow> once_phase \<times> u64" where
  "once_thread returns Outside flag = (if flag \<noteq> once_done then Calling else Passed, flag)"
| "once_thread returns Calling flag = once_enter flag"
| "once_thread returns Sleeping flag = once_enter flag"
| "once_thread returns Awake flag = once_enter flag"
| "once_thread returns Running flag = (Announcing returns, if returns then once_done else 0)"
| "once_thread returns (Announcing b) flag = (if b then Passed else Threw, flag)"
| "once_thread returns Passed flag = (Outside, flag)"
| "once_thread returns Threw flag = (Outside, flag)"

record once_sys =
  once_flag :: u64
  once_threads :: "once_phase list"
  completed :: nat \<comment> \<open>how often the function has returned\<close>

definition once_start :: "nat \<Rightarrow> once_sys" where
  "once_start n = \<lparr>once_flag = 0, once_threads = replicate n Outside, completed = 0\<rparr>"

definition broadcast :: "once_phase list \<Rightarrow> once_phase list" where
  "broadcast = map (\<lambda>p. if p = Sleeping then Awake else p)"

definition once_exec :: "nat \<Rightarrow> bool \<Rightarrow> once_sys \<Rightarrow> once_sys" where
  "once_exec i returns s =
     (let p = once_threads s ! i; (p', f) = once_thread returns p (once_flag s);
          ts = (case p of Announcing b \<Rightarrow> broadcast (once_threads s) | _ \<Rightarrow> once_threads s) in
      \<lparr>once_flag = f, once_threads = ts[i := p'], completed = completed s + of_bool (p = Running \<and> returns)\<rparr>)"

inductive once_reach :: "nat \<Rightarrow> once_sys \<Rightarrow> bool" for n where
  start: "once_reach n (once_start n)"
| step: "once_reach n s \<Longrightarrow> i < length (once_threads s) \<Longrightarrow> once_reach n (once_exec i returns s)"

subsection \<open>The invariant\<close>

fun announcing :: "once_phase \<Rightarrow> bool" where
  "announcing (Announcing b) = True"
| "announcing _ = False"

text \<open>A thread sleeps only while the function runs or a broadcast is still to come.\<close>

definition once_inv :: "once_sys \<Rightarrow> bool" where
  "once_inv s \<longleftrightarrow>
     (let num = (\<lambda>P. how_many P (once_threads s)); f = once_flag s in
      (f = 0 \<and> completed s = 0 \<and> num ((=) Running) = 0 \<or> f = 1 \<and> completed s = 0 \<and> num ((=) Running) = 1 \<or>
       f = once_done \<and> completed s = 1 \<and> num ((=) Running) = 0) \<and>
      (0 < num ((=) Passed) + num ((=) (Announcing True)) \<longrightarrow> f = once_done) \<and>
      (0 < num ((=) Sleeping) \<longrightarrow> f = 1 \<or> 0 < num announcing))"

lemma once_done_values [simp]: "once_done \<noteq> 0" "once_done \<noteq> 1" "0 \<noteq> once_done" "1 \<noteq> once_done"
  by (simp_all add: once_done_def)

lemma how_many_broadcast:
  "how_many P (broadcast ts) = how_many (\<lambda>p. p \<noteq> Sleeping \<and> P p) ts + (if P Awake then how_many ((=) Sleeping) ts else 0)"
  by (induction ts) (auto simp: how_many_def broadcast_def)

lemma once_inv_start: "once_inv (once_start n)"
  by (simp add: once_inv_def once_start_def Let_def)

lemma once_exec_announcing:
  assumes "i < length (once_threads s)" "once_threads s ! i = Announcing b" "once_inv s"
  shows "once_inv (once_exec i returns s)"
proof -
  let ?q = "if b then Passed else Threw"
  let ?ts = "broadcast (once_threads s)"
  have e: "once_exec i returns s = s\<lparr>once_threads := ?ts[i := ?q]\<rparr>"
    using assms(2) by (simp add: once_exec_def)
  have i: "i < length ?ts" "?ts ! i = Announcing b" using assms(1,2) by (simp_all add: broadcast_def)
  have same: "how_many P ?ts = how_many P (once_threads s)" if "\<not> P Awake" "\<not> P Sleeping" for P
    using that by (simp add: how_many_broadcast) (metis (mono_tags))
  have none: "how_many ((=) Sleeping) ?ts = 0" by (auto simp: how_many_zero list_all_iff broadcast_def)
  note U = how_many_update [OF i(1), where y = ?q, unfolded i(2)]
  have pos: "b \<longrightarrow> 0 < how_many ((=) (Announcing True)) (once_threads s)"
    using how_many_pos [OF assms(1), of "(=) (Announcing True)"] assms(2) by auto
  show ?thesis
    using assms(3) pos none same [of "(=) Running"] same [of "(=) Passed"] same [of "(=) (Announcing True)"]
      U [of "(=) Running"] U [of "(=) Passed"] U [of "(=) (Announcing True)"] U [of "(=) Sleeping"]
    by (cases b) (auto simp: once_inv_def e Let_def)
qed

lemma once_inv_step:
  assumes inv: "once_inv s" and i: "i < length (once_threads s)"
  shows "once_inv (once_exec i returns s)"
proof (cases "announcing (once_threads s ! i)")
  case True
  then obtain b where "once_threads s ! i = Announcing b" by (cases "once_threads s ! i") auto
  then show ?thesis using once_exec_announcing [OF i _ inv] by blast
next
  case False
  obtain p q f where p: "p = once_threads s ! i" and q: "once_thread returns p (once_flag s) = (q, f)"
    by (metis surj_pair)
  have e: "once_exec i returns s = \<lparr>once_flag = f, once_threads = (once_threads s)[i := q],
      completed = completed s + of_bool (p = Running \<and> returns)\<rparr>"
    using False p [symmetric] q by (cases p) (auto simp: once_exec_def Let_def)
  have up: "how_many P ((once_threads s)[i := q]) + of_bool (P p) = how_many P (once_threads s) + of_bool (P q)" for P
    using how_many_update [OF i] p by simp
  have pos: "P p \<longrightarrow> 0 < how_many P (once_threads s)" for P
    using how_many_pos [OF i] p by blast
  note U = up [of "(=) Running"] up [of "(=) Passed"] up [of "(=) (Announcing True)"] up [of "(=) Sleeping"] up [of announcing]
  have na: "\<not> announcing p" using False p by simp
  show ?thesis
    using inv q U pos [of "(=) Running"] na unfolding once_inv_def e Let_def
    by (cases p) (auto simp: once_enter_def split: if_splits)
qed

lemma once_reach_inv: "once_reach n s \<Longrightarrow> once_inv s"
  by (induction rule: once_reach.induct) (auto intro: once_inv_start once_inv_step)

end
