(* ===== verification/Str_Stream.thy ===== *)
theory Str_Stream
  imports Wissbi_Prelude
begin

text \<open>
  Streams over an array of characters (\<^verbatim>\<open>libcxx/src/strstream.cpp\<close>, and the inline functions of \<^verbatim>\<open>libcxx/include/streambuf\<close>
  that call them). The array is the list of its characters from \<^verbatim>\<open>eback()\<close> on, \<open>None\<close> for one that was never written;
  a pointer into it is an offset. An access behind its end is an error.
\<close>

subsection \<open>State\<close>

datatype sb_error = SB_BadAccess | SB_BadAlloc

text \<open>
  The get area as \<^verbatim>\<open>gptr()\<close> and \<^verbatim>\<open>egptr()\<close>, the put area as \<^verbatim>\<open>pbase()\<close>, \<^verbatim>\<open>pptr()\<close> and \<^verbatim>\<open>epptr()\<close>, or \<open>None\<close> for null
  pointers; the bits of \<^verbatim>\<open>__strmode_\<close>; whether an allocation function was given.
\<close>

record strstreambuf =
  sb_mem :: "u8 option list"
  sb_get :: "(nat \<times> nat) option"
  sb_put :: "(nat \<times> nat \<times> nat) option"
  sb_allocated :: bool
  sb_constant :: bool
  sb_dynamic :: bool
  sb_frozen :: bool
  sb_alsize :: int
  sb_palloc :: bool

definition default_alsize :: int where "default_alsize = 4096"

definition EOF :: int where "EOF = - 1"

definition sb_dynamic_new :: "int \<Rightarrow> bool \<Rightarrow> strstreambuf" where
  "sb_dynamic_new alsize palloc =
     \<lparr>sb_mem = [], sb_get = None, sb_put = None, sb_allocated = False, sb_constant = False, sb_dynamic = True,
      sb_frozen = False, sb_alsize = alsize, sb_palloc = palloc\<rparr>"

text \<open>\<^verbatim>\<open>__init\<close>: the size of the array, where 0 asks for the length of the text in it and a negative number means no bound.\<close>

definition init_size :: "u8 option list \<Rightarrow> int \<Rightarrow> sb_error + nat" where
  "init_size mem n =
     (if n = 0 then (if Some 0 \<in> set mem then Inr (length (takeWhile (\<lambda>x. x \<noteq> Some 0) mem)) else Inl SB_BadAccess)
      else if n < 0 then Inr (2 ^ 31 - 1) else Inr (nat n))"

definition sb_init :: "u8 option list \<Rightarrow> int \<Rightarrow> nat option \<Rightarrow> bool \<Rightarrow> sb_error + strstreambuf" where
  "sb_init mem n pbeg const =
     (case init_size mem n of
        Inl e \<Rightarrow> Inl e
      | Inr k \<Rightarrow>
          Inr \<lparr>sb_mem = mem,
            sb_get = (case pbeg of None \<Rightarrow> Some (0, k) | Some b \<Rightarrow> Some (0, b)),
            sb_put = (case pbeg of None \<Rightarrow> None | Some b \<Rightarrow> Some (b, b, b + k)),
            sb_allocated = False, sb_constant = const, sb_dynamic = False, sb_frozen = False,
            sb_alsize = default_alsize, sb_palloc = False\<rparr>)"

text \<open>The constructors on an array, with or without a put area, and on a constant one.\<close>

definition sb_array_new :: "u8 option list \<Rightarrow> int \<Rightarrow> nat option \<Rightarrow> sb_error + strstreambuf" where
  "sb_array_new gnext n pbeg = sb_init gnext n pbeg False"

definition sb_const_new :: "u8 option list \<Rightarrow> int \<Rightarrow> sb_error + strstreambuf" where
  "sb_const_new gnext n = sb_init gnext n None True"

definition sb_freeze :: "bool \<Rightarrow> strstreambuf \<Rightarrow> strstreambuf" where
  "sb_freeze freezefl s = (if sb_dynamic s then s\<lparr>sb_frozen := freezefl\<rparr> else s)"

text \<open>\<^verbatim>\<open>str()\<close>, which hands the array out, \<^verbatim>\<open>pcount()\<close>, and whether the destructor frees the array.\<close>

definition sb_str_out :: "strstreambuf \<Rightarrow> u8 option list \<times> strstreambuf" where
  "sb_str_out s = (sb_mem s, if sb_dynamic s then s\<lparr>sb_frozen := True\<rparr> else s)"

definition sb_pcount :: "strstreambuf \<Rightarrow> int" where
  "sb_pcount s = (case sb_put s of None \<Rightarrow> 0 | Some (b, p, e) \<Rightarrow> int p - int b)"

definition sb_destroy_frees :: "strstreambuf \<Rightarrow> bool" where
  "sb_destroy_frees s \<longleftrightarrow> sb_get s \<noteq> None \<and> sb_allocated s \<and> \<not> sb_frozen s"

subsection \<open>Writing\<close>

definition put_full :: "strstreambuf \<Rightarrow> bool" where
  "put_full s = (case sb_put s of None \<Rightarrow> True | Some (b, p, e) \<Rightarrow> p = e)"

definition put_char :: "u8 \<Rightarrow> strstreambuf \<Rightarrow> sb_error + int \<times> strstreambuf" where
  "put_char c s =
     (case sb_put s of
        None \<Rightarrow> Inl SB_BadAccess
      | Some (b, p, e) \<Rightarrow>
          if p < length (sb_mem s)
          then Inr (uint c, s\<lparr>sb_mem := (sb_mem s)[p := Some c], sb_put := Some (b, p + 1, e)\<rparr>)
          else Inl SB_BadAccess)"

definition old_size :: "strstreambuf \<Rightarrow> nat" where
  "old_size s =
     (case sb_put s of Some (b, p, e) \<Rightarrow> e | None \<Rightarrow> (case sb_get s of Some (g, e) \<Rightarrow> e | None \<Rightarrow> 0))"

definition new_size :: "strstreambuf \<Rightarrow> nat" where
  "new_size s =
     (let n = max (sb_alsize s) (2 * int (old_size s)) in nat (if n = 0 then default_alsize else n))"

text \<open>The new array and the areas in it.\<close>

definition sb_grow :: "strstreambuf \<Rightarrow> strstreambuf" where
  "sb_grow s =
     (let (ninp, einp) = (case sb_get s of Some (g, e) \<Rightarrow> (g, e) | None \<Rightarrow> (0, 0));
          (nout, eout) = (case sb_put s of Some (b, p, e) \<Rightarrow> (p - b, e - b) | None \<Rightarrow> (0, 0)) in
      s\<lparr>sb_mem := take (old_size s) (sb_mem s) @ replicate (new_size s - old_size s) None,
        sb_get := Some (ninp, einp), sb_put := Some (einp, einp + nout, einp + eout), sb_allocated := True\<rparr>)"

text \<open>\<^verbatim>\<open>overflow\<close> for a character, and for \<^verbatim>\<open>EOF\<close>; \<open>ok\<close> is whether the allocation succeeds.\<close>

definition sb_overflow :: "bool \<Rightarrow> u8 option \<Rightarrow> strstreambuf \<Rightarrow> sb_error + int \<times> strstreambuf" where
  "sb_overflow ok c s =
     (case c of
        None \<Rightarrow> Inr (0, s)
      | Some x \<Rightarrow>
          if put_full s then
            if \<not> sb_dynamic s \<or> sb_frozen s then Inr (EOF, s)
            else if \<not> ok then (if sb_palloc s then Inr (EOF, s) else Inl SB_BadAlloc)
            else if length (sb_mem s) < old_size s then Inl SB_BadAccess
            else put_char x (sb_grow s)
          else put_char x s)"

definition sputc :: "bool \<Rightarrow> u8 \<Rightarrow> strstreambuf \<Rightarrow> sb_error + int \<times> strstreambuf" where
  "sputc ok c s = (if put_full s then sb_overflow ok (Some c) s else put_char c s)"

subsection \<open>Reading\<close>

definition get_empty :: "strstreambuf \<Rightarrow> bool" where
  "get_empty s = (case sb_get s of None \<Rightarrow> True | Some (g, e) \<Rightarrow> g = e)"

text \<open>The character at \<^verbatim>\<open>gptr()\<close>.\<close>

definition get_char :: "strstreambuf \<Rightarrow> sb_error + int \<times> strstreambuf" where
  "get_char s =
     (case sb_get s of
        None \<Rightarrow> Inl SB_BadAccess
      | Some (g, e) \<Rightarrow>
          if g < length (sb_mem s) then (case sb_mem s ! g of Some c \<Rightarrow> Inr (uint c, s) | None \<Rightarrow> Inl SB_BadAccess)
          else Inl SB_BadAccess)"

definition sb_underflow :: "strstreambuf \<Rightarrow> sb_error + int \<times> strstreambuf" where
  "sb_underflow s =
     (if get_empty s then
        (case (sb_get s, sb_put s) of
           (Some (g, e), Some (b, p, ep)) \<Rightarrow> if p \<le> e then Inr (EOF, s) else get_char (s\<lparr>sb_get := Some (g, p)\<rparr>)
         | (None, Some (b, p, ep)) \<Rightarrow> Inl SB_BadAccess
         | _ \<Rightarrow> Inr (EOF, s))
      else get_char s)"

definition sgetc :: "strstreambuf \<Rightarrow> sb_error + int \<times> strstreambuf" where
  "sgetc s = (if get_empty s then sb_underflow s else get_char s)"

text \<open>\<^verbatim>\<open>sbumpc\<close>, where \<^verbatim>\<open>uflow\<close> is \<^verbatim>\<open>underflow\<close> and a step forward.\<close>

definition sbumpc :: "strstreambuf \<Rightarrow> sb_error + int \<times> strstreambuf" where
  "sbumpc s =
     (case sgetc s of
        Inl e \<Rightarrow> Inl e
      | Inr (r, s') \<Rightarrow>
          if r = EOF then Inr (r, s')
          else Inr (r, s'\<lparr>sb_get := map_option (\<lambda>(g, e). (g + 1, e)) (sb_get s')\<rparr>))"

definition sb_pbackfail :: "u8 option \<Rightarrow> strstreambuf \<Rightarrow> sb_error + int \<times> strstreambuf" where
  "sb_pbackfail c s =
     (case sb_get s of
        None \<Rightarrow> Inr (EOF, s)
      | Some (g, e) \<Rightarrow>
          if g = 0 then Inr (EOF, s)
          else case c of
            None \<Rightarrow> Inr (0, s\<lparr>sb_get := Some (g - 1, e)\<rparr>)
          | Some x \<Rightarrow>
              if \<not> g - 1 < length (sb_mem s) then Inl SB_BadAccess
              else if sb_constant s then
                if sb_mem s ! (g - 1) = Some x then Inr (uint x, s\<lparr>sb_get := Some (g - 1, e)\<rparr>) else Inr (EOF, s)
              else Inr (uint x, s\<lparr>sb_mem := (sb_mem s)[g - 1 := Some x], sb_get := Some (g - 1, e)\<rparr>))"

subsection \<open>Positions\<close>

datatype seekdir = seek_beg | seek_cur | seek_end

definition seekhigh :: "strstreambuf \<Rightarrow> nat" where
  "seekhigh s =
     (case sb_put s of Some (b, p, e) \<Rightarrow> e | None \<Rightarrow> (case sb_get s of Some (g, e) \<Rightarrow> e | None \<Rightarrow> 0))"

text \<open>Moving the pointers to \<open>newoff\<close>.\<close>

definition seek_to :: "bool \<Rightarrow> bool \<Rightarrow> nat \<Rightarrow> strstreambuf \<Rightarrow> strstreambuf" where
  "seek_to pos_in pos_out newoff s =
     s\<lparr>sb_get := (if pos_in then map_option (\<lambda>(g, e). (newoff, max newoff e)) (sb_get s) else sb_get s),
       sb_put := (if pos_out then map_option (\<lambda>(b, p, e). (min b newoff, newoff, e)) (sb_put s) else sb_put s)\<rparr>"

definition seek_legal :: "bool \<Rightarrow> bool \<Rightarrow> strstreambuf \<Rightarrow> bool" where
  "seek_legal pos_in pos_out s \<longleftrightarrow> \<not> (pos_in \<and> sb_get s = None) \<and> \<not> (pos_out \<and> sb_put s = None)"

definition sb_seekoff :: "int \<Rightarrow> seekdir \<Rightarrow> bool \<Rightarrow> bool \<Rightarrow> strstreambuf \<Rightarrow> int \<times> strstreambuf" where
  "sb_seekoff off way pos_in pos_out s =
     (let legal = (if way = seek_cur then pos_in \<noteq> pos_out else pos_in \<or> pos_out) \<and> seek_legal pos_in pos_out s;
          newoff = (case way of
              seek_beg \<Rightarrow> 0
            | seek_cur \<Rightarrow> (if pos_in then (case sb_get s of Some (g, e) \<Rightarrow> int g | None \<Rightarrow> 0)
                          else (case sb_put s of Some (b, p, e) \<Rightarrow> int p | None \<Rightarrow> 0))
            | seek_end \<Rightarrow> int (seekhigh s)) + off in
      if legal \<and> 0 \<le> newoff \<and> newoff \<le> int (seekhigh s) then (newoff, seek_to pos_in pos_out (nat newoff) s)
      else (- 1, s))"

definition sb_seekpos :: "int \<Rightarrow> bool \<Rightarrow> bool \<Rightarrow> strstreambuf \<Rightarrow> int \<times> strstreambuf" where
  "sb_seekpos sp pos_in pos_out s =
     (if (pos_in \<or> pos_out) \<and> seek_legal pos_in pos_out s \<and> 0 \<le> sp \<and> sp \<le> int (seekhigh s)
      then (sp, seek_to pos_in pos_out (nat sp) s) else (- 1, s))"

subsection \<open>Streams over a given array\<close>

datatype sb_event = PutC u8 | GetC | PutBack "u8 option" | SeekOff int seekdir bool bool | SeekPos int bool bool | Freeze bool

fun sb_step :: "sb_event \<Rightarrow> strstreambuf \<Rightarrow> sb_error + int \<times> strstreambuf" where
  "sb_step (PutC c) s = sputc True c s"
| "sb_step GetC s = sbumpc s"
| "sb_step (PutBack c) s = sb_pbackfail c s"
| "sb_step (SeekOff off way i out) s = Inr (sb_seekoff off way i out s)"
| "sb_step (SeekPos sp i out) s = Inr (sb_seekpos sp i out s)"
| "sb_step (Freeze b) s = Inr (0, sb_freeze b s)"

fun sb_run :: "sb_event list \<Rightarrow> strstreambuf \<Rightarrow> sb_error + int list \<times> strstreambuf" where
  "sb_run [] s = Inr ([], s)"
| "sb_run (e # es) s =
     (case sb_step e s of
        Inl x \<Rightarrow> Inl x
      | Inr (r, s') \<Rightarrow> map_sum id (map_prod (Cons r) id) (sb_run es s'))"

text \<open>The areas lie in the array, all of whose characters have a value.\<close>

fun put_inside :: "nat \<Rightarrow> (nat \<times> nat \<times> nat) option \<Rightarrow> bool" where
  "put_inside n None = True"
| "put_inside n (Some (b, p, e)) = (b \<le> p \<and> p \<le> e \<and> e \<le> n)"

definition sb_inside :: "strstreambuf \<Rightarrow> bool" where
  "sb_inside s \<longleftrightarrow> \<not> sb_dynamic s \<and> None \<notin> set (sb_mem s) \<and>
     (\<exists>g e. sb_get s = Some (g, e) \<and> g \<le> e \<and> e \<le> length (sb_mem s)) \<and>
     put_inside (length (sb_mem s)) (sb_put s)"

lemma sb_initial_inside:
  assumes "None \<notin> set mem" "0 < n" "(case pbeg of None \<Rightarrow> 0 | Some b \<Rightarrow> b) + nat n \<le> length mem"
  shows "\<exists>s. sb_init mem n pbeg const = Inr s \<and> sb_inside s \<and> sb_mem s = mem \<and> sb_constant s = const \<and>
    (sb_put s = None \<longleftrightarrow> pbeg = None)"
  using assms by (cases pbeg) (auto simp: sb_init_def init_size_def sb_inside_def)

lemma no_None_update: "None \<notin> set xs \<Longrightarrow> None \<notin> set (xs[i := Some x])"
  using set_update_subset_insert [of xs i "Some x"] by auto

lemma get_char_inside:
  assumes "sb_inside s" "sb_get s = Some (g, e)" "g < e"
  shows "\<exists>c. get_char s = Inr (uint c, s) \<and> sb_mem s ! g = Some c"
proof -
  have "g < length (sb_mem s)" using assms by (auto simp: sb_inside_def)
  moreover from this obtain c where "sb_mem s ! g = Some c" using assms(1) by (auto simp: sb_inside_def) (metis nth_mem not_Some_eq)
  ultimately show ?thesis using assms(2) by (auto simp: get_char_def)
qed

lemma uint_not_EOF [simp]: "uint (c :: u8) \<noteq> EOF"
  using uint_ge_0 [of c] unfolding EOF_def by linarith

lemma sbumpc_inside:
  assumes "sb_inside s"
  shows "\<exists>r s'. sbumpc s = Inr (r, s') \<and> sb_inside s' \<and> sb_mem s' = sb_mem s \<and> sb_constant s' = sb_constant s \<and> sb_put s' = sb_put s"
proof -
  obtain g e where ge: "sb_get s = Some (g, e)" "g \<le> e" "e \<le> length (sb_mem s)" using assms by (auto simp: sb_inside_def)
  have read: ?thesis if a: "sgetc s = get_char s1" "s1 = s\<lparr>sb_get := Some (g, e1)\<rparr>" "g < e1" "e1 \<le> length (sb_mem s)" for s1 e1
  proof -
    have "sb_inside s1" using assms a by (simp add: sb_inside_def)
    then obtain c :: u8 where "get_char s1 = Inr (uint c, s1)" using get_char_inside [of s1 g e1] a(2,3) by auto
    then show ?thesis using assms a by (auto simp: sbumpc_def sb_inside_def)
  qed
  show ?thesis
  proof (cases "g = e")
    case False
    then show ?thesis using read [of s e] ge by (simp add: sgetc_def get_empty_def)
  next
    case True
    show ?thesis
    proof (cases "sb_put s")
      case None
      then show ?thesis using True ge assms by (simp add: sbumpc_def sgetc_def sb_underflow_def get_empty_def)
    next
      case (Some bpe)
      then obtain b p ep where p: "sb_put s = Some (b, p, ep)" by (cases bpe) auto
      then have "p \<le> length (sb_mem s)" using assms by (auto simp: sb_inside_def)
      then show ?thesis using True ge p assms read [of "s\<lparr>sb_get := Some (g, p)\<rparr>" p]
        by (cases "p \<le> e") (simp_all add: sbumpc_def sgetc_def sb_underflow_def get_empty_def)
    qed
  qed
qed

lemma sputc_inside:
  assumes "sb_inside s"
  shows "\<exists>r s'. sputc ok c s = Inr (r, s') \<and> sb_inside s' \<and> length (sb_mem s') = length (sb_mem s) \<and>
    sb_constant s' = sb_constant s \<and> (sb_put s' = None \<longleftrightarrow> sb_put s = None) \<and> (sb_put s = None \<longrightarrow> s' = s)"
proof (cases "sb_put s")
  case None
  then show ?thesis using assms by (simp add: sputc_def put_full_def sb_overflow_def sb_inside_def)
next
  case (Some bpe)
  then obtain b p e where p: "sb_put s = Some (b, p, e)" by (cases bpe) auto
  then show ?thesis using assms
    by (cases "p = e") (auto simp: sputc_def put_full_def sb_overflow_def put_char_def sb_inside_def intro!: no_None_update)
qed

lemma seek_to_inside:
  assumes "sb_inside s" "n \<le> seekhigh s"
  shows "sb_inside (seek_to i out n s)"
proof -
  obtain g e where "sb_get s = Some (g, e)" "g \<le> e" "e \<le> length (sb_mem s)" using assms(1) by (auto simp: sb_inside_def)
  then show ?thesis using assms
    by (cases "sb_put s") (auto simp: sb_inside_def seek_to_def seekhigh_def split: prod.splits)
qed

lemma seek_to_simps:
  "sb_mem (seek_to i out n s) = sb_mem s" "sb_constant (seek_to i out n s) = sb_constant s"
  "sb_put (seek_to i out n s) = None \<longleftrightarrow> sb_put s = None"
  by (simp_all add: seek_to_def)

lemma sb_step_inside:
  assumes "sb_inside s"
  shows "\<exists>r s'. sb_step ev s = Inr (r, s') \<and> sb_inside s' \<and> length (sb_mem s') = length (sb_mem s) \<and>
    sb_constant s' = sb_constant s \<and> (sb_put s' = None \<longleftrightarrow> sb_put s = None) \<and>
    (sb_constant s \<longrightarrow> sb_put s = None \<longrightarrow> sb_mem s' = sb_mem s)"
proof (cases ev)
  case (PutBack c)
  obtain g e where ge: "sb_get s = Some (g, e)" "g \<le> e" "e \<le> length (sb_mem s)" using assms by (auto simp: sb_inside_def)
  then show ?thesis using PutBack assms
    by (cases c) (auto simp: sb_pbackfail_def sb_inside_def intro!: no_None_update)
next
  case (PutC c)
  then show ?thesis using sputc_inside [OF assms, of True c] by auto
next
  case (SeekOff off way i out)
  then show ?thesis using assms seek_to_inside [OF assms, of _ i out]
    by (auto simp: sb_seekoff_def Let_def seek_to_simps)
next
  case (SeekPos sp i out)
  then show ?thesis using assms seek_to_inside [OF assms, of _ i out]
    by (auto simp: sb_seekpos_def seek_to_simps)
qed (use assms sbumpc_inside [OF assms] in \<open>auto simp: sb_freeze_def sb_inside_def\<close>)

lemma sb_run_inside:
  "sb_inside s \<Longrightarrow> \<exists>rs s'. sb_run es s = Inr (rs, s') \<and> sb_inside s' \<and> length (sb_mem s') = length (sb_mem s) \<and>
    (sb_constant s \<longrightarrow> sb_put s = None \<longrightarrow> sb_mem s' = sb_mem s)"
proof (induction es arbitrary: s)
  case (Cons e es)
  then obtain r s1 where s1: "sb_step e s = Inr (r, s1)" "sb_inside s1" "length (sb_mem s1) = length (sb_mem s)"
    "sb_constant s1 = sb_constant s" "sb_put s1 = None \<longleftrightarrow> sb_put s = None"
    "sb_constant s \<longrightarrow> sb_put s = None \<longrightarrow> sb_mem s1 = sb_mem s"
    using sb_step_inside [OF Cons.prems, of e] by (elim exE conjE) (rule that)
  then show ?case using Cons.IH [OF s1(2)] by auto
qed simp

subsection \<open>Streams with an array of their own\<close>

text \<open>How many characters the array holds that the first character makes the stream allocate, and the stream then.\<close>

definition sb_room :: "int \<Rightarrow> nat" where
  "sb_room alsize = nat (if alsize \<le> 0 then default_alsize else alsize)"

definition sb_written :: "int \<Rightarrow> bool \<Rightarrow> u8 list \<Rightarrow> strstreambuf" where
  "sb_written alsize palloc cs =
     (sb_dynamic_new alsize palloc)\<lparr>sb_mem := map Some cs @ replicate (sb_room alsize - length cs) None,
       sb_get := Some (0, 0), sb_put := Some (0, length cs, 0), sb_allocated := True\<rparr>"

lemma sb_run_append:
  "sb_run (es @ fs) s =
     (case sb_run es s of Inl x \<Rightarrow> Inl x | Inr (rs, s') \<Rightarrow> map_sum id (map_prod ((@) rs) id) (sb_run fs s'))"
proof (induction es arbitrary: s)
  case Nil
  then show ?case by (cases "sb_run fs s") auto
next
  case (Cons e es)
  show ?case
  proof (cases "sb_step e s")
    case (Inr rs)
    obtain r s1 where "rs = (r, s1)" by fastforce
    then show ?thesis using Inr Cons.IH [of s1]
      by (cases "sb_run es s1"; cases "sb_run fs (snd (projr (sb_run es s1)))") (auto split: prod.splits)
  qed simp
qed

lemma sb_room_pos: "0 < sb_room alsize"
  by (simp add: sb_room_def default_alsize_def)

lemma first_char: "sb_step (PutC c) (sb_dynamic_new alsize palloc) = Inr (uint c, sb_written alsize palloc [c])"
proof -
  obtain n where n: "sb_room alsize = Suc n" using sb_room_pos [of alsize] by (cases "sb_room alsize") auto
  have "new_size (sb_dynamic_new alsize palloc) = sb_room alsize"
    by (auto simp: new_size_def old_size_def sb_dynamic_new_def sb_room_def max_def Let_def)
  then show ?thesis using n
    by (simp add: sputc_def sb_overflow_def put_full_def put_char_def sb_grow_def sb_written_def sb_dynamic_new_def old_size_def)
qed

lemma next_char:
  assumes "cs \<noteq> []"
  shows "sb_step (PutC c) (sb_written alsize palloc cs) =
    (if length cs < sb_room alsize then Inr (uint c, sb_written alsize palloc (cs @ [c])) else Inl SB_BadAccess)"
proof (cases "length cs < sb_room alsize")
  case True
  then obtain k where k: "sb_room alsize - length cs = Suc k" by (metis Suc_diff_Suc)
  then have "sb_room alsize - Suc (length cs) = k" by simp
  then show ?thesis using assms True k
    by (simp add: sputc_def put_full_def put_char_def sb_written_def list_update_append)
next
  case False
  then show ?thesis using assms by (simp add: sputc_def put_full_def put_char_def sb_written_def)
qed

lemma text_written:
  assumes "cs \<noteq> []" "length cs \<le> sb_room alsize"
  shows "sb_run (map PutC cs) (sb_dynamic_new alsize palloc) = Inr (map uint cs, sb_written alsize palloc cs)"
  using assms
proof (induction cs rule: rev_induct)
  case (snoc c cs)
  show ?case
  proof (cases "cs = []")
    case True
    then show ?thesis using first_char by simp
  next
    case False
    then show ?thesis using snoc next_char [OF False, of c alsize palloc] by (simp add: sb_run_append)
  qed
qed simp

text \<open>Reading from the \<open>k\<close>-th character on, once the get area has been extended.\<close>

lemma text_read_from:
  assumes "k \<le> length cs"
  shows "sb_run (replicate (length cs - k) GetC) ((sb_written alsize palloc cs)\<lparr>sb_get := Some (k, length cs)\<rparr>) =
    Inr (map uint (drop k cs), (sb_written alsize palloc cs)\<lparr>sb_get := Some (length cs, length cs)\<rparr>)"
  using assms
proof (induction "length cs - k" arbitrary: k)
  case (Suc n)
  then have k: "k < length cs" "length cs - Suc k = n" by simp_all
  have s: "sb_step GetC ((sb_written alsize palloc cs)\<lparr>sb_get := Some (k, length cs)\<rparr>) =
      Inr (uint (cs ! k), (sb_written alsize palloc cs)\<lparr>sb_get := Some (Suc k, length cs)\<rparr>)"
    using k by (simp add: sbumpc_def sgetc_def get_empty_def get_char_def sb_written_def nth_append)
  have "drop k cs = cs ! k # drop (Suc k) cs" using k by (simp add: Cons_nth_drop_Suc)
  then show ?case using Suc.hyps(1) [of "Suc k"] k s Suc.hyps(2) by (simp flip: Suc.hyps(2))
qed simp

lemma text_read:
  assumes "cs \<noteq> []" "length cs \<le> sb_room alsize"
  shows "sb_run (replicate (length cs) GetC) (sb_written alsize palloc cs) =
    Inr (map uint cs, (sb_written alsize palloc cs)\<lparr>sb_get := Some (length cs, length cs)\<rparr>)"
proof -
  obtain n where n: "length cs = Suc n" using assms(1) by (cases cs) auto
  let ?s = "sb_written alsize palloc cs"
  have "sb_step GetC ?s = sb_step GetC (?s\<lparr>sb_get := Some (0, length cs)\<rparr>)"
    using n by (simp add: sbumpc_def sgetc_def get_empty_def sb_underflow_def sb_written_def)
  then have "sb_run (replicate (length cs) GetC) ?s = sb_run (replicate (length cs) GetC) (?s\<lparr>sb_get := Some (0, length cs)\<rparr>)"
    using n by simp
  then show ?thesis using text_read_from [of 0 cs alsize palloc] by simp
qed

end
