(* ===== verification/Dem_Vector.thy ===== *)
theory Dem_Vector
  imports Wissbi_Prelude
begin

text \<open>
  The growable arrays of the demangler (\<^verbatim>\<open>libcxxrt/src/libelftc_dem_gnu3.c\<close>): \<^verbatim>\<open>vector_str\<close>, \<^verbatim>\<open>vector_read_cmd\<close> and
  \<^verbatim>\<open>vector_type_qualifier\<close>, over an allocator that may refuse any request; and the little language in which the
  demangler is written down, of steps that answer yes or no and may also run into undefined behaviour or a failed
  assertion. The theory shows that the arrays are lists.
\<close>

subsection \<open>Steps\<close>

text \<open>
  What running a piece of C comes to: a value; behaviour the language leaves undefined; a failed \<^verbatim>\<open>assert\<close>; or no end
  within the calls that were allowed.
\<close>

datatype 'a run = Done 'a | Undefined | Aborted | Unfinished

definition run_bind :: "'a run \<Rightarrow> ('a \<Rightarrow> 'b run) \<Rightarrow> 'b run" where
  "run_bind r f = (case r of Done x \<Rightarrow> f x | Undefined \<Rightarrow> Undefined | Aborted \<Rightarrow> Aborted | Unfinished \<Rightarrow> Unfinished)"

lemma run_bind_simps [simp]:
  "run_bind (Done x) f = f x"
  "run_bind Undefined f = Undefined"
  "run_bind Aborted f = Aborted"
  "run_bind Unfinished f = Unfinished"
  by (simp_all add: run_bind_def)

text \<open>A function of the demangler: it answers 0 or 1 and changes the state, in either case.\<close>

type_synonym 's act = "'s \<Rightarrow> (bool \<times> 's) run"

definition yes :: "'s act" where
  "yes s = Done (True, s)"

definition no :: "'s act" where
  "no s = Done (False, s)"

text \<open>\<^verbatim>\<open>if (!f(...)) return (0);\<close> before \<^verbatim>\<open>g\<close>.\<close>

definition andthen :: "'s act \<Rightarrow> 's act \<Rightarrow> 's act" where
  "andthen f g s = run_bind (f s) (\<lambda>(b, s'). if b then g s' else no s')"

primrec all_of :: "'s act list \<Rightarrow> 's act" where
  "all_of [] = yes"
| "all_of (f # fs) = andthen f (all_of fs)"

declare all_of.simps(2) [simp del]

text \<open>A step that only changes the state, a value of the state, and a call that returns a value.\<close>

definition upd :: "('s \<Rightarrow> 's) \<Rightarrow> 's act" where
  "upd f s = yes (f s)"

definition reading :: "('s \<Rightarrow> 'a) \<Rightarrow> ('a \<Rightarrow> 's act) \<Rightarrow> 's act" where
  "reading f g s = g (f s) s"

definition getting :: "('s \<Rightarrow> ('a \<times> 's) run) \<Rightarrow> ('a \<Rightarrow> 's act) \<Rightarrow> 's act" where
  "getting f g s = run_bind (f s) (\<lambda>(x, s'). g x s')"

definition if_so :: "bool \<Rightarrow> 's act \<Rightarrow> 's act" where
  "if_so b f = (if b then f else yes)"

definition need :: "bool \<Rightarrow> 's act" where
  "need b = (if b then yes else no)"

definition assertion :: "bool \<Rightarrow> 's act" where
  "assertion b s = (if b then yes s else Aborted)"

subsection \<open>The C library\<close>

text \<open>
  \<^verbatim>\<open>malloc\<close> may refuse any request: \<open>grants t n\<close> tells whether the \<open>t\<close>-th request gets its \<open>n\<close> bytes. The text that
  \<^verbatim>\<open>printf\<close> makes of a floating point value is the library's too: \<open>printed\<close> gives it for a format and the bytes of the
  value, the lowest first.
\<close>

record libc =
  grants :: "nat \<Rightarrow> nat \<Rightarrow> bool"
  requests :: nat
  printed :: "string \<Rightarrow> nat list \<Rightarrow> string"

definition malloc :: "nat \<Rightarrow> libc \<Rightarrow> bool \<times> libc" where
  "malloc n m = (grants m (requests m) n, m\<lparr>requests := requests m + 1\<rparr>)"

text \<open>An allocator that refuses nothing.\<close>

definition plenty :: "libc \<Rightarrow> bool" where
  "plenty m \<longleftrightarrow> (\<forall>t n. grants m t n)"

subsection \<open>Arrays\<close>

text \<open>
  The three structs have the same first fields: how many elements there are, how many there is room for, and the room; a
  slot that nothing was stored in, or \<^verbatim>\<open>NULL\<close>, is \<^term>\<open>None\<close>.
\<close>

record 'a vec =
  vec_size :: nat
  vec_cap :: nat
  vec_ctn :: "'a option list"

type_synonym vector_str = "string vec"

definition VECTOR_DEF_CAPACITY :: nat where
  "VECTOR_DEF_CAPACITY = 8"

text \<open>\<^verbatim>\<open>capacity * BUFFER_GROWFACTOR\<close>, cut to an integer; the rounding of the double product does not show below \<open>2 ^ 40\<close>.\<close>

definition grown :: "nat \<Rightarrow> nat" where
  "grown n = n * 1618 div 1000"

definition fresh_vec :: "'a vec" where
  "fresh_vec = \<lparr>vec_size = 0, vec_cap = VECTOR_DEF_CAPACITY, vec_ctn = replicate VECTOR_DEF_CAPACITY None\<rparr>"

text \<open>What an \<^verbatim>\<open>init\<close> leaves: without memory \<^verbatim>\<open>container\<close> is \<^verbatim>\<open>NULL\<close>, but size and capacity are set.\<close>

definition init_vec :: "bool \<Rightarrow> 'a vec" where
  "init_vec got = (if got then fresh_vec else fresh_vec\<lparr>vec_ctn := []\<rparr>)"

text \<open>The elements moved to a room of \<open>cap\<close> slots.\<close>

definition moved :: "nat \<Rightarrow> 'a vec \<Rightarrow> 'a vec" where
  "moved cap v = v\<lparr>vec_ctn := take (vec_size v) (vec_ctn v) @ replicate (cap - vec_size v) None, vec_cap := cap\<rparr>"

definition stored :: "'a option \<Rightarrow> 'a vec \<Rightarrow> 'a vec" where
  "stored x v = v\<lparr>vec_ctn := (vec_ctn v)[vec_size v := x]\<rparr>"

definition one_more :: "'a vec \<Rightarrow> 'a vec" where
  "one_more v = v\<lparr>vec_size := vec_size v + 1\<rparr>"

text \<open>\<^verbatim>\<open>container[i]\<close>: nothing can be said of a slot outside the room or one that holds no string.\<close>

definition slot_at :: "'a vec \<Rightarrow> nat \<Rightarrow> 'a run" where
  "slot_at v i = (if i < length (vec_ctn v) then case vec_ctn v ! i of Some x \<Rightarrow> Done x | None \<Rightarrow> Undefined else Undefined)"

text \<open>\<^verbatim>\<open>vector_str\<close>.\<close>

definition vector_str_init :: "libc \<Rightarrow> (bool \<times> vector_str \<times> libc)" where
  "vector_str_init m = (case malloc (8 * VECTOR_DEF_CAPACITY) m of (b, m') \<Rightarrow> (b, init_vec b, m'))"

definition vector_str_grow :: "(vector_str \<times> libc) act" where
  "vector_str_grow = (\<lambda>(v, m).
     if \<not> 0 < vec_cap v then Aborted
     else let tmp_cap = grown (vec_cap v) in
       if \<not> vec_cap v < tmp_cap then Aborted
       else case malloc (8 * tmp_cap) m of (b, m') \<Rightarrow> if b then yes (moved tmp_cap v, m') else no (v, m'))"

text \<open>The copy of a string put after the last one: \<^verbatim>\<open>malloc\<close>, \<^verbatim>\<open>snprintf\<close> and \<^verbatim>\<open>++size\<close>.\<close>

definition store_copy :: "string \<Rightarrow> nat \<Rightarrow> (vector_str \<times> libc) act" where
  "store_copy str len = (\<lambda>(v, m).
     case malloc (len + 1) m of (b, m') \<Rightarrow>
       if \<not> vec_size v < length (vec_ctn v) then Undefined
       else if b then yes (one_more (stored (Some (take len str)) v), m') else no (stored None v, m'))"

definition vector_str_push :: "string \<Rightarrow> nat \<Rightarrow> (vector_str \<times> libc) act" where
  "vector_str_push str len =
     andthen (\<lambda>(v, m). if vec_size v = vec_cap v then vector_str_grow (v, m) else yes (v, m)) (store_copy str len)"

definition vector_str_pop :: "vector_str \<Rightarrow> vector_str" where
  "vector_str_pop v = (if vec_size v = 0 then v else stored None (v\<lparr>vec_size := vec_size v - 1\<rparr>))"

text \<open>\<^verbatim>\<open>strncmp(a, b, l) == 0\<close> on strings that end where their list ends.\<close>

definition strncmp_eq :: "string \<Rightarrow> string \<Rightarrow> nat \<Rightarrow> bool" where
  "strncmp_eq a b l \<longleftrightarrow> take l a = take l b"

primrec find_from :: "vector_str \<Rightarrow> string \<Rightarrow> nat \<Rightarrow> nat list \<Rightarrow> bool run" where
  "find_from v str l [] = Done False"
| "find_from v str l (i # is) = run_bind (slot_at v i) (\<lambda>x. if strncmp_eq x str l then Done True else find_from v str l is)"

definition vector_str_find :: "vector_str \<Rightarrow> string \<Rightarrow> nat \<Rightarrow> bool run" where
  "vector_str_find v str l = find_from v str l [0..<vec_size v]"

text \<open>The strings of the slots \<open>is\<close>, one after another: what the loops of \<^verbatim>\<open>memcpy\<close> write, and by its length \<^verbatim>\<open>get_strlen_sum\<close>.\<close>

primrec copied :: "vector_str \<Rightarrow> nat list \<Rightarrow> string run" where
  "copied v [] = Done []"
| "copied v (i # is) = run_bind (slot_at v i) (\<lambda>x. run_bind (copied v is) (\<lambda>y. Done (x @ y)))"

definition get_strlen_sum :: "vector_str \<Rightarrow> nat run" where
  "get_strlen_sum v =
     (if \<not> 0 < vec_size v then Aborted else run_bind (copied v [0..<vec_size v]) (\<lambda>x. Done (length x)))"

definition vector_str_get_flat :: "vector_str \<Rightarrow> libc \<Rightarrow> (string option \<times> libc) run" where
  "vector_str_get_flat v m =
     (if vec_size v = 0 then Done (None, m)
      else run_bind (get_strlen_sum v) (\<lambda>rtn_size.
        if rtn_size = 0 then Done (None, m)
        else case malloc (rtn_size + 1) m of (b, m') \<Rightarrow>
          if \<not> b then Done (None, m')
          else run_bind (copied v [0..<vec_size v]) (\<lambda>x. Done (Some x, m'))))"

text \<open>
  Every caller passes as \<^verbatim>\<open>end\<close> a size \<open>n\<close> less one, as a \<^verbatim>\<open>size_t\<close>. For \<open>n = 0\<close> that is the largest value: no
  \<^verbatim>\<open>begin\<close> is greater, \<^verbatim>\<open>end + 1\<close> is 0 again, and nothing is copied.
\<close>

definition vector_str_substr :: "vector_str \<Rightarrow> nat \<Rightarrow> nat \<Rightarrow> libc \<Rightarrow> (string option \<times> libc) run" where
  "vector_str_substr v b n m =
     (if n \<noteq> 0 \<and> b > n - 1 then Done (None, m)
      else run_bind (copied v [b..<n]) (\<lambda>x.
        case malloc (length x + 1) m of (got, m') \<Rightarrow> Done (if got then Some x else None, m')))"

text \<open>\<^verbatim>\<open>strdup\<close> of each string; it gives up at the first request refused.\<close>

primrec strdups :: "string list \<Rightarrow> libc \<Rightarrow> bool \<times> libc" where
  "strdups [] m = (True, m)"
| "strdups (x # xs) m = (case malloc (length x + 1) m of (b, m') \<Rightarrow> if b then strdups xs m' else (False, m'))"

definition vec_list :: "'a vec \<Rightarrow> 'a list" where
  "vec_list v = map the (take (vec_size v) (vec_ctn v))"

definition vector_str_push_vector_head :: "vector_str \<Rightarrow> (vector_str \<times> libc) act" where
  "vector_str_push_vector_head org = (\<lambda>(dst, m).
     let tmp_cap = grown (vec_size dst + vec_size org) in
     case malloc (8 * tmp_cap) m of (b, m') \<Rightarrow>
       if \<not> b then no (dst, m')
       else case strdups (vec_list org) m' of (c, m'') \<Rightarrow>
         if \<not> c then no (dst, m'')
         else let n = vec_size dst + vec_size org in
           yes (\<lparr>vec_size = n, vec_cap = tmp_cap,
                 vec_ctn = take (vec_size org) (vec_ctn org) @ take (vec_size dst) (vec_ctn dst) @
                           replicate (tmp_cap - n) None\<rparr>, m''))"

text \<open>\<^verbatim>\<open>vector_read_cmd\<close>.\<close>

datatype read_cmd = READ_FAIL | READ_NEST | READ_TMPL | READ_EXPR | READ_EXPL | READ_LOCAL | READ_TYPE | READ_FUNC | READ_PTRMEM

type_synonym vector_read_cmd = "read_cmd vec"

definition vector_read_cmd_find :: "vector_read_cmd \<Rightarrow> read_cmd \<Rightarrow> int" where
  "vector_read_cmd_find v dst =
     (if dst = READ_FAIL then - 1 else if list_ex (\<lambda>x. x = dst) (vec_list v) then 1 else 0)"

definition vector_read_cmd_init :: "libc \<Rightarrow> bool \<times> vector_read_cmd \<times> libc" where
  "vector_read_cmd_init m = (case malloc (4 * VECTOR_DEF_CAPACITY) m of (b, m') \<Rightarrow> (b, init_vec b, m'))"

definition vector_read_cmd_pop :: "vector_read_cmd \<Rightarrow> bool \<times> vector_read_cmd" where
  "vector_read_cmd_pop v =
     (if vec_size v = 0 then (False, v) else (True, stored (Some READ_FAIL) (v\<lparr>vec_size := vec_size v - 1\<rparr>)))"

text \<open>Both other arrays grow in their \<^verbatim>\<open>push\<close>, without the assertion; \<^verbatim>\<open>enum\<close> elements take four bytes.\<close>

definition push_enum :: "'a \<Rightarrow> ('a vec \<times> libc) act" where
  "push_enum x = (\<lambda>(v, m).
     if vec_size v = vec_cap v then
       let tmp_cap = grown (vec_cap v) in
       case malloc (4 * tmp_cap) m of (b, m') \<Rightarrow>
         if \<not> b then no (v, m')
         else if \<not> vec_size v < tmp_cap then Undefined
         else yes (one_more (stored (Some x) (moved tmp_cap v)), m')
     else if \<not> vec_size v < length (vec_ctn v) then Undefined
     else yes (one_more (stored (Some x) v), m))"

definition vector_read_cmd_push :: "read_cmd \<Rightarrow> (vector_read_cmd \<times> libc) act" where
  "vector_read_cmd_push = push_enum"

text \<open>\<^verbatim>\<open>vector_type_qualifier\<close>.\<close>

datatype type_qualifier = TYPE_PTR | TYPE_REF | TYPE_CMX | TYPE_IMG | TYPE_EXT | TYPE_RST | TYPE_VAT | TYPE_CST

record vector_type_qualifier =
  quals :: "type_qualifier vec"
  ext_name :: vector_str

definition vector_type_qualifier_init :: "libc \<Rightarrow> bool \<times> vector_type_qualifier \<times> libc" where
  "vector_type_qualifier_init m =
     (case malloc (4 * VECTOR_DEF_CAPACITY) m of (b, m') \<Rightarrow>
        if \<not> b then (False, \<lparr>quals = init_vec False, ext_name = init_vec False\<rparr>, m')
        else case vector_str_init m' of (c, e, m'') \<Rightarrow> (c, \<lparr>quals = fresh_vec, ext_name = e\<rparr>, m''))"

definition vector_type_qualifier_push :: "type_qualifier \<Rightarrow> (vector_type_qualifier \<times> libc) act" where
  "vector_type_qualifier_push t = (\<lambda>(v, m).
     run_bind (push_enum t (quals v, m)) (\<lambda>(b, q, m'). Done (b, v\<lparr>quals := q\<rparr>, m')))"

subsection \<open>What a run comes to\<close>

text \<open>
  \<open>yields r c Q\<close>: the run ends, with a value that satisfies \<open>Q\<close> or, where \<open>c\<close> allows it, in undefined behaviour or a
  failed assertion.
\<close>

definition yields :: "'a run \<Rightarrow> bool \<Rightarrow> ('a \<Rightarrow> bool) \<Rightarrow> bool" where
  "yields r c Q = (case r of Done x \<Rightarrow> Q x | Undefined \<Rightarrow> c | Aborted \<Rightarrow> c | Unfinished \<Rightarrow> False)"

lemma yields_simps [simp]:
  "yields (Done x) c Q = Q x"
  "yields Undefined c Q = c"
  "yields Aborted c Q = c"
  "yields Unfinished c Q = False"
  by (simp_all add: yields_def)

lemma yields_bind [simp]:
  "yields (run_bind r f) c Q = yields r c (\<lambda>x. yields (f x) c Q)"
  by (cases r) simp_all

lemma yields_mono:
  assumes "yields r c P" "\<And>x. P x \<Longrightarrow> Q x" "c \<Longrightarrow> c'"
  shows "yields r c' Q"
  using assms by (cases r) simp_all

lemma yields_steps [simp]:
  "yields (yes s) c Q = Q (True, s)"
  "yields (no s) c Q = Q (False, s)"
  "yields (andthen f g s) c Q = yields (f s) c (\<lambda>(b, s'). if b then yields (g s') c Q else Q (False, s'))"
  "yields (all_of [] s) c Q = Q (True, s)"
  "yields (all_of (f # fs) s) c Q = yields (f s) c (\<lambda>(b, s'). if b then yields (all_of fs s') c Q else Q (False, s'))"
  "yields (upd h s) c Q = Q (True, h s)"
  "yields (reading k l s) c Q = yields (l (k s) s) c Q"
  "yields (getting i j s) c R = yields (i s) c (\<lambda>(x, s'). yields (j x s') c R)"
  "yields (if_so d f s) c Q = (if d then yields (f s) c Q else Q (True, s))"
  "yields (need d s) c Q = Q (d, s)"
  "yields (assertion d s) c Q = (if d then Q (True, s) else c)"
  by (simp_all add: all_of.simps andthen_def yes_def no_def upd_def reading_def getting_def if_so_def need_def assertion_def
        case_prod_unfold if_distrib [where f = "\<lambda>r. yields r c Q"] cong: if_cong)

lemma yields_Done: "yields r False (\<lambda>x. x = y) \<longleftrightarrow> r = Done y"
  by (cases r) simp_all

subsection \<open>Arrays are lists\<close>

text \<open>The invariant of an array: the elements fit, they are there, and there is room for one more after growing.\<close>

definition vec_ok :: "'a vec \<Rightarrow> bool" where
  "vec_ok v \<longleftrightarrow>
     vec_size v \<le> vec_cap v \<and> 2 \<le> vec_cap v \<and> length (vec_ctn v) = vec_cap v \<and>
     list_all (\<lambda>x. x \<noteq> None) (take (vec_size v) (vec_ctn v))"

lemma vec_list_length [simp]: "vec_ok v \<Longrightarrow> length (vec_list v) = vec_size v"
  by (simp add: vec_ok_def vec_list_def)

lemma fresh_vec_ok [simp]: "vec_ok fresh_vec" "vec_list fresh_vec = []" "vec_size fresh_vec = 0"
  by (simp_all add: vec_ok_def fresh_vec_def vec_list_def VECTOR_DEF_CAPACITY_def)

lemma init_vec_True [simp]: "init_vec True = fresh_vec"
  by (simp add: init_vec_def)

lemma slot_at_ok:
  assumes "vec_ok v" "i < vec_size v"
  shows "slot_at v i = Done (vec_list v ! i)"
proof -
  have "take (vec_size v) (vec_ctn v) ! i \<noteq> None"
    using assms unfolding vec_ok_def list_all_length by (metis length_take min.absorb2)
  with assms show ?thesis by (auto simp: slot_at_def vec_list_def vec_ok_def)
qed

lemma grown_bigger: "2 \<le> n \<Longrightarrow> n < grown n"
  unfolding grown_def by linarith

lemma moved_ok:
  assumes "vec_ok v" "vec_size v \<le> c" "2 \<le> c"
  shows "vec_ok (moved c v)" "vec_list (moved c v) = vec_list v" "vec_size (moved c v) = vec_size v" "vec_cap (moved c v) = c"
  using assms by (simp_all add: vec_ok_def moved_def vec_list_def)

lemma one_more_stored_ok:
  assumes "vec_ok v" "vec_size v < vec_cap v"
  shows "vec_ok (one_more (stored (Some x) v))" "vec_list (one_more (stored (Some x) v)) = vec_list v @ [x]"
  using assms by (simp_all add: vec_ok_def one_more_def stored_def vec_list_def take_Suc_conv_app_nth)

lemma stored_ok:
  assumes "vec_ok v"
  shows "vec_ok (stored x v)" "vec_list (stored x v) = vec_list v" "vec_size (stored x v) = vec_size v"
  using assms by (simp_all add: vec_ok_def stored_def vec_list_def)

lemma vec_shrink_ok:
  assumes "vec_ok v" "n \<le> vec_size v"
  shows "vec_ok (v\<lparr>vec_size := n\<rparr>)" "vec_list (v\<lparr>vec_size := n\<rparr>) = take n (vec_list v)"
proof -
  have "set (take n (vec_ctn v)) \<subseteq> set (take (vec_size v) (vec_ctn v))" using assms by (simp add: set_take_subset_set_take)
  then show "vec_ok (v\<lparr>vec_size := n\<rparr>)"
    using assms by (auto simp: vec_ok_def list_all_iff)
  show "vec_list (v\<lparr>vec_size := n\<rparr>) = take n (vec_list v)"
    using assms by (simp add: vec_list_def take_map)
qed

text \<open>Every operation keeps the invariant, whatever memory it gets, and does to the list what its name says.\<close>

definition same_libc :: "libc \<Rightarrow> libc \<Rightarrow> bool" where
  "same_libc m m' \<longleftrightarrow> grants m' = grants m \<and> printed m' = printed m"

lemma same_libc [simp]: "same_libc m m" "same_libc m m' \<Longrightarrow> plenty m' = plenty m"
  by (simp_all add: same_libc_def plenty_def)

lemma same_libc_trans [trans]: "same_libc m m' \<Longrightarrow> same_libc m' m'' \<Longrightarrow> same_libc m m''"
  by (simp add: same_libc_def)

lemma malloc_same [simp]: "malloc n m = (b, m') \<Longrightarrow> same_libc m m'"
  by (auto simp: malloc_def same_libc_def)

lemma malloc_refused [dest]: "malloc n m = (False, m') \<Longrightarrow> \<not> plenty m"
  by (auto simp: malloc_def plenty_def)

lemma malloc_plenty: "malloc n m = (b, m') \<Longrightarrow> plenty m \<longrightarrow> b"
  by (auto simp: malloc_def plenty_def)

lemma vector_str_grow_spec:
  assumes "vec_ok v"
  shows "yields (vector_str_grow (v, m)) False (\<lambda>(b, v', m'). vec_ok v' \<and> vec_list v' = vec_list v \<and> vec_size v' = vec_size v \<and>
           (b \<longrightarrow> vec_size v' < vec_cap v') \<and> (plenty m \<longrightarrow> b) \<and> same_libc m m')"
proof -
  have "vec_size v \<le> vec_cap v" "2 \<le> vec_cap v" using assms by (simp_all add: vec_ok_def)
  with grown_bigger [of "vec_cap v"] have "vec_size v \<le> grown (vec_cap v)" "2 \<le> grown (vec_cap v)" "vec_size v < grown (vec_cap v)"
    "vec_cap v < grown (vec_cap v)" "0 < vec_cap v" by auto
  with assms show ?thesis by (auto simp: vector_str_grow_def Let_def moved_ok split: prod.split)
qed

lemma store_copy_spec:
  assumes "vec_ok v" "vec_size v < vec_cap v"
  shows "yields (store_copy str len (v, m)) False (\<lambda>(b, v', m'). vec_ok v' \<and> (plenty m \<longrightarrow> b) \<and> same_libc m m' \<and>
           vec_list v' = (if b then vec_list v @ [take len str] else vec_list v))"
  using assms by (auto simp: store_copy_def one_more_stored_ok stored_ok vec_ok_def [THEN iffD1] split: prod.split)

lemma vector_str_push_spec:
  assumes "vec_ok v"
  shows "yields (vector_str_push str len (v, m)) False (\<lambda>(b, v', m'). vec_ok v' \<and> (plenty m \<longrightarrow> b) \<and> same_libc m m' \<and>
           vec_list v' = (if b then vec_list v @ [take len str] else vec_list v))"
proof -
  have "yields (if vec_size v = vec_cap v then vector_str_grow (v, m) else yes (v, m)) False
          (\<lambda>(b, w, m'). vec_ok w \<and> vec_list w = vec_list v \<and> (b \<longrightarrow> vec_size w < vec_cap w) \<and> (plenty m \<longrightarrow> b) \<and> same_libc m m')"
    using assms by (auto simp: vec_ok_def [THEN iffD1] le_neq_implies_less intro: yields_mono [OF vector_str_grow_spec [OF assms]])
  then show ?thesis
    unfolding vector_str_push_def yields_steps prod.case
    by (rule yields_mono) (auto intro: yields_mono [OF store_copy_spec] same_libc_trans)
qed

lemma vector_str_pop_spec:
  assumes "vec_ok v"
  shows "vec_ok (vector_str_pop v)" "vec_list (vector_str_pop v) = butlast (vec_list v)"
proof -
  show "vec_ok (vector_str_pop v)" using assms by (simp add: vector_str_pop_def stored_ok vec_shrink_ok)
  show "vec_list (vector_str_pop v) = butlast (vec_list v)"
  proof (cases "vec_size v = 0")
    case True
    then show ?thesis by (simp add: vector_str_pop_def vec_list_def)
  next
    case False
    with assms show ?thesis by (simp add: vector_str_pop_def stored_ok vec_shrink_ok butlast_conv_take)
  qed
qed

lemma find_from_spec:
  assumes "vec_ok v" "list_all (\<lambda>i. i < vec_size v) is"
  shows "find_from v str l is = Done (\<exists>i \<in> set is. take l (vec_list v ! i) = take l str)"
  using assms(2) by (induction "is") (auto simp: slot_at_ok [OF assms(1)] strncmp_eq_def)

lemma vector_str_find_spec:
  assumes "vec_ok v"
  shows "vector_str_find v str l = Done (\<exists>x \<in> set (vec_list v). take l x = take l str)"
proof -
  have "set (vec_list v) = (\<lambda>i. vec_list v ! i) ` set [0..<vec_size v]"
    using assms by (auto simp: set_conv_nth [of "vec_list v"])
  then show ?thesis using assms by (simp add: vector_str_find_def find_from_spec list_all_iff)
qed

lemma copied_spec:
  assumes "vec_ok v" "list_all (\<lambda>i. i < vec_size v) is"
  shows "copied v is = Done (concat (map (\<lambda>i. vec_list v ! i) is))"
  using assms(2) by (induction "is") (auto simp: slot_at_ok [OF assms(1)])

lemma copied_range:
  assumes "vec_ok v" "j \<le> vec_size v"
  shows "copied v [i..<j] = Done (concat (drop i (take j (vec_list v))))"
proof -
  have "map (\<lambda>k. vec_list v ! k) [i..<j] = drop i (take j (vec_list v))"
    using assms by (intro nth_equalityI) auto
  moreover have "list_all (\<lambda>k. k < vec_size v) [i..<j]" using assms by (auto simp: list_all_iff)
  ultimately show ?thesis by (simp add: copied_spec [OF assms(1)])
qed

lemma copied_all: "vec_ok v \<Longrightarrow> copied v [0..<vec_size v] = Done (concat (vec_list v))"
  by (simp add: copied_range)

lemma vector_str_get_flat_spec:
  assumes "vec_ok v"
  shows "yields (vector_str_get_flat v m) False (\<lambda>(r, m'). same_libc m m' \<and>
           (case r of Some x \<Rightarrow> x = concat (vec_list v) \<and> x \<noteq> [] | None \<Rightarrow> plenty m \<longrightarrow> concat (vec_list v) = []))"
proof (cases "vec_size v = 0")
  case True
  then have "vec_list v = []" by (simp add: vec_list_def)
  with True show ?thesis by (simp add: vector_str_get_flat_def)
next
  case False
  then show ?thesis
    by (auto simp: vector_str_get_flat_def get_strlen_sum_def copied_all [OF assms] simp del: concat_eq_Nil_conv split: prod.split)
qed

text \<open>The strings from \<open>i\<close> on. The empty range of an empty array is the empty string, any other is refused.\<close>

lemma vector_str_substr_spec:
  assumes "vec_ok v" "i \<le> vec_size v"
  shows "yields (vector_str_substr v i (vec_size v) m) False (\<lambda>(r, m'). same_libc m m' \<and>
           (case r of Some x \<Rightarrow> x = concat (drop i (vec_list v)) \<and> (i < vec_size v \<or> i = 0)
                    | None \<Rightarrow> plenty m \<longrightarrow> i = vec_size v \<and> 0 < i))"
  using assms(2) by (auto simp: vector_str_substr_def copied_range [OF assms(1)] assms(1) split: prod.split)

text \<open>Growing at the head: copies of the strings of \<open>org\<close> come first.\<close>

lemma strdups_spec: "strdups xs m = (b, m') \<Longrightarrow> same_libc m m' \<and> (plenty m \<longrightarrow> b)"
proof (induction xs arbitrary: m)
  case (Cons x xs)
  obtain c n where c: "malloc (length x + 1) m = (c, n)" by fastforce
  then have "same_libc m n" "plenty m \<longrightarrow> c" using malloc_plenty [OF c] by auto
  show ?case
  proof (cases c)
    case True
    with Cons.prems c have "strdups xs n = (b, m')" by simp
    from Cons.IH [OF this] show ?thesis using \<open>same_libc m n\<close> by (auto intro: same_libc_trans)
  next
    case False
    with Cons.prems c \<open>plenty m \<longrightarrow> c\<close> \<open>same_libc m n\<close> show ?thesis by simp
  qed
qed simp

lemma vector_str_push_vector_head_spec:
  assumes "vec_ok dst" "vec_ok org" "2 \<le> vec_size dst + vec_size org"
  shows "yields (vector_str_push_vector_head org (dst, m)) False (\<lambda>(b, v', m'). vec_ok v' \<and> (plenty m \<longrightarrow> b) \<and> same_libc m m' \<and>
           vec_list v' = (if b then vec_list org @ vec_list dst else vec_list dst))"
proof -
  let ?n = "vec_size dst + vec_size org"
  let ?v = "\<lparr>vec_size = ?n, vec_cap = grown ?n,
              vec_ctn = take (vec_size org) (vec_ctn org) @ take (vec_size dst) (vec_ctn dst) @ replicate (grown ?n - ?n) None\<rparr>"
  have "?n < grown ?n" using assms(3) by (rule grown_bigger)
  with assms have ok: "vec_ok ?v" "vec_list ?v = vec_list org @ vec_list dst"
    by (auto simp: vec_ok_def vec_list_def)
  obtain b m' where b: "malloc (8 * grown ?n) m = (b, m')" by fastforce
  obtain c m'' where c: "strdups (vec_list org) m' = (c, m'')" by fastforce
  have "same_libc m m'" "plenty m \<longrightarrow> b" "same_libc m' m''" "plenty m' \<longrightarrow> c" using malloc_same [OF b] malloc_plenty [OF b] strdups_spec [OF c] by auto
  moreover from this have "same_libc m m''" "plenty m \<longrightarrow> c" by (auto intro: same_libc_trans)
  ultimately show ?thesis
    using assms ok by (cases b; cases c) (simp_all add: vector_str_push_vector_head_def Let_def b c)
qed

text \<open>
  With fewer than two strings in all, the new room has one slot for each and none to spare, and the next push fails
  the assertion of \<^verbatim>\<open>vector_str_grow\<close>.
\<close>

lemma vector_str_push_vector_head_small:
  assumes "vec_ok dst" "vec_ok org" "vec_size dst + vec_size org < 2"
  shows "yields (vector_str_push_vector_head org (dst, m)) False (\<lambda>(b, v', m'). (plenty m \<longrightarrow> b) \<and>
           vec_list v' = (if b then vec_list org @ vec_list dst else vec_list dst) \<and>
           (if b then vector_str_push x n (v', m') = Aborted else v' = dst))"
proof -
  let ?n = "vec_size dst + vec_size org"
  let ?v = "\<lparr>vec_size = ?n, vec_cap = grown ?n,
              vec_ctn = take (vec_size org) (vec_ctn org) @ take (vec_size dst) (vec_ctn dst) @ replicate (grown ?n - ?n) None\<rparr>"
  have g: "grown ?n = ?n" using assms(3) by (auto simp: grown_def less_2_cases_iff)
  have l: "vec_list ?v = vec_list org @ vec_list dst" using assms by (auto simp: vec_ok_def vec_list_def)
  have a: "vector_str_push x n (?v, m') = Aborted" for m' by (simp add: vector_str_push_def vector_str_grow_def andthen_def Let_def g)
  obtain b m' where b: "malloc (8 * grown ?n) m = (b, m')" by fastforce
  obtain c m'' where c: "strdups (vec_list org) m' = (c, m'')" by fastforce
  have "same_libc m m'" "plenty m \<longrightarrow> b" "plenty m' \<longrightarrow> c" using malloc_same [OF b] malloc_plenty [OF b] strdups_spec [OF c] by auto
  moreover from this have "plenty m \<longrightarrow> c" by auto
  ultimately show ?thesis
    using l a by (cases b; cases c) (simp_all add: vector_str_push_vector_head_def Let_def b c)
qed

lemma push_enum_spec:
  assumes "vec_ok v"
  shows "yields (push_enum x (v, m)) False (\<lambda>(b, v', m'). vec_ok v' \<and> (plenty m \<longrightarrow> b) \<and> same_libc m m' \<and>
           vec_list v' = (if b then vec_list v @ [x] else vec_list v))"
proof (cases "vec_size v = vec_cap v")
  case True
  let ?c = "grown (vec_cap v)"
  have "2 \<le> vec_cap v" using assms by (simp add: vec_ok_def)
  then have c: "vec_cap v < ?c" "2 \<le> ?c" using grown_bigger [of "vec_cap v"] by auto
  with True assms have "vec_ok (moved ?c v)" "vec_size (moved ?c v) < vec_cap (moved ?c v)" "vec_list (moved ?c v) = vec_list v"
    by (simp_all add: moved_ok)
  then show ?thesis
    using True assms c by (auto simp: push_enum_def Let_def one_more_stored_ok split: prod.split)
next
  case False
  with assms have "vec_size v < vec_cap v" "length (vec_ctn v) = vec_cap v" by (auto simp: vec_ok_def)
  with assms False show ?thesis by (simp add: push_enum_def one_more_stored_ok)
qed

lemma vector_read_cmd_pop_spec:
  assumes "vec_ok v"
  shows "vec_ok (snd (vector_read_cmd_pop v))" "vec_list (snd (vector_read_cmd_pop v)) = butlast (vec_list v)"
    "fst (vector_read_cmd_pop v) \<longleftrightarrow> vec_list v \<noteq> []"
proof -
  have "vec_list v = [] \<longleftrightarrow> vec_size v = 0" using assms by (metis length_0_conv vec_list_length)
  then show "vec_ok (snd (vector_read_cmd_pop v))" "vec_list (snd (vector_read_cmd_pop v)) = butlast (vec_list v)"
    "fst (vector_read_cmd_pop v) \<longleftrightarrow> vec_list v \<noteq> []"
    using assms by (auto simp: vector_read_cmd_pop_def stored_ok vec_shrink_ok butlast_conv_take)
qed

lemma vector_read_cmd_find_spec:
  "vector_read_cmd_find v dst = (if dst = READ_FAIL then - 1 else if dst \<in> set (vec_list v) then 1 else 0)"
  by (simp add: vector_read_cmd_find_def list_ex_iff)

subsection \<open>Arrays one appends to\<close>

text \<open>
  The contract the three arrays share, for any allocator: appending keeps the invariant and either adds the element
  or, which only happens when memory is refused, adds nothing.
\<close>

locale appendable =
  fixes append_to :: "'e \<Rightarrow> ('v \<times> libc) act"
    and contents :: "'v \<Rightarrow> 'e list"
    and valid :: "'v \<Rightarrow> bool"
  assumes append_law: "valid v \<Longrightarrow> yields (append_to x (v, m)) False (\<lambda>(b, v', m'). valid v' \<and> (plenty m \<longrightarrow> b) \<and>
            same_libc m m' \<and> contents v' = (if b then contents v @ [x] else contents v))"
begin

text \<open>A series of appends that stops at the first refusal has added a prefix, with memory all of it.\<close>

lemma append_series:
  assumes "valid v"
  shows "yields (all_of (map append_to xs) (v, m)) False (\<lambda>(b, v', m'). valid v' \<and> (plenty m \<longrightarrow> b) \<and> same_libc m m' \<and>
           (\<exists>k \<le> length xs. contents v' = contents v @ take k xs \<and> (b \<longrightarrow> k = length xs)))"
  using assms
proof (induction xs arbitrary: v m)
  case (Cons x xs)
  let ?post = "\<lambda>(b, v', m'). valid v' \<and> (plenty m \<longrightarrow> b) \<and> same_libc m m' \<and>
     (\<exists>k \<le> length (x # xs). contents v' = contents v @ take k (x # xs) \<and> (b \<longrightarrow> k = length (x # xs)))"
  have rest: "yields (all_of (map append_to xs) (v', m')) False ?post"
    if "valid v'" "same_libc m m'" "contents v' = contents v @ [x]" for v' m'
    using that by (intro yields_mono [OF Cons.IH [OF that(1)]])
      (auto intro: same_libc_trans exI [where x = "Suc _"])
  have none: "?post (False, v', m')" if "valid v'" "same_libc m m'" "\<not> plenty m" "contents v' = contents v" for v' m'
    using that by (auto intro: exI [where x = 0])
  show ?case
    unfolding list.map yields_steps
    by (rule yields_mono [OF append_law [OF Cons.prems]]) (use rest none in \<open>auto split: if_splits\<close>)
qed auto

end

definition push_string :: "string \<Rightarrow> (vector_str \<times> libc) act" where
  "push_string x = vector_str_push x (length x)"

interpretation strs: appendable push_string vec_list vec_ok
  by unfold_locales (auto simp: push_string_def intro: yields_mono [OF vector_str_push_spec])

interpretation cmds: appendable vector_read_cmd_push vec_list vec_ok
  by unfold_locales (simp add: vector_read_cmd_push_def push_enum_spec)

interpretation quals: appendable vector_type_qualifier_push "\<lambda>v. vec_list (quals v)" "\<lambda>v. vec_ok (quals v)"
  by unfold_locales (auto simp: vector_type_qualifier_push_def intro: yields_mono [OF push_enum_spec])

end
