(* ===== verification/Dem_Float.thy ===== *)
theory Dem_Float
  imports Dem_Vector
begin

text \<open>
  Floating point literals in mangled names (\<^verbatim>\<open>libelftc_dem_gnu3.c\<close>): the hexadecimal digits of the value's bytes, highest
  first, are stored into the value and it is printed into a buffer that grows until the text fits.
\<close>

definition FLOAT_SPRINTF_TRY_LIMIT :: nat where "FLOAT_SPRINTF_TRY_LIMIT = 5"
definition FLOAT_QUADRUPLE_BYTES :: nat where "FLOAT_QUADRUPLE_BYTES = 16"
definition FLOAT_EXTENED_BYTES :: nat where "FLOAT_EXTENED_BYTES = 10"

definition hex_table :: "(char \<times> int) list" where
  "hex_table = zip ''0123456789abcdef'' [0..15]"

definition hex_to_dec :: "char \<Rightarrow> int" where
  "hex_to_dec c = (case map_of hex_table c of Some d \<Rightarrow> d | None \<Rightarrow> - 1)"

text \<open>
  The loop over the \<open>k\<close> digit pairs of the \<open>len\<close> characters at \<^verbatim>\<open>p\<close> from the last to the first. Neither byte order macro is
  defined, so both are 0 in the test and the little-endian branch is compiled everywhere: byte \<open>i\<close> is the \<open>i\<close>-th pair
  from the end.
\<close>

definition fp_byte :: "string \<Rightarrow> nat \<Rightarrow> nat \<Rightarrow> int" where
  "fp_byte p len i = hex_to_dec (p ! (len - i * 2 - 1)) + hex_to_dec (p ! (len - i * 2 - 2)) * 16"

definition fp_bytes :: "string \<Rightarrow> nat \<Rightarrow> nat list option" where
  "fp_bytes p len =
     (let bs = map (fp_byte p len) [0..<len div 2] in
      if list_ex (\<lambda>b. b < 0 \<or> b > 255) bs then None else Some (map nat bs))"

text \<open>Stored into a value of \<open>n\<close> bytes that was cleared before.\<close>

definition into_bytes :: "nat \<Rightarrow> nat list \<Rightarrow> nat list" where
  "into_bytes n bs = take n (bs @ replicate (n - length bs) 0)"

text \<open>The loop around \<^verbatim>\<open>snprintf\<close>, with the retries that are left.\<close>

primrec print_fp :: "nat \<Rightarrow> nat \<Rightarrow> string \<Rightarrow> libc \<Rightarrow> string option \<times> libc" where
  "print_fp 0 rtn_len str m =
     (case malloc rtn_len m of (b, m') \<Rightarrow> (if b \<and> length str < rtn_len then Some str else None, m'))"
| "print_fp (Suc k) rtn_len str m =
     (case malloc rtn_len m of (b, m') \<Rightarrow>
        if \<not> b then (None, m')
        else if length str < rtn_len then (Some str, m')
        else print_fp k (grown rtn_len) str m')"

definition fp_text :: "nat \<Rightarrow> string \<Rightarrow> nat list \<Rightarrow> libc \<Rightarrow> string option \<times> libc" where
  "fp_text rtn_len fmt bytes m = print_fp (FLOAT_SPRINTF_TRY_LIMIT + 1) rtn_len (printed m fmt bytes) m"

definition fp_digits_ok :: "nat \<Rightarrow> nat \<Rightarrow> bool" where
  "fp_digits_ok len n \<longleftrightarrow> \<not> (len = 0 \<or> len mod 2 \<noteq> 0 \<or> len div 2 > n)"

definition decode_fp_to_double :: "string \<Rightarrow> nat \<Rightarrow> libc \<Rightarrow> string option \<times> libc" where
  "decode_fp_to_double p len m =
     (if \<not> fp_digits_ok len 8 then (None, m)
      else case fp_bytes p len of None \<Rightarrow> (None, m) | Some bs \<Rightarrow> fp_text 64 ''%fld'' (into_bytes 8 bs) m)"

definition decode_fp_to_float :: "string \<Rightarrow> nat \<Rightarrow> libc \<Rightarrow> string option \<times> libc" where
  "decode_fp_to_float p len m =
     (if \<not> fp_digits_ok len 4 then (None, m)
      else case fp_bytes p len of None \<Rightarrow> (None, m) | Some bs \<Rightarrow> fp_text 64 ''%ff'' (into_bytes 4 bs) m)"

text \<open>\<open>ld\<close> is \<^verbatim>\<open>sizeof(long double)\<close>.\<close>

definition decode_fp_to_long_double :: "nat \<Rightarrow> string \<Rightarrow> nat \<Rightarrow> libc \<Rightarrow> string option \<times> libc" where
  "decode_fp_to_long_double ld p len m =
     (if \<not> fp_digits_ok len ld then (None, m)
      else case fp_bytes p len of None \<Rightarrow> (None, m) | Some bs \<Rightarrow> fp_text 256 ''%Lfd'' (into_bytes ld bs) m)"

definition decode_fp_to_float128 :: "nat \<Rightarrow> string \<Rightarrow> nat \<Rightarrow> libc \<Rightarrow> string option \<times> libc" where
  "decode_fp_to_float128 ld p len m =
     (if ld = FLOAT_QUADRUPLE_BYTES then decode_fp_to_long_double ld p len m
      else if ld = FLOAT_EXTENED_BYTES then
        if \<not> fp_digits_ok len FLOAT_QUADRUPLE_BYTES then (None, m)
        else case fp_bytes p len of
          None \<Rightarrow> (None, m)
        | Some bs \<Rightarrow> fp_text 256 ''%Lfd'' (take FLOAT_EXTENED_BYTES (into_bytes FLOAT_QUADRUPLE_BYTES bs)) m
      else (None, m))"

definition decode_fp_to_float80 :: "nat \<Rightarrow> string \<Rightarrow> nat \<Rightarrow> libc \<Rightarrow> string option \<times> libc" where
  "decode_fp_to_float80 ld p len m =
     (if ld = FLOAT_QUADRUPLE_BYTES then
        if \<not> fp_digits_ok len FLOAT_EXTENED_BYTES then (None, m)
        else case fp_bytes p len of
          None \<Rightarrow> (None, m)
        | Some bs \<Rightarrow> fp_text 256 ''%Lfd'' (into_bytes FLOAT_QUADRUPLE_BYTES (into_bytes FLOAT_EXTENED_BYTES bs)) m
      else if ld = FLOAT_EXTENED_BYTES then decode_fp_to_long_double ld p len m
      else (None, m))"

subsection \<open>The bytes are read back\<close>

text \<open>How a mangled name spells a value: two digits for each byte, the highest byte first.\<close>

definition hex_char :: "nat \<Rightarrow> char" where
  "hex_char d = ''0123456789abcdef'' ! d"

definition hex_text :: "nat list \<Rightarrow> string" where
  "hex_text bs = concat (map (\<lambda>b. [hex_char (b div 16), hex_char (b mod 16)]) (rev bs))"

lemma hex_to_dec_char: "d < 16 \<Longrightarrow> hex_to_dec (hex_char d) = int d"
proof -
  assume "d < 16"
  have "list_all (\<lambda>d. hex_to_dec (hex_char d) = int d) [0..<16]"
    by (simp add: upt_rec hex_to_dec_def hex_table_def hex_char_def upto.simps)
  with \<open>d < 16\<close> show ?thesis unfolding list_all_iff by simp
qed

lemma length_hex_text [simp]: "length (hex_text bs) = 2 * length bs"
  by (induction bs) (simp_all add: hex_text_def)

lemma hex_text_Cons: "hex_text (b # bs) = hex_text bs @ [hex_char (b div 16), hex_char (b mod 16)]"
  by (simp add: hex_text_def)

lemma fp_byte_hex_text:
  assumes "list_all (\<lambda>b. b < 256) bs" "i < length bs"
  shows "fp_byte (hex_text bs @ rest) (2 * length bs) i = int (bs ! i)"
  using assms
proof (induction bs arbitrary: i rest)
  case (Cons b bs)
  let ?r = "[hex_char (b div 16), hex_char (b mod 16)] @ rest"
  have b: "b div 16 < 16" "b mod 16 < 16" using Cons.prems by auto
  show ?case
  proof (cases i)
    case 0
    have "fp_byte (hex_text (b # bs) @ rest) (2 * length (b # bs)) 0 = hex_to_dec (hex_char (b mod 16)) + hex_to_dec (hex_char (b div 16)) * 16"
      by (simp add: fp_byte_def hex_text_Cons nth_append)
    then show ?thesis using b 0 by (simp add: hex_to_dec_char zdiv_int zmod_int)
  next
    case (Suc j)
    then have "fp_byte (hex_text bs @ ?r) (2 * length bs) j = int (bs ! j)" using Cons by simp
    moreover have "fp_byte (hex_text (b # bs) @ rest) (2 * length (b # bs)) (Suc j) = fp_byte (hex_text bs @ ?r) (2 * length bs) j"
      by (simp add: fp_byte_def hex_text_Cons diff_diff_eq)
    ultimately show ?thesis using Suc by simp
  qed
qed simp

lemma fp_bytes_hex_text:
  assumes "list_all (\<lambda>b. b < 256) bs"
  shows "fp_bytes (hex_text bs @ rest) (2 * length bs) = Some bs"
proof -
  have map: "map (fp_byte (hex_text bs @ rest) (2 * length bs)) [0..<length bs] = map int bs"
    using fp_byte_hex_text [OF assms] by (intro nth_equalityI) simp_all
  moreover have "\<not> list_ex (\<lambda>b. b < 0 \<or> b > 255) (map int bs)"
    using assms by (auto simp: list_ex_iff list_all_iff)
  ultimately show ?thesis by (simp add: fp_bytes_def Let_def o_def)
qed

subsection \<open>The buffer\<close>

text \<open>With memory, the seven buffers that are tried hold every text shorter than the last of them.\<close>

lemma grown_mono: "a \<le> b \<Longrightarrow> grown a \<le> grown b"
  unfolding grown_def by (simp add: div_le_mono)

lemma print_fp_spec:
  assumes "plenty m" "2 \<le> n"
  shows "fst (print_fp k n str m) = (if length str < (grown ^^ k) n then Some str else None)"
  using assms
proof (induction k arbitrary: n m)
  case 0
  obtain b m' where b: "malloc n m = (b, m')" by fastforce
  with malloc_plenty [OF b] 0 show ?case by simp
next
  case (Suc k)
  obtain b m' where b: "malloc n m = (b, m')" by fastforce
  have bm: "b" "plenty m'" using malloc_plenty [OF b] malloc_same [OF b] Suc.prems by simp_all
  have grown: "n < grown n" using grown_bigger [OF Suc.prems(2)] .
  have more: "n \<le> (grown ^^ j) n" for j
  proof (induction j)
    case (Suc j)
    with \<open>2 \<le> n\<close> show ?case using grown_bigger [of "(grown ^^ j) n"] by simp
  qed simp
  show ?case
  proof (cases "length str < n")
    case True
    then have "length str < (grown ^^ Suc k) n" using more [of "Suc k"] by linarith
    with True b bm show ?thesis by simp
  next
    case False
    with b bm Suc.IH [OF bm(2), of "grown n"] grown Suc.prems(2) show ?thesis by (simp add: funpow_swap1)
  qed
qed

lemma fp_text_spec:
  assumes "plenty m"
  shows "fst (fp_text 64 fmt bs m) = (if length (printed m fmt bs) < 1132 then Some (printed m fmt bs) else None)"
    "fst (fp_text 256 fmt bs m) = (if length (printed m fmt bs) < 4580 then Some (printed m fmt bs) else None)"
proof -
  have six: "FLOAT_SPRINTF_TRY_LIMIT + 1 = Suc (Suc (Suc (Suc (Suc (Suc 0)))))" by (simp add: FLOAT_SPRINTF_TRY_LIMIT_def)
  have "(grown ^^ Suc (Suc (Suc (Suc (Suc (Suc 0)))))) 64 = 1132" "(grown ^^ Suc (Suc (Suc (Suc (Suc (Suc 0)))))) 256 = 4580"
    by (simp_all add: grown_def)
  then show "fst (fp_text 64 fmt bs m) = (if length (printed m fmt bs) < 1132 then Some (printed m fmt bs) else None)"
    "fst (fp_text 256 fmt bs m) = (if length (printed m fmt bs) < 4580 then Some (printed m fmt bs) else None)"
    unfolding fp_text_def six by (simp_all only: print_fp_spec [OF assms])
qed

end
