(* ===== verification/Dem_State.thy ===== *)
theory Dem_State
  imports Dem_Float String_Numbers
begin

text \<open>
  The state of the demangler (\<^verbatim>\<open>struct cpp_demangle_data\<close> of \<^verbatim>\<open>libelftc_dem_gnu3.c\<close>), the cursor into the mangled name, the
  functions that append to the output and to the substitutions, and the readers that call no other: numbers, source
  names, offsets and references to substitutions and template parameters.
\<close>

subsection \<open>The state\<close>

text \<open>
  \<^verbatim>\<open>last_sname\<close> points to a literal or to a string the array \<^verbatim>\<open>output\<close> owns: the index of that string, and a pointer to
  freed memory once it has been popped.
\<close>

datatype name_ptr = Null_Name | Literal string | In_Output nat | Dangling

text \<open>
  \<^verbatim>\<open>cur\<close> is what the pointer still has in front of it up to the terminator, or nothing once it has moved past that.
  Mangled names hold no zero characters.
\<close>

record cpp_demangle_data =
  d_output :: vector_str
  d_output_tmp :: vector_str
  d_subst :: vector_str
  d_tmpl :: vector_str
  d_class_type :: vector_str
  d_cmd :: vector_read_cmd
  d_paren :: bool
  d_pfirst :: bool
  d_mem_rst :: bool
  d_mem_vat :: bool
  d_mem_cst :: bool
  d_func_type :: nat
  d_cur :: "string option"
  d_last_sname :: name_ptr
  d_push_head :: nat
  d_libc :: libc

type_synonym dd = cpp_demangle_data
type_synonym reader = "dd act"

definition CPP_DEMANGLE_TRY_LIMIT :: nat where "CPP_DEMANGLE_TRY_LIMIT = 128"

text \<open>A loop that leaves with \<^verbatim>\<open>limit++ > CPP_DEMANGLE_TRY_LIMIT\<close> runs its body this often.\<close>

definition TRIES :: nat where "TRIES = CPP_DEMANGLE_TRY_LIMIT + 2"

abbreviation NUL :: char where "NUL \<equiv> CHR 0x00"

subsection \<open>The cursor\<close>

definition cur_at :: "nat \<Rightarrow> dd \<Rightarrow> char option" where
  "cur_at k s =
     (case d_cur s of
        None \<Rightarrow> None
      | Some w \<Rightarrow> if k < length w then Some (w ! k) else if k = length w then Some NUL else None)"

text \<open>\<^verbatim>\<open>*(ddata->cur + k)\<close>.\<close>

definition look :: "nat \<Rightarrow> (char \<Rightarrow> reader) \<Rightarrow> reader" where
  "look k g s = (case cur_at k s of None \<Rightarrow> Undefined | Some c \<Rightarrow> g c s)"

definition moved_on :: "nat \<Rightarrow> string option \<Rightarrow> string option" where
  "moved_on k w = (case w of None \<Rightarrow> None | Some w \<Rightarrow> if k \<le> length w then Some (drop k w) else None)"

text \<open>\<^verbatim>\<open>ddata->cur += k\<close>.\<close>

definition skip :: "nat \<Rightarrow> reader" where
  "skip k = upd (\<lambda>s. s\<lparr>d_cur := moved_on k (d_cur s)\<rparr>)"

text \<open>\<^verbatim>\<open>while (*ddata->cur != c) ++ddata->cur;\<close> runs out of the string if there is no \<open>c\<close>.\<close>

definition skip_until :: "char \<Rightarrow> reader" where
  "skip_until c s =
     (case d_cur s of
        Some w \<Rightarrow> if c \<in> set w then yes (s\<lparr>d_cur := Some (dropWhile (\<lambda>x. x \<noteq> c) w)\<rparr>) else Undefined
      | None \<Rightarrow> Undefined)"

definition skip_digits :: reader where
  "skip_digits s =
     (case d_cur s of Some w \<Rightarrow> yes (s\<lparr>d_cur := Some (dropWhile is_digit w)\<rparr>) | None \<Rightarrow> Undefined)"

text \<open>The string at the cursor, for a call that is given the pointer.\<close>

definition at_cur :: "(string \<Rightarrow> reader) \<Rightarrow> reader" where
  "at_cur g s = (case d_cur s of Some w \<Rightarrow> g w s | None \<Rightarrow> Undefined)"

text \<open>\<^verbatim>\<open>SIMPLE_HASH\<close> of two characters, which are signed. A \<^verbatim>\<open>switch\<close> on it compares hashes, not characters.\<close>

definition schar :: "char \<Rightarrow> int" where
  "schar c = (let n = of_char c :: nat in if n < 128 then int n else int n - 256)"

definition SIMPLE_HASH :: "char \<Rightarrow> char \<Rightarrow> int" where
  "SIMPLE_HASH x y = 64 * schar x + schar y"

definition hash_of :: "string \<Rightarrow> int" where
  "hash_of k = SIMPLE_HASH (k ! 0) (k ! 1)"

definition switch_on :: "(string \<times> 'a) list \<Rightarrow> int \<Rightarrow> 'a option" where
  "switch_on t h = map_of (map (\<lambda>(k, a). (hash_of k, a)) t) h"

definition look2 :: "(int \<Rightarrow> reader) \<Rightarrow> reader" where
  "look2 g = look 0 (\<lambda>c. look 1 (\<lambda>d. g (SIMPLE_HASH c d)))"

subsection \<open>Arrays of the state\<close>

definition on_output :: "(vector_str \<times> libc) act \<Rightarrow> reader" where
  "on_output f s = run_bind (f (d_output s, d_libc s)) (\<lambda>(b, v, m). Done (b, s\<lparr>d_output := v, d_libc := m\<rparr>))"

definition on_output_tmp :: "(vector_str \<times> libc) act \<Rightarrow> reader" where
  "on_output_tmp f s = run_bind (f (d_output_tmp s, d_libc s)) (\<lambda>(b, v, m). Done (b, s\<lparr>d_output_tmp := v, d_libc := m\<rparr>))"

definition on_subst :: "(vector_str \<times> libc) act \<Rightarrow> reader" where
  "on_subst f s = run_bind (f (d_subst s, d_libc s)) (\<lambda>(b, v, m). Done (b, s\<lparr>d_subst := v, d_libc := m\<rparr>))"

definition on_tmpl :: "(vector_str \<times> libc) act \<Rightarrow> reader" where
  "on_tmpl f s = run_bind (f (d_tmpl s, d_libc s)) (\<lambda>(b, v, m). Done (b, s\<lparr>d_tmpl := v, d_libc := m\<rparr>))"

definition on_class_type :: "(vector_str \<times> libc) act \<Rightarrow> reader" where
  "on_class_type f s = run_bind (f (d_class_type s, d_libc s)) (\<lambda>(b, v, m). Done (b, s\<lparr>d_class_type := v, d_libc := m\<rparr>))"

definition on_cmd :: "(vector_read_cmd \<times> libc) act \<Rightarrow> reader" where
  "on_cmd f s = run_bind (f (d_cmd s, d_libc s)) (\<lambda>(b, v, m). Done (b, s\<lparr>d_cmd := v, d_libc := m\<rparr>))"

text \<open>\<^verbatim>\<open>vector_read_cmd_pop(&ddata->cmd)\<close>, and \<^verbatim>\<open>vector_str_pop(&ddata->output)\<close>, which frees the string popped.\<close>

definition pop_cmd :: reader where
  "pop_cmd s = (case vector_read_cmd_pop (d_cmd s) of (b, v) \<Rightarrow> Done (b, s\<lparr>d_cmd := v\<rparr>))"

definition pop_output :: "dd \<Rightarrow> dd" where
  "pop_output s =
     s\<lparr>d_output := vector_str_pop (d_output s),
       d_last_sname := (if 0 < vec_size (d_output s) \<and> d_last_sname s = In_Output (vec_size (d_output s) - 1) then Dangling
                        else d_last_sname s)\<rparr>"

text \<open>\<^verbatim>\<open>vector_str *output\<close> of many functions is the one or the other array, as \<^verbatim>\<open>push_head\<close> was at some moment.\<close>

definition heading :: "dd \<Rightarrow> bool" where
  "heading s \<longleftrightarrow> d_push_head s > 0"

definition out :: "bool \<Rightarrow> dd \<Rightarrow> vector_str" where
  "out tmp s = (if tmp then d_output_tmp s else d_output s)"

text \<open>\<^verbatim>\<open>vector_str_substr(output, p_idx, output->size - 1, &len)\<close>, and the other calls that answer a string or an array.\<close>

definition with_substr :: "bool \<Rightarrow> nat \<Rightarrow> (string \<Rightarrow> reader) \<Rightarrow> reader" where
  "with_substr tmp p_idx k = getting
     (\<lambda>s. run_bind (vector_str_substr (out tmp s) p_idx (vec_size (out tmp s)) (d_libc s)) (\<lambda>(r, m). Done (r, s\<lparr>d_libc := m\<rparr>)))
     (\<lambda>r. case r of None \<Rightarrow> no | Some x \<Rightarrow> k x)"

definition with_flat :: "vector_str \<Rightarrow> (string \<Rightarrow> reader) \<Rightarrow> reader" where
  "with_flat v k = getting
     (\<lambda>s. run_bind (vector_str_get_flat v (d_libc s)) (\<lambda>(r, m). Done (r, s\<lparr>d_libc := m\<rparr>)))
     (\<lambda>r. case r of None \<Rightarrow> no | Some x \<Rightarrow> k x)"

definition with_init :: "(vector_str \<Rightarrow> reader) \<Rightarrow> reader" where
  "with_init k = getting
     (\<lambda>s. case vector_str_init (d_libc s) of (b, v, m) \<Rightarrow> Done ((b, v), s\<lparr>d_libc := m\<rparr>))
     (\<lambda>(b, v). if b then k v else no)"

definition with_push :: "vector_str \<Rightarrow> string \<Rightarrow> nat \<Rightarrow> (vector_str \<Rightarrow> reader) \<Rightarrow> reader" where
  "with_push v x n k = getting
     (\<lambda>s. run_bind (vector_str_push x n (v, d_libc s)) (\<lambda>(b, v', m). Done ((b, v'), s\<lparr>d_libc := m\<rparr>)))
     (\<lambda>(b, v'). if b then k v' else no)"

text \<open>\<^verbatim>\<open>malloc\<close> for a copy that is only used to pass it on.\<close>

definition with_malloc :: "nat \<Rightarrow> reader \<Rightarrow> reader" where
  "with_malloc n k = getting (\<lambda>s. case malloc n (d_libc s) of (b, m) \<Rightarrow> Done (b, s\<lparr>d_libc := m\<rparr>)) (\<lambda>b. if b then k else no)"

subsection \<open>Appending\<close>

definition cpp_demangle_push_str :: "string \<Rightarrow> nat \<Rightarrow> reader" where
  "cpp_demangle_push_str str len s =
     (if len = 0 then no s
      else if d_push_head s > 0 then on_output_tmp (vector_str_push str len) s
      else on_output (vector_str_push str len) s)"

text \<open>The usual call: all of a literal.\<close>

abbreviation push_lit :: "string \<Rightarrow> reader" where
  "push_lit str \<equiv> cpp_demangle_push_str str (length str)"

definition cpp_demangle_push_subst :: "string \<Rightarrow> nat \<Rightarrow> reader" where
  "cpp_demangle_push_subst str len s =
     (if len = 0 then no s
      else run_bind (vector_str_find (d_subst s) str len) (\<lambda>found.
        if \<not> found then on_subst (vector_str_push str len) s else yes s))"

definition cpp_demangle_push_subst_v :: "vector_str \<Rightarrow> reader" where
  "cpp_demangle_push_subst_v v = with_flat v (\<lambda>str. cpp_demangle_push_subst str (length str))"

text \<open>Whatever the decoder finds, the answer is 0.\<close>

definition cpp_demangle_push_fp :: "(string \<Rightarrow> nat \<Rightarrow> libc \<Rightarrow> string option \<times> libc) \<Rightarrow> reader" where
  "cpp_demangle_push_fp decoder =
     at_cur (\<lambda>fp. all_of
       [skip_until (CHR ''E''), skip 1,
        getting (\<lambda>s. case decoder fp (length (takeWhile (\<lambda>x. x \<noteq> CHR ''E'') fp) + 1) (d_libc s) of (f, m) \<Rightarrow> Done (f, s\<lparr>d_libc := m\<rparr>))
          (\<lambda>f. case f of
             None \<Rightarrow> no
           | Some f \<Rightarrow> (\<lambda>s. run_bind (if length f > 0 then cpp_demangle_push_str f (length f) s else no s) (\<lambda>(_, s'). no s')))])"

text \<open>
  The text of a qualifier. The one of a vendor's qualifier is built in a buffer without room for a terminator, and
  \<^verbatim>\<open>snprintf\<close> reads on behind it.
\<close>

primrec qualifier_text :: "type_qualifier \<Rightarrow> string option" where
  "qualifier_text TYPE_PTR = Some ''*''"
| "qualifier_text TYPE_REF = Some ''&''"
| "qualifier_text TYPE_CMX = Some '' complex''"
| "qualifier_text TYPE_IMG = Some '' imaginary''"
| "qualifier_text TYPE_EXT = None"
| "qualifier_text TYPE_RST = Some '' restrict''"
| "qualifier_text TYPE_VAT = Some '' volatile''"
| "qualifier_text TYPE_CST = Some '' const''"

definition push_ext_name :: "vector_str \<Rightarrow> nat \<Rightarrow> reader" where
  "push_ext_name ext e_idx s =
     (if vec_size ext \<noteq> 0 \<and> e_idx > vec_size ext - 1 then no s
      else run_bind (slot_at ext e_idx) (\<lambda>name.
        if length name = 0 then no s else with_malloc (length name + 1) (\<lambda>_. Undefined) s))"

text \<open>
  The loop over the qualifiers, from the last read to the first; \<open>subst_v\<close> collects the type's text if the caller wants
  the qualified types among the substitutions.
\<close>

primrec push_qualifiers :: "vector_str \<Rightarrow> vector_str option \<Rightarrow> type_qualifier list \<Rightarrow> reader" where
  "push_qualifiers ext subst_v [] = yes"
| "push_qualifiers ext subst_v (q # qs) =
     (case qualifier_text q of
        None \<Rightarrow> push_ext_name ext 0
      | Some t \<Rightarrow> andthen (push_lit t)
          (case subst_v of
             None \<Rightarrow> push_qualifiers ext None qs
           | Some v \<Rightarrow> with_push v t (length t)
               (\<lambda>v'. andthen (cpp_demangle_push_subst_v v') (push_qualifiers ext (Some v') qs))))"

definition cpp_demangle_push_type_qualifier :: "vector_type_qualifier \<Rightarrow> string option \<Rightarrow> reader" where
  "cpp_demangle_push_type_qualifier v type_str =
     (if vec_size (quals v) = 0 then yes
      else case type_str of
        None \<Rightarrow> push_qualifiers (ext_name v) None (rev (vec_list (quals v)))
      | Some t \<Rightarrow> with_init (\<lambda>subst_v. with_push subst_v t (length t)
          (\<lambda>subst_v. push_qualifiers (ext_name v) (Some subst_v) (rev (vec_list (quals v))))))"

subsection \<open>References\<close>

definition push_slot :: "vector_str \<Rightarrow> nat \<Rightarrow> reader" where
  "push_slot v idx s =
     (if vec_size v \<le> idx then no s
      else run_bind (slot_at v idx) (\<lambda>x. if length x = 0 then no s else all_of [push_lit x, skip 1] s))"

definition cpp_demangle_get_subst :: "nat \<Rightarrow> reader" where
  "cpp_demangle_get_subst idx = reading d_subst (\<lambda>v. push_slot v idx)"

definition cpp_demangle_get_tmpl_param :: "nat \<Rightarrow> reader" where
  "cpp_demangle_get_tmpl_param idx = reading d_tmpl (\<lambda>v. push_slot v idx)"

text \<open>
  \<^verbatim>\<open>_\<close> is the first, \<^verbatim>\<open>0_\<close> the second, and so on in base 36; the number goes to \<open>get\<close> as a \<^verbatim>\<open>size_t\<close>. A number that is too
  large is read as the largest \<^verbatim>\<open>long\<close>, which has no successor.
\<close>

definition numbered :: "(nat \<Rightarrow> reader) \<Rightarrow> reader" where
  "numbered get = look 0 (\<lambda>c.
     if c = CHR ''_'' then get 0
     else at_cur (\<lambda>w. case strtol 36 (units_of w) of (i, _, errno) \<Rightarrow>
       if i = 0 \<and> errno \<noteq> 0 then no
       else if i = 2 ^ 63 - 1 then (\<lambda>_. Undefined)
       else all_of [skip_until (CHR ''_''), assertion (i + 1 > 0), get (nat (i + 1))]))"

definition cpp_demangle_read_tmpl_param :: reader where
  "cpp_demangle_read_tmpl_param = look 0 (\<lambda>c.
     if c \<noteq> CHR ''T'' then no else all_of [skip 1, numbered cpp_demangle_get_tmpl_param])"

subsection \<open>Numbers, names and offsets\<close>

definition cpp_demangle_read_number :: "dd \<Rightarrow> (int option \<times> dd) run" where
  "cpp_demangle_read_number s =
     (case cur_at 0 s of
        None \<Rightarrow> Undefined
      | Some c \<Rightarrow>
          let negative_factor = (if c = CHR ''n'' then - 1 else 1);
              s1 = (if c = CHR ''n'' then s\<lparr>d_cur := moved_on 1 (d_cur s)\<rparr> else s) in
          case d_cur s1 of
            None \<Rightarrow> Undefined
          | Some w \<Rightarrow>
              if w = [] \<or> \<not> is_digit (hd w) then Done (None, s1)
              else case strtol 10 (units_of w) of (len, _, errno) \<Rightarrow>
                if len = 0 \<and> errno \<noteq> 0 then Done (None, s1)
                else if \<not> len \<ge> 0 then Aborted
                else Done (Some (len * negative_factor), s1\<lparr>d_cur := Some (dropWhile is_digit w)\<rparr>))"

text \<open>Outside of template arguments the name becomes the one that constructors have.\<close>

definition note_last_sname :: reader where
  "note_last_sname = reading (\<lambda>s. vec_size (d_output s)) (\<lambda>n. all_of
     [assertion (n > 0),
      upd (\<lambda>s. if vector_read_cmd_find (d_cmd s) READ_TMPL = 0 then s\<lparr>d_last_sname := In_Output (n - 1)\<rparr> else s)])"

definition cpp_demangle_read_sname :: reader where
  "cpp_demangle_read_sname = getting cpp_demangle_read_number (\<lambda>r.
     case r of
       None \<Rightarrow> no
     | Some len \<Rightarrow>
         if len \<le> 0 then no
         else all_of [at_cur (\<lambda>w. cpp_demangle_push_str w (nat len)), note_last_sname, skip (nat len)])"

definition cpp_demangle_read_offset_number :: reader where
  "cpp_demangle_read_offset_number = look 0 (\<lambda>c.
     if c = NUL then no
     else at_cur (\<lambda>w.
       let negative = (c = CHR ''n''); start = (if negative then drop 1 w else w) in
       all_of
         [skip_until (CHR ''_''), if_so negative (push_lit ''-''),
          cpp_demangle_push_str start (length (takeWhile (\<lambda>x. x \<noteq> CHR ''_'') start)),
          push_lit '' '', skip 1]))"

definition cpp_demangle_read_nv_offset :: reader where
  "cpp_demangle_read_nv_offset = all_of [push_lit ''offset : '', cpp_demangle_read_offset_number]"

text \<open>The last answer is negated.\<close>

definition cpp_demangle_read_v_offset :: reader where
  "cpp_demangle_read_v_offset = all_of
     [push_lit ''offset : '', cpp_demangle_read_offset_number, push_lit ''virtual offset : '',
      (\<lambda>s. run_bind (cpp_demangle_read_offset_number s) (\<lambda>(b, s'). Done (\<not> b, s')))]"

definition cpp_demangle_read_offset :: reader where
  "cpp_demangle_read_offset = look 0 (\<lambda>c.
     if c = CHR ''h'' then all_of [skip 1, cpp_demangle_read_nv_offset]
     else if c = CHR ''v'' then all_of [skip 1, cpp_demangle_read_v_offset]
     else no)"

text \<open>The string \<^verbatim>\<open>last_sname\<close> points to; \<^verbatim>\<open>NULL\<close> and an empty name are refused.\<close>

definition with_last_sname :: "(string \<Rightarrow> reader) \<Rightarrow> reader" where
  "with_last_sname k s =
     (case d_last_sname s of
        Null_Name \<Rightarrow> no s
      | Literal x \<Rightarrow> if length x = 0 then no s else k x s
      | In_Output i \<Rightarrow> run_bind (slot_at (d_output s) i) (\<lambda>x. if length x = 0 then no s else k x s)
      | Dangling \<Rightarrow> Undefined)"

subsection \<open>Creation\<close>

text \<open>The arrays are created in this order; a refusal ends it.\<close>

definition cpp_demangle_data_init :: "string \<Rightarrow> libc \<Rightarrow> dd option \<times> libc" where
  "cpp_demangle_data_init cur m0 =
     (case vector_str_init m0 of (b1, output, m1) \<Rightarrow> if \<not> b1 then (None, m1) else
      case vector_str_init m1 of (b2, output_tmp, m2) \<Rightarrow> if \<not> b2 then (None, m2) else
      case vector_str_init m2 of (b3, subst, m3) \<Rightarrow> if \<not> b3 then (None, m3) else
      case vector_str_init m3 of (b4, tmpl, m4) \<Rightarrow> if \<not> b4 then (None, m4) else
      case vector_str_init m4 of (b5, class_type, m5) \<Rightarrow> if \<not> b5 then (None, m5) else
      case vector_read_cmd_init m5 of (b6, cmd, m6) \<Rightarrow> if \<not> b6 then (None, m6) else
      (Some \<lparr>d_output = output, d_output_tmp = output_tmp, d_subst = subst, d_tmpl = tmpl, d_class_type = class_type,
             d_cmd = cmd, d_paren = False, d_pfirst = False, d_mem_rst = False, d_mem_vat = False, d_mem_cst = False,
             d_func_type = 0, d_cur = Some cur, d_last_sname = Null_Name, d_push_head = 0, d_libc = m6\<rparr>, m6))"

end
