(* ===== verification/Dem_Tables.thy ===== *)
theory Dem_Tables
  imports Dem_State
begin

text \<open>
  The two \<^verbatim>\<open>switch\<close> statements over operator codes (\<^verbatim>\<open>libelftc_dem_gnu3.c\<close>): how an operator is written in an expression,
  and the name of the operator function. The labels are hashes of the two letters of a code, and the theory shows that
  no two labels of a statement are the same, as C requires, and which other letters have the hash of a code.
\<close>

datatype op_form = Binary string | Unary string | Trinary string string

text \<open>Cases \<^verbatim>\<open>aa\<close> to \<^verbatim>\<open>lt\<close> and \<^verbatim>\<open>mi\<close> to \<^verbatim>\<open>sv\<close> of \<^verbatim>\<open>cpp_demangle_read_expression\<close>; \<^verbatim>\<open>co\<close> and \<^verbatim>\<open>nt\<close> are read as binary there.\<close>

definition expression_ops_1 :: "(string \<times> op_form) list" where
  "expression_ops_1 =
    [(''aa'', Binary ''&&''), (''ad'', Unary ''&''), (''an'', Binary ''&''), (''aN'', Binary ''&=''),
     (''aS'', Binary ''=''), (''cl'', Binary ''()''), (''cm'', Binary '',''), (''co'', Binary ''~''),
     (''cv'', Binary ''(cast)''), (''da'', Unary ''delete []''), (''de'', Unary ''*''), (''dl'', Unary ''delete''),
     (''dv'', Binary ''/''), (''dV'', Binary ''/=''), (''eo'', Binary ''^''), (''eO'', Binary ''^=''),
     (''eq'', Binary ''==''), (''ge'', Binary ''>=''), (''gt'', Binary ''>''), (''ix'', Binary ''[]''),
     (''le'', Binary ''<=''), (''ls'', Binary ''<<''), (''lS'', Binary ''<<=''), (''lt'', Binary ''<'')]"

definition expression_ops_2 :: "(string \<times> op_form) list" where
  "expression_ops_2 =
    [(''mi'', Binary ''-''), (''mI'', Binary ''-=''), (''ml'', Binary ''*''), (''mL'', Binary ''*=''),
     (''mm'', Binary ''--''), (''na'', Unary ''new []''), (''ne'', Binary ''!=''), (''ng'', Unary ''-''),
     (''nt'', Binary ''!''), (''nw'', Unary ''new''), (''oo'', Binary ''||''), (''or'', Binary ''|''),
     (''oR'', Binary ''|=''), (''pl'', Binary ''+''), (''pL'', Binary ''+=''), (''pm'', Binary ''->*''),
     (''pp'', Binary ''++''), (''ps'', Unary ''+''), (''pt'', Binary ''->''), (''rm'', Binary ''%''),
     (''rM'', Binary ''%=''), (''rs'', Binary ''>>''), (''rS'', Binary ''>>=''), (''rz'', Unary ''sizeof''),
     (''sv'', Unary ''sizeof''), (''qu'', Trinary ''?'' '':'')]"

definition expression_ops :: "(string \<times> op_form) list" where
  "expression_ops = expression_ops_1 @ expression_ops_2"

text \<open>Cases \<^verbatim>\<open>aa\<close> to \<^verbatim>\<open>eq\<close>, \<^verbatim>\<open>ge\<close> to \<^verbatim>\<open>nw\<close> and \<^verbatim>\<open>oo\<close> to \<^verbatim>\<open>sv\<close> of \<^verbatim>\<open>cpp_demangle_read_uqname\<close>.\<close>

definition operator_names_1 :: "(string \<times> string) list" where
  "operator_names_1 =
    [(''aa'', ''operator&&''), (''ad'', ''operator&''), (''an'', ''operator&''), (''aN'', ''operator&=''),
     (''aS'', ''operator=''), (''cl'', ''operator()''), (''cm'', ''operator,''), (''co'', ''operator~''),
     (''cv'', ''operator(cast)''), (''da'', ''operator delete []''), (''de'', ''operator*''),
     (''dl'', ''operator delete''), (''dv'', ''operator/''), (''dV'', ''operator/=''), (''eo'', ''operator^''),
     (''eO'', ''operator^=''), (''eq'', ''operator=='')]"

definition operator_names_2 :: "(string \<times> string) list" where
  "operator_names_2 =
    [(''ge'', ''operator>=''), (''gt'', ''operator>''), (''ix'', ''operator[]''), (''le'', ''operator<=''),
     (''ls'', ''operator<<''), (''lS'', ''operator<<=''), (''lt'', ''operator<''), (''mi'', ''operator-''),
     (''mI'', ''operator-=''), (''ml'', ''operator*''), (''mL'', ''operator*=''), (''mm'', ''operator--''),
     (''na'', ''operator new []''), (''ne'', ''operator!=''), (''ng'', ''operator-''), (''nt'', ''operator!''),
     (''nw'', ''operator new'')]"

definition operator_names_3 :: "(string \<times> string) list" where
  "operator_names_3 =
    [(''oo'', ''operator||''), (''or'', ''operator|''), (''oR'', ''operator|=''), (''pl'', ''operator+''),
     (''pL'', ''operator+=''), (''pm'', ''operator->*''), (''pp'', ''operator++''), (''ps'', ''operator+''),
     (''pt'', ''operator->''), (''qu'', ''operator?''), (''rm'', ''operator%''), (''rM'', ''operator%=''),
     (''rs'', ''operator>>''), (''rS'', ''operator>>=''), (''rz'', ''operator sizeof ''),
     (''sr'', ''scope resolution operator ''), (''sv'', ''operator sizeof '')]"

definition operator_names :: "(string \<times> string) list" where
  "operator_names = operator_names_1 @ operator_names_2 @ operator_names_3"

lemmas tables = expression_ops_def expression_ops_1_def expression_ops_2_def
  operator_names_def operator_names_1_def operator_names_2_def operator_names_3_def

text \<open>The types that are one letter, with the length that is passed for each text.\<close>

definition builtin_types :: "(char \<times> string \<times> nat) list" where
  "builtin_types =
    [(CHR ''a'', ''signed char'', 11), (CHR ''b'', ''bool'', 4), (CHR ''c'', ''char'', 4), (CHR ''d'', ''double'', 6),
     (CHR ''e'', ''long double'', 11), (CHR ''f'', ''float'', 5), (CHR ''g'', ''__float128'', 10),
     (CHR ''h'', ''unsigned char'', 13), (CHR ''i'', ''int'', 3), (CHR ''j'', ''unsigned int'', 12),
     (CHR ''l'', ''long'', 4), (CHR ''m'', ''unsigned long'', 13), (CHR ''n'', ''__int128'', 8),
     (CHR ''o'', ''unsigned _;int128'', 17), (CHR ''s'', ''short'', 5), (CHR ''t'', ''unsigned short'', 14),
     (CHR ''v'', ''void'', 4), (CHR ''w'', ''wchar_t'', 6), (CHR ''x'', ''long long'', 9),
     (CHR ''y'', ''unsigned long long'', 18), (CHR ''z'', ''ellipsis'', 8)]"

definition qualifier_letters :: "(char \<times> type_qualifier) list" where
  "qualifier_letters =
    [(CHR ''C'', TYPE_CMX), (CHR ''G'', TYPE_IMG), (CHR ''K'', TYPE_CST), (CHR ''P'', TYPE_PTR), (CHR ''r'', TYPE_RST),
     (CHR ''R'', TYPE_REF), (CHR ''V'', TYPE_VAT)]"

text \<open>The abbreviations with the text, the length that is passed for it, and what \<^verbatim>\<open>last_sname\<close> becomes.\<close>

definition std_names :: "(string \<times> string \<times> nat \<times> string option) list" where
  "std_names =
    [(''Sa'', ''std::allocator'', 14, None), (''Sb'', ''std::basic_string'', 17, None),
     (''Sd'', ''std::iostream'', 19, Some ''iostream''), (''Si'', ''std::istream'', 18, Some ''istream''),
     (''So'', ''std::ostream'', 18, Some ''istream''), (''Ss'', ''std::string'', 11, Some ''string'')]"

subsection \<open>Hashes\<close>

lemma schar_bounds: "- 128 \<le> schar c" "schar c \<le> 127"
proof -
  define n :: nat where "n = of_char c"
  have "n < 256" unfolding n_def by simp
  then show "- 128 \<le> schar c" "schar c \<le> 127" unfolding schar_def Let_def n_def [symmetric] by auto
qed

lemma switch_on_None: "h \<notin> hash_of ` fst ` set t \<Longrightarrow> switch_on t h = None"
  by (force simp: switch_on_def map_of_eq_None_iff)

text \<open>The labels of each \<^verbatim>\<open>switch\<close> differ, and every one of them lies above the hashes of what begins with a digit.\<close>

lemmas hash_simps = hash_of_def SIMPLE_HASH_def schar_def

lemma labels_distinct:
  "distinct (map (hash_of \<circ> fst) expression_ops @ map hash_of [''st'', ''sr''])"
  "distinct (map (hash_of \<circ> fst) operator_names)"
  "distinct (map (hash_of \<circ> fst) std_names @ [hash_of ''St''])"
  by (simp_all add: tables std_names_def hash_simps)

lemma labels_above: "list_all (\<lambda>(k, t). 4000 < hash_of k) operator_names"
  by (simp add: tables hash_simps)

lemma digit_hash: "is_digit c \<Longrightarrow> SIMPLE_HASH c d < 4000"
proof -
  assume "is_digit c"
  then have "schar c \<le> 57" by (auto simp: is_digit_def schar_def Let_def)
  with schar_bounds(2) [of d] show ?thesis unfolding SIMPLE_HASH_def by linarith
qed

lemma digit_no_operator: "is_digit c \<Longrightarrow> switch_on operator_names (SIMPLE_HASH c d) = None"
  using labels_above digit_hash [of c d] by (intro switch_on_None) (auto simp: list_all_iff)

end
