(* ===== verification/Dem_Read.thy ===== *)
theory Dem_Read
  imports Dem_Tables
begin

text \<open>
  The recursive readers of the demangler (\<^verbatim>\<open>libelftc_dem_gnu3.c\<close>) and \<^verbatim>\<open>__cxa_demangle_gnu3\<close>. The functions call each other in
  circles, all of which go through four of them: types, expressions, encodings and names. The others are written with
  these four as an argument, and the circle is closed by the number of nested calls that is allowed.
\<close>

datatype part = Part_type bool | Part_expression | Part_encoding | Part_name

type_synonym calls = "part \<Rightarrow> reader"

subsection \<open>Unqualified names\<close>

definition read_ctor_dtor :: "string \<Rightarrow> reader" where
  "read_ctor_dtor prefix = with_last_sname (\<lambda>name. all_of [push_lit prefix, push_lit name, skip 2])"

definition cpp_demangle_read_uqname :: "calls \<Rightarrow> reader" where
  "cpp_demangle_read_uqname call = look 0 (\<lambda>c.
     if c = NUL then no
     else look2 (\<lambda>h. case switch_on operator_names h of
       Some t \<Rightarrow> all_of [push_lit t, skip 2, if_so (h = hash_of ''cv'') (call (Part_type True))]
     | None \<Rightarrow> look 1 (\<lambda>d.
         if c = CHR ''v'' \<and> is_digit d then
           all_of [push_lit ''vendor extened operator '', cpp_demangle_push_str [d] 1, skip 2, cpp_demangle_read_sname]
         else if h \<in> set (map hash_of [''C1'', ''C2'', ''C3'']) then read_ctor_dtor ''::''
         else if h \<in> set (map hash_of [''D0'', ''D1'', ''D2'']) then read_ctor_dtor ''::~''
         else if is_digit c then cpp_demangle_read_sname
         else yes)))"

subsection \<open>Literals and template arguments\<close>

definition sizeof_long_double :: nat where "sizeof_long_double = 16"

definition int_literals :: string where "int_literals = ''ijlmnstxy''"

text \<open>\<^verbatim>\<open>while (*cur != 'E') { if (!ELFTC_ISDIGIT(*cur)) return 0; ++cur; } ++cur;\<close>: the \<^verbatim>\<open>E\<close> is pushed with the digits.\<close>

definition read_int_literal :: reader where
  "read_int_literal = look 0 (\<lambda>c. all_of
     [if_so (c = CHR ''n'') (all_of [push_lit ''-'', skip 1]),
      at_cur (\<lambda>num. all_of
        [skip_digits, look 0 (\<lambda>e. need (e = CHR ''E'')), skip 1,
         cpp_demangle_push_str num (length (takeWhile is_digit num) + 1)])])"

definition cpp_demangle_read_expr_primary :: "calls \<Rightarrow> reader" where
  "cpp_demangle_read_expr_primary call = all_of [skip 1, look 0 (\<lambda>c.
     if c = NUL then no
     else look 1 (\<lambda>d.
       if c = CHR ''_'' \<and> d = CHR ''Z'' then
         all_of [skip 2, look 0 (\<lambda>e. need (e \<noteq> NUL)), call Part_encoding, skip 1]
       else if c = CHR ''b'' then all_of [skip 1, look 0 (\<lambda>e.
           if e = CHR ''0'' then push_lit ''false'' else if e = CHR ''1'' then push_lit ''true'' else no)]
       else if c = CHR ''d'' then all_of [skip 1, cpp_demangle_push_fp decode_fp_to_double]
       else if c = CHR ''e'' then all_of [skip 1, cpp_demangle_push_fp
           (if sizeof_long_double = 10 then decode_fp_to_double else decode_fp_to_float80 sizeof_long_double)]
       else if c = CHR ''f'' then all_of [skip 1, cpp_demangle_push_fp decode_fp_to_float]
       else if c = CHR ''g'' then all_of [skip 1, cpp_demangle_push_fp
           (if sizeof_long_double = 16 then decode_fp_to_double else decode_fp_to_float128 sizeof_long_double)]
       else if c \<in> set int_literals then all_of [skip 1, read_int_literal]
       else no))]"

definition cpp_demangle_read_tmpl_arg :: "calls \<Rightarrow> reader" where
  "cpp_demangle_read_tmpl_arg call = look 0 (\<lambda>c.
     if c = NUL then no
     else if c = CHR ''L'' then cpp_demangle_read_expr_primary call
     else if c = CHR ''X'' then call Part_expression
     else call (Part_type False))"

text \<open>The argument's text joins the template arguments seen, unless one of them begins with it.\<close>

definition push_tmpl :: "string \<Rightarrow> reader" where
  "push_tmpl arg s = run_bind (vector_str_find (d_tmpl s) arg (length arg)) (\<lambda>found.
     if found then yes s else on_tmpl (vector_str_push arg (length arg)) s)"

text \<open>\<^verbatim>\<open>!strncmp(v->container[size - 1], ">", 1)\<close>; the array must not be empty.\<close>

definition ends_in_template :: "vector_str \<Rightarrow> bool run" where
  "ends_in_template v = run_bind (slot_at v (vec_size v - 1)) (\<lambda>x. Done (strncmp_eq x ''>'' 1))"

definition close_template :: "bool \<Rightarrow> reader" where
  "close_template tmp = reading (out tmp) (\<lambda>v. all_of
     [assertion (vec_size v > 0),
      (\<lambda>s. run_bind (ends_in_template v) (\<lambda>b. push_lit (if b then '' >'' else ''>'') s))])"

primrec read_tmpl_arg_list :: "calls \<Rightarrow> bool \<Rightarrow> nat \<Rightarrow> reader" where
  "read_tmpl_arg_list call tmp 0 = no"
| "read_tmpl_arg_list call tmp (Suc k) = reading (\<lambda>s. vec_size (out tmp s)) (\<lambda>idx. all_of
     [cpp_demangle_read_tmpl_arg call, with_substr tmp idx push_tmpl, look 0 (\<lambda>c.
        if c = CHR ''E'' then all_of [skip 1, close_template tmp]
        else all_of [if_so (c \<noteq> CHR ''I'') (push_lit '', ''), read_tmpl_arg_list call tmp k])])"

definition cpp_demangle_read_tmpl_args :: "calls \<Rightarrow> reader" where
  "cpp_demangle_read_tmpl_args call = look 0 (\<lambda>c.
     if c = NUL then no
     else all_of [skip 1, on_cmd (vector_read_cmd_push READ_TMPL), push_lit ''<'',
                  reading heading (\<lambda>tmp. read_tmpl_arg_list call tmp TRIES), pop_cmd])"

subsection \<open>Substitutions\<close>

definition cpp_demangle_read_subst_stdtmpl :: "calls \<Rightarrow> string \<Rightarrow> nat \<Rightarrow> reader" where
  "cpp_demangle_read_subst_stdtmpl call str len = reading heading (\<lambda>tmp. reading (\<lambda>s. vec_size (out tmp s)) (\<lambda>p_idx. all_of
     [cpp_demangle_read_tmpl_args call,
      with_substr tmp p_idx (\<lambda>substr. with_malloc (length substr + len + 1)
        (if len > length str + 1 then (\<lambda>_. Undefined)
         else cpp_demangle_push_subst (str @ substr) (length substr + len)))]))"

text \<open>Template arguments after a name make a second substitution, of the name with them.\<close>

definition note_tmpl_args :: "calls \<Rightarrow> bool \<Rightarrow> vector_str \<Rightarrow> reader" where
  "note_tmpl_args call tmp v = look 0 (\<lambda>c. if_so (c = CHR ''I'')
     (reading (\<lambda>s. vec_size (out tmp s)) (\<lambda>p_idx. all_of
        [cpp_demangle_read_tmpl_args call, with_substr tmp p_idx (\<lambda>x. with_push v x (length x) cpp_demangle_push_subst_v)])))"

text \<open>The answer is 1 however the reading ended.\<close>

definition cpp_demangle_read_subst_std :: "calls \<Rightarrow> reader" where
  "cpp_demangle_read_subst_std call = with_init (\<lambda>v s. run_bind
     (all_of
       [push_lit ''std::'', with_push v ''std::'' 5 (\<lambda>v. all_of
          [skip 2, reading heading (\<lambda>tmp. reading (\<lambda>s. vec_size (out tmp s)) (\<lambda>p_idx. all_of
             [cpp_demangle_read_uqname call, with_substr tmp p_idx (\<lambda>x. with_push v x (length x) (\<lambda>v. all_of
                [cpp_demangle_push_subst_v v, note_tmpl_args call tmp v]))]))])] s)
     (\<lambda>(_, s'). yes s'))"

definition cpp_demangle_read_subst :: "calls \<Rightarrow> reader" where
  "cpp_demangle_read_subst call = look 0 (\<lambda>c.
     if c = NUL then no
     else look2 (\<lambda>h. case switch_on std_names h of
       Some (str, len, sname) \<Rightarrow> all_of
         [cpp_demangle_push_str str len,
          upd (\<lambda>s. case sname of Some n \<Rightarrow> s\<lparr>d_last_sname := Literal n\<rparr> | None \<Rightarrow> s),
          skip 2, look 0 (\<lambda>i. if_so (i = CHR ''I'') (cpp_demangle_read_subst_stdtmpl call str len))]
     | None \<Rightarrow>
         if h = hash_of ''St'' then cpp_demangle_read_subst_std call
         else all_of [skip 1, look 0 (\<lambda>e. need (e \<noteq> NUL)), numbered cpp_demangle_get_subst]))"

subsection \<open>Names\<close>

text \<open>The qualifiers of the member function, which the loop reads letter by letter.\<close>

definition member_qualifier :: "char \<Rightarrow> dd \<Rightarrow> dd" where
  "member_qualifier c s =
     (if c = CHR ''r'' then s\<lparr>d_mem_rst := True\<rparr> else if c = CHR ''V'' then s\<lparr>d_mem_vat := True\<rparr> else s\<lparr>d_mem_cst := True\<rparr>)"

definition is_member_qualifier :: "char \<Rightarrow> bool" where
  "is_member_qualifier c \<longleftrightarrow> c = CHR ''r'' \<or> c = CHR ''V'' \<or> c = CHR ''K''"

definition read_member_qualifiers :: reader where
  "read_member_qualifiers = at_cur (\<lambda>w. all_of
     [upd (\<lambda>s. fold member_qualifier (takeWhile is_member_qualifier w) s), skip (length (takeWhile is_member_qualifier w))])"

text \<open>One component of a nested name at a time; \<open>v\<close> collects the name so far.\<close>

primrec read_nested_list :: "calls \<Rightarrow> bool \<Rightarrow> nat \<Rightarrow> vector_str \<Rightarrow> reader" where
  "read_nested_list call tmp 0 v = no"
| "read_nested_list call tmp (Suc k) v = reading (\<lambda>s. vec_size (out tmp s)) (\<lambda>p_idx. all_of
     [look 0 (\<lambda>c.
        if c = CHR ''I'' then cpp_demangle_read_tmpl_args call
        else if c = CHR ''S'' then cpp_demangle_read_subst call
        else if c = CHR ''T'' then cpp_demangle_read_tmpl_param
        else cpp_demangle_read_uqname call),
      with_substr tmp p_idx (\<lambda>x. with_push v x (length x) (\<lambda>v. all_of
        [cpp_demangle_push_subst_v v, look 0 (\<lambda>c.
           if c = CHR ''E'' then skip 1
           else if c \<noteq> CHR ''I'' \<and> c \<noteq> CHR ''C'' \<and> c \<noteq> CHR ''D'' then
             all_of [push_lit ''::'', with_push v ''::'' 2 (\<lambda>v. read_nested_list call tmp k v)]
           else read_nested_list call tmp k v)]))])"

definition cpp_demangle_read_nested_name :: "calls \<Rightarrow> reader" where
  "cpp_demangle_read_nested_name call = look 0 (\<lambda>c.
     if c \<noteq> CHR ''N'' then no
     else all_of [skip 1, look 0 (\<lambda>c. need (c \<noteq> NUL)), read_member_qualifiers,
                  reading heading (\<lambda>tmp. with_init (\<lambda>v. read_nested_list call tmp TRIES v))])"

primrec read_local_params :: "calls \<Rightarrow> nat \<Rightarrow> reader" where
  "read_local_params call 0 = no"
| "read_local_params call (Suc k) = all_of
     [call (Part_type True), look 0 (\<lambda>c. if c = CHR ''E'' then yes else read_local_params call k)]"

definition cpp_demangle_read_local_name :: "calls \<Rightarrow> reader" where
  "cpp_demangle_read_local_name call = all_of
     [skip 1, look 0 (\<lambda>c. need (c \<noteq> NUL)), call Part_encoding, read_local_params call TRIES,
      skip 1, look 0 (\<lambda>c. need (c \<noteq> NUL)),
      reading d_paren (\<lambda>paren. if_so paren (all_of [push_lit '')'', upd (\<lambda>s. s\<lparr>d_paren := False\<rparr>)])),
      look 0 (\<lambda>c. if c = CHR ''s'' then skip 1 else all_of [push_lit ''::'', call Part_name]),
      look 0 (\<lambda>c. if_so (c = CHR ''_'') (all_of [skip 1, skip_digits]))]"

definition strstr_found :: "string \<Rightarrow> string \<Rightarrow> bool" where
  "strstr_found x y \<longleftrightarrow> list_ex (\<lambda>i. take (length y) (drop i x) = y) [0..<length x + 1]"

definition cpp_demangle_read_name :: "calls \<Rightarrow> reader" where
  "cpp_demangle_read_name call = look 0 (\<lambda>c.
     if c = NUL then no
     else if c = CHR ''S'' then cpp_demangle_read_subst call
     else if c = CHR ''N'' then cpp_demangle_read_nested_name call
     else if c = CHR ''Z'' then cpp_demangle_read_local_name call
     else reading heading (\<lambda>tmp. with_init (\<lambda>v. reading (\<lambda>s. vec_size (out tmp s)) (\<lambda>p_idx. all_of
       [cpp_demangle_read_uqname call, with_substr tmp p_idx (\<lambda>x.
          if length x > 8 \<and> strstr_found x ''operator'' then yes
          else with_push v x (length x) (\<lambda>v. all_of
            [cpp_demangle_push_subst_v v, note_tmpl_args call tmp v]))]))))"

subsection \<open>Expressions\<close>

definition cpp_demangle_read_expression_binary :: "calls \<Rightarrow> string \<Rightarrow> reader" where
  "cpp_demangle_read_expression_binary call name = all_of [call Part_expression, push_lit name, call Part_expression]"

definition cpp_demangle_read_expression_unary :: "calls \<Rightarrow> string \<Rightarrow> reader" where
  "cpp_demangle_read_expression_unary call name = all_of [call Part_expression, push_lit name]"

definition cpp_demangle_read_expression_trinary :: "calls \<Rightarrow> string \<Rightarrow> string \<Rightarrow> reader" where
  "cpp_demangle_read_expression_trinary call name1 name2 = all_of
     [call Part_expression, push_lit name1, call Part_expression, push_lit name2, call Part_expression]"

primrec read_op :: "calls \<Rightarrow> op_form \<Rightarrow> reader" where
  "read_op call (Binary t) = cpp_demangle_read_expression_binary call t"
| "read_op call (Unary t) = cpp_demangle_read_expression_unary call t"
| "read_op call (Trinary t u) = cpp_demangle_read_expression_trinary call t u"

definition cpp_demangle_read_expression :: "calls \<Rightarrow> reader" where
  "cpp_demangle_read_expression call = look 0 (\<lambda>c.
     if c = NUL then no
     else look2 (\<lambda>h.
       if h = hash_of ''st'' then all_of [skip 2, call (Part_type False)]
       else if h = hash_of ''sr'' then all_of
         [skip 2, call (Part_type False), cpp_demangle_read_uqname call,
          look 0 (\<lambda>i. if_so (i = CHR ''I'') (cpp_demangle_read_tmpl_args call))]
       else case switch_on expression_ops h of
         Some f \<Rightarrow> all_of [skip 2, read_op call f]
       | None \<Rightarrow>
           if c = CHR ''L'' then cpp_demangle_read_expr_primary call
           else if c = CHR ''T'' then cpp_demangle_read_tmpl_param
           else no))"

subsection \<open>Encodings\<close>

text \<open>Some of the lengths passed are one more than the text has.\<close>

definition cpp_demangle_read_encoding :: "calls \<Rightarrow> reader" where
  "cpp_demangle_read_encoding call = look 0 (\<lambda>c.
     if c = NUL then no
     else look2 (\<lambda>h.
       if h = hash_of ''GV'' then all_of [cpp_demangle_push_str ''guard variable for '' 20, skip 2, call Part_name]
       else if h = hash_of ''Tc'' then all_of
         [cpp_demangle_push_str ''virtual function covariant override '' 36, skip 2, look 0 (\<lambda>e. need (e \<noteq> NUL)),
          cpp_demangle_read_offset, cpp_demangle_read_offset, call Part_encoding]
       else if h = hash_of ''TD'' then call Part_name
       else if h = hash_of ''Th'' then all_of
         [cpp_demangle_push_str ''virtual function non-virtual override '' 38, skip 2, look 0 (\<lambda>e. need (e \<noteq> NUL)),
          cpp_demangle_read_nv_offset, call Part_encoding]
       else if h = hash_of ''TI'' \<or> h = hash_of ''TS'' then all_of
         [cpp_demangle_push_str ''typeinfo for '' 14, skip 2, look 0 (\<lambda>e. need (e \<noteq> NUL)), call (Part_type True)]
       else if h = hash_of ''TT'' then all_of [cpp_demangle_push_str ''VTT for '' 8, skip 2, call (Part_type True)]
       else if h = hash_of ''Tv'' then all_of
         [cpp_demangle_push_str ''virtual function virtual override '' 34, skip 2, look 0 (\<lambda>e. need (e \<noteq> NUL)),
          cpp_demangle_read_v_offset, call Part_encoding]
       else if h = hash_of ''TV'' then all_of
         [cpp_demangle_push_str ''vtable for '' 12, skip 2, look 0 (\<lambda>e. need (e \<noteq> NUL)), call (Part_type True)]
       else call Part_name))"

subsection \<open>Arrays, pointers to members and functions\<close>

definition pop_output_to :: "nat \<Rightarrow> dd \<Rightarrow> dd" where
  "pop_output_to p_idx s = (pop_output ^^ (vec_size (d_output s) - p_idx)) s"

definition cpp_demangle_read_array :: "calls \<Rightarrow> reader" where
  "cpp_demangle_read_array call = all_of [skip 1, look 0 (\<lambda>c.
     if c = NUL then no
     else if c = CHR ''_'' then all_of
       [skip 1, look 0 (\<lambda>e. need (e \<noteq> NUL)), call (Part_type False), push_lit ''[]'']
     else if is_digit c then at_cur (\<lambda>num. all_of
       [skip_digits, look 0 (\<lambda>e. need (e = CHR ''_'')), skip 1, look 0 (\<lambda>e. need (e \<noteq> NUL)), call (Part_type False),
        push_lit ''['', cpp_demangle_push_str num (length (takeWhile is_digit num)), push_lit '']''])
     else reading (\<lambda>s. vec_size (d_output s)) (\<lambda>p_idx. all_of
       [call Part_expression, with_substr False p_idx (\<lambda>exp. all_of
          [upd (pop_output_to p_idx), look 0 (\<lambda>e. need (e = CHR ''_'')), skip 1, look 0 (\<lambda>e. need (e \<noteq> NUL)),
           call (Part_type False), push_lit ''['', push_lit exp, push_lit '']''])]))]"

text \<open>Clean-up that is run in any case; its failure makes the answer 0.\<close>

definition lastly :: "'s act \<Rightarrow> 's act \<Rightarrow> 's act" where
  "lastly f g s = run_bind (f s) (\<lambda>(b, s'). run_bind (g s') (\<lambda>(c, s''). Done (b \<and> c, s'')))"

definition cpp_demangle_read_pointer_to_member :: "calls \<Rightarrow> reader" where
  "cpp_demangle_read_pointer_to_member call = look 0 (\<lambda>c.
     if c \<noteq> CHR ''M'' then no
     else all_of [skip 1, look 0 (\<lambda>e. need (e \<noteq> NUL)), reading (\<lambda>s. vec_size (d_output s)) (\<lambda>p_idx. all_of
       [call (Part_type False), with_substr False p_idx (\<lambda>class_type. all_of
          [upd (pop_output_to p_idx), on_cmd (vector_read_cmd_push READ_PTRMEM),
           lastly
             (andthen (on_class_type (vector_str_push class_type (length class_type)))
               (lastly
                 (reading d_func_type (\<lambda>p_func_type. all_of
                   [call (Part_type False),
                    reading d_func_type (\<lambda>func_type. if_so (p_func_type = func_type)
                      (all_of [push_lit '' '', push_lit class_type, push_lit ''::*'']))]))
                 (upd (\<lambda>s. s\<lparr>d_class_type := vector_str_pop (d_class_type s)\<rparr>))))
             pop_cmd])])])"

text \<open>The local variables of \<^verbatim>\<open>cpp_demangle_read_type\<close> that other code changes.\<close>

record type_locals =
  l_v :: vector_type_qualifier
  l_is_builtin :: bool
  l_extern_c :: bool

definition on_dd :: "reader \<Rightarrow> (dd \<times> type_locals) act" where
  "on_dd f = (\<lambda>(s, l). run_bind (f s) (\<lambda>(b, s'). Done (b, s', l)))"

definition on_locals :: "(type_locals \<Rightarrow> type_locals) \<Rightarrow> (dd \<times> type_locals) act" where
  "on_locals f = (\<lambda>(s, l). yes (s, f l))"

definition look_t :: "(char \<Rightarrow> (dd \<times> type_locals) act) \<Rightarrow> (dd \<times> type_locals) act" where
  "look_t g = (\<lambda>(s, l). case cur_at 0 s of None \<Rightarrow> Undefined | Some c \<Rightarrow> g c (s, l))"

definition push_qualifier :: "type_qualifier \<Rightarrow> (dd \<times> type_locals) act" where
  "push_qualifier q = (\<lambda>(s, l). run_bind (vector_type_qualifier_push q (l_v l, d_libc s))
     (\<lambda>(b, v, m). Done (b, s\<lparr>d_libc := m\<rparr>, l\<lparr>l_v := v\<rparr>)))"

text \<open>
  The qualifiers read so far are written, destroyed and started anew. If that gets no memory, the caller destroys the
  old ones once more.
\<close>

definition flush_qualifiers :: "(dd \<times> type_locals) act" where
  "flush_qualifiers = (\<lambda>(s, l). andthen (on_dd (cpp_demangle_push_type_qualifier (l_v l) None))
     (\<lambda>(s, l). case vector_type_qualifier_init (d_libc s) of (b, v, m) \<Rightarrow>
        if b then yes (s\<lparr>d_libc := m\<rparr>, l\<lparr>l_v := v\<rparr>) else Undefined) (s, l))"

definition in_ptrmem :: "dd \<times> type_locals \<Rightarrow> bool" where
  "in_ptrmem = (\<lambda>(s, l). vector_read_cmd_find (d_cmd s) READ_PTRMEM \<noteq> 0)"

definition push_class_type :: reader where
  "push_class_type s =
     (if vec_size (d_class_type s) = 0 then no s
      else run_bind (slot_at (d_class_type s) (vec_size (d_class_type s) - 1)) (\<lambda>x.
        if length x = 0 then no s
        else all_of [push_lit x, push_lit ''::*'', upd (\<lambda>s. s\<lparr>d_func_type := d_func_type s + 1\<rparr>)] s))"

primrec read_function_params :: "calls \<Rightarrow> nat \<Rightarrow> reader" where
  "read_function_params call 0 = no"
| "read_function_params call (Suc k) = all_of
     [call (Part_type False), look 0 (\<lambda>c. if c = CHR ''E'' then yes else read_function_params call k)]"

definition cpp_demangle_read_function :: "calls \<Rightarrow> (dd \<times> type_locals) act" where
  "cpp_demangle_read_function call = look_t (\<lambda>c.
     if c \<noteq> CHR ''F'' then no
     else all_of
       [on_dd (skip 1),
        look_t (\<lambda>c. if_so (c = CHR ''Y'') (all_of [on_locals (\<lambda>l. l\<lparr>l_extern_c := True\<rparr>), on_dd (skip 1)])),
        on_dd (call (Part_type False)),
        look_t (\<lambda>c. if_so (c \<noteq> CHR ''E'') (all_of
          [on_dd (push_lit ''(''),
           reading in_ptrmem (\<lambda>b. if b then on_dd push_class_type else flush_qualifiers),
           on_dd (push_lit '')(''), on_dd (read_function_params call TRIES),
           reading in_ptrmem (\<lambda>b. if_so b flush_qualifiers),
           on_dd (push_lit '')'')])),
        on_dd (skip 1)])"

subsection \<open>Types\<close>

text \<open>What stands in front of a type: a place for it if a template has just ended, or a parenthesis or comma.\<close>

definition type_prologue :: "bool \<Rightarrow> (bool \<Rightarrow> reader) \<Rightarrow> reader" where
  "type_prologue delimit k = getting
     (\<lambda>s. if vec_size (d_output s) > 0 then run_bind (ends_in_template (d_output s)) (\<lambda>b. Done (b, s)) else Done (False, s))
     (\<lambda>b. if b then all_of [upd (\<lambda>s. s\<lparr>d_push_head := d_push_head s + 1\<rparr>), k True]
          else if delimit then all_of
            [reading d_paren (\<lambda>paren. if_so (\<not> paren) (all_of
               [push_lit ''('', reading (\<lambda>s. vec_size (d_output s)) (\<lambda>n. need (\<not> n < 2)),
                upd (\<lambda>s. s\<lparr>d_paren := True, d_pfirst := True,
                            d_subst := (if vec_size (d_subst s) = 1 then vector_str_pop (d_subst s) else d_subst s)\<rparr>)])),
             reading d_pfirst (\<lambda>pfirst. if pfirst then upd (\<lambda>s. s\<lparr>d_pfirst := False\<rparr>)
               else look 0 (\<lambda>c. if_so (c \<noteq> CHR ''I'') (push_lit '', ''))),
             k False]
          else k False)"

definition not_builtin :: "(dd \<times> type_locals) act" where
  "not_builtin = on_locals (\<lambda>l. l\<lparr>l_is_builtin := False\<rparr>)"

definition push_ext :: "nat \<Rightarrow> (dd \<times> type_locals) act" where
  "push_ext len = (\<lambda>(s, l). case d_cur s of None \<Rightarrow> Undefined | Some w \<Rightarrow>
     run_bind (vector_str_push w len (ext_name (l_v l), d_libc s))
       (\<lambda>(b, v, m). Done (b, s\<lparr>d_libc := m\<rparr>, l\<lparr>l_v := (l_v l)\<lparr>ext_name := v\<rparr>\<rparr>)))"

text \<open>The cases that read the type itself and go to the label \<^verbatim>\<open>rtn\<close>.\<close>

definition read_plain_type :: "calls \<Rightarrow> char \<Rightarrow> (dd \<times> type_locals) act" where
  "read_plain_type call c =
     (case map_of builtin_types c of
        Some (t, len) \<Rightarrow> all_of [on_dd (cpp_demangle_push_str t len), on_dd (skip 1)]
      | None \<Rightarrow>
          if c = CHR ''A'' then all_of [on_dd (cpp_demangle_read_array call), not_builtin]
          else if c = CHR ''F'' then all_of [cpp_demangle_read_function call, not_builtin]
          else if c = CHR ''M'' then all_of [on_dd (cpp_demangle_read_pointer_to_member call), not_builtin]
          else if c = CHR ''S'' then all_of [on_dd (cpp_demangle_read_subst call), not_builtin]
          else if c = CHR ''T'' then all_of [on_dd cpp_demangle_read_tmpl_param, not_builtin]
          else if c = CHR ''u'' then all_of [on_dd (skip 1), on_dd cpp_demangle_read_sname, not_builtin]
          else all_of [on_dd (call Part_name), not_builtin])"

text \<open>
  The cases that read a qualifier and go back to the label \<^verbatim>\<open>again\<close>; each turn moves the cursor. A vendor's qualifier is
  read as a number from its letter \<^verbatim>\<open>U\<close> on.
\<close>

definition read_vendor_qualifier :: "(nat \<Rightarrow> (dd \<times> type_locals) act) \<Rightarrow> (dd \<times> type_locals) act" where
  "read_vendor_qualifier k =
     getting (\<lambda>(s, l). run_bind (cpp_demangle_read_number s) (\<lambda>(r, s'). Done (r, s', l))) (\<lambda>r.
       case r of None \<Rightarrow> no | Some len \<Rightarrow> if len \<le> 0 then no else k (nat len))"

primrec read_type_again :: "calls \<Rightarrow> nat \<Rightarrow> (dd \<times> type_locals) act" where
  "read_type_again call 0 = (\<lambda>_. Unfinished)"
| "read_type_again call (Suc k) = look_t (\<lambda>c.
     case map_of qualifier_letters c of
       Some q \<Rightarrow> all_of [push_qualifier q, on_dd (skip 1), read_type_again call k]
     | None \<Rightarrow>
         if c = CHR ''U'' then
           read_vendor_qualifier (\<lambda>len. all_of [push_ext len, on_dd (skip len), read_type_again call k])
         else read_plain_type call c)"

text \<open>After the type: it becomes a substitution, its qualifiers are written, and a type that was put aside moves to the head.\<close>

definition push_output_head :: reader where
  "push_output_head s =
     (let n = vec_size (d_output_tmp s) in
      andthen (on_output (vector_str_push_vector_head (d_output_tmp s)))
        (upd (\<lambda>s. s\<lparr>d_last_sname := (case d_last_sname s of In_Output i \<Rightarrow> In_Output (i + n) | p \<Rightarrow> p)\<rparr>)) s)"

definition reset_output_tmp :: reader where
  "reset_output_tmp s = (case vector_str_init (d_libc s) of (b, v, m) \<Rightarrow> Done (b, s\<lparr>d_output_tmp := v, d_libc := m\<rparr>))"

definition type_epilogue :: "calls \<Rightarrow> reader" where
  "type_epilogue call = reading heading (\<lambda>h. if_so h (all_of
     [look 0 (\<lambda>c. if_so (c = CHR ''I'') (cpp_demangle_read_tmpl_args call)),
      upd (\<lambda>s. s\<lparr>d_push_head := d_push_head s - 1\<rparr>),
      reading heading (\<lambda>h. if_so (\<not> h) (all_of
        [on_output_tmp (vector_str_push '' '' 1), push_output_head, reset_output_tmp, push_lit ''('',
         upd (\<lambda>s. s\<lparr>d_paren := True, d_pfirst := True\<rparr>)]))]))"

definition push_type_subst :: "bool \<Rightarrow> string \<Rightarrow> reader" where
  "push_type_subst is_builtin type_str s =
     (if is_builtin then yes s
      else run_bind (vector_str_find (d_subst s) type_str (length type_str)) (\<lambda>found.
        if found then yes s else on_subst (vector_str_push type_str (length type_str)) s))"

definition type_init :: "dd \<Rightarrow> ((bool \<times> type_locals) \<times> dd) run" where
  "type_init s = (case vector_type_qualifier_init (d_libc s) of
     (b, v, m) \<Rightarrow> Done ((b, \<lparr>l_v = v, l_is_builtin = True, l_extern_c = False\<rparr>), s\<lparr>d_libc := m\<rparr>))"

definition type_read :: "calls \<Rightarrow> type_locals \<Rightarrow> dd \<Rightarrow> ((bool \<times> type_locals) \<times> dd) run" where
  "type_read call l s = run_bind
     (read_type_again call (case d_cur s of Some w \<Rightarrow> length w + 2 | None \<Rightarrow> 1) (s, l)) (\<lambda>(b, s', l'). Done ((b, l'), s'))"

definition read_type_rest :: "calls \<Rightarrow> bool \<Rightarrow> reader" where
  "read_type_rest call tmp = getting type_init (\<lambda>(b, l).
     if \<not> b then no
     else reading (\<lambda>s. vec_size (out tmp s)) (\<lambda>p_idx. getting (type_read call l) (\<lambda>(b, l).
       if \<not> b then no
       else with_substr tmp p_idx (\<lambda>type_str. all_of
         [push_type_subst (l_is_builtin l) type_str,
          cpp_demangle_push_type_qualifier (l_v l) (Some type_str), type_epilogue call]))))"

definition cpp_demangle_read_type :: "calls \<Rightarrow> bool \<Rightarrow> reader" where
  "cpp_demangle_read_type call delimit = type_prologue delimit (read_type_rest call)"

subsection \<open>The demangler\<close>

primrec parts :: "nat \<Rightarrow> calls" where
  "parts 0 = (\<lambda>p s. Unfinished)"
| "parts (Suc n) = (\<lambda>p. case p of
     Part_type delimit \<Rightarrow> cpp_demangle_read_type (parts n) delimit
   | Part_expression \<Rightarrow> cpp_demangle_read_expression (parts n)
   | Part_encoding \<Rightarrow> cpp_demangle_read_encoding (parts n)
   | Part_name \<Rightarrow> cpp_demangle_read_name (parts n))"

text \<open>The parameters of a function, up to the end or to a version that the linker appended.\<close>

primrec read_params :: "calls \<Rightarrow> nat \<Rightarrow> reader" where
  "read_params call 0 = no"
| "read_params call (Suc k) = look 0 (\<lambda>c.
     if c = NUL then yes
     else look 1 (\<lambda>d.
       if c = CHR ''@'' \<and> d = CHR ''@'' then yes
       else all_of [call (Part_type True), if k = 0 then no else read_params call k]))"

definition finish_name :: reader where
  "finish_name = all_of
     [reading (\<lambda>s. vec_size (d_output s)) (\<lambda>n. need (n \<noteq> 0)),
      (\<lambda>s. if d_paren s then on_output (vector_str_push '')'' 1) s else yes s),
      (\<lambda>s. if d_mem_vat s then on_output (vector_str_push '' volatile'' 9) s else yes s),
      (\<lambda>s. if d_mem_cst s then on_output (vector_str_push '' const'' 6) s else yes s),
      (\<lambda>s. if d_mem_rst s then on_output (vector_str_push '' restrict'' 9) s else yes s)]"

text \<open>
  What is returned: \<^verbatim>\<open>rtn\<close>, which on one path is used before it has a value. A name that does not begin with \<^verbatim>\<open>_Z\<close> is read
  as a type, so that the test for \<^verbatim>\<open>_GLOBAL__I_\<close> after it never holds.
\<close>

definition cxa_demangle_gnu3 :: "nat \<Rightarrow> string \<Rightarrow> libc \<Rightarrow> (string option \<times> libc) run" where
  "cxa_demangle_gnu3 fuel org m =
     (if length org < 2 \<or> \<not> (org ! 0 = CHR ''_'' \<and> org ! 1 = CHR ''Z'') then
        case cpp_demangle_data_init org m of
          (None, m') \<Rightarrow> Done (None, m')
        | (Some s, _) \<Rightarrow> run_bind (parts fuel (Part_type False) s) (\<lambda>(b, s').
            if \<not> b then Undefined else vector_str_get_flat (d_output s') (d_libc s'))
      else if length org > 11 \<and> take 11 org = ''_GLOBAL__I_'' then
        case malloc (length org + 19) m of (b, m') \<Rightarrow>
          Done (if b then Some (take (length org + 18) (''global constructors keyed to '' @ drop 11 org)) else None, m')
      else
        case cpp_demangle_data_init (drop 2 org) m of
          (None, m') \<Rightarrow> Done (None, m')
        | (Some s, _) \<Rightarrow> run_bind (all_of [parts fuel Part_encoding, read_params (parts fuel) TRIES, finish_name] s) (\<lambda>(b, s').
            if \<not> b then Done (None, d_libc s') else vector_str_get_flat (d_output s') (d_libc s')))"

text \<open>
  \<^verbatim>\<open>__cxa_demangle\<close> (\<^verbatim>\<open>typeinfo.cc\<close>): the name is copied into the caller's buffer, which is enlarged. The buffer's text or
  \<^verbatim>\<open>NULL\<close>, the length if it is stored, and the status.
\<close>

definition cxa_demangle :: "nat \<Rightarrow> string \<Rightarrow> libc \<Rightarrow> ((string option \<times> nat option \<times> int) \<times> libc) run" where
  "cxa_demangle fuel mangled_name m = run_bind (cxa_demangle_gnu3 fuel mangled_name m) (\<lambda>(demangled, m1).
     case demangled of
       None \<Rightarrow> Done ((None, None, - 2), m1)
     | Some x \<Rightarrow> (case malloc (length x + 1) m1 of (b, m2) \<Rightarrow>
         if b then Done ((Some x, Some (length x), 0), m2) else Done ((None, None, - 1), m2)))"

end
