(* ===== verification/Dem_Ends.thy ===== *)
theory Dem_Ends
  imports Dem_Read
begin

text \<open>
  The demangler ends on every input, whatever the memory it gets: every reader moves the cursor forward or not at all, and
  no circle of calls comes back to a reader without having moved it. Readers are shown to end by rules for the steps
  they are made of.
\<close>

named_theorems ends_intros

subsection \<open>Readers that end\<close>

text \<open>What the cursor has before it, the terminator included.\<close>

definition left :: "dd \<Rightarrow> nat" where
  "left s = (case d_cur s of Some w \<Rightarrow> length w + 1 | None \<Rightarrow> 0)"

text \<open>From a state of measure at most \<open>N\<close> the step ends and does not raise the measure.\<close>

definition ends_by :: "('s \<Rightarrow> nat) \<Rightarrow> nat \<Rightarrow> ('s \<Rightarrow> ('a \<times> 's) run) \<Rightarrow> bool" where
  "ends_by m N f \<longleftrightarrow> (\<forall>s. m s \<le> N \<longrightarrow> yields (f s) True (\<lambda>(x, s'). m s' \<le> m s))"

abbreviation ends :: "nat \<Rightarrow> (dd \<Rightarrow> ('a \<times> dd) run) \<Rightarrow> bool" where
  "ends \<equiv> ends_by left"

abbreviation ends_t :: "nat \<Rightarrow> (dd \<times> type_locals \<Rightarrow> ('a \<times> dd \<times> type_locals) run) \<Rightarrow> bool" where
  "ends_t \<equiv> ends_by (\<lambda>s. left (fst s))"

lemma ends_byD: "ends_by m N f \<Longrightarrow> m s \<le> N \<Longrightarrow> yields (f s) True (\<lambda>(x, s'). m s' \<le> m s)"
  by (simp add: ends_by_def)

lemma ends_weaken: "ends_by m N f \<Longrightarrow> N' \<le> N \<Longrightarrow> ends_by m N' f"
  by (simp add: ends_by_def)

lemma ends_getting [ends_intros]:
  assumes "ends_by m N f" "\<And>x. ends_by m N (g x)"
  shows "ends_by m N (getting f g)"
  unfolding ends_by_def yields_steps
proof (intro allI impI)
  fix s
  assume s: "m s \<le> N"
  have "yields (g x s') True (\<lambda>(y, s''). m s'' \<le> m s)" if "m s' \<le> m s" for x s'
    by (rule yields_mono [OF ends_byD [OF assms(2)]]) (use s that in auto)
  then show "yields (f s) True (\<lambda>(x, s'). yields (g x s') True (\<lambda>(y, s''). m s'' \<le> m s))"
    by (intro yields_mono [OF ends_byD [OF assms(1) s]]) auto
qed

lemma ends_andthen [ends_intros]:
  assumes "ends_by m N f" "ends_by m N g"
  shows "ends_by m N (andthen f g)"
proof -
  have "andthen f g = getting f (\<lambda>b. if b then g else no)"
    by (rule ext) (simp add: andthen_def getting_def case_prod_unfold if_distribR)
  moreover have "ends_by m N (if b then g else no)" for b
    using assms(2) by (simp add: ends_by_def no_def)
  ultimately show ?thesis using assms(1) by (simp add: ends_getting)
qed

lemma ends_simple [ends_intros]: "ends_by m N yes" "ends_by m N no" "ends_by m N (need b)" "ends_by m N (assertion b)"
  by (simp_all add: ends_by_def)

lemma ends_all_of [ends_intros]:
  "ends_by m N (all_of [])"
  "ends_by m N f \<Longrightarrow> ends_by m N (all_of fs) \<Longrightarrow> ends_by m N (all_of (f # fs))"
  by (simp_all add: all_of.simps ends_simple ends_andthen)

lemma ends_reading [ends_intros]: "(\<And>x. ends_by m N (g x)) \<Longrightarrow> ends_by m N (reading f g)"
  by (simp add: ends_by_def)

lemma ends_if [ends_intros]: "(b \<Longrightarrow> ends_by m N f) \<Longrightarrow> (\<not> b \<Longrightarrow> ends_by m N g) \<Longrightarrow> ends_by m N (if b then f else g)"
  by simp

lemma ends_if_so [ends_intros]: "(b \<Longrightarrow> ends_by m N f) \<Longrightarrow> ends_by m N (if_so b f)"
  by (simp add: if_so_def ends_simple)

lemma ends_upd [ends_intros]: "(\<And>s. m (h s) \<le> m s) \<Longrightarrow> ends_by m N (upd h)"
  by (simp add: ends_by_def)

lemma ends_option [ends_intros]:
  "(r = None \<Longrightarrow> ends_by m N f) \<Longrightarrow> (\<And>x. r = Some x \<Longrightarrow> ends_by m N (g x)) \<Longrightarrow> ends_by m N (case r of None \<Rightarrow> f | Some x \<Rightarrow> g x)"
  by (cases r) simp_all

lemma ends_prod [ends_intros]: "(\<And>x y. r = (x, y) \<Longrightarrow> ends_by m N (g x y)) \<Longrightarrow> ends_by m N (case r of (x, y) \<Rightarrow> g x y)"
  by (cases r) simp

lemma ends_undefined [ends_intros]: "ends_by m N (\<lambda>_. Undefined)"
  by (simp add: ends_by_def)

subsection \<open>The cursor\<close>

lemma left_moved_on: "left (s\<lparr>d_cur := moved_on k (d_cur s)\<rparr>) \<le> left s - k"
  by (auto simp: left_def moved_on_def split: option.split)

lemma ends_skip [ends_intros]: "ends N (skip k)"
  unfolding skip_def by (rule ends_upd) (rule order_trans [OF left_moved_on diff_le_self])

text \<open>What comes after the cursor has moved may count on it.\<close>

lemma ends_skip_then [ends_intros]:
  assumes "k \<noteq> 0" "ends (N - 1) (all_of fs)"
  shows "ends N (all_of (skip k # fs))"
  unfolding ends_by_def
proof (intro allI impI)
  fix s
  assume "left s \<le> N"
  let ?s = "s\<lparr>d_cur := moved_on k (d_cur s)\<rparr>"
  have less: "left ?s \<le> left s - 1" using left_moved_on [of k s] assms(1) by linarith
  with \<open>left s \<le> N\<close> have "left ?s \<le> N - 1" by linarith
  from ends_byD [OF assms(2) this]
  have "yields (all_of fs ?s) True (\<lambda>(x, s'). left s' \<le> left s)"
    by (rule yields_mono) (use less in auto)
  then show "yields (all_of (skip k # fs) s) True (\<lambda>(x, s'). left s' \<le> left s)"
    by (simp add: skip_def)
qed

lemma cur_at_left: "cur_at k s = Some c \<Longrightarrow> 1 \<le> left s"
  by (auto simp: cur_at_def left_def split: option.splits)

lemma ends_look [ends_intros]:
  assumes "\<And>c. 1 \<le> N \<Longrightarrow> ends N (g c)"
  shows "ends N (look k g)"
  unfolding ends_by_def look_def
  using assms by (auto split: option.split dest: cur_at_left simp: ends_by_def)

lemma ends_look2 [ends_intros]: "(\<And>h. 1 \<le> N \<Longrightarrow> ends N (g h)) \<Longrightarrow> ends N (look2 g)"
  by (simp add: look2_def ends_look)

lemma ends_at_cur [ends_intros]: "(\<And>w. ends N (g w)) \<Longrightarrow> ends N (at_cur g)"
  by (auto simp: ends_by_def at_cur_def split: option.split)

lemma ends_skip_until [ends_intros]: "ends N (skip_until c)"
  by (auto simp: ends_by_def skip_until_def left_def intro: length_dropWhile_le split: option.split)

lemma ends_skip_digits [ends_intros]: "ends N skip_digits"
  by (auto simp: ends_by_def skip_digits_def left_def intro: length_dropWhile_le split: option.split)

text \<open>Steps that do not touch the cursor.\<close>

lemma left_cong [simp]:
  "left (s\<lparr>d_output := a\<rparr>) = left s" "left (s\<lparr>d_output_tmp := a\<rparr>) = left s" "left (s\<lparr>d_subst := a\<rparr>) = left s"
  "left (s\<lparr>d_tmpl := a\<rparr>) = left s" "left (s\<lparr>d_class_type := a\<rparr>) = left s" "left (s\<lparr>d_cmd := d\<rparr>) = left s"
  "left (s\<lparr>d_paren := b\<rparr>) = left s" "left (s\<lparr>d_pfirst := b\<rparr>) = left s" "left (s\<lparr>d_mem_rst := b\<rparr>) = left s"
  "left (s\<lparr>d_mem_vat := b\<rparr>) = left s" "left (s\<lparr>d_mem_cst := b\<rparr>) = left s" "left (s\<lparr>d_func_type := n\<rparr>) = left s"
  "left (s\<lparr>d_last_sname := l\<rparr>) = left s" "left (s\<lparr>d_push_head := n\<rparr>) = left s" "left (s\<lparr>d_libc := c\<rparr>) = left s"
  by (simp_all add: left_def)

text \<open>A call that ends whatever it is given.\<close>

definition finishes :: "'a run \<Rightarrow> bool" where
  "finishes r \<longleftrightarrow> yields r True (\<lambda>_. True)"

lemma finishesD: "finishes r \<Longrightarrow> (\<And>x. Q x) \<Longrightarrow> yields r True Q"
  unfolding finishes_def by (rule yields_mono)

lemma finishes_simps [simp]: "finishes (Done x)" "finishes Undefined" "finishes Aborted" "\<not> finishes Unfinished"
  by (simp_all add: finishes_def)

lemma finishes_bind [intro!]: "finishes r \<Longrightarrow> (\<And>x. finishes (f x)) \<Longrightarrow> finishes (run_bind r f)"
  unfolding finishes_def yields_bind by (erule yields_mono)

lemma finishes_steps [simp]: "finishes (yes s)" "finishes (no s)"
  by (simp_all add: yes_def no_def)

lemma finishes_slot [simp]: "finishes (slot_at v i)"
  by (simp add: slot_at_def split: option.split)

lemma finishes_malloc [simp]: "finishes (case malloc n m of (b, m') \<Rightarrow> f b m') \<longleftrightarrow> finishes (f (fst (malloc n m)) (snd (malloc n m)))"
  by (simp add: case_prod_unfold)

lemma finishes_push [simp]: "finishes (vector_str_push str len vm)"
proof -
  have "finishes (store_copy str len (v, m))" for v m by (simp add: store_copy_def)
  moreover have "finishes (vector_str_grow (v, m))" for v m by (simp add: vector_str_grow_def Let_def)
  ultimately show ?thesis by (cases vm) (auto simp: vector_str_push_def andthen_def)
qed

lemma finishes_push_enum [simp]: "finishes (push_enum x vm)"
  by (cases vm) (simp add: push_enum_def Let_def)

lemma finishes_find [simp]: "finishes (vector_str_find v str l)"
proof -
  have "finishes (find_from v str l is)" for "is" by (induction "is") auto
  then show ?thesis by (simp add: vector_str_find_def)
qed

lemma finishes_copied [simp]: "finishes (copied v is)"
  by (induction "is") auto

lemma finishes_flat [simp]: "finishes (vector_str_get_flat v m)" and finishes_substr [simp]: "finishes (vector_str_substr v b n m)"
  by (auto simp: vector_str_get_flat_def get_strlen_sum_def vector_str_substr_def case_prod_unfold)

lemma finishes_push_head [simp]: "finishes (vector_str_push_vector_head org vm)"
  by (cases vm) (simp add: vector_str_push_vector_head_def Let_def case_prod_unfold)

lemma ends_on_vec [ends_intros]:
  assumes "\<And>vm. finishes (f vm)"
  shows "ends N (on_output f)" "ends N (on_output_tmp f)" "ends N (on_subst f)" "ends N (on_tmpl f)" "ends N (on_class_type f)"
  by (auto simp: ends_by_def on_output_def on_output_tmp_def on_subst_def on_tmpl_def on_class_type_def intro!: finishesD [OF assms])

lemma ends_on_cmd [ends_intros]:
  assumes "\<And>vm. finishes (f vm)"
  shows "ends N (on_cmd f)"
  by (auto simp: ends_by_def on_cmd_def intro!: finishesD [OF assms])

lemma ends_pop_cmd [ends_intros]: "ends N pop_cmd"
  by (simp add: ends_by_def pop_cmd_def case_prod_unfold)

text \<open>A step that first asks for a value it does not keep.\<close>

lemma ends_run_bind [ends_intros]:
  assumes "\<And>s. finishes (f s)" "\<And>x. ends_by m N (g x)"
  shows "ends_by m N (\<lambda>s. run_bind (f s) (\<lambda>x. g x s))"
  using assms(2) by (auto simp: ends_by_def intro!: finishesD [OF assms(1)])

lemma ends_with [ends_intros]:
  "(\<And>x. ends N (k x)) \<Longrightarrow> ends N (with_substr tmp i k)"
  "(\<And>x. ends N (k x)) \<Longrightarrow> ends N (with_flat v k)"
  "(\<And>v. ends N (l v)) \<Longrightarrow> ends N (with_init l)"
  "(\<And>v. ends N (l v)) \<Longrightarrow> ends N (with_push v x n l)"
  "ends N r \<Longrightarrow> ends N (with_malloc n r)"
  unfolding with_substr_def with_flat_def with_init_def with_push_def with_malloc_def
  by (intro ends_getting ends_option ends_prod ends_if ends_simple; simp add: ends_by_def case_prod_unfold; auto intro!: finishesD)+

lemma ends_push_str [ends_intros]: "ends N (cpp_demangle_push_str str len)"
proof -
  have "cpp_demangle_push_str str len = reading d_push_head (\<lambda>h. if len = 0 then no
      else if h > 0 then on_output_tmp (vector_str_push str len) else on_output (vector_str_push str len))"
    by (rule ext) (simp add: cpp_demangle_push_str_def reading_def)
  then show ?thesis by (simp add: ends_intros)
qed

lemma ends_push_subst [ends_intros]: "ends N (cpp_demangle_push_subst str len)"
proof -
  have "cpp_demangle_push_subst str len = (if len = 0 then no else (\<lambda>s. run_bind (vector_str_find (d_subst s) str len)
      (\<lambda>found. (if \<not> found then on_subst (vector_str_push str len) else yes) s)))"
    by (rule ext) (simp add: cpp_demangle_push_subst_def if_distribR)
  then show ?thesis by (auto intro!: ends_intros)
qed

lemma ends_push_subst_v [ends_intros]: "ends N (cpp_demangle_push_subst_v v)"
  unfolding cpp_demangle_push_subst_v_def by (intro ends_intros)

lemma ends_push_fp [ends_intros]: "ends N (cpp_demangle_push_fp decoder)"
proof -
  have "ends N (\<lambda>s. run_bind (if length f > 0 then cpp_demangle_push_str f (length f) s else no s) (\<lambda>(_, s'). no s'))" for f
  proof -
    have "(\<lambda>s. run_bind (if length f > 0 then cpp_demangle_push_str f (length f) s else no s) (\<lambda>(_, s'). no s')) =
        getting (if length f > 0 then cpp_demangle_push_str f (length f) else no) (\<lambda>_. no)"
      by (rule ext) (simp add: getting_def)
    then show ?thesis by (simp only:) (intro ends_intros)
  qed
  moreover have "ends N (\<lambda>s. case decoder fp n (d_libc s) of (f, m) \<Rightarrow> Done (f, s\<lparr>d_libc := m\<rparr>))" for fp n
    by (simp add: ends_by_def case_prod_unfold)
  ultimately show ?thesis
    unfolding cpp_demangle_push_fp_def by (intro ends_at_cur ends_all_of ends_skip_until ends_skip ends_getting ends_option ends_simple)
qed

lemma ends_push_qualifiers [ends_intros]: "ends N (push_qualifiers ext subst_v qs)"
proof (induction qs arbitrary: subst_v)
  case (Cons q qs)
  have "push_ext_name ext 0 = (if vec_size ext \<noteq> 0 \<and> 0 > vec_size ext - 1 then no
      else (\<lambda>s. run_bind (slot_at ext 0) (\<lambda>name. (if length name = 0 then no else with_malloc (length name + 1) (\<lambda>_. Undefined)) s)))"
    by (rule ext) (simp add: push_ext_name_def if_distribR)
  then have "ends N (push_ext_name ext 0)" by (auto intro!: ends_intros)
  then show ?case unfolding push_qualifiers.simps by (intro ends_intros Cons.IH)
qed (simp add: ends_simple)

lemma ends_push_type_qualifier [ends_intros]: "ends N (cpp_demangle_push_type_qualifier v type_str)"
  unfolding cpp_demangle_push_type_qualifier_def by (intro ends_intros)

subsection \<open>Readers that call no other\<close>

lemma ends_push_slot [ends_intros]: "ends N (push_slot v i)"
proof -
  have "push_slot v i = (if vec_size v \<le> i then no
      else (\<lambda>s. run_bind (slot_at v i) (\<lambda>x. (if length x = 0 then no else all_of [push_lit x, skip 1]) s)))"
    by (rule ext) (simp add: push_slot_def if_distribR)
  then show ?thesis by (simp only:) (intro ends_intros; simp)
qed

lemma ends_get [ends_intros]: "ends N (cpp_demangle_get_subst i)" "ends N (cpp_demangle_get_tmpl_param i)"
  unfolding cpp_demangle_get_subst_def cpp_demangle_get_tmpl_param_def by (intro ends_intros)+

lemma ends_numbered [ends_intros]: "(\<And>i. ends N (get i)) \<Longrightarrow> ends N (numbered get)"
  unfolding numbered_def by (intro ends_intros)

lemma ends_tmpl_param [ends_intros]: "ends N cpp_demangle_read_tmpl_param"
  unfolding cpp_demangle_read_tmpl_param_def by (intro ends_intros; simp)

lemma ends_read_number [ends_intros]: "ends N cpp_demangle_read_number"
  unfolding ends_by_def
proof (intro allI impI)
  fix s
  show "yields (cpp_demangle_read_number s) True (\<lambda>(x, s'). left s' \<le> left s)"
  proof (cases "cur_at 0 s")
    case (Some c)
    define s1 where "s1 = (if c = CHR ''n'' then s\<lparr>d_cur := moved_on 1 (d_cur s)\<rparr> else s)"
    have s1: "left s1 \<le> left s"
      unfolding s1_def using left_moved_on [of 1 s] by auto
    moreover have "left (s1\<lparr>d_cur := Some (dropWhile is_digit w)\<rparr>) \<le> left s1" if "d_cur s1 = Some w" for w
      using that by (simp add: left_def length_dropWhile_le)
    ultimately show ?thesis
      by (auto simp: cpp_demangle_read_number_def Some Let_def case_prod_unfold simp flip: s1_def split: option.split
          intro: order_trans)
  qed (simp add: cpp_demangle_read_number_def)
qed

lemma ends_read_sname [ends_intros]: "ends N cpp_demangle_read_sname"
  unfolding cpp_demangle_read_sname_def note_last_sname_def by (intro ends_intros; simp)

lemma ends_offsets [ends_intros]:
  "ends N cpp_demangle_read_offset_number" "ends N cpp_demangle_read_nv_offset" "ends N cpp_demangle_read_v_offset"
  "ends N cpp_demangle_read_offset"
proof -
  show number: "ends M cpp_demangle_read_offset_number" for M
    unfolding cpp_demangle_read_offset_number_def Let_def by (intro ends_intros)
  then have neg: "ends M (\<lambda>s. run_bind (cpp_demangle_read_offset_number s) (\<lambda>(b, s'). Done (\<not> b, s')))" for M
    using ends_getting [OF number, where g = "\<lambda>b s. Done (\<not> b, s)"] by (simp add: getting_def ends_by_def)
  show v: "ends M cpp_demangle_read_v_offset" for M
    unfolding cpp_demangle_read_v_offset_def by (intro ends_all_of ends_push_str number neg)
  show nv: "ends M cpp_demangle_read_nv_offset" for M
    unfolding cpp_demangle_read_nv_offset_def by (intro ends_intros number)
  show "ends N cpp_demangle_read_offset"
    unfolding cpp_demangle_read_offset_def by (intro ends_intros v nv; simp)
qed

lemma ends_last_sname [ends_intros]:
  assumes "\<And>x. ends N (k x)"
  shows "ends N (with_last_sname k)"
  using assms by (auto simp: ends_by_def with_last_sname_def split: name_ptr.split intro!: finishesD)

subsection \<open>Readers that call others\<close>

text \<open>
  The calls end when they are made from further on. That is all a name needs.
\<close>

locale ending_calls =
  fixes call :: calls and N :: nat
  assumes call_ends [ends_intros]: "1 \<le> N \<Longrightarrow> ends (N - 1) (call p)"
begin

lemma uqname_ends: "ends N (cpp_demangle_read_uqname call)"
  unfolding cpp_demangle_read_uqname_def read_ctor_dtor_def by (intro ends_intros call_ends; simp)

lemma expr_primary_ends: "1 \<le> N \<Longrightarrow> ends N (cpp_demangle_read_expr_primary call)"
  unfolding cpp_demangle_read_expr_primary_def read_int_literal_def by (intro ends_intros call_ends; simp)

end

text \<open>A template argument is only read after a letter, and may call from where it stands.\<close>

lemma tmpl_arg_ends:
  assumes "\<And>p. ends N (call p)"
  shows "ends N (cpp_demangle_read_tmpl_arg call)"
proof -
  have "ending_calls call N" using assms by unfold_locales (rule ends_weaken [where N = N], simp_all)
  then show ?thesis
    unfolding cpp_demangle_read_tmpl_arg_def by (intro ends_intros ending_calls.expr_primary_ends assms)
qed

lemma ends_push_tmpl [ends_intros]: "ends N (push_tmpl arg)"
proof -
  have "push_tmpl arg = (\<lambda>s. run_bind (vector_str_find (d_tmpl s) arg (length arg))
      (\<lambda>found. (if found then yes else on_tmpl (vector_str_push arg (length arg))) s))"
    by (rule ext) (simp add: push_tmpl_def if_distribR)
  then show ?thesis by (simp only:) (intro ends_intros; simp)
qed

lemma ends_close_template [ends_intros]: "ends N (close_template tmp)"
proof -
  have "finishes (ends_in_template v)" for v by (auto simp: ends_in_template_def)
  then show ?thesis unfolding close_template_def by (intro ends_intros)
qed

lemma tmpl_arg_list_ends:
  assumes "\<And>p. ends N (call p)"
  shows "ends N (read_tmpl_arg_list call tmp k)"
proof (induction k)
  case (Suc k)
  then show ?case
    unfolding read_tmpl_arg_list.simps by (intro ends_intros tmpl_arg_ends assms)
qed (simp add: ends_simple)

context ending_calls
begin

lemma tmpl_args_ends: "ends N (cpp_demangle_read_tmpl_args call)"
  unfolding cpp_demangle_read_tmpl_args_def vector_read_cmd_push_def by (intro ends_intros tmpl_arg_list_ends call_ends; simp)

lemma stdtmpl_ends: "ends N (cpp_demangle_read_subst_stdtmpl call str len)"
  unfolding cpp_demangle_read_subst_stdtmpl_def by (intro ends_intros tmpl_args_ends)

lemma note_tmpl_args_ends: "ends N (note_tmpl_args call tmp v)"
  unfolding note_tmpl_args_def by (intro ends_intros tmpl_args_ends)

lemma subst_std_ends: "ends N (cpp_demangle_read_subst_std call)"
proof -
  have always: "ends N (\<lambda>s. run_bind (f s) (\<lambda>(_, s'). yes s'))" if "ends N f" for f :: reader
    using ends_getting [OF that, where g = "\<lambda>_. yes"] by (simp add: getting_def [abs_def] ends_simple)
  show ?thesis
    unfolding cpp_demangle_read_subst_std_def
    by (intro ends_with always ends_all_of ends_push_str ends_skip ends_reading uqname_ends ends_push_subst_v note_tmpl_args_ends)
qed

lemma subst_ends: "ends N (cpp_demangle_read_subst call)"
  unfolding cpp_demangle_read_subst_def
  by (intro ends_intros subst_std_ends stdtmpl_ends; simp split: option.split)

lemma nested_list_ends: "ends N (read_nested_list call tmp k v)"
proof (induction k arbitrary: v)
  case (Suc k)
  then show ?case
    unfolding read_nested_list.simps by (intro ends_intros tmpl_args_ends subst_ends uqname_ends)
qed (simp add: ends_simple)

lemma member_qualifiers_ends: "ends N read_member_qualifiers"
proof -
  have "left (fold member_qualifier cs s) = left s" for cs s
    by (induction cs arbitrary: s) (simp_all add: member_qualifier_def)
  then show ?thesis unfolding read_member_qualifiers_def by (intro ends_intros; simp)
qed

lemma nested_name_ends: "ends N (cpp_demangle_read_nested_name call)"
  unfolding cpp_demangle_read_nested_name_def
  by (intro ends_look ends_if ends_simple ends_all_of ends_skip member_qualifiers_ends ends_reading ends_with nested_list_ends)

end

text \<open>Where every call may be made from where one stands.\<close>

lemma local_params_ends:
  assumes "\<And>p. ends N (call p)"
  shows "ends N (read_local_params call k)" "ends N (read_function_params call k)"
proof -
  show "ends N (read_local_params call k)"
    by (induction k) (simp_all only: read_local_params.simps ends_simple, intro ends_intros assms)
  show "ends N (read_function_params call k)"
    by (induction k) (simp_all only: read_function_params.simps ends_simple, intro ends_intros assms)
qed

lemma read_params_ends:
  assumes "\<And>p. ends N (call p)"
  shows "ends N (read_params call k)"
  by (induction k) (simp_all only: read_params.simps ends_simple, intro ends_intros assms)

context ending_calls
begin

lemma local_name_ends: "1 \<le> N \<Longrightarrow> ends N (cpp_demangle_read_local_name call)"
  unfolding cpp_demangle_read_local_name_def by (intro ends_intros local_params_ends call_ends; simp)

lemma name_ends: "ends N (cpp_demangle_read_name call)"
  unfolding cpp_demangle_read_name_def
  by (intro ends_intros subst_ends nested_name_ends local_name_ends uqname_ends note_tmpl_args_ends)

lemma op_ends: "(\<And>p. ends M (call p)) \<Longrightarrow> ends M (read_op call f)"
  by (cases f) (simp_all only: read_op.simps cpp_demangle_read_expression_binary_def cpp_demangle_read_expression_unary_def
      cpp_demangle_read_expression_trinary_def, (intro ends_intros; assumption?)+)

lemma expression_ends: "ends N (cpp_demangle_read_expression call)"
proof -
  have "ends (N - 1) (cpp_demangle_read_uqname call)" "ends (N - 1) (cpp_demangle_read_tmpl_args call)"
    using uqname_ends tmpl_args_ends by (auto intro: ends_weaken)
  then show ?thesis
    unfolding cpp_demangle_read_expression_def
    by (intro ends_intros op_ends call_ends expr_primary_ends; simp)
qed

end

subsection \<open>Types\<close>

lemma ends_on_dd [ends_intros]:
  assumes "ends N f"
  shows "ends_t N (on_dd f)"
  by (auto simp: ends_by_def on_dd_def intro!: yields_mono [OF ends_byD [OF assms]])

lemma ends_on_locals [ends_intros]: "ends_t N (on_locals f)" "ends_t N not_builtin"
  by (auto simp: ends_by_def on_locals_def not_builtin_def)

lemma ends_look_t [ends_intros]:
  assumes "\<And>c. 1 \<le> N \<Longrightarrow> ends_t N (g c)"
  shows "ends_t N (look_t g)"
  unfolding ends_by_def look_t_def
  using assms by (auto split: option.split dest: cur_at_left simp: ends_by_def)

lemma ends_skip_then_t [ends_intros]:
  assumes "k \<noteq> 0" "ends_t (N - 1) (all_of fs)"
  shows "ends_t N (all_of (on_dd (skip k) # fs))"
  unfolding ends_by_def
proof (intro allI impI)
  fix sl :: "dd \<times> type_locals"
  obtain s l where sl: "sl = (s, l)" by fastforce
  assume "left (fst sl) \<le> N"
  let ?s = "s\<lparr>d_cur := moved_on k (d_cur s)\<rparr>"
  have less: "left ?s \<le> left s - 1" using left_moved_on [of k s] assms(1) by linarith
  with \<open>left (fst sl) \<le> N\<close> sl have "left (fst (?s, l)) \<le> N - 1" by auto
  from ends_byD [OF assms(2) this]
  have "yields (all_of fs (?s, l)) True (\<lambda>(x, s'). left (fst s') \<le> left s)"
    by (rule yields_mono) (use less in auto)
  then show "yields (all_of (on_dd (skip k) # fs) sl) True (\<lambda>(x, s'). left (fst s') \<le> left (fst sl))"
    by (simp add: skip_def sl on_dd_def)
qed

lemma ends_push_qualifier [ends_intros]: "ends_t N (push_qualifier q)"
proof -
  have "finishes (vector_type_qualifier_push q vm)" for vm
    by (cases vm) (auto simp: vector_type_qualifier_push_def)
  note r = this
  show ?thesis by (auto simp: ends_by_def push_qualifier_def intro!: finishesD [OF r])
qed

lemma ends_push_ext [ends_intros]: "ends_t N (push_ext len)"
  by (auto simp: ends_by_def push_ext_def split: option.split intro!: finishesD [OF finishes_push])

lemma ends_flush_qualifiers [ends_intros]: "ends_t N flush_qualifiers"
proof -
  have eq: "flush_qualifiers = reading (\<lambda>sl. l_v (snd sl)) (\<lambda>v. andthen (on_dd (cpp_demangle_push_type_qualifier v None))
     (\<lambda>(s, l). case vector_type_qualifier_init (d_libc s) of (b, v, m) \<Rightarrow>
        if b then yes (s\<lparr>d_libc := m\<rparr>, l\<lparr>l_v := v\<rparr>) else Undefined))"
    by (rule ext) (simp add: flush_qualifiers_def reading_def case_prod_unfold)
  have init: "ends_t N (\<lambda>(s, l). case vector_type_qualifier_init (d_libc s) of (b, v, m) \<Rightarrow>
        if b then yes (s\<lparr>d_libc := m\<rparr>, l\<lparr>l_v := v\<rparr>) else Undefined)"
    by (auto simp: ends_by_def case_prod_unfold)
  show ?thesis unfolding eq by (intro ends_reading ends_andthen ends_on_dd ends_push_type_qualifier init)
qed

lemma ends_push_class_type [ends_intros]: "ends N push_class_type"
proof -
  have eq: "push_class_type = reading d_class_type (\<lambda>v. if vec_size v = 0 then no
      else (\<lambda>s. run_bind (slot_at v (vec_size v - 1)) (\<lambda>x. (if length x = 0 then no
        else all_of [push_lit x, push_lit ''::*'', upd (\<lambda>s. s\<lparr>d_func_type := d_func_type s + 1\<rparr>)]) s)))"
    by (rule ext) (simp add: push_class_type_def reading_def if_distribR)
  show ?thesis unfolding eq by (intro ends_intros; simp)
qed

lemma ends_lastly [ends_intros]:
  assumes "ends N f" "ends N g"
  shows "ends N (lastly f g)"
proof -
  have "lastly f g = getting f (\<lambda>b. getting g (\<lambda>c s. Done (b \<and> c, s)))"
    by (rule ext) (simp add: lastly_def getting_def)
  moreover have "ends N (\<lambda>s. Done (x, s))" for x by (simp add: ends_by_def)
  ultimately show ?thesis using assms by (simp only:) (intro ends_getting)
qed

lemma left_pop_output [simp]: "left (pop_output s) = left s" "left (pop_output_to i s) = left s"
proof -
  show pop: "left (pop_output s) = left s" for s by (simp add: pop_output_def)
  have "left ((pop_output ^^ n) s) = left s" for n by (induction n) (simp_all add: pop)
  then show "left (pop_output_to i s) = left s" by (simp add: pop_output_to_def)
qed

context ending_calls
begin

lemma array_ends: "1 \<le> N \<Longrightarrow> ends N (cpp_demangle_read_array call)"
  unfolding cpp_demangle_read_array_def
  by (intro ends_intros call_ends ends_weaken [OF call_ends]; simp)

lemma pointer_to_member_ends: "ends N (cpp_demangle_read_pointer_to_member call)"
  unfolding cpp_demangle_read_pointer_to_member_def vector_read_cmd_push_def
  by (intro ends_intros call_ends; simp)

lemma function_ends: "ends_t N (cpp_demangle_read_function call)"
  unfolding cpp_demangle_read_function_def
  by (intro ends_intros local_params_ends call_ends ends_weaken [OF call_ends]; simp)

end

lemma ends_type_prologue [ends_intros]:
  assumes "\<And>b. ends N (k b)"
  shows "ends N (type_prologue delimit k)"
proof -
  have "ends N (\<lambda>s. if vec_size (d_output s) > 0 then run_bind (ends_in_template (d_output s)) (\<lambda>b. Done (b, s)) else Done (False, s))"
    by (auto simp: ends_by_def ends_in_template_def intro!: finishesD [OF finishes_slot])
  then show ?thesis
    unfolding type_prologue_def
    by (intro ends_getting ends_if ends_all_of ends_upd ends_reading ends_if_so ends_push_str ends_simple ends_look assms) simp_all
qed

lemma ends_push_output_head [ends_intros]: "ends N push_output_head"
proof -
  have eq: "push_output_head = reading d_output_tmp (\<lambda>v. andthen (on_output (vector_str_push_vector_head v))
     (upd (\<lambda>s. s\<lparr>d_last_sname := (case d_last_sname s of In_Output i \<Rightarrow> In_Output (i + vec_size v) | p \<Rightarrow> p)\<rparr>)))"
    by (rule ext) (simp add: push_output_head_def reading_def Let_def)
  show ?thesis unfolding eq by (intro ends_intros; simp)
qed

lemma ends_reset_output_tmp [ends_intros]: "ends N reset_output_tmp"
  by (simp add: ends_by_def reset_output_tmp_def case_prod_unfold)

lemma ends_push_type_subst [ends_intros]: "ends N (push_type_subst b x)"
proof -
  have eq: "push_type_subst b x = (if b then yes else (\<lambda>s. run_bind (vector_str_find (d_subst s) x (length x))
      (\<lambda>found. (if found then yes else on_subst (vector_str_push x (length x))) s)))"
    by (rule ext) (simp add: push_type_subst_def if_distribR)
  show ?thesis unfolding eq by (intro ends_intros; simp)
qed

text \<open>A type calls the reader of names where it stands.\<close>

locale ending_type_calls = ending_calls +
  assumes name_call_ends: "ends N (call Part_name)"
begin

lemma type_epilogue_ends: "ends N (type_epilogue call)"
  unfolding type_epilogue_def by (intro ends_intros tmpl_args_ends; simp)

lemma plain_type_ends: "1 \<le> N \<Longrightarrow> ends_t N (read_plain_type call c)"
  unfolding read_plain_type_def
  by (intro ends_intros array_ends function_ends pointer_to_member_ends subst_ends name_call_ends; simp)

text \<open>Every turn but the last moves the cursor, so that more turns than it has before it are enough.\<close>

lemma type_again_ends:
  assumes "left s < k" "left s \<le> N"
  shows "yields (read_type_again call k (s, l)) True (\<lambda>(x, s'). left (fst s') \<le> left s)"
  using assms
proof (induction k arbitrary: s l)
  case (Suc k)
  let ?post = "\<lambda>(x :: bool, s' :: dd \<times> type_locals). left (fst s') \<le> left s"
  have direct: "yields (f (s, l)) True ?post" if "ends_t N f" for f :: "(dd \<times> type_locals) act"
    using ends_byD [OF that, of "(s, l)"] Suc.prems(2) by simp
  show ?case
  proof (cases "cur_at 0 s")
    case (Some c)
    then have N: "1 \<le> left s" "1 \<le> N" using cur_at_left [OF Some] Suc.prems(2) by auto
    have again: "yields (read_type_again call k (t\<lparr>d_cur := moved_on i (d_cur t)\<rparr>, l')) True ?post"
      if t: "left t \<le> left s" "1 \<le> i" for t l' i
    proof -
      let ?t = "t\<lparr>d_cur := moved_on i (d_cur t)\<rparr>"
      have t': "left ?t \<le> left s - 1" using left_moved_on [of i t] t by linarith
      then have "left ?t < k" "left ?t \<le> N" using N Suc.prems by linarith+
      from Suc.IH [OF this, of l'] show ?thesis by (rule yields_mono) (use t' in auto)
    qed
    have then_again: "yields (all_of [f, on_dd (skip i), read_type_again call k] (t, l')) True ?post"
      if "ends_t N f" "1 \<le> i" "left t \<le> left s" for f i t l'
      using ends_byD [OF that(1), of "(t, l')"] Suc.prems(2) that(2,3) again
      by (auto simp: on_dd_def skip_def elim!: yields_mono)
    have number: "yields (cpp_demangle_read_number s) True (\<lambda>(x, s'). left s' \<le> left s)"
      by (rule ends_byD [OF ends_read_number order_refl])
    show ?thesis
    proof (cases "map_of qualifier_letters c")
      case (Some q)
      with \<open>cur_at 0 s = Some c\<close> then_again [OF ends_push_qualifier [of N q], of 1 s l] show ?thesis
        by (simp add: look_t_def)
    next
      case None
      show ?thesis
      proof (cases "c = CHR ''U''")
        case True
        have "yields (read_vendor_qualifier (\<lambda>len. all_of [push_ext len, on_dd (skip len), read_type_again call k]) (s, l)) True ?post"
          unfolding read_vendor_qualifier_def yields_steps
          using then_again [OF ends_push_ext] by (auto intro!: yields_mono [OF number] simp del: yields_steps(5) split: option.split)
        with None True \<open>cur_at 0 s = Some c\<close> show ?thesis by (simp add: look_t_def)
      next
        case False
        with None \<open>cur_at 0 s = Some c\<close> direct [OF plain_type_ends [OF N(2)]] show ?thesis by (simp add: look_t_def)
      qed
    qed
  qed (simp add: look_t_def)
qed simp

lemma type_ends: "ends N (cpp_demangle_read_type call delimit)"
proof -
  have again: "ends N (type_read call l)" for l
  proof -
    have enough: "left s < (case d_cur s of Some w \<Rightarrow> length w + 2 | None \<Rightarrow> 1)" for s
      by (simp add: left_def split: option.split)
    show ?thesis
      unfolding ends_by_def type_read_def yields_bind by (intro allI impI yields_mono [OF type_again_ends [OF enough]]) auto
  qed
  have init: "ends N type_init"
    by (simp add: ends_by_def type_init_def case_prod_unfold)
  show ?thesis
    unfolding cpp_demangle_read_type_def read_type_rest_def
    by (intro ends_type_prologue ends_getting init ends_prod ends_if ends_simple ends_reading again ends_with ends_all_of
        ends_push_type_subst ends_push_type_qualifier type_epilogue_ends)
qed

lemma encoding_ends: "ends N (cpp_demangle_read_encoding call)"
  unfolding cpp_demangle_read_encoding_def by (intro ends_intros call_ends name_call_ends numeral_neq_zero)

end

subsection \<open>The demangler ends\<close>

fun rank :: "part \<Rightarrow> nat" where
  "rank (Part_type _) = 1"
| "rank Part_encoding = 1"
| "rank _ = 0"

theorem parts_end:
  assumes "2 * N + rank p < n"
  shows "ends N (parts n p)"
  using assms
proof (induction n arbitrary: N p)
  case (Suc n)
  have "2 * (N - 1) + rank q < n" if "1 \<le> N" for q
    using Suc.prems that by (cases q) auto
  then have "ending_calls (parts n) N"
    by unfold_locales (rule Suc.IH)
  moreover have "ends N (parts n Part_name)" if "rank p = 1"
    using Suc.prems that by (intro Suc.IH) simp
  ultimately show ?case
    by (cases p) (simp_all add: ending_calls.name_ends ending_calls.expression_ends ending_type_calls.type_ends
        ending_type_calls.encoding_ends ending_type_calls_def ending_type_calls_axioms_def)
qed simp

interpretation nested: ending_type_calls "parts (2 * N + 2 + k)" N for N k
proof
  show "ends (N - 1) (parts (2 * N + 2 + k) p)" if "1 \<le> N" for p
    using that by (intro parts_end) (cases p; simp)
  show "ends N (parts (2 * N + 2 + k) Part_name)" by (rule parts_end) simp
qed

text \<open>Two nested calls for each character, and a few, are enough, and then the loops end too.\<close>

lemma data_init_left: "cpp_demangle_data_init cur m = (Some s, m') \<Longrightarrow> left s = length cur + 1"
  by (auto simp: cpp_demangle_data_init_def left_def split: prod.splits if_splits)

lemma ends_finish_name: "ends N finish_name"
proof -
  have eq: "(\<lambda>s. if f s then on_output g s else yes s) = reading f (\<lambda>b. if b then on_output g else yes)" for f g
    by (rule ext) (simp add: reading_def)
  show ?thesis unfolding finish_name_def eq by (intro ends_intros; simp)
qed

lemma demangle_ends:
  assumes "2 * length org + 4 \<le> fuel"
  shows "finishes (cxa_demangle_gnu3 fuel org m)"
proof -
  have run: "finishes (f s)" if "ends N f" "left s \<le> N" for f :: reader and s N
    using ends_byD [OF that] unfolding finishes_def by (rule yields_mono) simp
  have part: "ends (length org + 1) (parts fuel p)" for p
    using assms by (intro parts_end) (cases p; simp)
  have all: "ends (length org + 1) (all_of [parts fuel Part_encoding, read_params (parts fuel) TRIES, finish_name])"
    by (intro ends_intros part read_params_ends ends_finish_name)
  show ?thesis
    unfolding cxa_demangle_gnu3_def
    by (auto split: prod.split option.split dest!: data_init_left intro!: run [OF part] run [OF all])
qed

end
