(* ===== verification/Dem_Fuel.thy ===== *)
theory Dem_Fuel
  imports Dem_Ends
begin

text \<open>
  The number of nested calls allowed to the demangler does not matter once it is enough: a reader that is given better
  calls answers the same, or answers where it did not end before.
\<close>

named_theorems better_intros

definition better :: "('s \<Rightarrow> 'a run) \<Rightarrow> ('s \<Rightarrow> 'a run) \<Rightarrow> bool" where
  "better f g \<longleftrightarrow> (\<forall>s. f s = Unfinished \<or> f s = g s)"

lemma better_refl [better_intros]: "better f f"
  by (simp add: better_def)

lemma betterD: "better f g \<Longrightarrow> f s \<noteq> Unfinished \<Longrightarrow> g s = f s"
  by (metis better_def)

lemma better_trans: "better f g \<Longrightarrow> better g h \<Longrightarrow> better f h"
  unfolding better_def by metis

lemma better_bind: "better f f' \<Longrightarrow> run_bind (f s) g \<noteq> Unfinished \<Longrightarrow> run_bind (f' s) g = run_bind (f s) g"
  by (cases "f s = Unfinished") (simp_all add: betterD)

lemma better_getting [better_intros]:
  assumes "better f f'" "\<And>x. better (g x) (g' x)"
  shows "better (getting f g) (getting f' g')"
  unfolding better_def
proof
  fix s
  show "getting f g s = Unfinished \<or> getting f g s = getting f' g' s"
  proof (cases "f s = Unfinished")
    case False
    then have "f' s = f s" by (rule betterD [OF assms(1)])
    then show ?thesis using assms(2) by (cases "f s") (auto simp: getting_def better_def)
  qed (simp add: getting_def)
qed

lemma better_andthen [better_intros]:
  assumes "better f f'" "better g g'"
  shows "better (andthen f g) (andthen f' g')"
proof -
  have "andthen f g = getting f (\<lambda>b. if b then g else no)" for f g :: "'a act"
    by (rule ext) (simp add: andthen_def getting_def case_prod_unfold if_distribR)
  then show ?thesis using assms by (simp add: better_getting better_refl)
qed

lemma better_all_of [better_intros]:
  "better f f' \<Longrightarrow> better (all_of fs) (all_of fs') \<Longrightarrow> better (all_of (f # fs)) (all_of (f' # fs'))"
  by (simp add: all_of.simps better_andthen)

lemma better_steps [better_intros]:
  "(\<And>x. better (g x) (g' x)) \<Longrightarrow> better (reading f g) (reading f g')"
  "(b \<Longrightarrow> better h h') \<Longrightarrow> better (if_so b h) (if_so b h')"
  "(b \<Longrightarrow> better i i') \<Longrightarrow> (\<not> b \<Longrightarrow> better j j') \<Longrightarrow> better (if b then i else j) (if b then i' else j')"
  by (simp_all add: better_def reading_def if_so_def)

lemma better_cases [better_intros]:
  "better f f' \<Longrightarrow> (\<And>x. better (g x) (g' x)) \<Longrightarrow> better (case r of None \<Rightarrow> f | Some x \<Rightarrow> g x) (case r of None \<Rightarrow> f' | Some x \<Rightarrow> g' x)"
  "(\<And>x y. better (h x y) (h' x y)) \<Longrightarrow> better (case q of (x, y) \<Rightarrow> h x y) (case q of (x, y) \<Rightarrow> h' x y)"
  by (cases r, simp_all, cases q, simp)

lemma better_look [better_intros]:
  "(\<And>c. better (g c) (g' c)) \<Longrightarrow> better (look k g) (look k g')"
  "(\<And>h. better (i h) (i' h)) \<Longrightarrow> better (look2 i) (look2 i')"
  "(\<And>w. better (j w) (j' w)) \<Longrightarrow> better (at_cur j) (at_cur j')"
  "(\<And>c. better (l c) (l' c)) \<Longrightarrow> better (look_t l) (look_t l')"
  by (auto simp: better_def look_def look2_def at_cur_def look_t_def split: option.split)

lemma better_with [better_intros]:
  "(\<And>x. better (k x) (k' x)) \<Longrightarrow> better (with_substr tmp i k) (with_substr tmp i k')"
  "(\<And>v. better (l v) (l' v)) \<Longrightarrow> better (with_init l) (with_init l')"
  "(\<And>v. better (l v) (l' v)) \<Longrightarrow> better (with_push v x n l) (with_push v x n l')"
  unfolding with_substr_def with_init_def with_push_def by (intro better_intros; simp)+

lemma better_on_dd [better_intros]:
  assumes "better f f'"
  shows "better (on_dd f) (on_dd f')"
  unfolding better_def
proof
  fix sl
  show "on_dd f sl = Unfinished \<or> on_dd f sl = on_dd f' sl"
  proof (cases "f (fst sl) = Unfinished")
    case False
    then have "f' (fst sl) = f (fst sl)" by (rule betterD [OF assms])
    then show ?thesis by (simp add: on_dd_def case_prod_unfold)
  qed (simp add: on_dd_def case_prod_unfold)
qed

lemma better_lastly [better_intros]:
  assumes "better f f'"
  shows "better (lastly f g) (lastly f' g)"
proof -
  have "lastly f g = getting f (\<lambda>b. getting g (\<lambda>c s. Done (b \<and> c, s)))" for f
    by (rule ext) (simp add: lastly_def getting_def)
  then show ?thesis using assms by (simp add: better_getting better_refl)
qed

text \<open>Better calls make better readers.\<close>

locale better_calls =
  fixes call call' :: calls
  assumes better_call [better_intros]: "better (call p) (call' p)"
begin

lemma uqname_better: "better (cpp_demangle_read_uqname call) (cpp_demangle_read_uqname call')"
  unfolding cpp_demangle_read_uqname_def by (intro better_intros better_call)

lemma expr_primary_better: "better (cpp_demangle_read_expr_primary call) (cpp_demangle_read_expr_primary call')"
  unfolding cpp_demangle_read_expr_primary_def by (intro better_intros better_call)

lemma tmpl_arg_better: "better (cpp_demangle_read_tmpl_arg call) (cpp_demangle_read_tmpl_arg call')"
  unfolding cpp_demangle_read_tmpl_arg_def by (intro better_intros better_call expr_primary_better)

lemma tmpl_arg_list_better: "better (read_tmpl_arg_list call tmp k) (read_tmpl_arg_list call' tmp k)"
proof (induction k)
  case (Suc k)
  then show ?case unfolding read_tmpl_arg_list.simps by (intro better_intros tmpl_arg_better)
qed (simp add: better_refl)

lemma tmpl_args_better: "better (cpp_demangle_read_tmpl_args call) (cpp_demangle_read_tmpl_args call')"
  unfolding cpp_demangle_read_tmpl_args_def by (intro better_intros tmpl_arg_list_better)

lemma stdtmpl_better: "better (cpp_demangle_read_subst_stdtmpl call str len) (cpp_demangle_read_subst_stdtmpl call' str len)"
  unfolding cpp_demangle_read_subst_stdtmpl_def by (intro better_intros tmpl_args_better)

lemma note_tmpl_args_better: "better (note_tmpl_args call tmp v) (note_tmpl_args call' tmp v)"
  unfolding note_tmpl_args_def by (intro better_intros tmpl_args_better)

lemma subst_std_better: "better (cpp_demangle_read_subst_std call) (cpp_demangle_read_subst_std call')"
proof -
  have eq: "(\<lambda>s. run_bind (f s) (\<lambda>(_, s'). yes s')) = getting f (\<lambda>_. yes)" for f :: reader
    by (rule ext) (simp add: getting_def)
  show ?thesis
    unfolding cpp_demangle_read_subst_std_def eq by (intro better_intros uqname_better note_tmpl_args_better)
qed

lemma subst_better: "better (cpp_demangle_read_subst call) (cpp_demangle_read_subst call')"
  unfolding cpp_demangle_read_subst_def by (intro better_intros stdtmpl_better subst_std_better)

lemma nested_list_better: "better (read_nested_list call tmp k v) (read_nested_list call' tmp k v)"
proof (induction k arbitrary: v)
  case (Suc k)
  then show ?case
    unfolding read_nested_list.simps by (intro better_intros tmpl_args_better subst_better uqname_better)
qed (simp add: better_refl)

lemma nested_name_better: "better (cpp_demangle_read_nested_name call) (cpp_demangle_read_nested_name call')"
  unfolding cpp_demangle_read_nested_name_def by (intro better_intros nested_list_better)

lemma params_better:
  "better (read_local_params call k) (read_local_params call' k)"
  "better (read_function_params call k) (read_function_params call' k)"
  "better (read_params call k) (read_params call' k)"
proof -
  show "better (read_local_params call k) (read_local_params call' k)"
    by (induction k) (simp_all only: read_local_params.simps better_refl, intro better_intros better_call)
  show "better (read_function_params call k) (read_function_params call' k)"
    by (induction k) (simp_all only: read_function_params.simps better_refl, intro better_intros better_call)
  show "better (read_params call k) (read_params call' k)"
    by (induction k) (simp_all only: read_params.simps better_refl, intro better_intros better_call)
qed

lemma local_name_better: "better (cpp_demangle_read_local_name call) (cpp_demangle_read_local_name call')"
  unfolding cpp_demangle_read_local_name_def by (intro better_intros better_call params_better)

lemma name_better: "better (cpp_demangle_read_name call) (cpp_demangle_read_name call')"
  unfolding cpp_demangle_read_name_def
  by (intro better_intros subst_better nested_name_better local_name_better uqname_better note_tmpl_args_better)

lemma op_better: "better (read_op call f) (read_op call' f)"
  by (cases f) (simp_all only: read_op.simps cpp_demangle_read_expression_binary_def cpp_demangle_read_expression_unary_def
      cpp_demangle_read_expression_trinary_def, (intro better_intros better_call)+)

lemma expression_better: "better (cpp_demangle_read_expression call) (cpp_demangle_read_expression call')"
  unfolding cpp_demangle_read_expression_def
  by (intro better_intros better_call uqname_better tmpl_args_better op_better expr_primary_better)

lemma encoding_better: "better (cpp_demangle_read_encoding call) (cpp_demangle_read_encoding call')"
  unfolding cpp_demangle_read_encoding_def by (intro better_intros better_call)

lemma array_better: "better (cpp_demangle_read_array call) (cpp_demangle_read_array call')"
  unfolding cpp_demangle_read_array_def by (intro better_intros better_call)

lemma pointer_to_member_better: "better (cpp_demangle_read_pointer_to_member call) (cpp_demangle_read_pointer_to_member call')"
  unfolding cpp_demangle_read_pointer_to_member_def by (intro better_intros better_call)

lemma function_better: "better (cpp_demangle_read_function call) (cpp_demangle_read_function call')"
  unfolding cpp_demangle_read_function_def by (intro better_intros better_call params_better)

lemma plain_type_better: "better (read_plain_type call c) (read_plain_type call' c)"
  unfolding read_plain_type_def
  by (intro better_intros better_call array_better function_better pointer_to_member_better subst_better)

lemma type_again_better: "better (read_type_again call k) (read_type_again call' k)"
proof (induction k)
  case (Suc k)
  then show ?case unfolding read_type_again.simps read_vendor_qualifier_def by (intro better_intros plain_type_better)
qed (simp add: better_refl)

lemma type_epilogue_better: "better (type_epilogue call) (type_epilogue call')"
  unfolding type_epilogue_def by (intro better_intros tmpl_args_better)

lemma type_read_better: "better (type_read call l) (type_read call' l)"
  using better_bind [OF type_again_better] unfolding better_def type_read_def by metis

lemma type_better: "better (cpp_demangle_read_type call delimit) (cpp_demangle_read_type call' delimit)"
  unfolding cpp_demangle_read_type_def type_prologue_def read_type_rest_def
  by (intro type_read_better type_epilogue_better better_intros)

end

theorem parts_better: "better (parts n p) (parts (Suc n) p)"
proof (induction n arbitrary: p)
  case (Suc n)
  then have "better_calls (parts n) (parts (Suc n))" by unfold_locales
  then show ?case
    by (cases p) (simp_all only: parts.simps(2) [of n] parts.simps(2) [of "Suc n"] part.case better_calls.type_better
        better_calls.expression_better better_calls.encoding_better better_calls.name_better)
qed (simp add: better_def)

lemma parts_better_add: "better (parts n p) (parts (n + k) p)"
proof (induction k)
  case (Suc k)
  from better_trans [OF this parts_better] show ?case unfolding add_Suc_right .
qed (simp add: better_refl)

interpretation deeper: better_calls "parts n" "parts (n + k)" for n k
  by unfold_locales (rule parts_better_add)

lemma demangle_better:
  assumes "cxa_demangle_gnu3 n org m \<noteq> Unfinished" "n \<le> k"
  shows "cxa_demangle_gnu3 k org m = cxa_demangle_gnu3 n org m"
proof -
  from assms(2) obtain d where d: "k = n + d" using le_Suc_ex by blast
  have all: "better (all_of [parts n Part_encoding, read_params (parts n) TRIES, finish_name])
      (all_of [parts k Part_encoding, read_params (parts k) TRIES, finish_name])"
    unfolding d by (intro better_intros deeper.better_call deeper.params_better)
  show ?thesis
  proof (cases "length org < 2 \<or> \<not> (org ! 0 = CHR ''_'' \<and> org ! 1 = CHR ''Z'')")
    case True
    obtain r m' where r: "cpp_demangle_data_init org m = (r, m')" by fastforce
    show ?thesis
      using assms(1) better_bind [OF deeper.better_call [where p = "Part_type False" and k = d]] d
      unfolding cxa_demangle_gnu3_def if_P [OF True] r prod.case by (cases r) simp_all
  next
    case False
    obtain r m' where r: "cpp_demangle_data_init (drop 2 org) m = (r, m')" by fastforce
    show ?thesis
      using assms(1) better_bind [OF all]
      unfolding cxa_demangle_gnu3_def if_not_P [OF False] r prod.case
      by (cases r; cases "length org > 11 \<and> take 11 org = ''_GLOBAL__I_''") auto
  qed
qed

end
