(* ===== verification/Dem_Success.thy ===== *)
theory Dem_Success
  imports Dem_Fuel
begin

text \<open>
  Readers that succeed: rules to show that a reader answers 1, with no undefined behaviour or failed assertion, from a state
  with intact arrays and an allocator that refuses nothing, and what it appends to the output.
\<close>

named_theorems does_intros

definition does :: "'s act \<Rightarrow> 's \<Rightarrow> ('s \<Rightarrow> bool) \<Rightarrow> bool" where
  "does f s R \<longleftrightarrow> yields (f s) False (\<lambda>(b, s'). b \<and> R s')"

lemma does_mono: "does f s R \<Longrightarrow> (\<And>s'. R s' \<Longrightarrow> Q s') \<Longrightarrow> does f s Q"
  unfolding does_def by (erule yields_mono) auto

lemma doesE:
  assumes "does f s R"
  obtains s' where "f s = Done (True, s')" "R s'"
  using assms unfolding does_def by (cases "f s") auto

lemma does_all_of [does_intros]:
  "R s \<Longrightarrow> does (all_of []) s R"
  "does f s (\<lambda>s'. does (all_of fs) s' R) \<Longrightarrow> does (all_of (f # fs)) s R"
  unfolding does_def by (simp, simp, erule yields_mono) (auto simp: does_def)

lemma does_then: "does f s P \<Longrightarrow> (\<And>s'. P s' \<Longrightarrow> does (all_of fs) s' R) \<Longrightarrow> does (all_of (f # fs)) s R"
  by (intro does_all_of) (rule does_mono)

lemma does_last: "does f s R \<Longrightarrow> does (all_of [f]) s R"
  by (intro does_all_of does_mono [OF _ does_all_of(1)])

lemma does_simple [does_intros]:
  "R s \<Longrightarrow> does yes s R"
  "b \<Longrightarrow> R s \<Longrightarrow> does (need b) s R"
  "b \<Longrightarrow> R s \<Longrightarrow> does (assertion b) s R"
  "R (h s) \<Longrightarrow> does (upd h) s R"
  "does (g (k s)) s R \<Longrightarrow> does (reading k g) s R"
  "(c \<Longrightarrow> does f s R) \<Longrightarrow> (\<not> c \<Longrightarrow> R s) \<Longrightarrow> does (if_so c f) s R"
  by (simp_all add: does_def)

lemma does_nothing [simp]: "does (all_of []) s R = R s" "does yes s R = R s"
  by (simp_all add: does_def)

lemma does_getting:
  assumes "f s = Done (x, s')" "does (g x) s' R"
  shows "does (getting f g) s R"
  using assms by (simp add: does_def)

lemma does_andthen: "does f s (\<lambda>s'. does g s' R) \<Longrightarrow> does (andthen f g) s R"
  unfolding does_def by (simp, erule yields_mono) (auto simp: does_def)

lemma does_look: "cur_at k s = Some c \<Longrightarrow> does (g c) s R \<Longrightarrow> does (look k g) s R"
  by (simp add: does_def look_def)

lemma does_look2: "cur_at 0 s = Some c \<Longrightarrow> cur_at 1 s = Some d \<Longrightarrow> does (g (SIMPLE_HASH c d)) s R \<Longrightarrow> does (look2 g) s R"
  by (simp add: look2_def does_look)

lemma does_look_eq:
  "cur_at k s = Some c \<Longrightarrow> does (look k g) s R = does (g c) s R"
  "cur_at 0 s = Some c \<Longrightarrow> cur_at 1 s = Some d \<Longrightarrow> does (look2 i) s R = does (i (SIMPLE_HASH c d)) s R"
  by (simp_all add: does_def look_def look2_def)

lemma does_at_cur: "d_cur s = Some w \<Longrightarrow> does (g w) s R \<Longrightarrow> does (at_cur g) s R"
  by (simp add: does_def at_cur_def)

lemma does_skip: "R (s\<lparr>d_cur := moved_on k (d_cur s)\<rparr>) \<Longrightarrow> does (skip k) s R"
  by (simp add: skip_def does_simple)

subsection \<open>Good states\<close>

definition dd_ok :: "dd \<Rightarrow> bool" where
  "dd_ok s \<longleftrightarrow> vec_ok (d_output s) \<and> vec_ok (d_output_tmp s) \<and> vec_ok (d_subst s) \<and> vec_ok (d_tmpl s) \<and>
     vec_ok (d_class_type s) \<and> vec_ok (d_cmd s)"

text \<open>Intact arrays, memory, nothing put aside, not inside of template arguments.\<close>

definition sound :: "dd \<Rightarrow> bool" where
  "sound s \<longleftrightarrow> dd_ok s \<and> plenty (d_libc s) \<and> d_push_head s = 0 \<and> vec_list (d_cmd s) = []"

definition outs :: "dd \<Rightarrow> string list" where
  "outs s = vec_list (d_output s)"

definition same_flags :: "dd \<Rightarrow> dd \<Rightarrow> bool" where
  "same_flags s s' \<longleftrightarrow> d_paren s' = d_paren s \<and> d_pfirst s' = d_pfirst s \<and> d_mem_rst s' = d_mem_rst s \<and>
     d_mem_vat s' = d_mem_vat s \<and> d_mem_cst s' = d_mem_cst s"

text \<open>From \<open>s\<close> a reader came to a sound \<open>s'\<close>, with \<open>w\<close> left to read, and appended \<open>new\<close> to the output.\<close>

definition moves :: "dd \<Rightarrow> string option \<Rightarrow> string list \<Rightarrow> dd \<Rightarrow> bool" where
  "moves s w new s' \<longleftrightarrow> sound s' \<and> d_cur s' = w \<and> outs s' = outs s @ new \<and> same_flags s s'"

lemma moves_refl: "sound s \<Longrightarrow> d_cur s = w \<Longrightarrow> moves s w [] s"
  by (simp add: moves_def same_flags_def)

lemma moves_trans: "moves s w new s' \<Longrightarrow> moves s' w' new' s'' \<Longrightarrow> moves s w' (new @ new') s''"
  by (auto simp: moves_def same_flags_def)

lemma sound_out [simp]: "sound s \<Longrightarrow> out (heading s) s = d_output s" "sound s \<Longrightarrow> \<not> heading s"
  by (simp_all add: out_def heading_def sound_def)

lemma sound_size: "sound s \<Longrightarrow> vec_size (d_output s) = length (outs s)"
  by (simp add: sound_def dd_ok_def outs_def)

lemma moves_skip: "moves s (Some w) new s' \<Longrightarrow> k \<le> length w \<Longrightarrow> moves s (Some (drop k w)) new (s'\<lparr>d_cur := moved_on k (d_cur s')\<rparr>)"
  by (auto simp: moves_def sound_def dd_ok_def outs_def same_flags_def moved_on_def)

text \<open>A step on the output array that appends one string.\<close>

lemma does_on_output:
  assumes "sound s"
  shows "does (on_output (vector_str_push x n)) s (moves s (d_cur s) [take n x])"
  using assms unfolding does_def on_output_def yields_bind sound_def dd_ok_def
  by (intro yields_mono [OF vector_str_push_spec]) (auto simp: moves_def sound_def dd_ok_def outs_def same_flags_def)

lemma does_push_str:
  assumes "sound s" "n \<noteq> 0"
  shows "does (cpp_demangle_push_str x n) s (moves s (d_cur s) [take n x])"
  using does_on_output [OF assms(1), of x n] assms by (simp add: does_def cpp_demangle_push_str_def sound_def)

lemma does_on_subst:
  assumes "sound s"
  shows "does (on_subst (vector_str_push x n)) s (moves s (d_cur s) [])"
  using assms unfolding does_def on_subst_def yields_bind sound_def dd_ok_def
  by (intro yields_mono [OF vector_str_push_spec]) (auto simp: moves_def sound_def dd_ok_def outs_def same_flags_def)

lemma does_push_subst:
  assumes "sound s" "n \<noteq> 0"
  shows "does (cpp_demangle_push_subst x n) s (moves s (d_cur s) [])"
proof -
  have ok: "vec_ok (d_subst s)" using assms by (simp add: sound_def dd_ok_def)
  show ?thesis
    using does_on_subst [OF assms(1)] assms moves_refl [OF assms(1) refl]
    by (simp add: does_def cpp_demangle_push_subst_def vector_str_find_spec [OF ok])
qed

text \<open>The same steps on the way from a state \<open>s\<^sub>0\<close>.\<close>

lemma movesD: "moves s0 w new s \<Longrightarrow> sound s \<and> d_cur s = w \<and> outs s = outs s0 @ new"
  by (simp add: moves_def)

lemma step_on:
  assumes "moves s0 w new s" "\<And>s. sound s \<Longrightarrow> does f s (moves s (d_cur s) new')"
  shows "does f s (moves s0 w (new @ new'))"
  using does_mono [OF assms(2)] moves_trans [OF assms(1)] movesD [OF assms(1)] by metis

lemma step_push_str: "moves s0 w new s \<Longrightarrow> n \<noteq> 0 \<Longrightarrow> does (cpp_demangle_push_str x n) s (moves s0 w (new @ [take n x]))"
  by (erule step_on) (rule does_push_str)

lemma step_push_lit: "moves s0 w new s \<Longrightarrow> x \<noteq> [] \<Longrightarrow> does (push_lit x) s (moves s0 w (new @ [x]))"
  using step_push_str [of s0 w new s "length x" x] by simp

lemma step_push_subst: "moves s0 w new s \<Longrightarrow> n \<noteq> 0 \<Longrightarrow> does (cpp_demangle_push_subst x n) s (moves s0 w new)"
  using step_on [OF _ does_push_subst] by fastforce

lemma step_skip: "moves s0 (Some (x @ w)) new s \<Longrightarrow> k = length x \<Longrightarrow> does (skip k) s (moves s0 (Some w) new)"
  by (rule does_skip) (use moves_skip [of s0 "x @ w" new s k] in simp)

lemma moves_libc: "moves s0 w new s \<Longrightarrow> same_libc (d_libc s) m \<Longrightarrow> moves s0 w new (s\<lparr>d_libc := m\<rparr>)"
  by (simp add: moves_def sound_def dd_ok_def outs_def same_flags_def)

lemma step_with_init:
  assumes "moves s0 w new s" "\<And>s v. moves s0 w new s \<Longrightarrow> vec_ok v \<Longrightarrow> vec_list v = [] \<Longrightarrow> does (k v) s R"
  shows "does (with_init k) s R"
proof -
  obtain b m where m: "malloc (8 * VECTOR_DEF_CAPACITY) (d_libc s) = (b, m)" by fastforce
  have "plenty (d_libc s)" using assms(1) by (simp add: moves_def sound_def)
  with malloc_plenty [OF m] have b: "b" by simp
  with m show ?thesis
    unfolding with_init_def
    by (intro does_getting [where x = "(True, fresh_vec)" and s' = "s\<lparr>d_libc := m\<rparr>"])
      (auto simp: vector_str_init_def intro!: assms(2) moves_libc [OF assms(1)])
qed

lemma step_with_push:
  assumes "moves s0 w new s" "vec_ok v"
    "\<And>s v'. moves s0 w new s \<Longrightarrow> vec_ok v' \<Longrightarrow> vec_list v' = vec_list v @ [take n x] \<Longrightarrow> does (k v') s R"
  shows "does (with_push v x n k) s R"
proof -
  have "plenty (d_libc s)" using assms(1) by (simp add: moves_def sound_def)
  then obtain v' m where v': "vector_str_push x n (v, d_libc s) = Done (True, v', m)" "vec_ok v'" "same_libc (d_libc s) m"
      "vec_list v' = vec_list v @ [take n x]"
    using vector_str_push_spec [OF assms(2), of x n "d_libc s"] by (cases "vector_str_push x n (v, d_libc s)") auto
  then show ?thesis
    unfolding with_push_def
    by (intro does_getting [where x = "(True, v')" and s' = "s\<lparr>d_libc := m\<rparr>"]) (auto intro!: assms(3) moves_libc [OF assms(1)])
qed

lemma step_with_substr:
  assumes "moves s0 w new s" "i < length (outs s)" "\<And>s'. moves s0 w new s' \<Longrightarrow> does (k (concat (drop i (outs s)))) s' R"
  shows "does (with_substr False i k) s R"
proof -
  have ok: "plenty (d_libc s)" "vec_ok (d_output s)" "i < vec_size (d_output s)"
    using assms by (simp_all add: moves_def sound_def dd_ok_def sound_size)
  then obtain m where m: "vector_str_substr (d_output s) i (vec_size (d_output s)) (d_libc s) = Done (Some (concat (drop i (outs s))), m)"
      "same_libc (d_libc s) m"
    using vector_str_substr_spec [OF ok(2), of i "d_libc s"]
    by (cases "vector_str_substr (d_output s) i (vec_size (d_output s)) (d_libc s)") (auto simp: outs_def split: option.splits)
  then show ?thesis
    unfolding with_substr_def
    by (intro does_getting [where x = "Some (concat (drop i (outs s)))" and s' = "s\<lparr>d_libc := m\<rparr>"])
      (auto simp: out_def intro!: assms(3) moves_libc [OF assms(1)])
qed

lemma step_push_subst_v:
  assumes "moves s0 w new s" "vec_ok v" "concat (vec_list v) \<noteq> []"
  shows "does (cpp_demangle_push_subst_v v) s (moves s0 w new)"
proof -
  have "plenty (d_libc s)" using assms(1) by (simp add: moves_def sound_def)
  then obtain m where m: "vector_str_get_flat v (d_libc s) = Done (Some (concat (vec_list v)), m)" "same_libc (d_libc s) m"
    using vector_str_get_flat_spec [OF assms(2), of "d_libc s"] assms(3)
    by (cases "vector_str_get_flat v (d_libc s)") (auto split: option.splits)
  then show ?thesis
    using assms(3) unfolding cpp_demangle_push_subst_v_def with_flat_def
    by (intro does_getting [where x = "Some (concat (vec_list v))" and s' = "s\<lparr>d_libc := m\<rparr>"])
      (auto intro!: step_push_subst moves_libc [OF assms(1)])
qed

end
