(* ===== verification/Dem_Function.thy ===== *)
theory Dem_Function
  imports Dem_Success
begin

text \<open>
  What the demangler makes of the mangled names of functions: the grammar of names and of parameter types, how they are
  encoded and written, and that demangling the encoding gives the written form.
\<close>

subsection \<open>Names\<close>

text \<open>What may be an identifier: not empty, no zero in it, and not a start that would be taken for something else.\<close>

definition ident :: "string \<Rightarrow> bool" where
  "ident x \<longleftrightarrow> x \<noteq> [] \<and> \<not> is_digit (hd x) \<and> hd x \<noteq> CHR ''>'' \<and> NUL \<notin> set x \<and> length x < 2 ^ 63"

definition mangled_ident :: "string \<Rightarrow> string" where
  "mangled_ident x = show_nat (length x) @ x"

lemma read_number_length:
  assumes "d_cur s = Some (show_nat n @ w)" "w = [] \<or> \<not> is_digit (hd w)" "n < 2 ^ 63"
  shows "cpp_demangle_read_number s = Done (Some (int n), s\<lparr>d_cur := Some w\<rparr>)"
proof -
  obtain c cs where c: "show_nat n = c # cs" by (cases "show_nat n") auto
  have digit: "is_digit c" using show_nat_digits [of n] c by simp
  then have "c \<noteq> CHR ''n''" by (auto simp: is_digit_def)
  have "stops (units_of w)"
  proof (cases w)
    case (Cons d ds)
    then have "\<not> is_digit d" using assms(2) by simp
    then have "c_digit 10 (of_char d) = None" by (auto simp: c_digit_def is_digit_def Let_def)
    then show ?thesis by (simp add: stops_def units_of_def Cons)
  qed (simp add: stops_def units_of_def)
  from strto_number [of "[]" "[]", OF _ _ _ show_nat_digits this]
  have "strto 10 (units_of (show_nat n @ w)) = (Some (False, n), length (show_nat n))"
    by (simp add: is_sign_def units_of_def)
  then have "strtol 10 (units_of (show_nat n @ w)) = (int n, length (show_nat n), 0)"
    using assms(3) by (simp add: strtol_def strtol_like_def Let_def)
  moreover have "dropWhile is_digit (show_nat n @ w) = w"
    using assms(2) by (cases w) (simp_all add: dropWhile_append)
  ultimately show ?thesis
    using assms(1) c digit \<open>c \<noteq> CHR ''n''\<close> by (simp add: cpp_demangle_read_number_def cur_at_def)
qed

lemma step_read_sname:
  assumes "moves s0 (Some (mangled_ident x @ w)) new s" "ident x"
  shows "does cpp_demangle_read_sname s (moves s0 (Some w) (new @ [x]))"
proof -
  let ?s = "s\<lparr>d_cur := Some (x @ w)\<rparr>"
  have x: "x \<noteq> []" "\<not> is_digit (hd (x @ w))" "length x < 2 ^ 63" using assms(2) by (simp_all add: ident_def)
  have cur: "d_cur s = Some (show_nat (length x) @ x @ w)" using assms(1) by (simp add: moves_def mangled_ident_def)
  have number: "cpp_demangle_read_number s = Done (Some (int (length x)), ?s)"
    by (rule read_number_length [OF cur]) (use x in auto)
  have m: "moves s0 (Some (x @ w)) new ?s"
    using assms(1) by (simp add: moves_def sound_def dd_ok_def outs_def same_flags_def)
  have note_name: "does note_last_sname s' (moves s0 (Some (x @ w)) (new @ [x]))"
    if "moves s0 (Some (x @ w)) (new @ [x]) s'" for s'
  proof -
    have "vec_size (d_output s') > 0" using that sound_size [of s'] by (simp add: moves_def)
    with that show ?thesis
      by (simp add: note_last_sname_def does_def moves_def sound_def dd_ok_def outs_def same_flags_def)
  qed
  have push: "does (at_cur (\<lambda>w. cpp_demangle_push_str w (length x))) ?s (moves s0 (Some (x @ w)) (new @ [x]))"
    using step_push_str [OF m, of "length x" "x @ w"] x by (intro does_at_cur) simp_all
  have "does (all_of [at_cur (\<lambda>w. cpp_demangle_push_str w (length x)), note_last_sname, skip (length x)]) ?s (moves s0 (Some w) (new @ [x]))"
    by (rule does_then [OF push], rule does_then [OF note_name], assumption, rule does_last, rule step_skip, assumption, rule refl)
  with x show ?thesis
    unfolding cpp_demangle_read_sname_def
    by (intro does_getting [where f = cpp_demangle_read_number, OF number]) simp
qed

lemma mangled_ident_Cons:
  assumes "ident x"
  obtains c d cs where "mangled_ident x @ w = c # d # cs" "is_digit c"
proof -
  obtain c ds where c: "show_nat (length x) = c # ds" by (cases "show_nat (length x)") auto
  then have "is_digit c" using show_nat_digits [of "length x"] by simp
  moreover obtain d cs where "ds @ x @ w = d # cs" using assms by (cases "ds @ x @ w") (auto simp: ident_def)
  ultimately show ?thesis using that c by (simp add: mangled_ident_def)
qed

lemma digit_other: "is_digit c \<Longrightarrow> c \<noteq> NUL \<and> c \<noteq> CHR ''v'' \<and> c \<noteq> CHR ''S'' \<and> c \<noteq> CHR ''N'' \<and> c \<noteq> CHR ''Z'' \<and>
    c \<noteq> CHR ''E'' \<and> c \<noteq> CHR ''I'' \<and> c \<noteq> CHR ''C'' \<and> c \<noteq> CHR ''D'' \<and> c \<noteq> CHR ''T'' \<and> c \<noteq> CHR ''U'' \<and> c \<noteq> CHR ''@'' \<and>
    c \<noteq> CHR ''A'' \<and> c \<noteq> CHR ''F'' \<and> c \<noteq> CHR ''M'' \<and> c \<noteq> CHR ''u'' \<and> c \<noteq> CHR ''r'' \<and> c \<noteq> CHR ''V'' \<and> c \<noteq> CHR ''K''"
  by (auto simp: is_digit_def)

lemma step_read_uqname:
  assumes "moves s0 (Some (mangled_ident x @ w)) new s" "ident x"
  shows "does (cpp_demangle_read_uqname call) s (moves s0 (Some w) (new @ [x]))"
proof -
  obtain c d cs where c: "mangled_ident x @ w = c # d # cs" "is_digit c" using mangled_ident_Cons [OF assms(2)] .
  then have cur: "cur_at 0 s = Some c" "cur_at 1 s = Some d" using assms(1) by (simp_all add: moves_def cur_at_def)
  have h: "switch_on operator_names (SIMPLE_HASH c d) = None" by (rule digit_no_operator [OF c(2)])
  have low: "SIMPLE_HASH c d < 4000" by (rule digit_hash [OF c(2)])
  have labels: "SIMPLE_HASH c d \<notin> set (map hash_of [''C1'', ''C2'', ''C3''])" "SIMPLE_HASH c d \<notin> set (map hash_of [''D0'', ''D1'', ''D2''])"
    using low by (auto simp: hash_of_def SIMPLE_HASH_def schar_def)
  show ?thesis
    unfolding cpp_demangle_read_uqname_def
    using c(2) digit_other [OF c(2)] labels step_read_sname [OF assms]
    by (simp add: does_look_eq(1) [OF cur(1)] does_look_eq(2) [OF cur] does_look_eq(1) [OF cur(2)] h del: One_nat_def)
qed

definition first_char :: "string \<Rightarrow> char" where
  "first_char w = (if w = [] then NUL else hd w)"

lemma cur_at_moves: "moves s0 (Some w) new s \<Longrightarrow> cur_at 0 s = Some (first_char w)"
  by (cases w) (simp_all add: moves_def cur_at_def first_char_def)

lemma sound_sizes: "moves s0 w new s \<Longrightarrow> vec_size (out False s) = length (outs s)"
  by (simp add: movesD sound_size out_def)

lemma step_read_simple_name:
  assumes "moves s0 (Some (mangled_ident x @ w)) new s" "ident x" "first_char w \<noteq> CHR ''I''"
  shows "does (cpp_demangle_read_name call) s (moves s0 (Some w) (new @ [x]))"
proof -
  obtain c d cs where c: "mangled_ident x @ w = c # d # cs" "is_digit c" using mangled_ident_Cons [OF assms(2)] .
  then have cur: "cur_at 0 s = Some c" using assms(1) by (simp add: moves_def cur_at_def)
  have x: "x \<noteq> []" using assms(2) by (simp add: ident_def)
  have heading: "heading s = False" using assms(1) by (simp add: moves_def)
  let ?post = "moves s0 (Some w) (new @ [x])"
  let ?rest = "\<lambda>v x. with_push v x (length x) (\<lambda>v. all_of [cpp_demangle_push_subst_v v, note_tmpl_args call False v])"
  let ?named = "\<lambda>v x. if length x > 8 \<and> strstr_found x ''operator'' then yes else ?rest v x"
  let ?body = "with_init (\<lambda>v. reading (\<lambda>s. vec_size (out False s)) (\<lambda>p_idx. all_of
     [cpp_demangle_read_uqname call, with_substr False p_idx (?named v)]))"
  have after: "does (note_tmpl_args call False v) s' ?post" if "?post s'" for s' v
    unfolding note_tmpl_args_def
    using that assms(3) by (simp add: does_look_eq(1) [OF cur_at_moves [OF that]] if_so_def)
  have named: "does (?named v x) s' ?post" if "?post s'" "vec_ok v" "vec_list v = []" for s' v
  proof -
    have "does (?rest v x) s' ?post"
      by (rule step_with_push [OF that(1,2)], rule does_then [OF step_push_subst_v]) (use that(3) x after in \<open>auto intro: does_last\<close>)
    with that(1) show ?thesis by (auto simp del: length_greater_0_conv)
  qed
  have substr: "does (with_substr False (length (outs s1)) (?named v)) s' ?post"
    if s1: "moves s0 (Some (mangled_ident x @ w)) new s1" and s': "?post s'" and v: "vec_ok v" "vec_list v = []"
    for s1 s' v
  proof (rule step_with_substr [OF s'])
    have outs: "outs s1 = outs s0 @ new" "outs s' = outs s0 @ new @ [x]" using movesD [OF s1] movesD [OF s'] by simp_all
    then show "length (outs s1) < length (outs s')" by simp
    have cat: "concat (drop (length (outs s1)) (outs s')) = x" using outs by simp
    show "does (?named v (concat (drop (length (outs s1)) (outs s')))) t ?post" if "?post t" for t
      unfolding cat by (rule named [OF that v])
  qed
  have "does ?body s ?post"
  proof (rule step_with_init [OF assms(1)])
    fix t and v :: vector_str
    assume t: "moves s0 (Some (mangled_ident x @ w)) new t" and v: "vec_ok v" "vec_list v = []"
    have "does (all_of [cpp_demangle_read_uqname call, with_substr False (length (outs t)) (?named v)]) t ?post"
      by (rule does_then [OF step_read_uqname [OF t assms(2)]], rule does_last, rule substr [OF t _ v])
    then show "does (reading (\<lambda>s. vec_size (out False s)) (\<lambda>p_idx. all_of
     [cpp_demangle_read_uqname call, with_substr False p_idx (?named v)])) t ?post"
      by (intro does_simple) (simp only: sound_sizes [OF t])
  qed
  then show ?thesis
    unfolding cpp_demangle_read_name_def using digit_other [OF c(2)]
    by (simp add: does_look_eq(1) [OF cur]) (rule does_simple(5), simp only: heading)
qed

text \<open>Nested names: qualifiers of the function, then the components.\<close>

fun scoped :: "string list \<Rightarrow> string list" where
  "scoped [] = []"
| "scoped [x] = [x]"
| "scoped (x # y # xs) = x # ''::'' # scoped (y # xs)"

text \<open>A component is read, and what has been read so far becomes a substitution.\<close>

lemma step_noted:
  assumes "moves s0 w0 new s" "does f s (moves s0 (Some w) (new @ [x]))" "x \<noteq> []" "vec_ok v"
    "\<And>v s'. vec_ok v \<Longrightarrow> moves s0 (Some w) (new @ [x]) s' \<Longrightarrow> does (h v) s' R"
  shows "does (reading (\<lambda>s. vec_size (out False s)) (\<lambda>p_idx. all_of
     [f, with_substr False p_idx (\<lambda>x. with_push v x (length x) (\<lambda>v. all_of [cpp_demangle_push_subst_v v, h v]))])) s R"
proof -
  have pushed: "does (with_push v x (length x) (\<lambda>v. all_of [cpp_demangle_push_subst_v v, h v])) s' R"
    if "moves s0 (Some w) (new @ [x]) s'" for s'
    by (rule step_with_push [OF that assms(4)], rule does_then [OF step_push_subst_v])
      (use assms(3,5) in \<open>auto intro: does_last\<close>)
  have outs: "outs s = outs s0 @ new" using movesD [OF assms(1)] by simp
  show ?thesis
  proof (rule does_simple(5), rule does_then [OF assms(2)], rule does_last)
    fix s'
    assume s': "moves s0 (Some w) (new @ [x]) s'"
    have outs': "outs s' = outs s @ [x]" using movesD [OF s'] outs by simp
    then have cat: "concat (drop (length (outs s)) (outs s')) = x" by simp
    show "does (with_substr False (vec_size (out False s)) (\<lambda>x. with_push v x (length x)
        (\<lambda>v. all_of [cpp_demangle_push_subst_v v, h v]))) s' R"
      unfolding sound_sizes [OF assms(1)]
      by (rule step_with_substr [OF s']) (use outs' pushed cat in simp_all)
  qed
qed

lemma step_nested_component:
  assumes "moves s0 (Some (mangled_ident x @ w)) new s" "ident x" "vec_ok v"
    "\<And>v s'. vec_ok v \<Longrightarrow> moves s0 (Some w) (new @ [x]) s' \<Longrightarrow> does (look 0 (g v)) s' R"
  shows "does (reading (\<lambda>s. vec_size (out False s)) (\<lambda>p_idx. all_of
     [look 0 (\<lambda>c. if c = CHR ''I'' then cpp_demangle_read_tmpl_args call
        else if c = CHR ''S'' then cpp_demangle_read_subst call
        else if c = CHR ''T'' then cpp_demangle_read_tmpl_param
        else cpp_demangle_read_uqname call),
      with_substr False p_idx (\<lambda>x. with_push v x (length x) (\<lambda>v. all_of [cpp_demangle_push_subst_v v, look 0 (g v)]))])) s R"
proof (rule step_noted [OF assms(1) _ _ assms(3,4)])
  obtain c d cs where c: "mangled_ident x @ w = c # d # cs" "is_digit c" using mangled_ident_Cons [OF assms(2)] .
  then have cur: "cur_at 0 s = Some c" using assms(1) by (simp add: moves_def cur_at_def)
  show "does (look 0 (\<lambda>c. if c = CHR ''I'' then cpp_demangle_read_tmpl_args call
        else if c = CHR ''S'' then cpp_demangle_read_subst call
        else if c = CHR ''T'' then cpp_demangle_read_tmpl_param
        else cpp_demangle_read_uqname call)) s (moves s0 (Some w) (new @ [x]))"
    using step_read_uqname [OF assms(1,2)] digit_other [OF c(2)] by (simp add: does_look_eq(1) [OF cur])
qed (use assms(2) in \<open>simp_all add: ident_def\<close>)

text \<open>A name of the standard library: \<^verbatim>\<open>St\<close> and an identifier.\<close>

lemma does_anyway: "does f s R \<Longrightarrow> does (\<lambda>s. run_bind (f s) (\<lambda>(_, s'). yes s')) s R"
  by (elim doesE) (simp add: does_def)

lemma step_no_tmpl_args:
  assumes "moves s0 (Some w) new s" "first_char w \<noteq> CHR ''I''"
  shows "does (note_tmpl_args call tmp v) s (moves s0 (Some w) new)"
  unfolding note_tmpl_args_def using assms by (simp add: does_look_eq(1) [OF cur_at_moves [OF assms(1)]] if_so_def)

lemma step_read_subst_std:
  assumes "moves s0 (Some (''St'' @ mangled_ident x @ w)) new s" "ident x" "first_char w \<noteq> CHR ''I''"
  shows "does (cpp_demangle_read_subst_std call) s (moves s0 (Some w) (new @ [''std::'', x]))"
proof -
  let ?R = "moves s0 (Some w) ((new @ [''std::'']) @ [x])"
  let ?name = "\<lambda>tmp v. reading (\<lambda>s. vec_size (out tmp s)) (\<lambda>p_idx. all_of
      [cpp_demangle_read_uqname call, with_substr tmp p_idx (\<lambda>x. with_push v x (length x) (\<lambda>v. all_of
         [cpp_demangle_push_subst_v v, note_tmpl_args call tmp v]))])"
  have name: "does (reading heading (\<lambda>tmp. ?name tmp v)) s' ?R"
    if s': "moves s0 (Some (mangled_ident x @ w)) (new @ [''std::'']) s'" and v: "vec_ok v" for s' and v :: vector_str
  proof -
    have "does (?name False v) s' ?R"
      by (rule step_noted [OF s' step_read_uqname [OF s' assms(2)] _ v])
        (use assms(2) step_no_tmpl_args [OF _ assms(3)] in \<open>auto simp: ident_def\<close>)
    moreover have "heading s' = False" using s' by (simp add: moves_def)
    ultimately show ?thesis by - (rule does_simple(5), simp only:)
  qed
  have onward: "does (all_of [skip 2, reading heading (\<lambda>tmp. ?name tmp v)]) s' ?R"
    if s': "moves s0 (Some (''St'' @ mangled_ident x @ w)) (new @ [''std::'']) s'" and v: "vec_ok v" for s' and v :: vector_str
    by (rule does_then [OF step_skip [OF s']], simp, rule does_last, rule name [OF _ v])
  have "does (cpp_demangle_read_subst_std call) s ?R"
    unfolding cpp_demangle_read_subst_std_def
  proof (rule step_with_init [OF assms(1)], rule does_anyway)
    fix s' and v :: vector_str
    assume s': "moves s0 (Some (''St'' @ mangled_ident x @ w)) new s'" and v: "vec_ok v"
    show "does (all_of [push_lit ''std::'', with_push v ''std::'' 5 (\<lambda>v. all_of [skip 2, reading heading (\<lambda>tmp. ?name tmp v)])]) s' ?R"
      by (rule does_then [OF step_push_lit [OF s']], simp, rule does_last, rule step_with_push [OF _ v], assumption, rule onward)
  qed
  then show ?thesis by simp
qed

lemma step_read_std:
  assumes "moves s0 (Some (''St'' @ mangled_ident x @ w)) new s" "ident x" "first_char w \<noteq> CHR ''I''"
  shows "does (cpp_demangle_read_subst call) s (moves s0 (Some w) (new @ [''std::'', x]))"
proof -
  have cur: "cur_at 0 s = Some (CHR ''S'')" "cur_at 1 s = Some (CHR ''t'')" using assms(1) by (simp_all add: moves_def cur_at_def)
  have h: "switch_on std_names (SIMPLE_HASH (CHR ''S'') (CHR ''t'')) = None" "SIMPLE_HASH (CHR ''S'') (CHR ''t'') = hash_of ''St''"
    by (simp_all add: switch_on_def std_names_def hash_of_def SIMPLE_HASH_def schar_def)
  show ?thesis
    unfolding cpp_demangle_read_subst_def using step_read_subst_std [OF assms]
    by (simp add: does_look_eq(1) [OF cur(1)] does_look_eq(2) [OF cur] h(1) h(2) [symmetric] del: One_nat_def)
qed

lemma step_nested_list:
  assumes "moves s0 (Some (concat (map mangled_ident xs) @ CHR ''E'' # w)) new s" "xs \<noteq> []" "list_all ident xs"
    "length xs \<le> k" "vec_ok v"
  shows "does (read_nested_list call False k v) s (moves s0 (Some w) (new @ scoped xs))"
  using assms
proof (induction xs arbitrary: new s k v rule: scoped.induct)
  case (2 x)
  then obtain k' where k: "k = Suc k'" by (cases k) auto
  from 2 have m: "moves s0 (Some (mangled_ident x @ CHR ''E'' # w)) new s" "ident x" by simp_all
  show ?case
    unfolding k read_nested_list.simps
    by (rule step_nested_component [OF m 2(5)])
      (auto simp: does_look_eq(1) [OF cur_at_moves] first_char_def intro: step_skip [where x = "''E''"])
next
  case (3 x y xs)
  then obtain k' where k: "k = Suc k'" by (cases k) auto
  let ?rest = "concat (map mangled_ident (y # xs)) @ CHR ''E'' # w"
  from 3 have m: "moves s0 (Some (mangled_ident x @ ?rest)) new s" "ident x" "ident y" by simp_all
  obtain c d cs where c: "mangled_ident y @ concat (map mangled_ident xs) @ CHR ''E'' # w = c # d # cs" "is_digit c"
    using mangled_ident_Cons [OF m(3)] .
  then have fc: "first_char ?rest = c" by (simp add: first_char_def)
  have onward: "does (with_push v ''::'' 2 (\<lambda>v. read_nested_list call False k' v)) s' (moves s0 (Some w) (new @ scoped (x # y # xs)))"
    if "moves s0 (Some ?rest) (new @ [x] @ [''::'']) s'" "vec_ok v" for s' v
    by (rule step_with_push [OF that]) (use "3.IH" [of "new @ [x] @ [''::'']" _ k'] 3 k in auto)
  show ?case
    unfolding k read_nested_list.simps
  proof (rule step_nested_component [OF m(1,2) 3(6)])
    fix v' :: vector_str and s'
    assume v': "vec_ok v'" and s': "moves s0 (Some ?rest) (new @ [x]) s'"
    have "does (all_of [push_lit ''::'', with_push v' ''::'' 2 (\<lambda>v. read_nested_list call False k' v)]) s'
        (moves s0 (Some w) (new @ scoped (x # y # xs)))"
      by (rule does_then [OF step_push_lit [OF s']]) (use onward v' in \<open>auto intro: does_last\<close>)
    then show "does (look 0 (\<lambda>c. if c = CHR ''E'' then skip 1
           else if c \<noteq> CHR ''I'' \<and> c \<noteq> CHR ''C'' \<and> c \<noteq> CHR ''D'' then
             all_of [push_lit ''::'', with_push v' ''::'' 2 (\<lambda>v. read_nested_list call False k' v)]
           else read_nested_list call False k' v')) s' (moves s0 (Some w) (new @ scoped (x # y # xs)))"
      using digit_other [OF c(2)] by (simp add: does_look_eq(1) [OF cur_at_moves [OF s', unfolded fc]] del: scoped.simps)
  qed
qed simp

lemma moves_member_qualifier: "moves s0 w new s \<Longrightarrow> moves (member_qualifier q s0) w new (member_qualifier q s)"
  by (simp add: moves_def member_qualifier_def sound_def dd_ok_def outs_def same_flags_def)

lemma moves_member_qualifiers:
  "moves s0 w new s \<Longrightarrow> moves (fold member_qualifier qs s0) w new (fold member_qualifier qs s)"
  by (induction qs arbitrary: s0 s) (simp_all add: moves_member_qualifier)

lemma step_read_nested_name:
  assumes "moves s0 (Some (CHR ''N'' # qs @ concat (map mangled_ident xs) @ CHR ''E'' # w)) new s"
    "list_all is_member_qualifier qs" "xs \<noteq> []" "list_all ident xs" "length xs \<le> TRIES"
  shows "does (cpp_demangle_read_nested_name call) s (moves (fold member_qualifier qs s0) (Some w) (new @ scoped xs))"
proof -
  let ?w = "concat (map mangled_ident xs) @ CHR ''E'' # w"
  let ?s0 = "fold member_qualifier qs s0"
  obtain x xs' where xs: "xs = x # xs'" "ident x" using assms(3,4) by (cases xs) auto
  obtain c d cs where c: "?w = c # d # cs" "is_digit c"
    using mangled_ident_Cons [OF xs(2), of "concat (map mangled_ident xs') @ CHR ''E'' # w"] xs(1) by auto
  have tw: "takeWhile is_member_qualifier (qs @ ?w) = qs"
    using assms(2) digit_other [OF c(2)] c(1) by (auto simp: takeWhile_append list_all_iff is_member_qualifier_def)
  have nul: "first_char (qs @ ?w) \<noteq> NUL"
    using assms(2) digit_other [OF c(2)] c(1) by (cases qs) (auto simp: first_char_def is_member_qualifier_def)
  have quals: "does read_member_qualifiers s' (moves ?s0 (Some ?w) new)" if "moves s0 (Some (qs @ ?w)) new s'" for s'
  proof -
    have "d_cur s' = Some (qs @ ?w)" using that by (simp add: moves_def)
    then show ?thesis
      unfolding read_member_qualifiers_def
      by (rule does_at_cur) (use step_skip [OF moves_member_qualifiers [OF that, of qs] refl] tw in \<open>auto intro!: does_intros\<close>)
  qed
  have list: "does (reading heading (\<lambda>tmp. with_init (\<lambda>v. read_nested_list call tmp TRIES v))) s' (moves ?s0 (Some w) (new @ scoped xs))"
    if s': "moves ?s0 (Some ?w) new s'" for s'
  proof -
    have "heading s' = False" using s' by (simp add: moves_def)
    then show ?thesis
      by (intro does_simple(5)) (simp add: step_with_init [OF s'] step_nested_list assms)
  qed
  have checked: "does (look 0 (\<lambda>c. need (c \<noteq> NUL))) s' (moves s0 (Some (qs @ ?w)) new)" if "moves s0 (Some (qs @ ?w)) new s'" for s'
    using that nul by (simp add: does_look_eq(1) [OF cur_at_moves [OF that]]) (simp add: does_def)
  have "does (all_of [skip 1, look 0 (\<lambda>c. need (c \<noteq> NUL)), read_member_qualifiers,
      reading heading (\<lambda>tmp. with_init (\<lambda>v. read_nested_list call tmp TRIES v))]) s (moves ?s0 (Some w) (new @ scoped xs))"
    by (rule does_then [OF step_skip [where x = "''N''"]], use assms(1) in simp, simp)
      (rule does_then [OF checked], assumption, rule does_then [OF quals], assumption, rule does_last, rule list)
  then show ?thesis
    unfolding cpp_demangle_read_nested_name_def
    by (simp add: does_look_eq(1) [OF cur_at_moves [OF assms(1)]] first_char_def)
qed

definition mangled_name :: "string \<Rightarrow> string list \<Rightarrow> string" where
  "mangled_name qs xs = (if qs = [] \<and> length xs = 1 then mangled_ident (hd xs)
     else CHR ''N'' # qs @ concat (map mangled_ident xs) @ ''E'')"

definition name_ok :: "string list \<Rightarrow> bool" where
  "name_ok xs \<longleftrightarrow> xs \<noteq> [] \<and> list_all ident xs \<and> length xs \<le> 130"

lemma mangled_name_Cons:
  assumes "name_ok xs"
  obtains c d cs where "mangled_name qs xs @ w = c # d # cs" "is_digit c \<or> c = CHR ''N'' \<and> (is_digit d \<or> d \<in> set qs)"
proof -
  obtain x ys where xs: "xs = x # ys" "ident x" using assms by (cases xs) (auto simp: name_ok_def)
  show ?thesis
  proof (cases "qs = [] \<and> length xs = 1")
    case True
    obtain c d cs where "mangled_ident x @ w = c # d # cs" "is_digit c" using mangled_ident_Cons [OF xs(2)] .
    then show ?thesis using that [of c d cs] True xs(1) by (simp add: mangled_name_def)
  next
    case False
    obtain c d cs where c: "mangled_ident x @ concat (map mangled_ident ys) @ CHR ''E'' # w = c # d # cs" "is_digit c"
      using mangled_ident_Cons [OF xs(2)] .
    have "mangled_name qs xs @ w = CHR ''N'' # qs @ c # d # cs" using False c(1) xs(1) by (auto simp: mangled_name_def)
    with c(2) show ?thesis using that by (cases qs) auto
  qed
qed

lemma step_read_name:
  assumes "moves s0 (Some (mangled_name qs xs @ w)) new s" "name_ok xs" "list_all is_member_qualifier qs" "first_char w \<noteq> CHR ''I''"
  shows "does (cpp_demangle_read_name call) s (moves (fold member_qualifier qs s0) (Some w) (new @ scoped xs))"
proof (cases "qs = [] \<and> length xs = 1")
  case True
  then obtain x where x: "xs = [x]" by (cases xs) auto
  with True assms have "moves s0 (Some (mangled_ident x @ w)) new s" "ident x" by (simp_all add: mangled_name_def name_ok_def)
  from step_read_simple_name [OF this assms(4)] True x show ?thesis by simp
next
  case False
  with assms(1) have m: "moves s0 (Some (CHR ''N'' # qs @ concat (map mangled_ident xs) @ CHR ''E'' # w)) new s"
    by (auto simp: mangled_name_def split: if_splits)
  have "xs \<noteq> []" "list_all ident xs" "length xs \<le> TRIES"
    using assms(2) by (simp_all add: name_ok_def TRIES_def CPP_DEMANGLE_TRY_LIMIT_def)
  from step_read_nested_name [OF m assms(3) this] show ?thesis
    unfolding cpp_demangle_read_name_def
    by (simp add: does_look_eq(1) [OF cur_at_moves [OF m]] first_char_def)
qed

subsection \<open>Types\<close>

datatype mtype = Builtin char | Named "string list" | Std_Named string | Qualified type_qualifier mtype

definition qualifier_letter :: "type_qualifier \<Rightarrow> char" where
  "qualifier_letter q = the (map_of (map prod.swap qualifier_letters) q)"

primrec type_ok :: "mtype \<Rightarrow> bool" where
  "type_ok (Builtin c) \<longleftrightarrow> c \<in> set (map fst builtin_types)"
| "type_ok (Named xs) \<longleftrightarrow> name_ok xs"
| "type_ok (Std_Named x) \<longleftrightarrow> ident x"
| "type_ok (Qualified q t) \<longleftrightarrow> q \<noteq> TYPE_EXT \<and> type_ok t"

primrec mangled_type :: "mtype \<Rightarrow> string" where
  "mangled_type (Builtin c) = [c]"
| "mangled_type (Named xs) = mangled_name [] xs"
| "mangled_type (Std_Named x) = ''St'' @ mangled_ident x"
| "mangled_type (Qualified q t) = qualifier_letter q # mangled_type t"

definition builtin_text :: "char \<Rightarrow> string" where
  "builtin_text c = (case map_of builtin_types c of Some (t, len) \<Rightarrow> take len t | None \<Rightarrow> [])"

text \<open>What is appended for the type itself, and its qualifiers in the order they are read.\<close>

primrec base_out :: "mtype \<Rightarrow> string list" where
  "base_out (Builtin c) = [builtin_text c]"
| "base_out (Named xs) = scoped xs"
| "base_out (Std_Named x) = [''std::'', x]"
| "base_out (Qualified q t) = base_out t"

primrec quals_of :: "mtype \<Rightarrow> type_qualifier list" where
  "quals_of (Builtin c) = []"
| "quals_of (Named xs) = []"
| "quals_of (Std_Named x) = []"
| "quals_of (Qualified q t) = q # quals_of t"

definition type_out :: "mtype \<Rightarrow> string list" where
  "type_out t = base_out t @ map (the \<circ> qualifier_text) (rev (quals_of t))"

text \<open>The type as it is written: \<open>char const*\<close>.\<close>

primrec shown_type :: "mtype \<Rightarrow> string" where
  "shown_type (Builtin c) = builtin_text c"
| "shown_type (Named xs) = concat (scoped xs)"
| "shown_type (Std_Named x) = ''std::'' @ x"
| "shown_type (Qualified q t) = shown_type t @ the (qualifier_text q)"

lemma concat_type_out: "concat (type_out t) = shown_type t"
  by (induction t) (simp_all add: type_out_def)

lemma qualifier_letters_inv: "q \<noteq> TYPE_EXT \<Longrightarrow> map_of qualifier_letters (qualifier_letter q) = Some q"
  by (cases q) (simp_all add: qualifier_letter_def qualifier_letters_def)

lemma builtin_types_text: "list_all (\<lambda>(c, t, len). map_of qualifier_letters c = None \<and> c \<noteq> CHR ''U'' \<and> c \<noteq> CHR ''I'' \<and> c \<noteq> NUL \<and>
    c \<noteq> CHR ''@'' \<and> c \<noteq> CHR ''_'' \<and> len \<noteq> 0 \<and> take len t \<noteq> [] \<and> hd (take len t) \<noteq> CHR ''>'') builtin_types"
  by (simp add: builtin_types_def qualifier_letters_def)

lemma builtin_type:
  assumes "c \<in> set (map fst builtin_types)"
  obtains t len where "map_of builtin_types c = Some (t, len)" "builtin_text c = take len t" "map_of qualifier_letters c = None"
    "c \<noteq> CHR ''U''" "c \<noteq> CHR ''I''" "c \<noteq> NUL" "c \<noteq> CHR ''@''" "c \<noteq> CHR ''_''" "len \<noteq> 0" "builtin_text c \<noteq> []" "hd (builtin_text c) \<noteq> CHR ''>''"
proof -
  obtain t len where m: "map_of builtin_types c = Some (t, len)"
    using assms by (cases "map_of builtin_types c") (auto simp: map_of_eq_None_iff)
  from map_of_SomeD [OF m] builtin_types_text m show ?thesis
    by (intro that [of t len]) (auto simp: list_all_iff builtin_text_def)
qed

lemma type_letters: "list_all (\<lambda>(c, _). \<not> is_digit c \<and> c \<noteq> CHR ''N'') builtin_types"
    "list_all (\<lambda>(c, _). \<not> is_digit c \<and> c \<noteq> CHR ''N'') qualifier_letters"
  by (simp_all add: builtin_types_def qualifier_letters_def is_digit_def)

lemma digit_no_type:
  assumes "is_digit c \<or> c = CHR ''N''"
  shows "map_of builtin_types c = None" "map_of qualifier_letters c = None"
  using assms type_letters by (auto simp: map_of_eq_None_iff list_all_iff)

lemma name_start:
  assumes "is_digit c \<or> c = CHR ''N''"
  shows "c \<noteq> CHR ''A''" "c \<noteq> CHR ''F''" "c \<noteq> CHR ''M''" "c \<noteq> CHR ''S''" "c \<noteq> CHR ''T''" "c \<noteq> CHR ''u''" "c \<noteq> CHR ''U''" "c \<noteq> CHR ''I''"
    "c \<noteq> CHR ''@''" "c \<noteq> NUL" "c \<noteq> CHR ''_''"
  using assms by (auto simp: is_digit_def)

lemma step_on_dd:
  assumes "does f s R"
  shows "does (on_dd f) (s, l) (\<lambda>(s', l'). R s' \<and> l' = l)"
  using assms by (elim doesE) (simp add: does_def on_dd_def)

lemma does_look_t: "cur_at 0 s = Some c \<Longrightarrow> does (look_t g) (s, l) R = does (g c) (s, l) R"
  by (simp add: does_def look_t_def)

text \<open>The qualifiers are written in the opposite order; each longer type becomes a substitution.\<close>

lemma step_push_qualifiers:
  assumes "moves s0 w new s" "vec_ok v" "concat (vec_list v) \<noteq> []" "list_all (\<lambda>q. q \<noteq> TYPE_EXT) qs"
  shows "does (push_qualifiers ext (Some v) qs) s (moves s0 w (new @ map (the \<circ> qualifier_text) qs))"
  using assms
proof (induction qs arbitrary: new s v)
  case (Cons q qs)
  then obtain t where t: "qualifier_text q = Some t" "t \<noteq> []" by (cases q) auto
  have onward: "does (push_qualifiers ext (Some v') qs) s' (moves s0 w ((new @ [t]) @ map (the \<circ> qualifier_text) qs))"
    if "moves s0 w (new @ [t]) s'" "vec_ok v'" "vec_list v' = vec_list v @ [t]" for s' v'
    using Cons.prems that by (intro Cons.IH) auto
  have "does (with_push v t (length t) (\<lambda>v'. andthen (cpp_demangle_push_subst_v v') (push_qualifiers ext (Some v') qs))) s'
      (moves s0 w ((new @ [t]) @ map (the \<circ> qualifier_text) qs))" if s': "moves s0 w (new @ [t]) s'" for s'
    by (rule step_with_push [OF s' Cons.prems(2)], rule does_andthen, rule does_mono [OF step_push_subst_v], assumption, assumption)
      (use t onward in auto)
  then have "does (andthen (push_lit t) (with_push v t (length t)
      (\<lambda>v'. andthen (cpp_demangle_push_subst_v v') (push_qualifiers ext (Some v') qs)))) s
      (moves s0 w ((new @ [t]) @ map (the \<circ> qualifier_text) qs))"
    by (intro does_andthen does_mono [OF step_push_lit [OF Cons.prems(1) t(2)]])
  then show ?case using t by (simp add: comp_def)
qed simp

lemma step_push_type_qualifier:
  assumes "moves s0 w new s" "vec_ok (quals v)" "list_all (\<lambda>q. q \<noteq> TYPE_EXT) (vec_list (quals v))" "t \<noteq> []"
  shows "does (cpp_demangle_push_type_qualifier v (Some t)) s (moves s0 w (new @ map (the \<circ> qualifier_text) (rev (vec_list (quals v)))))"
proof (cases "vec_size (quals v) = 0")
  case True
  then have "vec_list (quals v) = []" by (simp add: vec_list_def)
  with True assms(1) show ?thesis by (simp add: cpp_demangle_push_type_qualifier_def)
next
  case False
  then have eq: "cpp_demangle_push_type_qualifier v (Some t) = with_init (\<lambda>u. with_push u t (length t)
      (\<lambda>u. push_qualifiers (ext_name v) (Some u) (rev (vec_list (quals v)))))"
    by (simp add: cpp_demangle_push_type_qualifier_def)
  have rev: "list_all (\<lambda>q. q \<noteq> TYPE_EXT) (rev (vec_list (quals v)))" using assms(3) by (simp add: list_all_iff)
  show ?thesis
    unfolding eq
    by (rule step_with_init [OF assms(1)], rule step_with_push, assumption, assumption, rule step_push_qualifiers)
      (use rev assms(4) in auto)
qed

lemma scoped_not_Nil: "name_ok xs \<Longrightarrow> scoped xs \<noteq> [] \<and> concat (scoped xs) \<noteq> []"
  by (cases xs rule: scoped.cases) (auto simp: name_ok_def ident_def)

lemma base_out_not_Nil: "type_ok t \<Longrightarrow> base_out t \<noteq> [] \<and> concat (base_out t) \<noteq> []"
proof (induction t)
  case (Builtin c)
  then have "c \<in> set (map fst builtin_types)" by simp
  then have "builtin_text c \<noteq> []" by (rule builtin_type)
  then show ?case by simp
qed (simp_all add: scoped_not_Nil del: concat_eq_Nil_conv)

lemma quals_of_ok: "type_ok t \<Longrightarrow> list_all (\<lambda>q. q \<noteq> TYPE_EXT) (quals_of t)"
  by (induction t) simp_all

lemma step_push_type_subst:
  assumes "moves s0 w new s"
  shows "does (push_type_subst b x) s (moves s0 w new)"
proof -
  have ok: "vec_ok (d_subst s)" "sound s" "d_cur s = w" using assms by (simp_all add: moves_def sound_def dd_ok_def)
  have "does (on_subst (vector_str_push x (length x))) s (moves s0 w new)"
    by (rule does_mono [OF does_on_subst [OF ok(2)]], drule moves_trans [OF assms]) (simp add: ok(3))
  with assms show ?thesis by (simp add: push_type_subst_def does_def vector_str_find_spec [OF ok(1)] yes_def)
qed

lemma step_type_init:
  assumes "moves s0 w new s"
  obtains l s' where "type_init s = Done ((True, l), s')" "moves s0 w new s'" "vec_ok (quals (l_v l))" "vec_list (quals (l_v l)) = []"
proof -
  obtain b m where b: "malloc (4 * VECTOR_DEF_CAPACITY) (d_libc s) = (b, m)" by fastforce
  obtain c m' where c: "malloc (8 * VECTOR_DEF_CAPACITY) m = (c, m')" by fastforce
  have plenty: "plenty (d_libc s)" "plenty m"
    using assms malloc_same [OF b] by (simp_all add: moves_def sound_def)
  have "b" "c" using malloc_plenty [OF b] malloc_plenty [OF c] plenty by simp_all
  moreover have "moves s0 w new (s\<lparr>d_libc := m'\<rparr>)"
    using malloc_same [OF b] malloc_same [OF c] same_libc_trans by (blast intro: moves_libc [OF assms])
  ultimately show ?thesis
    using that b c by (simp add: type_init_def vector_type_qualifier_init_def vector_str_init_def)
qed

text \<open>Nothing of this ends in a template, and no type begins like one.\<close>

definition plain_end :: "string list \<Rightarrow> bool" where
  "plain_end xs \<longleftrightarrow> xs \<noteq> [] \<and> \<not> strncmp_eq (last xs) ''>'' 1"

lemma plain_endI: "x \<noteq> [] \<Longrightarrow> hd x \<noteq> CHR ''>'' \<Longrightarrow> xs \<noteq> [] \<Longrightarrow> last xs = x \<Longrightarrow> plain_end (ys @ xs)"
  by (cases x) (auto simp: plain_end_def strncmp_eq_def)

lemma last_scoped: "xs \<noteq> [] \<Longrightarrow> last (scoped xs) = last xs"
proof (induction xs rule: scoped.induct)
  case (3 x y xs)
  then show ?case by (cases xs) auto
qed simp_all

lemma plain_end_scoped:
  assumes "name_ok xs"
  shows "plain_end (ys @ scoped xs)"
proof -
  have "ident (last xs)" "xs \<noteq> []" using assms by (auto simp: name_ok_def list_all_iff)
  then show ?thesis using scoped_not_Nil [OF assms] by (intro plain_endI [of "last xs"]) (auto simp: ident_def last_scoped)
qed

lemma plain_end_type: "type_ok t \<Longrightarrow> plain_end (ys @ type_out t)"
proof (induction t)
  case (Builtin c)
  then have "c \<in> set (map fst builtin_types)" by simp
  from builtin_type [OF this] have "builtin_text c \<noteq> []" "hd (builtin_text c) \<noteq> CHR ''>''" by metis+
  then show ?case by (intro plain_endI [of "builtin_text c"]) (simp_all add: type_out_def)
next
  case (Qualified q t)
  then have "q \<noteq> TYPE_EXT" by simp
  then have "the (qualifier_text q) \<noteq> []" "hd (the (qualifier_text q)) \<noteq> CHR ''>''" by (cases q; simp)+
  then show ?case by (intro plain_endI [of "the (qualifier_text q)"]) (simp_all add: type_out_def)
next
  case (Std_Named x)
  then show ?case by (intro plain_endI [of x]) (simp_all add: type_out_def ident_def)
qed (simp add: type_out_def plain_end_scoped)

lemma type_start:
  assumes "type_ok t"
  shows "first_char (mangled_type t @ w) \<notin> {CHR ''I'', NUL, CHR ''@'', CHR ''_''}"
proof (cases t)
  case (Builtin c)
  with assms have "c \<in> set (map fst builtin_types)" by simp
  from builtin_type [OF this] have "c \<noteq> CHR ''I''" "c \<noteq> NUL" "c \<noteq> CHR ''@''" "c \<noteq> CHR ''_''" by metis+
  with Builtin show ?thesis by (simp add: first_char_def)
next
  case (Named xs)
  with assms obtain c d cs where "mangled_name [] xs @ w = c # d # cs" and c: "is_digit c \<or> c = CHR ''N''"
    by (auto intro: mangled_name_Cons [of xs "[]" w])
  with Named show ?thesis using name_start(8-11) [OF c] by (simp add: first_char_def)
next
  case (Qualified q u)
  with assms have "q \<noteq> TYPE_EXT" by simp
  then have "qualifier_letter q \<notin> {CHR ''I'', NUL, CHR ''@'', CHR ''_''}" by (cases q) (simp_all add: qualifier_letter_def qualifier_letters_def)
  with Qualified show ?thesis by (simp add: first_char_def)
qed (simp add: first_char_def)

lemma plain_end_output:
  assumes "sound s" "plain_end (outs s)"
  shows "vec_size (d_output s) > 0" "ends_in_template (d_output s) = Done False"
proof -
  have ok: "vec_ok (d_output s)" using assms(1) by (simp add: sound_def dd_ok_def)
  have size: "vec_size (d_output s) = length (outs s)" by (rule sound_size [OF assms(1)])
  then show pos: "vec_size (d_output s) > 0" using assms(2) by (simp add: plain_end_def)
  then show "ends_in_template (d_output s) = Done False"
    using assms(2) size by (simp add: ends_in_template_def slot_at_ok [OF ok] plain_end_def last_conv_nth outs_def [symmetric])
qed

text \<open>The state once the parenthesis of the parameters is open.\<close>

definition opened :: "dd \<Rightarrow> dd" where
  "opened s = s\<lparr>d_paren := True, d_pfirst := False\<rparr>"

text \<open>The calls a type needs: a name is read as \<^verbatim>\<open>step_read_name\<close> tells.\<close>

locale name_calls =
  fixes call :: calls
  assumes name_call: "moves s0 (Some (mangled_name [] xs @ w)) new s \<Longrightarrow> name_ok xs \<Longrightarrow> first_char w \<noteq> CHR ''I'' \<Longrightarrow>
    does (call Part_name) s (moves s0 (Some w) (new @ scoped xs))"
begin

lemma step_plain_type:
  assumes "moves s0 (Some (mangled_type t @ w)) new s" "type_ok t" "quals_of t = []" "first_char w \<noteq> CHR ''I''"
  shows "does (read_plain_type call (hd (mangled_type t))) (s, l) (\<lambda>(s', l'). moves s0 (Some w) (new @ base_out t) s' \<and> l_v l' = l_v l)"
proof (cases t)
  case (Builtin c)
  with assms(2) have "c \<in> set (map fst builtin_types)" by simp
  then obtain x len where x: "map_of builtin_types c = Some (x, len)" "builtin_text c = take len x" "len \<noteq> 0"
    by (rule builtin_type)
  have "moves s0 (Some ([c] @ w)) new s" using assms(1) Builtin by simp
  from step_push_str [OF this x(3), of x]
  have "does (on_dd (cpp_demangle_push_str x len)) (s, l) (\<lambda>(s', l'). moves s0 (Some ([c] @ w)) (new @ [builtin_text c]) s' \<and> l' = l)"
    unfolding x(2) by (rule step_on_dd)
  then have "does (all_of [on_dd (cpp_demangle_push_str x len), on_dd (skip 1)]) (s, l)
      (\<lambda>(s', l'). moves s0 (Some w) (new @ [builtin_text c]) s' \<and> l' = l)"
  proof (rule does_then, clarify, intro does_last)
    fix s' l'
    assume "moves s0 (Some ([c] @ w)) (new @ [builtin_text c]) s'"
    from step_on_dd [OF step_skip [OF this], of 1 l]
    show "does (on_dd (skip 1)) (s', l) (\<lambda>(s', l'). moves s0 (Some w) (new @ [builtin_text c]) s' \<and> l' = l)" by simp
  qed
  then show ?thesis using Builtin x(1) by (auto simp: read_plain_type_def elim: does_mono)
next
  case (Named xs)
  with assms have m: "moves s0 (Some (mangled_name [] xs @ w)) new s" "name_ok xs" by simp_all
  obtain c d cs where c: "mangled_name [] xs @ w = c # d # cs" "is_digit c \<or> c = CHR ''N''"
    by (rule mangled_name_Cons [OF m(2), of "[]" w]) auto
  then have hd: "hd (mangled_type t) = c" using Named by (cases "mangled_name [] xs") (auto simp: mangled_name_def mangled_ident_def split: if_splits)
  have "does (all_of [on_dd (call Part_name), not_builtin]) (s, l) (\<lambda>(s', l'). moves s0 (Some w) (new @ scoped xs) s' \<and> l_v l' = l_v l)"
    by (rule does_then [OF step_on_dd [OF name_call [OF m assms(4)]]]) (auto simp: not_builtin_def on_locals_def does_def)
  then show ?thesis
    unfolding hd read_plain_type_def digit_no_type(1) [OF c(2)] by (simp add: name_start [OF c(2)] Named)
next
  case (Std_Named x)
  with assms have m: "moves s0 (Some (''St'' @ mangled_ident x @ w)) new s" "ident x" by simp_all
  have "does (all_of [on_dd (cpp_demangle_read_subst call), not_builtin]) (s, l)
      (\<lambda>(s', l'). moves s0 (Some w) (new @ [''std::'', x]) s' \<and> l_v l' = l_v l)"
    by (rule does_then [OF step_on_dd [OF step_read_std [OF m assms(4)]]]) (auto simp: not_builtin_def on_locals_def does_def)
  moreover have "map_of builtin_types (CHR ''S'') = None" by (simp add: builtin_types_def)
  ultimately show ?thesis using Std_Named by (simp add: read_plain_type_def)
qed (use assms(3) in simp)

lemma step_type_again:
  assumes "moves s0 (Some (mangled_type t @ w)) new s" "type_ok t" "vec_ok (quals (l_v l))" "first_char w \<noteq> CHR ''I''"
    "length (quals_of t) < k"
  shows "does (read_type_again call k) (s, l) (\<lambda>(s', l'). moves s0 (Some w) (new @ base_out t) s' \<and>
     vec_ok (quals (l_v l')) \<and> vec_list (quals (l_v l')) = vec_list (quals (l_v l)) @ quals_of t)"
  using assms
proof (induction t arbitrary: s l k)
  case (Qualified q t)
  then obtain k' where k: "k = Suc k'" by (cases k) auto
  from Qualified.prems have m: "moves s0 (Some ([qualifier_letter q] @ mangled_type t @ w)) new s" and q: "q \<noteq> TYPE_EXT" "type_ok t"
    by simp_all
  have plenty: "plenty (d_libc s)" using m by (simp add: moves_def sound_def)
  have push: "does (push_qualifier q) (s, l) (\<lambda>(s', l'). moves s0 (Some ([qualifier_letter q] @ mangled_type t @ w)) new s' \<and>
      vec_ok (quals (l_v l')) \<and> vec_list (quals (l_v l')) = vec_list (quals (l_v l)) @ [q])"
    unfolding does_def push_qualifier_def prod.case yields_bind
    by (rule yields_mono [OF quals.append_law [OF Qualified.prems(3), of q "d_libc s"]])
      (use plenty moves_libc [OF m] in \<open>auto split: if_splits\<close>)
  have "does (all_of [push_qualifier q, on_dd (skip 1), read_type_again call k']) (s, l)
     (\<lambda>(s', l'). moves s0 (Some w) (new @ base_out t) s' \<and> vec_ok (quals (l_v l')) \<and>
        vec_list (quals (l_v l')) = vec_list (quals (l_v l)) @ q # quals_of t)"
  proof (rule does_then [OF push], clarify)
    fix s' and l' :: type_locals
    assume s': "moves s0 (Some ([qualifier_letter q] @ mangled_type t @ w)) new s'"
      and l': "vec_ok (quals (l_v l'))" "vec_list (quals (l_v l')) = vec_list (quals (l_v l)) @ [q]"
    show "does (all_of [on_dd (skip 1), read_type_again call k']) (s', l') (\<lambda>(s', l'). moves s0 (Some w) (new @ base_out t) s' \<and>
        vec_ok (quals (l_v l')) \<and> vec_list (quals (l_v l')) = vec_list (quals (l_v l)) @ q # quals_of t)"
      by (rule does_then [OF step_on_dd [OF step_skip [OF s']]], simp, clarify, rule does_last, rule does_mono [OF Qualified.IH])
        (use Qualified.prems k l' in auto)
  qed
  moreover have "cur_at 0 s = Some (qualifier_letter q)" using cur_at_moves [OF m] by (simp add: first_char_def)
  ultimately show ?case using qualifier_letters_inv [OF q(1)] k by (simp add: does_look_t)
next
  case (Builtin c)
  then obtain k' where k: "k = Suc k'" by (cases k) auto
  have c: "c \<in> set (map fst builtin_types)" using Builtin by simp
  have cur: "cur_at 0 s = Some c" using cur_at_moves [OF Builtin.prems(1)] by (simp add: first_char_def)
  have "map_of qualifier_letters c = None" "c \<noteq> CHR ''U''" using builtin_type [OF c] by metis+
  then show ?case
    using step_plain_type [OF Builtin.prems(1,2) _ Builtin.prems(4), of l] Builtin.prems(3)
    by (auto simp: k does_look_t [OF cur] elim!: does_mono)
next
  case (Named xs)
  then obtain k' where k: "k = Suc k'" by (cases k) auto
  obtain c d cs where c: "mangled_name [] xs @ w = c # d # cs" "is_digit c \<or> c = CHR ''N''"
    by (rule mangled_name_Cons [of xs "[]" w]) (use Named.prems(2) in auto)
  then have cur: "cur_at 0 s = Some c" using cur_at_moves [OF Named.prems(1)] by (simp add: first_char_def)
  have "hd (mangled_name [] xs) = c"
    using c(1) by (cases "mangled_name [] xs") (auto simp: mangled_name_def mangled_ident_def split: if_splits)
  then show ?case
    using step_plain_type [OF Named.prems(1,2) _ Named.prems(4), of l] Named.prems(3) digit_no_type(2) [OF c(2)] name_start(7) [OF c(2)]
    by (auto simp: k does_look_t [OF cur] elim!: does_mono)
next
  case (Std_Named x)
  then obtain k' where k: "k = Suc k'" by (cases k) auto
  have cur: "cur_at 0 s = Some (CHR ''S'')" using cur_at_moves [OF Std_Named.prems(1)] by (simp add: first_char_def)
  have "map_of qualifier_letters (CHR ''S'') = None" by (simp add: qualifier_letters_def)
  then show ?case
    using step_plain_type [OF Std_Named.prems(1,2) _ Std_Named.prems(4), of l] Std_Named.prems(3)
    by (auto simp: k does_look_t [OF cur] elim!: does_mono)
qed

lemma step_type_read:
  assumes "moves s0 (Some (mangled_type t @ w)) new s" "type_ok t" "vec_ok (quals (l_v l))" "vec_list (quals (l_v l)) = []"
    "first_char w \<noteq> CHR ''I''"
  obtains s' l' where "type_read call l s = Done ((True, l'), s')" "moves s0 (Some w) (new @ base_out t) s'"
    "vec_ok (quals (l_v l'))" "vec_list (quals (l_v l')) = quals_of t"
proof -
  have "length (quals_of t) \<le> length (mangled_type t)" by (induction t) simp_all
  moreover have cur: "d_cur s = Some (mangled_type t @ w)" using assms(1) by (simp add: moves_def)
  ultimately have "length (quals_of t) < length (mangled_type t @ w) + 2" by simp
  from step_type_again [OF assms(1-3,5) this] obtain s' l' where
    "read_type_again call (length (mangled_type t @ w) + 2) (s, l) = Done (True, s', l')" "moves s0 (Some w) (new @ base_out t) s'"
    "vec_ok (quals (l_v l'))" "vec_list (quals (l_v l')) = quals_of t"
    using assms(4) by (elim doesE) auto
  then show ?thesis using that [of l' s'] cur by (simp add: type_read_def)
qed

lemma step_type_rest:
  assumes "moves s0 (Some (mangled_type t @ w)) new s" "type_ok t" "first_char w \<noteq> CHR ''I''"
  shows "does (read_type_rest call False) s (moves s0 (Some w) (new @ type_out t))"
proof -
  obtain l s1 where init: "type_init s = Done ((True, l), s1)" and s1: "moves s0 (Some (mangled_type t @ w)) new s1"
    and l: "vec_ok (quals (l_v l))" "vec_list (quals (l_v l)) = []" using step_type_init [OF assms(1)] .
  obtain s2 l' where read: "type_read call l s1 = Done ((True, l'), s2)" and s2: "moves s0 (Some w) (new @ base_out t) s2"
    and l': "vec_ok (quals (l_v l'))" "vec_list (quals (l_v l')) = quals_of t" using step_type_read [OF s1 assms(2) l assms(3)] .
  let ?t = "concat (base_out t)"
  have t: "base_out t \<noteq> []" "?t \<noteq> []" using base_out_not_Nil [OF assms(2)] by auto
  have outs: "outs s1 = outs s0 @ new" "outs s2 = outs s0 @ new @ base_out t" using movesD [OF s1] movesD [OF s2] by simp_all
  have last: "does (type_epilogue call) s' R" if "moves s0 (Some w) n s'" "R s'" for s' n R
  proof -
    have "heading s' = False" using that(1) by (simp add: moves_def)
    with that(2) show ?thesis by (simp add: type_epilogue_def does_def)
  qed
  have steps: "does (all_of [push_type_subst (l_is_builtin l') ?t, cpp_demangle_push_type_qualifier (l_v l') (Some ?t), type_epilogue call]) s3
      (moves s0 (Some w) (new @ type_out t))" if s3: "moves s0 (Some w) (new @ base_out t) s3" for s3
    by (rule does_then [OF step_push_type_subst [OF s3]],
        rule does_then [OF step_push_type_qualifier [OF _ l'(1) _ t(2)]], assumption)
      (use l'(2) quals_of_ok [OF assms(2)] last in \<open>auto simp: type_out_def intro!: does_last\<close>)
  have cat: "concat (drop (length (outs s1)) (outs s2)) = ?t" using outs by simp
  have "does (with_substr False (length (outs s1)) (\<lambda>type_str. all_of
         [push_type_subst (l_is_builtin l') type_str, cpp_demangle_push_type_qualifier (l_v l') (Some type_str), type_epilogue call])) s2
      (moves s0 (Some w) (new @ type_out t))"
    by (rule step_with_substr [OF s2], use outs t in simp) (unfold cat, rule steps)
  then show ?thesis
    unfolding read_type_rest_def
    by (simp add: does_def init read sound_sizes [OF s1])
qed

text \<open>The first parameter opens the parenthesis, the others follow a comma.\<close>

lemma step_first_param:
  assumes m: "moves s0 (Some (mangled_type t @ w)) new s" and "type_ok t" "first_char w \<noteq> CHR ''I''"
    "\<not> d_paren s0" "plain_end (outs s0 @ new)"
  shows "does (cpp_demangle_read_type call True) s (moves (opened s0) (Some w) (new @ [''(''] @ type_out t))"
proof -
  have sound: "sound s" "outs s = outs s0 @ new" "\<not> d_paren s" using assms by (simp_all add: moves_def same_flags_def)
  note plain = plain_end_output [of s] sound assms(5)
  let ?open = "\<lambda>s. s\<lparr>d_paren := True, d_pfirst := True,
      d_subst := (if vec_size (d_subst s) = 1 then vector_str_pop (d_subst s) else d_subst s)\<rparr>"
  have opens: "moves (opened s0) (Some (mangled_type t @ w)) (new @ [''('']) ((?open s')\<lparr>d_pfirst := False\<rparr>)"
    if "moves s0 (Some (mangled_type t @ w)) (new @ [''('']) s'" for s'
    using that by (simp add: moves_def sound_def dd_ok_def outs_def same_flags_def opened_def vector_str_pop_spec)
  have size: "\<not> vec_size (d_output s') < 2" if "moves s0 (Some (mangled_type t @ w)) (new @ [''('']) s'" for s'
  proof -
    have "0 < length (outs s0 @ new)" using assms(5) by (simp add: plain_end_def)
    moreover have "vec_size (d_output s') = Suc (length (outs s0 @ new))" using sound_size [of s'] movesD [OF that] by simp
    ultimately show ?thesis by linarith
  qed
  obtain s1 where push: "push_lit ''('' s = Done (True, s1)" and s1: "moves s0 (Some (mangled_type t @ w)) (new @ [''('']) s1"
    by (rule doesE [OF step_push_lit [OF m, of "''(''"]]) auto
  obtain s2 where "read_type_rest call False ((?open s1)\<lparr>d_pfirst := False\<rparr>) = Done (True, s2)"
      "moves (opened s0) (Some w) ((new @ [''('']) @ type_out t) s2"
    by (rule doesE [OF step_type_rest [OF opens [OF s1] assms(2,3)]])
  then show ?thesis
    unfolding cpp_demangle_read_type_def type_prologue_def
    using plain size [OF s1] push by (simp add: does_def)
qed

lemma step_next_param:
  assumes m: "moves s0 (Some (mangled_type t @ w)) new s" and "type_ok t" "first_char w \<noteq> CHR ''I''"
    "d_paren s0" "\<not> d_pfirst s0" "plain_end (outs s0 @ new)"
  shows "does (cpp_demangle_read_type call True) s (moves s0 (Some w) (new @ ['', ''] @ type_out t))"
proof -
  have sound: "sound s" "outs s = outs s0 @ new" "d_paren s" "\<not> d_pfirst s" using assms by (simp_all add: moves_def same_flags_def)
  note plain = plain_end_output [of s] sound assms(6)
  obtain s1 where push: "push_lit '', '' s = Done (True, s1)" and s1: "moves s0 (Some (mangled_type t @ w)) (new @ ['', '']) s1"
    by (rule doesE [OF step_push_lit [OF m, of "'', ''"]]) auto
  obtain s2 where "read_type_rest call False s1 = Done (True, s2)" "moves s0 (Some w) ((new @ ['', '']) @ type_out t) s2"
    by (rule doesE [OF step_type_rest [OF s1 assms(2,3)]])
  then show ?thesis
    unfolding cpp_demangle_read_type_def type_prologue_def
    using plain type_start [OF assms(2), of w] push by (simp add: does_def look_def cur_at_moves [OF m])
qed

end

lemma parts_name_calls: "name_calls (parts (Suc n))"
proof
  fix s0 xs w new s
  assume "moves s0 (Some (mangled_name [] xs @ w)) new s" "name_ok xs" "first_char w \<noteq> CHR ''I''"
  from step_read_name [OF this(1,2) _ this(3), of "parts n"]
  show "does (parts (Suc n) Part_name) s (moves s0 (Some w) (new @ scoped xs))" by simp
qed

interpretation named: name_calls "parts (Suc n)" for n
  by (rule parts_name_calls)

subsection \<open>Functions\<close>

lemma types_start:
  assumes "list_all type_ok ts"
  shows "first_char (concat (map mangled_type ts)) \<noteq> CHR ''I''"
  using assms type_start by (cases ts) (auto simp: first_char_def [of "[]"])

lemma read_params_type:
  assumes m: "moves s0 (Some (mangled_type t @ w)) new s" and "type_ok t"
  shows "read_params call (Suc k) s = all_of [call (Part_type True), if k = 0 then no else read_params call k] s"
proof -
  let ?w = "mangled_type t @ w"
  have start: "first_char ?w \<noteq> NUL" "first_char ?w \<noteq> CHR ''@''" using type_start [OF assms(2), of w] by auto
  then have "?w \<noteq> []" unfolding first_char_def by metis
  moreover have "d_cur s = Some ?w" using m by (simp add: moves_def)
  ultimately obtain c cs where "d_cur s = Some (c # cs)" by (cases ?w) auto
  then have d: "cur_at 1 s = Some (first_char cs)" by (cases cs) (simp_all add: cur_at_def first_char_def)
  show ?thesis
    using start d by (simp add: look_def cur_at_moves [OF m])
qed

lemma step_more_params:
  assumes "moves s0 (Some (concat (map mangled_type ts))) new s" "list_all type_ok ts" "d_paren s0" "\<not> d_pfirst s0"
    "plain_end (outs s0 @ new)" "length ts < k"
  shows "does (read_params (parts (Suc (Suc n))) k) s (moves s0 (Some []) (new @ concat (map (\<lambda>t. '', '' # type_out t) ts)))"
  using assms
proof (induction ts arbitrary: new s k)
  case Nil
  then obtain k' where k: "k = Suc k'" by (cases k) auto
  have cur: "cur_at 0 s = Some NUL" using cur_at_moves [OF Nil(1)] by (simp add: first_char_def)
  show ?case using Nil(1) by (simp add: k does_look_eq(1) [OF cur])
next
  case (Cons t ts)
  then obtain k' where k: "k = Suc k'" "k' \<noteq> 0" by (cases k) auto
  let ?w = "concat (map mangled_type ts)"
  have m: "moves s0 (Some (mangled_type t @ ?w)) new s" and t: "type_ok t" using Cons.prems by simp_all
  have first: "does (parts (Suc (Suc n)) (Part_type True)) s (moves s0 (Some ?w) (new @ ['', ''] @ type_out t))"
    using named.step_next_param [OF m t types_start] Cons.prems by simp
  have "does (all_of [parts (Suc (Suc n)) (Part_type True), read_params (parts (Suc (Suc n))) k']) s
      (moves s0 (Some []) (new @ concat (map (\<lambda>t. '', '' # type_out t) (t # ts))))"
  proof (rule does_then [OF first], rule does_last)
    fix s'
    assume s': "moves s0 (Some ?w) (new @ ['', ''] @ type_out t) s'"
    have "plain_end (outs s0 @ new @ ['', ''] @ type_out t)" using plain_end_type [OF t, of "outs s0 @ new @ ['', '']"] by simp
    from Cons.IH [OF s' _ _ _ this, of k'] Cons.prems k
    show "does (read_params (parts (Suc (Suc n))) k') s' (moves s0 (Some []) (new @ concat (map (\<lambda>t. '', '' # type_out t) (t # ts))))"
      by simp
  qed
  with k show ?case
    unfolding k does_def read_params_type [OF m t] by (simp del: parts.simps)
qed

text \<open>What follows the name: nothing for a variable, for a function its parameters in parentheses.\<close>

definition params_out :: "mtype list \<Rightarrow> string list" where
  "params_out ts = (case ts of [] \<Rightarrow> [] | t # ts \<Rightarrow> ''('' # type_out t @ concat (map (\<lambda>t. '', '' # type_out t) ts))"

lemma step_params:
  assumes m: "moves s0 (Some (concat (map mangled_type ts))) new s" and "list_all type_ok ts" "\<not> d_paren s0"
    "plain_end (outs s0 @ new)" "length ts \<le> 129"
  shows "does (read_params (parts (Suc (Suc n))) TRIES) s (moves (if ts = [] then s0 else opened s0) (Some []) (new @ params_out ts))"
proof (cases ts)
  case Nil
  with m have "moves s0 (Some []) new s" by simp
  from does_look_eq(1) [OF cur_at_moves [OF this]] this show ?thesis
    by (simp add: Nil params_out_def TRIES_def first_char_def)
next
  case (Cons t ts')
  let ?w = "concat (map mangled_type ts')"
  have m: "moves s0 (Some (mangled_type t @ ?w)) new s" and t: "type_ok t" "list_all type_ok ts'" "length ts' < 129"
    using assms Cons by simp_all
  have first: "does (parts (Suc (Suc n)) (Part_type True)) s (moves (opened s0) (Some ?w) (new @ [''(''] @ type_out t))"
    using named.step_first_param [OF m t(1) types_start [OF t(2)] assms(3,4)] by simp
  have "does (all_of [parts (Suc (Suc n)) (Part_type True), read_params (parts (Suc (Suc n))) 129]) s
      (moves (opened s0) (Some []) (new @ params_out ts))"
  proof (rule does_then [OF first], rule does_last)
    fix s'
    assume s': "moves (opened s0) (Some ?w) (new @ [''(''] @ type_out t) s'"
    have "plain_end (outs (opened s0) @ new @ [''(''] @ type_out t)" using plain_end_type [OF t(1), of "outs (opened s0) @ new @ [''('']"] by simp
    from step_more_params [OF s' t(2) _ _ this t(3)]
    show "does (read_params (parts (Suc (Suc n))) 129) s' (moves (opened s0) (Some []) (new @ params_out ts))"
      by (simp add: params_out_def Cons opened_def del: parts.simps)
  qed
  moreover have tries: "TRIES = Suc 129" by (simp add: TRIES_def CPP_DEMANGLE_TRY_LIMIT_def)
  ultimately show ?thesis
    unfolding tries does_def read_params_type [OF m t(1)] using Cons by (simp del: parts.simps)
qed

text \<open>The end: the parenthesis is closed and the qualifiers of the member function follow.\<close>

definition ending :: "bool \<Rightarrow> bool \<Rightarrow> bool \<Rightarrow> bool \<Rightarrow> string list" where
  "ending paren vat cst rst = (if paren then ['')''] else []) @ (if vat then ['' volatile''] else []) @
     (if cst then ['' const''] else []) @ (if rst then ['' restrict''] else [])"

lemma step_finish:
  assumes "moves s0 w new s" "new \<noteq> []"
  shows "does finish_name s (moves s0 w (new @ ending (d_paren s0) (d_mem_vat s0) (d_mem_cst s0) (d_mem_rst s0)))"
proof -
  have push: "does (\<lambda>s. if f s then on_output (vector_str_push x n) s else yes s) s' (moves s0 w (new' @ (if f s0 then [x] else [])))"
    if "moves s0 w new' s'" "f s' = f s0" "n = length x" for s' new' f x n
  proof -
    have "does (on_output (vector_str_push x n)) s' (moves s0 w (new' @ [take n x]))"
      by (rule step_on [OF that(1)]) (rule does_on_output)
    with that show ?thesis by (auto simp: does_def)
  qed
  have flags: "d_paren s' = d_paren s0" "d_mem_vat s' = d_mem_vat s0" "d_mem_cst s' = d_mem_cst s0" "d_mem_rst s' = d_mem_rst s0"
    if "moves s0 w n s'" for n s' using that by (simp_all add: moves_def same_flags_def)
  have size: "does (reading (\<lambda>s. vec_size (d_output s)) (\<lambda>n. need (n \<noteq> 0))) s (moves s0 w new)"
    using assms sound_size [of s] movesD [OF assms(1)] by (simp add: does_def)
  show ?thesis
    unfolding finish_name_def ending_def
    by (rule does_then [OF size], (rule does_then [OF push], assumption, simp add: flags, simp)+)
      (simp add: moves_def outs_def)
qed

lemma encoding_labels:
  assumes "is_digit c \<or> c = CHR ''N'' \<and> (is_digit d \<or> is_member_qualifier d)"
  shows "SIMPLE_HASH c d \<notin> hash_of ` {''GV'', ''Tc'', ''TD'', ''Th'', ''TI'', ''TS'', ''TT'', ''Tv'', ''TV''}"
proof -
  have labels: "\<forall>h \<in> hash_of ` {''GV'', ''Tc'', ''TD'', ''Th'', ''TI'', ''TS'', ''TT'', ''Tv'', ''TV''}. 4000 \<le> h \<and> (h \<le> 5000 \<or> 5200 \<le> h)"
    by (simp add: hash_simps)
  have range: "SIMPLE_HASH c d < 4000 \<or> 5000 < SIMPLE_HASH c d \<and> SIMPLE_HASH c d < 5200"
  proof (cases "is_digit c")
    case False
    with assms have "c = CHR ''N''" "is_digit d \<or> is_member_qualifier d" by auto
    moreover from this(2) have "48 \<le> schar d" by (auto simp: is_digit_def is_member_qualifier_def schar_def Let_def)
    ultimately show ?thesis using schar_bounds(2) [of d] by (simp add: SIMPLE_HASH_def schar_def [of "CHR ''N''"])
  qed (simp add: digit_hash)
  show ?thesis
  proof
    assume "SIMPLE_HASH c d \<in> hash_of ` {''GV'', ''Tc'', ''TD'', ''Th'', ''TI'', ''TS'', ''TT'', ''Tv'', ''TV''}"
    with labels have "4000 \<le> SIMPLE_HASH c d \<and> (SIMPLE_HASH c d \<le> 5000 \<or> 5200 \<le> SIMPLE_HASH c d)" by (rule bspec)
    with range show False by linarith
  qed
qed

lemma step_read_encoding:
  assumes m: "moves s0 (Some (mangled_name qs xs @ w)) new s" and xs: "name_ok xs" and qs: "list_all is_member_qualifier qs"
    and w: "first_char w \<noteq> CHR ''I''"
  shows "does (parts (Suc (Suc n)) Part_encoding) s (moves (fold member_qualifier qs s0) (Some w) (new @ scoped xs))"
proof -
  obtain c d cs where c: "mangled_name qs xs @ w = c # d # cs" "is_digit c \<or> c = CHR ''N'' \<and> (is_digit d \<or> d \<in> set qs)"
    using mangled_name_Cons [OF xs] .
  then have cur: "cur_at 0 s = Some c" "cur_at 1 s = Some d" using m by (simp_all add: moves_def cur_at_def)
  have cd: "is_digit c \<or> c = CHR ''N'' \<and> (is_digit d \<or> is_member_qualifier d)" using c(2) qs by (auto simp: list_all_iff)
  have "does (parts (Suc n) Part_name) s (moves (fold member_qualifier qs s0) (Some w) (new @ scoped xs))"
    using step_read_name [OF m xs qs w] by simp
  moreover have "c \<noteq> NUL" using cd by (auto simp: is_digit_def)
  ultimately have "does (cpp_demangle_read_encoding (parts (Suc n))) s (moves (fold member_qualifier qs s0) (Some w) (new @ scoped xs))"
    unfolding cpp_demangle_read_encoding_def
    using encoding_labels [OF cd] by (simp add: does_look_eq(1) [OF cur(1)] does_look_eq(2) [OF cur] del: parts.simps One_nat_def)
  then show ?thesis by simp
qed

lemma data_init_plenty:
  assumes "plenty m"
  obtains s m' where "cpp_demangle_data_init w m = (Some s, m')" "sound s" "outs s = []" "d_cur s = Some w"
    "\<not> d_paren s" "\<not> d_mem_rst s" "\<not> d_mem_vat s" "\<not> d_mem_cst s"
proof -
  have init: "\<exists>n. vector_str_init k = (True, fresh_vec, n) \<and> plenty n" "\<exists>n. vector_read_cmd_init k = (True, fresh_vec, n) \<and> plenty n"
    if "plenty k" for k
    using that by (auto simp: vector_str_init_def vector_read_cmd_init_def malloc_def plenty_def)
  obtain m1 where m1: "vector_str_init m = (True, fresh_vec, m1)" "plenty m1" using init(1) [OF assms] by auto
  obtain m2 where m2: "vector_str_init m1 = (True, fresh_vec, m2)" "plenty m2" using init(1) [OF m1(2)] by auto
  obtain m3 where m3: "vector_str_init m2 = (True, fresh_vec, m3)" "plenty m3" using init(1) [OF m2(2)] by auto
  obtain m4 where m4: "vector_str_init m3 = (True, fresh_vec, m4)" "plenty m4" using init(1) [OF m3(2)] by auto
  obtain m5 where m5: "vector_str_init m4 = (True, fresh_vec, m5)" "plenty m5" using init(1) [OF m4(2)] by auto
  obtain m6 where m6: "vector_read_cmd_init m5 = (True, fresh_vec, m6)" "plenty m6" using init(2) [OF m5(2)] by auto
  show ?thesis
    by (rule that) (auto simp: cpp_demangle_data_init_def m1 m2 m3 m4 m5 m6 sound_def dd_ok_def outs_def)
qed

lemma flat_output:
  assumes "moves s0 w new s" "outs s0 = []" "concat new \<noteq> []"
  obtains m where "vector_str_get_flat (d_output s) (d_libc s) = Done (Some (concat new), m)" "plenty m"
proof -
  have "vec_ok (d_output s)" "plenty (d_libc s)" "vec_list (d_output s) = new"
    using assms(1,2) by (simp_all add: moves_def sound_def dd_ok_def outs_def)
  with vector_str_get_flat_spec [of "d_output s" "d_libc s"] assms(3) that show ?thesis
    by (cases "vector_str_get_flat (d_output s) (d_libc s)") (auto split: option.splits)
qed

definition mangled :: "string \<Rightarrow> string list \<Rightarrow> mtype list \<Rightarrow> string" where
  "mangled qs xs ts = ''_Z'' @ mangled_name qs xs @ concat (map mangled_type ts)"

definition shown_params :: "mtype list \<Rightarrow> string" where
  "shown_params ts = (case ts of [] \<Rightarrow> [] | t # ts \<Rightarrow> ''('' @ shown_type t @ concat (map (\<lambda>u. '', '' @ shown_type u) ts) @ '')'')"

definition shown_function :: "string \<Rightarrow> string list \<Rightarrow> mtype list \<Rightarrow> string" where
  "shown_function qs xs ts = concat (scoped xs) @ shown_params ts @ (if CHR ''V'' \<in> set qs then '' volatile'' else []) @
     (if CHR ''K'' \<in> set qs then '' const'' else []) @ (if CHR ''r'' \<in> set qs then '' restrict'' else [])"

lemma member_flags:
  assumes "list_all is_member_qualifier qs"
  shows "d_mem_vat (fold member_qualifier qs s) \<longleftrightarrow> d_mem_vat s \<or> CHR ''V'' \<in> set qs"
    "d_mem_cst (fold member_qualifier qs s) \<longleftrightarrow> d_mem_cst s \<or> CHR ''K'' \<in> set qs"
    "d_mem_rst (fold member_qualifier qs s) \<longleftrightarrow> d_mem_rst s \<or> CHR ''r'' \<in> set qs"
    "d_paren (fold member_qualifier qs s) = d_paren s" "outs (fold member_qualifier qs s) = outs s"
  using assms by (induction qs arbitrary: s) (auto simp: member_qualifier_def is_member_qualifier_def outs_def)

lemma concat_more_params: "concat (concat (map (\<lambda>t. '', '' # type_out t) ts)) = concat (map (\<lambda>u. '', '' @ shown_type u) ts)"
  by (induction ts) (simp_all add: concat_type_out)

lemma concat_params_out:
  "concat (params_out ts) @ (if ts = [] then [] else '')'') = shown_params ts"
  by (cases ts) (simp_all add: params_out_def shown_params_def concat_type_out concat_more_params)

lemma demangle_function:
  assumes "plenty m" "name_ok xs" "list_all is_member_qualifier qs" "list_all type_ok ts" "length ts \<le> 129" "2 \<le> fuel"
  obtains m' where "cxa_demangle_gnu3 fuel (mangled qs xs ts) m = Done (Some (shown_function qs xs ts), m')" "plenty m'"
proof -
  obtain n where n: "fuel = Suc (Suc n)" using assms(6) by (cases fuel rule: nat.exhaust; cases "fuel - 1") auto
  let ?w = "concat (map mangled_type ts)"
  obtain s m1 where init: "cpp_demangle_data_init (mangled_name qs xs @ ?w) m = (Some s, m1)" and s: "sound s" "outs s = []"
      "d_cur s = Some (mangled_name qs xs @ ?w)" "\<not> d_paren s" "\<not> d_mem_rst s" "\<not> d_mem_vat s" "\<not> d_mem_cst s"
    using data_init_plenty [OF assms(1)] .
  let ?s = "fold member_qualifier qs s"
  let ?f = "if ts = [] then ?s else opened ?s"
  have flags: "d_paren ?f = (ts \<noteq> [])" "d_mem_vat ?f = (CHR ''V'' \<in> set qs)" "d_mem_cst ?f = (CHR ''K'' \<in> set qs)"
      "d_mem_rst ?f = (CHR ''r'' \<in> set qs)" "outs ?f = []"
    using s member_flags [OF assms(3), of s] by (auto simp: opened_def outs_def)
  let ?new = "(scoped xs @ params_out ts) @ ending (ts \<noteq> []) (CHR ''V'' \<in> set qs) (CHR ''K'' \<in> set qs) (CHR ''r'' \<in> set qs)"
  have "does (all_of [parts fuel Part_encoding, read_params (parts fuel) TRIES, finish_name]) s (moves ?f (Some []) ?new)"
  proof (rule does_then)
    show "does (parts fuel Part_encoding) s (moves ?s (Some ?w) (scoped xs))"
      unfolding n using step_read_encoding [OF moves_refl [OF s(1,3)] assms(2,3) types_start [OF assms(4)]] by simp
  next
    fix s1
    assume s1: "moves ?s (Some ?w) (scoped xs) s1"
    have "\<not> d_paren ?s" "plain_end (outs ?s @ scoped xs)"
      using member_flags(4) [OF assms(3), of s] s(4) plain_end_scoped [OF assms(2)] by simp_all
    from step_params [OF s1 assms(4) this assms(5)]
    have p: "does (read_params (parts fuel) TRIES) s1 (moves ?f (Some []) (scoped xs @ params_out ts))" unfolding n .
    have f: "does finish_name s2 (moves ?f (Some []) ?new)" if "moves ?f (Some []) (scoped xs @ params_out ts) s2" for s2
      using step_finish [OF that] scoped_not_Nil [OF assms(2)] by (simp only: flags) simp
    show "does (all_of [read_params (parts fuel) TRIES, finish_name]) s1 (moves ?f (Some []) ?new)"
      by (rule does_then [OF p], rule does_last, rule f)
  qed
  then obtain s2 where s2: "all_of [parts fuel Part_encoding, read_params (parts fuel) TRIES, finish_name] s = Done (True, s2)"
      "moves ?f (Some []) ?new s2" by (rule doesE)
  have shown: "concat ?new = shown_function qs xs ts"
    using concat_params_out [of ts] by (auto simp: shown_function_def ending_def)
  have "concat ?new \<noteq> []" using scoped_not_Nil [OF assms(2)] by simp
  from flat_output [OF s2(2) flags(5) this] obtain m' where
    "vector_str_get_flat (d_output s2) (d_libc s2) = Done (Some (shown_function qs xs ts), m')" "plenty m'" unfolding shown .
  then show ?thesis
    using that s2(1) init by (simp add: cxa_demangle_gnu3_def mangled_def)
qed

text \<open>The name of a type, as \<^verbatim>\<open>type_info::name\<close> has it.\<close>

lemma demangle_type:
  assumes "plenty m" "type_ok t" "2 \<le> fuel"
  obtains m' where "cxa_demangle_gnu3 fuel (mangled_type t) m = Done (Some (shown_type t), m')" "plenty m'"
proof -
  obtain n where n: "fuel = Suc (Suc n)" using assms(3) by (cases fuel rule: nat.exhaust; cases "fuel - 1") auto
  obtain s m1 where init: "cpp_demangle_data_init (mangled_type t) m = (Some s, m1)" and s: "sound s" "outs s = []"
      "d_cur s = Some (mangled_type t)"
    using data_init_plenty [OF assms(1)] .
  have m: "moves s (Some (mangled_type t @ [])) [] s" using moves_refl [OF s(1)] s(3) by simp
  have rest: "does (read_type_rest (parts (Suc n)) False) s (moves s (Some []) (type_out t))"
    using named.step_type_rest [OF m assms(2)] by (simp add: first_char_def)
  obtain s2 where s2: "read_type_rest (parts (Suc n)) False s = Done (True, s2)" "moves s (Some []) (type_out t) s2"
    by (rule doesE [OF rest])
  have "vec_size (d_output s) = 0" using sound_size [OF s(1)] s(2) by simp
  then have read: "parts fuel (Part_type False) s = Done (True, s2)"
    using s2(1) unfolding n by (simp add: cpp_demangle_read_type_def type_prologue_def getting_def del: parts.simps(2) [of n])
  have "concat (type_out t) \<noteq> []" using base_out_not_Nil [OF assms(2)] by (auto simp: type_out_def)
  from flat_output [OF s2(2) s(2) this] obtain m' where
    flat: "vector_str_get_flat (d_output s2) (d_libc s2) = Done (Some (shown_type t), m')" "plenty m'" unfolding concat_type_out .
  have "length (mangled_type t) < 2 \<or> mangled_type t ! 0 \<noteq> CHR ''_''"
    using type_start [OF assms(2), of "[]"] by (cases "mangled_type t") (auto simp: first_char_def)
  then show ?thesis using that read flat init by (auto simp: cxa_demangle_gnu3_def)
qed

text \<open>With more parameters than the limit the answer is no name.\<close>

lemma too_many_params:
  assumes "moves s0 (Some (concat (map mangled_type ts))) new s" "list_all type_ok ts" "d_paren s0" "\<not> d_pfirst s0"
    "plain_end (outs s0 @ new)" "k \<le> length ts" "1 \<le> k"
  shows "yields (read_params (parts (Suc (Suc n))) k s) False (\<lambda>(b, s'). \<not> b)"
  using assms
proof (induction k arbitrary: ts new s)
  case (Suc k)
  then obtain t ts' where ts: "ts = t # ts'" by (cases ts) auto
  let ?w = "concat (map mangled_type ts')"
  have m: "moves s0 (Some (mangled_type t @ ?w)) new s" and t: "type_ok t" "list_all type_ok ts'" using Suc.prems ts by simp_all
  have first: "does (parts (Suc (Suc n)) (Part_type True)) s (moves s0 (Some ?w) (new @ ['', ''] @ type_out t))"
    using named.step_next_param [OF m t(1) types_start [OF t(2)]] Suc.prems by simp
  then obtain s1 where s1: "parts (Suc (Suc n)) (Part_type True) s = Done (True, s1)" "moves s0 (Some ?w) (new @ ['', ''] @ type_out t) s1"
    by (rule doesE)
  have "plain_end (outs s0 @ new @ ['', ''] @ type_out t)" using plain_end_type [OF t(1), of "outs s0 @ new @ ['', '']"] by simp
  from Suc.IH [OF s1(2) t(2) _ _ this] Suc.prems ts
  have again: "k \<noteq> 0 \<Longrightarrow> yields (read_params (parts (Suc (Suc n))) k s1) False (\<lambda>(b, s'). \<not> b)" by simp
  have "yields (all_of [parts (Suc (Suc n)) (Part_type True), if k = 0 then no else read_params (parts (Suc (Suc n))) k] s) False (\<lambda>(b, s'). \<not> b)"
    using again s1(1) by (cases "k = 0") (auto elim!: yields_mono simp del: parts.simps)
  then show ?case unfolding read_params_type [OF m t(1)] .
qed simp

lemma demangle_too_many:
  assumes "plenty m" "name_ok xs" "list_all is_member_qualifier qs" "list_all type_ok ts" "130 \<le> length ts" "2 \<le> fuel"
  obtains m' where "cxa_demangle_gnu3 fuel (mangled qs xs ts) m = Done (None, m')"
proof -
  obtain n where n: "fuel = Suc (Suc n)" using assms(6) by (cases fuel rule: nat.exhaust; cases "fuel - 1") auto
  obtain t ts' where ts: "ts = t # ts'" using assms(5) by (cases ts) auto
  let ?w' = "concat (map mangled_type ts')" and ?w = "concat (map mangled_type ts)"
  have t: "type_ok t" "list_all type_ok ts'" "129 \<le> length ts'" using assms(4,5) ts by simp_all
  obtain s m1 where init: "cpp_demangle_data_init (mangled_name qs xs @ ?w) m = (Some s, m1)" and s: "sound s" "outs s = []"
      "d_cur s = Some (mangled_name qs xs @ ?w)" "\<not> d_paren s"
    using data_init_plenty [OF assms(1)] .
  let ?s = "fold member_qualifier qs s"
  have "does (parts fuel Part_encoding) s (moves ?s (Some ?w) (scoped xs))"
    unfolding n using step_read_encoding [OF moves_refl [OF s(1,3)] assms(2,3) types_start [OF assms(4)]] by simp
  then obtain s1 where s1: "parts fuel Part_encoding s = Done (True, s1)" "moves ?s (Some ?w) (scoped xs) s1" by (rule doesE)
  have m: "moves ?s (Some (mangled_type t @ ?w')) (scoped xs) s1" using s1(2) ts by simp
  have "\<not> d_paren ?s" "plain_end (outs ?s @ scoped xs)"
    using member_flags(4) [OF assms(3), of s] s(4) plain_end_scoped [OF assms(2)] by simp_all
  then have "does (parts fuel (Part_type True)) s1 (moves (opened ?s) (Some ?w') (scoped xs @ [''(''] @ type_out t))"
    unfolding n using named.step_first_param [OF m t(1) types_start [OF t(2)]] by simp
  then obtain s2 where s2: "parts fuel (Part_type True) s1 = Done (True, s2)"
      "moves (opened ?s) (Some ?w') (scoped xs @ [''(''] @ type_out t) s2" by (rule doesE)
  have "plain_end (outs (opened ?s) @ scoped xs @ [''(''] @ type_out t)"
    using plain_end_type [OF t(1), of "outs (opened ?s) @ scoped xs @ [''('']"] by simp
  from too_many_params [OF s2(2) t(2) _ _ this t(3), of n] obtain s3 where
    s3: "read_params (parts fuel) 129 s2 = Done (False, s3)"
    unfolding n by (cases "read_params (parts (Suc (Suc n))) 129 s2") (auto simp: opened_def simp del: parts.simps)
  have "read_params (parts fuel) TRIES s1 = Done (False, s3)"
    using read_params_type [OF m t(1), of "parts fuel" 129] s2(1) s3
    by (simp add: TRIES_def CPP_DEMANGLE_TRY_LIMIT_def all_of.simps andthen_def no_def)
  then have "all_of [parts fuel Part_encoding, read_params (parts fuel) TRIES, finish_name] s = Done (False, s3)"
    using s1(1) by (simp add: all_of.simps andthen_def no_def)
  then show ?thesis using that init by (simp add: cxa_demangle_gnu3_def mangled_def)
qed

text \<open>A C library with memory for everything.\<close>

definition roomy_libc :: libc where
  "roomy_libc = \<lparr>grants = (\<lambda>_ _. True), requests = 0, printed = (\<lambda>_ _. [])\<rparr>"

lemma plenty_roomy [simp]: "plenty roomy_libc"
  by (simp add: plenty_def roomy_libc_def)

lemma cxa_demangle_found:
  assumes "cxa_demangle_gnu3 fuel x m = Done (Some y, m')" "plenty m'"
  obtains m'' where "cxa_demangle fuel x m = Done ((Some y, Some (length y), 0), m'')"
proof -
  obtain b m'' where b: "malloc (length y + 1) m' = (b, m'')" by fastforce
  with malloc_plenty [OF b] assms that show ?thesis by (simp add: cxa_demangle_def)
qed

end
