(* ===== verification/Dem_Abi.thy ===== *)
theory Dem_Abi
  imports Dem_Function
begin

text \<open>
  The encoding of names by the C++ ABI, with the substitutions of what was encoded before, for the names and types of \<open>Dem_Function\<close>,
  and when it is the encoding written out in full: when no component is repeated.

  The dictionary is the list of the components encoded so far, a scope being the same component as the type of that
  name. It is the ABI's encoding for scopes that do not begin with \<^verbatim>\<open>std\<close>, which has an abbreviation; for classes of the standard
  library without an abbreviation of their own; for types in which no two of \<^verbatim>\<open>const\<close>, \<^verbatim>\<open>volatile\<close> and \<^verbatim>\<open>restrict\<close> follow each
  other, which count as one component there; for parameters without such a qualifier outside, which is
  dropped there; and for the qualifiers of members in the order \<^verbatim>\<open>rVK\<close>.
\<close>

subsection \<open>Substitutions\<close>

definition seq_digit :: "nat \<Rightarrow> char" where
  "seq_digit n = (if n < 10 then char_of (48 + n) else char_of (55 + n))"

fun seq_id :: "nat \<Rightarrow> string" where
  "seq_id n = (if n < 36 then [seq_digit n] else seq_id (n div 36) @ [seq_digit (n mod 36)])"

declare seq_id.simps [simp del]

definition subst_code :: "nat \<Rightarrow> string" where
  "subst_code k = (if k = 0 then ''S_'' else CHR ''S'' # seq_id (k - 1) @ ''_'')"

primrec position :: "mtype \<Rightarrow> mtype list \<Rightarrow> nat option" where
  "position t [] = None"
| "position t (u # d) = (if t = u then Some 0 else map_option Suc (position t d))"

text \<open>A component is replaced if it is in the dictionary; otherwise it is encoded and comes last into it.\<close>

definition with_subst :: "mtype \<Rightarrow> (mtype list \<Rightarrow> string \<times> mtype list) \<Rightarrow> mtype list \<Rightarrow> string \<times> mtype list" where
  "with_subst t f d =
     (case position t d of
        Some k \<Rightarrow> (subst_code k, d)
      | None \<Rightarrow> (case f d of (s, d') \<Rightarrow> (s, d' @ [t])))"

subsection \<open>The encoding\<close>

text \<open>The scopes of a name, from the innermost.\<close>

primrec abi_prefix :: "string list \<Rightarrow> mtype list \<Rightarrow> string \<times> mtype list" where
  "abi_prefix [] = (\<lambda>d. ([], d))"
| "abi_prefix (x # rs) =
     with_subst (Named (rev (x # rs))) (\<lambda>d. case abi_prefix rs d of (s, d') \<Rightarrow> (s @ mangled_ident x, d'))"

definition abi_scoped :: "string \<Rightarrow> string list \<Rightarrow> mtype list \<Rightarrow> string \<times> mtype list" where
  "abi_scoped qs xs d =
     (case abi_prefix (rev (butlast xs)) d of (s, d') \<Rightarrow> (CHR ''N'' # qs @ s @ mangled_ident (last xs) @ ''E'', d'))"

primrec abi_type :: "mtype \<Rightarrow> mtype list \<Rightarrow> string \<times> mtype list" where
  "abi_type (Builtin c) = (\<lambda>d. ([c], d))"
| "abi_type (Named xs) =
     with_subst (Named xs) (if length xs = 1 then (\<lambda>d. (mangled_ident (hd xs), d)) else abi_scoped [] xs)"
| "abi_type (Std_Named x) = with_subst (Std_Named x) (\<lambda>d. (''St'' @ mangled_ident x, d))"
| "abi_type (Qualified q t) =
     with_subst (Qualified q t) (\<lambda>d. case abi_type t d of (s, d') \<Rightarrow> (qualifier_letter q # s, d'))"

primrec abi_types :: "mtype list \<Rightarrow> mtype list \<Rightarrow> string" where
  "abi_types [] d = []"
| "abi_types (t # ts) d = (case abi_type t d of (s, d') \<Rightarrow> s @ abi_types ts d')"

text \<open>The name of a function itself is no component.\<close>

definition abi_mangled :: "string \<Rightarrow> string list \<Rightarrow> mtype list \<Rightarrow> string" where
  "abi_mangled qs xs ts =
     (case if qs = [] \<and> length xs = 1 then (mangled_ident (hd xs), []) else abi_scoped qs xs [] of
        (s, d) \<Rightarrow> ''_Z'' @ s @ abi_types ts d)"

subsection \<open>Components\<close>

primrec prefix_components :: "string list \<Rightarrow> mtype list" where
  "prefix_components [] = []"
| "prefix_components (x # rs) = prefix_components rs @ [Named (rev (x # rs))]"

primrec type_components :: "mtype \<Rightarrow> mtype list" where
  "type_components (Builtin c) = []"
| "type_components (Named xs) = prefix_components (rev (butlast xs)) @ [Named xs]"
| "type_components (Std_Named x) = [Std_Named x]"
| "type_components (Qualified q t) = type_components t @ [Qualified q t]"

definition components :: "string list \<Rightarrow> mtype list \<Rightarrow> mtype list" where
  "components xs ts = prefix_components (rev (butlast xs)) @ concat (map type_components ts)"

lemma position_new: "t \<notin> set d \<Longrightarrow> position t d = None"
  by (induction d) auto

lemma with_subst_new: "t \<notin> set d \<Longrightarrow> f d = (s, d') \<Longrightarrow> with_subst t f d = (s, d' @ [t])"
  by (simp add: with_subst_def position_new)

lemma abi_prefix_new:
  "distinct (d @ prefix_components rs) \<Longrightarrow> abi_prefix rs d = (concat (map mangled_ident (rev rs)), d @ prefix_components rs)"
proof (induction rs)
  case (Cons x rs)
  have "abi_prefix (x # rs) d = (concat (map mangled_ident (rev rs)) @ mangled_ident x, (d @ prefix_components rs) @ [Named (rev (x # rs))])"
    unfolding abi_prefix.simps by (rule with_subst_new) (use Cons in auto)
  then show ?case by simp
qed simp

lemma abi_scoped_new:
  assumes "distinct (d @ prefix_components (rev (butlast xs)))" "xs \<noteq> []"
  shows "abi_scoped qs xs d = (CHR ''N'' # qs @ concat (map mangled_ident xs) @ ''E'', d @ prefix_components (rev (butlast xs)))"
proof -
  have "concat (map mangled_ident (butlast xs)) @ mangled_ident (last xs) = concat (map mangled_ident (butlast xs @ [last xs]))" by simp
  also have "\<dots> = concat (map mangled_ident xs)" unfolding append_butlast_last_id [OF assms(2)] ..
  finally show ?thesis using assms(1) by (simp add: abi_scoped_def abi_prefix_new)
qed

lemma abi_type_new:
  "type_ok t \<Longrightarrow> distinct (d @ type_components t) \<Longrightarrow> abi_type t d = (mangled_type t, d @ type_components t)"
proof (induction t)
  case (Named xs)
  let ?d = "d @ prefix_components (rev (butlast xs))"
  have xs: "xs \<noteq> []" using Named by (simp add: name_ok_def)
  have new: "Named xs \<notin> set d" "distinct ?d" using Named by auto
  have "abi_type (Named xs) d = (mangled_name [] xs, ?d @ [Named xs])"
    unfolding abi_type.simps
  proof (rule with_subst_new [OF new(1)])
    show "(if length xs = 1 then \<lambda>d. (mangled_ident (hd xs), d) else abi_scoped [] xs) d = (mangled_name [] xs, ?d)"
      using abi_scoped_new [OF new(2) xs, of "[]"] xs
      by (cases xs) (auto simp: mangled_name_def)
  qed
  then show ?case by simp
next
  case (Std_Named x)
  then show ?case using with_subst_new [of "Std_Named x" d] by simp
next
  case (Qualified q t)
  have "abi_type (Qualified q t) d = (qualifier_letter q # mangled_type t, (d @ type_components t) @ [Qualified q t])"
    unfolding abi_type.simps by (rule with_subst_new) (use Qualified in auto)
  then show ?case by simp
qed simp

lemma abi_types_new:
  "list_all type_ok ts \<Longrightarrow> distinct (d @ concat (map type_components ts)) \<Longrightarrow> abi_types ts d = concat (map mangled_type ts)"
proof (induction ts arbitrary: d)
  case (Cons t ts)
  then have "abi_type t d = (mangled_type t, d @ type_components t)" by (intro abi_type_new) auto
  moreover have "abi_types ts (d @ type_components t) = concat (map mangled_type ts)"
    using Cons.prems by (intro Cons.IH) auto
  ultimately show ?case by simp
qed simp

text \<open>Without repetition the encoding is the one written out in full.\<close>

lemma abi_mangled_full:
  assumes "name_ok xs" "list_all type_ok ts" "distinct (components xs ts)"
  shows "abi_mangled qs xs ts = mangled qs xs ts"
proof -
  let ?d = "prefix_components (rev (butlast xs))"
  have xs: "xs \<noteq> []" using assms(1) by (simp add: name_ok_def)
  have d: "distinct ([] @ ?d)" "distinct (?d @ concat (map type_components ts))"
    using assms(3) by (simp_all add: components_def)
  have t: "abi_types ts ?d = concat (map mangled_type ts)" by (rule abi_types_new [OF assms(2) d(2)])
  show ?thesis
  proof (cases "qs = [] \<and> length xs = 1")
    case True
    then have "?d = []" by (cases xs) auto
    with t True show ?thesis by (simp add: abi_mangled_def mangled_def mangled_name_def)
  next
    case False
    with abi_scoped_new [OF d(1) xs, of qs] t show ?thesis by (auto simp: abi_mangled_def mangled_def mangled_name_def)
  qed
qed

lemma abi_type_full:
  "type_ok t \<Longrightarrow> distinct (type_components t) \<Longrightarrow> fst (abi_type t []) = mangled_type t"
  using abi_type_new [of t "[]"] by simp

text \<open>With it there are substitutions.\<close>

lemma abi_examples:
  "abi_mangled [] [''f''] [Named [''A''], Named [''A'']] = ''_Z1f1AS_''"
  "abi_mangled ''K'' [''foo'', ''bar''] [Qualified TYPE_PTR (Named [''foo''])] = ''_ZNK3foo3barEPS_''"
  by (simp_all add: abi_mangled_def abi_scoped_def with_subst_def mangled_ident_def subst_code_def show_nat.simps digit_char_def
      char_of_eq_iff qualifier_letter_def qualifier_letters_def)

end
