(* ===== verification/Cxa_Terminate.thy ===== *)
theory Cxa_Terminate
  imports Cxa_Alloc Type_Info Dem_Function
begin

text \<open>
  The end of a program that nothing catches (\<^verbatim>\<open>exception.cc\<close>): the data every thread has and how it is found, the handlers
  for termination and for unexpected exceptions, and the report of an uncaught exception.

  A handler is the address of a function, 0 for none. Which functions return is a parameter. The four functions that keep
  the result of \<^verbatim>\<open>thread_info\<close> in a static variable share it among all threads: what the first caller found is used
  by every later one.
\<close>

subsection \<open>The data of a thread\<close>

record thread_handlers =
  th_terminateHandler :: nat
  th_unexpectedHandler :: nat

datatype info_ptr = Null_Info | Single_Info | Info_Of nat

datatype keeps_info = In_set_unexpected | In_set_terminate | In_terminate | In_unexpected

record eh_handlers =
  fakeTLS :: bool
  key_created :: bool
  singleThreadInfo :: thread_handlers
  thread_infos :: "nat \<Rightarrow> thread_handlers option"
  the_terminateHandler :: nat
  the_unexpectedHandler :: nat
  thread_local_handlers :: bool
  static_info :: "keeps_info \<Rightarrow> info_ptr option"

text \<open>
  What the program is linked with: \<^verbatim>\<open>pthread_once\<close>, which then returns 0; the functions for keys; whether a key gives back
  what was stored under it.
\<close>

record pthread_lib =
  has_once :: bool
  has_keys :: bool
  keys_work :: bool

definition init_key :: "pthread_lib \<Rightarrow> eh_handlers \<Rightarrow> eh_handlers" where
  "init_key p s =
     (if \<not> has_keys p then s\<lparr>fakeTLS := True, key_created := True\<rparr>
      else s\<lparr>fakeTLS := \<not> keys_work p, key_created := True\<rparr>)"

definition no_handlers :: thread_handlers where
  "no_handlers = \<lparr>th_terminateHandler = 0, th_unexpectedHandler = 0\<rparr>"

text \<open>\<open>got\<close> is whether \<^verbatim>\<open>calloc\<close> has memory; \<open>i\<close> is the thread that calls.\<close>

definition thread_info :: "pthread_lib \<Rightarrow> bool \<Rightarrow> nat \<Rightarrow> eh_handlers \<Rightarrow> info_ptr \<times> eh_handlers" where
  "thread_info p got i s0 =
     (let s = (if \<not> has_once p then s0\<lparr>fakeTLS := True\<rparr> else if key_created s0 then s0 else init_key p s0) in
      if fakeTLS s then (Single_Info, s)
      else case thread_infos s i of
        Some _ \<Rightarrow> (Info_Of i, s)
      | None \<Rightarrow> if got then (Info_Of i, s\<lparr>thread_infos := (thread_infos s)(i \<mapsto> no_handlers)\<rparr>) else (Null_Info, s))"

definition info_at :: "info_ptr \<Rightarrow> eh_handlers \<Rightarrow> thread_handlers run" where
  "info_at q s = (case q of
     Null_Info \<Rightarrow> Undefined
   | Single_Info \<Rightarrow> Done (singleThreadInfo s)
   | Info_Of i \<Rightarrow> (case thread_infos s i of None \<Rightarrow> Undefined | Some h \<Rightarrow> Done h))"

definition store_info :: "info_ptr \<Rightarrow> thread_handlers \<Rightarrow> eh_handlers \<Rightarrow> eh_handlers" where
  "store_info q h s = (case q of
     Null_Info \<Rightarrow> s
   | Single_Info \<Rightarrow> s\<lparr>singleThreadInfo := h\<rparr>
   | Info_Of i \<Rightarrow> s\<lparr>thread_infos := (thread_infos s)(i \<mapsto> h)\<rparr>)"

text \<open>\<^verbatim>\<open>thread_cleanup\<close>, of what concerns the handlers: the data of a thread that ends is freed.\<close>

definition thread_cleanup :: "nat \<Rightarrow> eh_handlers \<Rightarrow> eh_handlers" where
  "thread_cleanup i s = s\<lparr>thread_infos := (thread_infos s)(i := None)\<rparr>"

text \<open>\<^verbatim>\<open>static __cxa_thread_info *info = thread_info();\<close>\<close>

definition static_thread_info :: "keeps_info \<Rightarrow> pthread_lib \<Rightarrow> bool \<Rightarrow> nat \<Rightarrow> eh_handlers \<Rightarrow> info_ptr \<times> eh_handlers" where
  "static_thread_info f p got i s =
     (case static_info s f of
        Some q \<Rightarrow> (q, s)
      | None \<Rightarrow> (case thread_info p got i s of (q, s') \<Rightarrow> (q, s'\<lparr>static_info := (static_info s')(f \<mapsto> q)\<rparr>)))"

subsection \<open>Setting and getting handlers\<close>

definition set_use_thread_local_handlers :: "bool \<Rightarrow> eh_handlers \<Rightarrow> eh_handlers" where
  "set_use_thread_local_handlers flag s = s\<lparr>thread_local_handlers := flag\<rparr>"

definition pathscale_set_unexpected :: "pthread_lib \<Rightarrow> bool \<Rightarrow> nat \<Rightarrow> nat \<Rightarrow> eh_handlers \<Rightarrow> (nat \<times> eh_handlers) run" where
  "pathscale_set_unexpected p got i f s = (case static_thread_info In_set_unexpected p got i s of (q, s') \<Rightarrow>
     run_bind (info_at q s') (\<lambda>h. Done (th_unexpectedHandler h, store_info q (h\<lparr>th_unexpectedHandler := f\<rparr>) s')))"

definition pathscale_set_terminate :: "pthread_lib \<Rightarrow> bool \<Rightarrow> nat \<Rightarrow> nat \<Rightarrow> eh_handlers \<Rightarrow> (nat \<times> eh_handlers) run" where
  "pathscale_set_terminate p got i f s = (case static_thread_info In_set_terminate p got i s of (q, s') \<Rightarrow>
     run_bind (info_at q s') (\<lambda>h. Done (th_terminateHandler h, store_info q (h\<lparr>th_terminateHandler := f\<rparr>) s')))"

definition set_unexpected :: "pthread_lib \<Rightarrow> bool \<Rightarrow> nat \<Rightarrow> nat \<Rightarrow> eh_handlers \<Rightarrow> (nat \<times> eh_handlers) run" where
  "set_unexpected p got i f s =
     (if thread_local_handlers s then pathscale_set_unexpected p got i f s
      else Done (the_unexpectedHandler s, s\<lparr>the_unexpectedHandler := f\<rparr>))"

definition set_terminate :: "pthread_lib \<Rightarrow> bool \<Rightarrow> nat \<Rightarrow> nat \<Rightarrow> eh_handlers \<Rightarrow> (nat \<times> eh_handlers) run" where
  "set_terminate p got i f s =
     (if thread_local_handlers s then pathscale_set_terminate p got i f s
      else Done (the_terminateHandler s, s\<lparr>the_terminateHandler := f\<rparr>))"

definition get_unexpected :: "pthread_lib \<Rightarrow> bool \<Rightarrow> nat \<Rightarrow> eh_handlers \<Rightarrow> (nat \<times> eh_handlers) run" where
  "get_unexpected p got i s = (case thread_info p got i s of (q, s') \<Rightarrow>
     run_bind (info_at q s') (\<lambda>h. Done (if th_unexpectedHandler h \<noteq> 0 then th_unexpectedHandler h else the_unexpectedHandler s', s')))"

definition get_terminate :: "pthread_lib \<Rightarrow> bool \<Rightarrow> nat \<Rightarrow> eh_handlers \<Rightarrow> (nat \<times> eh_handlers) run" where
  "get_terminate p got i s = (case thread_info p got i s of (q, s') \<Rightarrow>
     run_bind (info_at q s') (\<lambda>h. Done (if th_terminateHandler h \<noteq> 0 then th_terminateHandler h else the_terminateHandler s', s')))"

subsection \<open>Calling handlers\<close>

text \<open>How a call ends: in \<^verbatim>\<open>abort\<close>, in a handler that does not return, not at all since it calls itself again, or it returns.\<close>

datatype call_end = Aborts | Stays_In nat | Calls_Itself | Comes_Back

record fn_table =
  fn_abort :: nat
  fn_terminate :: nat
  fn_returns :: "nat \<Rightarrow> bool"

definition call_function :: "fn_table \<Rightarrow> nat \<Rightarrow> call_end run" where
  "call_function F h =
     (if h = 0 then Undefined
      else Done (if h = fn_abort F then Aborts else if fn_returns F h then Comes_Back else Stays_In h))"

text \<open>After a thread's own handler stands \<^verbatim>\<open>abort()\<close>, after the global one nothing.\<close>

definition then_abort :: "call_end \<Rightarrow> call_end" where
  "then_abort e = (if e = Comes_Back then Aborts else e)"

definition own_handler :: "(thread_handlers \<Rightarrow> nat) \<Rightarrow> info_ptr \<Rightarrow> eh_handlers \<Rightarrow> nat run" where
  "own_handler f q s = (if q = Null_Info then Done 0 else run_bind (info_at q s) (\<lambda>h. Done (f h)))"

definition terminate :: "fn_table \<Rightarrow> pthread_lib \<Rightarrow> bool \<Rightarrow> nat \<Rightarrow> eh_handlers \<Rightarrow> (call_end \<times> eh_handlers) run" where
  "terminate F p got i s = (case static_thread_info In_terminate p got i s of (q, s') \<Rightarrow>
     run_bind (own_handler th_terminateHandler q s') (\<lambda>own.
       let h = (if own \<noteq> 0 then own else the_terminateHandler s') in
       if h = fn_terminate F \<and> h \<noteq> 0 then Done (Calls_Itself, s')
       else run_bind (call_function F h) (\<lambda>e. Done (if own \<noteq> 0 then then_abort e else e, s'))))"

definition call_unexpected_handler ::
    "fn_table \<Rightarrow> pthread_lib \<Rightarrow> bool \<Rightarrow> nat \<Rightarrow> nat \<Rightarrow> eh_handlers \<Rightarrow> (call_end \<times> eh_handlers) run" where
  "call_unexpected_handler F p got i h s =
     (if h = fn_terminate F \<and> h \<noteq> 0 then terminate F p got i s
      else run_bind (call_function F h) (\<lambda>e. Done (e, s)))"

definition unexpected :: "fn_table \<Rightarrow> pthread_lib \<Rightarrow> bool \<Rightarrow> nat \<Rightarrow> eh_handlers \<Rightarrow> (call_end \<times> eh_handlers) run" where
  "unexpected F p got i s = (case static_thread_info In_unexpected p got i s of (q, s') \<Rightarrow>
     run_bind (own_handler th_unexpectedHandler q s') (\<lambda>own.
       if own \<noteq> 0 then run_bind (call_unexpected_handler F p got i own s') (\<lambda>(e, s''). Done (then_abort e, s''))
       else call_unexpected_handler F p got i (the_unexpectedHandler s') s'))"

text \<open>\<^verbatim>\<open>__cxa_call_unexpected\<close>, of the exception whose header is \<open>x\<close>.\<close>

definition cxa_call_unexpected ::
    "fn_table \<Rightarrow> pthread_lib \<Rightarrow> bool \<Rightarrow> nat \<Rightarrow> cxa_exception \<Rightarrow> eh_handlers \<Rightarrow> (call_end \<times> eh_handlers) run" where
  "cxa_call_unexpected F p got i x s = run_bind
     (if unwind_class x = exception_class \<and> ex_unexpectedHandler x \<noteq> 0 then call_unexpected_handler F p got i (ex_unexpectedHandler x) s
      else unexpected F p got i s)
     (\<lambda>(e, s'). Done (then_abort e, s'))"

subsection \<open>The report of an uncaught exception\<close>

text \<open>
  \<^verbatim>\<open>trace\<close>: the line for one frame, if it is in another file than this library. \<open>dladdr\<close> gives the names of the function
  and of the file an address belongs to, \<open>self\<close> is an address of this library and \<open>show_ptr\<close> what \<^verbatim>\<open>%p\<close> prints.
\<close>

definition trace :: "(nat \<Rightarrow> string) \<Rightarrow> (nat \<Rightarrow> (string \<times> string) option) \<Rightarrow> nat \<Rightarrow> nat \<Rightarrow> string" where
  "trace show_ptr dladdr self ip =
     (case dladdr ip of
        None \<Rightarrow> []
      | Some (sname, fname) \<Rightarrow>
          if (case dladdr self of None \<Rightarrow> True | Some (_, own) \<Rightarrow> fname \<noteq> own)
          then show_ptr ip @ '':'' @ sname @ ''() in '' @ fname @ [CHR 0x0A] else [])"

text \<open>The codes of \<^verbatim>\<open>_Unwind_RaiseException\<close> that are told apart.\<close>

datatype raise_error = URC_END_OF_STACK | FATAL_PHASE1_ERROR | FATAL_PHASE2_ERROR | Other_Reason

text \<open>
  What stands around a report: type descriptors and the strings of their names, the descriptor of \<^verbatim>\<open>std::exception\<close>, what
  \<^verbatim>\<open>what()\<close> answers for the object at an address, and the frames the backtrace visits.
\<close>

record report_env =
  rp_show_ptr :: "nat \<Rightarrow> string"
  rp_types :: "nat \<Rightarrow> type_info option"
  rp_names :: "nat \<Rightarrow> string"
  rp_exception :: type_info
  rp_memory :: memory
  rp_what :: "u64 \<Rightarrow> string"
  rp_dladdr :: "nat \<Rightarrow> (string \<times> string) option"
  rp_self :: nat
  rp_frames :: "nat list"

definition realExceptionFromException :: "cxa_state \<Rightarrow> nat \<Rightarrow> nat run" where
  "realExceptionFromException cs e = (case store cs e of
     None \<Rightarrow> Undefined
   | Some x \<Rightarrow> Done (if isDependentException (unwind_class x) then primaryException x else e))"

text \<open>The message of the exception, if it is a class that \<^verbatim>\<open>std::exception\<close> can be cast to.\<close>

definition what_text :: "report_env \<Rightarrow> nat \<Rightarrow> type_info \<Rightarrow> string run" where
  "what_text E e t =
     (if is_class t then
        case cast_to (rp_memory E) (rp_exception E) (of_nat (e + sizeof_cxa_exception)) (ti_addr t) of
          Inl _ \<Rightarrow> Undefined
        | Inr obj \<Rightarrow> Done (if obj \<noteq> 0 then [CHR '' '', CHR 0x27] @ rp_what E obj @ [CHR 0x27] else [])
      else Done [])"

text \<open>The buffer of 128 bytes is given to \<^verbatim>\<open>__cxa_demangle\<close>, which enlarges it or, without memory, loses it.\<close>

definition type_text :: "report_env \<Rightarrow> nat \<Rightarrow> type_info \<Rightarrow> libc \<Rightarrow> (string \<times> libc) run" where
  "type_text E fuel t m = (let mangled = rp_names E (ti_name t) in
     run_bind (cxa_demangle fuel mangled (snd (malloc 128 m))) (\<lambda>((demangled, _, status), m').
       Done (case demangled of Some x \<Rightarrow> if status = 0 then x else mangled | None \<Rightarrow> mangled, m')))"

text \<open>\<^verbatim>\<open>report_failure\<close> up to the call of \<^verbatim>\<open>std::terminate\<close>: what it prints to the error output and to the output.\<close>

definition failure_text :: "report_env \<Rightarrow> nat \<Rightarrow> raise_error \<Rightarrow> nat \<Rightarrow> cxa_state \<Rightarrow> libc \<Rightarrow> ((string \<times> string) \<times> libc) run" where
  "failure_text E fuel err e cs m = (case err of
     FATAL_PHASE1_ERROR \<Rightarrow> Done ((''Fatal error during phase 1 unwinding'' @ [CHR 0x0A], []), m)
   | FATAL_PHASE2_ERROR \<Rightarrow> Done ((''Fatal error during phase 2 unwinding'' @ [CHR 0x0A], []), m)
   | Other_Reason \<Rightarrow> Done (([], []), m)
   | URC_END_OF_STACK \<Rightarrow>
       run_bind (realExceptionFromException cs e) (\<lambda>e'. case store cs e' of
         None \<Rightarrow> Undefined
       | Some x \<Rightarrow> (case rp_types E (exceptionType x) of
           None \<Rightarrow> Undefined
         | Some t \<Rightarrow> run_bind (what_text E e' t) (\<lambda>what. run_bind (type_text E fuel t m) (\<lambda>(name, m').
             Done ((''Terminating due to uncaught exception '' @ rp_show_ptr E e @ what @ '' of type '' @ name @ [CHR 0x0A],
                    concat (map (trace (rp_show_ptr E) (rp_dladdr E) (rp_self E)) (rp_frames E))), m'))))))"

definition report_failure :: "report_env \<Rightarrow> fn_table \<Rightarrow> pthread_lib \<Rightarrow> bool \<Rightarrow> nat \<Rightarrow> nat \<Rightarrow> raise_error \<Rightarrow> nat \<Rightarrow> cxa_state \<Rightarrow>
    libc \<Rightarrow> eh_handlers \<Rightarrow> ((string \<times> string) \<times> call_end \<times> eh_handlers) run" where
  "report_failure E F p got i fuel err e cs m s =
     run_bind (failure_text E fuel err e cs m) (\<lambda>(texts, m').
       run_bind (terminate F p got i s) (\<lambda>(end_of_call, s'). Done (texts, end_of_call, s')))"

subsection \<open>One thread\<close>

definition fake :: "pthread_lib \<Rightarrow> bool" where
  "fake p \<longleftrightarrow> \<not> (has_once p \<and> has_keys p \<and> keys_work p)"

definition own_info :: "pthread_lib \<Rightarrow> nat \<Rightarrow> info_ptr" where
  "own_info p i = (if fake p then Single_Info else Info_Of i)"

definition handlers_of :: "pthread_lib \<Rightarrow> nat \<Rightarrow> eh_handlers \<Rightarrow> thread_handlers" where
  "handlers_of p i s = (if fake p then singleThreadInfo s else case thread_infos s i of Some h \<Rightarrow> h | None \<Rightarrow> no_handlers)"

text \<open>Only thread \<open>i\<close> has called the functions that keep what they found.\<close>

definition one_thread :: "pthread_lib \<Rightarrow> nat \<Rightarrow> eh_handlers \<Rightarrow> bool" where
  "one_thread p i s \<longleftrightarrow> (fakeTLS s \<longrightarrow> fake p) \<and> (key_created s \<and> has_once p \<longrightarrow> fakeTLS s = fake p) \<and>
     (\<forall>f q. static_info s f = Some q \<longrightarrow> q = own_info p i \<and> (fake p \<or> thread_infos s i \<noteq> None))"

definition same_global :: "eh_handlers \<Rightarrow> eh_handlers \<Rightarrow> bool" where
  "same_global s s' \<longleftrightarrow> the_terminateHandler s' = the_terminateHandler s \<and> the_unexpectedHandler s' = the_unexpectedHandler s \<and>
     thread_local_handlers s' = thread_local_handlers s"

lemma thread_info_own:
  assumes "one_thread p i s" "got"
  obtains s' where "thread_info p got i s = (own_info p i, s')" "one_thread p i s'" "same_global s s'"
    "info_at (own_info p i) s' = Done (handlers_of p i s)" "handlers_of p i s' = handlers_of p i s"
    "fake p \<or> thread_infos s' i \<noteq> None" "static_info s' = static_info s"
proof -
  let ?s = "if \<not> has_once p then s\<lparr>fakeTLS := True\<rparr> else if key_created s then s else init_key p s"
  have tls: "fakeTLS ?s = fake p" "one_thread p i ?s"
    using assms(1) by (auto simp: one_thread_def fake_def init_key_def)
  have same: "thread_infos ?s = thread_infos s" "static_info ?s = static_info s" "singleThreadInfo ?s = singleThreadInfo s" "same_global s ?s"
    by (simp_all add: init_key_def same_global_def)
  show ?thesis
  proof (cases "fake p \<or> thread_infos s i \<noteq> None")
    case True
    then have "thread_info p got i s = (own_info p i, ?s)"
      using tls(1) same(1) by (auto simp: thread_info_def own_info_def Let_def simp del: if_split)
    then show ?thesis
      by (rule that) (use True tls same in \<open>auto simp: info_at_def own_info_def handlers_of_def\<close>)
  next
    case False
    let ?t = "?s\<lparr>thread_infos := (thread_infos ?s)(i \<mapsto> no_handlers)\<rparr>"
    have "thread_info p got i s = (own_info p i, ?t)"
      using tls(1) same(1) False assms(2) by (auto simp: thread_info_def own_info_def Let_def simp del: if_split)
    then show ?thesis
      by (rule that) (use False tls same in \<open>auto simp: info_at_def own_info_def handlers_of_def one_thread_def same_global_def\<close>)
  qed
qed

lemma static_thread_info_own:
  assumes "one_thread p i s" "got"
  obtains s' where "static_thread_info f p got i s = (own_info p i, s')" "one_thread p i s'" "same_global s s'"
    "info_at (own_info p i) s' = Done (handlers_of p i s)" "handlers_of p i s' = handlers_of p i s"
    "fake p \<or> thread_infos s' i \<noteq> None"
proof (cases "static_info s f")
  case None
  obtain s' where s': "thread_info p got i s = (own_info p i, s')" "one_thread p i s'" "same_global s s'"
    "info_at (own_info p i) s' = Done (handlers_of p i s)" "handlers_of p i s' = handlers_of p i s"
    "fake p \<or> thread_infos s' i \<noteq> None" "static_info s' = static_info s"
    using thread_info_own [OF assms] .
  let ?t = "s'\<lparr>static_info := (static_info s')(f \<mapsto> own_info p i)\<rparr>"
  have "static_thread_info f p got i s = (own_info p i, ?t)" using None s'(1) by (simp add: static_thread_info_def)
  moreover have "info_at q ?t = info_at q s'" for q by (simp add: info_at_def split: info_ptr.split)
  ultimately show ?thesis
    by (intro that [of ?t]) (use s' in \<open>auto simp: one_thread_def same_global_def handlers_of_def\<close>)
next
  case (Some q)
  with assms(1) have q: "q = own_info p i" "fake p \<or> thread_infos s i \<noteq> None" unfolding one_thread_def by blast+
  have "static_thread_info f p got i s = (own_info p i, s)" using Some q(1) by (simp add: static_thread_info_def)
  then show ?thesis
    by (rule that) (use q assms(1) in \<open>auto simp: same_global_def info_at_def own_info_def handlers_of_def\<close>)
qed

text \<open>The handlers in force for the thread.\<close>

definition current_terminate :: "pthread_lib \<Rightarrow> nat \<Rightarrow> eh_handlers \<Rightarrow> nat" where
  "current_terminate p i s =
     (if th_terminateHandler (handlers_of p i s) \<noteq> 0 then th_terminateHandler (handlers_of p i s) else the_terminateHandler s)"

lemma store_info_own:
  assumes "one_thread p i s" "fake p \<or> thread_infos s i \<noteq> None"
  shows "one_thread p i (store_info (own_info p i) h s)" "handlers_of p i (store_info (own_info p i) h s) = h"
    "same_global s (store_info (own_info p i) h s)"
  using assms by (auto simp: one_thread_def store_info_def own_info_def handlers_of_def same_global_def)

lemma set_terminate_own:
  assumes "one_thread p i s" "got"
  obtains s' where
    "set_terminate p got i f s = Done (if thread_local_handlers s then th_terminateHandler (handlers_of p i s) else the_terminateHandler s, s')"
    "one_thread p i s'"
    "th_terminateHandler (handlers_of p i s') = (if thread_local_handlers s then f else th_terminateHandler (handlers_of p i s))"
    "the_terminateHandler s' = (if thread_local_handlers s then the_terminateHandler s else f)"
proof (cases "thread_local_handlers s")
  case True
  obtain s' where s': "static_thread_info In_set_terminate p got i s = (own_info p i, s')" "one_thread p i s'" "same_global s s'"
    "info_at (own_info p i) s' = Done (handlers_of p i s)" "handlers_of p i s' = handlers_of p i s"
    "fake p \<or> thread_infos s' i \<noteq> None"
    using static_thread_info_own [OF assms] .
  let ?h = "(handlers_of p i s)\<lparr>th_terminateHandler := f\<rparr>"
  note stored = store_info_own [OF s'(2,6), of ?h]
  show ?thesis
    by (rule that [of "store_info (own_info p i) ?h s'"])
      (use True s' stored in \<open>simp_all add: set_terminate_def pathscale_set_terminate_def same_global_def\<close>)
next
  case False
  then show ?thesis
    using assms(1) by (intro that [of "s\<lparr>the_terminateHandler := f\<rparr>"])
      (auto simp: set_terminate_def one_thread_def handlers_of_def)
qed

lemma get_terminate_own:
  assumes "one_thread p i s" "got"
  obtains s' where "get_terminate p got i s = Done (current_terminate p i s, s')" "one_thread p i s'"
    "current_terminate p i s' = current_terminate p i s"
proof -
  obtain s' where s': "thread_info p got i s = (own_info p i, s')" "one_thread p i s'" "same_global s s'"
    "info_at (own_info p i) s' = Done (handlers_of p i s)" "handlers_of p i s' = handlers_of p i s"
    "fake p \<or> thread_infos s' i \<noteq> None" "static_info s' = static_info s"
    using thread_info_own [OF assms] .
  then show ?thesis
    by (intro that [of s']) (simp_all add: get_terminate_def current_terminate_def same_global_def)
qed

lemma terminate_own:
  assumes "one_thread p i s" "got" "current_terminate p i s = h" "h \<noteq> 0" "h \<noteq> fn_terminate F"
  obtains s' where "terminate F p got i s =
      Done (if h = fn_abort F then Aborts
            else if fn_returns F h then (if th_terminateHandler (handlers_of p i s) \<noteq> 0 then Aborts else Comes_Back)
            else Stays_In h, s')"
    "one_thread p i s'"
proof -
  obtain s' where s': "static_thread_info In_terminate p got i s = (own_info p i, s')" "one_thread p i s'" "same_global s s'"
    "info_at (own_info p i) s' = Done (handlers_of p i s)" "handlers_of p i s' = handlers_of p i s"
    "fake p \<or> thread_infos s' i \<noteq> None"
    using static_thread_info_own [OF assms(1,2)] .
  have own: "own_handler th_terminateHandler (own_info p i) s' = Done (th_terminateHandler (handlers_of p i s))"
    using s'(4) by (auto simp: own_handler_def own_info_def)
  show ?thesis
    by (rule that [of s'])
      (use s' own assms(3-5) in \<open>auto simp: terminate_def current_terminate_def call_function_def then_abort_def same_global_def\<close>)
qed

lemma terminate_stays:
  assumes "one_thread p i s" "got" "current_terminate p i s = h" "h \<notin> {0, fn_terminate F, fn_abort F}" "\<not> fn_returns F h"
  shows "\<exists>s'. terminate F p got i s = Done (Stays_In h, s')"
proof -
  have h: "h \<noteq> 0" "h \<noteq> fn_terminate F" "h \<noteq> fn_abort F" using assms(4) by simp_all
  show ?thesis
    by (rule terminate_own [OF assms(1-3) h(1,2)]) (use h(3) assms(5) in simp)
qed

text \<open>\<^verbatim>\<open>__cxa_call_unexpected\<close> does not return, whatever the handlers do.\<close>

lemma call_unexpected_stays:
  assumes "cxa_call_unexpected F p got i x s = Done (e, s')"
  shows "e \<noteq> Comes_Back"
proof -
  have "then_abort e' \<noteq> Comes_Back" for e' by (simp add: then_abort_def)
  with assms show ?thesis
    unfolding cxa_call_unexpected_def by (auto simp: run_bind_def split: run.splits prod.splits)
qed

subsection \<open>The report\<close>

text \<open>
  \<^verbatim>\<open>cast_to\<close> is asked of the descriptor of \<^verbatim>\<open>std::exception\<close>, which has no base classes, for the class that was thrown: it
  succeeds for \<^verbatim>\<open>std::exception\<close> itself and for nothing derived from it.
\<close>

lemma what_text_class:
  assumes "rp_exception E = Class_Type a n" "is_class t"
  shows "what_text E e t =
    Done (if a = ti_addr t \<and> (of_nat (e + sizeof_cxa_exception) :: u64) \<noteq> 0
          then CHR '' '' # CHR 0x27 # rp_what E (of_nat (e + sizeof_cxa_exception)) @ [CHR 0x27] else [])"
  using assms by (simp add: what_text_def)

lemma type_text_shown:
  assumes "plenty m" "rp_names E (ti_name t) = mangled_type ty" "type_ok ty" "2 \<le> fuel"
  obtains m' where "type_text E fuel t m = Done (shown_type ty, m')"
proof -
  have "plenty (snd (malloc 128 m))" using assms(1) by (simp add: malloc_def plenty_def)
  then obtain m1 where m1: "cxa_demangle_gnu3 fuel (mangled_type ty) (snd (malloc 128 m)) = Done (Some (shown_type ty), m1)" "plenty m1"
    using demangle_type assms(3,4) by metis
  obtain m2 where "cxa_demangle fuel (mangled_type ty) (snd (malloc 128 m)) = Done ((Some (shown_type ty), Some (length (shown_type ty)), 0), m2)"
    using cxa_demangle_found [OF m1] .
  then show ?thesis using that assms(2) by (simp add: type_text_def)
qed

text \<open>Frames of the library itself are left out of the trace.\<close>

lemma trace_other_files:
  assumes "dladdr self = Some (f, own)" "dladdr ip = Some (sname, fname)"
  shows "trace show_ptr dladdr self ip = (if fname = own then [] else show_ptr ip @ '':'' @ sname @ ''() in '' @ fname @ [CHR 0x0A])"
  using assms by (simp add: trace_def)

end
