(* ===== verification/Spec2Isabelle.thy ===== *)
theory Spec2Isabelle
  imports Count_Main Record_Main Pub_Refinement Sub_Main Codecvt_Facets Hash_Primes Cxa_Alloc Cxa_Personality Shared_Count Static_Guard Ios_Base String_Numbers Locks Call_Once Str_Stream Dem_Abi Cxa_Terminate
begin

text \<open>
  Verification of \<^verbatim>\<open>wissbi\<close>, a message distribution tool in C++ (\<^verbatim>\<open>src/src\<close>).

  \<^bold>\<open>The program.\<close> \<^verbatim>\<open>wissbi-pub DEST\<close> reads messages from its standard input and sends each to every subscriber
  of \<^verbatim>\<open>DEST\<close>; \<^verbatim>\<open>wissbi-sub SRC\<close> receives them and writes them to its standard output. The two find each other
  through a shared directory, in which a subscriber keeps a file named after its address and destination,
  and talk over TCP. Inside a process messages wait in System V message queues. A message moves from an
  input policy to an output policy through a filter, \<^verbatim>\<open>MsgFilter\<close>, which calls hooks of its owner around
  each round. \<^verbatim>\<open>wissbi-count\<close> and \<^verbatim>\<open>wissbi-record\<close> are filters between the two standard streams. The
  repository carries the C++ library the programs are linked with (\<^verbatim>\<open>src/3rd_party\<close>); of it the stream
  operations the programs call, the character conversions of their streams' \<^verbatim>\<open>codecvt\<close> facets, the
  sizes of the hash tables behind the fan-out's map and the connector's set of producers, the counts of the shared pointers
  through which the fan-out owns its queues, the state every stream has, mutexes and other small parts, and the run-time
  support of exceptions and static variables (\<^verbatim>\<open>libcxxrt\<close>) are modelled. The programs report every failure of a system call by
  throwing; the compiler turns throw, catch and rethrow into calls of that support, and the stack unwinder calls
  its personality routine for every frame, which looks up the handler in the tables of the frame's function. When nothing
  catches an exception, the name of its type is printed, which the demangler of the same library turns into C++ syntax.

  \<^bold>\<open>Theories.\<close> In the order in which they build on each other; the file each one models is under \<^verbatim>\<open>src/src\<close>,
  for the last two groups under \<^verbatim>\<open>src/3rd_party/libcxx/src\<close> and \<^verbatim>\<open>src/3rd_party/libcxxrt/src\<close>.

  \<^item> \<open>Wissbi_Prelude\<close>: faults, unsigned arithmetic, strings, decimal numbers, the buffer array, counting threads.
  \<^item> \<open>Iostreams\<close>: the stream operations of the C++ library in the repository that the program uses.
  \<^item> \<open>Util\<close> (\<^verbatim>\<open>util.hpp\<close>): addresses and their printed form, queue names and file names.
  \<^item> \<open>Msg_Buf\<close> (\<^verbatim>\<open>msg_buf.hpp\<close>): the message buffer; the interfaces of the policies, as the locales
    \<open>input_policy\<close>, \<open>output_policy\<close>, \<open>stream_codec\<close>.
  \<^item> \<open>Line_Policy\<close>, \<open>Length_Policy\<close> (\<^verbatim>\<open>io_policy/iostream_base.hpp\<close>, \<^verbatim>\<open>line.hpp\<close>, \<^verbatim>\<open>length.hpp\<close>, \<^verbatim>\<open>string.hpp\<close>):
    messages as lines, with a length in front, in a string.
  \<^item> \<open>Logger\<close> (\<^verbatim>\<open>logger.hpp\<close>), \<open>Tcp_Policy\<close> (\<^verbatim>\<open>io_policy/tcp.hpp\<close>), \<open>Sysv_Mq\<close> (\<^verbatim>\<open>io_policy/sysv_mq.hpp\<close>),
    \<open>Tee_Policy\<close> (\<^verbatim>\<open>io_policy/tee.hpp\<close>).
  \<^item> \<open>Msg_Filter\<close> (\<^verbatim>\<open>msg_filter.hpp\<close>): the filter and its loop; the locale \<open>msg_pipeline\<close>, in which the loop is
    shown to move every message once and in order, for any two policies that keep their contracts.
  \<^item> \<open>Line_Tool\<close>, \<open>Count_Main\<close>, \<open>Record_Main\<close> (\<^verbatim>\<open>count.cpp\<close>, \<^verbatim>\<open>record.cpp\<close>).
  \<^item> \<open>Filter_Metric\<close> (\<^verbatim>\<open>filter_metric.hpp\<close>, \<^verbatim>\<open>metric_reporter.hpp\<close>), \<open>Sub_Registry\<close> (\<^verbatim>\<open>sub_entry.hpp\<close>, \<^verbatim>\<open>sub_dir.hpp\<close>),
    \<open>Connector\<close> (\<^verbatim>\<open>connector.hpp\<close>).
  \<^item> \<open>Kernel_Ref\<close>: a kernel that satisfies the laws assumed of the system calls.
  \<^item> \<open>Pub_Main\<close> (\<^verbatim>\<open>pub.cpp\<close>), \<open>Sub_Main\<close> (\<^verbatim>\<open>sub.cpp\<close>): the hooks, threads and set-up of the two programs.
  \<^item> \<open>Pub_System\<close>: the publisher's threads interleaved, main, connector, producers and the reporter, which takes the
    drop counter; \<open>Pub_Refinement\<close>: the rounds of its threads, as the
    components run them, are runs of that model.
  \<^item> \<open>Codecvt_Base\<close>, \<open>Utf_Spec\<close>, \<open>Utf8_Scan\<close>, \<open>Utf16_Scan\<close>: the loops the conversion routines share, with the contract
    of their bodies as the locales \<open>transcoder\<close> and \<open>unit_writer\<close>; the encodings, as specification; one step of
    a reader of UTF-8 and of UTF-16. Reading or stepping past the end of the input is the result \<open>past_end\<close>.
  \<^item> \<open>Utf8_Ucs4\<close>, \<open>Utf8_Ucs2\<close>, \<open>Utf8_Utf16\<close>, \<open>Utf16_Bytes\<close> (\<^verbatim>\<open>locale.cpp\<close>): the 23 conversion routines, one definition for
    the body of a routine's loop and one for the routine.
  \<^item> \<open>Codecvt_Facets\<close> (\<^verbatim>\<open>locale.cpp\<close>): the 15 \<^verbatim>\<open>codecvt\<close> classes on top of them.
  \<^item> \<open>Hash_Primes\<close> (\<^verbatim>\<open>hash.cpp\<close>): \<^verbatim>\<open>__next_prime\<close>.
  \<^item> \<open>Shared_Count\<close> (\<^verbatim>\<open>memory.cpp\<close>): the counts of shared and weak pointers, in atomic steps.
  \<^item> \<open>Ios_Base\<close> (\<^verbatim>\<open>ios.cpp\<close>): state bits, words and callbacks of a stream, over the locale \<open>stream_words\<close>; \<open>Str_Stream\<close>
    (\<^verbatim>\<open>strstream.cpp\<close>): streams over arrays; \<open>String_Numbers\<close> (\<^verbatim>\<open>string.cpp\<close>): numbers read from and printed to strings, with
    the formats of \<^verbatim>\<open>printf\<close> and the width of its argument.
  \<^item> \<open>Locks\<close> and \<open>Call_Once\<close> (\<^verbatim>\<open>mutex.cpp\<close>): mutexes with a condition variable, over the locale \<open>mutex_contract\<close>, and
    \<^verbatim>\<open>call_once\<close>, with any number of threads.
  \<^item> \<open>Static_Guard\<close> (\<^verbatim>\<open>guard.cc\<close>): the guards of static variables, with any number of threads.
  \<^item> \<open>Dwarf_Value\<close>, \<open>Dwarf_Lsda\<close> (\<^verbatim>\<open>dwarf_eh.h\<close>): the encoded numbers of exception tables; the header of a table and the
    search for a call site, over the locale \<open>value_reader\<close>.
  \<^item> \<open>Type_Info\<close> (\<^verbatim>\<open>typeinfo.h\<close>, \<^verbatim>\<open>typeinfo.cc\<close>, \<^verbatim>\<open>dynamic_cast.cc\<close>): type descriptors, casts to base classes.
  \<^item> \<open>Cxa_Exceptions\<close> (\<^verbatim>\<open>exception.cc\<close>): headers of exceptions in a store, throw, catch, rethrow, references; the stack of
    catch blocks as specification, and the simulation, for exceptions outside the first emergency buffer. \<open>Cxa_Alloc\<close>: the emergency
    buffers, with the fault that freeing the first one is. \<open>Cxa_Personality\<close>: the
    personality routine.
  \<^item> The demangler (\<^verbatim>\<open>libelftc_dem_gnu3.c\<close>, \<^verbatim>\<open>typeinfo.cc\<close>). \<open>Dem_Vector\<close>: its growable arrays, over the locale \<open>appendable\<close>;
    \<open>Dem_Float\<close>: literals of floating-point numbers; \<open>Dem_State\<close>: the struct \<^verbatim>\<open>cpp_demangle_data\<close>, cursor, output, substitutions;
    \<open>Dem_Tables\<close>: the cases of its switches; \<open>Dem_Read\<close>: the readers of every construct, and \<^verbatim>\<open>__cxa_demangle\<close>.
    \<open>Dem_Ends\<close> and \<open>Dem_Fuel\<close> show that it ends, over the locales \<open>ending_calls\<close>, \<open>ending_type_calls\<close> and \<open>better_calls\<close>;
    \<open>Dem_Success\<close> and \<open>Dem_Function\<close> what it makes of functions and types whose encoding is written out in full, over the locale
    \<open>name_calls\<close>; \<open>Dem_Abi\<close>: the encoding of the ABI, with substitutions, and when it is that one.
  \<^item> \<open>Cxa_Terminate\<close> (\<^verbatim>\<open>exception.cc\<close>): the data of threads, the terminate and unexpected handlers, the report of an uncaught
    exception, which uses the demangler.

  \<^bold>\<open>How the code is modelled.\<close> A class is a record, a method a function on it and on the state \<open>'w\<close> outside
  the process; an operation of a policy has the type \<open>'s op\<close>: it takes the buffer and the object, and gives
  a fault or the answer, the buffer and the object. A fault is an exception that leaves the function, a
  write or read past an array, a dereferenced end iterator, a failed assertion, or a call that does not
  return. System calls (sockets, queues, files, clock) are parameters; what the program relies on of
  them is stated as locales (\<open>send_stream\<close>, \<open>recv_stream\<close>, \<open>mq_kernel\<close>, \<open>dir_fs\<close>, \<open>inet_conv\<close>, \<open>wall_clock\<close>, and their
  combinations), which \<open>Kernel_Ref\<close> and the theories after it interpret, and which the properties name as
  hypotheses. Uninitialised members and variables are arguments. Counters of fixed width are words.
  A function of the demangler is an action on the state: a run of it gives its answer and the new state, or is undefined (a
  read past the end of a string, a use of freed memory), aborted by an assertion, or not finished. What \<^verbatim>\<open>malloc\<close>
  answers is part of the state, so that every allocation may fail.

  \<^bold>\<open>Loops.\<close> \<open>ReadAll\<close> has a termination proof. \<open>FilterLoop\<close>, \<open>WriteAll\<close>, \<open>sleep_while_loop\<close> and \<open>sub_loop\<close>, which may run
  for ever, are partial functions whose value is \<open>None\<close> then; that they return is part of the theorems
  about them. So is \<open>candidate_loop\<close>, the search for a prime; the trial divisions inside it, \<open>wheel_loop\<close>, have a
  termination proof, and so have \<open>leb_loop\<close> and \<open>find_loop\<close>, which read bytes. \<open>spec_loop\<close> and \<open>action_loop\<close>, which
  follow whatever displacements a table has, are partial, and return on every well-formed table; \<open>as_string\<close>, which prints again
  until the text fits, is partial and shown to return. Fuel is used in \<open>get_all\<close>, which reads frames until
  the end of a stream and whose theorems ask for more fuel than there are frames, and for the mutually recursive readers of
  the demangler: \<open>parts n\<close> is what they do with \<open>n\<close> nested calls, and twice the length of the string, and 4, is shown to be
  enough. Its loops with a limit of attempts run \<open>TRIES\<close> times, and that over the qualifiers of a type once for each character
  left. Spinning and waiting on a condition
  variable are steps that may be repeated.

  \<^bold>\<open>What is shown.\<close> C1 to C6: the publisher with its threads in any order. No message is lost or made up
  unrecorded; the pending and the drop counter are exact; from empty queues, the pending counter is 0 at the end exactly when
  everything given to a queue was delivered; order; one producer per subscriber. C7 to C11: the publisher's three threads against that model, its input
  loop, its waits. C12 and C13: the subscriber and the wire. C14: the line format. C15: \<^verbatim>\<open>wissbi-record\<close>. C16 and C17:
  fan-out, addresses and registry. C18 to C23: the character conversions, against the encodings and as round
  trips. C24: the sizes of hash tables. C25 to C30: exceptions, their lifetime against the stack of
  catch blocks, allocation without memory, the tables, the choice of a handler, casts. C31 and C32: shared
  pointers and static variables with any number of threads. C33: the storage of a stream. C34 and C35: numbers in strings.
  C36: mutexes. C37 to C39: the demangler, that it ends, what it makes of functions and types, its arrays. C40: the report of
  an uncaught exception and the handler called after it. Between them stand the limit of the demangler, the format with a length in front, metrics, copying the format of a stream, streams over arrays,
  theorems that show where the code does less than it means to, and some on the parts around.

  \<^bold>\<open>What is not modelled.\<close> The effect of unsynchronised access to the tee's map, the list of metrics and the
  set of producers (the accesses are taken as atomic); the background flush of the output stream and
  signals, except that a signal ends the subscriber's loop; the metric connector, which is the connector
  again on another destination, and the metrics the reporter sends through it while the other threads run; the text \<^verbatim>\<open>ctime\<close> gives for the time. Overflow of \<open>int\<close> counters that count lines
  or branches is not modelled: they are integers. Of the C++ library under \<^verbatim>\<open>src/3rd_party\<close>: \<^verbatim>\<open>codecvt\<close> for
  \<^verbatim>\<open>wchar_t\<close> through the C library's locale, the other facets, the database of the debug mode, futures, regular
  expressions; floating-point numbers in strings; the functions of mutexes with a time limit. Of
  exceptions: \<^verbatim>\<open>rethrow_exception\<close>, the freeing of exceptions when a thread ends, ARM. The unwinder is not
  part of the repository: the model has what its calls of the personality routine give, and takes a raised exception as
  not returning to its thrower. Of the demangler: the freeing of memory (but for a pointer into an array
  whose strings were freed), and the rounding of the factor by which arrays grow; names with substitutions or templates are read
  by the model, but what becomes of them is not stated.
\<close>

section \<open>The publisher with its threads interleaved\<close>

text \<open>A short run the statements below are applied to: one subscriber, one message, delivered.\<close>

definition sample_run :: "event list" where
  "sample_run =
     [Conn (CList [(''10.0.0.1:7'', ''q'')]), Conn CVisit, Conn CInsert, Main MRead,
      Prod 0 (PConnect True), Main (MTee True), Prod 0 PGet, Prod 0 PSend, Prod 0 PCount,
      Main MPost, Main MEnd]"

definition sample_state :: pub_sys where
  "sample_state = the (sys_run sample_run (pub_init [''hello''] (\<lambda>_. [])))"

lemma sample_run_ends:
  "sys_run sample_run (pub_init [''hello''] (\<lambda>_. [])) = Some sample_state"
  by (simp add: sample_state_def sample_run_def sys_eval)

lemma sample_state_fields [simp]:
  "sys_main sample_state = Ended" "sys_pending sample_state = 0"
  "given sample_state = [(''q'', ''hello'')]" "delivered sample_state = [(''q'', ''hello'')]"
  "refused sample_state = []" "requeued sample_state = []" "lost sample_state = []"
  "injected sample_state = []" "sys_queue sample_state d = []"
  "sys_known sample_state = [''10.0.0.1:7'']"
  "sys_producers sample_state = [\<lparr>p_conn = ''10.0.0.1:7'', p_dest = ''q'', p_phase = Waiting\<rparr>]"
  by (simp_all add: sample_state_def sample_run_def sys_eval)

lemma sample_reached: "pub_steps (pub_init [''hello''] (\<lambda>_. [])) sample_state"
  using sample_run_ends by (rule sys_run_steps)

text \<open>
  C1: in every reachable state of the publisher, whatever the threads did and in whichever order, the
  messages of a destination are accounted for: what its queue held at first, what the fan-out put in
  and the empty messages producers put in after a failed receive, are what is in the queue, in the hands
  of a producer, written to a subscriber, or lost because the queue refused to take it back.
\<close>

theorem pub_conserves_messages:
  assumes "pub_steps (pub_init input q0) s"
  shows "count (mset (q0 d)) x + count (mset (given s)) (d, x) + count (mset (injected s)) (d, x) =
    count (mset (sys_queue s d)) x + count (held s) (d, x) +
      count (mset (delivered s)) (d, x) + count (mset (lost s)) (d, x)"
  using conserved_steps [OF assms] unfolding conserved_def by blast

theorem pub_conserves_messages_witness:
  "count (mset []) ''hello'' + count (mset (given sample_state)) (''q'', ''hello'') +
     count (mset (injected sample_state)) (''q'', ''hello'') =
   count (mset (sys_queue sample_state ''q'')) ''hello'' + count (held sample_state) (''q'', ''hello'') +
     count (mset (delivered sample_state)) (''q'', ''hello'') +
     count (mset (lost sample_state)) (''q'', ''hello'')"
  using pub_conserves_messages [OF sample_reached, where d = "''q''" and x = "''hello''"] .

text \<open>
  C2: the pending counter, a 32-bit unsigned number, is in every reachable state the number of copies the
  fan-out made, taken or refused by their queue, less the number written to a subscriber, up to the copies
  of the fan-out under way and the writes whose producer has not counted them yet. The drop metric, which the
  reporter thread sets to 0 every second, and the numbers it has reported add up to the number of
  refusals, up to those of the fan-out under way. All this is modulo 4294967296.
\<close>

theorem pending_counter_exact:
  assumes "pub_steps (pub_init input q0) s"
  shows "sys_pending s = of_nat (length (given s) + length (refused s)) - of_nat (in_hand (sys_main s)) +
      of_nat (size (uncounted s)) - of_nat (length (delivered s)) \<and>
    sys_drops s + sum_list (reported s) = of_nat (length (refused s)) - of_nat (in_refused (sys_main s))"
  using pending_exact_steps [OF assms] by (auto simp: pending_exact_def algebra_simps)

theorem pending_counter_exact_witness:
  "sys_pending sample_state = of_nat (length (given sample_state) + length (refused sample_state)) -
      of_nat (in_hand (sys_main sample_state)) + of_nat (size (uncounted sample_state)) -
      of_nat (length (delivered sample_state)) \<and>
   sys_drops sample_state + sum_list (reported sample_state) = of_nat (length (refused sample_state)) -
      of_nat (in_refused (sys_main sample_state))"
  using pending_counter_exact [OF sample_reached] by blast

text \<open>
  C3: the condition on which the main thread stops waiting. If all queues were empty when the publisher started,
  its input has ended, and there were fewer than 4294967296 copies and threads together, the pending counter is 0
  exactly when every copy the fan-out made was taken by its queue and written to a subscriber, and every write is counted. A message
  read while the tee had no branch has no copies, and the condition says nothing about it.
\<close>

theorem exit_condition_exact:
  assumes "pub_steps (pub_init input (\<lambda>_. [])) s" and "sys_main s = Ended"
    and "length (given s) + length (refused s) + length (sys_producers s) < 2 ^ 32"
  shows "sys_pending s = 0 \<longleftrightarrow>
    refused s = [] \<and> mset (delivered s) = mset (given s) \<and> uncounted s = {#}"
  using conserved_steps [OF assms(1)] pending_exact_steps [OF assms(1)] assms(2,3)
  by (rule pending_zero_iff)

theorem exit_condition_exact_witness:
  "sys_pending sample_state = 0 \<longleftrightarrow>
     refused sample_state = [] \<and> mset (delivered sample_state) = mset (given sample_state) \<and>
     uncounted sample_state = {#}"
  by (rule exit_condition_exact [OF sample_reached]) simp_all

text \<open>
  C4: what keeps that condition from ever holding, again for a publisher that started with all queues empty and has made
  fewer than 4294967296 copies and threads together. A copy some queue refused, and an empty message (an
  empty line of the input) that a queue took, are counted as pending and never counted off: in every such
  state in which the input has ended, the counter is not 0.
\<close>

theorem exit_condition_unreachable:
  assumes "pub_steps (pub_init input (\<lambda>_. [])) s" and "sys_main s = Ended"
    and "length (given s) + length (refused s) + length (sys_producers s) < 2 ^ 32"
    and "refused s \<noteq> [] \<or> (d, []) \<in> set (given s)"
  shows "sys_pending s \<noteq> 0"
proof
  assume "sys_pending s = 0"
  with pending_zero_iff [OF conserved_steps [OF assms(1)] pending_exact_steps [OF assms(1)] assms(2,3)]
  have "refused s = []" and m: "mset (delivered s) = mset (given s)" by auto
  with assms(4) have "(d, []) \<in> set (delivered s)" by (metis set_mset_mset)
  with pending_exact_steps [OF assms(1)] show False by (force simp: pending_exact_def list_all_iff)
qed

text \<open>One message, one queue that does not take it.\<close>

definition drop_run :: "event list" where
  "drop_run =
     [Conn (CList [(''10.0.0.1:7'', ''q'')]), Conn CVisit, Main MRead, Main (MTee False), Main MPost,
      Main MEnd]"

definition drop_state :: pub_sys where
  "drop_state = the (sys_run drop_run (pub_init [''hello''] (\<lambda>_. [])))"

lemma drop_reached: "pub_steps (pub_init [''hello''] (\<lambda>_. [])) drop_state"
  by (rule sys_run_steps [of drop_run])
    (simp add: drop_state_def drop_run_def pub_init_def)

theorem exit_condition_unreachable_witness: "sys_pending drop_state \<noteq> 0"
  by (rule exit_condition_unreachable [OF drop_reached, where d = "''q''"])
    (simp_all add: drop_state_def drop_run_def pub_init_def)

text \<open>
  C5: order. As long as a destination has had one producer at most, and nothing of it was put back,
  lost or injected, its subscriber has received, and will receive from the producer's hand and the queue,
  exactly what the fan-out put in the queue, in that order.
\<close>

theorem delivery_in_order:
  assumes "pub_steps (pub_init input q0) s"
    and "length (filter (\<lambda>p. p_dest p = d) (sys_producers s)) \<le> 1"
    and "of_dest d (requeued s) = []" and "of_dest d (lost s) = []" and "of_dest d (injected s) = []"
  shows "of_dest d (delivered s) @ of_dest d (concat (map held_by (sys_producers s))) @ sys_queue s d =
    q0 d @ of_dest d (given s)"
  using in_order_steps [OF assms(1), of d] assms(2-5)
  by (simp add: in_order_def undisturbed_def flow_def)

theorem delivery_in_order_witness:
  "of_dest ''q'' (delivered sample_state) @
     of_dest ''q'' (concat (map held_by (sys_producers sample_state))) @ sys_queue sample_state ''q'' =
   [] @ of_dest ''q'' (given sample_state)"
  by (rule delivery_in_order [OF sample_reached]) simp_all

text \<open>
  C6: the set of producers does its work. At no time do two producer threads serve the same subscriber
  address, and a thread that has not ended has its address in the set, or the connector is about to put
  it there; every producer's destination is a branch of the tee, and no branch is there twice.
\<close>

theorem one_producer_per_subscriber:
  assumes "pub_steps (pub_init input q0) s"
  shows "length (filter (\<lambda>p. p_conn p = c \<and> p_phase p \<noteq> Finished) (sys_producers s)) \<le> 1 \<and>
    (\<forall>p \<in> set (sys_producers s). p_dest p \<in> set (sys_branches s) \<and>
       (p_phase p \<noteq> Finished \<longrightarrow>
          p_conn p \<in> set (sys_known s) \<or> (\<exists>subs. sys_conn s = Inserting (p_conn p) subs))) \<and>
    distinct (sys_branches s)"
  using known_inv_one_producer [OF known_inv_steps [OF assms]] known_inv_producer [OF known_inv_steps [OF assms]]
  by blast

theorem one_producer_per_subscriber_witness:
  "length (filter (\<lambda>p. p_conn p = ''10.0.0.1:7'' \<and> p_phase p \<noteq> Finished) (sys_producers sample_state)) \<le> 1 \<and>
   p_dest (hd (sys_producers sample_state)) \<in> set (sys_branches sample_state) \<and>
   distinct (sys_branches sample_state)"
  using one_producer_per_subscriber [OF sample_reached, of "''10.0.0.1:7''"] by simp

text \<open>
  Where it does not. A producer that fails to connect and takes its address out of the set before the
  connector has put it in leaves the address there for good: from then on, in every state the publisher
  gets to, the subscriber is in the set and no thread serves it.
\<close>

theorem producer_set_race:
  "\<exists>s. sys_run (stuck_race c d) (pub_init input q0) = Some s \<and>
     (\<forall>s'. pub_steps s s' \<longrightarrow> c \<in> set (sys_known s') \<and>
        (\<forall>p \<in> set (sys_producers s'). p_conn p = c \<longrightarrow> p_phase p = Finished))"
proof -
  obtain s where r: "sys_run (stuck_race c d) (pub_init input q0) = Some s" and "stuck c s"
    using stuck_race_runs by blast
  then have "stuck c s'" if "pub_steps s s'" for s' using that stuck_steps by blast
  then show ?thesis
    using r by (intro exI [of _ s]) (auto simp: stuck_def live_filter filter_empty_conv)
qed

theorem producer_set_race_witness:
  "\<exists>s. sys_run (stuck_race ''10.0.0.1:7'' ''q'') (pub_init [''hello''] (\<lambda>_. [])) = Some s \<and>
     (\<forall>s'. pub_steps s s' \<longrightarrow> ''10.0.0.1:7'' \<in> set (sys_known s') \<and>
        (\<forall>p \<in> set (sys_producers s'). p_conn p = ''10.0.0.1:7'' \<longrightarrow> p_phase p = Finished))"
  by (rule producer_set_race)

section \<open>The threads of the publisher against the interleaving model\<close>

text \<open>A producer that waits, with one message in its queue, in the model and on the reference kernel.\<close>

definition waiting_state :: pub_sys where
  "waiting_state =
     (pub_init [] (\<lambda>_. [''hello'']))\<lparr>sys_branches := [''q''], sys_known := [''10.0.0.1:7''],
        sys_producers := [\<lparr>p_conn = ''10.0.0.1:7'', p_dest = ''q'', p_phase = Waiting\<rparr>]\<rparr>"

definition sample_mq :: sysv_mq where
  "sample_mq = \<lparr>mqid = 5, key = 5, key_file = [], cleanup = False, put_flag = 0\<rparr>"

definition sample_world :: kworld where
  "sample_world = kworld_empty\<lparr>k_queues := (\<lambda>_. [''hello''])\<rparr>"

definition sample_prod_vars :: prod_vars where
  "sample_prod_vars = \<lparr>prod_pending = 0, prod_metric = FilterMetric ''q''\<rparr>"

text \<open>
  C7: a round of a producer's filter, run on a kernel whose queues and connections behave, returns, and is
  one of the thread's courses in the interleaving model: receive, send, count off; or receive, fail,
  put back or lose; or fail to receive. The queue and the counter agree before and after. A round
  that answers true has put the frame of the message it took, whole, on the connection.
\<close>

theorem producer_round_refines:
  assumes "prod_kernel I queue N outgoing" and "wf_buf m" and "producer_at queue i s Waiting q w v"
  shows "\<exists>ok m' w' v' es s'. Filter (producer_filter I N) m (q, t, w, v) = Inr (ok, m', q, t, w', v') \<and>
    sys_run (map (Prod i) es) s = Some s' \<and>
    producer_at queue i s' (if ok then Waiting else Ending) q w' v' \<and>
    (if ok then \<exists>x. delivered s' = delivered s @ [(p_dest (sys_producers s ! i), x)] \<and>
                    outgoing (sock t) w' = outgoing (sock t) w @ tcp_frame x
     else delivered s' = delivered s)"
  using assms by (rule prod_kernel.producer_round_simulated)

theorem producer_round_refines_witness:
  "\<exists>ok m' w' v' es s'. Filter (producer_filter (ref_ipc None) ref_net) (msg_of [])
      (sample_mq, \<lparr>sock = 4\<rparr>, sample_world, sample_prod_vars) =
      Inr (ok, m', sample_mq, \<lparr>sock = 4\<rparr>, w', v') \<and>
    sys_run (map (Prod 0) es) waiting_state = Some s' \<and>
    producer_at ref_queue 0 s' (if ok then Waiting else Ending) sample_mq w' v' \<and>
    (if ok then \<exists>x. delivered s' = delivered waiting_state @
                      [(p_dest (sys_producers waiting_state ! 0), x)] \<and>
                    ref_outgoing (sock \<lparr>sock = 4\<rparr>) w' =
                      ref_outgoing (sock \<lparr>sock = 4\<rparr>) sample_world @ tcp_frame x
     else delivered s' = delivered waiting_state)"
  by (rule producer_round_refines [OF ref_prod.prod_kernel_axioms])
    (simp_all add: wf_msgD producer_at_def waiting_state_def pub_init_def ref_queue_def sample_world_def
      sample_prod_vars_def)

text \<open>A tee with one branch, and the input \<^verbatim>\<open>hello\<close>.\<close>

definition sample_tee :: "sysv_mq tee" where
  "sample_tee = AddBranch ''q'' sample_mq (Tee_new 0 0)"

definition sample_pub_vars :: pub_vars where
  "sample_pub_vars =
     \<lparr>pending_counter = 0, run_metrics = [], drop_metrics = [FilterMetric ''q''], metric_pending = 0,
      metric_src = String_new, metric_tee = Tee_new 0 0, metric_buf = msg_of []\<rparr>"

definition sample_io :: iostream_base where
  "sample_io = IOStreamBase (istream_of (line_frame ''hello'')) \<lparr>written = [], badbit = False\<rparr>"

definition reading_state :: pub_sys where
  "reading_state = (pub_init [''hello''] (\<lambda>_. []))\<lparr>sys_branches := [''q'']\<rparr>"

lemma sample_tee_sel [simp]:
  "branch_map sample_tee = [(''q'', sample_mq)]" "GetBranchCount sample_tee = 1"
  by (simp_all add: sample_tee_def AddBranch_def Tee_new_def GetBranchCount_def)

lemma sample_io_sel [simp]:
  "good (is_ptr sample_io)" "rdbuf (is_ptr sample_io) = line_frame ''hello''"
  by (simp_all add: sample_io_def IOStreamBase_def)

text \<open>
  C8: a round of the input filter of the publisher, with a branch in the tee and a message on the input,
  returns true and is the main thread's course in the interleaving model: it reads the message, gives it
  to every branch, and counts. Queues and counter agree before and after.
\<close>

theorem input_round_refines:
  assumes "pub_input get ready pending frame fits I queue now sleep time_of"
    and "main_at queue s t w v" and "sys_stdin s = x # xs"
    and "0 < GetBranchCount t" and "drop_metrics v = fm # fms" and "ready io" and "fits x"
    and "pending io = frame x @ rest" and "wf_buf m"
  shows "\<exists>m' io' t' w' v' es s'.
    Filter (input_filter get I now sleep wait) m (io, (t, w), v) = Inr (True, m', io', (t', w'), v') \<and>
    sys_run (map Main es) s = Some s' \<and> main_at queue s' t' w' v' \<and> sys_stdin s' = xs"
  using assms by (rule pub_input.pub_round_simulated)

theorem input_round_refines_witness:
  "\<exists>m' io' t' w' v' es s'.
    Filter (input_filter Line_Get (ref_ipc None) ref_now (ref_sleep id) 1) (msg_of [])
      (sample_io, (sample_tee, kworld_empty), sample_pub_vars) = Inr (True, m', io', (t', w'), v') \<and>
    sys_run (map Main es) reading_state = Some s' \<and> main_at ref_queue s' t' w' v' \<and> sys_stdin s' = []"
  by (rule input_round_refines [OF ref_pub_line.pub_input_axioms, where x = "''hello''" and rest = "[]"
        and fm = "FilterMetric ''q''" and fms = "[]"])
    (simp_all add: wf_msgD main_at_def reading_state_def pub_init_def ref_queue_def kworld_empty_def
      sample_pub_vars_def line_fits_def MAX_MSG_SIZE_def)

text \<open>
  C9: a pass of the connector over the directory that meets no fault is the connector thread's course in
  the interleaving model: it takes the list of subscribers the directory gives and goes through it to the end. It
  skips those it knows, and for each of the others, in the order of the list and once per address,
  starts a thread, adds the branch of its destination if it is missing and enters the address in the set; no other threads
  and branches appear. Set, branches and threads agree with the model before and after.
\<close>

theorem connector_pass_refines:
  assumes "connector_pass I E subs st = (None, st')" and "conn_at st s" and "sys_conn s = Listing"
  shows "(\<exists>es s'. set es \<subseteq> {CVisit, CInsert} \<and> sys_run (map Conn (CList subs # es)) s = Some s' \<and> conn_at st' s' \<and>
      sys_conn s' = Listing) \<and>
    spawned st' = spawned st @ newcomers (set (producer_set st)) subs \<and>
    set (map fst (branch_map (out_tee st'))) =
      set (map fst (branch_map (out_tee st))) \<union> snd ` set (newcomers (set (producer_set st)) subs) \<and>
    set (producer_set st') = set (producer_set st) \<union> fst ` set subs"
  using connector_pass_simulated [OF assms] connector_pass_newcomers [OF assms(1)] connector_pass_producers [OF assms(1)]
  by simp

definition sample_env :: conn_env where
  "sample_env = \<lparr>env_ndebug = True, env_pid = 1, env_before = CHR ''x'', env_garbage = (0, 0, 0),
                 env_drop = None\<rparr>"

definition connector_start :: "kworld connector_st" where
  "connector_start = \<lparr>producer_set = [], out_tee = Tee_new 0 0, metric_list = [], spawned = [],
                      conn_world = kworld_empty\<rparr>"

definition connector_after :: "kworld connector_st" where
  "connector_after = snd (connector_pass (ref_ipc None) sample_env [(''10.0.0.1:7'', ''q'')] connector_start)"

lemma connector_sample:
  "connector_pass (ref_ipc None) sample_env [(''10.0.0.1:7'', ''q'')] connector_start =
     (None, connector_after)"
  by (simp add: connector_after_def connector_visit_def ensure_branch_def new_branch_def mq_init_def
      mq_key_file_def EscapeSubFolderPath_def str_replace_def sample_env_def connector_start_def
      ref_ipc_def ref_key_nonneg not_less Let_def)

theorem connector_pass_refines_witness:
  "(\<exists>es s'. set es \<subseteq> {CVisit, CInsert} \<and> sys_run (map Conn (CList [(''10.0.0.1:7'', ''q'')] # es)) (pub_init [] (\<lambda>_. [])) = Some s' \<and>
     conn_at connector_after s' \<and> sys_conn s' = Listing) \<and> spawned connector_after = [(''10.0.0.1:7'', ''q'')]"
proof -
  have "conn_at connector_start (pub_init [] (\<lambda>_. []))" "sys_conn (pub_init [] (\<lambda>_. [])) = Listing"
    by (simp_all add: conn_at_def connector_start_def pub_init_def Tee_new_def)
  from connector_pass_refines [OF connector_sample this] show ?thesis by (simp add: connector_start_def)
qed



text \<open>
  C11: a wait of the publisher ends, on a clock that does not stand still, whatever the other threads do
  meanwhile: with its condition false, or after the given number of seconds.
\<close>

theorem waits_end:
  assumes "wall_clock now sleep time_of"
  shows "\<exists>s'. sleep_while now sleep cond second s = Some s' \<and> time_of s \<le> time_of s' \<and>
    (cond s' \<longrightarrow> second * 1000000 \<le> time_of s' - time_of s)"
  using assms by (rule wall_clock.sleep_while_returns)

theorem waits_end_witness:
  "\<exists>s'. sleep_while ref_now (ref_sleep id) (\<lambda>s. GetBranchCount (pub_tee s) = 0) 1
      (sample_io, (Tee_new 0 0, kworld_empty), sample_pub_vars) = Some s' \<and>
    ref_time (sample_io, (Tee_new 0 0, kworld_empty), sample_pub_vars) \<le> ref_time s' \<and>
    (GetBranchCount (pub_tee s') = 0 \<longrightarrow>
       1 * 1000000 \<le> ref_time s' - ref_time (sample_io, (Tee_new 0 0, kworld_empty), sample_pub_vars))"
  by (rule waits_end [OF ref_clock.wall_clock_axioms])

section \<open>The subscriber and the wire\<close>

text \<open>A world in which two messages have arrived on socket 4.\<close>

definition arrived_world :: kworld where
  "arrived_world = kworld_empty\<lparr>k_in := (\<lambda>_. concat (map tcp_frame [''a'', ''bc'']))\<rparr>"



text \<open>
  A receiver thread's loop. When the bytes that arrive on its connection before it is closed are
  the frames of messages that fit a buffer, and the queue waits for room, the loop ends and the queue has all of them, in order,
  after what it had, however the bytes were cut into pieces.
\<close>

theorem receiver_queues_everything:
  assumes "recv_kernel N incoming I queue"
    and "\<forall>x \<in> set xs. tcp_fits x" and "incoming (sock t) w = concat (map tcp_frame xs)" and "wf_buf m"
    and "waits_for_room (put_flag q)"
  shows "\<exists>m' t' q' w'. FilterLoop (receiver_filter I N) m (t, q, w) = Some (Inr (m', t', q', w')) \<and>
    queue (mqid q') w' = queue (mqid q) w @ xs"
  using assms by (rule recv_kernel.receiver_loop)

theorem receiver_queues_everything_witness:
  "\<exists>m' t' q' w'. FilterLoop (receiver_filter (ref_ipc None) ref_net) (msg_of [])
      (\<lparr>sock = 4\<rparr>, sample_mq, arrived_world) = Some (Inr (m', t', q', w')) \<and>
    ref_queue (mqid q') w' = ref_queue (mqid sample_mq) arrived_world @ [''a'', ''bc'']"
  by (rule receiver_queues_everything [OF ref_receiver.recv_kernel_axioms])
    (simp_all add: wf_msgD sample_mq_def set_drop_waits tcp_fits_def MAX_MSG_SIZE_def ref_incoming_def arrived_world_def)

text \<open>
  The writer thread, for both formats. From a queue with messages that are not empty it comes to the
  empty queue, where it waits, with all of them written to the standard output, framed, in order.
\<close>

theorem writer_prints_everything:
  assumes "queue_writer I queue put emit"
    and "\<forall>x \<in> set xs. tcp_fits x \<and> x \<noteq> []" and "queue (mqid q) w = xs" and "\<not> badbit (os_ptr io)"
    and "wf_buf m"
  shows "\<exists>m' q' w' io'. FilterLoop (writer_filter I put) m ((q, w), io, ()) =
      FilterLoop (writer_filter I put) m' ((q', w'), io', ()) \<and>
    queue (mqid q') w' = [] \<and> written (os_ptr io') = written (os_ptr io) @ concat (map emit xs)"
  using assms by (rule queue_writer.writer_prints)

theorem writer_prints_everything_witness:
  "\<exists>m' q' w' io'. FilterLoop (writer_filter (ref_ipc None) Line_Put) (msg_of [])
      ((sample_mq, sample_world), sample_io, ()) =
      FilterLoop (writer_filter (ref_ipc None) Line_Put) m' ((q', w'), io', ()) \<and>
    ref_queue (mqid q') w' = [] \<and>
    written (os_ptr io') = written (os_ptr sample_io) @ concat (map line_frame [''hello''])"
  by (rule writer_prints_everything [OF ref_line_writer.queue_writer_axioms])
    (simp_all add: wf_msgD tcp_fits_def MAX_MSG_SIZE_def ref_queue_def sample_world_def sample_io_def
      IOStreamBase_def)

text \<open>
  An empty message ends the writer thread for good, with the messages before it written and those
  after it left in the queue, where nothing reads them any more.
\<close>

theorem writer_ends_at_empty_message:
  assumes "queue_writer I queue put emit"
    and "\<forall>x \<in> set xs. tcp_fits x \<and> x \<noteq> []" and "queue (mqid q) w = xs @ [] # rest"
    and "\<not> badbit (os_ptr io)" and "wf_buf m"
  shows "\<exists>m' q' w' io'. FilterLoop (writer_filter I put) m ((q, w), io, ()) =
      Some (Inr (m', (q', w'), io', ())) \<and>
    queue (mqid q') w' = rest \<and> written (os_ptr io') = written (os_ptr io) @ concat (map emit xs)"
  using assms by (rule queue_writer.writer_stops)

theorem writer_ends_at_empty_message_witness:
  "\<exists>m' q' w' io'. FilterLoop (writer_filter (ref_ipc None) Length_Put) (msg_of [])
      ((sample_mq, sample_world\<lparr>k_queues := (\<lambda>_. [''hello'', [], ''world''])\<rparr>), sample_io, ()) =
      Some (Inr (m', (q', w'), io', ())) \<and>
    ref_queue (mqid q') w' = [''world''] \<and>
    written (os_ptr io') = written (os_ptr sample_io) @ concat (map length_frame [''hello''])"
  by (rule writer_ends_at_empty_message [OF ref_length_writer.queue_writer_axioms])
    (simp_all add: wf_msgD tcp_fits_def MAX_MSG_SIZE_def ref_queue_def sample_io_def IOStreamBase_def)

text \<open>
  \<^verbatim>\<open>TCP::Put\<close> of a message that is not empty returns, on a connection whose writes take at least a byte
  or fail. It answers true exactly when the whole frame (length, most significant byte first, then the
  bytes) went out; otherwise a strict prefix of it did, which the other side cannot tell from a frame
  that is still coming.
\<close>

theorem tcp_put_sends_frame:
  assumes "send_stream N outgoing" and "wf_msg m" and "0 < len m"
  shows "\<exists>ok w' sent. TCP_Put N m (t, w) = Inr (ok, m, t, w') \<and>
    outgoing (sock t) w' = outgoing (sock t) w @ take sent (tcp_frame (payload m)) \<and>
    (if ok then sent = length (tcp_frame (payload m)) else sent < length (tcp_frame (payload m)))"
  using assms by (rule send_stream.TCP_Put_returns)

theorem tcp_put_sends_frame_witness:
  "\<exists>ok w' sent. TCP_Put ref_net (msg_of ''hello'') (\<lparr>sock = 4\<rparr>, kworld_empty\<lparr>k_room := 6\<rparr>) =
      Inr (ok, msg_of ''hello'', \<lparr>sock = 4\<rparr>, w') \<and>
    ref_outgoing (sock \<lparr>sock = 4\<rparr>) w' = ref_outgoing (sock \<lparr>sock = 4\<rparr>) (kworld_empty\<lparr>k_room := 6\<rparr>) @
      take sent (tcp_frame (payload (msg_of ''hello''))) \<and>
    (if ok then sent = length (tcp_frame (payload (msg_of ''hello'')))
     else sent < length (tcp_frame (payload (msg_of ''hello''))))"
  by (rule tcp_put_sends_frame [OF ref_send.send_stream_axioms]) (simp_all add: MAX_MSG_SIZE_def)

text \<open>
  C13: what \<^verbatim>\<open>TCP::Put\<close> sends \<^verbatim>\<open>TCP::Get\<close> reads. Messages that are not empty and fit a buffer are sent one after another on a
  new connection, until one is not sent. If the bytes that went out are what arrives at the other side, in pieces of
  any size, before the connection ends, repeated calls of \<^verbatim>\<open>TCP::Get\<close> give exactly the messages for which
  \<^verbatim>\<open>TCP::Put\<close> answered true, and then answer false, also when the last message was cut off. All messages are sent unless a \<^verbatim>\<open>write\<close>
  fails.
\<close>

theorem tcp_roundtrip:
  assumes "send_stream N outgoing" and "recv_stream N' incoming"
    and "\<forall>m \<in> set ms. wf_msg m \<and> 0 < len m" and "outgoing (sock t) w = []"
  shows "\<exists>k w1. put_until_failure (TCP_Put N) ms (t, w) = Inr (map payload (take k ms), t, w1) \<and> k \<le> length ms \<and>
    ((\<forall>fd bs w. fst (net_write N fd bs w) \<noteq> None) \<longrightarrow> k = length ms) \<and>
    (\<forall>t2 w2 m n. incoming (sock t2) w2 = outgoing (sock t) w1 \<longrightarrow> wf_buf m \<longrightarrow> length ms < n \<longrightarrow>
      get_all (TCP_Get N') n m (t2, w2) = Inr (map payload (take k ms)))"
proof -
  from send_stream.put_until_failure_sends [OF assms(1,3), of t w] assms(4) obtain k w1 cut y where
    p: "put_until_failure (TCP_Put N) ms (t, w) = Inr (map payload (take k ms), t, w1)" "k \<le> length ms"
      "outgoing (sock t) w1 = concat (map tcp_frame (map payload (take k ms))) @ take cut (tcp_frame y)"
      "tcp_fits y" "cut < length (tcp_frame y)" by auto
  have "\<forall>x \<in> set (map payload (take k ms)). tcp_fits x"
    using assms(3) by (auto simp: tcp_fits_def length_payload wf_msg_def dest!: in_set_takeD)
  then have "get_all (TCP_Get N') n m (t2, w2) = Inr (map payload (take k ms))"
    if "incoming (sock t2) w2 = outgoing (sock t) w1" "wf_buf m" "length ms < n" for t2 w2 m n
    using recv_stream.get_all_tcp_cut_off [OF assms(2) _ _ p(4,5) that(2), of t2 w2] that p by simp
  moreover have "k = length ms" if "\<forall>fd bs w. fst (net_write N fd bs w) \<noteq> None"
    using send_stream.put_until_failure_all [OF assms(1) _ assms(3) p(1)] that p(2) by (auto dest: arg_cong [where f = length])
  ultimately show ?thesis using p(1,2) by blast
qed

theorem tcp_roundtrip_witness:
  "\<exists>k w1. put_until_failure (TCP_Put ref_net) [msg_of ''a'', msg_of ''bc''] (\<lparr>sock = 4\<rparr>, kworld_empty\<lparr>k_room := 100\<rparr>) =
      Inr (map payload (take k [msg_of ''a'', msg_of ''bc'']), \<lparr>sock = 4\<rparr>, w1) \<and>
    (ref_incoming 4 arrived_world = ref_outgoing 4 w1 \<longrightarrow>
      get_all (TCP_Get ref_net) 3 (msg_of []) (\<lparr>sock = 4\<rparr>, arrived_world) = Inr (map payload (take k [msg_of ''a'', msg_of ''bc''])))"
  using tcp_roundtrip [OF ref_send.send_stream_axioms ref_recv.recv_stream_axioms, of "[msg_of ''a'', msg_of ''bc'']"
      "\<lparr>sock = 4\<rparr>" "kworld_empty\<lparr>k_room := 100\<rparr>"]
  by (fastforce simp: wf_msgD MAX_MSG_SIZE_def ref_outgoing_def kworld_empty_def)

text \<open>
  The length a peer announces is not compared with the size of the buffer: a header that says more
  than \<open>MAX_MSG_SIZE\<close>, followed by that many bytes and one, makes \<^verbatim>\<open>TCP::Get\<close> write past the end of the array.
\<close>

theorem tcp_get_overflows:
  assumes "recv_stream N incoming" and "wf_buf m"
    and "incoming (sock t) w = mem32 (htonl (word_of_nat l)) @ r" and "l < 2 ^ 32"
    and "MAX_MSG_SIZE < l" and "MAX_MSG_SIZE < length r"
  shows "TCP_Get N m (t, w) = Inl WriteOverflow"
  using assms by (rule recv_stream.TCP_Get_overflow)

definition flood_world :: kworld where
  "flood_world = kworld_empty\<lparr>k_in :=
     (\<lambda>_. mem32 (htonl (word_of_nat 5000)) @ replicate 5000 CHR ''x'')\<rparr>"

theorem tcp_get_overflows_witness:
  "TCP_Get ref_net (msg_of []) (\<lparr>sock = 4\<rparr>, flood_world) = Inl WriteOverflow"
  by (rule tcp_get_overflows [OF ref_recv.recv_stream_axioms, where l = 5000
        and r = "replicate 5000 CHR ''x''"])
    (simp_all add: wf_msgD ref_incoming_def flood_world_def MAX_MSG_SIZE_def)

text \<open>
  The heartbeat of a subscriber, given in seconds, is the number of milliseconds \<^verbatim>\<open>poll\<close> waits, for
  every setting up to 2147483 seconds and for no larger one an \<^verbatim>\<open>int\<close> can hold: the product wraps.
\<close>

theorem heartbeat_setting:
  assumes "getenv ''WISSBI_HEARTBEAT_SEC'' = Some (show_nat n)" and "int n \<le> int_max"
  shows "heartbeat_millis getenv = 1000 * int n \<longleftrightarrow> n \<le> 2147483"
  using assms by (rule heartbeat_exact_iff)

theorem heartbeat_setting_witness:
  "heartbeat_millis (\<lambda>_. Some (show_nat 2147484)) = 1000 * int 2147484 \<longleftrightarrow> (2147484::nat) \<le> 2147483"
  by (rule heartbeat_setting) simp_all

text \<open>
  In a build with assertions compiled out the listening socket stays blocking: \<^verbatim>\<open>run_sub\<close> sets up the
  same way whatever the call that changes the flags of a descriptor would do, so it does not make
  that call.
\<close>

theorem listening_socket_blocks_in_release:
  "sub_listen (S\<lparr>srv_setfl := f\<rparr>) True inet_addr port0 w = sub_listen S True inet_addr port0 w"
  by (rule sub_listen_ndebug)

section \<open>Message formats\<close>

text \<open>
  C14: the line format. Messages that are not empty, have no newline and are shorter than the buffer are
  written one per line, and reading the lines back gives the messages.
\<close>

theorem line_roundtrip:
  assumes "\<forall>x \<in> set xs. x \<noteq> [] \<and> line_fits x" and "\<not> badbit (os_ptr io)" and "written (os_ptr io) = []"
    and "wf_buf m" and "length xs < n"
  shows "\<exists>io'. put_all Line_Put xs io = Some io' \<and>
    get_all Line_Get n m (IOStreamBase (istream_of (written (os_ptr io'))) cout) = Inr xs"
proof -
  from assms(1) have "\<forall>x \<in> set xs. x \<noteq> [] \<and> length x \<le> MAX_MSG_SIZE" by (auto simp: line_fits_def)
  from line_writer.put_all_written [OF this assms(2)] obtain io' where
    "put_all Line_Put xs io = Some io'" "written (os_ptr io') = concat (map line_frame xs)"
    using assms(3) by auto
  moreover have "get_all Line_Get n m (IOStreamBase (istream_of (concat (map line_frame xs))) cout) = Inr xs"
    using assms(1,4,5) by (intro line.get_all_frames) (auto simp: IOStreamBase_def)
  ultimately show ?thesis by auto
qed

definition empty_ostream :: ostream where
  "empty_ostream = \<lparr>written = [], badbit = False\<rparr>"

theorem line_roundtrip_witness:
  "\<exists>io'. put_all Line_Put [''one'', ''two''] (IOStreamBase (istream_of []) empty_ostream) = Some io' \<and>
    get_all Line_Get 3 (msg_of []) (IOStreamBase (istream_of (written (os_ptr io'))) empty_ostream) =
      Inr [''one'', ''two'']"
  by (rule line_roundtrip)
    (simp_all add: wf_msgD line_fits_def MAX_MSG_SIZE_def IOStreamBase_def empty_ostream_def)

text \<open>
  The length format. Messages of any bytes that are not empty and fit the buffer are written with
  their length in decimal and a space before them, and reading them back gives the messages.
\<close>

theorem length_roundtrip:
  assumes "\<forall>x \<in> set xs. x \<noteq> [] \<and> length_fits x" and "\<not> badbit (os_ptr io)"
    and "written (os_ptr io) = []" and "wf_buf m" and "length xs < n"
  shows "\<exists>io'. put_all Length_Put xs io = Some io' \<and>
    get_all Length_Get n m (IOStreamBase (istream_of (written (os_ptr io'))) cout) = Inr xs"
proof -
  from assms(1) have "\<forall>x \<in> set xs. x \<noteq> [] \<and> length x \<le> MAX_MSG_SIZE" by (auto simp: length_fits_def)
  from length_writer.put_all_written [OF this assms(2)] obtain io' where
    "put_all Length_Put xs io = Some io'" "written (os_ptr io') = concat (map length_frame xs)"
    using assms(3) by auto
  moreover have "get_all Length_Get n m (IOStreamBase (istream_of (concat (map length_frame xs))) cout) = Inr xs"
    using assms(1,4,5) by (intro lengthp.get_all_frames) (auto simp: IOStreamBase_def)
  ultimately show ?thesis by auto
qed

theorem length_roundtrip_witness:
  "\<exists>io'. put_all Length_Put [[CHR 0x0A], ''7 x''] (IOStreamBase (istream_of []) empty_ostream) = Some io' \<and>
    get_all Length_Get 3 (msg_of []) (IOStreamBase (istream_of (written (os_ptr io'))) empty_ostream) =
      Inr [[CHR 0x0A], ''7 x'']"
  by (rule length_roundtrip)
    (simp_all add: wf_msgD length_fits_def MAX_MSG_SIZE_def IOStreamBase_def empty_ostream_def)

text \<open>
  The line format never writes past the buffer, whatever the input and the state of the stream:
  \<^verbatim>\<open>Line::Get\<close> returns, the array keeps its size, and the length it sets is below \<open>MAX_MSG_SIZE\<close>.
\<close>

theorem line_get_bounded:
  assumes "wf_buf m"
  shows "\<exists>b m' io'. Line_Get m io = Inr (b, m', io') \<and> wf_buf m' \<and> len m' < MAX_MSG_SIZE"
proof -
  obtain b m' io' where g: "Line_Get m io = Inr (b, m', io')" using Line_Get_no_fault [OF assms] by blast
  with line.get_wf [OF assms g] Line_Get_len [OF g assms] show ?thesis by blast
qed

theorem line_get_bounded_witness:
  "\<exists>b m' io'. Line_Get (msg_of []) (IOStreamBase (istream_of (replicate 9000 CHR ''x'')) empty_ostream) =
     Inr (b, m', io') \<and> wf_buf m' \<and> len m' < MAX_MSG_SIZE"
  by (rule line_get_bounded) (simp add: wf_msgD)

text \<open>
  The length format does: a header that announces more than \<open>MAX_MSG_SIZE\<close> bytes, with that many and
  one behind it, makes \<^verbatim>\<open>Length::Get\<close> write past the end of the array.
\<close>

theorem length_get_overflows:
  assumes "wf_buf m" and "good (is_ptr io)" and "rdbuf (is_ptr io) = show_nat n @ '' '' @ r"
    and "int n \<le> int_max" and "MAX_MSG_SIZE < n" and "MAX_MSG_SIZE < length r"
  shows "Length_Get m io = Inl WriteOverflow"
  using assms by (rule Length_Get_overflow)

theorem length_get_overflows_witness:
  "Length_Get (msg_of [])
     (IOStreamBase (istream_of (show_nat 5000 @ '' '' @ replicate 5000 CHR ''x'')) empty_ostream) =
   Inl WriteOverflow"
  by (rule length_get_overflows [where n = 5000 and r = "replicate 5000 CHR ''x''"])
    (simp_all add: wf_msgD MAX_MSG_SIZE_def IOStreamBase_def)

text \<open>
  And it does not notice the end of the input inside a message: it answers true, with the
  announced length, and the missing bytes are those the buffer had from the message before.
\<close>

theorem length_get_stale_bytes:
  assumes "wf_buf m" and "good (is_ptr io)" and "rdbuf (is_ptr io) = show_nat n @ '' '' @ r"
    and "n \<le> MAX_MSG_SIZE" and "length r < n"
  shows "\<exists>m' io'. Length_Get m io = Inr (True, m', io') \<and>
    payload m' = r @ take (n - length r) (drop (length r) (buf m))"
  using assms by (rule Length_Get_truncated)

theorem length_get_stale_bytes_witness:
  "\<exists>m' io'. Length_Get (msg_of ''secret'')
     (IOStreamBase (istream_of (show_nat 6 @ '' '' @ ''ab'')) empty_ostream) = Inr (True, m', io') \<and>
     payload m' = ''ab'' @ take (6 - length ''ab'') (drop (length ''ab'') (buf (msg_of ''secret'')))"
  by (rule length_get_stale_bytes) (simp_all add: wf_msgD MAX_MSG_SIZE_def IOStreamBase_def)

section \<open>The line tools\<close>

text \<open>
  \<^verbatim>\<open>wissbi-count\<close> on lines that are not empty: it ends with its input, has copied it to its output
  unchanged, and every line is counted once, in a report or in the count that was still running; every
  reported rate is over a positive span of time.
\<close>

theorem count_copies_and_counts:
  assumes "\<forall>x \<in> set xs. line_fits x \<and> x \<noteq> []" and "wf_buf m"
  shows "\<exists>m' s'. count_main time m (concat (map line_frame xs)) w = Some (Inr (m', s')) \<and>
    tool_output s' = concat (map line_frame xs) \<and>
    counted (tool_vars s') = int (length xs) \<and> spans_positive (tool_vars s')"
  using counter.tool_copies [OF assms, where time = time and v = "count_start time w"]
    fold_count_upd [where time = time and xs = xs and v = "count_start time w"]
  by (auto simp: count_main_def)

theorem count_copies_and_counts_witness:
  "\<exists>m' s'. count_main (\<lambda>w. (w, w + 1)) (msg_of []) (concat (map line_frame [''a'', ''b''])) (0::int) =
      Some (Inr (m', s')) \<and>
    tool_output s' = concat (map line_frame [''a'', ''b'']) \<and>
    counted (tool_vars s') = int (length [''a'', ''b'']) \<and> spans_positive (tool_vars s')"
  by (rule count_copies_and_counts) (simp_all add: wf_msgD line_fits_def MAX_MSG_SIZE_def)

text \<open>
  An empty line ends \<^verbatim>\<open>wissbi-count\<close>: the lines before it are copied, it is counted but not copied, and
  what follows is not read.
\<close>

theorem count_ends_at_empty_line:
  assumes "\<forall>x \<in> set xs. line_fits x \<and> x \<noteq> []" and "wf_buf m"
  shows "\<exists>m' s'. count_main time m (concat (map line_frame xs) @ line_frame [] @ rest) w =
      Some (Inr (m', s')) \<and>
    tool_output s' = concat (map line_frame xs) \<and> tool_pending s' = rest \<and>
    counted (tool_vars s') = int (length xs) + 1"
  using counter.tool_stops_at_empty_line [OF assms, where time = time and r = rest and v = "count_start time w"]
    fold_count_upd(1) [where time = time and xs = "xs @ [[]]" and v = "count_start time w"]
  by (auto simp: count_main_def)

theorem count_ends_at_empty_line_witness:
  "\<exists>m' s'. count_main (\<lambda>w. (w, w)) (msg_of [])
      (concat (map line_frame [''a'']) @ line_frame [] @ ''never read'') (0::int) = Some (Inr (m', s')) \<and>
    tool_output s' = concat (map line_frame [''a'']) \<and> tool_pending s' = ''never read'' \<and>
    counted (tool_vars s') = int (length [''a'']) + 1"
  by (rule count_ends_at_empty_line) (simp_all add: wf_msgD line_fits_def MAX_MSG_SIZE_def)

text \<open>
  \<^verbatim>\<open>wissbi-record\<close> on lines that are not empty, with a positive limit and no expiry: it ends with its
  input, has copied it unchanged, and holds the last lines, as many as the limit says.
\<close>

theorem record_copies_and_keeps_last:
  assumes "\<forall>x \<in> set xs. line_fits x \<and> x \<noteq> []" and "wf_buf m"
    and "0 < record_max_num env" and "record_max_num env < 2 ^ 31"
  shows "\<exists>m' s'. record_main time env m (concat (map line_frame xs)) w = Some (Inr (m', s')) \<and>
    tool_output s' = concat (map line_frame xs) \<and>
    map fst (mq (tool_vars s')) = drop (length xs - nat (record_max_num env)) xs"
  using recorder.tool_copies [OF assms(1,2), where time = time and n = "record_max_num env" and v = "record_start w"]
    record_last_messages [OF assms(3,4), of time xs w]
  by (auto simp: record_main_def)

theorem record_copies_and_keeps_last_witness:
  "\<exists>m' s'. record_main (\<lambda>w. (w, w + 1)) (Some (show_nat 2)) (msg_of [])
      (concat (map line_frame [''a'', ''b'', ''c''])) (0::int) = Some (Inr (m', s')) \<and>
    tool_output s' = concat (map line_frame [''a'', ''b'', ''c'']) \<and>
    map fst (mq (tool_vars s')) =
      drop (length [''a'', ''b'', ''c''] - nat (record_max_num (Some (show_nat 2)))) [''a'', ''b'', ''c'']"
  by (rule record_copies_and_keeps_last)
    (simp_all add: wf_msgD line_fits_def MAX_MSG_SIZE_def record_max_num_def extract_int_of_show_nat)

text \<open>
  C15: with the collector thread running beside the filter, in any order, the queue of \<^verbatim>\<open>wissbi-record\<close> is at
  all times an unbroken run of the latest entries pushed, and no longer than a positive limit.
\<close>

theorem record_queue_is_latest:
  assumes "rec_reachable time max_num ttl v" and "max_num < 2 ^ 31"
  shows "suffix (mq v) (history v) \<and> (0 < max_num \<longrightarrow> length (mq v) \<le> nat max_num)"
  using rec_reachable_inv [OF assms] by (simp add: record_inv_def)

definition recorded_two :: "int record_vars" where
  "recorded_two = gc_pass (\<lambda>w. (w, w + 10)) 15
     (record_upd (\<lambda>w. (w, w + 10)) 5 ''b'' (record_upd (\<lambda>w. (w, w + 10)) 5 ''a'' (record_start 0)))"

lemma recorded_two_reachable: "rec_reachable (\<lambda>w. (w, w + 10)) 5 15 recorded_two"
  unfolding recorded_two_def
  by (rule rec_reachable.step [OF rec_reachable.step [OF rec_reachable.step
        [OF rec_reachable.start rec_step.push] rec_step.push] rec_step.collect])

theorem record_queue_is_latest_witness:
  "suffix (mq recorded_two) (history recorded_two) \<and> length (mq recorded_two) \<le> nat 5"
proof -
  have n: "(5::int) < 2 ^ 31" "0 < (5::int)" by simp_all
  show ?thesis
    using record_queue_is_latest [OF recorded_two_reachable n(1)] n(2) by blast
qed

section \<open>Fan-out, connector and registry\<close>

text \<open>
  C16: the fan-out. \<^verbatim>\<open>Put\<close> of a tee of message queues always returns true; it has offered the message once
  to every branch; each queue has the message at its end once for every branch that leads to it and took
  it; the two counters are the number of branches and the number of refusals. A tee without branches
  drops the message.
\<close>

theorem tee_fans_out:
  assumes "mq_kernel I queue" and "wf_msg m"
  shows "\<exists>oks m' w'. length oks = GetBranchCount t \<and>
    Tee_Put (SysvMq_Put I) m (t, w) =
      Inr (True, m', t\<lparr>last_tee_count := int (GetBranchCount t),
                       last_failed_count := int (length (filter Not oks))\<rparr>, w') \<and>
    wf_msg m' \<and> payload m' = payload m \<and>
    (\<forall>r. queue r w' = queue r w @
       map (\<lambda>_. payload m)
         (filter (\<lambda>(kv, ok). ok \<and> mqid (snd kv) = r) (zip (branch_map t) oks)))"
  using assms by (rule mq_kernel.Tee_Put_queues)

theorem tee_fans_out_witness:
  "\<exists>oks m' w'. length oks = GetBranchCount sample_tee \<and>
    Tee_Put (SysvMq_Put (ref_ipc (Some 7))) (msg_of ''hello'') (sample_tee, sample_world) =
      Inr (True, m', sample_tee\<lparr>last_tee_count := int (GetBranchCount sample_tee),
                       last_failed_count := int (length (filter Not oks))\<rparr>, w') \<and>
    wf_msg m' \<and> payload m' = payload (msg_of ''hello'') \<and>
    (\<forall>r. ref_queue r w' = ref_queue r sample_world @
       map (\<lambda>_. payload (msg_of ''hello''))
         (filter (\<lambda>(kv, ok). ok \<and> mqid (snd kv) = r) (zip (branch_map sample_tee) oks)))"
  by (rule tee_fans_out [OF ref_mq.mq_kernel_axioms]) (simp add: MAX_MSG_SIZE_def)

text \<open>
  A pass of the connector over the directory keeps its objects in order: no branch, metric or
  address twice, and for every thread it ever started a branch and a metric of the thread's destination.
  Afterwards the set of producers has the addresses it had and those listed.
\<close>

theorem connector_pass_correct:
  assumes "connector_pass I E subs st = (None, st')" and "connector_inv st"
  shows "connector_inv st' \<and> set (producer_set st') = set (producer_set st) \<union> fst ` set subs"
  using connector_pass_inv [OF assms] connector_pass_producers [OF assms(1)] by simp

theorem connector_pass_correct_witness:
  "connector_inv connector_after \<and>
   set (producer_set connector_after) = set (producer_set connector_start) \<union> {''10.0.0.1:7''}"
proof -
  have "connector_inv connector_start" by (simp add: connector_inv_def connector_start_def)
  from connector_pass_correct [OF connector_sample this] show ?thesis by simp
qed

text \<open>
  A subscriber that has announced itself is found: the publisher's list for the queue has then, besides
  what it had, the subscriber's address with its destination, which is the queue's name as unescaping gives
  it back, or for a topic that name and the address, so that each topic subscriber has a destination of its
  own.
\<close>

theorem announced_subscriber_is_listed:
  assumes "dir_fs FS entries" and "q \<noteq> []" and "plain_addr a" and "length n < npos"
    and "node_file before q a topic = Inr n"
    and "SubEntry_new FS before meta q a topic w = (Inr e, w')"
  shows "set (GetSubList FS meta q w') =
    insert (a, real_dest (queue_dest q) a topic) (set (GetSubList FS meta q w))"
  using assms by (rule dir_fs.SubEntry_new_listed)

definition sample_node :: string where
  "sample_node = ''10.0.0.1:7,logs#web.10.0.0.1:7''"

definition announced :: "(fault + sub_entry) \<times> kworld" where
  "announced = SubEntry_new ref_fs CHR ''x'' ''/m'' ''logs/web/'' ''10.0.0.1:7'' True kworld_empty"

lemma sample_node_file: "node_file CHR ''x'' ''logs/web/'' ''10.0.0.1:7'' True = Inr sample_node"
  by (simp add: node_file_def EscapeSubFolderPath_def str_replace_def sample_node_def)

lemma sample_node_props:
  "''logs/web/'' \<noteq> []" "plain_addr ''10.0.0.1:7''" "length sample_node < npos"
  by (simp_all add: plain_addr_def sample_node_def npos_def)

lemma announced_entry:
  "SubEntry_new ref_fs CHR ''x'' ''/m'' ''logs/web/'' ''10.0.0.1:7'' True kworld_empty =
     (Inr (projr (fst announced)), snd announced)"
  by (simp add: announced_def SubEntry_new_def sample_node_file SubEntry_renew_def ref_fs_def Let_def)

theorem announced_subscriber_is_listed_witness:
  "set (GetSubList ref_fs ''/m'' ''logs/web/'' (snd announced)) =
     insert (''10.0.0.1:7'', real_dest (queue_dest ''logs/web/'') ''10.0.0.1:7'' True)
       (set (GetSubList ref_fs ''/m'' ''logs/web/'' kworld_empty))"
  by (rule announced_subscriber_is_listed [OF ref_dir.dir_fs_axioms sample_node_props sample_node_file
        announced_entry])

text \<open>
  And it leaves no trace: destroying the entry of a subscriber that was not there before gives back
  the list as it was.
\<close>

theorem destroyed_entry_is_gone:
  assumes "dir_fs FS entries" and "q \<noteq> []" and "plain_addr a" and "length n < npos"
    and "node_file before q a topic = Inr n"
    and "SubEntry_new FS before meta q a topic w = (Inr e, w')"
    and "n \<notin> entries (queue_dir meta q) w"
  shows "set (GetSubList FS meta q (SubEntry_delete FS e w')) = set (GetSubList FS meta q w)"
  using dir_fs.SubEntry_new_delete [OF assms] .

theorem destroyed_entry_is_gone_witness:
  "set (GetSubList ref_fs ''/m'' ''logs/web/''
      (SubEntry_delete ref_fs (projr (fst announced)) (snd announced))) =
   set (GetSubList ref_fs ''/m'' ''logs/web/'' kworld_empty)"
  by (rule destroyed_entry_is_gone [OF ref_dir.dir_fs_axioms sample_node_props sample_node_file
        announced_entry])
    (simp add: ref_entries_def kworld_empty_def)

section \<open>Names and addresses\<close>

text \<open>
  Escaping a queue name without \<^verbatim>\<open>#\<close> and trailing slash gives a file name, with no slash in it,
  from which unescaping gives the queue name back.
\<close>

theorem queue_name_roundtrip:
  assumes "plain_name s"
  shows "\<exists>e. EscapeSubFolderPath before s = Inr e \<and> CHR ''/'' \<notin> set e \<and> UnescapeSubFolderPath e = s"
  using assms EscapeSubFolderPath_no_slash [of before s]
  by (simp add: wissbi_string plain_name_def)

theorem queue_name_roundtrip_witness:
  "\<exists>e. EscapeSubFolderPath CHR ''x'' ''logs/web/eu'' = Inr e \<and> CHR ''/'' \<notin> set e \<and>
     UnescapeSubFolderPath e = ''logs/web/eu''"
  by (rule queue_name_roundtrip) (simp add: plain_name_def)





text \<open>
  Queues of different processes, or of different names in one process, have different key files.
\<close>

theorem key_files_distinct:
  assumes "plain_name s" and "plain_name s'"
    and "mq_key_file pid before s = mq_key_file pid' before' s'"
  shows "pid = pid' \<and> s = s'"
proof -
  have "show_nat pid @ CHR ''.'' # str_replace CHR ''/'' CHR ''#'' s =
      show_nat pid' @ CHR ''.'' # str_replace CHR ''/'' CHR ''#'' s'"
    using assms by (simp add: wissbi_string)
  then have "pid = pid'" and e: "str_replace CHR ''/'' CHR ''#'' s = str_replace CHR ''/'' CHR ''#'' s'"
    by (auto dest: show_nat_dot_inj)
  have "s = UnescapeSubFolderPath (str_replace CHR ''/'' CHR ''#'' s)"
    using assms(1) by (simp add: Unescape_Escape plain_name_def)
  also have "\<dots> = s'" using assms(2) by (simp add: e Unescape_Escape plain_name_def)
  finally show ?thesis using \<open>pid = pid'\<close> by simp
qed

theorem key_files_distinct_witness:
  "mq_key_file 12 CHR ''x'' ''a/b'' = mq_key_file 12 CHR ''y'' ''a/b'' \<and> (12::nat) = 12 \<and> ''a/b'' = ''a/b''"
proof -
  have p: "plain_name ''a/b''" by (simp add: plain_name_def)
  have e: "mq_key_file 12 CHR ''x'' ''a/b'' = mq_key_file 12 CHR ''y'' ''a/b''"
    using p by (simp add: wissbi_string)
  with key_files_distinct [OF p p e] show ?thesis by blast
qed

section \<open>Metrics and logging\<close>

text \<open>
  A report of the publisher's metrics, through the filter with the publisher's own hook: every counter
  is set to 0, and every queue behind the metric tee receives, in the order of the list, the text of
  each counter that was not 0.
\<close>

theorem report_sends_and_resets:
  assumes "mq_kernel I queue" and "\<And>q t b n fl w. fst (ipc_msgsnd I q t b n fl w)"
    and "wf_buf m" and "good (str_is p)"
    and "\<forall>fm \<in> set fms. length_fits (report_text direction fm)"
  shows "\<exists>m' p' t' w' x'.
    Report (pub_metric_filter I) direction fms m (p, (t, w), x) =
      Inr (map (\<lambda>fm. fm\<lparr>last_processed := 0\<rparr>) fms, m', p', (t', w'), x') \<and>
    (\<forall>r. queue r w' = queue r w @
       concat (map (\<lambda>text. map (\<lambda>_. text) (filter (\<lambda>kv. mqid (snd kv) = r) (branch_map t)))
         (report_texts direction fms)))"
proof -
  have "\<exists>x'. metric_post True m s = Inr (True, m, fst s, fst (snd s), x')" for m and s :: "('a, 32 word) metric_state"
    by (cases s) (simp add: metric_post_def)
  from mq_kernel.Report_queues [where post = metric_post, OF assms(1,3,4,5,2) this, of t w x] show ?thesis
    unfolding pub_metric_filter_def by (auto dest: Report_resets)
qed

theorem report_sends_and_resets_witness:
  "\<exists>m' p' t' w' x'.
    Report (pub_metric_filter (ref_ipc None)) ''enqueue'' [FilterMetric ''q'', metric_bump (FilterMetric ''r'')]
      (msg_of []) (String_new, (sample_tee, kworld_empty), 0) =
      Inr (map (\<lambda>fm. fm\<lparr>last_processed := 0\<rparr>) [FilterMetric ''q'', metric_bump (FilterMetric ''r'')],
           m', p', (t', w'), x') \<and>
    (\<forall>r. ref_queue r w' = ref_queue r kworld_empty @
       concat (map (\<lambda>text. map (\<lambda>_. text) (filter (\<lambda>kv. mqid (snd kv) = r) (branch_map sample_tee)))
         (report_texts ''enqueue'' [FilterMetric ''q'', metric_bump (FilterMetric ''r'')])))"
  by (rule report_sends_and_resets [OF ref_mq.mq_kernel_axioms ref_ipc_accepts])
    (simp_all add: wf_msgD String_new_def good_def istream_of_def length_fits_def report_text_def
      FilterMetric_def metric_bump_def MAX_MSG_SIZE_def show_nat.simps)

text \<open>
  Every call of the logger in the sources passes as many arguments as its format has placeholders, so
  with the mutex free it returns, prints the time and the format with the arguments filled in, and
  leaves the mutex free.
\<close>

theorem log_calls_print:
  assumes "(format, n) \<in> set log_call_sites" and "length args = n" and "\<not> log_mutex lg"
  shows "log_args ts format args lg =
    (None, lg\<lparr>cerr := cerr lg @ ''['' @ butlast ts @ ''] '' @ interleave (split_format format) args @ [CHR 0x0A]\<rparr>)"
proof -
  have "placeholders format = n" using log_call_sites_match assms(1) by auto
  moreover have "0 < n" using assms(1) by (auto simp: log_call_sites_def)
  ultimately have "length (split_format format) = Suc (length args)" and "args \<noteq> []"
    using assms(2) by (auto simp: placeholders_def)
  then have "dispatch_r (split_format format) args = Inr (interleave (split_format format) args)"
    by (rule dispatch_r_match)
  with assms(3) show ?thesis by (simp add: log_args_def Let_def)
qed

theorem log_calls_print_witness:
  "log_args ''now'' ''error connecting: {}'' [''refused''] \<lparr>log_mutex = False, cerr = []\<rparr> =
    (None, \<lparr>log_mutex = False, cerr = []\<rparr>\<lparr>cerr := cerr \<lparr>log_mutex = False, cerr = []\<rparr> @ ''['' @
       butlast ''now'' @ ''] '' @ interleave (split_format ''error connecting: {}'') [''refused''] @ [CHR 0x0A]\<rparr>)"
  by (rule log_calls_print [where n = 1]) (simp_all add: log_call_sites_def)

text \<open>
  A call with more placeholders than arguments throws with the mutex still locked, and no later call
  of the logger returns.
\<close>

theorem log_mismatch_locks:
  assumes "length args < placeholders format" and "args \<noteq> []" and "\<not> log_mutex lg"
  shows "\<exists>lg'. log_args ts format args lg = (Some (Exception ''not enough argument given''), lg') \<and>
    log_args ts2 format2 args2 lg' = (Some NoReturn, lg') \<and> log_msg ts2 msg2 lg' = (Some NoReturn, lg')"
proof -
  have "dispatch_r (split_format format) args = Inl (Exception ''not enough argument given'')"
    using assms(1,2) by (intro dispatch_r_too_many_segments) (auto simp: placeholders_def)
  with assms(3) show ?thesis by (simp add: log_args_def log_msg_def Let_def)
qed

theorem log_mismatch_locks_witness:
  "\<exists>lg'. log_args ''now'' ''{} and {}'' [''one''] \<lparr>log_mutex = False, cerr = []\<rparr> =
      (Some (Exception ''not enough argument given''), lg') \<and>
    log_args ''later'' ''{}'' [''x''] lg' = (Some NoReturn, lg') \<and>
    log_msg ''later'' ''hi'' lg' = (Some NoReturn, lg')"
  by (rule log_mismatch_locks) (simp_all add: placeholders_def split_format.simps)

section \<open>The character conversions\<close>

text \<open>
  C18: what the decoding routines accept, in mode 0, that is without a byte order mark, and with a \<^verbatim>\<open>Maxcode\<close> of at
  least 0xF4 (below that the routine to UTF-16 compares lead bytes with it and refuses characters it should take;
  \<open>lead_byte_compared\<close>). From UTF-8 to code points, to 16-bit characters and to UTF-16 in 16-bit units, and
  from UTF-16 in both byte orders to code points and to 16-bit characters, on any bytes and into any room:
  what is consumed is exactly a sequence of encoded characters in their only valid form (no overlong
  form, no surrogate, nothing above \<^verbatim>\<open>Maxcode\<close>), what is written is the same characters in the target
  encoding, the result is ok exactly when all was consumed, partial in front of a character only for want
  of room, and an error only where no continuation of the input would be valid.
\<close>

theorem decoding_is_exact:
  assumes "0xF4 \<le> unat Maxcode"
  shows "converts_exactly (utf8_to_ucs4 Maxcode 0) (cp_upto Maxcode) utf8 utf32 \<and>
    converts_exactly (utf8_to_ucs2 Maxcode 0) (bmp_upto Maxcode) utf8 utf32 \<and>
    converts_exactly (utf8_to_utf16_16 Maxcode 0) (cp_upto Maxcode) utf8 utf16 \<and>
    converts_exactly (utf16be_to_ucs4 Maxcode 0) (cp_upto Maxcode) (utf16_bytes be16) utf32 \<and>
    converts_exactly (utf16le_to_ucs4 Maxcode 0) (cp_upto Maxcode) (utf16_bytes le16) utf32 \<and>
    converts_exactly (utf16be_to_ucs2 Maxcode 0) (bmp_upto Maxcode) (utf16_bytes be16) utf32 \<and>
    converts_exactly (utf16le_to_ucs2 Maxcode 0) (bmp_upto Maxcode) (utf16_bytes le16) utf32"
  using utf16_reader.exact [of Maxcode] ucs4_reader.exact ucs2_reader.exact be4.exact le4.exact be2.exact le2.exact
  unfolding plain_in Maxcode_lead [OF assms] by blast

theorem decoding_is_exact_witness:
  "converts_exactly (utf8_to_ucs4 0x10FFFF 0) (cp_upto 0x10FFFF) utf8 utf32 \<and>
   utf8_to_ucs4 0x10FFFF 0 [0xE2, 0x82, 0xAC, 0xED, 0xA0, 0x80] 4 = (error, [0xED, 0xA0, 0x80], [0x20AC])"
  using decoding_is_exact [of "0x10FFFF"]
  by (simp add: utf8_to_ucs4_def utf8_to_ucs4_body_plain skip_header_def above_def)

text \<open>
  C19: the encoding routines implement the encodings. From code points, 16-bit characters and UTF-16 units to
  UTF-8, and from code points and 16-bit characters to UTF-16 in both byte orders, in mode 0 (no byte order
  mark) and for any \<^verbatim>\<open>Maxcode\<close> up to 0x10FFFF: the bytes written are the specified encoding of the characters
  consumed, never more than the room; the result is ok exactly when all was consumed, partial at a character
  that does not fit, and an error at the first unit that is no character. The routine from UTF-16 units
  differs in two cases, which are part of the statement: it answers partial, not error, at a high surrogate
  that is the last unit, and at a pair above \<^verbatim>\<open>Maxcode\<close> for which there is no room.
\<close>

theorem encoding_is_exact:
  assumes "unat Maxcode \<le> 0x10FFFF"
  shows "converts_exactly (ucs4_to_utf8 Maxcode 0) (cp_upto Maxcode) utf32 utf8 \<and>
    converts_exactly (ucs2_to_utf8 Maxcode 0) (bmp_upto Maxcode) utf32 utf8 \<and>
    converts_exactly (utf16_to_utf8_16 Maxcode 0) (cp_upto Maxcode) utf16 utf8 \<and>
    converts_exactly (ucs4_to_utf16be Maxcode 0) (cp_upto Maxcode) utf32 (utf16_bytes be16) \<and>
    converts_exactly (ucs4_to_utf16le Maxcode 0) (cp_upto Maxcode) utf32 (utf16_bytes le16) \<and>
    converts_exactly (ucs2_to_utf16be Maxcode 0) (bmp_upto Maxcode) utf32 (utf16_bytes be16) \<and>
    converts_exactly (ucs2_to_utf16le Maxcode 0) (bmp_upto Maxcode) utf32 (utf16_bytes le16) \<and>
    refuses_others (ucs4_to_utf8 Maxcode 0) (cp_upto Maxcode) utf32 \<and>
    refuses_others (ucs2_to_utf8 Maxcode 0) (bmp_upto Maxcode) utf32 \<and>
    refuses_units Maxcode (utf16_to_utf8_16 Maxcode 0) \<and>
    refuses_others (ucs4_to_utf16be Maxcode 0) (cp_upto Maxcode) utf32 \<and>
    refuses_others (ucs4_to_utf16le Maxcode 0) (cp_upto Maxcode) utf32 \<and>
    refuses_others (ucs2_to_utf16be Maxcode 0) (bmp_upto Maxcode) utf32 \<and>
    refuses_others (ucs2_to_utf16le Maxcode 0) (bmp_upto Maxcode) utf32"
  using ucs4_writer.exact [of Maxcode] ucs2_writer.exact utf16_writer.exact be4_writer.exact [of Maxcode]
    le4_writer.exact [of Maxcode] be2_writer.exact le2_writer.exact ucs4_writer.refuses [of Maxcode]
    ucs2_writer.refuses utf16_refuses be4_writer.refuses [of Maxcode] le4_writer.refuses [of Maxcode]
    be2_writer.refuses le2_writer.refuses
  unfolding plain_out Maxcode_unicode [OF assms] by blast

theorem encoding_is_exact_witness:
  "converts_exactly (ucs4_to_utf8 0xFFFF 0) (cp_upto 0xFFFF) utf32 utf8 \<and>
   ucs4_to_utf8 0xFFFF 0 [0x20AC, 0x10000] 8 = (error, [0x10000], [0xE2, 0x82, 0xAC])"
  using encoding_is_exact [of "0xFFFF"]
  by (simp add: ucs4_to_utf8_def ucs4_to_utf8_body_def with_header_def above_def)

text \<open>
  C20: round trip through a \<^verbatim>\<open>codecvt\<close> object, with byte order marks both written and consumed or neither and
  a \<^verbatim>\<open>Maxcode\<close> between 0xF4 and 0x10FFFF: what \<^verbatim>\<open>do_out\<close> of a class wrote, when it was ok, is read back by \<^verbatim>\<open>do_in\<close>
  of the same object as the units it was given, for the classes over code points, over 16-bit characters and
  over UTF-16 in 16-bit units. Below 0xF4 the class over UTF-16 refuses lead bytes (\<open>lead_byte_compared\<close>), and above
  0x10FFFF the classes over code points write what is no encoding (\<open>no_test_of_unicode\<close>). The two classes that
  keep UTF-16 in 32-bit units are left out, since they drop the upper half of a unit (\<open>overloads_agree\<close>).
\<close>

theorem facets_round_trip:
  assumes "unat Maxcode \<le> 0x10FFFF" "0xF4 \<le> unat Maxcode"
    "has_mode Mode generate_header = has_mode Mode consume_header"
  shows "list_all round_trips (codecvt_char32 # facets32 Maxcode Mode) \<and>
    list_all round_trips (codecvt_char16 # facets16 Maxcode Mode)"
  using assms by (simp add: facets32_def facets16_def facets_round_trips)

theorem facets_round_trip_witness:
  "list_all round_trips (codecvt_char32 # facets32 0x10FFFF 6) \<and>
   list_all round_trips (codecvt_char16 # facets16 0x10FFFF 6)"
  by (rule facets_round_trip) (simp_all add: has_mode_def generate_header_def consume_header_def)

text \<open>
  C21: no conversion writes past \<^verbatim>\<open>to_end\<close>, reads a unit at \<^verbatim>\<open>frm_end\<close> or behind it, or moves \<^verbatim>\<open>frm_nxt\<close> past
  \<^verbatim>\<open>frm_end\<close>, for \<^verbatim>\<open>do_out\<close> and \<^verbatim>\<open>do_in\<close> of all fourteen converting classes, any \<^verbatim>\<open>Maxcode\<close>, any mode, any input
  and any room. A read or a step past the end makes the result \<open>past_end\<close> in the model, and the statement
  is that this result does not occur.
\<close>

theorem facets_within_buffers:
  "list_all within_buffers (codecvt_char32 # facets32 Maxcode Mode @ facets_wide Maxcode Mode) \<and>
   list_all within_buffers (codecvt_char16 # facets16 Maxcode Mode)"
  by (simp add: facets32_def facets16_def facets_wide_def all_within_buffers)

text \<open>
  C22: \<^verbatim>\<open>do_length\<close>, a second copy of every decoder without its output, returns for inputs below two
  gigabytes the number of bytes \<^verbatim>\<open>do_in\<close> consumes into that much room, and \<^verbatim>\<open>do_max_length\<close> is a bound for one
  unit, byte order mark included; for all classes, any \<^verbatim>\<open>Maxcode\<close> and any mode.
\<close>

theorem facets_count_input:
  "list_all counts_input (codecvt_char32 # facets32 Maxcode Mode @ facets_wide Maxcode Mode) \<and>
   list_all counts_input (codecvt_char16 # facets16 Maxcode Mode)"
  by (simp add: facets32_def facets16_def facets_wide_def all_count_input)

text \<open>
  The overloads of \<^verbatim>\<open>utf16_to_utf8\<close> and \<^verbatim>\<open>utf8_to_utf16\<close> for 32-bit units do what those for 16-bit units do:
  the second on the same bytes gives the same result with each unit widened, the first the same bytes as
  for its units cut to 16 bits. So units above 0xFFFF are not reported but converted as what is left of
  them.
\<close>

theorem overloads_agree:
  "utf8_to_utf16_32 Maxcode mode bs room = apsnd (apsnd (map ucast)) (utf8_to_utf16_16 Maxcode mode bs room) \<and>
   utf16_to_utf8_16 Maxcode mode (map ucast us) room =
     apsnd (apfst (map ucast)) (utf16_to_utf8_32 Maxcode mode us room)"
  unfolding routine_defs in_loop_32 out_loop_32 with_header_def
  by (simp add: put_out_def split: prod.split)

text \<open>
  C23: with a \<^verbatim>\<open>Maxcode\<close> up to 0x10FFFF the bytes that leave an encoder for UTF-8 are those of UTF-8: 0xC0, 0xC1
  and everything from 0xF5 on never occur, byte order mark or not, whatever the input, even when the conversion
  stops with an error; for the encoders from code points, from 16-bit characters, and from UTF-16 in 16-bit
  and in 32-bit units. With a larger \<^verbatim>\<open>Maxcode\<close> it does not hold (\<open>no_test_of_unicode\<close>).
\<close>

theorem utf8_output_octets:
  assumes "unat Maxcode \<le> 0x10FFFF"
  shows "list_all valid_octet (snd (snd (ucs4_to_utf8 Maxcode mode us room))) \<and>
    list_all valid_octet (snd (snd (ucs2_to_utf8 Maxcode mode ws room))) \<and>
    list_all valid_octet (snd (snd (utf16_to_utf8_16 Maxcode mode ws room))) \<and>
    list_all valid_octet (snd (snd (utf16_to_utf8_32 Maxcode mode us room)))"
  using routine_octets [OF ucs4_writer.exact [of Maxcode, unfolded Maxcode_unicode [OF assms]]]
    routine_octets [OF ucs2_writer.exact] routine_octets [OF utf16_writer.exact]
  unfolding utf16_to_utf8_32_octets unfolding routine_defs by (simp add: cp_upto_scalar bmp_upto_props)

theorem utf8_output_octets_witness:
  "list_all valid_octet (snd (snd (ucs4_to_utf8 0x10FFFF 2 [0x20AC, 0xD800] 9))) \<and>
   list_all valid_octet (snd (snd (ucs2_to_utf8 0x10FFFF 2 [0x20AC] 9))) \<and>
   list_all valid_octet (snd (snd (utf16_to_utf8_16 0x10FFFF 2 [0x20AC] 9))) \<and>
   list_all valid_octet (snd (snd (utf16_to_utf8_32 0x10FFFF 2 [0x20AC, 0xD800] 9))) \<and>
   snd (snd (ucs4_to_utf8 0x10FFFF 2 [0x20AC, 0xD800] 9)) = [0xEF, 0xBB, 0xBF, 0xE2, 0x82, 0xAC]"
  using utf8_output_octets [of "0x10FFFF" 2 "[0x20AC, 0xD800]" 9 "[0x20AC]"]
  by (simp add: ucs4_to_utf8_def ucs4_to_utf8_body_def with_header_def has_mode_def generate_header_def
      utf8_bom_def above_def)

text \<open>
  The routines agree with each other. A UTF-8 text that decodes to code points and to UTF-16 is the same
  text both ways: encoding the code points as UTF-16 bytes, in either order, gives the bytes of the units.
\<close>

theorem transcoding_commutes:
  assumes "unat Maxcode \<le> 0x10FFFF" "0xF4 \<le> unat Maxcode"
    "utf8_to_ucs4 Maxcode 0 bs room = (ok, rest, us)" "utf8_to_utf16_16 Maxcode 0 bs room' = (ok, rest', ws)"
    "2 * length ws \<le> room''"
  shows "ucs4_to_utf16be Maxcode 0 us room'' = (ok, [], concat (map be16 ws)) \<and>
    ucs4_to_utf16le Maxcode 0 us room'' = (ok, [], concat (map le16 ws))"
proof -
  obtain cs where cs: "list_all (cp_upto Maxcode) cs" "bs = encoded utf8 cs" "us = encoded utf32 cs"
    using ucs4_reader.exact [of Maxcode] assms(3) unfolding plain_in converts_exactly_def by fastforce
  obtain ds where ds: "list_all (cp_upto Maxcode) ds" "bs = encoded utf8 ds" "ws = encoded utf16 ds"
    using utf16_reader.exact [of Maxcode] assms(4) unfolding plain_in Maxcode_lead [OF assms(2)] converts_exactly_def
    by fastforce
  have "cs = ds"
    by (rule utf8_unique) (use cs ds in \<open>auto simp: list_all_iff cp_upto_scalar\<close>)
  with units_to_bytes [OF assms(1) cs(1)] cs(3) ds(3) assms(5) show ?thesis by simp
qed

theorem transcoding_commutes_witness:
  "ucs4_to_utf16be 0x10FFFF 0 [0x1F600] 4 = (ok, [], concat (map be16 [0xD83D, 0xDE00])) \<and>
   ucs4_to_utf16le 0x10FFFF 0 [0x1F600] 4 = (ok, [], concat (map le16 [0xD83D, 0xDE00]))"
  by (rule transcoding_commutes [where bs = "[0xF0, 0x9F, 0x98, 0x80]" and room = 1 and room' = 2])
    (simp_all add: utf8_to_ucs4_def utf8_to_ucs4_body_plain utf8_to_utf16_16_def utf8_to_utf16_16_body_plain
      skip_header_def above_def)

text \<open>
  Where the conversions miss their bound. The decoders from UTF-8 to UTF-16 compare the first byte of a
  character, not the character, with \<^verbatim>\<open>Maxcode\<close>: with a bound of 0xBF the cent sign, 0xA2, is refused.
\<close>

theorem lead_byte_compared:
  "utf8_to_utf16_16 0xBF 0 [0xC2, 0xA2] 4 = (error, [0xC2, 0xA2], []) \<and>
   utf8_to_ucs4 0xBF 0 [0xC2, 0xA2] 4 = (ok, [], [0xA2])"
  by (simp add: utf8_to_utf16_16_def utf8_to_utf16_16_body_plain utf8_to_ucs4_def utf8_to_ucs4_body_plain
      skip_header_def above_def)

text \<open>
  The last branch of \<^verbatim>\<open>ucs4_to_utf8\<close> takes every number up to \<^verbatim>\<open>Maxcode\<close>, although its comment says
  below 0x110000: with a larger bound it writes bytes that are not UTF-8.
\<close>

theorem no_test_of_unicode:
  "\<not> list_all valid_octet (snd (snd (ucs4_to_utf8 0x7FFFFFFF 0 [0x200000] 4)))"
  by (simp add: ucs4_to_utf8_def ucs4_to_utf8_body_def with_header_def above_def valid_octet_def)

section \<open>Sizes of hash tables\<close>

text \<open>
  C24: \<^verbatim>\<open>__next_prime\<close>, from which the unordered containers of the fan-out and of the connector take the number
  of their buckets, returns the least prime that is not below its argument, for every positive
  argument up to 2 to the 64th minus 59 that has a prime of 64 bits above it; the search ends, and no assignment wraps.
\<close>

theorem next_prime_least:
  assumes "0 < n" "n \<le> 0xFFFFFFFFFFFFFFC5" "is_prime p" "n \<le> p" "p < 2 ^ 64"
  shows "\<exists>q. next_prime n = Some (Inr q) \<and> is_prime q \<and> n \<le> q \<and> (\<forall>m. n \<le> m \<longrightarrow> m < q \<longrightarrow> \<not> is_prime m)"
  using next_prime_correct [OF assms] by (simp add: least_prime_from_def)

theorem next_prime_least_witness:
  "\<exists>q. next_prime 212 = Some (Inr q) \<and> is_prime q \<and> 212 \<le> q \<and> (\<forall>m. 212 \<le> m \<longrightarrow> m < q \<longrightarrow> \<not> is_prime m)"
  by (rule next_prime_least [where p = 223]) (simp_all add: small_prime_iff)

text \<open>
  The test inside that search, 42 small primes and then a loop unrolled 48 times over the numbers prime to 210,
  each division also comparing the quotient with the divisor, decides whether its argument is prime.
\<close>

theorem trial_division_exact:
  assumes "wheel_number n" "211 \<le> n"
  shows "test_candidate n \<longleftrightarrow> is_prime n"
  using assms by (rule test_candidate_correct)

theorem trial_division_exact_witness: "test_candidate 223 \<longleftrightarrow> is_prime 223"
  by (rule trial_division_exact) (simp_all add: wheel_number_iff)

section \<open>Exceptions\<close>

text \<open>
  C25: the calls compiled code makes for throw, catch, rethrow and \<^verbatim>\<open>exception_ptr\<close>, in any number and in any
  order that nested catch blocks allow, go through: no assertion fails, no header is used after it was freed, and the
  runtime's counts and linked list have destroyed exactly the objects, in the same order, that the stack of catch blocks
  says are out of use, and keep exactly the others. Destructors are assumed to return.
\<close>

theorem exceptions_follow_blocks:
  assumes "\<forall>d i. D d i" "spec_run evs quiet = Some a"
  shows "\<exists>s. eh_calls D evs (fresh_thread tu tt u t) = Inr s \<and> destroyed s = gone a \<and>
    (\<forall>e. store s e \<noteq> None \<longleftrightarrow> live a e \<or> e \<in># ptrs a) \<and> linked (store s) (caughtExceptions s) (blocks a)"
proof -
  obtain s where s: "eh_calls D evs (fresh_thread tu tt u t) = Inr s" "represents a s"
    using eh_calls_simulate [OF assms(1) represents_fresh assms(2)] by blast
  then show ?thesis using representsD(2,4) [OF s(2)] represents_stored [OF s(2)] by (auto simp: in_use_def)
qed

theorem exceptions_follow_blocks_witness:
  "\<exists>s a. spec_run [Throw 8 1 1, Catch 8, Throw 16 1 1, Catch 16, Rethrow, End, End] quiet = Some a \<and>
     eh_calls (\<lambda>_ _. True) [Throw 8 1 1, Catch 8, Throw 16 1 1, Catch 16, Rethrow, End, End] (fresh_thread 0 0 0 0) =
       Inr s \<and> destroyed s = [8] \<and> store s 16 \<noteq> None"
proof -
  let ?a = "\<lparr>blocks = [], inflight = [16], ptrs = {#}, gone = [8], rethrows = 1\<rparr>"
  have "spec_run [Throw 8 1 1, Catch 8, Throw 16 1 1, Catch 16, Rethrow, End, End] quiet = Some ?a"
    by (simp add: quiet_def live_def drop_ref_def)
  with exceptions_follow_blocks [OF _ this, of "\<lambda>_ _. True" 0 0 0 0] show ?thesis
    by (auto simp: live_def)
qed

text \<open>
  Every exception thrown is destroyed once, or is still in use: for every address, the number of
  throws of an object there is the number of times one was destroyed there, and one more if its header is still allocated.
\<close>

theorem exceptions_destroyed_once:
  assumes "\<forall>d i. D d i" "spec_run evs quiet = Some a" "eh_calls D evs (fresh_thread tu tt u t) = Inr s"
  shows "length (filter (throws e) evs) = count_list (destroyed s) e + of_bool (store s e \<noteq> None)"
proof -
  have s: "represents a s" using eh_calls_simulate [OF assms(1) represents_fresh [of tu tt u t] assms(2)] assms(3) by auto
  show ?thesis
    using spec_run_conserves [OF assms(2) represents_fresh, of e] representsD(4) [OF s] represents_stored [OF s, of e]
    by (simp add: quiet_def in_use_def live_def)
qed

theorem exceptions_destroyed_once_witness:
  "\<exists>s. eh_calls (\<lambda>_ _. True) [Throw 8 1 1, Catch 8, Current, End, Drop 8] (fresh_thread 0 0 0 0) = Inr s \<and>
     1 = count_list (destroyed s) 8 + of_bool (store s 8 \<noteq> None)"
proof -
  let ?evs = "[Throw 8 1 1, Catch 8, Current, End, Drop 8]"
  have r: "spec_run ?evs quiet = Some \<lparr>blocks = [], inflight = [], ptrs = {#}, gone = [8], rethrows = 0\<rparr>"
    by (simp add: quiet_def live_def drop_ref_def may_add_def)
  then obtain s where s: "eh_calls (\<lambda>_ _. True) ?evs (fresh_thread 0 0 0 0) = Inr s"
    using eh_calls_simulate [where D = "\<lambda>_ _. True", OF _ represents_fresh r] by blast
  have "1 = count_list (destroyed s) 8 + of_bool (store s 8 \<noteq> None)"
    using exceptions_destroyed_once [OF _ r s, of 8] by simp
  with s show ?thesis by blast
qed

text \<open>
  A rethrow is not counted in \<^verbatim>\<open>uncaughtExceptions\<close>, but catching what it threw is counted off: after
  one rethrow the counter has wrapped around and \<^verbatim>\<open>uncaught_exception\<close> answers true with nothing thrown.
\<close>

theorem rethrow_not_counted:
  "\<exists>s. eh_calls (\<lambda>_ _. True) [Throw 8 1 1, Catch 8, Rethrow, End, Catch 8, End] (fresh_thread 0 0 0 0) = Inr s \<and>
     uncaught_exception s \<and> caughtExceptions s = 0 \<and> destroyed s = [8]"
proof -
  let ?evs = "[Throw 8 1 1, Catch 8, Rethrow, End, Catch 8, End]"
  have r: "spec_run ?evs quiet = Some \<lparr>blocks = [], inflight = [], ptrs = {#}, gone = [8], rethrows = 1\<rparr>"
    by (simp add: quiet_def live_def drop_ref_def)
  then obtain s where s: "eh_calls (\<lambda>_ _. True) ?evs (fresh_thread 0 0 0 0) = Inr s"
    "represents \<lparr>blocks = [], inflight = [], ptrs = {#}, gone = [8], rethrows = 1\<rparr> s"
    using eh_calls_simulate [where D = "\<lambda>_ _. True", OF _ represents_fresh r] by blast
  then have "uncaught_exception s" "caughtExceptions s = 0" "destroyed s = [8]"
    using representsD [OF s(2)] by (simp_all add: uncaught_exception_def)
  with s(1) show ?thesis by blast
qed

text \<open>
  The end of a catch block for a foreign exception clears the pointer to it and then calls its cleanup
  through that pointer.
\<close>

theorem foreign_end_catch_faults:
  "foreign_exception_state s = caught \<Longrightarrow> caughtExceptions s \<noteq> 0 \<Longrightarrow> cxa_end_catch D s = Inl BadAccess"
  by (simp add: cxa_end_catch_def)

text \<open>
  C26: what the code does when the heap has no memory for an exception. The program is terminated exactly if the
  exception with its header is larger than a kilobyte or the thread has been given four emergency buffers in
  its life, freed or not; otherwise, as soon as some buffer is free or the heap has memory again, the thread
  gets a block nobody else has: one of the heap that was not in use, or a buffer that was free and is now
  marked. Required is that \<^verbatim>\<open>calloc\<close> gives no block still in use, and that sooner or later it has memory or a
  buffer is free. The comments of \<^verbatim>\<open>exception.cc\<close> say otherwise on two points: that of \<^verbatim>\<open>emergency_malloc\<close> has it fail
  for a thread that has four buffers at the time (but the count is never lowered, \<open>buffers_never_returned\<close>), and that
  of \<^verbatim>\<open>alloc_or_die\<close> has termination for more than a kilobyte only.
\<close>

theorem allocation_failure:
  assumes "0 < base" "\<exists>(m, flags) \<in> set rounds. m \<noteq> 0 \<or> \<not> list_all id flags"
    "calloc_fresh ((0, []) # rounds) s"
  shows "(alloc_or_die base sz 0 rounds s = Some (Inl Terminated) \<longleftrightarrow> 1024 < sz \<or> 3 < emergencyBuffersHeld s) \<and>
    (sz \<le> 1024 \<longrightarrow> emergencyBuffersHeld s \<le> 3 \<longrightarrow>
      (\<exists>p s'. alloc_or_die base sz 0 rounds s = Some (Inr (p, s')) \<and> granted base rounds s p s'))"
proof -
  obtain r where r: "emergency_rounds rounds = Some r" using emergency_rounds_ends [OF assms(2)] by blast
  have "fst (case r of Inl mf \<Rightarrow> mf | Inr (i, f) \<Rightarrow> (base + 1024 * i, f)) \<noteq> 0"
    using emergency_rounds_heap [of rounds] r assms(1) by (auto split: sum.split)
  then show ?thesis using r alloc_granted [of base sz 0 rounds s _ _ "[]"] assms(3)
    by (cases r) (auto simp: alloc_or_die_def emergency_malloc_def)
qed

theorem allocation_failure_witness:
  "alloc_or_die 4096 200 0 [(0, replicate 16 True), (0, True # False # replicate 14 True)]
     \<lparr>buffer_allocated = replicate 16 True, emergencyBuffersHeld = 0, heap_blocks = [99]\<rparr> \<noteq> Some (Inl Terminated)"
  using allocation_failure [of 4096 "[(0, replicate 16 True), (0, True # False # replicate 14 True)]"
      "\<lparr>buffer_allocated = replicate 16 True, emergencyBuffersHeld = 0, heap_blocks = [99]\<rparr>" 200]
  by (simp add: calloc_fresh_def)

text \<open>
  The first buffer cannot be given back: its address is not above that of the array, so it is passed to
  \<^verbatim>\<open>free\<close>. And giving back any other does not lower the thread's count, so a thread that has used four buffers
  in its life gets no more.
\<close>

theorem first_buffer_not_freed:
  "alloc_or_die 4096 200 0 [(0, replicate 16 False)]
      \<lparr>buffer_allocated = replicate 16 False, emergencyBuffersHeld = 0, heap_blocks = []\<rparr> =
    Some (Inr (4096, \<lparr>buffer_allocated = True # replicate 15 False, emergencyBuffersHeld = 1, heap_blocks = []\<rparr>)) \<and>
   free_exception 4096 4096 \<lparr>buffer_allocated = True # replicate 15 False, emergencyBuffersHeld = 1, heap_blocks = []\<rparr> =
    Inl BadAccess"
  by (simp add: alloc_or_die_def emergency_malloc_def free_exception_def numeral_eq_Suc)

theorem buffers_never_returned:
  assumes "0 < i" "i < 16"
  shows "\<exists>s'. free_exception base (base + 1024 * i) s = Inr s' \<and> emergencyBuffersHeld s' = emergencyBuffersHeld s"
  using free_buffer [OF assms] by simp

subsection \<open>Exception tables\<close>

text \<open>
  C27: \<^verbatim>\<open>read_value\<close> gives back, in all nine encodings, the value the table has there, and leaves the pointer
  behind it; for the variable-length encodings the values of an \<^verbatim>\<open>int\<close>, for the others all their values.
\<close>

theorem table_values_round_trip:
  assumes "encodable e i" "holds mem p (value_bytes e i)"
  shows "read_value mem e p = Inr (of_int i, p + length (value_bytes e i))"
  using assms by (rule read_value_holds)

theorem table_values_round_trip_witness:
  "read_value (\<lambda>a. if a = 7 then Some 0xAC else if a = 8 then Some 0x7E else None) DW_EH_PE_sleb128 7 = Inr (of_int (- 212), 9)"
  using table_values_round_trip [of DW_EH_PE_sleb128 "- 212"
      "\<lambda>a. if a = 7 then Some 0xAC else if a = 8 then Some 0x7E else None" 7]
  by (simp add: encodable_def value_bytes_def dw_constants get_encoding_def sleb_bytes.simps)

text \<open>
  Beyond that the variable-length reader, which shifts an \<^verbatim>\<open>int\<close>, goes wrong: two to the 31st is read with its
  sign extended, and from six bytes on the shift is undefined.
\<close>

theorem uleb_above_int:
  "uleb_bytes (2 ^ 31) = [0x80, 0x80, 0x80, 0x80, 8] \<and>
   read_uleb128 (\<lambda>a. if a < 4 then Some 0x80 else if a = 4 then Some 8 else None) 0 = Inr (- (2 ^ 31), 5) \<and>
   read_uleb128 (\<lambda>a. if a < 5 then Some 0x80 else if a = 5 then Some 1 else None) 0 = Inl UndefinedShift"
  by (simp add: uleb_bytes.simps read_uleb128_def read_leb128_def leb_loop.simps byte_at_def Let_def)

text \<open>
  C28: the search for a call site, from the bytes of the data area. For a header with or without a base for the
  landing pads (in any encoding that is not indirect) and with or without a type table, and a table of call
  sites in any encoding of which one covers the instruction pointer or begins behind it, the search ends and
  answers with the first entry that covers the instruction pointer among those in front of the first one that
  begins behind it, where it stops. Its landing pad is the base plus the entry's number, its action record is
  counted from 1 behind the call-site table, and either is null where the entry has 0; with no such entry the
  answer is that there is none. In a table sorted by start, as compilers write it, that is the first entry of
  the whole table that covers the instruction pointer. The numbers are in the range of their encoding, the
  variable-length ones below two to the 31st, and the area ends below two to the 64th.
\<close>

theorem call_site_found:
  assumes "lp_fits lp" "header_fits tt (length (concat (map (entry_bytes e) cs)))" "list_all (entry_fits e) cs"
    "holds mem p (data_area lp tt e cs)" "p + length (data_area lp tt e cs) < 2 ^ 64"
    "ip = GetIP context - GetRegionStart context" "settled ip cs"
  shows "and_then (parse_lsda context mem p) (dwarf_eh_find_callsite context mem) =
      Inr (case List.find (covers ip) (takeWhile (\<lambda>c. \<not> ip < of_int (cs_start c)) cs) of
        None \<Rightarrow> (False, \<lparr>landing_pad = 0, action_record = 0\<rparr>)
      | Some c \<Rightarrow>
          (True, \<lparr>landing_pad = (if cs_pad c = 0 then 0 else lp_start context p lp + of_int (cs_pad c)),
                  action_record = (if cs_action c = 0 then 0
                    else of_nat (p + length (data_area lp tt e cs)) + of_int (cs_action c - 1))\<rparr>)) \<and>
    (sorted_wrt (\<lambda>c d. of_int (cs_start c) \<le> (of_int (cs_start d) :: u64)) cs \<longrightarrow>
      List.find (covers ip) (takeWhile (\<lambda>c. \<not> ip < of_int (cs_start c)) cs) = List.find (covers ip) cs)"
proof
  let ?lsda = "data_lsda context p lp tt e (length (concat (map (entry_bytes e) cs)))"
  have l: "landing_pads ?lsda = lp_start context p lp"
    "action_table ?lsda = of_nat (p + length (data_area lp tt e cs))"
    by (simp_all add: data_lsda_def data_area_def Let_def add.assoc)
  have run: "and_then (parse_lsda context mem p) (dwarf_eh_find_callsite context mem) = Inr (outcome ?lsda (covering ip cs))"
    using find_in_area [OF assms(1-5)] assms(6,7) by simp
  show "and_then (parse_lsda context mem p) (dwarf_eh_find_callsite context mem) =
      Inr (case List.find (covers ip) (takeWhile (\<lambda>c. \<not> ip < of_int (cs_start c)) cs) of
        None \<Rightarrow> (False, \<lparr>landing_pad = 0, action_record = 0\<rparr>)
      | Some c \<Rightarrow>
          (True, \<lparr>landing_pad = (if cs_pad c = 0 then 0 else lp_start context p lp + of_int (cs_pad c)),
                  action_record = (if cs_action c = 0 then 0
                    else of_nat (p + length (data_area lp tt e cs)) + of_int (cs_action c - 1))\<rparr>))"
  proof (cases "covering ip cs")
    case None
    then show ?thesis unfolding run covering_find [symmetric] by (simp add: outcome_def)
  next
    case (Some c)
    then have "entry_fits e c" using covering_sound assms(3) by (auto simp: list_all_iff)
    then show ?thesis unfolding run covering_find [symmetric] Some entry_outcome [OF \<open>entry_fits e c\<close>] l by simp
  qed
  show "sorted_wrt (\<lambda>c d. of_int (cs_start c) \<le> (of_int (cs_start d) :: u64)) cs \<longrightarrow>
      List.find (covers ip) (takeWhile (\<lambda>c. \<not> ip < of_int (cs_start c)) cs) = List.find (covers ip) cs"
    using covering_sorted [of cs ip] unfolding covering_find by blast
qed

text \<open>The tables of a small frame: one call site with one catch-all clause.\<close>

definition sample_tables :: memory where
  "sample_tables a = (if 100 \<le> a \<and> a < 119 then
     Some ([0xFF, 0x00, 16, 0x01, 4,  0, 16, 32, 1,  1, 0,  0, 0, 0, 0, 0, 0, 0, 0] ! (a - 100)) else None)"

definition sample_site :: call_site where
  "sample_site = \<lparr>cs_start = 0, cs_size = 16, cs_pad = 32, cs_action = 1\<rparr>"

definition sample_context :: unwind_context where
  "sample_context = \<lparr>GetIP = 0x1004, GetRegionStart = 0x1000, GetTextRelBase = 0, GetDataRelBase = 0\<rparr>"

lemmas sample_tables_eval = sample_tables_def sample_site_def sample_context_def dw_constants get_encoding_def
  uleb_bytes.simps value_bytes_def entry_bytes_def entry_fits_def encodable_def header_fits_def lsda_header_def lsda_at_def
  covers_def

lemma sample_entry: "entry_bytes 1 sample_site = [0, 16, 32, 1]"
  by (simp add: sample_tables_eval)

lemma sample_header: "lsda_header (Some (0, 16)) 1 4 = [0xFF, 0, 16, 1, 4]"
  by (simp add: sample_tables_eval)

lemma sample_lsda: "frame_lsda sample_context 100 (Some (0, 16)) 1 [sample_site] =
  \<lparr>region_start = 0x1000, landing_pads = 0x1000, type_table = 119, type_table_encoding = 0, call_site_table = 105,
   action_table = 109, callsite_encoding = 1\<rparr>"
  by (simp add: frame_lsda_def sample_entry) (simp add: sample_tables_eval)

lemma sample_frame: "frame_tables sample_context sample_tables 100 (Some (0, 16)) 1 [sample_site] sample_site [(1, 0)]"
  unfolding frame_tables_def sample_lsda
  by (simp add: sample_entry sample_header Let_def)
    (simp add: sample_tables_eval in_int_def sleb_bytes.simps)

lemma sample_area: "data_area None (Some (0, 16)) 1 [sample_site] = [0xFF, 0, 16, 1, 4, 0, 16, 32, 1]"
  by (simp add: data_area_def data_header_def lp_bytes_def sample_entry Let_def) (simp add: sample_tables_eval)

theorem call_site_found_witness:
  "and_then (parse_lsda sample_context sample_tables 100) (dwarf_eh_find_callsite sample_context sample_tables) =
    Inr (True, \<lparr>landing_pad = 0x1020, action_record = 109\<rparr>)"
  using call_site_found [of None "Some (0, 16)" 1 "[sample_site]" sample_tables 100 4 sample_context]
  unfolding sample_area lp_start_def
  by (simp add: sample_entry lp_fits_def settled_def) (simp add: sample_tables_eval)

text \<open>
  The loop goes on at the end of the table, where the action records begin: with no call site that covers the
  instruction pointer they are read as one. Here the bytes of the action table give a landing pad
  that no entry has.
\<close>

theorem call_site_past_table:
  "dwarf_eh_find_callsite \<lparr>GetIP = 9, GetRegionStart = 0, GetTextRelBase = 0, GetDataRelBase = 0\<rparr>
     (\<lambda>a. if a < 4 then Some ([1, 1, 5, 0] ! a) else if a < 8 then Some ([7, 4, 6, 0] ! (a - 4)) else None)
     \<lparr>region_start = 0, landing_pads = 0, type_table = 0, type_table_encoding = 0xFF, call_site_table = 0,
      action_table = 4, callsite_encoding = 1\<rparr> = Inr (True, \<lparr>landing_pad = 6, action_record = 0\<rparr>)"
  by (simp add: dwarf_eh_find_callsite_def find_loop.simps read_value_def get_encoding_def dw_constants read_uleb128_def
      read_leb128_def leb_loop.simps byte_at_def call_site_action_def Let_def)

text \<open>
  C29: a C++ exception meets a frame. For the tables of a frame, with any chain of action records whose types can
  be read, the first phase answers that there is a handler exactly when some record takes the exception, a catch clause that
  matches or an exception specification that none of its types matches, up to the first such record; and
  the second phase, given the header the first one left, installs the landing pad of the call site with that
  record's filter as selector. The search ends.
\<close>

theorem handler_found_and_installed:
  assumes "isCXXException cls" "frame_tables context mem p tt e cs c rs"
    "list_all (\<lambda>(f, d). resolvable context mem types void_name (frame_lsda context p tt e cs) th sp f) rs"
    "first_handler (clause context mem types void_name (frame_lsda context p tt e cs) th) sp (map fst rs)
      handler_none 0 (of_nat (adjustedPtr x)) = (h, selector, q)"
    "0 < cs_pad c" "landing_pads (frame_lsda context p tt e cs) + of_int (cs_pad c) \<noteq> 0"
  shows "\<exists>x'. gxx_personality_v0 types void_name 1 UA_SEARCH_PHASE cls obj (x, th) context mem p =
      Some (Inr (if h = handler_catch then URC_HANDLER_FOUND else URC_CONTINUE_UNWIND, None, Some x')) \<and>
    adjustedPtr x' = unat q \<and>
    (h = handler_catch \<longrightarrow> (\<exists>x''. gxx_personality_v0 types void_name 1 UA_HANDLER_FRAME cls obj (x', th) context mem p =
      Some (Inr (URC_INSTALL_CONTEXT,
        Some \<lparr>SetIP = landing_pads (frame_lsda context p tt e cs) + of_int (cs_pad c), SetGR0 = obj, SetGR1 = of_int selector\<rparr>,
        Some x''))))"
proof -
  let ?lsda = "frame_lsda context p tt e cs"
  let ?action = "call_site_action ?lsda (of_int (cs_pad c)) (of_int (cs_action c))"
  have p: "p \<noteq> 0" using assms(2) by (simp add: frame_tables_def Let_def)
  have pad: "landing_pad ?action = landing_pads ?lsda + of_int (cs_pad c)"
    using frame_pad_nonzero [OF assms(2,5)] by (simp add: call_site_action_def)
  note S = search_phase_tables [OF assms(2-4)] personality_phases [OF assms(1) p]
  show ?thesis
  proof (cases "h = handler_catch")
    case True
    then show ?thesis
      using S handler_phase_caught [of ?action obj p selector q x] pad assms(6) by (simp add: caught_header_def)
  next
    case False
    then show ?thesis using S by simp
  qed
qed

lemma sample_type_entry: "load_le sample_tables 111 8 = Inr 0"
proof -
  have 8: "(8::nat) = Suc (Suc (Suc (Suc (Suc (Suc (Suc (Suc 0)))))))" by simp
  show ?thesis unfolding 8 by (simp add: byte_at_def sample_tables_def)
qed

lemma sample_pad: "cs_pad sample_site = 32"
  by (simp add: sample_site_def)

theorem handler_found_and_installed_witness:
  "\<exists>x' x''. gxx_personality_v0 (\<lambda>t. if t = 5 then Some (Class_Type 5 1) else None) 0 1 UA_SEARCH_PHASE exception_class 0x900
      (zero_header, \<lparr>thrown_ptr = 0x980, thrown_type = 5\<rparr>) sample_context sample_tables 100 =
      Some (Inr (URC_HANDLER_FOUND, None, Some x')) \<and> adjustedPtr x' = 0x980 \<and>
    gxx_personality_v0 (\<lambda>t. if t = 5 then Some (Class_Type 5 1) else None) 0 1 UA_HANDLER_FRAME exception_class 0x900
      (x', \<lparr>thrown_ptr = 0x980, thrown_type = 5\<rparr>) sample_context sample_tables 100 =
      Some (Inr (URC_INSTALL_CONTEXT, Some \<lparr>SetIP = 0x1020, SetGR0 = 0x900, SetGR1 = 1\<rparr>, Some x''))"
proof -
  let ?types = "\<lambda>t. if t = 5 then Some (Class_Type 5 1) else None" and ?th = "\<lparr>thrown_ptr = 0x980, thrown_type = 5\<rparr>"
  let ?lsda = "frame_lsda sample_context 100 (Some (0, 16)) 1 [sample_site]"
  have c: "check_clause sample_context sample_tables ?types 0 ?lsda (Some ?th) 1 0 = Inr (True, 0x980)"
    by (simp add: check_clause_def get_type_info_entry_def sample_lsda dwarf_size_of_fixed_size_field_def
        check_type_signature_def read_value_def get_encoding_def dw_constants READ_def sample_type_entry)
  show ?thesis
    using handler_found_and_installed [OF _ sample_frame, of exception_class ?types 0 ?th "\<lambda>_. []" zero_header handler_catch 1
        "0x980" "0x900"] c
    by (simp add: resolvable_def readable_def clause_def sample_lsda sample_pad isCXXException_def) blast
qed

text \<open>
  C30: casting a pointer to a base class, as \<^verbatim>\<open>dynamic_cast\<close> and the comparison with a handler do it. For a class with
  any bases, virtual ones included, when the vtables can be read, the cast fails exactly if the object has no base object of the class,
  and otherwise gives the address of one; where all of them are at one address, that one.
\<close>

theorem upcast_finds_base:
  assumes "well_formed t" "is_class t" "do_upcast mem t target p = Inr r"
  shows "(r = None \<longleftrightarrow> \<not> (\<exists>s q. subobject mem t p s q \<and> ti_addr s = target)) \<and>
    (\<forall>q. r = Some q \<longrightarrow> (\<exists>s. subobject mem t p s q \<and> ti_addr s = target)) \<and>
    (unambiguous mem t p target \<longrightarrow> (\<forall>s q. subobject mem t p s q \<longrightarrow> ti_addr s = target \<longrightarrow> r = Some q)) \<and>
    cast_to mem t p target = Inr (case r of Some q \<Rightarrow> q | None \<Rightarrow> 0)"
  using upcast_exact [OF assms] upcast_unambiguous [OF assms] cast_to_upcast [OF assms] by blast

theorem upcast_finds_base_witness:
  "\<exists>s. subobject (\<lambda>_. None) (Vmi_Class_Type 1 1 [(Class_Type 2 2, 0x002), (Class_Type 3 3, 0x802)]) 0x50 s 0x58 \<and> ti_addr s = 3"
  using upcast_finds_base [of "Vmi_Class_Type 1 1 [(Class_Type 2 2, 0x002), (Class_Type 3 3, 0x802)]" "\<lambda>_. None" 3 "0x50" "Some 0x58"]
  by (simp add: base_object_def isVirtual_def base_flags_def virtual_mask_def base_offset_def)

text \<open>Whether a base is public is not looked at: a handler for a private base class takes the exception.\<close>

theorem private_base_is_caught:
  "\<not> isPublic 0x000 \<and>
   do_catch mem void_name (Class_Type 2 2) (Vmi_Class_Type 1 1 [(Class_Type 2 2, 0x000)]) 0x50 1 = Inr (Some 0x50)"
  by (simp add: isPublic_def base_object_def isVirtual_def base_flags_def virtual_mask_def base_offset_def)

section \<open>Shared pointers, static variables and streams\<close>

text \<open>
  C31: shared and weak pointers to one object, copied, destroyed and locked by any number of threads in any order. The
  object is deleted at most once, and not while a shared pointer exists, of which \<^verbatim>\<open>use_count\<close> is the number;
  the counts are deleted at most once, and never used afterwards; and when no operation is under way, the object is
  deleted if there is no shared pointer left, and the counts if there is no pointer left at all.
\<close>

theorem shared_pointer_lifetime:
  assumes "sp_run es sp_start = Some s" "length es < 2 ^ 62 - 1"
  shows "object_deleted s \<le> 1 \<and> block_deleted s \<le> 1 \<and> \<not> used_after_delete s \<and>
    (0 < shared_ptrs s \<longrightarrow> object_deleted s = 0 \<and> use_count (block s) = of_nat (shared_ptrs s)) \<and>
    (0 < shared_ptrs s + weak_ptrs s \<longrightarrow> block_deleted s = 0) \<and>
    (list_all ((=) Returned) (sp_ops s) \<longrightarrow>
      object_deleted s = of_bool (shared_ptrs s = 0) \<and> block_deleted s = of_bool (shared_ptrs s + weak_ptrs s = 0))"
proof -
  have inv: "sp_inv s" using sp_reached_inv [OF assms] .
  have "how_many P (sp_ops s) = 0" if "list_all ((=) Returned) (sp_ops s)" "\<not> P Returned" for P
    using that by (auto simp: how_many_zero list_all_iff)
  then show ?thesis using inv
    by (cases "shared_ptrs s = 0"; cases "weak_refs s = 0") (auto simp: sp_inv_def use_count_def weak_refs_def)
qed

theorem shared_pointer_lifetime_witness:
  "\<exists>s. sp_run [WeakOfShared, StartLock, Run 0, DropShared, Run 1, Run 0, Run 1, Run 0, Run 0, DropWeak, Run 2] sp_start = Some s \<and>
     object_deleted s = 1 \<and> block_deleted s = 1 \<and> \<not> used_after_delete s"
proof -
  let ?es = "[WeakOfShared, StartLock, Run 0, DropShared, Run 1, Run 0, Run 1, Run 0, Run 0, DropWeak, Run 2]"
  obtain s where s: "sp_run ?es sp_start = Some s" "shared_ptrs s = 0" "weak_ptrs s = 0" "list_all ((=) Returned) (sp_ops s)"
    by (simp add: sp_start_def touch_def new_count_def add_weak_def increment_def decrement_def release_shared_def
        release_weak_def set_op_def lock_try_def Let_def)
  then show ?thesis using shared_pointer_lifetime [OF s(1)] by simp
qed

text \<open>
  C32: the guard of a static variable, with any number of threads all of which come to the variable through
  \<^verbatim>\<open>__cxa_guard_acquire\<close>. Its initialiser returns once at most,
  never runs in two threads at the same time nor after it has returned, and such a thread uses the variable only
  after that. (Compiled code tests a byte of the guard first and goes by \<^verbatim>\<open>__cxa_guard_acquire\<close> when it is set; what
  that byte is on a little-endian machine is \<open>guard_byte_misplaced\<close>, and nothing is said here of a thread that goes by.) And a thread that waits in \<^verbatim>\<open>__cxa_guard_acquire\<close> while no other is at work on the guard
  leaves it within three steps, to initialise the variable if that is still to be done.
\<close>

theorem static_initialised_once:
  assumes "guard_reach n s"
  shows "constructed s \<le> 1 \<and> how_many ((=) Constructing) (guard_threads s) \<le> 1 - constructed s \<and>
    (0 < how_many ((=) Using) (guard_threads s) \<longrightarrow> constructed s = 1) \<and>
    (list_all (\<lambda>p. \<not> at_work p) (guard_threads s) \<longrightarrow>
      (\<forall>i < length (guard_threads s). waiting (guard_threads s ! i) \<longrightarrow>
        (\<exists>k \<le> 3. guard_threads ((guard_exec i returns ^^ k) s) ! i = (if constructed s = 0 then Constructing else Using))))"
proof -
  have inv: "guard_inv s" using guard_reach_inv [OF assms] .
  have "how_many ((=) Constructing) (guard_threads s) \<le> how_many constructing (guard_threads s)"
    by (rule how_many_mono) auto
  then show ?thesis using inv guard_leaves_loop [OF inv] by (auto simp: guard_inv_def Let_def)
qed

theorem static_initialised_once_witness:
  "\<exists>s. guard_reach 2 s \<and> constructed s = 1 \<and> how_many ((=) Constructing) (guard_threads s) = 0 \<and> guard_threads s ! 0 = Using"
proof -
  let ?run = "\<lambda>is. fold (\<lambda>i. guard_exec i True) is (guard_start 2)"
  have F: "guard_reach 2 (?run is) \<and> length (guard_threads (?run is)) = 2" if "list_all (\<lambda>i. i < 2) is" for "is"
    using that by (induction "is" rule: rev_induct)
      (auto simp: guard_exec_phase intro: guard_reach.intros, simp_all add: guard_start_def guard_reach.start [unfolded guard_start_def])
  have r: "guard_reach 2 (?run [0, 0, 1, 1, 0, 0, 0, 0, 0])" by (rule conjunct1 [OF F]) simp
  have p: "guard_threads (?run [0, 0, 1, 1, 0, 0, 0, 0, 0]) ! 0 = Using" "constructed (?run [0, 0, 1, 1, 0, 0, 0, 0, 0]) = 1"
    by (simp_all add: guard_start_def guard_exec_def Let_def numeral_2_eq_2)
  show ?thesis
    using static_initialised_once [OF r] p r by (intro exI [of _ "?run [0, 0, 1, 1, 0, 0, 0, 0, 0]"]) simp
qed

text \<open>
  On a little-endian machine the lock is kept where the ABI has the byte that says whether the variable is initialised,
  and which compiled code tests before it calls \<^verbatim>\<open>__cxa_guard_acquire\<close>: while the initialiser runs, that
  byte is 1, and when it has returned and the guard was released, 0.
\<close>

theorem guard_byte_misplaced:
  assumes "guard_reach n s"
  shows "(0 < how_many ((=) Constructing) (guard_threads s) \<longrightarrow> abi_first_byte (guard_object s) = 1) \<and>
    abi_first_byte 0x100000000000000 = 0 \<and> first_byte 0x100000000000000 = 1"
  using abi_byte_set_while_constructing [OF guard_reach_inv [OF assms]] by (simp add: abi_first_byte_def)

text \<open>
  C33: the storage of a stream. After any sequence of assignments to words and registrations of callbacks, with
  memory for them, every word has the value assigned to it last, whatever happened to the arrays in between, and
  an event calls the callbacks, the last registered first.
\<close>

theorem stream_storage_kept:
  assumes "list_all in_index cs" "length cs < 2 ^ 32"
  shows "\<exists>s. storage_run cs (ios_init sb l) = Inr s \<and> has_storage s (fold storage_spec cs no_storage) \<and>
    (\<forall>cb ev. leaves_callbacks cb \<longrightarrow>
      call_callbacks cb ev s = call_list cb ev (rev (registered (fold storage_spec cs no_storage))) s)"
proof -
  obtain s where s: "storage_run cs (ios_init sb l) = Inr s" "has_storage s (fold storage_spec cs no_storage)"
    using storage_run_simulates [OF has_storage_init assms(1)] assms(2) by (auto simp: no_storage_def)
  then show ?thesis using call_callbacks_reverse by (auto simp: has_storage_def)
qed

theorem stream_storage_kept_witness:
  "\<exists>s. storage_run [SetInt 0 5, Register 7 1, SetInt 9 6, SetPointer 3 64, Register 8 2] (ios_init 1 0) = Inr s \<and>
     w_data (iarray s) ! 0 = Some 5 \<and> w_data (iarray s) ! 9 = Some 6 \<and> w_data (parray s) ! 3 = Some 64"
  using stream_storage_kept [of "[SetInt 0 5, Register 7 1, SetInt 9 6, SetPointer 3 64, Register 8 2]" 1 0]
  by (auto simp: has_storage_def has_words_def no_storage_def)

text \<open>
  A word that was not assigned is not always 0. The loop that clears new words begins at the size of the array and
  not at its capacity, so after the words 0, 1, 2 and 4 were asked for, the word 7 is one nobody wrote; and words
  that \<^verbatim>\<open>copyfmt\<close> from a stream without any should have removed come back with their old value.
\<close>

theorem fresh_word_uninitialised:
  "\<exists>s s'. storage_run [SetInt 0 1, SetInt 1 1, SetInt 2 1, SetInt 4 1] (ios_init 1 0) = Inr s \<and>
     ios_iword True 7 s = Inr (Some 7, s') \<and> w_data (iarray s') ! 7 = None"
  by (simp add: set_int_def set_word_def ios_iword_def word_at_def grow_words_def new_cap_def realloc_slots_def zero_slots_def
      ios_init_def no_words_def size_of_int_def size_add_def Let_def nth_append)

theorem copied_words_come_back:
  "\<exists>s s' s''. storage_run [SetInt 0 5] (ios_init 1 0) = Inr s \<and>
     ios_copyfmt True True True True (ios_init 1 0) s = Inr s' \<and> w_size (iarray s') = 0 \<and>
     ios_iword True 0 s' = Inr (Some 0, s'') \<and> w_data (iarray s'') ! 0 = Some 5"
  by (simp add: set_int_def set_word_def ios_iword_def word_at_def grow_words_def new_cap_def realloc_slots_def zero_slots_def
      ios_init_def no_words_def size_of_int_def size_add_def Let_def ios_copyfmt_def copy_words_def copy_slots_def)

text \<open>Without memory for the list of callbacks, \<^verbatim>\<open>register_callback\<close> writes through a null pointer.\<close>

theorem register_without_memory:
  "\<exists>s. register_callback False True f x (ios_init 1 0) = Inl (IosBadAccess, s)"
  by (simp add: register_callback_def ios_setstate_def ios_clear_def ios_init_def store_callback_def size_add_def Let_def
      ios_goodbit_def)

text \<open>
  \<^verbatim>\<open>copyfmt\<close> does everything or nothing. If one of the allocations it needs is refused, it throws and the stream
  is as it was; otherwise the stream has the format, the locale, the words and the callbacks of the other one,
  and keeps its own state bits, exception mask and buffer.
\<close>

theorem copyfmt_all_or_nothing:
  assumes "has_storage s a" "has_storage rhs b" "length (registered b) \<le> 2 ^ 32"
  shows "(\<not> copyfmt_granted o1 o2 o3 o4 rhs s \<longrightarrow> ios_copyfmt o1 o2 o3 o4 rhs s = Inl (IosBadAlloc, s)) \<and>
    (copyfmt_granted o1 o2 o3 o4 rhs s \<longrightarrow>
      (\<exists>s'. ios_copyfmt o1 o2 o3 o4 rhs s = Inr s' \<and> has_storage s' b \<and>
        io_fmtflags s' = io_fmtflags rhs \<and> io_precision s' = io_precision rhs \<and> io_width s' = io_width rhs \<and>
        io_loc s' = io_loc rhs \<and> io_rdstate s' = io_rdstate s \<and> io_exceptions s' = io_exceptions s \<and> io_rdbuf s' = io_rdbuf s))"
  using copyfmt_refused copyfmt_copies [OF _ assms] by blast

theorem copyfmt_all_or_nothing_witness:
  "\<exists>rhs b. has_storage rhs b \<and> registered b = [(7, 1)] \<and>
     ios_copyfmt True False True True rhs (ios_init 1 0) = Inl (IosBadAlloc, ios_init 1 0)"
proof -
  obtain rhs where r: "has_storage rhs (fold storage_spec [Register 7 1] no_storage)"
    using storage_run_simulates [OF has_storage_init, of "[Register 7 1]"] by (auto simp: no_storage_def)
  then have "\<not> copyfmt_granted True False True True rhs (ios_init 1 0)"
    by (simp add: copyfmt_granted_def has_storage_def has_callbacks_def ios_init_def no_storage_def)
  then show ?thesis
    using copyfmt_all_or_nothing [OF has_storage_init r, of True False True True 1 0] r
    by (intro exI [of _ rhs] exI [of _ "fold storage_spec [Register 7 1] no_storage"]) (simp add: no_storage_def)
qed

section \<open>Numbers in strings\<close>

text \<open>
  C34: what \<^verbatim>\<open>stoi\<close>, \<^verbatim>\<open>stol\<close>, \<^verbatim>\<open>stoll\<close>, \<^verbatim>\<open>stoul\<close> and \<^verbatim>\<open>stoull\<close> do with a decimal number after white space, with or without a sign
  and with anything that is not a digit behind it, in base 10. The first three give the number and where it ends, if the type has
  it, and throw \<^verbatim>\<open>out_of_range\<close> if not. The two for unsigned types take any sign: they throw \<^verbatim>\<open>out_of_range\<close> if the digits
  alone make two to the 64th or more, and otherwise give the number modulo two to the 64th, so \<^verbatim>\<open>stoul("-1")\<close> is the
  largest value and no error. Where there is no digit after white space and sign all five throw \<^verbatim>\<open>invalid_argument\<close>.
  \<^verbatim>\<open>errno\<close> stays as it was.
\<close>

theorem string_to_number:
  assumes "\<forall>c \<in> set sp. c_space c" "is_sign sg" "\<forall>c \<in> set ds. is_digit c" "stops rest"
    "ds = [] \<longrightarrow> \<not> (rest \<noteq> [] \<and> sg = [] \<and> (c_space (hd rest) \<or> hd rest = 43 \<or> hd rest = 45))"
  shows "if ds = [] then
      stoi (sp @ sg @ rest) 10 e = (Inl (Invalid_Argument ''stoi: no conversion''), e) \<and>
      stol (sp @ sg @ rest) 10 e = (Inl (Invalid_Argument ''stol: no conversion''), e) \<and>
      stoll (sp @ sg @ rest) 10 e = (Inl (Invalid_Argument ''stoll: no conversion''), e) \<and>
      stoul (sp @ sg @ rest) 10 e = (Inl (Invalid_Argument ''stoul: no conversion''), e) \<and>
      stoull (sp @ sg @ rest) 10 e = (Inl (Invalid_Argument ''stoull: no conversion''), e)
    else
      let s = sp @ sg @ units_of ds @ rest; n = length sp + length sg + length ds; i = signed_val sg ds in
      stoi s 10 e = (number_result ''stoi'' (- (2 ^ 31)) (2 ^ 31 - 1) i n, e) \<and>
      stol s 10 e = (number_result ''stol'' (- (2 ^ 63)) (2 ^ 63 - 1) i n, e) \<and>
      stoll s 10 e = (number_result ''stoll'' (- (2 ^ 63)) (2 ^ 63 - 1) i n, e) \<and>
      stoul s 10 e = (if int (digits_val ds) < 2 ^ 64 then Inr (i mod 2 ^ 64, n)
        else Inl (Out_Of_Range ''stoul: out of range''), e) \<and>
      stoull s 10 e = (if int (digits_val ds) < 2 ^ 64 then Inr (i mod 2 ^ 64, n)
        else Inl (Out_Of_Range ''stoull: out of range''), e)"
proof (cases "ds = []")
  case True
  then have "strto 10 (sp @ sg @ rest) = (None, 0)" using strto_nothing [OF assms(1,2,4)] assms(5) by blast
  then show ?thesis
    by (simp add: True stoi_def as_int_def stol_def stoll_def stoul_def stoull_def as_integer_helper_def strtol_def strtoul_def
        strtol_like_def strtoul_like_def ERANGE_def)
next
  case False
  then show ?thesis using sto_number [OF assms(1,2) False assms(3,4)] by (simp add: Let_def unsigned_result_def)
qed

theorem string_to_number_witness:
  "stoi (units_of ''  2147483648x'') 10 7 = (Inl (Out_Of_Range ''stoi: out of range''), 7) \<and>
   stol (units_of ''  2147483648x'') 10 7 = (Inr (2147483648, 12), 7)"
  using string_to_number [of "[32, 32]" "[]" "''2147483648''" "[120]" 7]
  by (simp add: c_space_def is_sign_def is_digit_def stops_def c_digit_def units_of_def signed_val_def digits_val_def digit_val_def
      number_result_def Let_def)

text \<open>
  C35: integers survive the way into a string and back. For each of the six integer overloads of \<^verbatim>\<open>to_string\<close> and
  of \<^verbatim>\<open>to_wstring\<close>, with the format it passes to \<^verbatim>\<open>snprintf\<close> or \<^verbatim>\<open>swprintf\<close>, every value of the type and whatever capacity
  the string starts with: the function returns, the narrow and the wide text are the same, and in base 10 the function that
  reads the type gives the value back and has read all of the text, with \<^verbatim>\<open>errno\<close> as it was: \<^verbatim>\<open>stoi\<close> for
  \<^verbatim>\<open>int\<close>, \<^verbatim>\<open>stol\<close> for \<^verbatim>\<open>long\<close>, \<^verbatim>\<open>stoll\<close> for \<^verbatim>\<open>long long\<close>, \<^verbatim>\<open>stoul\<close> for \<^verbatim>\<open>unsigned\<close>, which has none of its own, and
  \<^verbatim>\<open>unsigned long\<close>, \<^verbatim>\<open>stoull\<close> for \<^verbatim>\<open>unsigned long long\<close>.
\<close>

theorem number_round_trip:
  "(\<exists>t. to_string_int cap v = Some t \<and> to_wstring_int cap' v = Some t \<and> stoi t 10 e = (Inr (sint v, length t), e)) \<and>
   (\<exists>t. to_string_unsigned cap v = Some t \<and> to_wstring_unsigned cap' v = Some t \<and>
      stoul t 10 e = (Inr (uint v, length t), e)) \<and>
   (\<exists>t. to_string_long cap w = Some t \<and> to_wstring_long cap' w = Some t \<and> stol t 10 e = (Inr (sint w, length t), e)) \<and>
   (\<exists>t. to_string_unsigned_long cap w = Some t \<and> to_wstring_unsigned_long cap' w = Some t \<and>
      stoul t 10 e = (Inr (uint w, length t), e)) \<and>
   (\<exists>t. to_string_long_long cap w = Some t \<and> to_wstring_long_long cap' w = Some t \<and>
      stoll t 10 e = (Inr (sint w, length t), e)) \<and>
   (\<exists>t. to_string_unsigned_long_long cap w = Some t \<and> to_wstring_unsigned_long_long cap' w = Some t \<and>
      stoull t 10 e = (Inr (uint w, length t), e))"
  using word_ranges(1-3) [of v] word_ranges(4-6) [of w] by (simp add: to_string_texts read_printed number_result_def)

section \<open>Mutexes and \<^verbatim>\<open>call_once\<close>\<close>

text \<open>
  C36: the mutexes that are made of a flag or a count and a condition variable, \<^verbatim>\<open>timed_mutex\<close> and \<^verbatim>\<open>recursive_timed_mutex\<close>,
  with any number of threads that lock, try to lock and unlock them in any order, and are woken with or without
  reason. At no time do two threads hold one; and if nobody holds it while a thread sleeps on it, a
  notification is on its way or a thread is awake that will try again.
\<close>

theorem mutexes_exclude:
  assumes "lock_run recursive_ops es (lock_start rt_init n) = Some s" "lock_run timed_ops es' (lock_start tm_init n') = Some s'"
  shows "(\<forall>i j. i < length (lock_held s) \<longrightarrow> j < length (lock_held s) \<longrightarrow> 0 < lock_held s ! i \<longrightarrow> 0 < lock_held s ! j \<longrightarrow> i = j) \<and>
    (\<forall>i j. i < length (lock_held s') \<longrightarrow> j < length (lock_held s') \<longrightarrow> 0 < lock_held s' ! i \<longrightarrow> 0 < lock_held s' ! j \<longrightarrow> i = j) \<and>
    (list_all ((=) 0) (lock_held s) \<longrightarrow> Asleep \<in> set (phases s) \<longrightarrow> 0 < notices s \<or> Woken \<in> set (phases s)) \<and>
    (list_all ((=) 0) (lock_held s') \<longrightarrow> Asleep \<in> set (phases s') \<longrightarrow> 0 < notices s' \<or> Woken \<in> set (phases s'))"
proof -
  have "recursive.lock_inv s"
    using recursive.lock_inv_run [OF assms(1)] recursive.lock_inv_start [of rt_init n] by (simp add: rt_holder_def rt_init_def)
  moreover have "timed.lock_inv s'"
    using timed.lock_inv_run [OF assms(2)] timed.lock_inv_start [of tm_init n'] by (simp add: tm_holder_def tm_init_def)
  ultimately show ?thesis
    using recursive.mutual_exclusion [of s] timed.mutual_exclusion [of s'] recursive.nobody_left_asleep [of s]
      timed.nobody_left_asleep [of s'] by blast
qed

theorem mutexes_exclude_witness:
  "\<exists>s s'. lock_run recursive_ops [Lock 0, Lock 0, Lock 1, Unlock 0, Unlock 0] (lock_start rt_init 2) = Some s \<and>
     lock_run timed_ops [Lock 0, Lock 1, Unlock 0] (lock_start tm_init 2) = Some s' \<and> 0 < notices s \<and> 0 < notices s'"
proof -
  have [simp]: "Suc 0 \<noteq> size_max" "0 \<noteq> size_max" "size_sub (Suc (Suc 0)) (Suc 0) = Suc 0" "size_sub (Suc 0) (Suc 0) = 0"
    by (simp_all add: size_max_def)
  obtain s where s: "lock_run recursive_ops [Lock 0, Lock 0, Lock 1, Unlock 0, Unlock 0] (lock_start rt_init 2) = Some s"
    "lock_held s = [0, 0]" "phases s = [Active, Asleep]"
    by (simp add: lock_start_def rt_init_def recursive_ops_def rt_lock_def rt_test_def rt_unlock_def got_def fall_asleep_def
        numeral_2_eq_2 Let_def)
  obtain s' where s': "lock_run timed_ops [Lock 0, Lock 1, Unlock 0] (lock_start tm_init 2) = Some s'"
    "lock_held s' = [0, 0]" "phases s' = [Active, Asleep]"
    by (simp add: lock_start_def tm_init_def timed_ops_def tm_lock_def tm_unlock_def got_def fall_asleep_def numeral_2_eq_2)
  show ?thesis using mutexes_exclude [OF s(1) s'(1)] s s' by simp
qed

text \<open>
  \<^verbatim>\<open>call_once\<close>: the function returns once at most and never runs in two threads at a time; a call returns only after it
  has; and a thread sleeps only while the function runs or a broadcast is about to come.
\<close>

theorem call_once_calls_once:
  assumes "once_reach n s"
  shows "completed s \<le> 1 \<and> how_many ((=) Running) (once_threads s) \<le> 1 - completed s \<and>
    (0 < how_many ((=) Passed) (once_threads s) \<longrightarrow> completed s = 1) \<and>
    (0 < how_many ((=) Sleeping) (once_threads s) \<longrightarrow>
      0 < how_many ((=) Running) (once_threads s) \<or> 0 < how_many announcing (once_threads s))"
  using once_reach_inv [OF assms] by (auto simp: once_inv_def Let_def)

section \<open>Streams over arrays\<close>

text \<open>
  A stream over an array its user gave, with a put area or without, stays inside that array: whatever is
  written, read, put back or sought, in any order, every call returns, no character outside is read or written, and
  an array that was given as constant is never changed.
\<close>

theorem array_stream_stays_inside:
  assumes "None \<notin> set mem" "0 < n" "(case pbeg of None \<Rightarrow> 0 | Some b \<Rightarrow> b) + nat n \<le> length mem"
  shows "(\<exists>s rs s'. sb_array_new mem n pbeg = Inr s \<and> sb_run es s = Inr (rs, s') \<and> length (sb_mem s') = length mem) \<and>
    (nat n \<le> length mem \<longrightarrow> (\<exists>s rs s'. sb_const_new mem n = Inr s \<and> sb_run es s = Inr (rs, s') \<and> sb_mem s' = mem))"
proof -
  obtain s where s: "sb_init mem n pbeg False = Inr s" "sb_inside s" "sb_mem s = mem"
    using sb_initial_inside [OF assms, of False] by (elim exE conjE) (rule that)
  have c: "\<exists>s rs s'. sb_init mem n None True = Inr s \<and> sb_run es s = Inr (rs, s') \<and> sb_mem s' = mem" if "nat n \<le> length mem"
  proof -
    obtain t where t: "sb_init mem n None True = Inr t" "sb_inside t" "sb_mem t = mem" "sb_constant t" "sb_put t = None"
      using sb_initial_inside [OF assms(1,2), of None True] \<open>nat n \<le> length mem\<close> by auto
    then show ?thesis using sb_run_inside [OF t(2), of es] by auto
  qed
  show ?thesis using s c sb_run_inside [OF s(2), of es] by (auto simp: sb_array_new_def sb_const_new_def)
qed

theorem array_stream_stays_inside_witness:
  "\<exists>s rs s'. sb_array_new [Some 0, Some 0, Some 0] 2 (Some 1) = Inr s \<and>
     sb_run [PutC 7, PutC 8, PutC 9, GetC, GetC, SeekOff 0 seek_end True False, GetC] s = Inr (rs, s') \<and> length (sb_mem s') = 3"
  using array_stream_stays_inside [of "[Some 0, Some 0, Some 0]" 2 "Some 1"
      "[PutC 7, PutC 8, PutC 9, GetC, GetC, SeekOff 0 seek_end True False, GetC]"]
  by (simp del: sb_run.simps add: numeral_3_eq_3)

text \<open>
  A stream with an array of its own gives back what was written to it, as long as that fits the array the
  first character makes it allocate.
\<close>

theorem own_array_reads_back:
  assumes "cs \<noteq> []" "length cs \<le> sb_room alsize"
  shows "\<exists>s'. sb_run (map PutC cs @ replicate (length cs) GetC) (sb_dynamic_new alsize palloc) = Inr (map uint cs @ map uint cs, s')"
  using text_written [OF assms] text_read [OF assms] by (simp add: sb_run_append)

text \<open>
  It never grows. \<^verbatim>\<open>overflow\<close> gives the put area of the new array the size it had before, 0, and puts the write pointer
  behind its end; from then on it never equals the end, no call of \<^verbatim>\<open>overflow\<close> allocates again, and the
  first character that does not fit is written behind the array.
\<close>

theorem own_array_overrun:
  assumes "length cs = sb_room alsize"
  shows "sb_run (map PutC cs @ [PutC c]) (sb_dynamic_new alsize palloc) = Inl SB_BadAccess"
proof -
  have "cs \<noteq> []" using assms sb_room_pos [of alsize] by auto
  then show ?thesis using text_written [of cs alsize palloc] next_char [of cs c alsize palloc] assms by (simp add: sb_run_append)
qed

section \<open>The demangler\<close>

text \<open>
  C37: The demangler ends on every string and with any memory. A number of nested calls linear in the length of the string
  is enough, and allowing more changes nothing: the outcome, be it a name, no name or undefined behaviour, is
  a function of the string and of what the C library answers.
\<close>

theorem demangler_always_ends:
  assumes "2 * length org + 4 \<le> fuel"
  shows "cxa_demangle_gnu3 fuel org m \<noteq> Unfinished \<and>
    cxa_demangle_gnu3 fuel org m = cxa_demangle_gnu3 (2 * length org + 4) org m"
proof -
  have enough: "cxa_demangle_gnu3 (2 * length org + 4) org m \<noteq> Unfinished"
    using demangle_ends [of org "2 * length org + 4" m] by (auto simp: finishes_def)
  from demangle_better [OF this assms] enough show ?thesis by simp
qed

theorem demangler_always_ends_witness:
  "cxa_demangle_gnu3 50 ''_ZNSt3foo'' roomy_libc \<noteq> Unfinished \<and>
    cxa_demangle_gnu3 50 ''_ZNSt3foo'' roomy_libc = cxa_demangle_gnu3 22 ''_ZNSt3foo'' roomy_libc"
  using demangler_always_ends [of "''_ZNSt3foo''" 50 roomy_libc] by auto

text \<open>
  C38: Names written out in full are demangled. Given an encoding without substitutions of a function, a member of nested scopes with its
  qualifiers or a variable, with parameter types built from the one-letter types, class names, names of the standard library and the qualifiers, or of such a type alone, the
  demangler returns what a reader writes, in the words its table has for the one-letter types, with its length and the status 0: \<^verbatim>\<open>_ZNK3foo3barEPKc\<close> is \<^verbatim>\<open>foo::bar(char const*) const\<close>. No step
  of it is undefined and no assertion fails. Required: memory is never refused, there are at most 129 parameters
  (with more there is no name, \<open>too_many_parameters\<close>), a name has at most 130 components, and no identifier begins with a digit or a \<^verbatim>\<open>>\<close>, has
  a zero in it or two to the 63rd characters. The ABI's encoding replaces a component that comes a second time by a
  substitution (\<open>Dem_Abi\<close>): the last two parts say that it is this one when no component, a scope, a class or a qualified
  type, is repeated. With a repetition, as in \<^verbatim>\<open>_Z1f1AS_\<close>, nothing is stated.
\<close>

theorem names_are_demangled:
  assumes "plenty m" "name_ok xs" "list_all is_member_qualifier qs" "list_all type_ok ts" "length ts \<le> 129" "type_ok t" "2 \<le> fuel"
  shows "(\<exists>m'. cxa_demangle fuel (mangled qs xs ts) m =
      Done ((Some (shown_function qs xs ts), Some (length (shown_function qs xs ts)), 0), m')) \<and>
    (\<exists>m'. cxa_demangle fuel (mangled_type t) m = Done ((Some (shown_type t), Some (length (shown_type t)), 0), m')) \<and>
    (distinct (components xs ts) \<longrightarrow> abi_mangled qs xs ts = mangled qs xs ts) \<and>
    (distinct (type_components t) \<longrightarrow> fst (abi_type t []) = mangled_type t)"
proof -
  have "\<exists>m'. cxa_demangle fuel (mangled qs xs ts) m =
      Done ((Some (shown_function qs xs ts), Some (length (shown_function qs xs ts)), 0), m')"
    and "\<exists>m'. cxa_demangle fuel (mangled_type t) m = Done ((Some (shown_type t), Some (length (shown_type t)), 0), m')"
    using demangle_function [OF assms(1-5,7)] demangle_type [OF assms(1,6,7)] cxa_demangle_found by metis+
  then show ?thesis using abi_mangled_full [OF assms(2,4)] abi_type_full [OF assms(6)] by blast
qed

theorem names_are_demangled_witness:
  "abi_mangled ''K'' [''foo'', ''bar''] [Qualified TYPE_PTR (Qualified TYPE_CST (Builtin CHR ''c'')), Named [''A'']] = ''_ZNK3foo3barEPKc1A'' \<and>
   (\<exists>m'. cxa_demangle 9 ''_ZNK3foo3barEPKc1A'' roomy_libc = Done ((Some ''foo::bar(char const*, A) const'', Some 30, 0), m')) \<and>
    (\<exists>m'. cxa_demangle 9 ''R1A'' roomy_libc = Done ((Some ''A&'', Some 2, 0), m'))"
proof -
  let ?ts = "[Qualified TYPE_PTR (Qualified TYPE_CST (Builtin CHR ''c'')), Named [''A'']]" and ?t = "Qualified TYPE_REF (Named [''A''])"
  have digits: "show_nat (Suc 0) = ''1''" "show_nat (Suc (Suc (Suc 0))) = ''3''" by code_simp+
  have names: "mangled ''K'' [''foo'', ''bar''] ?ts = ''_ZNK3foo3barEPKc1A''" "mangled_type ?t = ''R1A''"
    "shown_function ''K'' [''foo'', ''bar''] ?ts = ''foo::bar(char const*, A) const''" "shown_type ?t = ''A&''"
    by (simp_all add: mangled_def mangled_name_def mangled_ident_def digits qualifier_letter_def qualifier_letters_def
      shown_function_def shown_params_def builtin_text_def builtin_types_def)
  have lengths: "length ''foo::bar(char const*, A) const'' = 30" "length ''A&'' = 2" by simp_all
  have "plenty roomy_libc \<and> name_ok [''foo'', ''bar''] \<and> list_all is_member_qualifier ''K'' \<and> list_all type_ok ?ts \<and> type_ok ?t"
    by (simp add: name_ok_def ident_def is_digit_def is_member_qualifier_def builtin_types_def)
  then show ?thesis
    using names_are_demangled [of roomy_libc "[''foo'', ''bar'']" "''K''" ?ts ?t 9] unfolding names lengths
    by (simp add: components_def)
qed

text \<open>
  A function of 130 parameters or more has no demangled name: the loop over the parameters stops at its limit and the
  answer is \<^verbatim>\<open>NULL\<close>, not a name cut short. With one parameter less the name is complete.
\<close>

theorem too_many_parameters:
  assumes "plenty m" "name_ok xs" "list_all is_member_qualifier qs" "list_all type_ok ts" "2 \<le> fuel"
  shows "\<exists>m'. cxa_demangle_gnu3 fuel (mangled qs xs ts) m =
    Done (if length ts < 130 then Some (shown_function qs xs ts) else None, m')"
proof (cases "length ts < 130")
  case True
  with demangle_function [OF assms(1-4) _ assms(5)] obtain m' where "cxa_demangle_gnu3 fuel (mangled qs xs ts) m = Done (Some (shown_function qs xs ts), m')"
    by fastforce
  with True show ?thesis by auto
next
  case False
  with demangle_too_many [OF assms(1-4) _ assms(5)] obtain m' where "cxa_demangle_gnu3 fuel (mangled qs xs ts) m = Done (None, m')" by fastforce
  with False show ?thesis by auto
qed

theorem too_many_parameters_witness:
  "\<exists>m'. cxa_demangle_gnu3 9 (mangled [] [''f''] (replicate 130 (Builtin CHR ''i''))) roomy_libc = Done (None, m')"
  using too_many_parameters [of roomy_libc "[''f'']" "[]" "replicate 130 (Builtin CHR ''i'')" 9]
  by (simp add: name_ok_def ident_def is_digit_def list_all_iff builtin_types_def)

text \<open>
  C39: The growable arrays of the demangler are lists. Whatever memory is refused, a series of pushes leaves a valid array that
  has got a prefix of the strings, and all of them if nothing is refused; removing takes the last one; joining, if memory
  is not refused, gives the concatenation, or nothing where that is empty; and inserting at the head puts the strings of the other array in front, or leaves the
  array as it was when memory is refused. None of these is undefined behaviour or fails an assertion. Searching for a string with the number \<open>l\<close>
  finds any element whose first \<open>l\<close> characters are those of the string, so also one that only begins with it, which the comment
  of the function does not say. After inserting at the head, the array is valid if there are two strings or more in all; with fewer it has no
  room to grow, and the next push aborts.
\<close>

theorem string_arrays_are_lists:
  assumes "vec_ok v" "vec_ok u"
  shows "yields (all_of (map push_string xs) (v, m)) False (\<lambda>(b, v', m'). vec_ok v' \<and> (plenty m \<longrightarrow> b) \<and>
      (\<exists>k \<le> length xs. vec_list v' = vec_list v @ take k xs \<and> (b \<longrightarrow> k = length xs))) \<and>
    vec_list (vector_str_pop v) = butlast (vec_list v) \<and>
    vector_str_find v str l = Done (\<exists>x \<in> set (vec_list v). take l x = take l str) \<and>
    yields (vector_str_get_flat v m) False (\<lambda>(r, _). plenty m \<longrightarrow>
      r = (if concat (vec_list v) = [] then None else Some (concat (vec_list v)))) \<and>
    yields (vector_str_push_vector_head u (v, m)) False (\<lambda>(b, v', m'). (plenty m \<longrightarrow> b) \<and>
      vec_list v' = (if b then vec_list u @ vec_list v else vec_list v) \<and>
      (if b \<and> vec_size v + vec_size u < 2 then vector_str_push str l (v', m') = run.Aborted else vec_ok v'))"
proof -
  have "yields (all_of (map push_string xs) (v, m)) False (\<lambda>(b, v', m'). vec_ok v' \<and> (plenty m \<longrightarrow> b) \<and>
      (\<exists>k \<le> length xs. vec_list v' = vec_list v @ take k xs \<and> (b \<longrightarrow> k = length xs)))"
    by (rule yields_mono [OF strs.append_series [OF assms(1)]]) auto
  moreover have "yields (vector_str_get_flat v m) False (\<lambda>(r, _). plenty m \<longrightarrow>
      r = (if concat (vec_list v) = [] then None else Some (concat (vec_list v))))"
    by (rule yields_mono [OF vector_str_get_flat_spec [OF assms(1)]]) (auto split: option.splits simp del: concat_eq_Nil_conv)
  moreover have "yields (vector_str_push_vector_head u (v, m)) False (\<lambda>(b, v', m'). (plenty m \<longrightarrow> b) \<and>
      vec_list v' = (if b then vec_list u @ vec_list v else vec_list v) \<and>
      (if b \<and> vec_size v + vec_size u < 2 then vector_str_push str l (v', m') = run.Aborted else vec_ok v'))"
  proof (cases "vec_size v + vec_size u < 2")
    case True
    then show ?thesis
      by (intro yields_mono [OF vector_str_push_vector_head_small [OF assms True, of m str l]]) (auto simp: assms(1) split: if_splits)
  next
    case False
    then have "2 \<le> vec_size v + vec_size u" by simp
    then show ?thesis
      by (intro yields_mono [OF vector_str_push_vector_head_spec [OF assms]]) auto
  qed
  ultimately show ?thesis using vector_str_pop_spec(2) [OF assms(1)] vector_str_find_spec [OF assms(1)] by blast
qed

theorem string_arrays_are_lists_witness:
  "\<exists>v :: vector_str. vec_list v = [''a'', ''bc''] \<and> vec_list (vector_str_pop v) = [''a''] \<and> vector_str_find v ''b'' 1 = Done True"
proof -
  let ?v = "\<lparr>vec_size = 2, vec_cap = 8, vec_ctn = [Some ''a'', Some ''bc'', None, None, None, None, None, None]\<rparr> :: vector_str"
  have "vec_ok ?v" "vec_list ?v = [''a'', ''bc'']" by (simp_all add: vec_ok_def vec_list_def)
  then show ?thesis
    using string_arrays_are_lists [of ?v ?v "[]" roomy_libc "''b''" 1] by (intro exI [of _ ?v]) simp
qed

section \<open>Uncaught exceptions\<close>

text \<open>
  C40: An exception that nothing catches is reported by the name of its type as it is written in C++, and then the
  terminate handler runs that the thread installed last, for itself or for all threads. The report has the message
  of the exception only if its type is \<^verbatim>\<open>std::exception\<close> itself. This is for an exception that was thrown and not rethrown through an
  \<^verbatim>\<open>exception_ptr\<close>, whose type is a class with a name of the kind C38 is about, so no template, where the unwinder comes to the end of the stack; for a
  thread that is the only one to have used the functions for handlers (otherwise the handler of another may run,
  \<open>thread_handlers_shared\<close>), with \<^verbatim>\<open>set_terminate\<close> the last of them it called; for a handler that does not return and is neither \<^verbatim>\<open>abort\<close> nor
  \<^verbatim>\<open>terminate\<close>; if handlers are those of all threads, the thread has none of its own from before; and where memory is not refused, to
  the demangler or for the thread's data.
\<close>

theorem uncaught_exception_reported:
  assumes "plenty m" "2 \<le> fuel" "store cs e = Some x" "\<not> isDependentException (unwind_class x)"
    and "rp_types E (exceptionType x) = Some t" "is_class t" "rp_exception E = Class_Type a n"
    and "rp_names E (ti_name t) = mangled_type ty" "type_ok ty"
    and "one_thread p i s" "memory" "set_terminate p memory i f s = Done (old, s1)"
    and "f \<notin> {0, fn_terminate F, fn_abort F}" "\<not> fn_returns F f"
    and "thread_local_handlers s \<or> th_terminateHandler (handlers_of p i s) = 0"
  shows "\<exists>s'. report_failure E F p memory i fuel URC_END_OF_STACK e cs m s1 =
    Done ((''Terminating due to uncaught exception '' @ rp_show_ptr E e @
           (if a = ti_addr t \<and> (of_nat (e + sizeof_cxa_exception) :: u64) \<noteq> 0
            then CHR '' '' # CHR 0x27 # rp_what E (of_nat (e + sizeof_cxa_exception)) @ [CHR 0x27] else []) @
           '' of type '' @ shown_type ty @ [CHR 0x0A],
           concat (map (trace (rp_show_ptr E) (rp_dladdr E) (rp_self E)) (rp_frames E))),
          Stays_In f, s')"
proof -
  obtain m' where name: "type_text E fuel t m = Done (shown_type ty, m')"
    using type_text_shown [OF assms(1,8,9,2)] .
  obtain s2 where s2: "set_terminate p memory i f s = Done (if thread_local_handlers s then th_terminateHandler (handlers_of p i s) else the_terminateHandler s, s2)"
    "one_thread p i s2"
    "th_terminateHandler (handlers_of p i s2) = (if thread_local_handlers s then f else th_terminateHandler (handlers_of p i s))"
    "the_terminateHandler s2 = (if thread_local_handlers s then the_terminateHandler s else f)"
    using set_terminate_own [OF assms(10,11)] .
  have s1: "one_thread p i s1" using s2(1,2) assms(12) by simp
  have "current_terminate p i s1 = f" using s2 assms(12,13,15) by (auto simp: current_terminate_def)
  then obtain s' where "terminate F p memory i s1 = Done (Stays_In f, s')"
    using terminate_stays [OF s1 assms(11) _ assms(13,14)] by blast
  with name show ?thesis
    using assms(3-5) what_text_class [OF assms(7,6)]
    by (simp add: report_failure_def failure_text_def realExceptionFromException_def)
qed

definition sample_report :: report_env where
  "sample_report = \<lparr>rp_show_ptr = (\<lambda>p. ''0x'' @ show_nat p), rp_types = (\<lambda>t. if t = 5 then Some (Si_Class_Type 5 6 (Class_Type 1 2)) else None),
     rp_names = (\<lambda>n. if n = 6 then ''St13runtime_error'' else ''St9exception''), rp_exception = Class_Type 1 2,
     rp_memory = (\<lambda>_. None), rp_what = (\<lambda>_. ''bind error''), rp_dladdr = (\<lambda>_. None), rp_self = 0, rp_frames = []\<rparr>"

definition sample_handlers :: eh_handlers where
  "sample_handlers = \<lparr>fakeTLS = False, key_created = False, singleThreadInfo = no_handlers, thread_infos = (\<lambda>_. None),
     the_terminateHandler = 1, the_unexpectedHandler = 2, thread_local_handlers = False, static_info = (\<lambda>_. None)\<rparr>"

definition sample_fns :: fn_table where
  "sample_fns = \<lparr>fn_abort = 1, fn_terminate = 2, fn_returns = (\<lambda>_. False)\<rparr>"

definition posix_threads :: pthread_lib where
  "posix_threads = \<lparr>has_once = True, has_keys = True, keys_work = True\<rparr>"

theorem uncaught_exception_reported_witness:
  "\<exists>s1 s'. set_terminate posix_threads True 7 40 sample_handlers = Done (1, s1) \<and>
    report_failure sample_report sample_fns posix_threads True 7 9 URC_END_OF_STACK 9
      \<lparr>store = (\<lambda>e. if e = 9 then Some (zero_header\<lparr>exceptionType := 5, unwind_class := exception_class\<rparr>) else None), caughtExceptions = 0,
        uncaughtExceptions = 1, foreign_exception_state = no_foreign, ti_unexpectedHandler = 0, ti_terminateHandler = 0,
        unexpectedHandler = 2, terminateHandler = 1, destroyed = []\<rparr> roomy_libc s1 =
    Done ((''Terminating due to uncaught exception 0x9 of type std::runtime_error'' @ [CHR 0x0A], []), Stays_In 40, s')"
proof -
  let ?x = "zero_header\<lparr>exceptionType := 5, unwind_class := exception_class\<rparr>"
  let ?cs = "\<lparr>store = (\<lambda>e. if e = 9 then Some ?x else None), caughtExceptions = 0,
        uncaughtExceptions = 1, foreign_exception_state = no_foreign, ti_unexpectedHandler = 0, ti_terminateHandler = 0,
        unexpectedHandler = 2, terminateHandler = 1, destroyed = []\<rparr>"
  let ?s1 = "sample_handlers\<lparr>the_terminateHandler := 40\<rparr>"
  have set: "set_terminate posix_threads True 7 40 sample_handlers = Done (1, ?s1)"
    by (simp add: set_terminate_def sample_handlers_def)
  have one: "one_thread posix_threads 7 sample_handlers"
    by (simp add: one_thread_def sample_handlers_def)
  have digits: "show_nat 9 = ''9''" "show_nat (Suc (Suc (Suc (Suc (Suc (Suc (Suc (Suc (Suc (Suc (Suc (Suc (Suc 0))))))))))))) = ''13''" by code_simp+
  have name: "''St13runtime_error'' = mangled_type (Std_Named ''runtime_error'')" by (simp add: mangled_ident_def digits)
  have "\<exists>s'. report_failure sample_report sample_fns posix_threads True 7 9 URC_END_OF_STACK 9 ?cs roomy_libc ?s1 =
    Done ((''Terminating due to uncaught exception '' @ rp_show_ptr sample_report 9 @
           (if 1 = ti_addr (Si_Class_Type 5 6 (Class_Type 1 2)) \<and> (of_nat (9 + sizeof_cxa_exception) :: u64) \<noteq> 0
            then CHR '' '' # CHR 0x27 # rp_what sample_report (of_nat (9 + sizeof_cxa_exception)) @ [CHR 0x27] else []) @
           '' of type '' @ shown_type (Std_Named ''runtime_error'') @ [CHR 0x0A],
           concat (map (trace (rp_show_ptr sample_report) (rp_dladdr sample_report) (rp_self sample_report)) (rp_frames sample_report))),
          Stays_In 40, s')"
    by (rule uncaught_exception_reported [where x = ?x and t = "Si_Class_Type 5 6 (Class_Type 1 2)" and a = 1 and n = 2
        and ty = "Std_Named ''runtime_error''" and s = sample_handlers and f = 40 and memory = True and i = 7 and p = posix_threads
        and F = sample_fns, OF _ _ _ _ _ _ _ _ _ one _ set])
      (simp_all add: sample_report_def name ident_def is_digit_def sample_fns_def isDependentException_def sample_handlers_def
        handlers_of_def no_handlers_def)
  then show ?thesis using set by (auto simp: sample_report_def digits)
qed

text \<open>
  With handlers that belong to threads, a second thread that sets its handler sets that of the first, whose data the
  static variable has kept; its own stays as it was.
\<close>

theorem thread_handlers_shared:
  "\<exists>s1 s2. set_terminate posix_threads True 1 40 (set_use_thread_local_handlers True sample_handlers) = Done (0, s1) \<and>
    set_terminate posix_threads True 2 50 s1 = Done (40, s2) \<and>
    (\<exists>s3. get_terminate posix_threads True 2 s2 = Done (1, s3)) \<and> (\<exists>s3. get_terminate posix_threads True 1 s2 = Done (50, s3))"
  by (simp add: set_terminate_def pathscale_set_terminate_def static_thread_info_def thread_info_def get_terminate_def info_at_def
      store_info_def set_use_thread_local_handlers_def sample_handlers_def posix_threads_def init_key_def no_handlers_def)

text \<open>And when the first thread has ended, it writes to memory that was freed.\<close>

theorem thread_handlers_freed:
  "\<exists>s1. set_terminate posix_threads True 1 40 (set_use_thread_local_handlers True sample_handlers) = Done (0, s1) \<and>
    set_terminate posix_threads True 2 50 (thread_cleanup 1 s1) = Undefined"
  by (simp add: set_terminate_def pathscale_set_terminate_def static_thread_info_def thread_info_def info_at_def
      store_info_def set_use_thread_local_handlers_def sample_handlers_def posix_threads_def init_key_def no_handlers_def thread_cleanup_def)

end
